(* ===== verification/Prelude.thy ===== *)
theory Prelude
  imports Main "HOL-Library.Monad_Syntax"
begin

text \<open>
  Shared vocabulary of the development.  Go code that indexes or slices out of range panics;
  the model makes the panic a value: an operation that can panic has type \<open>'a go\<close>, with
  \<open>None\<close> for the panic.  Go's \<open>int\<close> is \<open>int\<close>, a \<open>rune\<close> is a code point, a
  Go string handled rune by rune is a list of \<open>runes\<close>, and one handled byte by byte is a HOL
  \<open>string\<close> (whose \<open>char\<close> is a byte).
\<close>

named_theorems go_simps \<open>evaluation of the indexing and slicing primitives\<close>
named_theorems inv_intros \<open>operations keep the invariant of their component\<close>

section \<open>Panics, indexing, slicing\<close>

type_synonym 'a go = "'a option"

type_synonym rune = nat

type_synonym runes = "rune list"

abbreviation len :: "'a list \<Rightarrow> int" where
  "len xs \<equiv> int (length xs)"

text \<open>\<open>xs[i]\<close>: panics unless \<open>0 \<le> i < len(xs)\<close>.\<close>

definition go_index :: "'a list \<Rightarrow> int \<Rightarrow> 'a go" where
  "go_index xs i = (if 0 \<le> i \<and> i < len xs then Some (xs ! nat i) else None)"

text \<open>\<open>xs[lo:hi]\<close>: panics unless \<open>0 \<le> lo \<le> hi \<le> len(xs)\<close>.\<close>

definition go_slice :: "'a list \<Rightarrow> int \<Rightarrow> int \<Rightarrow> 'a list go" where
  "go_slice xs lo hi =
     (if 0 \<le> lo \<and> lo \<le> hi \<and> hi \<le> len xs
      then Some (take (nat hi - nat lo) (drop (nat lo) xs)) else None)"

text \<open>\<open>xs[i] = v\<close>: panics unless the index is in range.\<close>

definition go_set :: "'a list \<Rightarrow> int \<Rightarrow> 'a \<Rightarrow> 'a list go" where
  "go_set xs i v = (if 0 \<le> i \<and> i < len xs then Some (xs[nat i := v]) else None)"

lemma go_index_Some_iff:
  "go_index xs i = Some x \<longleftrightarrow> 0 \<le> i \<and> i < len xs \<and> x = xs ! nat i"
  by (auto simp: go_index_def)

lemma go_index_in [go_simps]:
  "0 \<le> i \<Longrightarrow> i < len xs \<Longrightarrow> go_index xs i = Some (xs ! nat i)"
  by (simp add: go_index_def)

lemma go_slice_in [go_simps]:
  "0 \<le> lo \<Longrightarrow> lo \<le> hi \<Longrightarrow> hi \<le> len xs \<Longrightarrow>
   go_slice xs lo hi = Some (take (nat hi - nat lo) (drop (nat lo) xs))"
  by (simp add: go_slice_def)

lemma go_slice_prefix [go_simps]:
  "0 \<le> hi \<Longrightarrow> hi \<le> len xs \<Longrightarrow> go_slice xs 0 hi = Some (take (nat hi) xs)"
  by (simp add: go_slice_def)

lemma go_slice_suffix [go_simps]:
  "0 \<le> lo \<Longrightarrow> lo \<le> len xs \<Longrightarrow> go_slice xs lo (len xs) = Some (drop (nat lo) xs)"
  by (simp add: go_slice_def)

lemma go_set_in [go_simps]:
  "0 \<le> i \<Longrightarrow> i < len xs \<Longrightarrow> go_set xs i v = Some (xs[nat i := v])"
  by (simp add: go_set_def)

lemma go_index_append_middle [go_simps]:
  "go_index (xs @ y # ys) (len xs) = Some y"
  by (simp add: go_index_def)

lemma nat_int_plus1 [go_simps]: "nat (int n + 1) = Suc n"
  by simp

text \<open>Reads at a known split of the list.\<close>

lemma go_index_at: "xs = as @ x # bs \<Longrightarrow> i = len as \<Longrightarrow> go_index xs i = Some x"
  by (simp add: go_index_def)

lemma go_slice_at:
  assumes "xs = as @ bs @ cs" and "i = len as" and "j = len as + len bs"
  shows "go_slice xs i j = Some bs"
  using assms by (simp add: go_slice_def nat_add_distrib)

section \<open>Lists\<close>

lemma set_take_drop_subset: "set (take n (drop m xs)) \<subseteq> set xs"
  by (meson order_trans set_drop_subset set_take_subset)

lemma list_split_at:
  assumes "i < length xs"
  obtains ys zs where "xs = ys @ xs ! i # zs" and "length ys = i"
  using assms by (metis id_take_nth_drop length_take min.absorb4)

lemma take_drop_append_mid:
  "length xs = n \<Longrightarrow> take m (drop n (xs @ ys @ zs)) = take m (ys @ zs)"
  by simp

text \<open>A left fold of steps that all keep a property keeps it.\<close>

lemma foldl_invariant:
  assumes "P s" and "\<And>s x. P s \<Longrightarrow> x \<in> set xs \<Longrightarrow> P (f s x)"
  shows "P (foldl f s xs)"
  using assms by (induction xs arbitrary: s) auto

section \<open>Counting loops\<close>

text \<open>
  \<open>for i <= hi && P(i) { i++ }\<close> and \<open>for i >= lo && P(i) { i-- }\<close>: the index where the loop
  stops, or the panic of \<open>P\<close>.
\<close>

function scan_up :: "(int \<Rightarrow> bool go) \<Rightarrow> int \<Rightarrow> int \<Rightarrow> int go" where
  "scan_up P hi i =
     (if i > hi then Some i
      else case P i of None \<Rightarrow> None | Some b \<Rightarrow> if b then scan_up P hi (i + 1) else Some i)"
  by auto
termination by (relation "measure (\<lambda>(P, hi, i). nat (hi + 1 - i))") auto

function scan_down :: "(int \<Rightarrow> bool go) \<Rightarrow> int \<Rightarrow> int \<Rightarrow> int go" where
  "scan_down P lo i =
     (if i < lo then Some i
      else case P i of None \<Rightarrow> None | Some b \<Rightarrow> if b then scan_down P lo (i - 1) else Some i)"
  by auto
termination by (relation "measure (\<lambda>(P, lo, i). nat (i + 1 - lo))") auto

declare scan_up.simps [simp del] scan_down.simps [simp del]

lemma scan_up_stops:
  "(\<And>k. i \<le> k \<Longrightarrow> k \<le> hi \<Longrightarrow> P k \<noteq> None) \<Longrightarrow>
   \<exists>j. scan_up P hi i = Some j \<and> i \<le> j \<and> j \<le> max i (hi + 1) \<and>
     (\<forall>k. i \<le> k \<and> k < j \<longrightarrow> P k = Some True) \<and> (j \<le> hi \<longrightarrow> P j = Some False)"
proof (induction P hi i rule: scan_up.induct)
  case (1 P hi i)
  show ?case
  proof (cases "i > hi")
    case True
    then show ?thesis by (auto simp: scan_up.simps)
  next
    case False
    with "1.prems" obtain b where b: "P i = Some b" by (meson linorder_not_le option.exhaust order_refl)
    show ?thesis
    proof (cases b)
      case True
      from "1.IH" [OF False b True] "1.prems" obtain j where
        j: "scan_up P hi (i + 1) = Some j" "i + 1 \<le> j" "j \<le> max (i + 1) (hi + 1)"
          "\<forall>k. i + 1 \<le> k \<and> k < j \<longrightarrow> P k = Some True" "j \<le> hi \<longrightarrow> P j = Some False" by auto
      moreover have "\<forall>k. i \<le> k \<and> k < j \<longrightarrow> P k = Some True"
      proof (intro allI impI)
        fix k assume "i \<le> k \<and> k < j"
        then show "P k = Some True" using j(4) b True by (cases "k = i") auto
      qed
      ultimately show ?thesis using False b True by (subst scan_up.simps) auto
    next
      case c: False
      then show ?thesis using False b by (subst scan_up.simps) auto
    qed
  qed
qed

lemma scan_down_stops:
  "(\<And>k. lo \<le> k \<Longrightarrow> k \<le> i \<Longrightarrow> P k \<noteq> None) \<Longrightarrow>
   \<exists>j. scan_down P lo i = Some j \<and> j \<le> i \<and> min i (lo - 1) \<le> j \<and>
     (\<forall>k. j < k \<and> k \<le> i \<longrightarrow> P k = Some True) \<and> (lo \<le> j \<longrightarrow> P j = Some False)"
proof (induction P lo i rule: scan_down.induct)
  case (1 P lo i)
  show ?case
  proof (cases "i < lo")
    case True
    then show ?thesis by (auto simp: scan_down.simps)
  next
    case False
    with "1.prems" obtain b where b: "P i = Some b" by (meson linorder_not_le option.exhaust order_refl)
    show ?thesis
    proof (cases b)
      case True
      from "1.IH" [OF False b True] "1.prems" obtain j where
        j: "scan_down P lo (i - 1) = Some j" "j \<le> i - 1" "min (i - 1) (lo - 1) \<le> j"
          "\<forall>k. j < k \<and> k \<le> i - 1 \<longrightarrow> P k = Some True" "lo \<le> j \<longrightarrow> P j = Some False" by auto
      moreover have "\<forall>k. j < k \<and> k \<le> i \<longrightarrow> P k = Some True"
      proof (intro allI impI)
        fix k assume "j < k \<and> k \<le> i"
        then show "P k = Some True" using j(4) b True by (cases "k = i") auto
      qed
      ultimately show ?thesis using False b True by (subst scan_down.simps) auto
    next
      case c: False
      then show ?thesis using False b by (subst scan_down.simps) auto
    qed
  qed
qed

section \<open>Text\<close>

text \<open>Go's \<open>unicode.IsSpace\<close> and \<open>strings.TrimSpace\<close>.\<close>

definition unicode_IsSpace :: "rune \<Rightarrow> bool" where
  "unicode_IsSpace r \<longleftrightarrow>
     9 \<le> r \<and> r \<le> 13 \<or> r = 0x20 \<or> r = 0x85 \<or> r = 0xA0 \<or> r = 0x1680 \<or>
     0x2000 \<le> r \<and> r \<le> 0x200A \<or> r = 0x2028 \<or> r = 0x2029 \<or> r = 0x202F \<or> r = 0x205F \<or> r = 0x3000"

definition TrimSpace :: "runes \<Rightarrow> runes" where
  "TrimSpace rs = rev (dropWhile unicode_IsSpace (rev (dropWhile unicode_IsSpace rs)))"

section \<open>Searching and removing\<close>

lemma find_append: "find P (xs @ ys) = (case find P xs of None \<Rightarrow> find P ys | Some x \<Rightarrow> Some x)"
  by (induction xs) auto

lemma find_SomeD: "find P xs = Some x \<Longrightarrow> x \<in> set xs \<and> P x"
  by (induction xs) (auto split: if_splits)

text \<open>The deletion of the first match, as \<open>append(s[:i], s[i+1:]...)\<close> in a search loop.\<close>

fun removeFirst :: "('a \<Rightarrow> bool) \<Rightarrow> 'a list \<Rightarrow> 'a list" where
  "removeFirst P [] = []"
| "removeFirst P (x # xs) = (if P x then xs else x # removeFirst P xs)"

lemma removeFirst_sub: "\<exists>xs ys zs. es = xs @ ys @ zs \<and> removeFirst P es = xs @ zs"
proof (induction es)
  case (Cons e es)
  then obtain xs ys zs where "es = xs @ ys @ zs \<and> removeFirst P es = xs @ zs" by blast
  then show ?case
    by (cases "P e") (force intro: exI [of _ "[]"] exI [of _ "[e]"], force intro: exI [of _ "e # xs"])
qed simp

lemma filter_removeFirst: "length (filter P xs) \<le> 1 \<Longrightarrow> filter P (removeFirst P xs) = []"
proof (induction xs)
  case (Cons x xs)
  then show ?case by (cases "P x") simp_all
qed simp

lemma set_removeFirst: "set (removeFirst P xs) \<subseteq> set xs"
  by (induction xs) auto

lemma removeFirst_None: "find P xs = None \<Longrightarrow> removeFirst P xs = xs"
  by (induction xs) (auto split: if_splits)

lemma removeFirst_last: "find P xs = Some m \<Longrightarrow> length (filter P xs) \<le> 1 \<Longrightarrow> P (last xs) \<Longrightarrow> removeFirst P xs @ [m] = xs"
proof (induction xs)
  case (Cons x xs)
  show ?case
  proof (cases "P x")
    case True
    then have "filter P xs = []" using Cons.prems(2) by simp
    then have "xs = []" using Cons.prems(3) True by (metis last_ConsR last_in_set filter_empty_conv)
    then show ?thesis using Cons.prems(1) True by simp
  next
    case False
    then show ?thesis using Cons by (cases "xs = []") auto
  qed
qed simp

lemma around_nth: "m < length xs \<Longrightarrow> xs = take m xs @ [xs ! m] @ drop (Suc m) xs"
  by (simp add: id_take_nth_drop [symmetric])

end
