(* ===== verification/EditorText.thy ===== *)
theory EditorText
  imports Prelude
begin

text \<open>
  The text model of the SQL editor (\<open>pkg/gui/editor/buffer.go\<close>): positions, ranges, rows of
  runes, splitting text on newlines and advancing a position over it.  The abstract view of
  the rows is the flat text \<open>stringLocked\<close> with a rune offset per position; the lemmas
  relate the two.
\<close>

section \<open>Positions and ranges\<close>

record position =
  Line :: int
  Col :: int

record erange =
  Start :: position
  End :: position
  LineWise :: bool
  BlockWise :: bool

type_synonym line = runes

abbreviation Pos :: "int \<Rightarrow> int \<Rightarrow> position" where
  "Pos l c \<equiv> \<lparr>Line = l, Col = c\<rparr>"

text \<open>The character-wise range \<open>[s, e)\<close>.\<close>

abbreviation Chars :: "position \<Rightarrow> position \<Rightarrow> erange" where
  "Chars s e \<equiv> \<lparr>Start = s, End = e, LineWise = False, BlockWise = False\<rparr>"

definition newline :: rune where
  "newline = 10"

definition posLess :: "position \<Rightarrow> position \<Rightarrow> bool" where
  "posLess a b = (if Line a \<noteq> Line b then Line a < Line b else Col a < Col b)"

definition minMax :: "int \<Rightarrow> int \<Rightarrow> int \<times> int" where
  "minMax a b = (if a > b then (b, a) else (a, b))"

section \<open>Splitting on newlines\<close>

fun splitTextOnNewline :: "runes \<Rightarrow> line list" where
  "splitTextOnNewline [] = [[]]"
| "splitTextOnNewline (r # rs) =
     (if r = newline then [] # splitTextOnNewline rs
      else (case splitTextOnNewline rs of
              c # cs \<Rightarrow> (r # c) # cs
            | [] \<Rightarrow> [[r]]))"

text \<open>Rows joined by a newline, as \<open>stringLocked\<close> writes them.\<close>

fun stringLocked :: "line list \<Rightarrow> runes" where
  "stringLocked [] = []"
| "stringLocked [l] = l"
| "stringLocked (l # ls) = l @ newline # stringLocked ls"

text \<open>Rows, each ended (\<open>lines_pre\<close>) or begun (\<open>lines_post\<close>) by a newline.\<close>

definition lines_pre :: "line list \<Rightarrow> runes" where
  "lines_pre ls = concat (map (\<lambda>l. l @ [newline]) ls)"

definition lines_post :: "line list \<Rightarrow> runes" where
  "lines_post ls = concat (map (\<lambda>l. newline # l) ls)"

lemma lines_pre_simps [simp]:
  "lines_pre [] = []" "lines_pre (l # ls) = l @ newline # lines_pre ls"
  "lines_pre (xs @ ys) = lines_pre xs @ lines_pre ys"
  by (auto simp: lines_pre_def)

lemma lines_post_simps [simp]:
  "lines_post [] = []" "lines_post (l # ls) = newline # l @ lines_post ls"
  "lines_post (xs @ ys) = lines_post xs @ lines_post ys"
  by (auto simp: lines_post_def)

lemma lines_post_newline: "lines_post ls @ [newline] = newline # lines_pre ls"
  by (induction ls) auto

lemma lines_post_newline_append: "lines_post ls @ newline # t = newline # lines_pre ls @ t"
  by (metis append.assoc append_Cons append_Nil lines_post_newline)

lemma length_lines_post: "length (lines_post ls) = length (lines_pre ls)"
  by (induction ls) auto

lemma stringLocked_Cons: "stringLocked (l # ls) = l @ lines_post ls"
  by (induction ls arbitrary: l) auto

lemma stringLocked_middle: "stringLocked (xs @ l # ys) = lines_pre xs @ l @ lines_post ys"
proof (induction xs)
  case Nil
  then show ?case by (simp add: stringLocked_Cons)
next
  case (Cons x xs)
  then show ?case by (cases xs) (auto simp: stringLocked_Cons lines_post_newline_append)
qed

text \<open>Rows as the editor keeps them: no row holds a newline.\<close>

definition rows_ok :: "line list \<Rightarrow> bool" where
  "rows_ok ls \<longleftrightarrow> (\<forall>l \<in> set ls. newline \<notin> set l)"

lemma rows_ok_simps [simp]:
  "rows_ok []" "rows_ok (l # ls) \<longleftrightarrow> newline \<notin> set l \<and> rows_ok ls"
  "rows_ok (xs @ ys) \<longleftrightarrow> rows_ok xs \<and> rows_ok ys"
  by (auto simp: rows_ok_def)

lemma rows_ok_take_drop [simp]: "rows_ok ls \<Longrightarrow> rows_ok (take n (drop m ls))"
  by (auto simp: rows_ok_def dest: in_set_takeD in_set_dropD)

lemma rows_ok_take [simp]: "rows_ok ls \<Longrightarrow> rows_ok (take n ls)"
  by (auto simp: rows_ok_def dest: in_set_takeD)

lemma rows_ok_drop [simp]: "rows_ok ls \<Longrightarrow> rows_ok (drop n ls)"
  by (auto simp: rows_ok_def dest: in_set_dropD)

lemma newline_notin_take [simp]: "newline \<notin> set l \<Longrightarrow> newline \<notin> set (take n l)"
  by (auto dest: in_set_takeD)

lemma newline_notin_drop [simp]: "newline \<notin> set l \<Longrightarrow> newline \<notin> set (drop n l)"
  by (auto dest: in_set_dropD)

lemma split_nonempty [simp]: "splitTextOnNewline t \<noteq> []"
  by (cases t) (auto split: list.splits)

lemma split_Nil_iff: "splitTextOnNewline t = [c] \<longleftrightarrow> newline \<notin> set t \<and> c = t"
proof (induction t arbitrary: c)
  case Nil
  then show ?case by auto
next
  case (Cons r t)
  then show ?case by (cases "splitTextOnNewline t") auto
qed

lemma rows_ok_split [simp]: "rows_ok (splitTextOnNewline t)"
  by (induction t) (auto split: list.splits)

lemma string_split [simp]: "stringLocked (splitTextOnNewline t) = t"
proof (induction t)
  case Nil
  then show ?case by simp
next
  case (Cons r t)
  then show ?case by (cases "splitTextOnNewline t") (auto simp: stringLocked_Cons)
qed

lemma split_append_row: "newline \<notin> set l \<Longrightarrow>
    splitTextOnNewline (l @ t) = (l @ hd (splitTextOnNewline t)) # tl (splitTextOnNewline t)"
  by (induction l) (auto split: list.splits)

lemma split_post: "rows_ok ls \<Longrightarrow> splitTextOnNewline (lines_post ls) = [] # ls"
  by (induction ls) (auto simp: split_append_row)

lemma split_string [simp]: "rows_ok ls \<Longrightarrow> ls \<noteq> [] \<Longrightarrow> splitTextOnNewline (stringLocked ls) = ls"
  by (cases ls) (auto simp: stringLocked_Cons split_append_row split_post)

text \<open>Nonempty row lists with no newline inside a row are determined by their text.\<close>

lemma string_inject:
  "rows_ok ls \<Longrightarrow> rows_ok ms \<Longrightarrow> ls \<noteq> [] \<Longrightarrow> ms \<noteq> [] \<Longrightarrow>
   stringLocked ls = stringLocked ms \<longleftrightarrow> ls = ms"
  by (metis split_string)

section \<open>Advancing a position over text\<close>

text \<open>
  \<open>utf8.RuneCountInString\<close> of a text is its length; \<open>strings.Count(text, "\n")\<close> counts
  its newlines; the runes after \<open>strings.LastIndex(text, "\n")\<close> are \<open>after_last_newline\<close>.
\<close>

definition after_last_newline :: "runes \<Rightarrow> runes" where
  "after_last_newline t = rev (takeWhile (\<lambda>r. r \<noteq> newline) (rev t))"

definition advancePos :: "position \<Rightarrow> runes \<Rightarrow> position" where
  "advancePos p t =
     (if t = [] then p
      else let nl = int (count_list t newline) in
        if nl = 0 then Pos (Line p) (Col p + len t)
        else Pos (Line p + nl) (len (after_last_newline t)))"

definition EndOfInsert :: "position \<Rightarrow> runes \<Rightarrow> position" where
  "EndOfInsert p t = advancePos p t"

lemma length_split: "length (splitTextOnNewline t) = Suc (count_list t newline)"
proof (induction t)
  case Nil
  then show ?case by simp
next
  case (Cons r t)
  then show ?case by (cases "splitTextOnNewline t") auto
qed

lemma last_split: "last (splitTextOnNewline t) = after_last_newline t"
proof (induction t)
  case Nil
  then show ?case by (simp add: after_last_newline_def)
next
  case (Cons r t)
  show ?case
  proof (cases "newline \<in> set t")
    case True
    then have "after_last_newline (r # t) = after_last_newline t"
      by (simp add: after_last_newline_def takeWhile_append1)
    moreover have "tl (splitTextOnNewline t) \<noteq> []"
      using True by (metis length_split count_list_0_iff length_tl diff_Suc_1 length_0_conv)
    ultimately show ?thesis
      using Cons by (cases "splitTextOnNewline t") auto
  next
    case False
    then have "splitTextOnNewline t = [t]" by (simp add: split_Nil_iff)
    moreover have "takeWhile (\<lambda>r. r \<noteq> newline) (rev t @ [r]) =
        rev t @ takeWhile (\<lambda>r. r \<noteq> newline) [r]"
      using False by (intro takeWhile_append2) auto
    ultimately show ?thesis
      by (auto simp: after_last_newline_def)
  qed
qed

lemma advancePos_split:
  "advancePos p t =
     (let cs = splitTextOnNewline t in
      if length cs = 1 then Pos (Line p) (Col p + len t)
      else Pos (Line p + len cs - 1) (len (last cs)))"
  by (auto simp: advancePos_def Let_def length_split last_split)

section \<open>Flat offsets\<close>

text \<open>
  The rune offset of a position in the joined text: the rows before it, each with its
  newline, plus the column (compare \<open>posToRuneOffset\<close>).
\<close>

definition offset :: "line list \<Rightarrow> position \<Rightarrow> nat" where
  "offset ls p = length (lines_pre (take (nat (Line p)) ls)) + nat (Col p)"

lemma offset_middle:
  "offset (xs @ ys) (Pos (len xs) (int c)) = length (lines_pre xs) + c"
  by (simp add: offset_def)

lemma posLess_irrefl [simp]: "\<not> posLess p p"
  by (simp add: posLess_def)

lemma posLess_antisym: "posLess a b \<Longrightarrow> \<not> posLess b a"
  by (auto simp: posLess_def split: if_splits)

lemma not_posLess_both: "\<not> posLess a b \<Longrightarrow> \<not> posLess b a \<Longrightarrow> a = b"
  by (cases a; cases b) (auto simp: posLess_def split: if_splits)

end
