(* ===== verification/UndoTree.thy ===== *)
theory UndoTree
  imports EditorText
begin

text \<open>
  The branching undo history (\<open>pkg/gui/editor/edit.go\<close>, \<open>undo.go\<close>).  A \<open>Node\<close> is a value
  of \<open>unode\<close>; the parent pointers are implicit and the cursor \<open>current\<close> is the path of
  child indices from the root sentinel.  The abstract view is a line of edits with a cursor:
  \<open>past\<close> (root to cursor) and \<open>future\<close> (the branch that Redo walks).  The lemmas say that
  the cursor never leaves that line, that the node count is exact and never above the cap,
  and what Apply, Undo and Redo do to the line.
\<close>

section \<open>Edits\<close>

datatype edit_kind = EditKindZero | EditKindInsert | EditKindDelete | EditKindReplace

datatype edit =
  Edit (Kind: edit_kind) (Range: erange) (Text: runes) (reverse: "edit option")
    (restoreLinewise: bool) (keepEmptyLine: bool)

definition zeroEdit :: edit where
  "zeroEdit = Edit EditKindZero (Chars (Pos 0 0) (Pos 0 0)) [] None False False"

definition Reverse :: "edit \<Rightarrow> edit" where
  "Reverse e = (case reverse e of None \<Rightarrow> zeroEdit | Some r \<Rightarrow> r)"

text \<open>An edit as a caller of \<open>Buffer.Apply\<close> writes it, and one with its reverse filled in.\<close>

definition mkEdit :: "edit_kind \<Rightarrow> erange \<Rightarrow> runes \<Rightarrow> edit" where
  "mkEdit k r t = Edit k r t None False False"

definition setReverse :: "edit \<Rightarrow> edit \<Rightarrow> edit" where
  "setReverse e rv = Edit (Kind e) (Range e) (Text e) (Some rv) (restoreLinewise e) (keepEmptyLine e)"

lemma mkEdit_sel [simp]:
  "Kind (mkEdit k r t) = k" "Range (mkEdit k r t) = r" "Text (mkEdit k r t) = t"
  "reverse (mkEdit k r t) = None" "\<not> restoreLinewise (mkEdit k r t)" "\<not> keepEmptyLine (mkEdit k r t)"
  by (auto simp: mkEdit_def)

lemma setReverse_sel [simp]:
  "Kind (setReverse e v) = Kind e" "Range (setReverse e v) = Range e" "Text (setReverse e v) = Text e"
  "restoreLinewise (setReverse e v) = restoreLinewise e"
  "keepEmptyLine (setReverse e v) = keepEmptyLine e"
  "Reverse (setReverse e v) = v"
  by (auto simp: setReverse_def Reverse_def)

section \<open>The tree\<close>

datatype unode = UNode (node_edit: edit) (node_children: "unode list")

record undo_tree =
  root :: unode
  current :: "nat list"
  node_count :: int
  ucap :: int

definition undoCap :: int where
  "undoCap = 1000"

definition NewUndoTree :: "int \<Rightarrow> undo_tree" where
  "NewUndoTree maxNodes =
     \<lparr>root = UNode zeroEdit [], current = [], node_count = 0,
      ucap = (if maxNodes \<le> 0 then undoCap else maxNodes)\<rparr>"

fun node_at :: "unode \<Rightarrow> nat list \<Rightarrow> unode option" where
  "node_at n [] = Some n"
| "node_at n (i # is) =
     (if i < length (node_children n) then node_at (node_children n ! i) is else None)"

fun prepend_child :: "nat list \<Rightarrow> unode \<Rightarrow> unode \<Rightarrow> unode" where
  "prepend_child [] n p = UNode (node_edit p) (n # node_children p)"
| "prepend_child (i # is) n p =
     (if i < length (node_children p)
      then UNode (node_edit p)
             ((node_children p)[i := prepend_child is n (node_children p ! i)])
      else p)"

fun subtreeSize :: "unode \<Rightarrow> nat" where
  "subtreeSize (UNode e cs) = Suc (sum_list (map subtreeSize cs))"

text \<open>
  \<open>evictOnce\<close>: with several branches at the root the oldest (last) one is dropped; with one,
  its node becomes the root sentinel unless it is the cursor.
\<close>

definition evictOnce :: "undo_tree \<Rightarrow> undo_tree \<times> bool" where
  "evictOnce t =
     (let cs = node_children (root t) in
      if cs = [] then (t, False)
      else if length cs > 1 then
        (t\<lparr>root := UNode (node_edit (root t)) (butlast cs),
           node_count := node_count t - int (subtreeSize (last cs))\<rparr>, True)
      else if current t = [0] then (t, False)
      else (t\<lparr>root := UNode zeroEdit (node_children (hd cs)),
              current := tl (current t), node_count := node_count t - 1\<rparr>, True))"

lemma subtreeSize_eq: "subtreeSize n = Suc (sum_list (map subtreeSize (node_children n)))"
  by (cases n) simp

lemma sum_list_butlast_less:
  assumes "cs \<noteq> []"
  shows "sum_list (map subtreeSize (butlast cs)) + subtreeSize (last cs) = sum_list (map subtreeSize cs)"
proof -
  have "sum_list (map subtreeSize cs) = sum_list (map subtreeSize (butlast cs @ [last cs]))"
    using assms by simp
  then show ?thesis by simp
qed

lemma subtreeSize_pos [simp]: "0 < subtreeSize n"
  by (cases n) simp

lemma ucap_evictOnce [simp]: "ucap (fst (evictOnce t)) = ucap t"
  by (simp add: evictOnce_def Let_def)

lemma evictOnce_smaller:
  assumes "snd (evictOnce t)"
  shows "subtreeSize (root (fst (evictOnce t))) < subtreeSize (root t)"
proof -
  let ?cs = "node_children (root t)"
  have ne: "?cs \<noteq> []" using assms by (auto simp: evictOnce_def Let_def)
  show ?thesis
  proof (cases "length ?cs > 1")
    case True
    have "0 < subtreeSize (last ?cs)" by simp
    then have "sum_list (map subtreeSize (butlast ?cs)) < sum_list (map subtreeSize ?cs)"
      using sum_list_butlast_less [OF ne] by linarith
    then show ?thesis
      using True ne by (simp add: evictOnce_def Let_def subtreeSize_eq [of "root t"])
  next
    case False
    with ne obtain c where c: "?cs = [c]" by (cases ?cs) auto
    then show ?thesis using assms
      by (auto simp: evictOnce_def Let_def subtreeSize_eq [of "root t"] subtreeSize_eq [of c])
  qed
qed

text \<open>The loop \<open>for t.count > t.cap\<close> of \<open>Apply\<close>, left when nothing can be evicted.\<close>

function evict_loop :: "undo_tree \<Rightarrow> undo_tree" where
  "evict_loop t =
     (if node_count t > ucap t then
        (if snd (evictOnce t) then evict_loop (fst (evictOnce t)) else fst (evictOnce t))
      else t)"
  by pat_completeness auto
termination
  by (relation "measure (\<lambda>t. subtreeSize (root t))") (auto intro: evictOnce_smaller)

declare evict_loop.simps [simp del]

definition UndoTree_Apply :: "undo_tree \<Rightarrow> edit \<Rightarrow> undo_tree" where
  "UndoTree_Apply t e =
     evict_loop (t\<lparr>root := prepend_child (current t) (UNode e []) (root t),
                   current := current t @ [0], node_count := node_count t + 1\<rparr>)"

definition UndoTree_Undo :: "undo_tree \<Rightarrow> undo_tree \<times> edit option" where
  "UndoTree_Undo t =
     (if current t = [] then (t, None)
      else case node_at (root t) (current t) of
        None \<Rightarrow> (t, None)
      | Some n \<Rightarrow> (t\<lparr>current := butlast (current t)\<rparr>, Some (Reverse (node_edit n))))"

definition UndoTree_Redo :: "undo_tree \<Rightarrow> undo_tree \<times> edit option" where
  "UndoTree_Redo t =
     (case node_at (root t) (current t) of
        None \<Rightarrow> (t, None)
      | Some n \<Rightarrow>
          (case node_children n of
             [] \<Rightarrow> (t, None)
           | c # _ \<Rightarrow> (t\<lparr>current := current t @ [0]\<rparr>, Some (node_edit c))))"

definition NodeCount :: "undo_tree \<Rightarrow> int" where
  "NodeCount t = node_count t"

section \<open>The line of edits through the cursor\<close>

fun spine :: "unode \<Rightarrow> edit list" where
  "spine (UNode e []) = []"
| "spine (UNode e (c # cs)) = node_edit c # spine c"

definition past :: "undo_tree \<Rightarrow> edit list" where
  "past t = take (length (current t)) (spine (root t))"

definition future :: "undo_tree \<Rightarrow> edit list" where
  "future t = drop (length (current t)) (spine (root t))"

definition undo_ok :: "undo_tree \<Rightarrow> bool" where
  "undo_ok t \<longleftrightarrow>
     set (current t) \<subseteq> {0} \<and>
     length (current t) \<le> length (spine (root t)) \<and>
     node_count t = int (subtreeSize (root t)) - 1 \<and> 0 < ucap t \<and> node_count t \<le> ucap t"

lemma spine_eq: "spine n = (case node_children n of [] \<Rightarrow> [] | c # _ \<Rightarrow> node_edit c # spine c)"
  by (cases n rule: spine.cases) auto

lemma leftmost_path: "set p \<subseteq> {0} \<Longrightarrow> p = replicate (length p) (0 :: nat)"
  by (metis replicate_length_same singletonD subsetD)

lemma node_at_spine:
  "d \<le> length (spine n) \<Longrightarrow>
   \<exists>m. node_at n (replicate d 0) = Some m \<and> spine m = drop d (spine n) \<and>
       (0 < d \<longrightarrow> node_edit m = spine n ! (d - 1))"
proof (induction d arbitrary: n)
  case 0
  then show ?case by simp
next
  case (Suc d)
  then obtain e c cs where n: "n = UNode e (c # cs)"
    by (cases n rule: spine.cases) auto
  with Suc.prems have "d \<le> length (spine c)" by simp
  from Suc.IH [OF this] obtain m where
    "node_at c (replicate d 0) = Some m" "spine m = drop d (spine c)"
    "0 < d \<longrightarrow> node_edit m = spine c ! (d - 1)" by blast
  with n show ?case by (cases d) auto
qed

lemma spine_prepend:
  "d \<le> length (spine p) \<Longrightarrow>
   spine (prepend_child (replicate d 0) n p) = take d (spine p) @ node_edit n # spine n"
proof (induction d arbitrary: p)
  case 0
  then show ?case by simp
next
  case (Suc d)
  then obtain e c cs where p: "p = UNode e (c # cs)"
    by (cases p rule: spine.cases) auto
  with Suc.prems have "d \<le> length (spine c)" by simp
  moreover have "node_edit (prepend_child (replicate d 0) n c) = node_edit c"
    by (cases d) auto
  ultimately show ?case using p Suc.IH by simp
qed

lemma subtreeSize_prepend:
  "d \<le> length (spine p) \<Longrightarrow>
   subtreeSize (prepend_child (replicate d 0) n p) = subtreeSize p + subtreeSize n"
proof (induction d arbitrary: p)
  case 0
  then show ?case by (simp add: subtreeSize_eq [of p])
next
  case (Suc d)
  then obtain e c cs where p: "p = UNode e (c # cs)"
    by (cases p rule: spine.cases) auto
  with Suc.prems have "d \<le> length (spine c)" by simp
  with p Suc.IH show ?case by simp
qed

subsection \<open>Eviction\<close>

text \<open>
  What the loop keeps: the cursor is the nonempty leftmost path and ends the spine (it is the
  node Apply has just added), and the count is exact.
\<close>

definition evict_inv :: "undo_tree \<Rightarrow> bool" where
  "evict_inv t \<longleftrightarrow>
     set (current t) \<subseteq> {0} \<and> current t \<noteq> [] \<and>
     length (current t) = length (spine (root t)) \<and>
     node_count t = int (subtreeSize (root t)) - 1 \<and> 0 < ucap t"

lemma spine_butlast:
  "length cs > 1 \<Longrightarrow> spine (UNode e (butlast cs)) = spine (UNode e cs)"
  by (cases cs; cases "tl cs") auto

lemma evictOnce_inv:
  assumes "evict_inv t" and "snd (evictOnce t)"
  shows "evict_inv (fst (evictOnce t)) \<and>
    (\<exists>k. spine (root (fst (evictOnce t))) = drop k (spine (root t)))"
proof -
  obtain e cs where r: "root t = UNode e cs" by (cases "root t")
  from assms have ne: "cs \<noteq> []" by (auto simp: evictOnce_def Let_def r)
  show ?thesis
  proof (cases "length cs > 1")
    case True
    then have "fst (evictOnce t) = t\<lparr>root := UNode e (butlast cs), node_count := node_count t - int (subtreeSize (last cs))\<rparr>"
      using ne by (simp add: evictOnce_def Let_def r)
    moreover have "spine (UNode e (butlast cs)) = drop 0 (spine (UNode e cs))"
      using True by (simp add: spine_butlast)
    moreover have "int (subtreeSize (UNode e (butlast cs))) = int (subtreeSize (UNode e cs)) - int (subtreeSize (last cs))"
      using sum_list_butlast_less [OF ne] by simp
    ultimately have "evict_inv (fst (evictOnce t))"
      and "spine (root (fst (evictOnce t))) = drop 0 (spine (root t))"
      using assms(1) r by (auto simp: evict_inv_def)
    then show ?thesis by blast
  next
    case False
    with ne obtain c where c: "cs = [c]" by (cases cs) auto
    obtain e' ds where c': "c = UNode e' ds" by (cases c)
    have cur: "current t \<noteq> [0]" using assms(2) by (auto simp: evictOnce_def Let_def r c)
    then have f: "fst (evictOnce t) = t\<lparr>root := UNode zeroEdit ds, current := tl (current t), node_count := node_count t - 1\<rparr>"
      by (simp add: evictOnce_def Let_def r c c')
    have sp: "spine (UNode zeroEdit ds) = spine c"
      by (cases ds) (simp_all add: c')
    from assms(1) obtain d where d: "current t = replicate (Suc d) 0"
      by (metis evict_inv_def leftmost_path length_0_conv not0_implies_Suc)
    with cur have "d \<noteq> 0" by auto
    have "evict_inv (fst (evictOnce t))"
      using assms(1) \<open>d \<noteq> 0\<close> unfolding evict_inv_def f by (simp add: d sp r c c')
    moreover have "spine (root (fst (evictOnce t))) = drop 1 (spine (root t))"
      by (simp add: f sp r c)
    ultimately show ?thesis by blast
  qed
qed

lemma evict_loop_inv:
  assumes "evict_inv t"
  shows "evict_inv (evict_loop t) \<and> node_count (evict_loop t) \<le> ucap (evict_loop t) \<and>
    ucap (evict_loop t) = ucap t \<and>
    (\<exists>k. spine (root (evict_loop t)) = drop k (spine (root t))) \<and>
    (node_count t \<le> ucap t \<longrightarrow> evict_loop t = t)"
  using assms
proof (induction t rule: evict_loop.induct)
  case (1 t)
  show ?case
  proof (cases "node_count t > ucap t")
    case False
    then have "evict_loop t = t" by (simp add: evict_loop.simps [of t])
    moreover have "spine (root t) = drop 0 (spine (root t))" by simp
    ultimately show ?thesis using False 1 by (metis linorder_not_less)
  next
    case True
    have ev: "snd (evictOnce t)"
    proof (rule ccontr)
      assume no: "\<not> snd (evictOnce t)"
      then have "node_children (root t) = [] \<or> (length (node_children (root t)) = 1 \<and> current t = [0])"
        by (cases "node_children (root t)") (auto simp: evictOnce_def Let_def split: if_splits)
      then have "node_count t \<le> 1"
      proof
        assume "node_children (root t) = []"
        then show ?thesis using "1.prems" by (simp add: evict_inv_def subtreeSize_eq)
      next
        assume a: "length (node_children (root t)) = 1 \<and> current t = [0]"
        then obtain c where c: "node_children (root t) = [c]" by (cases "node_children (root t)") auto
        have "length (spine (root t)) = 1" using "1.prems" a by (simp add: evict_inv_def)
        then have "spine c = []" using c by (simp add: spine_eq [of "root t"])
        then have "node_children c = []" by (auto simp: spine_eq [of c] split: list.splits)
        then show ?thesis using "1.prems" c
          by (simp add: evict_inv_def subtreeSize_eq [of "root t"] subtreeSize_eq [of c])
      qed
      with True "1.prems" show False by (simp add: evict_inv_def)
    qed
    from evictOnce_inv [OF "1.prems" ev] obtain k where
      inv: "evict_inv (fst (evictOnce t))" and
      k: "spine (root (fst (evictOnce t))) = drop k (spine (root t))" by blast
    from "1.IH" [OF True ev inv] obtain j where
      j: "spine (root (evict_loop (fst (evictOnce t)))) = drop j (spine (root (fst (evictOnce t))))"
      and rest: "evict_inv (evict_loop (fst (evictOnce t)))"
        "node_count (evict_loop (fst (evictOnce t))) \<le> ucap (evict_loop (fst (evictOnce t)))"
        "ucap (evict_loop (fst (evictOnce t))) = ucap t" by auto
    have "evict_loop t = evict_loop (fst (evictOnce t))"
      using True ev by (subst evict_loop.simps) simp
    moreover have "spine (root (evict_loop (fst (evictOnce t)))) = drop (j + k) (spine (root t))"
      using j k by simp
    ultimately show ?thesis using rest True by auto
  qed
qed

subsection \<open>What the operations do to the line\<close>

lemma undo_ok_New [inv_intros]: "undo_ok (NewUndoTree n)"
  by (auto simp: undo_ok_def NewUndoTree_def undoCap_def)

lemma past_New [simp]: "past (NewUndoTree n) = []"
  by (simp add: past_def NewUndoTree_def)

lemma future_New [simp]: "future (NewUndoTree n) = []"
  by (simp add: future_def NewUndoTree_def)

lemma apply_evict_inv:
  assumes "undo_ok t"
  shows "evict_inv (t\<lparr>root := prepend_child (current t) (UNode e []) (root t),
                       current := current t @ [0], node_count := node_count t + 1\<rparr>)"
    and "spine (prepend_child (current t) (UNode e []) (root t)) = past t @ [e]"
proof -
  from assms have c: "current t = replicate (length (current t)) 0"
    and le: "length (current t) \<le> length (spine (root t))"
    by (auto simp: undo_ok_def intro: leftmost_path)
  show sp: "spine (prepend_child (current t) (UNode e []) (root t)) = past t @ [e]"
    using spine_prepend [OF le, of "UNode e []"] c by (simp add: past_def)
  have "subtreeSize (prepend_child (current t) (UNode e []) (root t)) = subtreeSize (root t) + 1"
    using subtreeSize_prepend [OF le, of "UNode e []"] c by simp
  with sp assms show "evict_inv (t\<lparr>root := prepend_child (current t) (UNode e []) (root t),
                       current := current t @ [0], node_count := node_count t + 1\<rparr>)"
    by (simp add: evict_inv_def undo_ok_def past_def)
qed

lemma UndoTree_Apply_line:
  assumes "undo_ok t"
  shows "undo_ok (UndoTree_Apply t e)"
    and "\<exists>k \<le> length (past t). past (UndoTree_Apply t e) = drop k (past t @ [e])"
    and "future (UndoTree_Apply t e) = []"
    and "node_count t < ucap t \<Longrightarrow> past (UndoTree_Apply t e) = past t @ [e]"
proof -
  let ?u = "t\<lparr>root := prepend_child (current t) (UNode e []) (root t),
               current := current t @ [0], node_count := node_count t + 1\<rparr>"
  note sp = apply_evict_inv(2) [OF assms, of e]
  from evict_loop_inv [OF apply_evict_inv(1) [OF assms, of e]] obtain k where
    inv: "evict_inv (UndoTree_Apply t e)" and
    cnt: "node_count (UndoTree_Apply t e) \<le> ucap (UndoTree_Apply t e)" and
    k: "spine (root (UndoTree_Apply t e)) = drop k (past t @ [e])" and
    same: "node_count ?u \<le> ucap ?u \<longrightarrow> UndoTree_Apply t e = ?u"
    by (auto simp: UndoTree_Apply_def sp)
  show "undo_ok (UndoTree_Apply t e)"
    using inv cnt by (simp add: undo_ok_def evict_inv_def)
  have past: "past (UndoTree_Apply t e) = drop k (past t @ [e])"
    using inv k by (simp add: past_def evict_inv_def)
  moreover have "drop k (past t @ [e]) \<noteq> []"
    using inv k by (metis evict_inv_def length_0_conv)
  ultimately show "\<exists>k \<le> length (past t). past (UndoTree_Apply t e) = drop k (past t @ [e])"
    by (intro exI [of _ k]) auto
  show "future (UndoTree_Apply t e) = []"
    using inv by (simp add: future_def evict_inv_def)
  assume "node_count t < ucap t"
  with same have "UndoTree_Apply t e = ?u" by simp
  then show "past (UndoTree_Apply t e) = past t @ [e]"
    using sp inv by (simp add: past_def evict_inv_def)
qed

lemma past_Nil_iff: "undo_ok t \<Longrightarrow> past t = [] \<longleftrightarrow> current t = []"
  by (auto simp: past_def undo_ok_def)

lemma UndoTree_Undo_line:
  assumes "undo_ok t"
  shows "past t = [] \<Longrightarrow> UndoTree_Undo t = (t, None)"
    and "past t = es @ [e] \<Longrightarrow> \<exists>t'. UndoTree_Undo t = (t', Some (Reverse e)) \<and>
      undo_ok t' \<and> past t' = es \<and> future t' = e # future t"
proof -
  show "past t = [] \<Longrightarrow> UndoTree_Undo t = (t, None)"
    using assms by (simp add: past_Nil_iff UndoTree_Undo_def)
  assume p: "past t = es @ [e]"
  from assms have c: "current t = replicate (length (current t)) 0"
    and le: "length (current t) \<le> length (spine (root t))"
    by (auto simp: undo_ok_def intro: leftmost_path)
  from node_at_spine [OF le] obtain m where
    m: "node_at (root t) (current t) = Some m"
    and me: "0 < length (current t) \<longrightarrow> node_edit m = spine (root t) ! (length (current t) - 1)"
    using c by metis
  have len: "length (current t) = Suc (length es)"
    using p le by (metis past_def length_append_singleton length_take min.absorb2)
  have spine: "spine (root t) = es @ e # future t"
    using p by (metis append_take_drop_id past_def future_def append.assoc append_Cons append_Nil)
  let ?t = "t\<lparr>current := butlast (current t)\<rparr>"
  have "node_edit m = e" using me len spine by simp
  moreover have bl: "butlast (current t) = replicate (length es) 0"
    using c len by (metis butlast_snoc replicate_append_same replicate_Suc)
  moreover have "undo_ok ?t" using assms le len bl by (simp add: undo_ok_def set_replicate_conv_if)
  moreover have "past ?t = es" "future ?t = e # future t"
    using spine bl by (simp_all add: past_def)
      (metis (no_types, lifting) append_eq_conv_conj future_def length_replicate
        undo_tree.select_convs(1,2) undo_tree.surjective undo_tree.update_convs(2))
  ultimately show "\<exists>t'. UndoTree_Undo t = (t', Some (Reverse e)) \<and>
      undo_ok t' \<and> past t' = es \<and> future t' = e # future t"
    using len m by (auto simp: UndoTree_Undo_def)
qed

lemma UndoTree_Redo_line:
  assumes "undo_ok t"
  shows "future t = [] \<Longrightarrow> UndoTree_Redo t = (t, None)"
    and "future t = e # es \<Longrightarrow> \<exists>t'. UndoTree_Redo t = (t', Some e) \<and>
      undo_ok t' \<and> past t' = past t @ [e] \<and> future t' = es"
proof -
  from assms have c: "current t = replicate (length (current t)) 0"
    and le: "length (current t) \<le> length (spine (root t))"
    by (auto simp: undo_ok_def intro: leftmost_path)
  from node_at_spine [OF le] obtain m where
    m: "node_at (root t) (current t) = Some m" and ms: "spine m = future t"
    using c by (metis future_def)
  show "future t = [] \<Longrightarrow> UndoTree_Redo t = (t, None)"
    using m ms by (auto simp: UndoTree_Redo_def spine_eq [of m] split: list.splits)
  assume f: "future t = e # es"
  let ?t = "t\<lparr>current := current t @ [0]\<rparr>"
  from f ms obtain d ds where d: "node_children m = d # ds" "node_edit d = e"
    by (auto simp: spine_eq [of m] split: list.splits)
  have drp: "drop (length (current t)) (spine (root t)) = e # es" using f by (simp add: future_def)
  then have lt: "length (current t) < length (spine (root t))"
    by (metis drop_all list.distinct(1) not_less)
  have nth: "spine (root t) ! length (current t) = e"
    using drp lt by (metis Cons_nth_drop_Suc list.inject)
  have "undo_ok ?t" using assms lt by (simp add: undo_ok_def)
  moreover have "past ?t = past t @ [e]"
    using lt nth by (simp add: past_def take_Suc_conv_app_nth)
  moreover have "future ?t = es" using drp lt
    by (metis (no_types, lifting) Cons_nth_drop_Suc future_def length_append_singleton list.inject
        undo_tree.select_convs(1,2) undo_tree.surjective undo_tree.update_convs(2))
  ultimately show "\<exists>t'. UndoTree_Redo t = (t', Some e) \<and>
      undo_ok t' \<and> past t' = past t @ [e] \<and> future t' = es"
    using m d by (auto simp: UndoTree_Redo_def)
qed

end
