(* ===== verification/Modes.thy ===== *)
theory Modes
  imports Prelude "HOL-Library.Word"
begin

text \<open>
  The editor and keymap modes (\<open>pkg/gui/types/mode.go\<close>): a 32-bit mask with \<open>ModeNormal\<close> as
  the zero sentinel and one bit per other mode.
\<close>

unbundle bit_operations_syntax

type_synonym mode = "32 word"

definition ModeNormal :: mode where "ModeNormal = 0"
definition ModeInsert :: mode where "ModeInsert = 2"
definition ModeVisual :: mode where "ModeVisual = 4"
definition ModeVisualLine :: mode where "ModeVisualLine = 8"
definition ModeVisualBlock :: mode where "ModeVisualBlock = 16"
definition ModeOperatorPending :: mode where "ModeOperatorPending = 32"
definition ModeCommand :: mode where "ModeCommand = 64"
definition ModeReplace :: mode where "ModeReplace = 128"

lemmas mode_defs = ModeNormal_def ModeInsert_def ModeVisual_def ModeVisualLine_def
  ModeVisualBlock_def ModeOperatorPending_def ModeCommand_def ModeReplace_def

definition Mode_Has :: "mode \<Rightarrow> mode \<Rightarrow> bool" where
  "Mode_Has m other = (if other = ModeNormal then m = ModeNormal else m AND other \<noteq> 0)"

definition Mode_Is :: "mode \<Rightarrow> mode \<Rightarrow> bool" where
  "Mode_Is m other = (m = other)"

lemma modes_distinct [simp]:
  "ModeNormal \<noteq> ModeInsert" "ModeNormal \<noteq> ModeCommand" "ModeInsert \<noteq> ModeCommand"
  "ModeVisual \<noteq> ModeVisualLine" "ModeVisual \<noteq> ModeVisualBlock" "ModeVisualLine \<noteq> ModeVisualBlock"
  "ModeInsert \<noteq> ModeNormal" "ModeCommand \<noteq> ModeNormal" "ModeCommand \<noteq> ModeInsert"
  by (simp_all add: mode_defs)

end
