(* ===== verification/EditorBuffer.thy ===== *)
theory EditorBuffer
  imports UndoTree Modes
begin

text \<open>
  The editor buffer (\<open>pkg/gui/editor/buffer.go\<close>, \<open>cursor.go\<close>, \<open>visual.go\<close>): rows, cursor,
  selection, yank flash and undo history, with \<open>Apply\<close>, \<open>Undo\<close> and \<open>Redo\<close>.  The mutex is not
  modelled: every method holds it for its whole body, so a method is one step.
\<close>

datatype editor_error = ErrEditOutOfRange | ErrEmptyBuffer | ErrCursorOutOfRange

section \<open>The jump ring\<close>

definition jumpListCap :: int where
  "jumpListCap = 100"

record jump_list =
  entries :: "position list"
  jhead :: int
  full :: bool

definition newJumpList :: jump_list where
  "newJumpList = \<lparr>entries = replicate (nat jumpListCap) (Pos 0 0), jhead = 0, full = False\<rparr>"

definition JumpList_Push :: "jump_list \<Rightarrow> position \<Rightarrow> jump_list go" where
  "JumpList_Push j p = do {
     es \<leftarrow> go_set (entries j) (jhead j) p;
     let h = jhead j + 1;
     Some (if h = jumpListCap then j\<lparr>entries := es, jhead := 0, full := True\<rparr>
           else j\<lparr>entries := es, jhead := h\<rparr>) }"

definition JumpList_Len :: "jump_list \<Rightarrow> int" where
  "JumpList_Len j = (if full j then jumpListCap else jhead j)"

definition JumpList_At :: "jump_list \<Rightarrow> int \<Rightarrow> position go" where
  "JumpList_At j i =
     (let n = JumpList_Len j in
      if i < 0 \<or> i \<ge> n then Some (Pos 0 0)
      else if \<not> full j then go_index (entries j) i
      else go_index (entries j) ((jhead j + i) mod jumpListCap))"

section \<open>The buffer\<close>

record buffer =
  Lines :: "line list"
  Cursor :: position
  Jumps :: "jump_list option"
  History :: "undo_tree option"
  Selection :: "erange option"
  yankFlash :: "erange option"
  yankFlashEpoch :: "64 word"
  ConnectionID :: string
  Path :: string
  UUID :: string
  Dirty :: bool

definition zeroBuffer :: buffer where
  "zeroBuffer = \<lparr>Lines = [], Cursor = Pos 0 0, Jumps = None, History = None, Selection = None,
     yankFlash = None, yankFlashEpoch = 0, ConnectionID = [], Path = [], UUID = [], Dirty = False\<rparr>"

definition NewBuffer :: buffer where
  "NewBuffer = zeroBuffer\<lparr>Jumps := Some newJumpList\<rparr>"

subsection \<open>Validation\<close>

definition positionInBoundsLocked :: "line list \<Rightarrow> position \<Rightarrow> bool" where
  "positionInBoundsLocked ls p =
     (if Line p < 0 \<or> Col p < 0 then False
      else if ls = [] then Line p = 0 \<and> Col p = 0
      else if Line p \<ge> len ls then False
      else Col p \<le> len (ls ! nat (Line p)))"

definition rangeInBoundsLocked :: "line list \<Rightarrow> erange \<Rightarrow> bool" where
  "rangeInBoundsLocked ls r =
     (if \<not> positionInBoundsLocked ls (Start r) \<or> \<not> positionInBoundsLocked ls (End r) then False
      else \<not> posLess (End r) (Start r))"

definition editInRangeLocked :: "line list \<Rightarrow> edit \<Rightarrow> bool" where
  "editInRangeLocked ls e =
     (if \<not> positionInBoundsLocked ls (Start (Range e)) then False
      else if Kind e = EditKindInsert then True
      else if \<not> positionInBoundsLocked ls (End (Range e)) then False
      else \<not> posLess (End (Range e)) (Start (Range e)))"

subsection \<open>Reading text\<close>

fun blockRows :: "line list \<Rightarrow> int \<Rightarrow> int \<Rightarrow> int \<Rightarrow> int list \<Rightarrow> runes go" where
  "blockRows ls minLine minCol maxCol [] = Some []"
| "blockRows ls minLine minCol maxCol (l # rest) =
     (if l < 0 \<or> l \<ge> len ls then blockRows ls minLine minCol maxCol rest
      else do {
        let row = ls ! nat l;
        s \<leftarrow> go_slice row (min minCol (len row)) (min maxCol (len row));
        t \<leftarrow> blockRows ls minLine minCol maxCol rest;
        Some ((if l > minLine then [newline] else []) @ s @ t) })"

definition blockTextLocked :: "line list \<Rightarrow> erange \<Rightarrow> runes go" where
  "blockTextLocked ls r =
     (case minMax (Line (Start r)) (Line (End r)) of (minLine, maxLine) \<Rightarrow>
      case minMax (Col (Start r)) (Col (End r)) of (minCol, maxCol) \<Rightarrow>
        blockRows ls minLine minCol maxCol [minLine..maxLine])"

definition textInRangeLocked :: "line list \<Rightarrow> erange \<Rightarrow> runes go" where
  "textInRangeLocked ls r =
     (if BlockWise r then blockTextLocked ls r
      else if ls = [] \<or> \<not> rangeInBoundsLocked ls r then Some []
      else if LineWise r then do {
        rows \<leftarrow> go_slice ls (Line (Start r)) (min (Line (End r) + 1) (len ls));
        Some (stringLocked rows) }
      else if Line (Start r) = Line (End r) then do {
        row \<leftarrow> go_index ls (Line (Start r));
        go_slice row (Col (Start r)) (Col (End r)) }
      else do {
        first \<leftarrow> go_index ls (Line (Start r));
        hd \<leftarrow> go_slice first (Col (Start r)) (len first);
        mid \<leftarrow> go_slice ls (Line (Start r) + 1) (Line (End r));
        last \<leftarrow> go_index ls (Line (End r));
        tl \<leftarrow> go_slice last 0 (Col (End r));
        Some (hd @ [newline] @ lines_pre mid @ tl) })"

subsection \<open>Writing text\<close>

definition insertAtLocked :: "line list \<Rightarrow> position \<Rightarrow> runes \<Rightarrow> line list go" where
  "insertAtLocked ls p t =
     (if t = [] then Some ls
      else do {
        let ls = (if ls = [] then [[]] else ls);
        let chunks = splitTextOnNewline t;
        cur \<leftarrow> go_index ls (Line p);
        head \<leftarrow> go_slice cur 0 (Col p);
        tail \<leftarrow> go_slice cur (Col p) (len cur);
        if length chunks = 1 then go_set ls (Line p) (head @ hd chunks @ tail)
        else do {
          before \<leftarrow> go_slice ls 0 (Line p);
          after \<leftarrow> go_slice ls (Line p + 1) (len ls);
          Some (before @ [head @ hd chunks] @ butlast (tl chunks) @ [last chunks @ tail] @ after) } })"

definition deleteRangeLocked :: "line list \<Rightarrow> erange \<Rightarrow> line list go" where
  "deleteRangeLocked ls r =
     (if ls = [] then Some ls
      else if LineWise r then do {
        let endLine = (if Line (End r) \<ge> len ls then len ls - 1 else Line (End r));
        before \<leftarrow> go_slice ls 0 (Line (Start r));
        after \<leftarrow> go_slice ls (endLine + 1) (len ls);
        Some (before @ after) }
      else if Line (Start r) = Line (End r) then do {
        line \<leftarrow> go_index ls (Line (Start r));
        head \<leftarrow> go_slice line 0 (Col (Start r));
        tail \<leftarrow> go_slice line (Col (End r)) (len line);
        go_set ls (Line (Start r)) (head @ tail) }
      else do {
        first \<leftarrow> go_index ls (Line (Start r));
        head \<leftarrow> go_slice first 0 (Col (Start r));
        last \<leftarrow> go_index ls (Line (End r));
        tail \<leftarrow> go_slice last (Col (End r)) (len last);
        before \<leftarrow> go_slice ls 0 (Line (Start r));
        after \<leftarrow> go_slice ls (Line (End r) + 1) (len ls);
        Some (before @ [head @ tail] @ after) })"

definition restoreLinesLocked :: "line list \<Rightarrow> edit \<Rightarrow> line list go" where
  "restoreLinesLocked ls e = do {
     let ls = (if keepEmptyLine e then [] else ls);
     before \<leftarrow> go_slice ls 0 (Line (Start (Range e)));
     after \<leftarrow> go_slice ls (Line (Start (Range e))) (len ls);
     Some (before @ splitTextOnNewline (Text e) @ after) }"

definition mutateLocked :: "line list \<Rightarrow> edit \<Rightarrow> line list go" where
  "mutateLocked ls e =
     (case Kind e of
        EditKindInsert \<Rightarrow>
          (if restoreLinewise e then restoreLinesLocked ls e
           else insertAtLocked ls (Start (Range e)) (Text e))
      | EditKindDelete \<Rightarrow> do {
          ls' \<leftarrow> deleteRangeLocked ls (Range e);
          Some (if keepEmptyLine e \<and> ls' = [] then [[]] else ls') }
      | EditKindReplace \<Rightarrow> do {
          ls' \<leftarrow> deleteRangeLocked ls (Range e);
          insertAtLocked ls' (Start (Range e)) (Text e) }
      | EditKindZero \<Rightarrow> Some ls)"

definition buildReverseLocked :: "line list \<Rightarrow> edit \<Rightarrow> edit go" where
  "buildReverseLocked ls e =
     (let s = Start (Range e); endPos = advancePos s (Text e) in
      if ls = [] \<and> Text e \<noteq> [] \<and> (Kind e = EditKindInsert \<or> Kind e = EditKindReplace) then
        Some (mkEdit EditKindDelete \<lparr>Start = s, End = endPos, LineWise = True, BlockWise = False\<rparr> [])
      else case Kind e of
        EditKindInsert \<Rightarrow> Some (mkEdit EditKindDelete (Chars s endPos) [])
      | EditKindDelete \<Rightarrow>
          (if ls = [] \<and> keepEmptyLine e then
             Some (mkEdit EditKindDelete
               \<lparr>Start = Pos 0 0, End = Pos 0 0, LineWise = True, BlockWise = False\<rparr> [])
           else do {
             deleted \<leftarrow> textInRangeLocked ls (Range e);
             Some (if LineWise (Range e) \<and> ls \<noteq> []
                   then Edit EditKindInsert (Chars s s) deleted None True
                          (keepEmptyLine e \<and> Line s = 0 \<and> Line (End (Range e)) = len ls - 1)
                   else mkEdit EditKindInsert (Chars s s) deleted) })
      | EditKindReplace \<Rightarrow> do {
          replaced \<leftarrow> textInRangeLocked ls (Range e);
          Some (mkEdit EditKindReplace (Chars s endPos) replaced) }
      | EditKindZero \<Rightarrow> Some zeroEdit)"

subsection \<open>Cursor, selection, flash\<close>

definition clampCursorLocked :: "buffer \<Rightarrow> buffer" where
  "clampCursorLocked b =
     (if Lines b = [] then b\<lparr>Cursor := Pos 0 0\<rparr>
      else let l = (if Line (Cursor b) < 0 then 0 else Line (Cursor b));
               l = (if l \<ge> len (Lines b) then len (Lines b) - 1 else l);
               c = (if Col (Cursor b) < 0 then 0 else Col (Cursor b));
               m = len (Lines b ! nat l)
           in b\<lparr>Cursor := Pos l (if c > m then m else c)\<rparr>)"

definition cancelSelectionIfOverlap :: "buffer \<Rightarrow> erange \<Rightarrow> buffer" where
  "cancelSelectionIfOverlap b r =
     (case Selection b of
        None \<Rightarrow> b
      | Some sel \<Rightarrow>
          (let (selStart, selEnd) =
                 (if posLess (End sel) (Start sel) then (End sel, Start sel) else (Start sel, End sel));
               (editStart, editEnd) =
                 (if posLess (End r) (Start r) then (End r, Start r) else (Start r, End r))
           in if posLess editStart selEnd \<and> posLess selStart editEnd then b\<lparr>Selection := None\<rparr>
              else if editStart = editEnd \<and> \<not> posLess editStart selStart \<and> posLess editStart selEnd
              then b\<lparr>Selection := None\<rparr>
              else b))"

definition clearYankFlashLocked :: "buffer \<Rightarrow> buffer" where
  "clearYankFlashLocked b = b\<lparr>yankFlash := None\<rparr>"

definition SetYankFlash :: "buffer \<Rightarrow> erange \<Rightarrow> buffer \<times> 64 word" where
  "SetYankFlash b r =
     (let e = yankFlashEpoch b + 1 in (b\<lparr>yankFlash := Some r, yankFlashEpoch := e\<rparr>, e))"

definition ClearYankFlash :: "buffer \<Rightarrow> 64 word \<Rightarrow> buffer" where
  "ClearYankFlash b epoch =
     (if epoch \<noteq> yankFlashEpoch b then b else b\<lparr>yankFlash := None\<rparr>)"

subsection \<open>Apply, Undo, Redo\<close>

definition applyRecordLocked :: "buffer \<Rightarrow> edit \<Rightarrow> (buffer \<times> editor_error option) go" where
  "applyRecordLocked b e =
     (if \<not> editInRangeLocked (Lines b) e then Some (b, Some ErrEditOutOfRange)
      else do {
        rv \<leftarrow> buildReverseLocked (Lines b) e;
        ls \<leftarrow> mutateLocked (Lines b) e;
        let b1 = clampCursorLocked (b\<lparr>Lines := ls\<rparr>);
        let h = (case History b1 of None \<Rightarrow> NewUndoTree undoCap | Some h \<Rightarrow> h);
        let b2 = b1\<lparr>History := Some (UndoTree_Apply h (setReverse e rv)), Dirty := True\<rparr>;
        Some (clearYankFlashLocked (cancelSelectionIfOverlap b2 (Range e)), None) })"

definition Apply :: "buffer \<Rightarrow> edit \<Rightarrow> (buffer \<times> editor_error option) go" where
  "Apply b e = applyRecordLocked b e"

text \<open>The common tail of Undo and Redo: replay \<open>e\<close> without recording it.\<close>

definition replay :: "buffer \<Rightarrow> edit \<Rightarrow> undo_tree \<Rightarrow> buffer go" where
  "replay b e h = do {
     ls \<leftarrow> mutateLocked (Lines b) e;
     let b1 = clampCursorLocked (b\<lparr>Lines := ls, History := Some h\<rparr>);
     Some (clearYankFlashLocked (cancelSelectionIfOverlap (b1\<lparr>Dirty := True\<rparr>) (Range e))) }"

definition Buffer_Undo :: "buffer \<Rightarrow> buffer go" where
  "Buffer_Undo b =
     (case History b of
        None \<Rightarrow> Some b
      | Some h \<Rightarrow>
          (case UndoTree_Undo h of
             (h', None) \<Rightarrow> Some b
           | (h', Some rv) \<Rightarrow> replay b rv h'))"

definition Buffer_Redo :: "buffer \<Rightarrow> buffer go" where
  "Buffer_Redo b =
     (case History b of
        None \<Rightarrow> Some b
      | Some h \<Rightarrow>
          (case UndoTree_Redo h of
             (h', None) \<Rightarrow> Some b
           | (h', Some fwd) \<Rightarrow> replay b fwd h'))"

subsection \<open>Accessors and the cursor\<close>

definition LineRuneLen :: "line list \<Rightarrow> int \<Rightarrow> int" where
  "LineRuneLen ls line =
     (if line < 0 \<or> line \<ge> len ls then 0 else len (ls ! nat line))"

definition LineCount :: "buffer \<Rightarrow> int" where
  "LineCount b = len (Lines b)"

text \<open>
  \<open>utf8.RuneLen\<close>: the UTF-8 length of a code point, -1 for a surrogate or one past the last.
\<close>

definition utf8_RuneLen :: "rune \<Rightarrow> int" where
  "utf8_RuneLen r =
     (if r \<le> 0x7F then 1 else if r \<le> 0x7FF then 2
      else if 0xD800 \<le> r \<and> r \<le> 0xDFFF then -1
      else if r \<le> 0xFFFF then 3 else if r \<le> 0x10FFFF then 4 else -1)"

definition utf8ByteLen :: "runes \<Rightarrow> int" where
  "utf8ByteLen rs = (\<Sum>r\<leftarrow>rs. utf8_RuneLen r)"

definition CursorByteOffset :: "buffer \<Rightarrow> int go" where
  "CursorByteOffset b =
     (let off = (\<Sum>l\<leftarrow>take (nat (Line (Cursor b))) (Lines b). utf8ByteLen l + 1) in
      if Line (Cursor b) < len (Lines b) then do {
        row \<leftarrow> go_index (Lines b) (Line (Cursor b));
        let col = (if Col (Cursor b) > len row then len row else Col (Cursor b));
        pre \<leftarrow> go_slice row 0 col;
        Some (off + utf8ByteLen pre) }
      else Some off)"

definition SelectionText :: "buffer \<Rightarrow> (runes \<times> bool) go" where
  "SelectionText b =
     (case Selection b of
        None \<Rightarrow> Some ([], False)
      | Some r \<Rightarrow> do { t \<leftarrow> textInRangeLocked (Lines b) r; Some (t, True) })"

text \<open>The validating \<open>SetCursor\<close> of \<open>cursor.go\<close>.\<close>

definition SetCursor :: "buffer \<Rightarrow> position \<Rightarrow> buffer \<times> editor_error option" where
  "SetCursor b p =
     (if Lines b = [] then (b, Some ErrEmptyBuffer)
      else if Line p < 0 \<or> Line p \<ge> len (Lines b) then (b, Some ErrCursorOutOfRange)
      else let c = (if Col p < 0 then 0 else Col p);
               m = len (Lines b ! nat (Line p))
           in (b\<lparr>Cursor := Pos (Line p) (if c > m then m else c)\<rparr>, None))"

subsection \<open>Visual selection\<close>

definition EnterVisual :: "buffer \<Rightarrow> mode \<Rightarrow> buffer" where
  "EnterVisual b m =
     (if m = ModeVisual \<or> m = ModeVisualLine \<or> m = ModeVisualBlock
      then b\<lparr>Selection := Some \<lparr>Start = Cursor b, End = Cursor b,
             LineWise = (m = ModeVisualLine), BlockWise = (m = ModeVisualBlock)\<rparr>\<rparr>
      else b)"

definition ExitVisual :: "buffer \<Rightarrow> buffer" where
  "ExitVisual b = b\<lparr>Selection := None\<rparr>"

definition ExtendSelection :: "buffer \<Rightarrow> position \<Rightarrow> buffer" where
  "ExtendSelection b to =
     (case Selection b of
        None \<Rightarrow> b
      | Some r \<Rightarrow> b\<lparr>Selection := Some (r\<lparr>End := to\<rparr>), Cursor := to\<rparr>)"

definition SetSelection :: "buffer \<Rightarrow> erange option \<Rightarrow> buffer" where
  "SetSelection b r = b\<lparr>Selection := r\<rparr>"

end
