(* ===== verification/BoundedLog.thy ===== *)
theory BoundedLog
  imports EditorBuffer
begin

text \<open>
  Logs of bounded length.  The interface \<open>bounded_log\<close> says what a push on a log that keeps
  \<open>cap\<close> entries promises; its lemmas give the contents after any number of pushes.  The
  editor's jump ring (\<open>JumpList_*\<close>) and the undo tree along one branch provide it.
\<close>

section \<open>The interface\<close>

locale bounded_log =
  fixes push :: "'s \<Rightarrow> 'a \<Rightarrow> 's option"
    and items :: "'s \<Rightarrow> 'a list"
    and inv :: "'s \<Rightarrow> bool"
    and cap :: nat
  assumes push_law: "inv s \<Longrightarrow> \<exists>s'. push s x = Some s' \<and> inv s' \<and>
      items s' = drop (length (items s) + 1 - cap) (items s @ [x])"
    and items_le: "inv s \<Longrightarrow> length (items s) \<le> cap"
begin

fun push_all :: "'s \<Rightarrow> 'a list \<Rightarrow> 's option" where
  "push_all s [] = Some s"
| "push_all s (x # xs) = (case push s x of None \<Rightarrow> None | Some s' \<Rightarrow> push_all s' xs)"

lemma push_all_items:
  "inv s \<Longrightarrow> \<exists>s'. push_all s xs = Some s' \<and> inv s' \<and>
     items s' = drop (length (items s) + length xs - cap) (items s @ xs)"
proof (induction xs arbitrary: s)
  case Nil
  then show ?case using items_le by simp
next
  case (Cons x xs)
  from push_law [OF Cons.prems, of x] obtain s1 where
    s1: "push s x = Some s1" "inv s1" "items s1 = drop (length (items s) + 1 - cap) (items s @ [x])"
    by blast
  from Cons.IH [OF s1(2)] obtain s2 where
    s2: "push_all s1 xs = Some s2" "inv s2"
      "items s2 = drop (length (items s1) + length xs - cap) (items s1 @ xs)" by blast
  let ?k = "length (items s) + 1 - cap"
  have "items s1 @ xs = drop ?k (items s @ x # xs)"
    using s1(3) by (cases cap) simp_all
  moreover have "length (items s1) = length (items s) + 1 - ?k" using s1(3) by (simp del: drop_append)
  ultimately have "items s2 = drop (length (items s) + length (x # xs) - cap) (items s @ x # xs)"
    using s2(3) by (simp add: drop_drop del: drop_append) (rule arg_cong2 [of _ _ _ _ drop], auto)
  then show ?case using s1(1) s2(1,2) by simp
qed

lemma push_all_fresh:
  "inv s \<Longrightarrow> items s = [] \<Longrightarrow>
   \<exists>s'. push_all s xs = Some s' \<and> inv s' \<and> items s' = drop (length xs - cap) xs"
  using push_all_items [of s xs] by simp

end

section \<open>The jump ring\<close>

text \<open>The ring's entries, oldest first.\<close>

definition ring_items :: "jump_list \<Rightarrow> position list" where
  "ring_items j =
     (if full j then drop (nat (jhead j)) (entries j) @ take (nat (jhead j)) (entries j)
      else take (nat (jhead j)) (entries j))"

definition ring_ok :: "jump_list \<Rightarrow> bool" where
  "ring_ok j \<longleftrightarrow> length (entries j) = 100 \<and> 0 \<le> jhead j \<and> jhead j < 100"

lemma ring_ok_new [inv_intros]: "ring_ok newJumpList"
  by (simp add: ring_ok_def newJumpList_def jumpListCap_def)

lemma ring_items_new [simp]: "ring_items newJumpList = []"
  by (simp add: ring_items_def newJumpList_def)

lemma length_ring_items: "ring_ok j \<Longrightarrow> len (ring_items j) = JumpList_Len j"
  by (auto simp: ring_ok_def ring_items_def JumpList_Len_def jumpListCap_def)

lemma ring_push:
  assumes "ring_ok j"
  shows "\<exists>j'. JumpList_Push j p = Some j' \<and> ring_ok j' \<and>
    ring_items j' = drop (length (ring_items j) + 1 - 100) (ring_items j @ [p])"
proof -
  obtain h where h: "jhead j = int h" "h < 100" "length (entries j) = 100"
    using assms by (metis ring_ok_def zero_le_imp_eq_int of_nat_less_numeral_iff)
  let ?es = "entries j"
  have split: "?es = take h ?es @ ?es ! h # drop (Suc h) ?es"
    using h by (simp add: id_take_nth_drop)
  have set: "?es[h := p] = take h ?es @ p # drop (Suc h) ?es"
    using h by (simp add: upd_conv_take_nth_drop)
  have dr: "drop h ?es = ?es ! h # drop (Suc h) ?es"
    using h by (simp add: Cons_nth_drop_Suc)
  have gs: "go_set ?es (jhead j) p = Some (?es[h := p])" using h by (simp add: go_set_def)
  show ?thesis
  proof (cases "h = 99")
    case True
    then have "drop (Suc h) ?es = []" using h by simp
    then show ?thesis using h True gs dr set
      by (auto simp: JumpList_Push_def jumpListCap_def ring_ok_def ring_items_def)
  next
    case False
    then show ?thesis using h gs dr set
      by (auto simp: JumpList_Push_def jumpListCap_def ring_ok_def ring_items_def nat_add_distrib)
  qed
qed

interpretation jump_ring: bounded_log JumpList_Push ring_items ring_ok 100
proof unfold_locales
  show "ring_ok s \<Longrightarrow> \<exists>s'. JumpList_Push s x = Some s' \<and> ring_ok s' \<and>
      ring_items s' = drop (length (ring_items s) + 1 - 100) (ring_items s @ [x])" for s x
    by (rule ring_push)
  show "ring_ok s \<Longrightarrow> length (ring_items s) \<le> 100" for s
    by (auto simp: ring_ok_def ring_items_def)
qed

lemma ring_at:
  assumes "ring_ok j" "0 \<le> i" "i < JumpList_Len j"
  shows "JumpList_At j i = Some (ring_items j ! nat i)"
proof (cases "full j")
  case False
  then show ?thesis using assms
    by (simp add: JumpList_At_def JumpList_Len_def ring_items_def ring_ok_def go_index_def)
next
  case True
  obtain h k where h: "jhead j = int h" "h < 100" "length (entries j) = 100" and k: "i = int k" "k < 100"
    using assms True by (metis ring_ok_def zero_le_imp_eq_int of_nat_less_numeral_iff JumpList_Len_def jumpListCap_def)
  have m: "nat ((int h + int k) mod 100) = (if h + k < 100 then h + k else h + k - 100)"
    using h k by (simp add: nat_mod_distrib nat_add_distrib mod_if)
  show ?thesis using True h k m
    by (auto simp: JumpList_At_def JumpList_Len_def ring_items_def go_index_def jumpListCap_def nth_append add.commute [of h k])
qed

section \<open>The undo tree along one branch\<close>

fun chain :: "edit \<Rightarrow> edit list \<Rightarrow> unode" where
  "chain e [] = UNode e []"
| "chain e (x # xs) = UNode e [chain x xs]"

definition chain_tree :: "nat \<Rightarrow> edit list \<Rightarrow> undo_tree" where
  "chain_tree c es = \<lparr>root = chain zeroEdit es, current = replicate (length es) 0,
     node_count = len es, ucap = int c\<rparr>"

lemma node_edit_chain [simp]: "node_edit (chain e es) = e"
  by (cases es) auto

lemma spine_chain [simp]: "spine (chain e es) = es"
  by (induction e es rule: chain.induct) simp_all

lemma children_chain: "node_children (chain e es) = (case es of [] \<Rightarrow> [] | x # xs \<Rightarrow> [chain x xs])"
  by (cases es) auto

lemma prepend_chain: "prepend_child (replicate (length es) 0) (UNode x []) (chain e es) = chain e (es @ [x])"
  by (induction e es rule: chain.induct) auto

lemma past_chain_tree [simp]: "past (chain_tree c es) = es"
  by (simp add: past_def chain_tree_def)

lemma future_chain_tree [simp]: "future (chain_tree c es) = []"
  by (simp add: future_def chain_tree_def)

lemma evict_chain:
  assumes "0 < c" "length es = Suc c"
  shows "evict_loop (chain_tree c es) = chain_tree c (tl es)"
proof -
  from assms obtain x xs where es: "es = x # xs" by (cases es) auto
  then have "xs \<noteq> []" using assms by auto
  then have "evictOnce (chain_tree c es) = (chain_tree c xs, True)"
    by (cases xs) (auto simp: es evictOnce_def chain_tree_def children_chain)
  then show ?thesis using assms es
    by (subst evict_loop.simps, subst evict_loop.simps) (simp add: chain_tree_def)
qed

lemma Apply_chain:
  assumes "0 < c" "length es \<le> c"
  shows "UndoTree_Apply (chain_tree c es) e = chain_tree c (drop (length es + 1 - c) (es @ [e]))"
proof -
  have "UndoTree_Apply (chain_tree c es) e = evict_loop (chain_tree c (es @ [e]))"
    by (simp add: UndoTree_Apply_def chain_tree_def prepend_chain replicate_append_same add.commute)
  also have "\<dots> = chain_tree c (drop (length es + 1 - c) (es @ [e]))"
  proof (cases "length es = c")
    case True
    then show ?thesis using evict_chain [OF assms(1), of "es @ [e]"] assms(1)
      by (simp add: drop_Suc [of 0] del: drop_append)
  next
    case False
    then show ?thesis using assms(2) by (subst evict_loop.simps) (simp add: chain_tree_def)
  qed
  finally show ?thesis .
qed

interpretation undo_chain: bounded_log
  "\<lambda>t e. Some (UndoTree_Apply t e)" past "\<lambda>t. 0 < c \<and> (\<exists>es. length es \<le> c \<and> t = chain_tree c es)" c
  for c :: nat
proof unfold_locales
  fix t e
  assume "0 < c \<and> (\<exists>es. length es \<le> c \<and> t = chain_tree c es)"
  then obtain es where es: "0 < c" "length es \<le> c" "t = chain_tree c es" by blast
  then show "\<exists>t'. Some (UndoTree_Apply t e) = Some t' \<and>
      (0 < c \<and> (\<exists>es. length es \<le> c \<and> t' = chain_tree c es)) \<and>
      past t' = drop (length (past t) + 1 - c) (past t @ [e])"
    using Apply_chain [OF es(1,2), of e] by (auto intro!: exI [of _ "drop (length es + 1 - c) (es @ [e])"])
qed auto

section \<open>Properties\<close>

fun JumpList_PushAll :: "jump_list \<Rightarrow> position list \<Rightarrow> jump_list go" where
  "JumpList_PushAll j [] = Some j"
| "JumpList_PushAll j (p # ps) = (case JumpList_Push j p of None \<Rightarrow> None | Some j' \<Rightarrow> JumpList_PushAll j' ps)"

lemma jump_push_all: "jump_ring.push_all j ps = JumpList_PushAll j ps"
  by (induction ps arbitrary: j) (auto split: option.splits)

text \<open>
  Pushing any positions on a new jump ring never panics; the ring then holds the last 100
  of them, \<open>At 0\<close> is the oldest kept and an index outside the ring reads the zero position.
\<close>

theorem jump_ring_keeps_last:
  "\<exists>j. JumpList_PushAll newJumpList ps = Some j \<and> JumpList_Len j = min 100 (len ps) \<and>
     map (JumpList_At j) [0..JumpList_Len j - 1] = map Some (drop (length ps - 100) ps) \<and>
     JumpList_At j (JumpList_Len j) = Some (Pos 0 0) \<and> JumpList_At j (- 1) = Some (Pos 0 0)"
proof -
  from jump_ring.push_all_fresh [OF ring_ok_new ring_items_new, of ps] obtain j where
    j: "JumpList_PushAll newJumpList ps = Some j" "ring_ok j" "ring_items j = drop (length ps - 100) ps"
    by (auto simp: jump_push_all)
  have n: "JumpList_Len j = min 100 (len ps)"
    using length_ring_items [OF j(2)] j(3) by simp
  have "map (JumpList_At j) [0..JumpList_Len j - 1] = map Some (ring_items j)"
  proof (rule nth_equalityI)
    show "length (map (JumpList_At j) [0..JumpList_Len j - 1]) = length (map Some (ring_items j))"
      using length_ring_items [OF j(2)] by simp
    fix i assume "i < length (map (JumpList_At j) [0..JumpList_Len j - 1])"
    then show "map (JumpList_At j) [0..JumpList_Len j - 1] ! i = map Some (ring_items j) ! i"
      using ring_at [OF j(2), of "int i"] length_ring_items [OF j(2)] by (simp add: nth_upto)
  qed
  then show ?thesis using j n by (simp add: JumpList_At_def)
qed

text \<open>
  Recording any edits one after another in a new history keeps exactly the most recent
  \<open>cap\<close> of them as the undoable line, with nothing to redo and an exact node count.
\<close>

theorem undo_tree_keeps_recent:
  "let t = foldl UndoTree_Apply (NewUndoTree n) es; c = (if n \<le> 0 then 1000 else nat n)
   in past t = drop (length es - c) es \<and> future t = [] \<and> NodeCount t = int (min c (length es))"
proof -
  define c :: nat where "c = (if n \<le> 0 then 1000 else nat n)"
  have c: "0 < c" by (simp add: c_def)
  have new: "NewUndoTree n = chain_tree c []"
    by (simp add: NewUndoTree_def chain_tree_def undoCap_def c_def)
  have all: "undo_chain.push_all t es = Some (foldl UndoTree_Apply t es)" for t
    by (induction es arbitrary: t) auto
  have "0 < c \<and> (\<exists>es. length es \<le> c \<and> chain_tree c [] = chain_tree c es)"
    using c by (intro conjI exI [of _ "[]"]) simp_all
  from undo_chain.push_all_fresh [OF this, of es] obtain ds where
    "foldl UndoTree_Apply (NewUndoTree n) es = chain_tree c ds" "ds = drop (length es - c) es"
    by (auto simp: all new)
  then show ?thesis by (simp add: NodeCount_def Let_def flip: c_def) (simp add: chain_tree_def)
qed

end
