(* ===== verification/EditorFlat.thy ===== *)
theory EditorFlat
  imports EditorBuffer
begin

text \<open>
  The flat-text specification of the buffer primitives.  Inserting, deleting and reading a
  character range of the rows is splicing, cutting and slicing the joined text at rune
  offsets, and none of the three panics on positions that pass the bounds check.
\<close>

section \<open>Positions in bounds\<close>

lemma in_bounds_cases:
  assumes "positionInBoundsLocked ls p" and "ls \<noteq> []"
  obtains xs l ys c where "ls = xs @ l # ys" "p = Pos (len xs) (int c)" "c \<le> length l"
proof -
  from assms have b: "0 \<le> Line p" "0 \<le> Col p" "Line p < len ls" "Col p \<le> len (ls ! nat (Line p))"
    by (auto simp: positionInBoundsLocked_def split: if_splits)
  then obtain ys zs where s: "ls = ys @ ls ! nat (Line p) # zs" "length ys = nat (Line p)"
    using list_split_at [of "nat (Line p)" ls] by (metis nat_less_iff)
  show ?thesis
  proof (rule that [of ys "ls ! nat (Line p)" zs "nat (Col p)"])
    show "ls = ys @ ls ! nat (Line p) # zs" by (rule s(1))
    show "p = Pos (len ys) (int (nat (Col p)))" using b s(2) by simp
    show "nat (Col p) \<le> length (ls ! nat (Line p))" using b by simp
  qed
qed

lemma in_bounds_Nil [simp]: "positionInBoundsLocked [] p \<longleftrightarrow> p = Pos 0 0"
  by (cases p) (auto simp: positionInBoundsLocked_def)

lemma in_bounds_middle [simp]:
  "positionInBoundsLocked (xs @ l # ys) (Pos (len xs) c) \<longleftrightarrow> 0 \<le> c \<and> c \<le> len l"
  by (auto simp: positionInBoundsLocked_def)

lemma offset_split:
  "ls = xs @ ys \<Longrightarrow> Line p = len xs \<Longrightarrow> Col p = int c \<Longrightarrow>
   offset ls p = length (lines_pre xs) + c"
  by (simp add: offset_def)

text \<open>Two positions in order, in the same row or in two rows.\<close>

lemma in_bounds_pair:
  assumes "positionInBoundsLocked ls s" "positionInBoundsLocked ls e" "\<not> posLess e s" "ls \<noteq> []"
  obtains (same) xs l ys c d where "ls = xs @ l # ys" "s = Pos (len xs) (int c)"
      "e = Pos (len xs) (int d)" "c \<le> d" "d \<le> length l"
    | (diff) xs l mid m ys c d where "ls = xs @ l # mid @ m # ys" "s = Pos (len xs) (int c)"
      "e = Pos (len xs + 1 + len mid) (int d)" "c \<le> length l" "d \<le> length m"
proof -
  from assms(1,4) obtain xs l ys c where s: "ls = xs @ l # ys" "s = Pos (len xs) (int c)" "c \<le> length l"
    by (rule in_bounds_cases)
  from assms(2,4) obtain xs' m zs d where e: "ls = xs' @ m # zs" "e = Pos (len xs') (int d)" "d \<le> length m"
    by (rule in_bounds_cases)
  show ?thesis
  proof (cases "length xs = length xs'")
    case True
    then have "xs' = xs \<and> m = l \<and> zs = ys" using s(1) e(1) by simp
    moreover have "c \<le> d" using assms(3) s(2) e(2) True by (simp add: posLess_def)
    ultimately show ?thesis using s e same by auto
  next
    case False
    then have lt: "length xs < length xs'" using assms(3) s(2) e(2) by (auto simp: posLess_def)
    have "xs @ l # ys = xs' @ m # zs" using s(1) e(1) by simp
    then obtain us where us: "xs @ us = xs'" "l # ys = us @ m # zs"
      using lt by (auto simp: append_eq_append_conv2)
    then obtain mid where x: "xs' = xs @ l # mid"
      using lt by (cases us) auto
    then have "ls = xs @ l # mid @ m # zs" using e(1) by simp
    then show ?thesis using s e x diff by auto
  qed
qed

lemma offset_le_length:
  "positionInBoundsLocked ls p \<Longrightarrow> offset ls p \<le> length (stringLocked ls)"
  by (cases "ls = []") (auto elim!: in_bounds_cases simp: offset_def stringLocked_middle)

section \<open>Insertion\<close>

lemma insertAtLocked_flat:
  assumes "positionInBoundsLocked ls p" and "rows_ok ls"
  shows "\<exists>ls'. insertAtLocked ls p t = Some ls' \<and> rows_ok ls' \<and>
    (ls' = [] \<longleftrightarrow> ls = [] \<and> t = []) \<and>
    stringLocked ls' = take (offset ls p) (stringLocked ls) @ t @ drop (offset ls p) (stringLocked ls) \<and>
    positionInBoundsLocked ls' p \<and> offset ls' p = offset ls p \<and>
    (ls' \<noteq> [] \<longrightarrow> positionInBoundsLocked ls' (advancePos p t)) \<and>
    offset ls' (advancePos p t) = offset ls p + length t"
proof (cases "t = []")
  case True
  then have "insertAtLocked ls p t = Some ls" "advancePos p t = p"
    by (simp_all add: insertAtLocked_def advancePos_def)
  then show ?thesis using assms True by auto
next
  case False
  let ?ls = "if ls = [] then [[]] else ls"
  have str: "stringLocked ?ls = stringLocked ls" by simp
  have off: "offset ?ls p = offset ls p" using assms(1) by (auto simp: offset_def)
  have ib: "positionInBoundsLocked ?ls p" and "rows_ok ?ls" and ne: "?ls \<noteq> []"
    using assms in_bounds_middle [of "[]" "[]" "[]" 0] by auto
  from ib ne obtain xs l ys c where
    L: "?ls = xs @ l # ys" and p: "p = Pos (len xs) (int c)" and c: "c \<le> length l"
    by (rule in_bounds_cases)
  have ok: "rows_ok xs" "rows_ok ys" "newline \<notin> set l"
    using \<open>rows_ok ?ls\<close> L by auto
  have S: "stringLocked ls = lines_pre xs @ l @ lines_post ys"
    using str L by (simp add: stringLocked_middle)
  have o: "offset ls p = length (lines_pre xs) + c"
    using off L p by (simp add: offset_def)
  show ?thesis
  proof (cases "tl (splitTextOnNewline t)")
    case Nil
    then have cs: "splitTextOnNewline t = [t]"
      by (metis split_Nil_iff split_nonempty list.exhaust_sel)
    then have nt: "newline \<notin> set t" by (simp add: split_Nil_iff)
    let ?r = "xs @ (take c l @ t @ drop c l) # ys"
    have "insertAtLocked ls p t = Some ?r"
      using False c by (simp add: insertAtLocked_def L p cs go_simps)
    moreover have "advancePos p t = Pos (len xs) (int (c + length t))"
      using cs p by (simp add: advancePos_split)
    ultimately show ?thesis
      using ok nt c False p unfolding o S
      by (auto simp: stringLocked_middle offset_def)
  next
    case (Cons c1 cs)
    then obtain c0 where sp: "splitTextOnNewline t = c0 # c1 # cs"
      by (metis list.collapse split_nonempty)
    obtain mm z where ms: "c1 # cs = mm @ [z]"
      by (metis list.distinct(1) rev_exhaust)
    note sp = sp [unfolded ms]
    have t: "t = c0 @ lines_post (mm @ [z])"
      using sp by (metis stringLocked_Cons string_split)
    have rt: "newline \<notin> set c0" "rows_ok mm" "newline \<notin> set z"
      using rows_ok_split [of t] unfolding sp by simp_all
    let ?r = "xs @ (take c l @ c0) # mm @ (z @ drop c l) # ys"
    have "insertAtLocked ls p t = Some ?r"
      using False c by (simp add: insertAtLocked_def L p sp go_simps)
    moreover have "stringLocked ?r = lines_pre xs @ take c l @ t @ drop c l @ lines_post ys"
      by (subst t) (simp add: stringLocked_middle)
    moreover have "advancePos p t = Pos (len (xs @ (take c l @ c0) # mm)) (int (length z))"
      using sp p by (simp add: advancePos_split)
    moreover have "?r = (xs @ (take c l @ c0) # mm) @ (z @ drop c l) # ys" by simp
    then have "positionInBoundsLocked ?r (Pos (len (xs @ (take c l @ c0) # mm)) (int (length z)))"
      by (metis in_bounds_middle length_append le_add1 of_nat_0_le_iff of_nat_le_iff)
    moreover have "offset ?r (Pos (len (xs @ (take c l @ c0) # mm)) (int (length z)))
        = length (lines_pre xs) + c + length t"
    proof -
      have "length t = length c0 + length (lines_pre mm) + 1 + length z"
        by (subst t) (simp add: length_lines_post)
      moreover have "offset ?r (Pos (len (xs @ (take c l @ c0) # mm)) (int (length z)))
          = length (lines_pre (xs @ (take c l @ c0) # mm)) + length z"
        by (rule offset_split [of _ _ "(z @ drop c l) # ys"]) simp_all
      ultimately show ?thesis using c by simp
    qed
    moreover have "positionInBoundsLocked ?r p" "offset ?r p = length (lines_pre xs) + c"
      using p c by (simp_all add: offset_def)
    moreover have "rows_ok ?r" using ok rt by simp
    ultimately show ?thesis
      unfolding o S using c False by auto
  qed
qed

section \<open>Deletion and reading\<close>

lemma delete_chars_flat:
  assumes "positionInBoundsLocked ls s" "positionInBoundsLocked ls e" "\<not> posLess e s" "rows_ok ls"
  shows "\<exists>ls'. deleteRangeLocked ls (Chars s e) = Some ls' \<and> rows_ok ls' \<and>
    (ls' = [] \<longleftrightarrow> ls = []) \<and>
    stringLocked ls' = take (offset ls s) (stringLocked ls) @ drop (offset ls e) (stringLocked ls) \<and>
    positionInBoundsLocked ls' s \<and> offset ls' s = offset ls s"
proof (cases "ls = []")
  case True
  then show ?thesis using assms by (simp add: deleteRangeLocked_def)
next
  case False
  from assms(1-3) False show ?thesis
  proof (cases rule: in_bounds_pair)
    case (same xs l ys c d)
    have "deleteRangeLocked ls (Chars s e) = Some (xs @ (take c l @ drop d l) # ys)"
      using same by (simp add: deleteRangeLocked_def go_simps)
    then show ?thesis using same assms(4)
      by (auto simp: stringLocked_middle offset_def)
  next
    case (diff xs l mid m ys c d)
    have "go_index ls (Line s) = Some l"
      by (rule go_index_at [of _ xs]) (simp_all add: diff)
    moreover have "go_index ls (Line e) = Some m"
      by (rule go_index_at [of _ "xs @ l # mid"]) (simp_all add: diff)
    moreover have "go_slice ls 0 (Line s) = Some xs"
      by (rule go_slice_at [of _ "[]"]) (simp_all add: diff)
    moreover have "go_slice ls (Line e + 1) (len ls) = Some ys"
      by (rule go_slice_at [of _ "xs @ l # mid @ [m]" _ "[]"]) (simp_all add: diff)
    ultimately have "deleteRangeLocked ls (Chars s e) = Some (xs @ (take c l @ drop d m) # ys)"
      using diff by (simp add: deleteRangeLocked_def go_simps)
    moreover have "stringLocked ls = (lines_pre xs @ l @ lines_post mid @ [newline]) @ m @ lines_post ys"
      using diff(1) by (simp add: stringLocked_middle)
    moreover have "offset ls e = length (lines_pre xs @ l @ lines_post mid @ [newline]) + d"
      using offset_split [of ls "xs @ l # mid" "m # ys" e d] by (simp add: diff length_lines_post)
    moreover have "take (offset ls s) (stringLocked ls) = lines_pre xs @ take c l"
      using diff by (simp add: stringLocked_middle offset_def)
    ultimately show ?thesis using diff assms(4)
      by (auto simp: stringLocked_middle offset_def)
  qed
qed

lemma text_chars_flat:
  assumes "positionInBoundsLocked ls s" "positionInBoundsLocked ls e" "\<not> posLess e s"
  shows "textInRangeLocked ls (Chars s e) =
      Some (take (offset ls e - offset ls s) (drop (offset ls s) (stringLocked ls)))
    \<and> offset ls s \<le> offset ls e"
proof (cases "ls = []")
  case True
  then show ?thesis using assms by (simp add: textInRangeLocked_def)
next
  case False
  have r: "rangeInBoundsLocked ls (Chars s e)" using assms by (simp add: rangeInBoundsLocked_def)
  from assms(1-3) False show ?thesis
  proof (cases rule: in_bounds_pair)
    case (same xs l ys c d)
    then show ?thesis using r
      by (simp add: textInRangeLocked_def go_simps stringLocked_middle offset_def)
  next
    case (diff xs l mid m ys c d)
    have "go_index ls (Line s) = Some l"
      by (rule go_index_at [of _ xs]) (simp_all add: diff)
    moreover have "go_index ls (Line e) = Some m"
      by (rule go_index_at [of _ "xs @ l # mid"]) (simp_all add: diff)
    moreover have "go_slice ls (Line s + 1) (Line e) = Some mid"
      by (rule go_slice_at [of _ "xs @ [l]"]) (simp_all add: diff)
    ultimately have "textInRangeLocked ls (Chars s e) = Some (drop c l @ newline # lines_pre mid @ take d m)"
      using diff r by (simp add: textInRangeLocked_def go_simps)
    moreover have "stringLocked ls = lines_pre xs @ l @ newline # lines_pre mid @ m @ lines_post ys"
      using diff(1) by (simp add: stringLocked_middle lines_post_newline_append)
    moreover have "offset ls s = length (lines_pre xs) + c"
      "offset ls e = length (lines_pre xs) + length l + 1 + length (lines_pre mid) + d"
      using offset_split [of ls xs "l # mid @ m # ys" s c]
        offset_split [of ls "xs @ l # mid" "m # ys" e d] by (simp_all add: diff)
    ultimately show ?thesis using diff by simp
  qed
qed

end
