(* ===== verification/EditorMotion.thy ===== *)
theory EditorMotion
  imports EditorFlat
begin

text \<open>
  Cursor motions (\<open>pkg/gui/editor/motion.go\<close>).  A motion reads the rows and returns
  \<open>Some (Some q)\<close> when it moves to \<open>q\<close>, \<open>Some None\<close> when it is rejected (Go's \<open>ok = false\<close>)
  and \<open>None\<close> when it would panic.  The letter and digit tables of Go's package \<open>unicode\<close> are
  the parameter \<open>unicode_tables\<close>; \<open>unicode.IsSpace\<close> is written out.
\<close>

section \<open>Runes\<close>

record unicode_tables =
  IsLetter :: "rune \<Rightarrow> bool"
  IsDigit :: "rune \<Rightarrow> bool"
  IsUpper :: "rune \<Rightarrow> bool"
  IsLower :: "rune \<Rightarrow> bool"
  ToUpper :: "rune \<Rightarrow> rune"
  ToLower :: "rune \<Rightarrow> rune"

text \<open>The tables restricted to ASCII, where the witnesses evaluate.\<close>

definition ascii_tables :: unicode_tables where
  "ascii_tables = \<lparr>
     IsLetter = (\<lambda>r. 65 \<le> r \<and> r \<le> 90 \<or> 97 \<le> r \<and> r \<le> 122),
     IsDigit = (\<lambda>r. 48 \<le> r \<and> r \<le> 57),
     IsUpper = (\<lambda>r. 65 \<le> r \<and> r \<le> 90),
     IsLower = (\<lambda>r. 97 \<le> r \<and> r \<le> 122),
     ToUpper = (\<lambda>r. if 97 \<le> r \<and> r \<le> 122 then r - 32 else r),
     ToLower = (\<lambda>r. if 65 \<le> r \<and> r \<le> 90 then r + 32 else r)\<rparr>"

lemma IsSpace_blank [simp]: "unicode_IsSpace 32" "unicode_IsSpace newline"
  by (simp_all add: unicode_IsSpace_def newline_def)

datatype runeClass = classSpace | classWord | classPunct

definition classifyWord :: "unicode_tables \<Rightarrow> rune \<Rightarrow> runeClass" where
  "classifyWord u r =
     (if unicode_IsSpace r then classSpace
      else if IsLetter u r \<or> IsDigit u r \<or> r = 95 then classWord
      else classPunct)"

definition classifyWORD :: "rune \<Rightarrow> runeClass" where
  "classifyWORD r = (if unicode_IsSpace r then classSpace else classWord)"

section \<open>Steps of one rune\<close>

definition runeAt :: "line list \<Rightarrow> position \<Rightarrow> rune option" where
  "runeAt ls p =
     (if Line p < 0 \<or> Line p \<ge> len ls then None
      else let rs = ls ! nat (Line p) in
        if Col p < 0 \<or> Col p > len rs then None
        else if Col p = len rs then Some 32
        else Some (rs ! nat (Col p)))"

definition stepRight :: "line list \<Rightarrow> position \<Rightarrow> position option" where
  "stepRight ls p =
     (if Line p < 0 \<or> Line p \<ge> len ls then None
      else if Col p < len (ls ! nat (Line p)) then Some (Pos (Line p) (Col p + 1))
      else if Line p + 1 < len ls then Some (Pos (Line p + 1) 0)
      else None)"

definition stepLeft :: "line list \<Rightarrow> position \<Rightarrow> position option" where
  "stepLeft ls p =
     (if Line p < 0 \<or> Line p \<ge> len ls then None
      else if Col p > 0 then Some (Pos (Line p) (Col p - 1))
      else if Line p > 0 then Some (Pos (Line p - 1) (len (ls ! nat (Line p - 1))))
      else None)"

text \<open>Both directions under one name, for the loops that differ in it only.\<close>

datatype direction = Rightwards | Leftwards

fun stepTo :: "direction \<Rightarrow> line list \<Rightarrow> position \<Rightarrow> position option" where
  "stepTo Rightwards ls p = stepRight ls p"
| "stepTo Leftwards ls p = stepLeft ls p"

text \<open>The steps left in each direction: the measure of every loop below.\<close>

definition steps_left :: "direction \<Rightarrow> line list \<Rightarrow> position \<Rightarrow> nat" where
  "steps_left d ls p =
     (case d of
        Rightwards \<Rightarrow>
          nat (len (ls ! nat (Line p)) - Col p) +
          sum_list (map (\<lambda>r. length r + 1) (drop (nat (Line p) + 1) ls))
      | Leftwards \<Rightarrow>
          nat (Col p) + sum_list (map (\<lambda>r. length r + 1) (take (nat (Line p)) ls)))"

lemma stepRight_less: "stepRight ls p = Some q \<Longrightarrow> steps_left Rightwards ls q < steps_left Rightwards ls p"
proof -
  assume s: "stepRight ls p = Some q"
  then have r: "0 \<le> Line p" "Line p < len ls" by (auto simp: stepRight_def split: if_splits)
  show ?thesis
  proof (cases "Col p < len (ls ! nat (Line p))")
    case True
    then show ?thesis using s r by (auto simp: stepRight_def steps_left_def)
  next
    case False
    then have q: "Line p + 1 < len ls" "q = Pos (Line p + 1) 0"
      using s r by (auto simp: stepRight_def split: if_splits)
    then have "drop (nat (Line p) + 1) ls = ls ! (nat (Line p) + 1) # drop (nat (Line p) + 2) ls"
      using r by (simp add: Cons_nth_drop_Suc)
    moreover have "nat (Line p + 1) = nat (Line p) + 1" using r by simp
    ultimately show ?thesis using q r by (simp add: steps_left_def)
  qed
qed

lemma stepLeft_less: "stepLeft ls p = Some q \<Longrightarrow> steps_left Leftwards ls q < steps_left Leftwards ls p"
proof -
  assume s: "stepLeft ls p = Some q"
  then have r: "0 \<le> Line p" "Line p < len ls" by (auto simp: stepLeft_def split: if_splits)
  show ?thesis
  proof (cases "Col p > 0")
    case True
    then show ?thesis using s r by (auto simp: stepLeft_def steps_left_def)
  next
    case False
    then have q: "0 < Line p" "q = Pos (Line p - 1) (len (ls ! nat (Line p - 1)))"
      using s r by (auto simp: stepLeft_def split: if_splits)
    then have "nat (Line p) = Suc (nat (Line p - 1))" "nat (Line p - 1) < length ls" using r by auto
    then have "take (nat (Line p)) ls = take (nat (Line p - 1)) ls @ [ls ! nat (Line p - 1)]"
      by (simp add: take_Suc_conv_app_nth)
    then show ?thesis using q r by (simp add: steps_left_def)
  qed
qed

lemma stepTo_less: "stepTo d ls p = Some q \<Longrightarrow> steps_left d ls q < steps_left d ls p"
  by (cases d) (auto intro: stepRight_less stepLeft_less)

text \<open>
  The outcome of a loop inside a motion: it returned from the motion at a position, or it was
  left at one and the motion goes on.
\<close>

datatype scan = Return position | Leave position

fun scan_pos :: "scan \<Rightarrow> position" where
  "scan_pos (Return p) = p"
| "scan_pos (Leave p) = p"

text \<open>The loop that skips whitespace in one direction.\<close>

function skipSpace :: "direction \<Rightarrow> line list \<Rightarrow> (rune \<Rightarrow> bool) \<Rightarrow> position \<Rightarrow> scan" where
  "skipSpace d ls space p =
     (case runeAt ls p of
        None \<Rightarrow> Return p
      | Some r \<Rightarrow>
          if \<not> space r then Leave p
          else (case stepTo d ls p of
                  None \<Rightarrow> Return p
                | Some q \<Rightarrow> skipSpace d ls space q))"
  by auto
termination
  by (relation "measure (\<lambda>(d, ls, _, p). steps_left d ls p)") (auto intro: stepTo_less)

text \<open>The loop that walks to the last rune of the class run of \<open>c\<close>.\<close>

function walkRun :: "direction \<Rightarrow> line list \<Rightarrow> (rune \<Rightarrow> runeClass) \<Rightarrow> runeClass \<Rightarrow> position \<Rightarrow> position" where
  "walkRun d ls cls c p =
     (case stepTo d ls p of
        None \<Rightarrow> p
      | Some q \<Rightarrow>
          (case runeAt ls q of
             None \<Rightarrow> p
           | Some r \<Rightarrow> if cls r \<noteq> c then p else walkRun d ls cls c q))"
  by auto
termination
  by (relation "measure (\<lambda>(d, ls, _, _, p). steps_left d ls p)") (auto intro: stepTo_less)

text \<open>Loop 1 of \<open>stepWordForward\<close>: leave the class run the cursor starts in.\<close>

function leaveRun :: "line list \<Rightarrow> (rune \<Rightarrow> runeClass) \<Rightarrow> runeClass \<Rightarrow> position \<Rightarrow> scan" where
  "leaveRun ls cls c p =
     (case stepRight ls p of
        None \<Rightarrow> Return p
      | Some q \<Rightarrow>
          (case runeAt ls q of
             None \<Rightarrow> Return q
           | Some r \<Rightarrow> if cls r \<noteq> c then Leave q else leaveRun ls cls c q))"
  by auto
termination
  by (relation "measure (\<lambda>(ls, _, _, p). steps_left Rightwards ls p)") (auto intro: stepRight_less)

declare skipSpace.simps [simp del] walkRun.simps [simp del] leaveRun.simps [simp del]

section \<open>Counts\<close>

record ViewFrame =
  Top :: int
  Height :: int

definition available :: "ViewFrame \<Rightarrow> bool" where
  "available f = (Height f > 0)"

definition lastVisible :: "ViewFrame \<Rightarrow> line list \<Rightarrow> int" where
  "lastVisible f ls =
     (let bottom = Top f + Height f - 1; hi = len ls - 1 in if bottom > hi then hi else bottom)"

type_synonym motion = "line list \<Rightarrow> position \<Rightarrow> int \<Rightarrow> ViewFrame \<Rightarrow> position option go"

definition validCount :: "int \<Rightarrow> int option" where
  "validCount count = (if count \<le> 0 then None else Some count)"

text \<open>
  The loop \<open>for range n\<close> every counted motion has: step until a step fails, and report the
  motion as rejected when no step succeeded.
\<close>

fun stepTimes :: "('p \<Rightarrow> 'p option) \<Rightarrow> nat \<Rightarrow> 'p \<Rightarrow> bool \<Rightarrow> 'p option" where
  "stepTimes step 0 p moved = (if moved then Some p else None)"
| "stepTimes step (Suc n) p moved =
     (case step p of
        None \<Rightarrow> if moved then Some p else None
      | Some q \<Rightarrow> stepTimes step n q True)"

definition counted :: "(line list \<Rightarrow> position \<Rightarrow> position option) \<Rightarrow> motion" where
  "counted step ls p count frame =
     Some (case validCount count of
             None \<Rightarrow> None
           | Some n \<Rightarrow> if ls = [] then None else stepTimes (step ls) (nat n) p False)"

section \<open>Character motions\<close>

definition CharLeft :: motion where
  "CharLeft = counted stepLeft"

definition CharRight :: motion where
  "CharRight = counted stepRight"

section \<open>Line motions\<close>

definition LineDown :: motion where
  "LineDown ls p count frame =
     (case validCount count of
        None \<Rightarrow> Some None
      | Some n \<Rightarrow>
          if ls = [] then Some None
          else let dst = (if Line p + n \<ge> len ls then len ls - 1 else Line p + n) in
            if dst = Line p then Some None
            else do {
              row \<leftarrow> go_index ls dst;
              Some (Some (Pos dst (if Col p > len row then len row else Col p))) })"

definition LineUp :: motion where
  "LineUp ls p count frame =
     (case validCount count of
        None \<Rightarrow> Some None
      | Some n \<Rightarrow>
          if ls = [] then Some None
          else let dst = max (Line p - n) 0 in
            if dst = Line p then Some None
            else do {
              row \<leftarrow> go_index ls dst;
              Some (Some (Pos dst (if Col p > len row then len row else Col p))) })"

definition on_line :: "line list \<Rightarrow> position \<Rightarrow> int \<Rightarrow> (line \<Rightarrow> int) \<Rightarrow> position option go" where
  "on_line ls p count col =
     Some (if validCount count = None then None
           else if ls = [] \<or> Line p < 0 \<or> Line p \<ge> len ls then None
           else let c = col (ls ! nat (Line p)) in
             if c = Col p then None else Some (Pos (Line p) c))"

definition LineStart :: motion where
  "LineStart ls p count frame = on_line ls p count (\<lambda>_. 0)"

text \<open>The first column whose rune is no space, the row's length on a blank row.\<close>

definition firstNonBlank :: "line \<Rightarrow> int" where
  "firstNonBlank rs = len (takeWhile unicode_IsSpace rs)"

definition LineFirstNonBlank :: motion where
  "LineFirstNonBlank ls p count frame = on_line ls p count firstNonBlank"

definition LineEnd :: motion where
  "LineEnd ls p count frame = on_line ls p count (\<lambda>rs. len rs)"

section \<open>Buffer motions\<close>

definition landLine :: "position \<Rightarrow> int \<Rightarrow> position option" where
  "landLine p line = (if Line p = line \<and> Col p = 0 then None else Some (Pos line 0))"

definition BufferStart :: motion where
  "BufferStart ls p count frame =
     Some (if validCount count = None then None
           else if ls = [] then None
           else if Line p = 0 \<and> Col p = 0 then None
           else Some (Pos 0 0))"

definition BufferEnd :: motion where
  "BufferEnd ls p count frame =
     Some (if validCount count = None then None
           else if ls = [] then None
           else let last = len ls - 1;
                    dst = (if count \<ge> 2 then min (count - 1) last else last)
                in if Line p = dst \<and> Col p = 0 then None else Some (Pos dst 0))"

section \<open>Word motions\<close>

definition stepWordForward :: "(rune \<Rightarrow> runeClass) \<Rightarrow> line list \<Rightarrow> position \<Rightarrow> position option" where
  "stepWordForward cls ls p =
     (case runeAt ls p of
        None \<Rightarrow> None
      | Some cur \<Rightarrow>
          (case (if cls cur \<noteq> classSpace then leaveRun ls cls (cls cur) p else Leave p) of
             Return q \<Rightarrow> Some q
           | Leave q \<Rightarrow> Some (scan_pos (skipSpace Rightwards ls (\<lambda>r. cls r = classSpace) q))))"

definition stepWordBackward :: "(rune \<Rightarrow> runeClass) \<Rightarrow> line list \<Rightarrow> position \<Rightarrow> position option" where
  "stepWordBackward cls ls p =
     (case stepLeft ls p of
        None \<Rightarrow> None
      | Some p1 \<Rightarrow>
          (case skipSpace Leftwards ls (\<lambda>r. cls r = classSpace) p1 of
             Return q \<Rightarrow> Some q
           | Leave q \<Rightarrow>
               (case runeAt ls q of
                  None \<Rightarrow> Some q
                | Some r \<Rightarrow> Some (walkRun Leftwards ls cls (cls r) q))))"

definition stepWordEnd :: "(rune \<Rightarrow> runeClass) \<Rightarrow> line list \<Rightarrow> position \<Rightarrow> position option" where
  "stepWordEnd cls ls p =
     (case stepRight ls p of
        None \<Rightarrow> None
      | Some p1 \<Rightarrow>
          (case skipSpace Rightwards ls (\<lambda>r. cls r = classSpace) p1 of
             Return q \<Rightarrow> Some q
           | Leave q \<Rightarrow>
               (case runeAt ls q of
                  None \<Rightarrow> Some q
                | Some r \<Rightarrow> Some (walkRun Rightwards ls cls (cls r) q))))"

definition WordNext :: "unicode_tables \<Rightarrow> motion" where
  "WordNext u = counted (stepWordForward (classifyWord u))"

definition WORDNext :: motion where
  "WORDNext = counted (stepWordForward classifyWORD)"

definition WordPrev :: "unicode_tables \<Rightarrow> motion" where
  "WordPrev u = counted (stepWordBackward (classifyWord u))"

definition WORDPrev :: motion where
  "WORDPrev = counted (stepWordBackward classifyWORD)"

definition WordEnd :: "unicode_tables \<Rightarrow> motion" where
  "WordEnd u = counted (stepWordEnd (classifyWord u))"

definition WORDEnd :: motion where
  "WORDEnd = counted (stepWordEnd classifyWORD)"

section \<open>Paragraph motions\<close>

definition isBlankLine :: "line \<Rightarrow> bool" where
  "isBlankLine rs = list_all unicode_IsSpace rs"

text \<open>\<open>isBlankLine(b.Lines[i].Runes)\<close>, with the panic of the index.\<close>

definition blankAt :: "line list \<Rightarrow> int \<Rightarrow> bool go" where
  "blankAt ls i = map_option isBlankLine (go_index ls i)"

definition fullAt :: "line list \<Rightarrow> int \<Rightarrow> bool go" where
  "fullAt ls i = map_option Not (blankAt ls i)"

definition paragraphBackwardOne :: "line list \<Rightarrow> int \<Rightarrow> int option go" where
  "paragraphBackwardOne ls line =
     (let cur = line - 1 in
      if cur < 0 then Some (if line \<noteq> 0 then Some 0 else None)
      else do {
        c1 \<leftarrow> scan_down (fullAt ls) 0 cur;
        c2 \<leftarrow> scan_down (\<lambda>c. do {
                 before \<leftarrow> blankAt ls (c - 1);
                 if before then blankAt ls c else Some False }) 1 c1;
        Some (Some (if c2 < 0 then 0 else c2)) })"

definition paragraphForwardOne :: "line list \<Rightarrow> int \<Rightarrow> int option go" where
  "paragraphForwardOne ls line =
     (let last = len ls - 1; cur = line + 1 in
      if cur > last then Some (if line \<noteq> last then Some last else None)
      else do {
        c1 \<leftarrow> scan_up (blankAt ls) last cur;
        c2 \<leftarrow> scan_up (fullAt ls) last c1;
        Some (Some (if c2 > last then last else c2)) })"

text \<open>The counted loop over a step on lines that may panic.\<close>

fun stepLines :: "(int \<Rightarrow> int option go) \<Rightarrow> nat \<Rightarrow> int \<Rightarrow> bool \<Rightarrow> int option go" where
  "stepLines step 0 l moved = Some (if moved then Some l else None)"
| "stepLines step (Suc n) l moved =
     (case step l of
        None \<Rightarrow> None
      | Some None \<Rightarrow> Some (if moved then Some l else None)
      | Some (Some l') \<Rightarrow> stepLines step n l' True)"

definition countedLines :: "(line list \<Rightarrow> int \<Rightarrow> int option go) \<Rightarrow> motion" where
  "countedLines step ls p count frame =
     (case validCount count of
        None \<Rightarrow> Some None
      | Some n \<Rightarrow>
          if ls = [] then Some None
          else map_option (map_option (\<lambda>l. Pos l 0)) (stepLines (step ls) (nat n) (Line p) False))"

definition ParagraphPrev :: motion where
  "ParagraphPrev = countedLines paragraphBackwardOne"

definition ParagraphNext :: motion where
  "ParagraphNext = countedLines paragraphForwardOne"

section \<open>Sentence motions\<close>

definition isSentenceEnd :: "rune \<Rightarrow> bool" where
  "isSentenceEnd r \<longleftrightarrow> r = 46 \<or> r = 33 \<or> r = 63"

text \<open>The rows from \<open>line\<close> on that are blank are skipped; \<open>len(b.Lines)\<close> when all are.\<close>

definition skipBlankLines :: "line list \<Rightarrow> int \<Rightarrow> int" where
  "skipBlankLines ls line = line + len (takeWhile isBlankLine (drop (nat line) ls))"

function sentenceScanForward :: "line list \<Rightarrow> position \<Rightarrow> position" where
  "sentenceScanForward ls p =
     (if Line p \<ge> 0 \<and> Line p < len ls \<and> isBlankLine (ls ! nat (Line p)) then
        (let line = skipBlankLines ls (Line p) in
         if line \<ge> len ls then Pos (len ls - 1) 0 else Pos line 0)
      else
        (case runeAt ls p of
           None \<Rightarrow> p
         | Some r \<Rightarrow>
             if isSentenceEnd r \<and>
                (case runeAt ls (Pos (Line p) (Col p + 1)) of
                   None \<Rightarrow> True
                 | Some ahead \<Rightarrow> unicode_IsSpace ahead)
             then (case stepRight ls p of
                     None \<Rightarrow> p
                   | Some q \<Rightarrow> scan_pos (skipSpace Rightwards ls unicode_IsSpace q))
             else (case stepRight ls p of
                     None \<Rightarrow> p
                   | Some q \<Rightarrow> sentenceScanForward ls q)))"
  by auto
termination
  by (relation "measure (\<lambda>(ls, p). steps_left Rightwards ls p)") (auto intro: stepRight_less)

definition sentenceForwardOne :: "line list \<Rightarrow> position \<Rightarrow> position option" where
  "sentenceForwardOne ls p = map_option (sentenceScanForward ls) (stepRight ls p)"

text \<open>
  The second inner loop of \<open>sentenceBackwardOne\<close>; it always returns, so the outer loop of the
  code runs once.
\<close>

function sentenceScanBackward :: "line list \<Rightarrow> position \<Rightarrow> position" where
  "sentenceScanBackward ls p =
     (case stepLeft ls p of
        None \<Rightarrow> p
      | Some q \<Rightarrow>
          (case runeAt ls q of
             None \<Rightarrow> p
           | Some r \<Rightarrow>
               if isSentenceEnd r then p
               else if Line q \<noteq> Line p \<and> Line q \<ge> 0 \<and> Line q < len ls \<and> isBlankLine (ls ! nat (Line q))
               then p
               else if Line q = 0 \<and> Col q = 0 then q
               else sentenceScanBackward ls q))"
  by auto
termination
  by (relation "measure (\<lambda>(ls, p). steps_left Leftwards ls p)") (auto intro: stepLeft_less)

declare sentenceScanForward.simps [simp del] sentenceScanBackward.simps [simp del]

text \<open>The whitespace loop of \<open>sentenceBackwardOne\<close> goes on where no rune is left to read.\<close>

definition sentenceBackwardOne :: "line list \<Rightarrow> position \<Rightarrow> position option" where
  "sentenceBackwardOne ls p =
     (case stepLeft ls p of
        None \<Rightarrow> None
      | Some p1 \<Rightarrow>
          (case skipSpace Leftwards ls unicode_IsSpace p1 of
             Leave q \<Rightarrow> Some (sentenceScanBackward ls q)
           | Return q \<Rightarrow>
               (if runeAt ls q = None then Some (sentenceScanBackward ls q) else Some q)))"

definition SentenceNext :: motion where
  "SentenceNext = counted sentenceForwardOne"

definition SentencePrev :: motion where
  "SentencePrev = counted sentenceBackwardOne"

section \<open>Screen-relative motions\<close>

definition screenLand :: "line list \<Rightarrow> position \<Rightarrow> ViewFrame \<Rightarrow> int \<Rightarrow> position option" where
  "screenLand ls p frame target =
     (let t = (if target < Top frame then Top frame else target);
          t = (if t > lastVisible frame ls then lastVisible frame ls else t)
      in landLine p t)"

definition ScreenTop :: motion where
  "ScreenTop ls p count frame =
     (if \<not> available frame then BufferStart ls p count frame
      else Some (case validCount count of
             None \<Rightarrow> None
           | Some n \<Rightarrow> if ls = [] then None else screenLand ls p frame (Top frame + n - 1)))"

definition go_div :: "int \<Rightarrow> int \<Rightarrow> int" where
  "go_div a b = sgn a * sgn b * (\<bar>a\<bar> div \<bar>b\<bar>)"

definition ScreenMiddle :: motion where
  "ScreenMiddle ls p count frame =
     Some (if validCount count = None then None
           else if ls = [] then None
           else if \<not> available frame then landLine p (go_div (len ls) 2)
           else screenLand ls p frame (Top frame + go_div (lastVisible frame ls - Top frame) 2))"

definition ScreenBottom :: motion where
  "ScreenBottom ls p count frame =
     (if \<not> available frame then BufferEnd ls p count frame
      else Some (case validCount count of
             None \<Rightarrow> None
           | Some n \<Rightarrow>
               if ls = [] then None else screenLand ls p frame (lastVisible frame ls - (n - 1))))"

text \<open>Every motion of the file.\<close>

definition motions :: "unicode_tables \<Rightarrow> motion list" where
  "motions u = [CharLeft, CharRight, LineDown, LineUp, LineStart, LineFirstNonBlank, LineEnd,
     BufferStart, BufferEnd, WordNext u, WORDNext, WordPrev u, WORDPrev, WordEnd u, WORDEnd,
     ParagraphPrev, ParagraphNext, SentenceNext, SentencePrev, ScreenTop, ScreenMiddle, ScreenBottom]"

end
