(* ===== verification/EditorMotionSpec.thy ===== *)
theory EditorMotionSpec
  imports EditorMotion
begin

text \<open>
  What the motions do, on the flat text of the rows.  A step of one rune is a step of one
  offset; the loops of the word and sentence motions are scans of the flat text; every motion
  stays inside the rows.  The contract of a counted motion's step is the locale \<open>stepper\<close>,
  with \<open>forward_stepper\<close> and \<open>backward_stepper\<close> extending it.
\<close>

section \<open>Steps and flat offsets\<close>

lemma stepRight_flat:
  assumes "positionInBoundsLocked ls p" "ls \<noteq> []"
  shows "stepRight ls p = None \<and> offset ls p = length (stringLocked ls) \<or>
    (\<exists>q. stepRight ls p = Some q \<and> positionInBoundsLocked ls q \<and> offset ls q = Suc (offset ls p))"
  using assms
proof (cases rule: in_bounds_cases)
  case (1 xs l ys c)
  note c = 1
  show ?thesis
  proof (cases "c < length l")
    case True
    then have "stepRight ls p = Some (Pos (len xs) (int (Suc c)))"
      using c by (simp add: stepRight_def add.commute)
    moreover have "positionInBoundsLocked ls (Pos (len xs) (int (Suc c)))"
      using c True by (simp del: of_nat_Suc)
    ultimately show ?thesis using c by (auto simp: offset_def)
  next
    case False
    then have e: "c = length l" using c by simp
    show ?thesis
    proof (cases ys)
      case Nil
      then show ?thesis using c e by (simp add: stepRight_def offset_def stringLocked_middle)
    next
      case (Cons m zs)
      have ls: "ls = (xs @ [l]) @ m # zs" using c Cons by simp
      have "stepRight ls p = Some (Pos (len (xs @ [l])) (int 0))"
        using c e Cons by (simp add: stepRight_def add.commute)
      moreover have "positionInBoundsLocked ls (Pos (len (xs @ [l])) (int 0))"
        unfolding ls by (subst in_bounds_middle) simp
      ultimately show ?thesis using c e by (auto simp: offset_def nat_add_distrib)
    qed
  qed
qed

lemma stepLeft_flat:
  assumes "positionInBoundsLocked ls p" "ls \<noteq> []"
  shows "stepLeft ls p = None \<and> offset ls p = 0 \<or>
    (\<exists>q. stepLeft ls p = Some q \<and> positionInBoundsLocked ls q \<and> offset ls p = Suc (offset ls q))"
  using assms
proof (cases rule: in_bounds_cases)
  case (1 xs l ys c)
  note c = 1
  show ?thesis
  proof (cases c)
    case (Suc d)
    then have "stepLeft ls p = Some (Pos (len xs) (int d))" using c by (simp add: stepLeft_def)
    moreover have "positionInBoundsLocked ls (Pos (len xs) (int d))" using c Suc by simp
    ultimately show ?thesis using c Suc by (auto simp: offset_def)
  next
    case 0
    show ?thesis
    proof (cases xs rule: rev_cases)
      case Nil
      then show ?thesis using c 0 by (simp add: stepLeft_def offset_def)
    next
      case (snoc zs m)
      have ls: "ls = zs @ m # l # ys" using c snoc by simp
      have "stepLeft ls p = Some (Pos (len zs) (int (length m)))"
        using c 0 snoc by (simp add: stepLeft_def nth_append)
      moreover have "positionInBoundsLocked ls (Pos (len zs) (int (length m)))"
        unfolding ls by (subst in_bounds_middle) simp
      ultimately show ?thesis using c 0 snoc by (auto simp: offset_def nat_add_distrib)
    qed
  qed
qed

text \<open>The rune a motion reads at an offset of the flat text: a line end counts as a blank.\<close>

definition flat_at :: "runes \<Rightarrow> nat \<Rightarrow> rune" where
  "flat_at S i = (if i < length S \<and> S ! i \<noteq> newline then S ! i else 32)"

lemma runeAt_Some: "positionInBoundsLocked ls p \<Longrightarrow> ls \<noteq> [] \<Longrightarrow> runeAt ls p \<noteq> None"
  by (auto simp: runeAt_def positionInBoundsLocked_def Let_def split: if_splits)

lemma runeAt_flat:
  assumes "positionInBoundsLocked ls p" "ls \<noteq> []" "rows_ok ls"
  shows "runeAt ls p = Some (flat_at (stringLocked ls) (offset ls p))"
  using assms(1,2)
proof (cases rule: in_bounds_cases)
  case (1 xs l ys c)
  then have o: "offset ls p = length (lines_pre xs) + c" by (simp add: offset_def)
  have S: "stringLocked ls = lines_pre xs @ l @ lines_post ys" using 1 by (simp add: stringLocked_middle)
  show ?thesis
  proof (cases "c < length l")
    case True
    then have "stringLocked ls ! (length (lines_pre xs) + c) = l ! c"
      by (simp add: S nth_append)
    moreover have "l ! c \<noteq> newline"
      using True 1 assms(3) by (metis nth_mem rows_ok_simps(2,3))
    ultimately show ?thesis using True 1 o S by (simp add: runeAt_def flat_at_def)
  next
    case False
    then have "c = length l" using 1 by simp
    then show ?thesis using 1 o S
      by (cases ys) (auto simp: runeAt_def flat_at_def nth_append)
  qed
qed

section \<open>The loops as scans\<close>

text \<open>\<open>P\<close> holds on the offsets from \<open>a\<close> on, up to and without \<open>b\<close>.\<close>

definition on_range :: "(nat \<Rightarrow> bool) \<Rightarrow> nat \<Rightarrow> nat \<Rightarrow> bool" where
  "on_range P a b \<longleftrightarrow> (\<forall>i. a \<le> i \<and> i < b \<longrightarrow> P i)"

lemma on_range_empty [simp]: "b \<le> a \<Longrightarrow> on_range P a b"
  by (auto simp: on_range_def)

lemma on_range_down: "P a \<Longrightarrow> on_range P (Suc a) b \<Longrightarrow> on_range P a b"
  by (metis on_range_def Suc_leI le_neq_implies_less)

lemma on_range_up: "P b \<Longrightarrow> on_range P a b \<Longrightarrow> on_range P a (Suc b)"
  by (metis on_range_def less_SucE)

lemma skipSpace_right:
  assumes "rows_ok ls" "ls \<noteq> []"
  shows "positionInBoundsLocked ls p \<Longrightarrow>
    (let r = skipSpace Rightwards ls sp p; q = scan_pos r; S = stringLocked ls in
     positionInBoundsLocked ls q \<and> offset ls p \<le> offset ls q \<and>
     on_range (\<lambda>i. sp (flat_at S i)) (offset ls p) (offset ls q) \<and>
     (r = Leave q \<and> \<not> sp (flat_at S (offset ls q)) \<or>
      r = Return q \<and> offset ls q = length S \<and> sp (flat_at S (offset ls q))))"
proof (induction "steps_left Rightwards ls p" arbitrary: p rule: less_induct)
  case less
  note at = runeAt_flat [OF less.prems assms(2,1)]
  show ?case
  proof (cases "sp (flat_at (stringLocked ls) (offset ls p))")
    case False
    then show ?thesis using at less.prems by (subst skipSpace.simps) (auto simp: Let_def)
  next
    case True
    from stepRight_flat [OF less.prems assms(2)] show ?thesis
    proof (elim disjE exE conjE)
      assume "stepRight ls p = None" "offset ls p = length (stringLocked ls)"
      then show ?thesis using at True less.prems by (subst skipSpace.simps) (auto simp: Let_def)
    next
      fix q assume q: "stepRight ls p = Some q" "positionInBoundsLocked ls q" "offset ls q = Suc (offset ls p)"
      have "skipSpace Rightwards ls sp p = skipSpace Rightwards ls sp q"
        using at True q by (subst skipSpace.simps) simp
      with less.hyps [OF stepRight_less [OF q(1)] q(2)] True q(3) show ?thesis
        by (auto simp: Let_def intro: on_range_down on_range_up)
    qed
  qed
qed

lemma skipSpace_left:
  assumes "rows_ok ls" "ls \<noteq> []"
  shows "positionInBoundsLocked ls p \<Longrightarrow>
    (let r = skipSpace Leftwards ls sp p; q = scan_pos r; S = stringLocked ls in
     positionInBoundsLocked ls q \<and> offset ls q \<le> offset ls p \<and>
     on_range (\<lambda>i. sp (flat_at S i)) (Suc (offset ls q)) (Suc (offset ls p)) \<and>
     (r = Leave q \<and> \<not> sp (flat_at S (offset ls q)) \<or>
      r = Return q \<and> offset ls q = 0 \<and> sp (flat_at S 0)))"
proof (induction "steps_left Leftwards ls p" arbitrary: p rule: less_induct)
  case less
  note at = runeAt_flat [OF less.prems assms(2,1)]
  show ?case
  proof (cases "sp (flat_at (stringLocked ls) (offset ls p))")
    case False
    then show ?thesis using at less.prems by (subst skipSpace.simps) (auto simp: Let_def)
  next
    case True
    from stepLeft_flat [OF less.prems assms(2)] show ?thesis
    proof (elim disjE exE conjE)
      assume "stepLeft ls p = None" "offset ls p = 0"
      then show ?thesis using at True less.prems by (subst skipSpace.simps) (auto simp: Let_def)
    next
      fix q assume q: "stepLeft ls p = Some q" "positionInBoundsLocked ls q" "offset ls p = Suc (offset ls q)"
      have "skipSpace Leftwards ls sp p = skipSpace Leftwards ls sp q"
        using at True q by (subst skipSpace.simps) simp
      with less.hyps [OF stepLeft_less [OF q(1)] q(2)] True q(3) show ?thesis
        by (auto simp: Let_def intro: on_range_down on_range_up)
    qed
  qed
qed

lemma walkRun_right:
  assumes "rows_ok ls" "ls \<noteq> []"
  shows "positionInBoundsLocked ls p \<Longrightarrow>
    (let q = walkRun Rightwards ls cls c p; S = stringLocked ls in
     positionInBoundsLocked ls q \<and> offset ls p \<le> offset ls q \<and>
     on_range (\<lambda>i. cls (flat_at S i) = c) (Suc (offset ls p)) (Suc (offset ls q)) \<and>
     (offset ls q = length S \<or> cls (flat_at S (Suc (offset ls q))) \<noteq> c))"
proof (induction "steps_left Rightwards ls p" arbitrary: p rule: less_induct)
  case less
  from stepRight_flat [OF less.prems assms(2)] show ?case
  proof (elim disjE exE conjE)
    assume "stepRight ls p = None" "offset ls p = length (stringLocked ls)"
    then show ?thesis using less.prems by (simp add: walkRun.simps [of _ ls cls c p])
  next
    fix q assume q: "stepRight ls p = Some q" "positionInBoundsLocked ls q" "offset ls q = Suc (offset ls p)"
    note at = runeAt_flat [OF q(2) assms(2,1)]
    show ?thesis
    proof (cases "cls (flat_at (stringLocked ls) (offset ls q)) = c")
      case True
      then have "walkRun Rightwards ls cls c p = walkRun Rightwards ls cls c q"
        using at q by (subst walkRun.simps) simp
      with less.hyps [OF stepRight_less [OF q(1)] q(2)] True q(3) show ?thesis
        by (auto simp: Let_def intro: on_range_down on_range_up)
    next
      case False
      then have "walkRun Rightwards ls cls c p = p" using at q by (subst walkRun.simps) simp
      then show ?thesis using False q(3) less.prems by (auto simp: Let_def)
    qed
  qed
qed

lemma walkRun_left:
  assumes "rows_ok ls" "ls \<noteq> []"
  shows "positionInBoundsLocked ls p \<Longrightarrow>
    (let q = walkRun Leftwards ls cls c p; S = stringLocked ls in
     positionInBoundsLocked ls q \<and> offset ls q \<le> offset ls p \<and>
     on_range (\<lambda>i. cls (flat_at S i) = c) (offset ls q) (offset ls p) \<and>
     (offset ls q = 0 \<or> cls (flat_at S (offset ls q - 1)) \<noteq> c))"
proof (induction "steps_left Leftwards ls p" arbitrary: p rule: less_induct)
  case less
  from stepLeft_flat [OF less.prems assms(2)] show ?case
  proof (elim disjE exE conjE)
    assume "stepLeft ls p = None" "offset ls p = 0"
    then show ?thesis using less.prems by (simp add: walkRun.simps [of _ ls cls c p])
  next
    fix q assume q: "stepLeft ls p = Some q" "positionInBoundsLocked ls q" "offset ls p = Suc (offset ls q)"
    note at = runeAt_flat [OF q(2) assms(2,1)]
    show ?thesis
    proof (cases "cls (flat_at (stringLocked ls) (offset ls q)) = c")
      case True
      then have "walkRun Leftwards ls cls c p = walkRun Leftwards ls cls c q"
        using at q by (subst walkRun.simps) simp
      with less.hyps [OF stepLeft_less [OF q(1)] q(2)] True q(3) show ?thesis
        by (auto simp: Let_def intro: on_range_down on_range_up)
    next
      case False
      then have "walkRun Leftwards ls cls c p = p" using at q by (subst walkRun.simps) simp
      then show ?thesis using False q(3) less.prems by (auto simp: Let_def)
    qed
  qed
qed

lemma leaveRun_flat:
  assumes "rows_ok ls" "ls \<noteq> []"
  shows "positionInBoundsLocked ls p \<Longrightarrow>
    (let r = leaveRun ls cls c p; q = scan_pos r; S = stringLocked ls in
     positionInBoundsLocked ls q \<and> offset ls p \<le> offset ls q \<and>
     on_range (\<lambda>i. cls (flat_at S i) = c) (Suc (offset ls p)) (offset ls q) \<and>
     (r = Leave q \<and> offset ls p < offset ls q \<and> cls (flat_at S (offset ls q)) \<noteq> c \<or>
      r = Return q \<and> offset ls q = length S \<and> (offset ls p < offset ls q \<longrightarrow> cls (flat_at S (offset ls q)) = c)))"
proof (induction "steps_left Rightwards ls p" arbitrary: p rule: less_induct)
  case less
  from stepRight_flat [OF less.prems assms(2)] show ?case
  proof (elim disjE exE conjE)
    assume "stepRight ls p = None" "offset ls p = length (stringLocked ls)"
    then show ?thesis using less.prems by (subst leaveRun.simps) (auto simp: Let_def)
  next
    fix q assume q: "stepRight ls p = Some q" "positionInBoundsLocked ls q" "offset ls q = Suc (offset ls p)"
    note at = runeAt_flat [OF q(2) assms(2,1)]
    show ?thesis
    proof (cases "cls (flat_at (stringLocked ls) (offset ls q)) = c")
      case True
      then have "leaveRun ls cls c p = leaveRun ls cls c q"
        using at q by (subst leaveRun.simps) simp
      with less.hyps [OF stepRight_less [OF q(1)] q(2)] True q(3) show ?thesis
        by (auto simp: Let_def intro: on_range_down on_range_up)
    next
      case False
      then have "leaveRun ls cls c p = Leave q" using at q by (subst leaveRun.simps) simp
      then show ?thesis using False q by (auto simp: Let_def intro: on_range_down on_range_up)
    qed
  qed
qed

section \<open>Word motions on the flat text\<close>

text \<open>A word starts (ends) where a run of one class other than whitespace starts (ends).\<close>

definition word_start :: "(rune \<Rightarrow> runeClass) \<Rightarrow> runes \<Rightarrow> nat \<Rightarrow> bool" where
  "word_start cls S i \<longleftrightarrow> cls (flat_at S i) \<noteq> classSpace \<and>
     (i = 0 \<or> cls (flat_at S (i - 1)) \<noteq> cls (flat_at S i))"

definition word_end :: "(rune \<Rightarrow> runeClass) \<Rightarrow> runes \<Rightarrow> nat \<Rightarrow> bool" where
  "word_end cls S i \<longleftrightarrow> cls (flat_at S i) \<noteq> classSpace \<and> cls (flat_at S (Suc i)) \<noteq> cls (flat_at S i)"

lemma on_range_at: "on_range P a b \<Longrightarrow> a \<le> i \<Longrightarrow> i < b \<Longrightarrow> P i"
  by (simp add: on_range_def)

lemma flat_at_end: "length S \<le> i \<Longrightarrow> flat_at S i = 32"
  by (simp add: flat_at_def)

lemma no_start_in_space: "on_range (\<lambda>i. cls (flat_at S i) = classSpace) a b \<Longrightarrow> a \<le> i \<Longrightarrow> i < b \<Longrightarrow>
    \<not> word_start cls S i \<and> \<not> word_end cls S i"
  by (auto simp: on_range_def word_start_def word_end_def)

lemma no_start_in_run: "on_range (\<lambda>i. cls (flat_at S i) = c) a b \<Longrightarrow> a < i \<Longrightarrow> i < b \<Longrightarrow> \<not> word_start cls S i"
  using on_range_at [of "\<lambda>i. cls (flat_at S i) = c" a b i] on_range_at [of "\<lambda>i. cls (flat_at S i) = c" a b "i - 1"]
  by (simp add: word_start_def)

lemma no_end_in_run: "on_range (\<lambda>i. cls (flat_at S i) = c) a b \<Longrightarrow> a \<le> i \<Longrightarrow> Suc i < b \<Longrightarrow> \<not> word_end cls S i"
  by (auto simp: on_range_def word_end_def)

lemma start_after_space:
  "on_range (\<lambda>i. cls (flat_at S i) = classSpace) a b \<Longrightarrow> a < b \<Longrightarrow> cls (flat_at S b) \<noteq> classSpace \<Longrightarrow>
   word_start cls S b"
  using on_range_at [of "\<lambda>i. cls (flat_at S i) = classSpace" a b "b - 1"] by (simp add: word_start_def)

lemma skip_to_start:
  assumes "rows_ok ls" "ls \<noteq> []" "positionInBoundsLocked ls p"
  obtains q where "scan_pos (skipSpace Rightwards ls (\<lambda>r. cls r = classSpace) p) = q"
    "positionInBoundsLocked ls q" "offset ls p \<le> offset ls q"
    "on_range (\<lambda>i. cls (flat_at (stringLocked ls) i) = classSpace) (offset ls p) (offset ls q)"
    "cls (flat_at (stringLocked ls) (offset ls q)) \<noteq> classSpace \<or> offset ls q = length (stringLocked ls)"
  using skipSpace_right [OF assms, of "\<lambda>r. cls r = classSpace"] by (auto simp: Let_def)

lemma stepWordForward_flat:
  assumes "rows_ok ls" "ls \<noteq> []" "positionInBoundsLocked ls p"
  shows "\<exists>q. stepWordForward cls ls p = Some q \<and> positionInBoundsLocked ls q \<and> offset ls p \<le> offset ls q \<and>
    (\<forall>i. offset ls p < i \<and> i < offset ls q \<longrightarrow> \<not> word_start cls (stringLocked ls) i) \<and>
    (word_start cls (stringLocked ls) (offset ls q) \<and> offset ls p < offset ls q \<or>
     offset ls q = length (stringLocked ls))"
proof -
  let ?S = "stringLocked ls"
  let ?c = "cls (flat_at ?S (offset ls p))"
  note at = runeAt_flat [OF assms(3,2,1)]
  show ?thesis
  proof (cases "?c = classSpace")
    case True
    from skip_to_start [OF assms, of cls] obtain q where
      q: "scan_pos (skipSpace Rightwards ls (\<lambda>r. cls r = classSpace) p) = q"
      "positionInBoundsLocked ls q" "offset ls p \<le> offset ls q"
      "on_range (\<lambda>i. cls (flat_at ?S i) = classSpace) (offset ls p) (offset ls q)"
      "cls (flat_at ?S (offset ls q)) \<noteq> classSpace \<or> offset ls q = length ?S" .
    have "word_start cls ?S (offset ls q) \<and> offset ls p < offset ls q \<or> offset ls q = length ?S"
      using q(3-5) True start_after_space [OF q(4)] by (cases "offset ls p = offset ls q") auto
    then show ?thesis using at True q no_start_in_space [OF q(4)] by (auto simp: stepWordForward_def)
  next
    case False
    define l where "l = leaveRun ls cls ?c p"
    define m where "m = scan_pos l"
    from leaveRun_flat [OF assms, of cls ?c] have
      m: "positionInBoundsLocked ls m" "offset ls p \<le> offset ls m"
        "on_range (\<lambda>i. cls (flat_at ?S i) = ?c) (Suc (offset ls p)) (offset ls m)"
      and l: "l = Leave m \<and> offset ls p < offset ls m \<and> cls (flat_at ?S (offset ls m)) \<noteq> ?c \<or>
        l = Return m \<and> offset ls m = length ?S"
      by (auto simp: Let_def l_def m_def)
    have run: "on_range (\<lambda>i. cls (flat_at ?S i) = ?c) (offset ls p) (offset ls m)"
      using m(3) by (rule on_range_down [rotated]) simp
    from l show ?thesis
    proof (elim disjE conjE)
      assume "l = Return m" "offset ls m = length ?S"
      then show ?thesis using at False m no_start_in_run [OF run]
        by (auto simp: stepWordForward_def l_def)
    next
      assume lv: "l = Leave m" "offset ls p < offset ls m" "cls (flat_at ?S (offset ls m)) \<noteq> ?c"
      from skip_to_start [OF assms(1,2) m(1), of cls] obtain q where
        q: "scan_pos (skipSpace Rightwards ls (\<lambda>r. cls r = classSpace) m) = q"
        "positionInBoundsLocked ls q" "offset ls m \<le> offset ls q"
        "on_range (\<lambda>i. cls (flat_at ?S i) = classSpace) (offset ls m) (offset ls q)"
        "cls (flat_at ?S (offset ls q)) \<noteq> classSpace \<or> offset ls q = length ?S" .
      have "word_start cls ?S (offset ls q) \<or> offset ls q = length ?S"
      proof (cases "offset ls m = offset ls q")
        case True
        have "cls (flat_at ?S (offset ls m - 1)) = ?c"
          using on_range_at [OF run, of "offset ls m - 1"] lv(2) by auto
        then show ?thesis using q(5) lv(3) True by (auto simp: word_start_def)
      next
        case False
        then show ?thesis using q(3-5) start_after_space [OF q(4)] by auto
      qed
      moreover have "\<not> word_start cls ?S i" if "offset ls p < i" "i < offset ls q" for i
        using that no_start_in_run [OF run, of i] no_start_in_space [OF q(4), of i] by (meson not_le)
      ultimately show ?thesis using at False lv(1,2) q m by (auto simp: stepWordForward_def l_def)
    qed
  qed
qed

lemma stepWordBackward_flat:
  assumes "rows_ok ls" "ls \<noteq> []" "positionInBoundsLocked ls p"
  shows "stepWordBackward cls ls p = None \<and> offset ls p = 0 \<or>
    (\<exists>q. stepWordBackward cls ls p = Some q \<and> positionInBoundsLocked ls q \<and> offset ls q < offset ls p \<and>
    (\<forall>i. offset ls q < i \<and> i < offset ls p \<longrightarrow> \<not> word_start cls (stringLocked ls) i) \<and>
    (word_start cls (stringLocked ls) (offset ls q) \<or> offset ls q = 0))"
proof -
  let ?S = "stringLocked ls"
  from stepLeft_flat [OF assms(3,2)] show ?thesis
  proof (elim disjE exE conjE)
    assume "stepLeft ls p = None" "offset ls p = 0"
    then show ?thesis by (simp add: stepWordBackward_def)
  next
    fix p1 assume p1: "stepLeft ls p = Some p1" "positionInBoundsLocked ls p1" "offset ls p = Suc (offset ls p1)"
    define s where "s = skipSpace Leftwards ls (\<lambda>r. cls r = classSpace) p1"
    define q where "q = scan_pos s"
    from skipSpace_left [OF assms(1,2) p1(2), of "\<lambda>r. cls r = classSpace"] have
      q: "positionInBoundsLocked ls q" "offset ls q < offset ls p"
        "on_range (\<lambda>i. cls (flat_at ?S i) = classSpace) (Suc (offset ls q)) (offset ls p)"
      and sq: "s = Leave q \<and> cls (flat_at ?S (offset ls q)) \<noteq> classSpace \<or>
        s = Return q \<and> offset ls q = 0"
      by (auto simp: Let_def s_def q_def p1(3))
    from sq show ?thesis
    proof (elim disjE conjE)
      assume "s = Return q" "offset ls q = 0"
      then show ?thesis using p1 q no_start_in_space [OF q(3)]
        by (auto simp: stepWordBackward_def s_def Suc_le_eq)
    next
      assume lv: "s = Leave q" "cls (flat_at ?S (offset ls q)) \<noteq> classSpace"
      let ?c = "cls (flat_at ?S (offset ls q))"
      define r where "r = walkRun Leftwards ls cls ?c q"
      from walkRun_left [OF assms(1,2) q(1), of cls ?c] have
        r: "positionInBoundsLocked ls r" "offset ls r \<le> offset ls q"
          "on_range (\<lambda>i. cls (flat_at ?S i) = ?c) (offset ls r) (offset ls q)"
          "offset ls r = 0 \<or> cls (flat_at ?S (offset ls r - 1)) \<noteq> ?c"
        by (auto simp: Let_def r_def)
      have run: "on_range (\<lambda>i. cls (flat_at ?S i) = ?c) (offset ls r) (Suc (offset ls q))"
        using r(3) by (rule on_range_up [rotated]) simp
      have "word_start cls ?S (offset ls r)"
        using on_range_at [OF run, of "offset ls r"] r(2,4) lv(2) by (simp add: word_start_def)
      moreover have "\<not> word_start cls ?S i" if "offset ls r < i" "i < offset ls p" for i
        using that no_start_in_run [OF run, of i] no_start_in_space [OF q(3), of i]
        by (meson Suc_leI less_Suc_eq_le not_less)
      ultimately show ?thesis
        using p1(1) lv(1) runeAt_flat [OF q(1) assms(2,1)] r(1,2) q(2)
        by (auto simp: stepWordBackward_def s_def r_def)
    qed
  qed
qed

lemma stepWordEnd_flat:
  assumes "rows_ok ls" "ls \<noteq> []" "positionInBoundsLocked ls p" "cls 32 = classSpace"
  shows "stepWordEnd cls ls p = None \<and> offset ls p = length (stringLocked ls) \<or>
    (\<exists>q. stepWordEnd cls ls p = Some q \<and> positionInBoundsLocked ls q \<and> offset ls p < offset ls q \<and>
    (\<forall>i. offset ls p < i \<and> i < offset ls q \<longrightarrow> \<not> word_end cls (stringLocked ls) i) \<and>
    (word_end cls (stringLocked ls) (offset ls q) \<or> offset ls q = length (stringLocked ls)))"
proof -
  let ?S = "stringLocked ls"
  from stepRight_flat [OF assms(3,2)] show ?thesis
  proof (elim disjE exE conjE)
    assume "stepRight ls p = None" "offset ls p = length ?S"
    then show ?thesis by (simp add: stepWordEnd_def)
  next
    fix p1 assume p1: "stepRight ls p = Some p1" "positionInBoundsLocked ls p1" "offset ls p1 = Suc (offset ls p)"
    define s where "s = skipSpace Rightwards ls (\<lambda>r. cls r = classSpace) p1"
    define q where "q = scan_pos s"
    from skipSpace_right [OF assms(1,2) p1(2), of "\<lambda>r. cls r = classSpace"] have
      q: "positionInBoundsLocked ls q" "offset ls p < offset ls q"
        "on_range (\<lambda>i. cls (flat_at ?S i) = classSpace) (Suc (offset ls p)) (offset ls q)"
      and sq: "s = Leave q \<and> cls (flat_at ?S (offset ls q)) \<noteq> classSpace \<or>
        s = Return q \<and> offset ls q = length ?S"
      by (auto simp: Let_def s_def q_def p1(3))
    from sq show ?thesis
    proof (elim disjE conjE)
      assume "s = Return q" "offset ls q = length ?S"
      then show ?thesis using p1 q no_start_in_space [OF q(3)]
        by (auto simp: stepWordEnd_def s_def Suc_le_eq)
    next
      assume lv: "s = Leave q" "cls (flat_at ?S (offset ls q)) \<noteq> classSpace"
      let ?c = "cls (flat_at ?S (offset ls q))"
      define r where "r = walkRun Rightwards ls cls ?c q"
      from walkRun_right [OF assms(1,2) q(1), of cls ?c] have
        r: "positionInBoundsLocked ls r" "offset ls q \<le> offset ls r"
          "on_range (\<lambda>i. cls (flat_at ?S i) = ?c) (Suc (offset ls q)) (Suc (offset ls r))"
          "offset ls r = length ?S \<or> cls (flat_at ?S (Suc (offset ls r))) \<noteq> ?c"
        by (auto simp: Let_def r_def)
      have run: "on_range (\<lambda>i. cls (flat_at ?S i) = ?c) (offset ls q) (Suc (offset ls r))"
        using r(3) by (rule on_range_down [rotated]) simp
      have "cls (flat_at ?S (offset ls r)) = ?c" using on_range_at [OF run, of "offset ls r"] r(2) by simp
      then have "word_end cls ?S (offset ls r)"
        using r(4) lv(2) assms(4) by (auto simp: word_end_def flat_at_end)
      moreover have "\<not> word_end cls ?S i" if "offset ls p < i" "i < offset ls r" for i
        using that no_end_in_run [OF run, of i] no_start_in_space [OF q(3), of i]
        by (meson Suc_leI Suc_mono not_less)
      ultimately show ?thesis
        using p1(1) lv(1) runeAt_flat [OF q(1) assms(2,1)] r(1,2) q(2)
        by (auto simp: stepWordEnd_def s_def r_def)
    qed
  qed
qed

section \<open>The contract of a step\<close>

locale stepper =
  fixes step :: "line list \<Rightarrow> position \<Rightarrow> position option"
  assumes step_in: "rows_ok ls \<Longrightarrow> ls \<noteq> [] \<Longrightarrow> positionInBoundsLocked ls p \<Longrightarrow> step ls p = Some q \<Longrightarrow>
    positionInBoundsLocked ls q"
begin

lemma stepTimes_in:
  "rows_ok ls \<Longrightarrow> ls \<noteq> [] \<Longrightarrow> positionInBoundsLocked ls p \<Longrightarrow> stepTimes (step ls) n p m = Some q \<Longrightarrow>
   positionInBoundsLocked ls q"
proof (induction n arbitrary: p m)
  case 0
  then show ?case by (simp split: if_splits)
next
  case (Suc n)
  then show ?case using step_in [OF Suc.prems(1-3)] by (auto split: option.splits if_splits)
qed

lemma counted_in:
  assumes "rows_ok ls" "positionInBoundsLocked ls p"
  shows "\<exists>r. counted step ls p n f = Some r \<and> (\<forall>q. r = Some q \<longrightarrow> positionInBoundsLocked ls q)"
  using assms stepTimes_in by (auto simp: counted_def split: option.splits)

end

locale forward_stepper = stepper +
  assumes step_forward: "rows_ok ls \<Longrightarrow> ls \<noteq> [] \<Longrightarrow> positionInBoundsLocked ls p \<Longrightarrow> step ls p = Some q \<Longrightarrow>
    offset ls p \<le> offset ls q"
begin

lemma stepTimes_forward:
  "rows_ok ls \<Longrightarrow> ls \<noteq> [] \<Longrightarrow> positionInBoundsLocked ls p \<Longrightarrow> stepTimes (step ls) n p m = Some q \<Longrightarrow>
   offset ls p \<le> offset ls q"
proof (induction n arbitrary: p m)
  case 0
  then show ?case by (simp split: if_splits)
next
  case (Suc n)
  show ?case
  proof (cases "step ls p")
    case None
    then show ?thesis using Suc.prems by (simp split: if_splits)
  next
    case (Some p')
    then show ?thesis
      using Suc.IH [OF Suc.prems(1,2) step_in [OF Suc.prems(1-3) Some], of True] Suc.prems(4)
        step_forward [OF Suc.prems(1-3) Some] by simp
  qed
qed

lemma counted_forward:
  assumes "rows_ok ls" "positionInBoundsLocked ls p" "counted step ls p n f = Some (Some q)"
  shows "offset ls p \<le> offset ls q"
  using assms stepTimes_forward by (auto simp: counted_def split: option.splits if_splits)

end

locale backward_stepper = stepper +
  assumes step_backward: "rows_ok ls \<Longrightarrow> ls \<noteq> [] \<Longrightarrow> positionInBoundsLocked ls p \<Longrightarrow> step ls p = Some q \<Longrightarrow>
    offset ls q < offset ls p"
begin

lemma stepTimes_backward:
  "rows_ok ls \<Longrightarrow> ls \<noteq> [] \<Longrightarrow> positionInBoundsLocked ls p \<Longrightarrow> stepTimes (step ls) n p m = Some q \<Longrightarrow>
   offset ls q \<le> offset ls p \<and> (\<not> m \<longrightarrow> offset ls q < offset ls p)"
proof (induction n arbitrary: p m)
  case 0
  then show ?case by (simp split: if_splits)
next
  case (Suc n)
  show ?case
  proof (cases "step ls p")
    case None
    then show ?thesis using Suc.prems by (simp split: if_splits)
  next
    case (Some p')
    then show ?thesis
      using Suc.IH [OF Suc.prems(1,2) step_in [OF Suc.prems(1-3) Some], of True] Suc.prems(4)
        step_backward [OF Suc.prems(1-3) Some] by simp
  qed
qed

lemma counted_backward:
  assumes "rows_ok ls" "positionInBoundsLocked ls p" "counted step ls p n f = Some (Some q)"
  shows "offset ls q < offset ls p"
  using assms stepTimes_backward by (auto simp: counted_def split: option.splits if_splits)

end

interpretation right: forward_stepper stepRight
  by unfold_locales (use stepRight_flat in fastforce)+

interpretation left: backward_stepper stepLeft
  by unfold_locales (use stepLeft_flat in fastforce)+

interpretation word_forward: forward_stepper "stepWordForward cls" for cls
  by unfold_locales (use stepWordForward_flat [of _ _ cls] in fastforce)+

interpretation word_backward: backward_stepper "stepWordBackward cls" for cls
  by unfold_locales (use stepWordBackward_flat [of _ _ cls] in fastforce)+

lemma classify_blank [simp]: "classifyWord u 32 = classSpace" "classifyWORD 32 = classSpace"
  by (simp_all add: classifyWord_def classifyWORD_def)

interpretation word_end: forward_stepper "stepWordEnd (classifyWord u)" for u
  by unfold_locales (use stepWordEnd_flat [where cls = "classifyWord u"] in fastforce)+

interpretation WORD_end: forward_stepper "stepWordEnd classifyWORD"
  by unfold_locales (use stepWordEnd_flat [where cls = classifyWORD] in fastforce)+

subsection \<open>Sentences\<close>

lemma line_start_in: "0 \<le> l \<Longrightarrow> l < len ls \<Longrightarrow> positionInBoundsLocked ls (Pos l 0)"
  by (auto simp: positionInBoundsLocked_def)

lemma skipBlank_in: "0 \<le> l \<Longrightarrow> l < len ls \<Longrightarrow> l \<le> skipBlankLines ls l \<and> skipBlankLines ls l \<le> len ls"
  using length_takeWhile_le [of isBlankLine "drop (nat l) ls"] by (auto simp: skipBlankLines_def)

lemma sentenceScanForward_in:
  assumes "rows_ok ls" "ls \<noteq> []"
  shows "positionInBoundsLocked ls p \<Longrightarrow> positionInBoundsLocked ls (sentenceScanForward ls p)"
proof (induction "steps_left Rightwards ls p" arbitrary: p rule: less_induct)
  case less
  have "len ls > 0" using assms(2) by simp
  then have blank: "positionInBoundsLocked ls (Pos (len ls - 1) 0)" by (intro line_start_in) auto
  show ?case
  proof (cases "stepRight ls p")
    case None
    then show ?thesis using less.prems blank skipBlank_in [of "Line p" ls]
      by (subst sentenceScanForward.simps) (auto simp: Let_def intro: line_start_in split: option.splits)
  next
    case (Some q)
    then have q: "positionInBoundsLocked ls q" using stepRight_flat [OF less.prems assms(2)] by auto
    note ih = less.hyps [OF stepRight_less [OF Some] q]
    have "positionInBoundsLocked ls (scan_pos (skipSpace Rightwards ls unicode_IsSpace q))"
      using skipSpace_right [OF assms q] by (simp add: Let_def)
    then show ?thesis using less.prems blank skipBlank_in [of "Line p" ls] Some ih
      by (subst sentenceScanForward.simps) (auto simp: Let_def intro: line_start_in split: option.splits)
  qed
qed

interpretation sentence_forward: stepper sentenceForwardOne
proof unfold_locales
  fix ls p q
  assume a: "rows_ok ls" "ls \<noteq> []" "positionInBoundsLocked ls p" "sentenceForwardOne ls p = Some q"
  then obtain r where "stepRight ls p = Some r" "q = sentenceScanForward ls r"
    by (auto simp: sentenceForwardOne_def)
  moreover have "positionInBoundsLocked ls r" using right.step_in [OF a(1-3)] calculation by blast
  ultimately show "positionInBoundsLocked ls q" using sentenceScanForward_in [OF a(1,2)] by blast
qed

lemma sentenceScanBackward_in:
  assumes "rows_ok ls" "ls \<noteq> []"
  shows "positionInBoundsLocked ls p \<Longrightarrow> positionInBoundsLocked ls (sentenceScanBackward ls p) \<and>
    offset ls (sentenceScanBackward ls p) \<le> offset ls p"
proof (induction "steps_left Leftwards ls p" arbitrary: p rule: less_induct)
  case less
  show ?case
  proof (cases "stepLeft ls p")
    case None
    then show ?thesis using less.prems by (simp add: sentenceScanBackward.simps)
  next
    case (Some q)
    then have q: "positionInBoundsLocked ls q" "offset ls p = Suc (offset ls q)"
      using stepLeft_flat [OF less.prems assms(2)] by auto
    from less.hyps [OF stepLeft_less [OF Some] q(1)] show ?thesis using less.prems q Some
      by (subst (1 2) sentenceScanBackward.simps) (auto split: option.splits)
  qed
qed

interpretation sentence_backward: backward_stepper sentenceBackwardOne
proof -
  have main: "positionInBoundsLocked ls q \<and> offset ls q < offset ls p"
    if a: "rows_ok ls" "ls \<noteq> []" "positionInBoundsLocked ls p" "sentenceBackwardOne ls p = Some q" for ls p q
  proof -
    from a(4) obtain p1 where p1: "stepLeft ls p = Some p1" by (auto simp: sentenceBackwardOne_def split: option.splits)
    note b = left.step_in [OF a(1-3) p1] left.step_backward [OF a(1-3) p1]
    define s where "s = scan_pos (skipSpace Leftwards ls unicode_IsSpace p1)"
    have s: "positionInBoundsLocked ls s" "offset ls s \<le> offset ls p1"
      using skipSpace_left [OF a(1,2) b(1)] by (simp_all add: Let_def s_def)
    have "q = s \<or> q = sentenceScanBackward ls s"
      using a(4) p1 by (auto simp: sentenceBackwardOne_def s_def split: scan.splits if_splits)
    then show ?thesis using sentenceScanBackward_in [OF a(1,2) s(1)] s b by auto
  qed
  show "backward_stepper sentenceBackwardOne" by unfold_locales (use main in blast)+
qed

subsection \<open>Paragraphs and lines\<close>

lemma fullAt_in [simp]: "0 \<le> i \<Longrightarrow> i < len ls \<Longrightarrow> fullAt ls i \<noteq> None" "0 \<le> i \<Longrightarrow> i < len ls \<Longrightarrow> blankAt ls i \<noteq> None"
  by (simp_all add: fullAt_def blankAt_def go_index_def)

lemma paragraphBackwardOne_in:
  assumes "0 \<le> l" "l < len ls"
  shows "\<exists>r. paragraphBackwardOne ls l = Some r \<and> (\<forall>l'. r = Some l' \<longrightarrow> 0 \<le> l' \<and> l' < l)"
proof (cases "l = 0")
  case True
  then show ?thesis by (simp add: paragraphBackwardOne_def)
next
  case False
  let ?B = "\<lambda>c. do { before \<leftarrow> blankAt ls (c - 1); if before then blankAt ls c else Some False }"
  have "\<And>k. 0 \<le> k \<Longrightarrow> k \<le> l - 1 \<Longrightarrow> fullAt ls k \<noteq> None" using assms by simp
  from scan_down_stops [of 0 "l - 1" "fullAt ls", OF this] obtain c1 where
    c1: "scan_down (fullAt ls) 0 (l - 1) = Some c1" "c1 \<le> l - 1" by blast
  have "?B k \<noteq> None" if "1 \<le> k" "k \<le> c1" for k
    using that c1(2) assms fullAt_in(2) [of k ls] fullAt_in(2) [of "k - 1" ls]
    by (auto simp: blankAt_def go_index_def)
  from scan_down_stops [of 1 c1 ?B, OF this] obtain c2 where c2: "scan_down ?B 1 c1 = Some c2" "c2 \<le> c1" by blast
  show ?thesis using False assms c1 c2 by (simp add: paragraphBackwardOne_def Let_def)
qed

lemma paragraphForwardOne_in:
  assumes "0 \<le> l" "l < len ls"
  shows "\<exists>r. paragraphForwardOne ls l = Some r \<and> (\<forall>l'. r = Some l' \<longrightarrow> l < l' \<and> l' < len ls)"
proof (cases "l + 1 > len ls - 1")
  case True
  then show ?thesis using assms by (simp add: paragraphForwardOne_def)
next
  case False
  have "\<And>k. l + 1 \<le> k \<Longrightarrow> k \<le> len ls - 1 \<Longrightarrow> blankAt ls k \<noteq> None" using assms by simp
  from scan_up_stops [of "l + 1" "len ls - 1" "blankAt ls", OF this] obtain c1 where
    c1: "scan_up (blankAt ls) (len ls - 1) (l + 1) = Some c1" "l + 1 \<le> c1" by blast
  have "\<And>k. c1 \<le> k \<Longrightarrow> k \<le> len ls - 1 \<Longrightarrow> fullAt ls k \<noteq> None" using assms c1 by simp
  from scan_up_stops [of c1 "len ls - 1" "fullAt ls", OF this] obtain c2 where
    c2: "scan_up (fullAt ls) (len ls - 1) c1 = Some c2" "c1 \<le> c2" by blast
  show ?thesis using False assms c1 c2 by (simp add: paragraphForwardOne_def Let_def)
qed

lemma paragraph_steps_in:
  assumes "0 \<le> l" "l < len ls"
  shows "\<exists>r. paragraphBackwardOne ls l = Some r \<and> (\<forall>l'. r = Some l' \<longrightarrow> 0 \<le> l' \<and> l' < len ls)"
    and "\<exists>r. paragraphForwardOne ls l = Some r \<and> (\<forall>l'. r = Some l' \<longrightarrow> 0 \<le> l' \<and> l' < len ls)"
proof -
  obtain r where "paragraphBackwardOne ls l = Some r" "\<forall>l'. r = Some l' \<longrightarrow> 0 \<le> l' \<and> l' < l"
    using paragraphBackwardOne_in [OF assms] by blast
  then show "\<exists>r. paragraphBackwardOne ls l = Some r \<and> (\<forall>l'. r = Some l' \<longrightarrow> 0 \<le> l' \<and> l' < len ls)"
    using assms by auto
  obtain r where "paragraphForwardOne ls l = Some r" "\<forall>l'. r = Some l' \<longrightarrow> l < l' \<and> l' < len ls"
    using paragraphForwardOne_in [OF assms] by blast
  then show "\<exists>r. paragraphForwardOne ls l = Some r \<and> (\<forall>l'. r = Some l' \<longrightarrow> 0 \<le> l' \<and> l' < len ls)"
    using assms by auto
qed

lemma stepLines_in:
  assumes "\<And>l. 0 \<le> l \<Longrightarrow> l < n \<Longrightarrow> \<exists>r. step l = Some r \<and> (\<forall>l'. r = Some l' \<longrightarrow> 0 \<le> l' \<and> l' < n)"
  shows "0 \<le> l \<Longrightarrow> l < n \<Longrightarrow>
    \<exists>r. stepLines step k l m = Some r \<and> (\<forall>l'. r = Some l' \<longrightarrow> 0 \<le> l' \<and> l' < n)"
proof (induction k arbitrary: l m)
  case 0
  then show ?case by simp
next
  case (Suc k)
  from assms [OF Suc.prems] obtain r where r: "step l = Some r" "\<forall>l'. r = Some l' \<longrightarrow> 0 \<le> l' \<and> l' < n" by blast
  then show ?case using Suc by (cases r) auto
qed

lemma countedLines_in:
  assumes "\<And>l. 0 \<le> l \<Longrightarrow> l < len ls \<Longrightarrow>
      \<exists>r. step ls l = Some r \<and> (\<forall>l'. r = Some l' \<longrightarrow> 0 \<le> l' \<and> l' < len ls)"
    and "positionInBoundsLocked ls p"
  shows "\<exists>r. countedLines step ls p n f = Some r \<and> (\<forall>q. r = Some q \<longrightarrow> positionInBoundsLocked ls q)"
proof (cases "n \<le> 0 \<or> ls = []")
  case True
  then show ?thesis by (auto simp: countedLines_def validCount_def)
next
  case False
  then have "0 \<le> Line p" "Line p < len ls" using assms(2) by (auto simp: positionInBoundsLocked_def split: if_splits)
  from stepLines_in [of "len ls" "step ls", OF assms(1) this, of "nat n" False] obtain r where
    r: "stepLines (step ls) (nat n) (Line p) False = Some r" "\<forall>l'. r = Some l' \<longrightarrow> 0 \<le> l' \<and> l' < len ls" by blast
  then show ?thesis using False
    by (cases r) (auto simp: countedLines_def validCount_def intro: line_start_in)
qed

lemma clamped_in: "0 \<le> l \<Longrightarrow> l < len ls \<Longrightarrow> 0 \<le> c \<Longrightarrow>
    positionInBoundsLocked ls (Pos l (if c > len (ls ! nat l) then len (ls ! nat l) else c))"
  by (auto simp: positionInBoundsLocked_def)

text \<open>The contract every motion meets.\<close>

definition motion_safe :: "line list \<Rightarrow> position \<Rightarrow> ViewFrame \<Rightarrow> motion \<Rightarrow> bool" where
  "motion_safe ls p f M \<longleftrightarrow>
     (\<forall>n. \<exists>r. M ls p n f = Some r \<and> (\<forall>q. r = Some q \<longrightarrow> positionInBoundsLocked ls q))"

lemma vertical_safe:
  assumes "positionInBoundsLocked ls p"
  shows "motion_safe ls p f LineDown" "motion_safe ls p f LineUp"
proof -
  have "ls = [] \<or> 0 \<le> Line p \<and> Line p < len ls \<and> 0 \<le> Col p"
    using assms by (auto simp: positionInBoundsLocked_def split: if_splits)
  then show "motion_safe ls p f LineDown" "motion_safe ls p f LineUp"
    by (auto simp: motion_safe_def LineDown_def LineUp_def validCount_def Let_def go_index_def
        positionInBoundsLocked_def split: option.splits)
qed

lemma on_line_safe:
  assumes "positionInBoundsLocked ls p" "\<And>rs. 0 \<le> col rs \<and> col rs \<le> len rs"
  shows "\<exists>r. on_line ls p n col = Some r \<and> (\<forall>q. r = Some q \<longrightarrow> positionInBoundsLocked ls q)"
  using assms(1) assms(2) [of "ls ! nat (Line p)"]
  by (auto simp: on_line_def Let_def positionInBoundsLocked_def)

lemma firstNonBlank_in: "0 \<le> firstNonBlank rs \<and> firstNonBlank rs \<le> len rs"
  by (simp add: firstNonBlank_def length_takeWhile_le)

lemma buffer_ends_safe:
  "motion_safe ls p f BufferStart" "motion_safe ls p f BufferEnd"
proof -
  have "len ls > 0" if "ls \<noteq> []" using that by simp
  then show "motion_safe ls p f BufferStart" "motion_safe ls p f BufferEnd"
    by (auto simp: motion_safe_def BufferStart_def BufferEnd_def validCount_def Let_def
        intro!: line_start_in)
qed

lemma screenLand_in:
  assumes "ls \<noteq> []" "available f" "0 \<le> Top f" "screenLand ls p f t = Some q"
  shows "positionInBoundsLocked ls q"
proof -
  have "len ls > 0" using assms(1) by simp
  then have "0 \<le> lastVisible f ls" "lastVisible f ls < len ls"
    using assms(2,3) by (auto simp: lastVisible_def available_def Let_def)
  then show ?thesis using assms(3,4)
    by (auto simp: screenLand_def landLine_def Let_def split: if_splits intro!: line_start_in)
qed

lemma screen_safe:
  assumes "available f \<longrightarrow> 0 \<le> Top f"
  shows "motion_safe ls p f ScreenTop" "motion_safe ls p f ScreenMiddle" "motion_safe ls p f ScreenBottom"
proof -
  show "motion_safe ls p f ScreenTop" "motion_safe ls p f ScreenBottom"
    using assms buffer_ends_safe [of ls p f] screenLand_in [of ls f p]
    by (auto simp: motion_safe_def ScreenTop_def ScreenBottom_def split: option.splits)
  have "0 \<le> go_div (len ls) 2 \<and> go_div (len ls) 2 < len ls" if "ls \<noteq> []"
  proof -
    have h: "0 < k \<Longrightarrow> k div 2 < k" for k :: int by linarith
    have "len ls > 0" using that by simp
    from h [OF this] this show ?thesis by (simp add: go_div_def)
  qed
  then show "motion_safe ls p f ScreenMiddle"
    using assms screenLand_in [of ls f p]
    by (auto simp: motion_safe_def ScreenMiddle_def landLine_def split: if_splits intro!: line_start_in)
qed

lemma all_motions_safe:
  assumes "rows_ok ls" "positionInBoundsLocked ls p" "available f \<longrightarrow> 0 \<le> Top f" "M \<in> set (motions u)"
  shows "motion_safe ls p f M"
proof -
  have "motion_safe ls p f CharLeft" "motion_safe ls p f CharRight"
    unfolding motion_safe_def CharLeft_def CharRight_def
    by (intro allI left.counted_in [OF assms(1,2)] right.counted_in [OF assms(1,2)])+
  moreover have "motion_safe ls p f (WordNext u)" "motion_safe ls p f WORDNext"
    "motion_safe ls p f (WordPrev u)" "motion_safe ls p f WORDPrev"
    "motion_safe ls p f (WordEnd u)" "motion_safe ls p f WORDEnd"
    unfolding motion_safe_def WordNext_def WORDNext_def WordPrev_def WORDPrev_def WordEnd_def WORDEnd_def
    by (intro allI word_forward.counted_in [OF assms(1,2)] word_backward.counted_in [OF assms(1,2)]
        word_end.counted_in [OF assms(1,2)] WORD_end.counted_in [OF assms(1,2)])+
  moreover have "motion_safe ls p f SentenceNext" "motion_safe ls p f SentencePrev"
    unfolding motion_safe_def SentenceNext_def SentencePrev_def
    by (intro allI sentence_forward.counted_in [OF assms(1,2)] sentence_backward.counted_in [OF assms(1,2)])+
  moreover have "motion_safe ls p f ParagraphPrev" "motion_safe ls p f ParagraphNext"
    unfolding motion_safe_def ParagraphPrev_def ParagraphNext_def
    by (intro allI countedLines_in [OF _ assms(2)] paragraph_steps_in; assumption)+
  moreover have "motion_safe ls p f LineStart" "motion_safe ls p f LineFirstNonBlank" "motion_safe ls p f LineEnd"
    unfolding motion_safe_def LineStart_def LineFirstNonBlank_def LineEnd_def
    using on_line_safe [OF assms(2)] firstNonBlank_in by simp_all
  moreover note vertical_safe [OF assms(2), of f] buffer_ends_safe [of ls p f] screen_safe [OF assms(3), of ls p]
  ultimately have "\<forall>M \<in> set (motions u). motion_safe ls p f M"
    unfolding motions_def list.set ball_simps by (intro conjI TrueI)
  then show ?thesis using assms(4) by blast
qed

lemma stepTimes_right_offset:
  "rows_ok ls \<Longrightarrow> ls \<noteq> [] \<Longrightarrow> positionInBoundsLocked ls p \<Longrightarrow> stepTimes (stepRight ls) n p m = Some q \<Longrightarrow>
   offset ls q = min (offset ls p + n) (length (stringLocked ls))"
proof (induction n arbitrary: p m)
  case 0
  then show ?case using offset_le_length [OF 0(3)] by (simp split: if_splits)
next
  case (Suc n)
  from stepRight_flat [OF Suc.prems(3,2)] show ?case
  proof (elim disjE exE conjE)
    assume "stepRight ls p = None" "offset ls p = length (stringLocked ls)"
    then show ?thesis using Suc.prems by (auto split: if_splits)
  next
    fix p' assume "stepRight ls p = Some p'" "positionInBoundsLocked ls p'" "offset ls p' = Suc (offset ls p)"
    then show ?thesis using Suc.IH [OF Suc.prems(1,2), of p' True] Suc.prems(4) by simp
  qed
qed

lemma stepTimes_left_offset:
  "rows_ok ls \<Longrightarrow> ls \<noteq> [] \<Longrightarrow> positionInBoundsLocked ls p \<Longrightarrow> stepTimes (stepLeft ls) n p m = Some q \<Longrightarrow>
   offset ls q = offset ls p - n"
proof (induction n arbitrary: p m)
  case 0
  then show ?case by (simp split: if_splits)
next
  case (Suc n)
  from stepLeft_flat [OF Suc.prems(3,2)] show ?case
  proof (elim disjE exE conjE)
    assume "stepLeft ls p = None" "offset ls p = 0"
    then show ?thesis using Suc.prems by (auto split: if_splits)
  next
    fix p' assume "stepLeft ls p = Some p'" "positionInBoundsLocked ls p'" "offset ls p = Suc (offset ls p')"
    then show ?thesis using Suc.IH [OF Suc.prems(1,2), of p' True] Suc.prems(4) by simp
  qed
qed

lemma CharRight_offset:
  "rows_ok ls \<Longrightarrow> positionInBoundsLocked ls p \<Longrightarrow> CharRight ls p n f = Some (Some q) \<Longrightarrow>
   offset ls q = min (offset ls p + nat n) (length (stringLocked ls))"
  by (auto simp: CharRight_def counted_def validCount_def dest!: stepTimes_right_offset split: if_splits)

lemma CharLeft_offset:
  "rows_ok ls \<Longrightarrow> positionInBoundsLocked ls p \<Longrightarrow> CharLeft ls p n f = Some (Some q) \<Longrightarrow>
   offset ls q = offset ls p - nat n"
  by (auto simp: CharLeft_def counted_def validCount_def dest!: stepTimes_left_offset split: if_splits)

text \<open>
  \<open>SentenceNext\<close> has no such direction: on a blank last row it returns to column 0, before
  the cursor.
\<close>

lemma SentenceNext_moves_back:
  "SentenceNext [[97], [32, 32, 32]] (Pos 1 2) 1 f = Some (Some (Pos 1 0))"
  by (simp add: SentenceNext_def counted_def validCount_def sentenceForwardOne_def stepRight_def
      sentenceScanForward.simps isBlankLine_def skipBlankLines_def unicode_IsSpace_def nat_numeral Let_def)

section \<open>Properties\<close>

text \<open>
  C23. On rows without embedded newlines, with the cursor inside them and a viewport that does
  not start above the buffer, each of the 22 motions returns for every count (it never
  indexes out of range) and, when it moves, lands inside the rows.
\<close>

theorem motions_stay_in_bounds:
  assumes "rows_ok ls" "positionInBoundsLocked ls p" "available f \<longrightarrow> 0 \<le> Top f" "M \<in> set (motions u)"
  shows "\<exists>r. M ls p n f = Some r \<and> (\<forall>q. r = Some q \<longrightarrow> positionInBoundsLocked ls q)"
  using all_motions_safe [OF assms] by (simp add: motion_safe_def)

theorem motions_stay_in_bounds_witness:
  "\<exists>r. ParagraphNext [[97], [], [98, 99]] (Pos 0 1) 2 \<lparr>Top = 0, Height = 5\<rparr> = Some r \<and>
     (\<forall>q. r = Some q \<longrightarrow> positionInBoundsLocked [[97], [], [98, 99]] q)"
  by (rule motions_stay_in_bounds [where u = ascii_tables])
    (simp_all add: newline_def positionInBoundsLocked_def motions_def)

text \<open>
  C19. One \<open>w\<close> goes to the first word start after the cursor (to the end of the text when
  there is none); one \<open>b\<close> to the last word start before it (to the beginning when there is
  none), and is rejected only at the beginning.  Word starts are those of the flat text, so
  rows are crossed as if line ends were blanks.
\<close>

theorem word_motions_find_starts:
  assumes "rows_ok ls" "ls \<noteq> []" "positionInBoundsLocked ls p"
  shows "(\<exists>q. WordNext u ls p 1 f = Some (Some q) \<and> offset ls p \<le> offset ls q \<and>
      (\<forall>i. offset ls p < i \<and> i < offset ls q \<longrightarrow> \<not> word_start (classifyWord u) (stringLocked ls) i) \<and>
      (word_start (classifyWord u) (stringLocked ls) (offset ls q) \<and> offset ls p < offset ls q \<or>
       offset ls q = length (stringLocked ls))) \<and>
    (WordPrev u ls p 1 f = Some None \<and> offset ls p = 0 \<or>
      (\<exists>q. WordPrev u ls p 1 f = Some (Some q) \<and> offset ls q < offset ls p \<and>
        (\<forall>i. offset ls q < i \<and> i < offset ls p \<longrightarrow> \<not> word_start (classifyWord u) (stringLocked ls) i) \<and>
        (word_start (classifyWord u) (stringLocked ls) (offset ls q) \<or> offset ls q = 0)))"
  using stepWordForward_flat [OF assms, of "classifyWord u"]
    stepWordBackward_flat [OF assms, of "classifyWord u"] assms(2)
  by (auto simp: WordNext_def WordPrev_def counted_def validCount_def)

theorem word_motions_find_starts_witness:
  "let ls = [[97, 32, 98], [45, 99]]; u = ascii_tables; p = Pos 0 1; f = \<lparr>Top = 0, Height = 0\<rparr> in
   (\<exists>q. WordNext u ls p 1 f = Some (Some q) \<and> offset ls p \<le> offset ls q \<and>
      (word_start (classifyWord u) (stringLocked ls) (offset ls q) \<and> offset ls p < offset ls q \<or>
       offset ls q = length (stringLocked ls))) \<and>
    (\<exists>q. WordPrev u ls p 1 f = Some (Some q) \<and> offset ls q < offset ls p)"
  using word_motions_find_starts [of "[[97, 32, 98], [45, 99]]" "Pos 0 1" ascii_tables "\<lparr>Top = 0, Height = 0\<rparr>"]
  by (fastforce simp: newline_def positionInBoundsLocked_def offset_def Let_def)

text \<open>
  For every count, the motions \<open>l w W e E\<close> never move towards the beginning and \<open>h b B (\<close>
  always move strictly towards it; \<open>l\<close> and \<open>h\<close> move by exactly the count in the flat text,
  stopping at its ends.
\<close>

theorem motions_have_direction:
  assumes "rows_ok ls" "positionInBoundsLocked ls p" "M ls p n f = Some (Some q)"
  shows "(M \<in> {CharRight, WordNext u, WORDNext, WordEnd u, WORDEnd} \<longrightarrow> offset ls p \<le> offset ls q) \<and>
    (M \<in> {CharLeft, WordPrev u, WORDPrev, SentencePrev} \<longrightarrow> offset ls q < offset ls p) \<and>
    (M = CharRight \<longrightarrow> offset ls q = min (offset ls p + nat n) (length (stringLocked ls))) \<and>
    (M = CharLeft \<longrightarrow> offset ls q = offset ls p - nat n)"
proof -
  note f = right.counted_forward [OF assms(1,2)] word_forward.counted_forward [OF assms(1,2)]
    word_end.counted_forward [OF assms(1,2)] WORD_end.counted_forward [OF assms(1,2)]
  note b = left.counted_backward [OF assms(1,2)] word_backward.counted_backward [OF assms(1,2)]
    sentence_backward.counted_backward [OF assms(1,2)]
  have "M \<in> {CharRight, WordNext u, WORDNext, WordEnd u, WORDEnd} \<longrightarrow> offset ls p \<le> offset ls q"
    using assms(3) f
    by (auto simp: CharRight_def WordNext_def WORDNext_def WordEnd_def WORDEnd_def)
  moreover have "M \<in> {CharLeft, WordPrev u, WORDPrev, SentencePrev} \<longrightarrow> offset ls q < offset ls p"
    using assms(3) b
    by (auto simp: CharLeft_def WordPrev_def WORDPrev_def SentencePrev_def)
  moreover have "M = CharRight \<longrightarrow> offset ls q = min (offset ls p + nat n) (length (stringLocked ls))"
    using assms(3) CharRight_offset [OF assms(1,2)] by auto
  moreover have "M = CharLeft \<longrightarrow> offset ls q = offset ls p - nat n"
    using assms(3) CharLeft_offset [OF assms(1,2)] by auto
  ultimately show ?thesis by blast
qed

theorem motions_have_direction_witness:
  "\<exists>q. WORDNext [[97, 32], [98, 99]] (Pos 0 0) 1 \<lparr>Top = 0, Height = 0\<rparr> = Some (Some q) \<and>
     offset [[97, 32], [98, 99]] (Pos 0 0) \<le> offset [[97, 32], [98, 99]] q"
proof -
  have "WORDNext [[97, 32], [98, 99]] (Pos 0 0) 1 \<lparr>Top = 0, Height = 0\<rparr> = Some (Some (Pos 1 0))"
    by (simp add: WORDNext_def counted_def validCount_def stepWordForward_def runeAt_def classifyWORD_def
        unicode_IsSpace_def leaveRun.simps skipSpace.simps stepRight_def nat_numeral)
  from motions_have_direction [where M = WORDNext, OF _ _ this] this show ?thesis
    by (simp add: newline_def positionInBoundsLocked_def)
qed

end
