(* ===== verification/EditorHistory.thy ===== *)
theory EditorHistory
  imports EditorFlat
begin

text \<open>
  Undo and redo over the buffer.  The interface between the buffer and its history is the
  locale \<open>edit_history\<close> (the undo tree provides it); the client side, a document whose
  recorded edits are reversible, is \<open>reversible_document\<close>.  Both are interpreted on the
  model: \<open>UndoTree_*\<close> and \<open>mutateLocked\<close>.
\<close>

section \<open>Every recorded edit is reversible\<close>

text \<open>
  The edits callers build: no history-only row restoration, no block range (the block
  operators rewrite whole rows instead) and no line-wise replacement.
\<close>

definition edit_wf :: "edit \<Rightarrow> bool" where
  "edit_wf e \<longleftrightarrow> \<not> restoreLinewise e \<and>
     (Kind e = EditKindDelete \<or> Kind e = EditKindReplace \<longrightarrow> \<not> BlockWise (Range e)) \<and>
     (Kind e = EditKindReplace \<longrightarrow> \<not> LineWise (Range e))"

lemma mutate_setReverse [simp]: "mutateLocked ls (setReverse e rv) = mutateLocked ls e"
  by (cases "Kind e") (simp_all add: mutateLocked_def restoreLinesLocked_def)

lemma advancePos_not_less: "\<not> posLess (advancePos p t) p"
  by (auto simp: advancePos_def posLess_def Let_def)

lemma range_chars: "\<not> LineWise r \<Longrightarrow> \<not> BlockWise r \<Longrightarrow> r = Chars (Start r) (End r)"
  by (cases r) simp

lemma insertAtLocked_Nil [simp]: "insertAtLocked ls p [] = Some ls"
  by (simp add: insertAtLocked_def)

lemma deleteRangeLocked_Nil [simp]: "deleteRangeLocked [] r = Some []"
  by (simp add: deleteRangeLocked_def)

lemma advancePos_Nil [simp]: "advancePos p [] = p"
  by (simp add: advancePos_def)

lemma same_text_rows:
  "rows_ok ls \<Longrightarrow> rows_ok ms \<Longrightarrow> (ls = [] \<longleftrightarrow> ms = []) \<Longrightarrow>
   stringLocked ls = stringLocked ms \<Longrightarrow> ls = ms"
  by (metis string_inject)

lemma insert_into_empty:
  assumes "t \<noteq> []"
  shows "insertAtLocked [] (Pos 0 0) t = Some (splitTextOnNewline t)"
proof -
  obtain ls where ls: "insertAtLocked [] (Pos 0 0) t = Some ls" "rows_ok ls" "ls \<noteq> []"
    "stringLocked ls = t"
    using insertAtLocked_flat [of "[]" "Pos 0 0" t] assms by (auto simp: offset_def)
  then have "ls = splitTextOnNewline t" by (metis split_string)
  with ls show ?thesis by simp
qed

lemma delete_all_rows:
  "deleteRangeLocked (splitTextOnNewline t)
     \<lparr>Start = Pos 0 0, End = advancePos (Pos 0 0) t, LineWise = True, BlockWise = False\<rparr> = Some []"
proof -
  let ?cs = "splitTextOnNewline t"
  have "Line (advancePos (Pos 0 0) t) = len ?cs - 1"
    by (auto simp: advancePos_split Let_def)
  moreover have "go_slice ?cs (len ?cs) (len ?cs) = Some []"
    by (rule go_slice_at [of _ ?cs _ "[]"]) simp_all
  ultimately show ?thesis
    by (simp add: deleteRangeLocked_def go_simps)
qed

lemma delete_one_row:
  "deleteRangeLocked [[]] \<lparr>Start = Pos 0 0, End = Pos 0 0, LineWise = True, BlockWise = False\<rparr> = Some []"
  using delete_all_rows [of "[]"] by simp

lemma reversible_insert:
  assumes "positionInBoundsLocked ls p" "rows_ok ls" "ls \<noteq> []"
  shows "\<exists>ls'. insertAtLocked ls p t = Some ls' \<and> rows_ok ls' \<and> ls' \<noteq> [] \<and>
    deleteRangeLocked ls' (Chars p (advancePos p t)) = Some ls"
proof -
  from insertAtLocked_flat [OF assms(1,2), of t] assms(3) obtain ls' where
    ls': "insertAtLocked ls p t = Some ls'" "rows_ok ls'" "ls' \<noteq> []"
      "stringLocked ls' = take (offset ls p) (stringLocked ls) @ t @ drop (offset ls p) (stringLocked ls)"
      "positionInBoundsLocked ls' p" "positionInBoundsLocked ls' (advancePos p t)"
      "offset ls' p = offset ls p" "offset ls' (advancePos p t) = offset ls p + length t" by auto
  from delete_chars_flat [OF ls'(5,6) advancePos_not_less ls'(2)] obtain ms where
    ms: "deleteRangeLocked ls' (Chars p (advancePos p t)) = Some ms" "rows_ok ms" "ms \<noteq> []"
      "stringLocked ms = take (offset ls' p) (stringLocked ls') @ drop (offset ls' (advancePos p t)) (stringLocked ls')"
    using ls'(3) by auto
  have "offset ls p \<le> length (stringLocked ls)" using assms(1) by (rule offset_le_length)
  then have "stringLocked ms = stringLocked ls" using ms(4) ls'(4,7,8) by simp
  with ms(2,3) assms(2,3) have "ms = ls" by (metis string_inject)
  with ls' ms show ?thesis by auto
qed

lemma reversible_delete_chars:
  assumes "positionInBoundsLocked ls s" "positionInBoundsLocked ls e" "\<not> posLess e s" "rows_ok ls"
    "ls \<noteq> []"
  shows "\<exists>ls' t. deleteRangeLocked ls (Chars s e) = Some ls' \<and> rows_ok ls' \<and> ls' \<noteq> [] \<and>
    textInRangeLocked ls (Chars s e) = Some t \<and> positionInBoundsLocked ls' s \<and>
    insertAtLocked ls' s t = Some ls"
proof -
  from delete_chars_flat [OF assms(1-4)] assms(5) obtain ls' where
    ls': "deleteRangeLocked ls (Chars s e) = Some ls'" "rows_ok ls'" "ls' \<noteq> []"
      "stringLocked ls' = take (offset ls s) (stringLocked ls) @ drop (offset ls e) (stringLocked ls)"
      "positionInBoundsLocked ls' s" "offset ls' s = offset ls s" by auto
  from text_chars_flat [OF assms(1-3)] obtain t where
    t: "textInRangeLocked ls (Chars s e) = Some t" "offset ls s \<le> offset ls e"
      "t = take (offset ls e - offset ls s) (drop (offset ls s) (stringLocked ls))" by auto
  from insertAtLocked_flat [OF ls'(5,2), of t] ls'(3) obtain ms where
    ms: "insertAtLocked ls' s t = Some ms" "rows_ok ms" "ms \<noteq> []"
      "stringLocked ms = take (offset ls' s) (stringLocked ls') @ t @ drop (offset ls' s) (stringLocked ls')"
    by auto
  have "offset ls s \<le> length (stringLocked ls)" using assms(1) by (rule offset_le_length)
  moreover have "t @ drop (offset ls e) (stringLocked ls) = drop (offset ls s) (stringLocked ls)"
    using t(2,3) by (metis append_take_drop_id drop_drop le_add_diff_inverse2)
  ultimately have "stringLocked ms = stringLocked ls"
    using ms(4) ls'(4,6) by simp
  with ms(2,3) assms(4,5) have "ms = ls" by (metis string_inject)
  with ls' t ms show ?thesis by auto
qed

text \<open>Whole rows \<open>[i..j]\<close>: what is cut, and what restoring puts back.\<close>

lemma linewise_rows:
  assumes "rangeInBoundsLocked ls r" "ls \<noteq> []" "LineWise r" "\<not> BlockWise r"
  obtains xs ms ys where "ls = xs @ ms @ ys" "ms \<noteq> []" "Line (Start r) = len xs"
    "Line (End r) = len xs + len ms - 1" "textInRangeLocked ls r = Some (stringLocked ms)"
    "deleteRangeLocked ls r = Some (xs @ ys)"
proof -
  let ?i = "nat (Line (Start r))" and ?j = "nat (Line (End r))"
  from assms have b: "0 \<le> Line (Start r)" "Line (Start r) \<le> Line (End r)" "Line (End r) < len ls"
    by (auto simp: rangeInBoundsLocked_def positionInBoundsLocked_def posLess_def split: if_splits)
  let ?xs = "take ?i ls" and ?ms = "take (Suc ?j - ?i) (drop ?i ls)" and ?ys = "drop (Suc ?j) ls"
  have ij: "?i \<le> Suc ?j" using b by simp
  then have "?ys = drop (Suc ?j - ?i) (drop ?i ls)" by simp
  then have "?ms @ ?ys = drop ?i ls" by (metis append_take_drop_id)
  then have ls: "ls = ?xs @ ?ms @ ?ys" by simp
  have lens: "len ?xs = Line (Start r)" "len ?ms = Line (End r) + 1 - Line (Start r)"
    "len ?ys = len ls - Line (End r) - 1" using b by auto
  have "go_slice ls (Line (Start r)) (min (Line (End r) + 1) (len ls)) = Some ?ms"
    by (rule go_slice_at [OF ls]) (use lens b in auto)
  then have rd: "textInRangeLocked ls r = Some (stringLocked ?ms)"
    using assms by (simp add: textInRangeLocked_def)
  have "go_slice ls 0 (Line (Start r)) = Some ?xs"
    by (rule go_slice_at [of _ "[]" _ "?ms @ ?ys"]) (use ls lens in auto)
  moreover have "go_slice ls (Line (End r) + 1) (len ls) = Some ?ys"
    by (rule go_slice_at [of _ "?xs @ ?ms" _ "[]"]) (use ls lens b in auto)
  ultimately have "deleteRangeLocked ls r = Some (?xs @ ?ys)"
    using assms b by (simp add: deleteRangeLocked_def)
  moreover have "0 < len ?ms" using lens(2) b by linarith
  then have "?ms \<noteq> []" by auto
  ultimately show ?thesis using that [OF ls] lens rd by auto
qed

lemma edit_reversible:
  assumes "rows_ok ls" "editInRangeLocked ls e" "edit_wf e"
  shows "\<exists>rv ls'. buildReverseLocked ls e = Some rv \<and> mutateLocked ls e = Some ls' \<and>
    rows_ok ls' \<and> mutateLocked ls' rv = Some ls"
proof -
  let ?s = "Start (Range e)" and ?e = "End (Range e)" and ?t = "Text e"
  have s: "positionInBoundsLocked ls ?s" using assms(2) by (auto simp: editInRangeLocked_def split: if_splits)
  have nr: "\<not> restoreLinewise e" using assms(3) by (simp add: edit_wf_def)
  show ?thesis
  proof (cases "Kind e")
    case EditKindZero
    then show ?thesis using assms(1)
      by (auto simp: buildReverseLocked_def mutateLocked_def zeroEdit_def Let_def)
  next
    case EditKindInsert
    show ?thesis
    proof (cases "ls = []")
      case True
      then have "?s = Pos 0 0" using s by simp
      then show ?thesis using EditKindInsert True nr
        by (cases "?t = []")
          (simp_all add: buildReverseLocked_def mutateLocked_def insert_into_empty delete_all_rows Let_def)
    next
      case False
      with reversible_insert [OF s assms(1), of ?t] EditKindInsert nr show ?thesis
        by (auto simp: buildReverseLocked_def mutateLocked_def Let_def)
    qed
  next
    case EditKindDelete
    then have nb: "\<not> BlockWise (Range e)" and ee: "positionInBoundsLocked ls ?e" "\<not> posLess ?e ?s"
      using assms(2,3) by (auto simp: edit_wf_def editInRangeLocked_def split: if_splits)
    have rib: "rangeInBoundsLocked ls (Range e)" using s ee by (simp add: rangeInBoundsLocked_def)
    show ?thesis
    proof (cases "ls = []")
      case True
      then have "?s = Pos 0 0" "textInRangeLocked ls (Range e) = Some []"
        using s nb by (simp_all add: textInRangeLocked_def)
      then show ?thesis using True EditKindDelete
        by (cases "keepEmptyLine e")
          (simp_all add: buildReverseLocked_def mutateLocked_def delete_one_row Let_def)
    next
      case False
      show ?thesis
      proof (cases "LineWise (Range e)")
        case True
        from linewise_rows [OF rib False True nb] obtain xs ms ys where
          r: "ls = xs @ ms @ ys" "ms \<noteq> []" "Line ?s = len xs" "Line ?e = len xs + len ms - 1"
            "textInRangeLocked ls (Range e) = Some (stringLocked ms)"
            "deleteRangeLocked ls (Range e) = Some (xs @ ys)" .
        have ms: "rows_ok ms" "rows_ok xs" "rows_ok ys" using assms(1) r(1) by auto
        have whole: "Line ?s = 0 \<and> Line ?e = len ls - 1 \<longleftrightarrow> xs = [] \<and> ys = []"
          using r by auto
        let ?rv = "Edit EditKindInsert (Chars ?s ?s) (stringLocked ms) None True
                     (keepEmptyLine e \<and> xs = [] \<and> ys = [])"
        let ?ls' = "if keepEmptyLine e \<and> xs @ ys = [] then [[]] else xs @ ys"
        have "buildReverseLocked ls e = Some ?rv"
          using EditKindDelete False True r(5) whole
          by (simp add: buildReverseLocked_def Let_def)
        moreover have "mutateLocked ls e = Some ?ls'"
          using EditKindDelete r(6) by (simp add: mutateLocked_def)
        moreover have "mutateLocked ?ls' ?rv = Some ls"
        proof -
          have "go_slice (xs @ ys) 0 (len xs) = Some xs"
            by (rule go_slice_at [of _ "[]" _ ys]) simp_all
          moreover have "go_slice (xs @ ys) (len xs) (len (xs @ ys)) = Some ys"
            by (rule go_slice_at [of _ xs _ "[]"]) simp_all
          ultimately show ?thesis using r ms
            by (auto simp: mutateLocked_def restoreLinesLocked_def go_slice_def)
        qed
        ultimately show ?thesis using ms by auto
      next
        case chars: False
        from reversible_delete_chars [OF s ee assms(1) False] range_chars [OF chars nb]
        obtain ls' t where "deleteRangeLocked ls (Range e) = Some ls'" "rows_ok ls'" "ls' \<noteq> []"
          "textInRangeLocked ls (Range e) = Some t" "insertAtLocked ls' ?s t = Some ls" by metis
        then show ?thesis using EditKindDelete False chars
          by (simp add: buildReverseLocked_def mutateLocked_def Let_def)
      qed
    qed
  next
    case EditKindReplace
    then have nb: "\<not> BlockWise (Range e)" "\<not> LineWise (Range e)"
      and ee: "positionInBoundsLocked ls ?e" "\<not> posLess ?e ?s"
      using assms(2,3) by (auto simp: edit_wf_def editInRangeLocked_def split: if_splits)
    show ?thesis
    proof (cases "ls = []")
      case True
      then have "?s = Pos 0 0" "textInRangeLocked ls (Range e) = Some []"
        using s nb by (simp_all add: textInRangeLocked_def)
      then show ?thesis using EditKindReplace True
        by (cases "?t = []")
          (simp_all add: buildReverseLocked_def mutateLocked_def insert_into_empty delete_all_rows
            Let_def)
    next
      case False
      from reversible_delete_chars [OF s ee assms(1) False] range_chars [OF nb(2,1)]
      obtain ls1 old where d: "deleteRangeLocked ls (Range e) = Some ls1" "rows_ok ls1" "ls1 \<noteq> []"
        "textInRangeLocked ls (Range e) = Some old" "positionInBoundsLocked ls1 ?s"
        "insertAtLocked ls1 ?s old = Some ls" by metis
      from reversible_insert [OF d(5,2,3), of ?t] obtain ls' where
        "insertAtLocked ls1 ?s ?t = Some ls'" "rows_ok ls'"
        "deleteRangeLocked ls' (Chars ?s (advancePos ?s ?t)) = Some ls1" by auto
      then show ?thesis using EditKindReplace False d
        by (simp add: buildReverseLocked_def mutateLocked_def Let_def)
    qed
  qed
qed

section \<open>The history interface\<close>

locale edit_history =
  fixes hApply :: "'h \<Rightarrow> 'e \<Rightarrow> 'h"
    and hUndo :: "'h \<Rightarrow> 'h \<times> 'e option"
    and hRedo :: "'h \<Rightarrow> 'h \<times> 'e option"
    and hPast :: "'h \<Rightarrow> 'e list"
    and hFuture :: "'h \<Rightarrow> 'e list"
    and hRev :: "'e \<Rightarrow> 'e"
    and hInv :: "'h \<Rightarrow> bool"
  assumes apply_inv: "hInv h \<Longrightarrow> hInv (hApply h e)"
    and apply_past: "hInv h \<Longrightarrow> \<exists>k \<le> length (hPast h). hPast (hApply h e) = drop k (hPast h @ [e])"
    and apply_future: "hInv h \<Longrightarrow> hFuture (hApply h e) = []"
    and undo_none: "hInv h \<Longrightarrow> hPast h = [] \<Longrightarrow> hUndo h = (h, None)"
    and undo_some: "hInv h \<Longrightarrow> hPast h = es @ [e] \<Longrightarrow> \<exists>h'. hUndo h = (h', Some (hRev e)) \<and>
          hInv h' \<and> hPast h' = es \<and> hFuture h' = e # hFuture h"
    and redo_none: "hInv h \<Longrightarrow> hFuture h = [] \<Longrightarrow> hRedo h = (h, None)"
    and redo_some: "hInv h \<Longrightarrow> hFuture h = e # es \<Longrightarrow> \<exists>h'. hRedo h = (h', Some e) \<and>
          hInv h' \<and> hPast h' = hPast h @ [e] \<and> hFuture h' = es"
begin

lemma apply_then_undo:
  assumes "hInv h"
  obtains h' where "hUndo (hApply h e) = (h', Some (hRev e))" "hInv h'"
    "hFuture h' = [e]" "hPast (hApply h e) = hPast h' @ [e]"
    "\<exists>k \<le> length (hPast h). hPast h' = drop k (hPast h)"
proof -
  from apply_past [OF assms, of e] obtain k where
    k: "k \<le> length (hPast h)" "hPast (hApply h e) = drop k (hPast h) @ [e]" by auto
  from undo_some [OF apply_inv [OF assms] k(2)] apply_future [OF assms, of e]
  obtain h' where h': "hUndo (hApply h e) = (h', Some (hRev e))" "hInv h'"
    "hPast h' = drop k (hPast h)" "hFuture h' = [e]" by auto
  then have "\<exists>k \<le> length (hPast h). hPast h' = drop k (hPast h)" using k(1) by blast
  with h' k(2) that show ?thesis by simp
qed

end

interpretation undo_tree: edit_history
  UndoTree_Apply UndoTree_Undo UndoTree_Redo past future Reverse undo_ok
  by unfold_locales
    (simp_all only: UndoTree_Apply_line UndoTree_Undo_line UndoTree_Redo_line)

section \<open>Documents with a reversible history\<close>

text \<open>
  \<open>unwinds mut rv ok d es\<close>: replaying the reverses of \<open>es\<close> from \<open>d\<close> (latest edit first) reaches
  a document at every step, from which the edit leads back.  \<open>rewinds\<close> is the same forwards.
\<close>

fun unwinds :: "('d \<Rightarrow> 'e \<Rightarrow> 'd option) \<Rightarrow> ('e \<Rightarrow> 'e) \<Rightarrow> ('d \<Rightarrow> bool) \<Rightarrow> 'd \<Rightarrow> 'e list \<Rightarrow> bool" where
  "unwinds mut rv ok d [] = True"
| "unwinds mut rv ok d (e # es) =
     (\<exists>d'. mut d (rv e) = Some d' \<and> ok d' \<and> mut d' e = Some d \<and> unwinds mut rv ok d' es)"

fun rewinds :: "('d \<Rightarrow> 'e \<Rightarrow> 'd option) \<Rightarrow> ('e \<Rightarrow> 'e) \<Rightarrow> ('d \<Rightarrow> bool) \<Rightarrow> 'd \<Rightarrow> 'e list \<Rightarrow> bool" where
  "rewinds mut rv ok d [] = True"
| "rewinds mut rv ok d (e # es) =
     (\<exists>d'. mut d e = Some d' \<and> ok d' \<and> mut d' (rv e) = Some d \<and> rewinds mut rv ok d' es)"

lemma unwinds_prefix: "unwinds mut rv ok d (xs @ ys) \<Longrightarrow> unwinds mut rv ok d xs"
  by (induction xs arbitrary: d) auto

locale reversible_document = edit_history hApply hUndo hRedo hPast hFuture hRev hInv
  for hApply :: "'h \<Rightarrow> 'e \<Rightarrow> 'h"
    and hUndo :: "'h \<Rightarrow> 'h \<times> 'e option"
    and hRedo :: "'h \<Rightarrow> 'h \<times> 'e option"
    and hPast :: "'h \<Rightarrow> 'e list"
    and hFuture :: "'h \<Rightarrow> 'e list"
    and hRev :: "'e \<Rightarrow> 'e"
    and hInv :: "'h \<Rightarrow> bool" +
  fixes mut :: "'d \<Rightarrow> 'e \<Rightarrow> 'd option"
    and recd :: "'d \<Rightarrow> 'e \<Rightarrow> 'e option"
    and admissible :: "'d \<Rightarrow> 'e \<Rightarrow> bool"
    and dInv :: "'d \<Rightarrow> bool"
  assumes record_reversible: "dInv d \<Longrightarrow> admissible d e \<Longrightarrow>
      \<exists>e' d'. recd d e = Some e' \<and> mut d e = Some d' \<and> mut d e' = Some d' \<and> dInv d' \<and>
        mut d' (hRev e') = Some d"
begin

definition consistent :: "'d \<Rightarrow> 'h \<Rightarrow> bool" where
  "consistent d h \<longleftrightarrow> hInv h \<and> dInv d \<and>
     unwinds mut hRev dInv d (rev (hPast h)) \<and> rewinds mut hRev dInv d (hFuture h)"

lemma consistent_fresh:
  "hInv h \<Longrightarrow> hPast h = [] \<Longrightarrow> hFuture h = [] \<Longrightarrow> dInv d \<Longrightarrow> consistent d h"
  by (simp add: consistent_def)

lemma consistent_apply:
  assumes "consistent d h" "admissible d e"
  obtains e' d' where "recd d e = Some e'" "mut d e = Some d'" "consistent d' (hApply h e')"
    "mut d' (hRev e') = Some d"
proof -
  from assms record_reversible [of d e] obtain e' d' where
    e': "recd d e = Some e'" "mut d e = Some d'" "mut d e' = Some d'" "dInv d'"
      "mut d' (hRev e') = Some d" by (auto simp: consistent_def)
  have h: "hInv h" using assms by (simp add: consistent_def)
  from apply_past [OF h, of e'] obtain k where
    k: "k \<le> length (hPast h)" "hPast (hApply h e') = drop k (hPast h) @ [e']" by auto
  have "unwinds mut hRev dInv d (rev (drop k (hPast h)) @ rev (take k (hPast h)))"
    using assms by (simp add: consistent_def flip: rev_append)
  then have "unwinds mut hRev dInv d (rev (drop k (hPast h)))" by (rule unwinds_prefix)
  then have "unwinds mut hRev dInv d' (rev (hPast (hApply h e')))"
    using e' k assms by (auto simp: consistent_def)
  then have "consistent d' (hApply h e')"
    using e' apply_inv [OF h] apply_future [OF h] by (simp add: consistent_def)
  then show ?thesis using that e' by blast
qed

text \<open>Undoing the last edit and redoing it returns to the same document and the same line.\<close>

lemma consistent_undo:
  assumes "consistent d h" "hPast h = es @ [e]"
  obtains h' d' where "hUndo h = (h', Some (hRev e))" "mut d (hRev e) = Some d'" "consistent d' h'"
    "hPast h' = es" "hFuture h' = e # hFuture h" "mut d' e = Some d"
proof -
  have h: "hInv h" using assms by (simp add: consistent_def)
  from undo_some [OF h assms(2)] obtain h' where
    h': "hUndo h = (h', Some (hRev e))" "hInv h'" "hPast h' = es" "hFuture h' = e # hFuture h" by auto
  from assms obtain d' where
    d': "mut d (hRev e) = Some d'" "dInv d'" "mut d' e = Some d" "unwinds mut hRev dInv d' (rev es)"
    by (auto simp: consistent_def)
  have "consistent d' h'" using assms h' d' by (auto simp: consistent_def)
  with h' d' that show ?thesis by blast
qed

lemma consistent_redo:
  assumes "consistent d h" "hFuture h = e # es"
  obtains h' d' where "hRedo h = (h', Some e)" "mut d e = Some d'" "consistent d' h'"
    "hPast h' = hPast h @ [e]" "hFuture h' = es" "mut d' (hRev e) = Some d"
proof -
  have h: "hInv h" using assms by (simp add: consistent_def)
  from redo_some [OF h assms(2)] obtain h' where
    h': "hRedo h = (h', Some e)" "hInv h'" "hPast h' = hPast h @ [e]" "hFuture h' = es" by auto
  from assms obtain d' where
    d': "mut d e = Some d'" "dInv d'" "mut d' (hRev e) = Some d" "rewinds mut hRev dInv d' es"
    by (auto simp: consistent_def)
  have "consistent d' h'" using assms h' d' by (auto simp: consistent_def)
  with h' d' that show ?thesis by blast
qed

end

text \<open>The edit that \<open>applyRecordLocked\<close> records: the caller's edit with its reverse filled in.\<close>

definition recordEdit :: "line list \<Rightarrow> edit \<Rightarrow> edit option" where
  "recordEdit ls e = map_option (setReverse e) (buildReverseLocked ls e)"

interpretation buffer_doc: reversible_document
  UndoTree_Apply UndoTree_Undo UndoTree_Redo past future Reverse undo_ok
  mutateLocked recordEdit "\<lambda>ls e. editInRangeLocked ls e \<and> edit_wf e" rows_ok
proof unfold_locales
  fix ls e
  assume "rows_ok ls" "editInRangeLocked ls e \<and> edit_wf e"
  with edit_reversible [of ls e] show "\<exists>e' d'. recordEdit ls e = Some e' \<and>
      mutateLocked ls e = Some d' \<and> mutateLocked ls e' = Some d' \<and> rows_ok d' \<and>
      mutateLocked d' (Reverse e') = Some ls"
    by (auto simp: recordEdit_def)
qed

section \<open>Buffers\<close>

definition buffer_history :: "buffer \<Rightarrow> undo_tree" where
  "buffer_history b = (case History b of None \<Rightarrow> NewUndoTree undoCap | Some h \<Rightarrow> h)"

definition buffer_ok :: "buffer \<Rightarrow> bool" where
  "buffer_ok b \<longleftrightarrow> buffer_doc.consistent (Lines b) (buffer_history b)"

lemma cancelSelection_fields [simp]:
  "Lines (cancelSelectionIfOverlap b r) = Lines b"
  "History (cancelSelectionIfOverlap b r) = History b"
  "Cursor (cancelSelectionIfOverlap b r) = Cursor b"
  "Dirty (cancelSelectionIfOverlap b r) = Dirty b"
  by (auto simp: cancelSelectionIfOverlap_def Let_def split: option.splits)

lemma clampCursor_fields [simp]:
  "Lines (clampCursorLocked b) = Lines b" "History (clampCursorLocked b) = History b"
  "Selection (clampCursorLocked b) = Selection b"
  by (auto simp: clampCursorLocked_def Let_def)

lemma clearYankFlash_fields [simp]:
  "Lines (clearYankFlashLocked b) = Lines b" "History (clearYankFlashLocked b) = History b"
  "Cursor (clearYankFlashLocked b) = Cursor b" "Dirty (clearYankFlashLocked b) = Dirty b"
  "Selection (clearYankFlashLocked b) = Selection b" "yankFlash (clearYankFlashLocked b) = None"
  by (auto simp: clearYankFlashLocked_def)

lemma clampCursor_in_bounds:
  "positionInBoundsLocked (Lines b) (Cursor (clampCursorLocked b))"
  by (auto simp: clampCursorLocked_def positionInBoundsLocked_def Let_def)

lemma clampCursor_Lines_cong:
  "Lines b = Lines c \<Longrightarrow> Cursor b = Cursor c \<Longrightarrow> Cursor (clampCursorLocked b) = Cursor (clampCursorLocked c)"
  by (auto simp: clampCursorLocked_def Let_def)

lemma Apply_ok:
  assumes "buffer_ok b" "editInRangeLocked (Lines b) e" "edit_wf e"
  obtains b' e' where "Apply b e = Some (b', None)" "recordEdit (Lines b) e = Some e'"
    "mutateLocked (Lines b) e = Some (Lines b')" "mutateLocked (Lines b') (Reverse e') = Some (Lines b)"
    "History b' = Some (UndoTree_Apply (buffer_history b) e')" "buffer_ok b'"
    "positionInBoundsLocked (Lines b') (Cursor b')" "Dirty b'"
proof -
  from buffer_doc.consistent_apply [of "Lines b" "buffer_history b" e] assms
  obtain e' ls' where e': "recordEdit (Lines b) e = Some e'" "mutateLocked (Lines b) e = Some ls'"
    "buffer_doc.consistent ls' (UndoTree_Apply (buffer_history b) e')"
    "mutateLocked ls' (Reverse e') = Some (Lines b)" unfolding buffer_ok_def by blast
  then obtain rv where rv: "buildReverseLocked (Lines b) e = Some rv" "e' = setReverse e rv"
    by (auto simp: recordEdit_def)
  obtain b' where b': "Apply b e = Some (b', None)" "Lines b' = ls'"
    "History b' = Some (UndoTree_Apply (buffer_history b) e')" "Dirty b'"
    "Cursor b' = Cursor (clampCursorLocked (b\<lparr>Lines := ls'\<rparr>))"
    using assms(2) e' rv by (simp add: Apply_def applyRecordLocked_def Let_def buffer_history_def)
  moreover have "buffer_ok b'" using b' e' by (simp add: buffer_ok_def buffer_history_def)
  moreover have "positionInBoundsLocked (Lines b') (Cursor b')"
    using clampCursor_in_bounds [of "b\<lparr>Lines := ls'\<rparr>"] b' by simp
  ultimately show ?thesis using that e' by blast
qed

lemma replay_ok:
  assumes "mutateLocked (Lines b) e = Some ls'" "buffer_doc.consistent ls' h"
  obtains b' where "replay b e h = Some b'" "Lines b' = ls'" "History b' = Some h" "buffer_ok b'"
    "positionInBoundsLocked (Lines b') (Cursor b')"
proof -
  obtain b' where b': "replay b e h = Some b'" "Lines b' = ls'" "History b' = Some h"
    "Cursor b' = Cursor (clampCursorLocked (b\<lparr>Lines := ls', History := Some h\<rparr>))"
    using assms by (simp add: replay_def Let_def)
  moreover have "buffer_ok b'" using b' assms by (simp add: buffer_ok_def buffer_history_def)
  moreover have "positionInBoundsLocked (Lines b') (Cursor b')"
    using clampCursor_in_bounds [of "b\<lparr>Lines := ls', History := Some h\<rparr>"] b' by simp
  ultimately show ?thesis using that by blast
qed

lemma past_NilD: "past h = [] \<or> (\<exists>es e. past h = es @ [e])"
  by (metis rev_exhaust)

lemma Buffer_Undo_none: "buffer_ok b \<Longrightarrow> past (buffer_history b) = [] \<Longrightarrow> Buffer_Undo b = Some b"
  by (auto simp: Buffer_Undo_def buffer_ok_def buffer_doc.consistent_def buffer_history_def
      undo_tree.undo_none split: option.splits)

lemma Buffer_Redo_none: "buffer_ok b \<Longrightarrow> future (buffer_history b) = [] \<Longrightarrow> Buffer_Redo b = Some b"
  by (auto simp: Buffer_Redo_def buffer_ok_def buffer_doc.consistent_def buffer_history_def
      undo_tree.redo_none split: option.splits)

lemma Buffer_Undo_some:
  assumes "buffer_ok b" "past (buffer_history b) = es @ [e]"
  obtains b' where "Buffer_Undo b = Some b'" "buffer_ok b'" "past (buffer_history b') = es"
    "future (buffer_history b') = e # future (buffer_history b)"
    "mutateLocked (Lines b) (Reverse e) = Some (Lines b')"
    "mutateLocked (Lines b') e = Some (Lines b)"
    "positionInBoundsLocked (Lines b') (Cursor b')" "History b' \<noteq> None"
proof -
  from assms(2) obtain h where h: "History b = Some h" "buffer_history b = h"
    by (cases "History b") (auto simp: buffer_history_def)
  from buffer_doc.consistent_undo [of "Lines b" h es e] assms h obtain h' ls' where
    u: "UndoTree_Undo h = (h', Some (Reverse e))" "mutateLocked (Lines b) (Reverse e) = Some ls'"
      "buffer_doc.consistent ls' h'" "past h' = es" "future h' = e # future h"
      "mutateLocked ls' e = Some (Lines b)" unfolding buffer_ok_def by metis
  from replay_ok [OF u(2,3)] obtain b' where
    "replay b (Reverse e) h' = Some b'" "Lines b' = ls'" "History b' = Some h'" "buffer_ok b'"
    "positionInBoundsLocked (Lines b') (Cursor b')" .
  with u h show ?thesis by (intro that) (auto simp: Buffer_Undo_def buffer_history_def)
qed

lemma Buffer_Redo_some:
  assumes "buffer_ok b" "future (buffer_history b) = e # es"
  obtains b' where "Buffer_Redo b = Some b'" "buffer_ok b'"
    "past (buffer_history b') = past (buffer_history b) @ [e]" "future (buffer_history b') = es"
    "mutateLocked (Lines b) e = Some (Lines b')"
    "mutateLocked (Lines b') (Reverse e) = Some (Lines b)"
    "positionInBoundsLocked (Lines b') (Cursor b')"
proof -
  from assms(2) obtain h where h: "History b = Some h" "buffer_history b = h"
    by (cases "History b") (auto simp: buffer_history_def)
  from buffer_doc.consistent_redo [of "Lines b" h e es] assms h obtain h' ls' where
    u: "UndoTree_Redo h = (h', Some e)" "mutateLocked (Lines b) e = Some ls'"
      "buffer_doc.consistent ls' h'" "past h' = past h @ [e]" "future h' = es"
      "mutateLocked ls' (Reverse e) = Some (Lines b)" unfolding buffer_ok_def by metis
  from replay_ok [OF u(2,3)] obtain b' where
    "replay b e h' = Some b'" "Lines b' = ls'" "History b' = Some h'" "buffer_ok b'"
    "positionInBoundsLocked (Lines b') (Cursor b')" .
  with u h show ?thesis by (intro that) (auto simp: Buffer_Redo_def buffer_history_def)
qed

section \<open>Reachable buffers\<close>

text \<open>
  A buffer as callers can make it: rows without newlines and no history, then any sequence of
  edits, undos, redos and changes of the cursor, the selection and the flash.
\<close>

inductive buffer_reach :: "buffer \<Rightarrow> bool" where
  fresh: "rows_ok (Lines b) \<Longrightarrow> History b = None \<Longrightarrow> buffer_reach b"
| edit: "buffer_reach b \<Longrightarrow> edit_wf e \<Longrightarrow> Apply b e = Some (b', err) \<Longrightarrow> buffer_reach b'"
| undo: "buffer_reach b \<Longrightarrow> Buffer_Undo b = Some b' \<Longrightarrow> buffer_reach b'"
| redo: "buffer_reach b \<Longrightarrow> Buffer_Redo b = Some b' \<Longrightarrow> buffer_reach b'"
| cursor: "buffer_reach b \<Longrightarrow> buffer_reach (b\<lparr>Cursor := p\<rparr>)"
| select: "buffer_reach b \<Longrightarrow> buffer_reach (SetSelection b r)"
| flash: "buffer_reach b \<Longrightarrow> buffer_reach (fst (SetYankFlash b r0))"

lemma buffer_ok_fresh: "rows_ok (Lines b) \<Longrightarrow> History b = None \<Longrightarrow> buffer_ok b"
  unfolding buffer_ok_def
  by (rule buffer_doc.consistent_fresh) (simp_all add: buffer_history_def undo_ok_New)

lemma Apply_Some_ok:
  assumes "buffer_ok b" "edit_wf e" "Apply b e = Some (b', err)"
  shows "buffer_ok b'"
proof (cases "editInRangeLocked (Lines b) e")
  case True
  from Apply_ok [OF assms(1) True assms(2)] assms(3) show ?thesis by (metis option.inject prod.inject)
next
  case False
  then show ?thesis using assms by (simp add: Apply_def applyRecordLocked_def)
qed

lemma Buffer_Undo_ok:
  assumes "buffer_ok b"
  shows "\<exists>b'. Buffer_Undo b = Some b' \<and> buffer_ok b'"
  using past_NilD [of "buffer_history b"] Buffer_Undo_none [OF assms] Buffer_Undo_some [OF assms] assms
  by metis

lemma Buffer_Redo_ok:
  assumes "buffer_ok b"
  shows "\<exists>b'. Buffer_Redo b = Some b' \<and> buffer_ok b'"
  using Buffer_Redo_none [OF assms] Buffer_Redo_some [OF assms] assms
  by (cases "future (buffer_history b)") metis+

lemma reach_ok: "buffer_reach b \<Longrightarrow> buffer_ok b"
proof (induction rule: buffer_reach.induct)
  case (fresh b)
  then show ?case by (rule buffer_ok_fresh)
next
  case (edit b e b' err)
  then show ?case by (blast intro: Apply_Some_ok)
next
  case (undo b b')
  then show ?case using Buffer_Undo_ok by (metis option.inject)
next
  case (redo b b')
  then show ?case using Buffer_Redo_ok by (metis option.inject)
qed (auto simp: buffer_ok_def buffer_history_def SetSelection_def SetYankFlash_def Let_def)

fun undo_n :: "nat \<Rightarrow> buffer \<Rightarrow> buffer go" where
  "undo_n 0 b = Some b"
| "undo_n (Suc n) b = Option.bind (Buffer_Undo b) (undo_n n)"

fun redo_n :: "nat \<Rightarrow> buffer \<Rightarrow> buffer go" where
  "redo_n 0 b = Some b"
| "redo_n (Suc n) b = Option.bind (redo_n n b) Buffer_Redo"

fun apply_all :: "buffer \<Rightarrow> edit list \<Rightarrow> buffer option" where
  "apply_all b [] = Some b"
| "apply_all b (e # es) =
     (case Apply b e of Some (b', None) \<Rightarrow> apply_all b' es | _ \<Rightarrow> None)"

lemma undo_redo_n:
  "buffer_ok b \<Longrightarrow> n \<le> length (past (buffer_history b)) \<Longrightarrow>
   \<exists>b1 b2. undo_n n b = Some b1 \<and> redo_n n b1 = Some b2 \<and> buffer_ok b2 \<and> Lines b2 = Lines b \<and>
     past (buffer_history b2) = past (buffer_history b) \<and>
     future (buffer_history b2) = future (buffer_history b)"
proof (induction n arbitrary: b)
  case 0
  then show ?case by simp
next
  case (Suc n)
  from Suc.prems(2) obtain es e where p: "past (buffer_history b) = es @ [e]"
    by (metis Suc_le_length_iff rev_exhaust list.distinct(1))
  from Buffer_Undo_some [OF Suc.prems(1) p] obtain b' where
    u: "Buffer_Undo b = Some b'" "buffer_ok b'" "past (buffer_history b') = es"
      "future (buffer_history b') = e # future (buffer_history b)"
      "mutateLocked (Lines b') e = Some (Lines b)" by metis
  have "n \<le> length (past (buffer_history b'))" using Suc.prems(2) p u by simp
  from Suc.IH [OF u(2) this] obtain b1 b2 where
    ih: "undo_n n b' = Some b1" "redo_n n b1 = Some b2" "buffer_ok b2" "Lines b2 = Lines b'"
      "past (buffer_history b2) = past (buffer_history b')"
      "future (buffer_history b2) = future (buffer_history b')" by blast
  have "future (buffer_history b2) = e # future (buffer_history b)" using ih u by simp
  from Buffer_Redo_some [OF ih(3) this] obtain b3 where
    "Buffer_Redo b2 = Some b3" "buffer_ok b3"
    "past (buffer_history b3) = past (buffer_history b2) @ [e]"
    "future (buffer_history b3) = future (buffer_history b)"
    "mutateLocked (Lines b2) e = Some (Lines b3)" by metis
  with ih u p show ?case by auto
qed

text \<open>What a run of undos shows depends only on the rows and the past edits.\<close>

lemma undo_n_cong:
  "buffer_ok b \<Longrightarrow> buffer_ok c \<Longrightarrow> Lines b = Lines c \<Longrightarrow>
   past (buffer_history b) = past (buffer_history c) \<Longrightarrow>
   \<exists>b' c'. undo_n n b = Some b' \<and> undo_n n c = Some c' \<and> Lines b' = Lines c'"
proof (induction n arbitrary: b c)
  case 0
  then show ?case by simp
next
  case (Suc n)
  from past_NilD [of "buffer_history b"] show ?case
  proof
    assume "past (buffer_history b) = []"
    then show ?thesis using Suc by (simp add: Buffer_Undo_none)
  next
    assume "\<exists>es e. past (buffer_history b) = es @ [e]"
    then obtain es e where p: "past (buffer_history b) = es @ [e]" by blast
    with Suc.prems have q: "past (buffer_history c) = es @ [e]" by simp
    from Buffer_Undo_some [OF Suc.prems(1) p] obtain b' where
      b': "Buffer_Undo b = Some b'" "buffer_ok b'" "past (buffer_history b') = es"
        "mutateLocked (Lines b) (Reverse e) = Some (Lines b')" by metis
    from Buffer_Undo_some [OF Suc.prems(2) q] obtain c' where
      c': "Buffer_Undo c = Some c'" "buffer_ok c'" "past (buffer_history c') = es"
        "mutateLocked (Lines c) (Reverse e) = Some (Lines c')" by metis
    have "Lines b' = Lines c'" using b'(4) c'(4) Suc.prems(3) by simp
    then show ?thesis using b' c' Suc.IH [OF b'(2) c'(2)] by simp
  qed
qed

lemma Apply_no_evict:
  assumes "buffer_ok b" "edit_wf e" "Apply b e = Some (b', None)"
    "node_count (buffer_history b) < ucap (buffer_history b)"
  shows "\<exists>e'. past (buffer_history b') = past (buffer_history b) @ [e'] \<and>
      mutateLocked (Lines b') (Reverse e') = Some (Lines b)"
    and "node_count (buffer_history b') = node_count (buffer_history b) + 1"
    and "ucap (buffer_history b') = ucap (buffer_history b)"
proof -
  have r: "editInRangeLocked (Lines b) e"
    using assms(3) by (auto simp: Apply_def applyRecordLocked_def split: if_splits)
  obtain b1 e' where e1: "Apply b e = Some (b1, None)"
      "mutateLocked (Lines b1) (Reverse e') = Some (Lines b)"
      "History b1 = Some (UndoTree_Apply (buffer_history b) e')"
    by (rule Apply_ok [OF assms(1) r assms(2)]) blast
  from e1(1) assms(3) have "b1 = b'" by simp
  with e1 have e': "mutateLocked (Lines b') (Reverse e') = Some (Lines b)"
      "buffer_history b' = UndoTree_Apply (buffer_history b) e'"
    by (simp_all add: buffer_history_def)
  have ok: "undo_ok (buffer_history b)"
    using assms(1) by (simp add: buffer_ok_def buffer_doc.consistent_def)
  show "\<exists>e'. past (buffer_history b') = past (buffer_history b) @ [e'] \<and>
      mutateLocked (Lines b') (Reverse e') = Some (Lines b)"
    using e' UndoTree_Apply_line(4) [OF ok assms(4)] by auto
  show "node_count (buffer_history b') = node_count (buffer_history b) + 1"
    and "ucap (buffer_history b') = ucap (buffer_history b)"
    using assms(4) e'(2) by (simp_all add: UndoTree_Apply_def evict_loop.simps)
qed

lemma undo_n_last: "undo_n (Suc m) c = Option.bind (undo_n m c) Buffer_Undo"
proof (induction m arbitrary: c)
  case 0
  then show ?case by (cases "Buffer_Undo c") auto
next
  case (Suc m)
  show ?case
  proof (cases "Buffer_Undo c")
    case None
    then show ?thesis by simp
  next
    case (Some c')
    then show ?thesis using Suc [of c'] by simp
  qed
qed

lemma apply_all_undo_all:
  "buffer_ok b \<Longrightarrow> \<forall>e \<in> set es. edit_wf e \<Longrightarrow>
   node_count (buffer_history b) + len es \<le> ucap (buffer_history b) \<Longrightarrow> apply_all b es = Some b' \<Longrightarrow>
   buffer_ok b' \<and> (\<exists>b0. undo_n (length es) b' = Some b0 \<and> buffer_ok b0 \<and> Lines b0 = Lines b \<and>
     past (buffer_history b0) = past (buffer_history b))"
proof (induction es arbitrary: b)
  case Nil
  then show ?case by simp
next
  case (Cons e es)
  from Cons.prems(4) obtain b1 where b1: "Apply b e = Some (b1, None)" "apply_all b1 es = Some b'"
    by (auto split: option.splits prod.splits)
  have wf: "edit_wf e" using Cons.prems(2) by simp
  have "node_count (buffer_history b) < ucap (buffer_history b)" using Cons.prems(3) by simp
  note ne = Apply_no_evict [OF Cons.prems(1) wf b1(1) this]
  have ok1: "buffer_ok b1" by (rule Apply_Some_ok [OF Cons.prems(1) wf b1(1)])
  from Cons.IH [OF ok1 _ _ b1(2)] Cons.prems(2,3) ne obtain b0 where
    b0: "buffer_ok b'" "undo_n (length es) b' = Some b0" "buffer_ok b0" "Lines b0 = Lines b1"
      "past (buffer_history b0) = past (buffer_history b1)" by auto
  from ne(1) obtain e' where e': "past (buffer_history b1) = past (buffer_history b) @ [e']"
    "mutateLocked (Lines b1) (Reverse e') = Some (Lines b)" by blast
  from b0(5) e'(1) have "past (buffer_history b0) = past (buffer_history b) @ [e']" by simp
  from Buffer_Undo_some [OF b0(3) this] obtain b00 where
    "Buffer_Undo b0 = Some b00" "buffer_ok b00" "past (buffer_history b00) = past (buffer_history b)"
    "mutateLocked (Lines b0) (Reverse e') = Some (Lines b00)" by metis
  then show ?case using b0 e' undo_n_last [of "length es" b'] by simp
qed

section \<open>Properties\<close>

text \<open>Buffers and edits the witnesses use: the rows \<open>ab\<close>, \<open>c\<close>.\<close>

definition sample_buffer :: buffer where
  "sample_buffer = NewBuffer\<lparr>Lines := [[97, 98], [99]]\<rparr>"

definition sample_edit :: edit where
  "sample_edit = mkEdit EditKindReplace (Chars (Pos 0 1) (Pos 1 0)) [120, 10, 121]"

lemma sample_reach: "buffer_reach sample_buffer"
  by (rule buffer_reach.fresh) (simp_all add: sample_buffer_def NewBuffer_def zeroBuffer_def newline_def)

lemma sample_in_range: "edit_wf sample_edit \<and> editInRangeLocked (Lines sample_buffer) sample_edit"
  by (simp add: sample_buffer_def sample_edit_def NewBuffer_def zeroBuffer_def edit_wf_def
      editInRangeLocked_def positionInBoundsLocked_def posLess_def)




definition sample_edited :: buffer where
  "sample_edited = (case Apply sample_buffer sample_edit of Some (b, _) \<Rightarrow> b | None \<Rightarrow> sample_buffer)"

lemma sample_edited_reach:
  "buffer_reach sample_edited \<and> 1 \<le> length (past (buffer_history sample_edited))"
proof -
  note ok = reach_ok [OF sample_reach]
  obtain b1 e' where a: "Apply sample_buffer sample_edit = Some (b1, None)"
      "History b1 = Some (UndoTree_Apply (buffer_history sample_buffer) e')"
    using sample_in_range by (blast intro: Apply_ok [OF ok])
  have "undo_ok (buffer_history sample_buffer)"
    using ok by (simp add: buffer_ok_def buffer_doc.consistent_def)
  from UndoTree_Apply_line(2) [OF this, of e'] a show ?thesis
    using buffer_reach.edit [OF sample_reach, of sample_edit b1 None] sample_in_range
    by (auto simp: sample_edited_def buffer_history_def)
qed


text \<open>
  A run of accepted edits on a fresh buffer, at most as many as the history keeps (1000),
  is undone exactly: as many undos as edits bring back the rows the buffer started with.
\<close>

theorem edits_then_undos:
  assumes "rows_ok (Lines b)" "History b = None" "\<forall>e \<in> set es. edit_wf e" "length es \<le> 1000"
    "apply_all b es = Some b'"
  shows "\<exists>b0. undo_n (length es) b' = Some b0 \<and> Lines b0 = Lines b"
proof -
  have "node_count (buffer_history b) = 0" "ucap (buffer_history b) = 1000"
    using assms(2) by (simp_all add: buffer_history_def NewUndoTree_def undoCap_def)
  then show ?thesis
    using apply_all_undo_all [OF buffer_ok_fresh [OF assms(1,2)] assms(3) _ assms(5)] assms(4) by auto
qed

theorem edits_then_undos_witness:
  "\<exists>b' b0. apply_all sample_buffer [sample_edit] = Some b' \<and>
     undo_n (length [sample_edit]) b' = Some b0 \<and> Lines b0 = Lines sample_buffer"
proof -
  obtain b1 where a: "Apply sample_buffer sample_edit = Some (b1, None)"
    using sample_in_range by (blast intro: Apply_ok [OF reach_ok [OF sample_reach]])
  have "rows_ok (Lines sample_buffer)" "History sample_buffer = None"
    by (simp_all add: sample_buffer_def NewBuffer_def zeroBuffer_def newline_def)
  from edits_then_undos [OF this, of "[sample_edit]" b1] a sample_in_range show ?thesis by simp
qed

text \<open>
  C26. \<open>textInRange\<close>, the deletion and the insertion of a character-wise range act on the rows
  as on one flat text: the text read is the stretch between the two offsets, deleting leaves
  what is before and after it, and inserting it again at the same place restores the rows.
\<close>

theorem delete_then_insert_flat:
  assumes "rows_ok ls" "positionInBoundsLocked ls s" "positionInBoundsLocked ls e" "\<not> posLess e s"
  shows "\<exists>t ls'. textInRangeLocked ls (Chars s e) = Some t \<and>
    stringLocked ls = take (offset ls s) (stringLocked ls) @ t @ drop (offset ls e) (stringLocked ls) \<and>
    deleteRangeLocked ls (Chars s e) = Some ls' \<and>
    stringLocked ls' = take (offset ls s) (stringLocked ls) @ drop (offset ls e) (stringLocked ls) \<and>
    insertAtLocked ls' s t = Some ls"
proof -
  let ?S = "stringLocked ls"
  let ?t = "take (offset ls e - offset ls s) (drop (offset ls s) ?S)"
  from text_chars_flat [OF assms(2-4)] have t: "textInRangeLocked ls (Chars s e) = Some ?t"
    and le: "offset ls s \<le> offset ls e" by simp_all
  from delete_chars_flat [OF assms(2-4,1)] obtain ls' where d: "deleteRangeLocked ls (Chars s e) = Some ls'"
    "rows_ok ls'" "(ls' = []) = (ls = [])" "stringLocked ls' = take (offset ls s) ?S @ drop (offset ls e) ?S"
    "positionInBoundsLocked ls' s" "offset ls' s = offset ls s" by blast
  from insertAtLocked_flat [OF d(5,2), of ?t] obtain ls'' where i: "insertAtLocked ls' s ?t = Some ls''"
    "rows_ok ls''" "(ls'' = []) = (ls' = [] \<and> ?t = [])"
    "stringLocked ls'' = take (offset ls' s) (stringLocked ls') @ ?t @ drop (offset ls' s) (stringLocked ls')"
    by blast
  have o: "offset ls s \<le> length ?S" by (rule offset_le_length [OF assms(2)])
  have split: "?S = take (offset ls s) ?S @ ?t @ drop (offset ls e) ?S"
    using le by (metis append_take_drop_id drop_drop le_add_diff_inverse2)
  have "stringLocked ls'' = take (offset ls s) ?S @ ?t @ drop (offset ls e) ?S"
    using i(4) d(4,6) o by simp
  then have "stringLocked ls'' = ?S" by (rule trans) (rule split [symmetric])
  moreover have "(ls'' = []) = (ls = [])" using i(3) d(3) by (cases ls) auto
  ultimately have "ls'' = ls" by (intro same_text_rows) (use i(2) assms(1) in auto)
  then show ?thesis using t d i split by blast
qed

theorem delete_then_insert_flat_witness:
  "\<exists>t ls'. textInRangeLocked [[97, 98], [99, 100]] (Chars (Pos 0 1) (Pos 1 1)) = Some t \<and>
    t = [98, newline, 99] \<and>
    deleteRangeLocked [[97, 98], [99, 100]] (Chars (Pos 0 1) (Pos 1 1)) = Some ls' \<and> ls' = [[97, 100]] \<and>
    insertAtLocked ls' (Pos 0 1) t = Some [[97, 98], [99, 100]]"
  using delete_then_insert_flat [of "[[97, 98], [99, 100]]" "Pos 0 1" "Pos 1 1"]
  by (simp add: newline_def positionInBoundsLocked_def posLess_def textInRangeLocked_def
      rangeInBoundsLocked_def deleteRangeLocked_def go_index_def go_slice_def offset_def)

end
