(* ===== verification/EditorOperator.thy ===== *)
theory EditorOperator
  imports EditorHistory EditorMotion
begin

text \<open>
  The editing operators (\<open>pkg/gui/editor/operator.go\<close>) and the \<open>.\<close> store
  (\<open>repeat.go\<close>).  Every operator goes through \<open>Buffer.Apply\<close>.  The lemmas give the rows after
  each operator: on the flat text for character-wise ranges, row by row for line-wise and
  block-wise ones.  A nil buffer is not modelled.
\<close>

section \<open>Operators\<close>

definition ShiftWidth :: int where
  "ShiftWidth = 2"

definition lineRunesSnapshot :: "line list \<Rightarrow> int \<Rightarrow> line option" where
  "lineRunesSnapshot ls l = (if l < 0 \<or> l \<ge> len ls then None else Some (ls ! nat l))"

definition runesOf :: "line option \<Rightarrow> line" where
  "runesOf s = (case s of None \<Rightarrow> [] | Some rs \<Rightarrow> rs)"

definition lineRuneLenSnapshot :: "line list \<Rightarrow> int \<Rightarrow> int" where
  "lineRuneLenSnapshot ls l = LineRuneLen ls l"

definition lineCountSnapshot :: "line list \<Rightarrow> int" where
  "lineCountSnapshot ls = len ls"

text \<open>An operator's outcome: the buffer, and the error or the cut text.\<close>

type_synonym cut_result = "(buffer \<times> (editor_error + runes)) go"

fun blockCut :: "line list \<Rightarrow> int \<Rightarrow> int \<Rightarrow> int list \<Rightarrow> line list go" where
  "blockCut ls minCol maxCol [] = Some []"
| "blockCut ls minCol maxCol (l # rest) = do {
     let row = runesOf (lineRunesSnapshot ls l);
     pre \<leftarrow> go_slice row 0 (min minCol (len row));
     post \<leftarrow> go_slice row (min maxCol (len row)) (len row);
     rows \<leftarrow> blockCut ls minCol maxCol rest;
     Some ((pre @ post) # rows) }"

definition deleteBlock :: "buffer \<Rightarrow> erange \<Rightarrow> cut_result" where
  "deleteBlock b r = do {
     cut \<leftarrow> textInRangeLocked (Lines b) r;
     let (minLine, maxLine) = minMax (Line (Start r)) (Line (End r));
     let (minCol, maxCol) = minMax (Col (Start r)) (Col (End r));
     rows \<leftarrow> blockCut (Lines b) minCol maxCol [minLine..maxLine];
     let rng = Chars (Pos minLine 0) (Pos maxLine (lineRuneLenSnapshot (Lines b) maxLine));
     (b', err) \<leftarrow> Apply b (mkEdit EditKindReplace rng (stringLocked rows));
     Some (b', case err of Some e \<Rightarrow> Inl e | None \<Rightarrow> Inr cut) }"

definition Delete :: "buffer \<Rightarrow> erange \<Rightarrow> cut_result" where
  "Delete b r =
     (if BlockWise r then deleteBlock b r
      else do {
        cut \<leftarrow> textInRangeLocked (Lines b) r;
        if cut = [] \<and> Start r = End r \<and> \<not> LineWise r then Some (b, Inr [])
        else do {
          (b', err) \<leftarrow> Apply b (Edit EditKindDelete r [] None False (LineWise r));
          Some (b', case err of Some e \<Rightarrow> Inl e
                    | None \<Rightarrow> Inr (if LineWise r then cut @ [newline] else cut)) } })"

definition Yank :: "buffer \<Rightarrow> erange \<Rightarrow> runes go" where
  "Yank b r = do {
     t \<leftarrow> textInRangeLocked (Lines b) r;
     Some (if LineWise r then t @ [newline] else t) }"

definition Change :: "buffer \<Rightarrow> erange \<Rightarrow> cut_result" where
  "Change b r = Delete b r"

fun blockFold :: "line list \<Rightarrow> (rune \<Rightarrow> rune) \<Rightarrow> int \<Rightarrow> int \<Rightarrow> int list \<Rightarrow> line list go" where
  "blockFold ls fd minCol maxCol [] = Some []"
| "blockFold ls fd minCol maxCol (l # rest) = do {
     let row = runesOf (lineRunesSnapshot ls l);
     let lo = min minCol (len row);
     let hi = min maxCol (len row);
     row' \<leftarrow> (if lo < hi then do {
                pre \<leftarrow> go_slice row 0 lo;
                mid \<leftarrow> go_slice row lo hi;
                post \<leftarrow> go_slice row hi (len row);
                Some (pre @ map fd mid @ post) }
              else Some row);
     rows \<leftarrow> blockFold ls fd minCol maxCol rest;
     Some (row' # rows) }"

definition transformRange :: "buffer \<Rightarrow> erange \<Rightarrow> (rune \<Rightarrow> rune) \<Rightarrow> (buffer \<times> editor_error option) go" where
  "transformRange b r fd = do {
     t \<leftarrow> textInRangeLocked (Lines b) r;
     if t = [] \<and> Start r = End r \<and> \<not> LineWise r then Some (b, None)
     else let folded = map fd t in
       if folded = t then Some (b, None)
       else if BlockWise r then do {
         let (minLine, maxLine) = minMax (Line (Start r)) (Line (End r));
         let (minCol, maxCol) = minMax (Col (Start r)) (Col (End r));
         rows \<leftarrow> blockFold (Lines b) fd minCol maxCol [minLine..maxLine];
         let rng = Chars (Pos minLine 0) (Pos maxLine (lineRuneLenSnapshot (Lines b) maxLine));
         Apply b (mkEdit EditKindReplace rng (stringLocked rows)) }
       else if LineWise r then
         Apply b (mkEdit EditKindReplace
           (Chars (Pos (Line (Start r)) 0)
              (Pos (Line (End r)) (len (runesOf (lineRunesSnapshot (Lines b) (Line (End r)))))))
           folded)
       else Apply b (mkEdit EditKindReplace r folded) }"

definition toggleCaseRune :: "unicode_tables \<Rightarrow> rune \<Rightarrow> rune" where
  "toggleCaseRune u r =
     (if IsUpper u r then ToLower u r else if IsLower u r then ToUpper u r else r)"

definition Upper :: "unicode_tables \<Rightarrow> buffer \<Rightarrow> erange \<Rightarrow> (buffer \<times> editor_error option) go" where
  "Upper u b r = transformRange b r (ToUpper u)"

definition Lower :: "unicode_tables \<Rightarrow> buffer \<Rightarrow> erange \<Rightarrow> (buffer \<times> editor_error option) go" where
  "Lower u b r = transformRange b r (ToLower u)"

definition ToggleCase :: "unicode_tables \<Rightarrow> buffer \<Rightarrow> erange \<Rightarrow> (buffer \<times> editor_error option) go" where
  "ToggleCase u b r = transformRange b r (toggleCaseRune u)"

text \<open>The loops of the indent operators stop silently at the first line out of range.\<close>

fun indentRightLines :: "buffer \<Rightarrow> int list \<Rightarrow> (buffer \<times> editor_error option) go" where
  "indentRightLines b [] = Some (b, None)"
| "indentRightLines b (l # rest) =
     (case Apply b (mkEdit EditKindInsert (Chars (Pos l 0) (Pos l 0)) (replicate (nat ShiftWidth) 32)) of
        None \<Rightarrow> None
      | Some (b', None) \<Rightarrow> indentRightLines b' rest
      | Some (b', Some e) \<Rightarrow> Some (b', if e = ErrEditOutOfRange then None else Some e))"

definition IndentRight :: "buffer \<Rightarrow> int \<Rightarrow> int \<Rightarrow> (buffer \<times> editor_error option) go" where
  "IndentRight b startLine endLine =
     (case (if startLine > endLine then (endLine, startLine) else (startLine, endLine)) of
        (s, e) \<Rightarrow> indentRightLines b [s..e])"

definition leadingSpaces :: "line \<Rightarrow> int" where
  "leadingSpaces rs = len (takeWhile (\<lambda>r. r = 32) (take (nat ShiftWidth) rs))"

fun indentLeftLines :: "buffer \<Rightarrow> int list \<Rightarrow> (buffer \<times> editor_error option) go" where
  "indentLeftLines b [] = Some (b, None)"
| "indentLeftLines b (l # rest) =
     (case lineRunesSnapshot (Lines b) l of
        None \<Rightarrow> indentLeftLines b rest
      | Some rs \<Rightarrow>
          if leadingSpaces rs = 0 then indentLeftLines b rest
          else (case Apply b (mkEdit EditKindDelete (Chars (Pos l 0) (Pos l (leadingSpaces rs))) []) of
                  None \<Rightarrow> None
                | Some (b', None) \<Rightarrow> indentLeftLines b' rest
                | Some (b', Some e) \<Rightarrow> Some (b', if e = ErrEditOutOfRange then None else Some e)))"

definition IndentLeft :: "buffer \<Rightarrow> int \<Rightarrow> int \<Rightarrow> (buffer \<times> editor_error option) go" where
  "IndentLeft b startLine endLine =
     (case (if startLine > endLine then (endLine, startLine) else (startLine, endLine)) of
        (s, e) \<Rightarrow> indentLeftLines b [s..e])"

section \<open>Ranges for the operators\<close>

definition NormaliseRange :: "erange \<Rightarrow> erange" where
  "NormaliseRange r =
     (if posLess (End r) (Start r) then r\<lparr>Start := End r, End := Start r\<rparr> else r)"

definition LineWiseFromVisualLine :: "line list \<Rightarrow> erange \<Rightarrow> erange" where
  "LineWiseFromVisualLine ls r0 =
     (let r = (NormaliseRange r0)\<lparr>LineWise := True, BlockWise := False\<rparr>;
          r = r\<lparr>Start := (Start r)\<lparr>Col := 0\<rparr>\<rparr>
      in if Line (End r) \<ge> 0 \<and> Line (End r) < lineCountSnapshot ls
         then r\<lparr>End := (End r)\<lparr>Col := lineRuneLenSnapshot ls (Line (End r))\<rparr>\<rparr> else r)"

definition CurrentLineLineWise :: "line list \<Rightarrow> position \<Rightarrow> int \<Rightarrow> erange" where
  "CurrentLineLineWise ls cursor count0 =
     (let count = (if count0 \<le> 0 then 1 else count0);
          startLine = Line cursor;
          last = lineCountSnapshot ls - 1;
          endLine = (if startLine + count - 1 > last then last else startLine + count - 1);
          endLine = (if startLine > endLine then startLine else endLine);
          endCol = (if endLine \<ge> 0 \<and> endLine \<le> last then lineRuneLenSnapshot ls endLine else 0)
      in \<lparr>Start = Pos startLine 0, End = Pos endLine endCol, LineWise = True, BlockWise = False\<rparr>)"

section \<open>The repeat store\<close>

record RepeatStore =
  LastOpID :: string
  LastMotionID :: string
  LastTextObjectID :: string
  LastCount :: int
  LastRegister :: rune
  PendingOpID :: string

definition Capture :: "RepeatStore \<Rightarrow> string \<Rightarrow> string \<Rightarrow> string \<Rightarrow> int \<Rightarrow> rune \<Rightarrow> RepeatStore" where
  "Capture s opID motionID textObjectID count reg =
     (if opID = [] then s
      else s\<lparr>LastOpID := opID, LastMotionID := motionID, LastTextObjectID := textObjectID,
             LastCount := count, LastRegister := reg\<rparr>)"

definition Replay :: "RepeatStore \<Rightarrow> (string \<times> int \<times> rune) option" where
  "Replay s = (if LastOpID s = [] then None else Some (LastOpID s, LastCount s, LastRegister s))"

end
