(* ===== verification/EditorOperatorSpec.thy ===== *)
theory EditorOperatorSpec
  imports EditorOperator
begin

text \<open>
  What the operators do to the rows: cutting and case-folding character-wise, line-wise and
  block-wise ranges, and indenting.
\<close>

section \<open>Replacing whole rows\<close>

lemma stringLocked_append3:
  assumes "mid \<noteq> []"
  shows "stringLocked (xs @ mid @ ys) = lines_pre xs @ stringLocked mid @ lines_post ys"
proof -
  from assms obtain m ms where m: "mid = m # ms" by (cases mid) auto
  have "stringLocked (xs @ m # (ms @ ys)) = lines_pre xs @ m @ lines_post (ms @ ys)"
    by (rule stringLocked_middle)
  then show ?thesis by (simp add: m stringLocked_Cons)
qed

lemma offset_of_rows:
  assumes "mid \<noteq> []"
  shows "offset (xs @ mid @ ys) (Pos (len xs + len mid - 1) (len (last mid))) =
    length (lines_pre xs) + length (stringLocked mid)"
proof -
  obtain ms m where m: "mid = ms @ [m]" using assms by (metis rev_exhaust)
  have "nat (len xs + len mid - 1) = length xs + length ms" using m by simp
  then have "offset (xs @ mid @ ys) (Pos (len xs + len mid - 1) (len (last mid))) =
      length (lines_pre xs) + length (lines_pre ms) + length m"
    by (simp add: offset_def m)
  moreover have "stringLocked mid = lines_pre ms @ m @ lines_post []"
    unfolding m by (rule stringLocked_middle)
  ultimately show ?thesis by simp
qed

lemma rows_end_in_bounds:
  assumes "mid \<noteq> []"
  shows "positionInBoundsLocked (xs @ mid @ ys) (Pos (len xs + len mid - 1) (len (last mid)))"
proof -
  obtain ms m where m: "mid = ms @ [m]" using assms by (metis rev_exhaust)
  have "positionInBoundsLocked ((xs @ ms) @ m # ys) (Pos (len (xs @ ms)) (int (length m)))"
    by (subst in_bounds_middle) simp
  then show ?thesis by (simp add: m)
qed

definition rows_range :: "line list \<Rightarrow> line list \<Rightarrow> erange" where
  "rows_range xs mid = Chars (Pos (len xs) 0) (Pos (len xs + len mid - 1) (len (last mid)))"

lemma replace_rows:
  assumes "rows_ok (xs @ mid @ ys)" "mid \<noteq> []" "rows_ok new" "new \<noteq> []"
  shows "editInRangeLocked (xs @ mid @ ys) (mkEdit EditKindReplace (rows_range xs mid) (stringLocked new)) \<and>
    mutateLocked (xs @ mid @ ys) (mkEdit EditKindReplace (rows_range xs mid) (stringLocked new)) =
      Some (xs @ new @ ys)"
proof -
  let ?ls = "xs @ mid @ ys" and ?s = "Pos (len xs) 0" and ?e = "Pos (len xs + len mid - 1) (len (last mid))"
  let ?S = "stringLocked ?ls"
  obtain m ms where m: "mid = m # ms" using assms(2) by (cases mid) auto
  have s: "positionInBoundsLocked ?ls ?s" using m by (auto simp: positionInBoundsLocked_def)
  note e = rows_end_in_bounds [OF assms(2), of xs ys]
  have ord: "\<not> posLess ?e ?s" using m by (auto simp: posLess_def)
  have os: "offset ?ls ?s = length (lines_pre xs)" by (simp add: offset_def)
  note oe = offset_of_rows [OF assms(2), of xs ys]
  note S = stringLocked_append3 [OF assms(2), of xs ys]
  from delete_chars_flat [OF s e ord assms(1)] obtain ls' where
    d: "deleteRangeLocked ?ls (Chars ?s ?e) = Some ls'" "rows_ok ls'" "(ls' = []) = (?ls = [])"
      "stringLocked ls' = take (offset ?ls ?s) ?S @ drop (offset ?ls ?e) ?S"
      "positionInBoundsLocked ls' ?s" "offset ls' ?s = offset ?ls ?s" by blast
  have t: "stringLocked ls' = lines_pre xs @ lines_post ys" using d(4) unfolding os oe S by simp
  from insertAtLocked_flat [OF d(5,2), of "stringLocked new"] obtain ls'' where
    i: "insertAtLocked ls' ?s (stringLocked new) = Some ls''" "rows_ok ls''"
      "(ls'' = []) = (ls' = [] \<and> stringLocked new = [])"
      "stringLocked ls'' = take (offset ls' ?s) (stringLocked ls') @ stringLocked new @ drop (offset ls' ?s) (stringLocked ls')"
    by blast
  have "stringLocked ls'' = stringLocked (xs @ new @ ys)"
    using i(4) unfolding d(6) os t stringLocked_append3 [OF assms(4)] by simp
  then have "ls'' = xs @ new @ ys"
    by (rule same_text_rows [rotated 3]) (use i d assms m in auto)
  then show ?thesis using d(1) i(1) s e ord
    by (simp add: rows_range_def editInRangeLocked_def mutateLocked_def)
qed

section \<open>Block columns\<close>

lemma upto_rows: "mid \<noteq> [] \<Longrightarrow> [len xs..len xs + len mid - 1] = len xs # [len (xs @ [y])..len (xs @ [y]) + len (tl mid) - 1]"
  by (cases mid) (simp_all add: upto_rec1 algebra_simps)

lemma go_slice_clipped:
  "lo \<le> hi \<Longrightarrow> go_slice row (min (int lo) (len row)) (min (int hi) (len row)) = Some (take (hi - lo) (drop lo row))"
  by (auto simp: go_slice_def min_def nat_diff_distrib)

lemma go_slice_pre: "go_slice row 0 (min (int lo) (len row)) = Some (take lo row)"
  by (auto simp: go_slice_def min_def)

lemma go_slice_post: "go_slice row (min (int hi) (len row)) (len row) = Some (drop hi row)"
  by (auto simp: go_slice_def min_def)

lemma snapshot_row: "lineRunesSnapshot (xs @ m # ys) (len xs) = Some m"
  by (simp add: lineRunesSnapshot_def)

lemma blockCut_rows:
  assumes "lo \<le> hi"
  shows "blockCut (xs @ mid @ ys) (int lo) (int hi) [len xs..len xs + len mid - 1] =
    Some (map (\<lambda>row. take lo row @ drop hi row) mid)"
proof (induction mid arbitrary: xs)
  case Nil
  then show ?case by simp
next
  case (Cons m mid)
  have "[len xs..len xs + len (m # mid) - 1] = len xs # [len (xs @ [m])..len (xs @ [m]) + len mid - 1]"
    using upto_rows [of "m # mid" xs m] by simp
  then show ?case using Cons.IH [of "xs @ [m]"] snapshot_row [of xs m "mid @ ys"]
    by (simp add: runesOf_def go_slice_pre go_slice_post)
qed

lemma blockFold_rows:
  assumes "lo \<le> hi"
  shows "blockFold (xs @ mid @ ys) f (int lo) (int hi) [len xs..len xs + len mid - 1] =
    Some (map (\<lambda>row. take lo row @ map f (take (hi - lo) (drop lo row)) @ drop hi row) mid)"
proof (induction mid arbitrary: xs)
  case Nil
  then show ?case by simp
next
  case (Cons m mid)
  have u: "[len xs..len xs + len (m # mid) - 1] = len xs # [len (xs @ [m])..len (xs @ [m]) + len mid - 1]"
    using upto_rows [of "m # mid" xs m] by simp
  have "m = take lo m @ map f (take (hi - lo) (drop lo m)) @ drop hi m"
    if "\<not> min (int lo) (len m) < min (int hi) (len m)"
  proof -
    have "length m \<le> lo \<or> lo = hi" using that assms by (auto simp: min_def split: if_splits)
    then show ?thesis using assms by auto
  qed
  then show ?case using Cons.IH [of "xs @ [m]"] snapshot_row [of xs m "mid @ ys"] assms u
    by (auto simp: runesOf_def go_slice_pre go_slice_post go_slice_clipped Let_def)
qed

lemma blockRows_post:
  assumes "lo \<le> hi"
  shows "a < len xs \<Longrightarrow> blockRows (xs @ mid @ ys) a (int lo) (int hi) [len xs..len xs + len mid - 1] =
    Some (lines_post (map (\<lambda>row. take (hi - lo) (drop lo row)) mid))"
proof (induction mid arbitrary: xs)
  case Nil
  then show ?case by simp
next
  case (Cons m mid)
  have "[len xs..len xs + len (m # mid) - 1] = len xs # [len (xs @ [m])..len (xs @ [m]) + len mid - 1]"
    using upto_rows [of "m # mid" xs m] by simp
  then show ?case using Cons.IH [of "xs @ [m]"] Cons.prems assms
    by (simp add: go_slice_clipped)
qed

lemma blockRows_rows:
  assumes "lo \<le> hi" "mid \<noteq> []"
  shows "blockRows (xs @ mid @ ys) (len xs) (int lo) (int hi) [len xs..len xs + len mid - 1] =
    Some (stringLocked (map (\<lambda>row. take (hi - lo) (drop lo row)) mid))"
proof -
  obtain m ms where m: "mid = m # ms" using assms(2) by (cases mid) auto
  have "[len xs..len xs + len mid - 1] = len xs # [len (xs @ [m])..len (xs @ [m]) + len ms - 1]"
    using upto_rows [of mid xs m] m by simp
  then show ?thesis using blockRows_post [OF assms(1), of "len xs" "xs @ [m]" ms ys] assms(1) m
    by (simp add: go_slice_clipped stringLocked_Cons)
qed

section \<open>Cutting\<close>

lemma buffer_ok_rows: "buffer_ok b \<Longrightarrow> rows_ok (Lines b)"
  by (simp add: buffer_ok_def buffer_doc.consistent_def)

text \<open>Applying an accepted edit whose effect on the rows is known.\<close>

lemma Apply_rows:
  assumes "buffer_ok b" "edit_wf e" "editInRangeLocked (Lines b) e" "mutateLocked (Lines b) e = Some ls'"
  shows "\<exists>b'. Apply b e = Some (b', None) \<and> buffer_ok b' \<and> Lines b' = ls'"
proof -
  obtain b' where "Apply b e = Some (b', None)" "mutateLocked (Lines b) e = Some (Lines b')" "buffer_ok b'"
    by (rule Apply_ok [OF assms(1,3,2)]) blast
  then show ?thesis using assms(4) by auto
qed

lemma Apply_replace_rows:
  assumes "buffer_ok b" "Lines b = xs @ mid @ ys" "mid \<noteq> []" "rows_ok new" "new \<noteq> []"
  shows "\<exists>b'. Apply b (mkEdit EditKindReplace (rows_range xs mid) (stringLocked new)) = Some (b', None) \<and>
    buffer_ok b' \<and> Lines b' = xs @ new @ ys"
proof (rule Apply_rows [OF assms(1)])
  have ok: "rows_ok (xs @ mid @ ys)" using buffer_ok_rows [OF assms(1)] assms(2) by simp
  show "edit_wf (mkEdit EditKindReplace (rows_range xs mid) (stringLocked new))"
    by (simp add: edit_wf_def rows_range_def)
  show "editInRangeLocked (Lines b) (mkEdit EditKindReplace (rows_range xs mid) (stringLocked new))"
    and "mutateLocked (Lines b) (mkEdit EditKindReplace (rows_range xs mid) (stringLocked new)) = Some (xs @ new @ ys)"
    using replace_rows [OF ok assms(3-5)] assms(2) by simp_all
qed

text \<open>A block range over the rows \<open>mid\<close> and the columns from \<open>lo\<close> to \<open>hi\<close>.\<close>

definition covers_block :: "erange \<Rightarrow> line list \<Rightarrow> line list \<Rightarrow> nat \<Rightarrow> nat \<Rightarrow> bool" where
  "covers_block r xs mid lo hi \<longleftrightarrow> BlockWise r \<and> mid \<noteq> [] \<and>
     minMax (Line (Start r)) (Line (End r)) = (len xs, len xs + len mid - 1) \<and>
     minMax (Col (Start r)) (Col (End r)) = (int lo, int hi)"

lemma covers_block_le: "covers_block r xs mid lo hi \<Longrightarrow> lo \<le> hi"
  by (auto simp: covers_block_def minMax_def split: if_splits)

lemma last_row_len:
  "mid \<noteq> [] \<Longrightarrow> lineRuneLenSnapshot (xs @ mid @ ys) (len xs + len mid - 1) = len (last mid)"
  by (cases mid rule: rev_cases) (auto simp: lineRuneLenSnapshot_def LineRuneLen_def nth_append nat_add_distrib)

lemma block_text:
  assumes "covers_block r xs mid lo hi"
  shows "textInRangeLocked (xs @ mid @ ys) r = Some (stringLocked (map (\<lambda>row. take (hi - lo) (drop lo row)) mid))"
  using assms blockRows_rows [OF covers_block_le [OF assms], of mid xs ys]
  by (simp add: textInRangeLocked_def blockTextLocked_def covers_block_def)

lemma rows_ok_map: "rows_ok mid \<Longrightarrow> (\<And>row. row \<in> set mid \<Longrightarrow> newline \<notin> set row \<Longrightarrow> newline \<notin> set (g row)) \<Longrightarrow> rows_ok (map g mid)"
  by (auto simp: rows_ok_def)

lemma Delete_block:
  assumes "buffer_ok b" "Lines b = xs @ mid @ ys" "covers_block r xs mid lo hi"
  shows "\<exists>b'. Delete b r = Some (b', Inr (stringLocked (map (\<lambda>row. take (hi - lo) (drop lo row)) mid))) \<and>
    buffer_ok b' \<and> Lines b' = xs @ map (\<lambda>row. take lo row @ drop hi row) mid @ ys"
proof -
  have ne: "mid \<noteq> []" using assms(3) by (simp add: covers_block_def)
  have "rows_ok mid" using buffer_ok_rows [OF assms(1)] assms(2) by simp
  then have "rows_ok (map (\<lambda>row. take lo row @ drop hi row) mid)" by (rule rows_ok_map) simp
  from Apply_replace_rows [OF assms(1,2) ne this] ne obtain b' where
    b': "Apply b (mkEdit EditKindReplace (rows_range xs mid)
        (stringLocked (map (\<lambda>row. take lo row @ drop hi row) mid))) = Some (b', None)"
      "buffer_ok b'" "Lines b' = xs @ map (\<lambda>row. take lo row @ drop hi row) mid @ ys" by auto
  show ?thesis
    using b' assms(3) block_text [OF assms(3), of ys] last_row_len [OF ne, of xs ys]
      blockCut_rows [OF covers_block_le [OF assms(3)], of xs mid ys]
    by (simp add: Delete_def deleteBlock_def covers_block_def assms(2) rows_range_def)
qed

text \<open>A line-wise range over the rows \<open>mid\<close>.\<close>

definition covers_lines :: "erange \<Rightarrow> line list \<Rightarrow> line list \<Rightarrow> bool" where
  "covers_lines r xs mid \<longleftrightarrow> LineWise r \<and> \<not> BlockWise r \<and> mid \<noteq> [] \<and>
     Line (Start r) = len xs \<and> Line (End r) = len xs + len mid - 1 \<and>
     0 \<le> Col (Start r) \<and> Col (Start r) \<le> len (hd mid) \<and>
     0 \<le> Col (End r) \<and> Col (End r) \<le> len (last mid) \<and>
     (length mid = 1 \<longrightarrow> Col (Start r) \<le> Col (End r))"

lemma covers_lines_in:
  assumes "covers_lines r xs mid"
  shows "rangeInBoundsLocked (xs @ mid @ ys) r"
    and "textInRangeLocked (xs @ mid @ ys) r = Some (stringLocked mid)"
proof -
  obtain m ms where m: "mid = m # ms" using assms by (cases mid) (auto simp: covers_lines_def)
  have s: "positionInBoundsLocked (xs @ mid @ ys) (Start r)"
    using assms m by (auto simp: covers_lines_def positionInBoundsLocked_def)
  have e: "positionInBoundsLocked (xs @ mid @ ys) (End r)"
    using assms m by (cases ms rule: rev_cases)
      (auto simp: covers_lines_def positionInBoundsLocked_def nth_append nat_add_distrib)
  show r: "rangeInBoundsLocked (xs @ mid @ ys) r"
    using s e assms m by (cases ms) (auto simp: rangeInBoundsLocked_def posLess_def covers_lines_def)
  have "go_slice (xs @ mid @ ys) (Line (Start r)) (min (Line (End r) + 1) (len (xs @ mid @ ys))) = Some mid"
    by (rule go_slice_at [of _ xs _ ys]) (use assms in \<open>auto simp: covers_lines_def\<close>)
  then show "textInRangeLocked (xs @ mid @ ys) r = Some (stringLocked mid)"
    using r assms by (simp add: textInRangeLocked_def covers_lines_def)
qed

lemma Delete_lines:
  assumes "buffer_ok b" "Lines b = xs @ mid @ ys" "covers_lines r xs mid"
  shows "\<exists>b'. Delete b r = Some (b', Inr (stringLocked mid @ [newline])) \<and> buffer_ok b' \<and>
    Lines b' = (if xs @ ys = [] then [[]] else xs @ ys)"
proof -
  let ?e = "Edit EditKindDelete r [] None False True"
  note lw = assms(3) [unfolded covers_lines_def]
  have ne: "xs @ mid @ ys \<noteq> []" using lw by auto
  have "go_slice (xs @ mid @ ys) 0 (Line (Start r)) = Some xs"
    by (rule go_slice_at [of _ "[]"]) (use lw in auto)
  moreover have "go_slice (xs @ mid @ ys) (Line (End r) + 1) (len (xs @ mid @ ys)) = Some ys"
    by (rule go_slice_at [of _ "xs @ mid" _ "[]"]) (use lw in auto)
  moreover have "Line (End r) < len (xs @ mid @ ys)" using lw by auto
  ultimately have d: "deleteRangeLocked (xs @ mid @ ys) r = Some (xs @ ys)"
    using ne lw by (simp add: deleteRangeLocked_def)
  have "editInRangeLocked (Lines b) ?e"
    using covers_lines_in(1) [OF assms(3), of ys] assms(2)
    by (auto simp: editInRangeLocked_def rangeInBoundsLocked_def split: if_splits)
  moreover have "mutateLocked (Lines b) ?e = Some (if xs @ ys = [] then [[]] else xs @ ys)"
    using d by (auto simp: mutateLocked_def assms(2))
  moreover have "edit_wf ?e" using lw by (simp add: edit_wf_def)
  ultimately obtain b' where "Apply b ?e = Some (b', None)" "buffer_ok b'"
    "Lines b' = (if xs @ ys = [] then [[]] else xs @ ys)"
    using Apply_rows [OF assms(1)] by blast
  then show ?thesis using covers_lines_in(2) [OF assms(3), of ys] lw
    by (simp add: Delete_def assms(2))
qed

lemma Delete_chars:
  assumes "buffer_ok b" "positionInBoundsLocked (Lines b) s" "positionInBoundsLocked (Lines b) e" "\<not> posLess e s"
  shows "\<exists>b'. Delete b (Chars s e) =
      Some (b', Inr (take (offset (Lines b) e - offset (Lines b) s) (drop (offset (Lines b) s) (stringLocked (Lines b))))) \<and>
    buffer_ok b' \<and>
    stringLocked (Lines b') = take (offset (Lines b) s) (stringLocked (Lines b)) @ drop (offset (Lines b) e) (stringLocked (Lines b))"
proof -
  let ?ls = "Lines b" and ?e = "Edit EditKindDelete (Chars s e) [] None False False"
  from text_chars_flat [OF assms(2-4)] have t: "textInRangeLocked ?ls (Chars s e) =
      Some (take (offset ?ls e - offset ?ls s) (drop (offset ?ls s) (stringLocked ?ls)))" by simp
  show ?thesis
  proof (cases "take (offset ?ls e - offset ?ls s) (drop (offset ?ls s) (stringLocked ?ls)) = [] \<and> s = e")
    case True
    then show ?thesis using t assms(1) by (auto simp: Delete_def)
  next
    case False
    from delete_chars_flat [OF assms(2-4) buffer_ok_rows [OF assms(1)]] obtain ls' where
      d: "deleteRangeLocked ?ls (Chars s e) = Some ls'"
        "stringLocked ls' = take (offset ?ls s) (stringLocked ?ls) @ drop (offset ?ls e) (stringLocked ?ls)" by blast
    have "editInRangeLocked ?ls ?e" using assms(2-4) by (simp add: editInRangeLocked_def)
    moreover have "mutateLocked ?ls ?e = Some ls'" using d(1) by (simp add: mutateLocked_def)
    moreover have "edit_wf ?e" by (simp add: edit_wf_def)
    ultimately obtain b' where "Apply b ?e = Some (b', None)" "buffer_ok b'" "Lines b' = ls'"
      using Apply_rows [OF assms(1)] by blast
    then show ?thesis using t d(2) False by (auto simp: Delete_def)
  qed
qed

section \<open>Folding case\<close>

text \<open>A fold keeps the rows apart when it neither moves nor makes a newline.\<close>

definition fold_ok :: "(rune \<Rightarrow> rune) \<Rightarrow> bool" where
  "fold_ok f \<longleftrightarrow> (\<forall>r. f r = newline \<longleftrightarrow> r = newline)"

lemma fold_okD:
  assumes "fold_ok f"
  shows "f r = newline \<longleftrightarrow> r = newline" "newline = f r \<longleftrightarrow> r = newline" "f newline = newline"
  using assms unfolding fold_ok_def by metis+

lemma map_fold_rows: "fold_ok f \<Longrightarrow> map f (stringLocked rows) = stringLocked (map (map f) rows)"
  by (cases rows) (auto simp: stringLocked_Cons lines_post_def fold_okD map_concat comp_def)

lemma fold_newline: "fold_ok f \<Longrightarrow> newline \<notin> set row \<Longrightarrow> newline \<notin> set (map f row)"
  by (auto simp: fold_okD)

lemma map_same_iff: "map f xs = xs \<longleftrightarrow> (\<forall>x \<in> set xs. f x = x)"
  by (induction xs) auto

lemma transform_lines:
  assumes "buffer_ok b" "Lines b = xs @ mid @ ys" "covers_lines r xs mid" "fold_ok f"
  shows "\<exists>b'. transformRange b r f = Some (b', None) \<and> buffer_ok b' \<and> Lines b' = xs @ map (map f) mid @ ys"
proof -
  note lw = assms(3) [unfolded covers_lines_def]
  note t = covers_lines_in(2) [OF assms(3), of ys]
  have okm: "rows_ok mid" using buffer_ok_rows [OF assms(1)] assms(2) by simp
  then have ok: "rows_ok (map (map f) mid)" by (rule rows_ok_map) (rule fold_newline [OF assms(4)])
  show ?thesis
  proof (cases "map f (stringLocked mid) = stringLocked mid")
    case True
    then have "map (map f) mid = mid"
      using map_fold_rows [OF assms(4), of mid] string_inject [OF ok okm] lw by simp
    then show ?thesis using True t lw assms(1,2) by (simp add: transformRange_def)
  next
    case False
    from Apply_replace_rows [OF assms(1,2) _ ok] lw obtain b' where
      b': "Apply b (mkEdit EditKindReplace (rows_range xs mid) (stringLocked (map (map f) mid))) = Some (b', None)"
        "buffer_ok b'" "Lines b' = xs @ map (map f) mid @ ys" by auto
    have "len (runesOf (lineRunesSnapshot (Lines b) (Line (End r)))) = len (last mid)"
      using last_row_len [of mid xs ys] lw
      by (auto simp: lineRuneLenSnapshot_def LineRuneLen_def lineRunesSnapshot_def runesOf_def assms(2) split: if_splits)
    then show ?thesis using False t lw b' map_fold_rows [OF assms(4), of mid]
      by (simp add: transformRange_def assms(2) rows_range_def)
  qed
qed

lemma transform_block:
  assumes "buffer_ok b" "Lines b = xs @ mid @ ys" "covers_block r xs mid lo hi" "fold_ok f"
  shows "\<exists>b'. transformRange b r f = Some (b', None) \<and> buffer_ok b' \<and>
    Lines b' = xs @ map (\<lambda>row. take lo row @ map f (take (hi - lo) (drop lo row)) @ drop hi row) mid @ ys"
proof -
  let ?piece = "\<lambda>row :: line. take (hi - lo) (drop lo row)"
  let ?new = "map (\<lambda>row. take lo row @ map f (?piece row) @ drop hi row) mid"
  note le = covers_block_le [OF assms(3)]
  note bl = assms(3) [unfolded covers_block_def]
  note t = block_text [OF assms(3), of ys]
  have okm: "rows_ok mid" using buffer_ok_rows [OF assms(1)] assms(2) by simp
  have ok: "rows_ok ?new"
    by (rule rows_ok_map [OF okm]) (use assms(4) in \<open>auto simp: fold_okD dest: in_set_takeD in_set_dropD\<close>)
  show ?thesis
  proof (cases "map f (stringLocked (map ?piece mid)) = stringLocked (map ?piece mid)")
    case True
    then have fix1: "\<forall>x \<in> set (stringLocked (map ?piece mid)). f x = x" by (simp add: map_same_iff)
    have "set row \<subseteq> set (stringLocked rows)" if "row \<in> set rows" for row and rows :: "line list"
      using that by (cases rows) (auto simp: stringLocked_Cons lines_post_def)
    then have "map f (?piece row) = ?piece row" if "row \<in> set mid" for row
      using that fix1 unfolding map_same_iff by (metis (no_types, lifting) image_eqI list.set_map subset_iff)
    moreover have "take lo row @ ?piece row @ drop hi row = row" for row :: line
      using le by (metis append_take_drop_id drop_drop le_add_diff_inverse2)
    ultimately have "?new = mid" by (simp add: map_idI)
    then show ?thesis using True t assms(1,2) by (simp add: transformRange_def)
  next
    case False
    from Apply_replace_rows [OF assms(1,2) _ ok] bl obtain b' where
      b': "Apply b (mkEdit EditKindReplace (rows_range xs mid) (stringLocked ?new)) = Some (b', None)"
        "buffer_ok b'" "Lines b' = xs @ ?new @ ys" by auto
    moreover have "stringLocked (map ?piece mid) \<noteq> []" using False by auto
    ultimately show ?thesis
      using False t bl last_row_len [of mid xs ys] blockFold_rows [OF le, of xs mid ys f]
      by (simp add: transformRange_def assms(2) rows_range_def)
  qed
qed

lemma transform_chars:
  assumes "buffer_ok b" "positionInBoundsLocked (Lines b) s" "positionInBoundsLocked (Lines b) e" "\<not> posLess e s"
  shows "\<exists>b'. transformRange b (Chars s e) f = Some (b', None) \<and> buffer_ok b' \<and>
    stringLocked (Lines b') = take (offset (Lines b) s) (stringLocked (Lines b)) @
      map f (take (offset (Lines b) e - offset (Lines b) s) (drop (offset (Lines b) s) (stringLocked (Lines b)))) @
      drop (offset (Lines b) e) (stringLocked (Lines b))"
proof -
  let ?ls = "Lines b" and ?S = "stringLocked (Lines b)"
  let ?t = "take (offset ?ls e - offset ?ls s) (drop (offset ?ls s) ?S)"
  let ?e = "mkEdit EditKindReplace (Chars s e) (map f ?t)"
  from text_chars_flat [OF assms(2-4)] have t: "textInRangeLocked ?ls (Chars s e) = Some ?t"
    and le: "offset ?ls s \<le> offset ?ls e" by simp_all
  have split: "take (offset ?ls s) ?S @ ?t @ drop (offset ?ls e) ?S = ?S"
    using le by (metis append_take_drop_id drop_drop le_add_diff_inverse2)
  show ?thesis
  proof (cases "map f ?t = ?t")
    case True
    then show ?thesis using t split assms(1) by (auto simp: transformRange_def)
  next
    case False
    from delete_chars_flat [OF assms(2-4) buffer_ok_rows [OF assms(1)]] obtain ls' where
      d: "deleteRangeLocked ?ls (Chars s e) = Some ls'" "rows_ok ls'" "positionInBoundsLocked ls' s"
        "offset ls' s = offset ?ls s" "stringLocked ls' = take (offset ?ls s) ?S @ drop (offset ?ls e) ?S" by blast
    from insertAtLocked_flat [OF d(3,2), of "map f ?t"] obtain ls'' where
      i: "insertAtLocked ls' s (map f ?t) = Some ls''"
        "stringLocked ls'' = take (offset ls' s) (stringLocked ls') @ map f ?t @ drop (offset ls' s) (stringLocked ls')"
      by blast
    have "editInRangeLocked ?ls ?e" using assms(2-4) by (simp add: editInRangeLocked_def)
    moreover have "mutateLocked ?ls ?e = Some ls''" using d(1) i(1) by (simp add: mutateLocked_def)
    moreover have "edit_wf ?e" by (simp add: edit_wf_def)
    ultimately obtain b' where "Apply b ?e = Some (b', None)" "buffer_ok b'" "Lines b' = ls''"
      using Apply_rows [OF assms(1)] by blast
    moreover have "offset ?ls s \<le> length ?S" by (rule offset_le_length [OF assms(2)])
    then have "stringLocked ls'' = take (offset ?ls s) ?S @ map f ?t @ drop (offset ?ls e) ?S"
      using i(2) d(4,5) by simp
    moreover have "\<not> (?t = [] \<and> s = e)" using False by auto
    ultimately show ?thesis using t False by (auto simp: transformRange_def)
  qed
qed

section \<open>Indenting\<close>

lemma indent_row:
  assumes "buffer_ok b" "Lines b = xs @ m # ys"
  shows "\<exists>b'. Apply b (mkEdit EditKindInsert (Chars (Pos (len xs) 0) (Pos (len xs) 0)) (replicate (nat ShiftWidth) 32)) =
      Some (b', None) \<and> buffer_ok b' \<and> Lines b' = xs @ (replicate (nat ShiftWidth) 32 @ m) # ys"
proof (rule Apply_rows [OF assms(1)])
  let ?e = "mkEdit EditKindInsert (Chars (Pos (len xs) 0) (Pos (len xs) 0)) (replicate (nat ShiftWidth) 32)"
  show "edit_wf ?e" by (simp add: edit_wf_def)
  show "editInRangeLocked (Lines b) ?e" by (simp add: editInRangeLocked_def positionInBoundsLocked_def assms(2))
  show "mutateLocked (Lines b) ?e = Some (xs @ (replicate (nat ShiftWidth) 32 @ m) # ys)"
    by (simp add: mutateLocked_def insertAtLocked_def assms(2) go_simps ShiftWidth_def newline_def numeral_2_eq_2)
qed

lemma dedent_row:
  assumes "buffer_ok b" "Lines b = xs @ m # ys" "k \<le> length m"
  shows "\<exists>b'. Apply b (mkEdit EditKindDelete (Chars (Pos (len xs) 0) (Pos (len xs) (int k))) []) = Some (b', None) \<and>
      buffer_ok b' \<and> Lines b' = xs @ drop k m # ys"
proof (rule Apply_rows [OF assms(1)])
  let ?e = "mkEdit EditKindDelete (Chars (Pos (len xs) 0) (Pos (len xs) (int k))) []"
  show "edit_wf ?e" by (simp add: edit_wf_def)
  show "editInRangeLocked (Lines b) ?e"
    using assms(3) by (simp add: editInRangeLocked_def positionInBoundsLocked_def posLess_def assms(2))
  show "mutateLocked (Lines b) ?e = Some (xs @ drop k m # ys)"
    using assms(3) by (simp add: mutateLocked_def deleteRangeLocked_def assms(2) go_simps)
qed

lemma indentRight_rows:
  "buffer_ok b \<Longrightarrow> Lines b = xs @ mid @ ys \<Longrightarrow>
   \<exists>b'. indentRightLines b [len xs..len xs + len mid - 1] = Some (b', None) \<and> buffer_ok b' \<and>
     Lines b' = xs @ map (\<lambda>m. [32, 32] @ m) mid @ ys"
proof (induction mid arbitrary: xs b)
  case Nil
  then show ?case by simp
next
  case (Cons m mid)
  have u: "[len xs..len xs + len (m # mid) - 1] = len xs # [len (xs @ [[32, 32] @ m])..len (xs @ [[32, 32] @ m]) + len mid - 1]"
    using upto_rows [of "m # mid" xs "[32, 32] @ m"] by simp
  from indent_row [OF Cons.prems(1), of xs m "mid @ ys"] Cons.prems(2) obtain b1 where
    b1: "Apply b (mkEdit EditKindInsert (Chars (Pos (len xs) 0) (Pos (len xs) 0)) (replicate (nat ShiftWidth) 32)) = Some (b1, None)"
      "buffer_ok b1" "Lines b1 = (xs @ [[32, 32] @ m]) @ mid @ ys"
    by (auto simp: ShiftWidth_def numeral_2_eq_2)
  from Cons.IH [OF b1(2,3)] obtain b2 where
    "indentRightLines b1 [len (xs @ [[32, 32] @ m])..len (xs @ [[32, 32] @ m]) + len mid - 1] = Some (b2, None)"
    "buffer_ok b2" "Lines b2 = (xs @ [[32, 32] @ m]) @ map (\<lambda>m. [32, 32] @ m) mid @ ys" by blast
  then show ?case unfolding u using b1(1) by (simp del: length_append)
qed

lemma indentLeft_rows:
  "buffer_ok b \<Longrightarrow> Lines b = xs @ mid @ ys \<Longrightarrow>
   \<exists>b'. indentLeftLines b [len xs..len xs + len mid - 1] = Some (b', None) \<and> buffer_ok b' \<and>
     Lines b' = xs @ map (\<lambda>m. drop (nat (leadingSpaces m)) m) mid @ ys"
proof (induction mid arbitrary: xs b)
  case Nil
  then show ?case by simp
next
  case (Cons m mid)
  let ?m = "drop (nat (leadingSpaces m)) m"
  have u: "[len xs..len xs + len (m # mid) - 1] = len xs # [len (xs @ [?m])..len (xs @ [?m]) + len mid - 1]"
    using upto_rows [of "m # mid" xs ?m] by simp
  have sn: "lineRunesSnapshot (Lines b) (len xs) = Some m"
    using Cons.prems(2) snapshot_row [of xs m "mid @ ys"] by simp
  have le: "nat (leadingSpaces m) \<le> length m" and ge: "int (nat (leadingSpaces m)) = leadingSpaces m"
    using length_takeWhile_le [of "\<lambda>r. r = 32" "take (nat ShiftWidth) m"] by (auto simp: leadingSpaces_def)
  from dedent_row [OF Cons.prems(1) _ le, of xs "mid @ ys"] Cons.prems(2) ge obtain b1 where
    b1: "Apply b (mkEdit EditKindDelete (Chars (Pos (len xs) 0) (Pos (len xs) (leadingSpaces m))) []) = Some (b1, None)"
      "buffer_ok b1" "Lines b1 = (xs @ [?m]) @ mid @ ys" by auto
  show ?case
  proof (cases "leadingSpaces m = 0")
    case True
    then have "Lines b = (xs @ [?m]) @ mid @ ys" using Cons.prems(2) by simp
    from Cons.IH [OF Cons.prems(1) this] show ?thesis unfolding u using sn True by (simp del: length_append)
  next
    case False
    from Cons.IH [OF b1(2,3)] show ?thesis unfolding u using b1(1) sn False by (simp del: length_append)
  qed
qed

lemma leadingSpaces_indent: "leadingSpaces (32 # 32 # m) = 2"
  by (simp add: leadingSpaces_def ShiftWidth_def numeral_2_eq_2)

section \<open>Properties\<close>

text \<open>
  C18. \<open>Delete\<close> returns exactly the text it takes out: on a character-wise range the flat text
  loses the stretch between the offsets; on a line-wise range the rows go (an emptied buffer
  keeps one empty row) and the cut text ends in a newline; on a block every row loses its
  columns and the cut is the rectangle.
\<close>

theorem Delete_cuts:
  assumes "buffer_reach b"
  shows "(positionInBoundsLocked (Lines b) s \<and> positionInBoundsLocked (Lines b) e \<and> \<not> posLess e s \<longrightarrow>
      (\<exists>b' t. Delete b (Chars s e) = Some (b', Inr t) \<and>
        stringLocked (Lines b) = take (offset (Lines b) s) (stringLocked (Lines b)) @ t @ drop (offset (Lines b) e) (stringLocked (Lines b)) \<and>
        stringLocked (Lines b') = take (offset (Lines b) s) (stringLocked (Lines b)) @ drop (offset (Lines b) e) (stringLocked (Lines b)))) \<and>
    (Lines b = xs @ mid @ ys \<and> covers_lines r xs mid \<longrightarrow>
      (\<exists>b'. Delete b r = Some (b', Inr (stringLocked mid @ [newline])) \<and>
        Lines b' = (if xs @ ys = [] then [[]] else xs @ ys))) \<and>
    (Lines b = xs @ mid @ ys \<and> covers_block r xs mid lo hi \<longrightarrow>
      (\<exists>b'. Delete b r = Some (b', Inr (stringLocked (map (\<lambda>row. take (hi - lo) (drop lo row)) mid))) \<and>
        Lines b' = xs @ map (\<lambda>row. take lo row @ drop hi row) mid @ ys))"
proof (intro conjI impI; elim conjE)
  note ok = reach_ok [OF assms]
  let ?S = "stringLocked (Lines b)"
  assume a: "positionInBoundsLocked (Lines b) s" "positionInBoundsLocked (Lines b) e" "\<not> posLess e s"
  have "offset (Lines b) s \<le> offset (Lines b) e" using text_chars_flat [OF a] by simp
  then have "?S = take (offset (Lines b) s) ?S @ take (offset (Lines b) e - offset (Lines b) s) (drop (offset (Lines b) s) ?S) @ drop (offset (Lines b) e) ?S"
    by (metis append_take_drop_id drop_drop le_add_diff_inverse2)
  then show "\<exists>b' t. Delete b (Chars s e) = Some (b', Inr t) \<and>
        ?S = take (offset (Lines b) s) ?S @ t @ drop (offset (Lines b) e) ?S \<and>
        stringLocked (Lines b') = take (offset (Lines b) s) ?S @ drop (offset (Lines b) e) ?S"
    using Delete_chars [OF ok a] by blast
next
  assume "Lines b = xs @ mid @ ys" "covers_lines r xs mid"
  then show "\<exists>b'. Delete b r = Some (b', Inr (stringLocked mid @ [newline])) \<and>
      Lines b' = (if xs @ ys = [] then [[]] else xs @ ys)"
    using Delete_lines [OF reach_ok [OF assms]] by blast
next
  assume "Lines b = xs @ mid @ ys" "covers_block r xs mid lo hi"
  then show "\<exists>b'. Delete b r = Some (b', Inr (stringLocked (map (\<lambda>row. take (hi - lo) (drop lo row)) mid))) \<and>
      Lines b' = xs @ map (\<lambda>row. take lo row @ drop hi row) mid @ ys"
    using Delete_block [OF reach_ok [OF assms]] by blast
qed

theorem Delete_cuts_witness:
  "\<exists>b'. Delete sample_buffer \<lparr>Start = Pos 0 0, End = Pos 0 1, LineWise = True, BlockWise = False\<rparr> =
      Some (b', Inr ([97, 98] @ [newline])) \<and> Lines b' = [[99]]"
proof -
  have "Lines sample_buffer = [] @ [[97, 98]] @ [[99]]"
    "covers_lines \<lparr>Start = Pos 0 0, End = Pos 0 1, LineWise = True, BlockWise = False\<rparr> [] [[97, 98]]"
    by (simp_all add: sample_buffer_def covers_lines_def)
  with Delete_cuts [OF sample_reach, of "Pos 0 0" "Pos 0 0" "[]" "[[97, 98]]" "[[99]]"
      "\<lparr>Start = Pos 0 0, End = Pos 0 1, LineWise = True, BlockWise = False\<rparr>"]
  show ?thesis by simp
qed

text \<open>
  The case operators \<open>Upper\<close>, \<open>Lower\<close> and \<open>ToggleCase\<close> fold exactly the runes their
  range covers, whichever kind the range is, and nothing else; they never fail on a range
  inside the buffer.
\<close>

theorem case_operators_fold_range:
  assumes "buffer_reach b" "fold_ok f"
    "(f, op) \<in> {(ToUpper u, Upper u), (ToLower u, Lower u), (toggleCaseRune u, ToggleCase u)}"
  shows "(positionInBoundsLocked (Lines b) s \<and> positionInBoundsLocked (Lines b) e \<and> \<not> posLess e s \<longrightarrow>
      (\<exists>b'. op b (Chars s e) = Some (b', None) \<and>
        stringLocked (Lines b') = take (offset (Lines b) s) (stringLocked (Lines b)) @
          map f (take (offset (Lines b) e - offset (Lines b) s) (drop (offset (Lines b) s) (stringLocked (Lines b)))) @
          drop (offset (Lines b) e) (stringLocked (Lines b)))) \<and>
    (Lines b = xs @ mid @ ys \<and> covers_lines r xs mid \<longrightarrow>
      (\<exists>b'. op b r = Some (b', None) \<and> Lines b' = xs @ map (map f) mid @ ys)) \<and>
    (Lines b = xs @ mid @ ys \<and> covers_block r xs mid lo hi \<longrightarrow>
      (\<exists>b'. op b r = Some (b', None) \<and>
        Lines b' = xs @ map (\<lambda>row. take lo row @ map f (take (hi - lo) (drop lo row)) @ drop hi row) mid @ ys))"
proof -
  have op: "op b r = transformRange b r f" for r
    using assms(3) by (auto simp: Upper_def Lower_def ToggleCase_def)
  note ok = reach_ok [OF assms(1)]
  show ?thesis unfolding op
  proof (intro conjI impI; elim conjE)
    assume a: "positionInBoundsLocked (Lines b) s" "positionInBoundsLocked (Lines b) e" "\<not> posLess e s"
    then show "\<exists>b'. transformRange b (Chars s e) f = Some (b', None) \<and>
        stringLocked (Lines b') = take (offset (Lines b) s) (stringLocked (Lines b)) @
          map f (take (offset (Lines b) e - offset (Lines b) s) (drop (offset (Lines b) s) (stringLocked (Lines b)))) @
          drop (offset (Lines b) e) (stringLocked (Lines b))"
      using transform_chars [OF ok a, of f] by blast
  next
    assume "Lines b = xs @ mid @ ys" "covers_lines r xs mid"
    then show "\<exists>b'. transformRange b r f = Some (b', None) \<and> Lines b' = xs @ map (map f) mid @ ys"
      using transform_lines [OF ok _ _ assms(2)] by blast
  next
    assume "Lines b = xs @ mid @ ys" "covers_block r xs mid lo hi"
    then show "\<exists>b'. transformRange b r f = Some (b', None) \<and>
        Lines b' = xs @ map (\<lambda>row. take lo row @ map f (take (hi - lo) (drop lo row)) @ drop hi row) mid @ ys"
      using transform_block [OF ok _ _ assms(2)] by blast
  qed
qed

theorem case_operators_fold_range_witness:
  "\<exists>b'. Upper ascii_tables sample_buffer
      \<lparr>Start = Pos 1 1, End = Pos 0 0, LineWise = False, BlockWise = True\<rparr> = Some (b', None) \<and>
    Lines b' = [[65, 98], [67]]"
proof -
  let ?r = "\<lparr>Start = Pos 1 1, End = Pos 0 0, LineWise = False, BlockWise = True\<rparr>"
  have f: "fold_ok (ToUpper ascii_tables)"
    by (auto simp: fold_ok_def ascii_tables_def newline_def)
  have "Lines sample_buffer = [] @ [[97, 98], [99]] @ []" "covers_block ?r [] [[97, 98], [99]] 0 1"
    by (simp_all add: sample_buffer_def covers_block_def minMax_def)
  with case_operators_fold_range [OF sample_reach f, of "Upper ascii_tables" ascii_tables "Pos 0 0" "Pos 0 0" "[]" "[[97, 98], [99]]" "[]" ?r 0 1]
  show ?thesis by (simp add: ascii_tables_def)
qed

text \<open>
  \<open>>>\<close> over any rows puts two blanks before each of them and keeps the others; the \<open><<\<close>
  that follows over the same rows (in either order of the bounds) restores the buffer's rows.
\<close>

theorem indent_then_dedent:
  assumes "buffer_reach b" "Lines b = xs @ mid @ ys" "mid \<noteq> []"
  shows "\<exists>b1 b2. IndentRight b (len xs) (len xs + len mid - 1) = Some (b1, None) \<and>
    Lines b1 = xs @ map (\<lambda>m. 32 # 32 # m) mid @ ys \<and>
    IndentLeft b1 (len xs + len mid - 1) (len xs) = Some (b2, None) \<and> Lines b2 = Lines b"
proof -
  from indentRight_rows [OF reach_ok [OF assms(1)] assms(2)] obtain b1 where
    b1: "indentRightLines b [len xs..len xs + len mid - 1] = Some (b1, None)" "buffer_ok b1"
      "Lines b1 = xs @ map (\<lambda>m. 32 # 32 # m) mid @ ys" by auto
  from indentLeft_rows [OF b1(2,3)] obtain b2 where
    b2: "indentLeftLines b1 [len xs..len xs + len mid - 1] = Some (b2, None)" "Lines b2 = xs @ mid @ ys"
    by (auto simp: comp_def leadingSpaces_indent)
  have "IndentRight b (len xs) (len xs + len mid - 1) = indentRightLines b [len xs..len xs + len mid - 1]"
    "IndentLeft b1 (len xs + len mid - 1) (len xs) = indentLeftLines b1 [len xs..len xs + len mid - 1]"
    using assms(3) by (cases mid; cases "tl mid"; simp add: IndentRight_def IndentLeft_def)+
  then show ?thesis using b1 b2 assms(2) by auto
qed

theorem indent_then_dedent_witness:
  "\<exists>b1 b2. IndentRight sample_buffer 0 1 = Some (b1, None) \<and> Lines b1 = [[32, 32, 97, 98], [32, 32, 99]] \<and>
     IndentLeft b1 1 0 = Some (b2, None) \<and> Lines b2 = Lines sample_buffer"
  using indent_then_dedent [OF sample_reach, of "[]" "[[97, 98], [99]]" "[]"]
  by (simp add: sample_buffer_def)

end
