(* ===== verification/EditorStatement.thy ===== *)
theory EditorStatement
  imports EditorMotion
begin

text \<open>
  Splitting an editor buffer into SQL statements (\<open>pkg/gui/editor/statement_split.go\<close>) on the
  tokens of the highlighter (\<open>pkg/gui/editor/highlight/highlight.go\<close>).  The Chroma PostgreSQL
  lexer is a third-party package: it is the parameter \<open>chroma\<close>, which returns the classified
  token values, or \<open>None\<close> for an error.
\<close>

section \<open>Tokens\<close>

datatype TokenKind = Keyword | StringTok | Comment | Number | Operator | Identifier | Punctuation | Other

record Token =
  TokType :: TokenKind
  Value :: runes
  RuneOffset :: int
  RuneLen :: int

type_synonym chroma = "runes \<Rightarrow> (TokenKind \<times> runes) list option"

fun tokensFrom :: "int \<Rightarrow> (TokenKind \<times> runes) list \<Rightarrow> Token list" where
  "tokensFrom off [] = []"
| "tokensFrom off ((k, v) # rest) =
     \<lparr>TokType = k, Value = v, RuneOffset = off, RuneLen = len v\<rparr> # tokensFrom (off + len v) rest"

definition Tokenize :: "chroma \<Rightarrow> runes \<Rightarrow> Token list" where
  "Tokenize chroma t =
     (if t = [] then []
      else case chroma t of None \<Rightarrow> [] | Some toks \<Rightarrow> tokensFrom 0 toks)"

section \<open>Statements\<close>

definition semicolon :: rune where
  "semicolon = 59"

text \<open>The indices of the runes of \<open>v\<close> that are semicolons, from \<open>off\<close> on.\<close>

fun semisIn :: "int \<Rightarrow> runes \<Rightarrow> int list" where
  "semisIn off [] = []"
| "semisIn off (r # rs) = (if r = semicolon then [off] else []) @ semisIn (off + 1) rs"

definition semicolonRuneOffsets :: "Token list \<Rightarrow> int list" where
  "semicolonRuneOffsets toks =
     concat (map (\<lambda>t. if TokType t \<noteq> Punctuation then [] else semisIn (RuneOffset t) (Value t)) toks)"

definition isBlank :: "runes \<Rightarrow> bool" where
  "isBlank rs = list_all unicode_IsSpace rs"

text \<open>The loop over the semicolons, then the trailing segment.\<close>

fun splitSegments :: "runes \<Rightarrow> int \<Rightarrow> int list \<Rightarrow> runes list go" where
  "splitSegments rs start [] =
     (if start < len rs then do {
        seg \<leftarrow> go_slice rs start (len rs);
        Some (if TrimSpace seg \<noteq> [] then [seg] else []) }
      else Some [])"
| "splitSegments rs start (semi # semis) = do {
     seg \<leftarrow> go_slice rs start semi;
     rest \<leftarrow> splitSegments rs (semi + 1) semis;
     Some ((if TrimSpace seg \<noteq> [] then [seg] else []) @ rest) }"

definition SplitStatements :: "chroma \<Rightarrow> runes \<Rightarrow> runes list go" where
  "SplitStatements chroma buf =
     (if TrimSpace buf = [] then Some []
      else let semis = semicolonRuneOffsets (Tokenize chroma buf) in
        if semis = [] then Some [buf] else splitSegments buf 0 semis)"

text \<open>\<open>for _, s := range semis { if s < x { start = s + 1 } }\<close>\<close>

definition startAfter :: "int list \<Rightarrow> int \<Rightarrow> int" where
  "startAfter semis x = foldl (\<lambda>acc s. if s < x then s + 1 else acc) 0 semis"

fun firstFrom :: "int list \<Rightarrow> int \<Rightarrow> int \<Rightarrow> int" where
  "firstFrom [] x d = d"
| "firstFrom (s # ss) x d = (if s \<ge> x then s else firstFrom ss x d)"

definition StatementRangeAt :: "chroma \<Rightarrow> runes \<Rightarrow> int \<Rightarrow> int \<times> int" where
  "StatementRangeAt chroma buf off =
     (let runeCount = len buf;
          runeOff = (if off < 0 then 0 else off);
          runeOff = (if runeOff > runeCount then runeCount else runeOff);
          semis = semicolonRuneOffsets (Tokenize chroma buf)
      in if semis = [] then (0, runeCount)
         else if runeOff \<in> set semis then (startAfter semis runeOff, runeOff)
         else let start = startAfter semis runeOff; en = firstFrom semis runeOff runeCount in
           if start \<ge> en then (startAfter semis (start - 1), start - 1) else (start, en))"

text \<open>
  \<open>utf8.RuneCountInString(buf[:off])\<close>: a rune cut in the middle counts once per byte.
\<close>

fun runeCountPrefix :: "runes \<Rightarrow> int \<Rightarrow> int" where
  "runeCountPrefix [] off = 0"
| "runeCountPrefix (r # rs) off =
     (if off \<le> 0 then 0
      else if off < utf8_RuneLen r then off
      else 1 + runeCountPrefix rs (off - utf8_RuneLen r))"

definition StatementAt :: "chroma \<Rightarrow> runes \<Rightarrow> int \<Rightarrow> runes go" where
  "StatementAt chroma buf off =
     (if buf = [] then Some []
      else let off = (if off < 0 then 0 else off);
               off = (if off > utf8ByteLen buf then utf8ByteLen buf else off)
           in case StatementRangeAt chroma buf (runeCountPrefix buf off) of
                (start, en) \<Rightarrow> do { seg \<leftarrow> go_slice buf start en; Some (TrimSpace seg) })"

text \<open>
  What the code relies on: the lexer's values spell the text, possibly with a newline the
  lexer adds at the end.
\<close>

definition lexer_lossless :: "chroma \<Rightarrow> runes \<Rightarrow> bool" where
  "lexer_lossless chroma t \<longleftrightarrow>
     (\<forall>toks. chroma t = Some toks \<longrightarrow> (\<exists>tail \<in> {[], [newline]}. concat (map snd toks) = t @ tail))"

text \<open>The lexer's view of a semicolon: the offsets of those inside punctuation tokens.\<close>

lemma sorted_semisIn:
  "sorted_wrt (<) (semisIn off rs) \<and> (\<forall>s \<in> set (semisIn off rs). off \<le> s \<and> s < off + len rs \<and> rs ! nat (s - off) = semicolon)"
proof (induction rs arbitrary: off)
  case Nil
  then show ?case by simp
next
  case (Cons r rs)
  show ?case
  proof (intro conjI ballI)
    show "sorted_wrt (<) (semisIn off (r # rs))" using Cons [of "off + 1"] by fastforce
    fix s assume s: "s \<in> set (semisIn off (r # rs))"
    show "off \<le> s" "s < off + len (r # rs)" using s Cons [of "off + 1"] by (auto split: if_splits)
    show "(r # rs) ! nat (s - off) = semicolon"
    proof (cases "s = off")
      case True
      have "off \<notin> set (semisIn (off + 1) rs)" using Cons [of "off + 1"] by auto
      then show ?thesis using s True by (auto split: if_splits)
    next
      case False
      then have "s \<in> set (semisIn (off + 1) rs)" using s by (auto split: if_splits)
      then have "off + 1 \<le> s" "rs ! nat (s - (off + 1)) = semicolon" using Cons [of "off + 1"] by auto
      moreover have "nat (s - off) = Suc (nat (s - (off + 1)))" using calculation by simp
      ultimately show ?thesis by simp
    qed
  qed
qed

lemma tokens_semis:
  "sorted_wrt (<) (semicolonRuneOffsets (tokensFrom off toks)) \<and>
   (\<forall>s \<in> set (semicolonRuneOffsets (tokensFrom off toks)).
      off \<le> s \<and> s < off + len (concat (map snd toks)) \<and> concat (map snd toks) ! nat (s - off) = semicolon)"
proof (induction toks arbitrary: off)
  case Nil
  then show ?case by (simp add: semicolonRuneOffsets_def)
next
  case (Cons t toks)
  obtain k v where t: "t = (k, v)" by (cases t)
  let ?a = "if k \<noteq> Punctuation then [] else semisIn off v"
  let ?b = "semicolonRuneOffsets (tokensFrom (off + len v) toks)"
  have eq: "semicolonRuneOffsets (tokensFrom off (t # toks)) = ?a @ ?b"
    by (simp add: semicolonRuneOffsets_def t)
  have a: "sorted_wrt (<) ?a" "\<And>s. s \<in> set ?a \<Longrightarrow> off \<le> s \<and> s < off + len v \<and> v ! nat (s - off) = semicolon"
    using sorted_semisIn [of off v] by (auto split: if_splits)
  note b = Cons [of "off + len v"]
  have ord: "x < y" if "x \<in> set ?a" "y \<in> set ?b" for x y
    using a(2) [OF that(1)] b that(2) by fastforce
  have "sorted_wrt (<) (?a @ ?b)"
    using a(1) b ord by (auto simp: sorted_wrt_append)
  moreover have "off \<le> s \<and> s < off + len (concat (map snd (t # toks))) \<and> concat (map snd (t # toks)) ! nat (s - off) = semicolon"
    if "s \<in> set (?a @ ?b)" for s
  proof (cases "s \<in> set ?a")
    case True
    from a(2) [OF this] have "off \<le> s" "nat (s - off) < length v" "s < off + len v" "v ! nat (s - off) = semicolon" by auto
    then show ?thesis by (simp add: t nth_append)
  next
    case False
    then have "s \<in> set ?b" using that by auto
    with b have *: "off + len v \<le> s" "s < off + len v + len (concat (map snd toks))"
      "concat (map snd toks) ! nat (s - (off + len v)) = semicolon" by auto
    then have "nat (s - off) = length v + nat (s - (off + len v))" by simp
    then show ?thesis using * by (simp add: t nth_append)
  qed
  ultimately show ?case by (simp add: eq)
qed

section \<open>The semicolons of a buffer\<close>

definition semis_of :: "chroma \<Rightarrow> runes \<Rightarrow> int list" where
  "semis_of chroma t = semicolonRuneOffsets (Tokenize chroma t)"

lemma semis_of_ok:
  assumes "lexer_lossless chroma t"
  shows "sorted_wrt (<) (semis_of chroma t)"
    and "s \<in> set (semis_of chroma t) \<Longrightarrow> 0 \<le> s \<and> s < len t \<and> t ! nat s = semicolon"
proof -
  show "sorted_wrt (<) (semis_of chroma t)"
    using tokens_semis [of 0] by (auto simp: semis_of_def Tokenize_def semicolonRuneOffsets_def split: option.splits)
  assume s: "s \<in> set (semis_of chroma t)"
  then obtain toks where toks: "chroma t = Some toks" "s \<in> set (semicolonRuneOffsets (tokensFrom 0 toks))"
    by (auto simp: semis_of_def Tokenize_def semicolonRuneOffsets_def split: option.splits if_splits)
  from assms toks(1) obtain tl where tl: "tl \<in> {[], [newline]}" "concat (map snd toks) = t @ tl"
    by (auto simp: lexer_lossless_def)
  from tokens_semis [of 0 toks] toks(2) tl(2) have
    *: "0 \<le> s" "s < len (t @ tl)" "(t @ tl) ! nat s = semicolon" by auto
  have "s < len t"
  proof (rule ccontr)
    assume "\<not> s < len t"
    then have "tl = [newline]" "nat s = length t" using * tl(1) by auto
    then show False using *(3) by (simp add: nth_append newline_def semicolon_def)
  qed
  moreover from this have "nat s < length t" using *(1) by linarith
  ultimately show "0 \<le> s \<and> s < len t \<and> t ! nat s = semicolon" using * by (simp add: nth_append)
qed

lemma startAfter_last:
  assumes "sorted_wrt (<) semis"
  shows "(startAfter semis x = 0 \<and> (\<forall>s \<in> set semis. \<not> s < x)) \<or>
    (startAfter semis x - 1 \<in> set semis \<and> startAfter semis x - 1 < x \<and>
     (\<forall>s \<in> set semis. s < x \<longrightarrow> s < startAfter semis x))"
  using assms
proof (induction semis rule: rev_induct)
  case Nil
  then show ?case by (simp add: startAfter_def)
next
  case (snoc s semis)
  have st: "startAfter (semis @ [s]) x = (if s < x then s + 1 else startAfter semis x)"
    by (simp add: startAfter_def)
  have lt: "\<forall>r \<in> set semis. r < s" and so: "sorted_wrt (<) semis"
    using snoc.prems by (auto simp: sorted_wrt_append)
  show ?case
  proof (cases "s < x")
    case True
    then show ?thesis using lt by (auto simp: st)
  next
    case False
    then show ?thesis using snoc.IH [OF so] by (simp add: st) blast
  qed
qed

lemma firstFrom_first:
  assumes "sorted_wrt (<) semis"
  shows "(firstFrom semis x d = d \<and> (\<forall>s \<in> set semis. \<not> x \<le> s)) \<or>
    (firstFrom semis x d \<in> set semis \<and> x \<le> firstFrom semis x d \<and>
     (\<forall>s \<in> set semis. x \<le> s \<longrightarrow> firstFrom semis x d \<le> s))"
  using assms
proof (induction semis)
  case (Cons s semis)
  then show ?case by (cases "x \<le> s") auto
qed simp

lemma StatementRangeAt_ok:
  assumes "lexer_lossless chroma buf" "StatementRangeAt chroma buf off = (a, b)"
  shows "0 \<le> a \<and> a \<le> b \<and> b \<le> len buf \<and>
    (a = 0 \<or> a - 1 \<in> set (semis_of chroma buf)) \<and>
    (b = len buf \<or> b \<in> set (semis_of chroma buf)) \<and>
    (\<forall>s \<in> set (semis_of chroma buf). \<not> (a \<le> s \<and> s < b)) \<and>
    a \<le> max 0 (min off (len buf)) \<and> max 0 (min off (len buf)) \<le> b + 1"
proof -
  let ?ss = "semis_of chroma buf"
  define x where "x = max 0 (min off (len buf))"
  have clamp: "(let runeOff = (if off < 0 then 0 else off) in if runeOff > len buf then len buf else runeOff) = x"
    by (auto simp: x_def Let_def)
  have x: "0 \<le> x" "x \<le> len buf" by (auto simp: x_def)
  note so = semis_of_ok(1) [OF assms(1)]
  have inr: "\<And>s. s \<in> set ?ss \<Longrightarrow> 0 \<le> s \<and> s < len buf" using semis_of_ok(2) [OF assms(1)] by blast
  note st = startAfter_last [OF so]
  note ff = firstFrom_first [OF so, of x "len buf"]
  have eq: "StatementRangeAt chroma buf off =
      (if ?ss = [] then (0, len buf)
       else if x \<in> set ?ss then (startAfter ?ss x, x)
       else if startAfter ?ss x \<ge> firstFrom ?ss x (len buf)
         then (startAfter ?ss (startAfter ?ss x - 1), startAfter ?ss x - 1)
         else (startAfter ?ss x, firstFrom ?ss x (len buf)))"
    using clamp by (simp add: StatementRangeAt_def semis_of_def Let_def)
  consider "?ss = []" | "?ss \<noteq> []" "x \<in> set ?ss"
    | "?ss \<noteq> []" "x \<notin> set ?ss" "startAfter ?ss x \<ge> firstFrom ?ss x (len buf)"
    | "?ss \<noteq> []" "x \<notin> set ?ss" "\<not> startAfter ?ss x \<ge> firstFrom ?ss x (len buf)" by blast
  then have "0 \<le> a \<and> a \<le> b \<and> b \<le> len buf \<and> (a = 0 \<or> a - 1 \<in> set ?ss) \<and>
    (b = len buf \<or> b \<in> set ?ss) \<and> (\<forall>s \<in> set ?ss. \<not> (a \<le> s \<and> s < b)) \<and> a \<le> x \<and> x \<le> b + 1"
  proof cases
    case 1
    then show ?thesis using eq assms(2) x by auto
  next
    case 2
    then have ab: "a = startAfter ?ss x" "b = x" using eq assms(2) by auto
    have "0 \<le> a \<and> a \<le> b" using st [of x] x inr [of "startAfter ?ss x - 1"] by (auto simp: ab)
    moreover have "a = 0 \<or> a - 1 \<in> set ?ss" using st [of x] by (auto simp: ab)
    moreover have "\<forall>s \<in> set ?ss. \<not> (a \<le> s \<and> s < b)" using st [of x] unfolding ab by fastforce
    ultimately show ?thesis using 2(2) x ab(2) by auto
  next
    case 3
    let ?s = "startAfter ?ss x - 1"
    have ab: "a = startAfter ?ss ?s" "b = ?s" using 3 eq assms(2) by auto
    have s: "?s \<in> set ?ss" "?s < x"
    proof -
      have "\<not> (startAfter ?ss x = 0 \<and> (\<forall>s \<in> set ?ss. \<not> s < x))"
      proof (intro notI; elim conjE)
        assume z: "startAfter ?ss x = 0" "\<forall>s \<in> set ?ss. \<not> s < x"
        obtain t where t: "t \<in> set ?ss" using 3(1) by (cases ?ss) auto
        from ff show False
          using z 3(2,3) t inr [OF t] x by (metis antisym leI le_less_trans order.trans)
      qed
      then show "?s \<in> set ?ss" "?s < x" using st [of x] by blast+
    qed
    have "x \<le> firstFrom ?ss x (len buf)" using ff x by auto
    then have xs: "x = ?s + 1" using 3(3) s by auto
    have "0 \<le> a \<and> a \<le> b" using st [of ?s] inr [OF s(1)] inr by (fastforce simp: ab)
    moreover have "a = 0 \<or> a - 1 \<in> set ?ss" using st [of ?s] by (auto simp: ab)
    moreover have "\<forall>s \<in> set ?ss. \<not> (a \<le> s \<and> s < b)" using st [of ?s] unfolding ab by fastforce
    ultimately show ?thesis using s xs ab x inr [OF s(1)] by auto
  next
    case 4
    have ab: "a = startAfter ?ss x" "b = firstFrom ?ss x (len buf)" using 4 eq assms(2) by auto
    have "0 \<le> a \<and> a \<le> x" using st [of x] x inr by (fastforce simp: ab)
    moreover have "a = 0 \<or> a - 1 \<in> set ?ss" using st [of x] by (auto simp: ab)
    moreover have "x \<le> b" "b \<le> len buf" "b = len buf \<or> b \<in> set ?ss" using ff x inr by (fastforce simp: ab)+
    moreover have "\<not> (a \<le> s \<and> s < b)" if "s \<in> set ?ss" for s
      using st [of x] ff that unfolding ab by (cases "s < x") fastforce+
    ultimately show ?thesis using 4 by auto
  qed
  then show ?thesis by (simp add: x_def)
qed

section \<open>Segments\<close>

lemma TrimSpace_Nil: "TrimSpace rs = [] \<longleftrightarrow> isBlank rs"
proof (cases "dropWhile unicode_IsSpace rs")
  case Nil
  then have "\<forall>r \<in> set rs. unicode_IsSpace r" by (simp add: dropWhile_eq_Nil_conv)
  then show ?thesis unfolding TrimSpace_def Nil by (simp add: isBlank_def list_all_iff)
next
  case (Cons y ys)
  then have "\<not> unicode_IsSpace y" "y \<in> set rs"
    using hd_dropWhile [of unicode_IsSpace rs] set_dropWhileD [of y unicode_IsSpace rs] by auto
  moreover from this Cons have "TrimSpace rs \<noteq> []"
    by (auto simp: TrimSpace_def dropWhile_eq_Nil_conv)
  ultimately show ?thesis by (auto simp: isBlank_def list_all_iff)
qed

text \<open>
  What \<open>SplitStatements\<close> returns, as ranges: the non-blank stretches between consecutive
  semicolons, in order.
\<close>

definition segment :: "runes \<Rightarrow> int \<times> int \<Rightarrow> runes" where
  "segment rs r = take (nat (snd r - fst r)) (drop (nat (fst r)) rs)"

definition segments_ok :: "runes \<Rightarrow> int list \<Rightarrow> int \<Rightarrow> (int \<times> int) list \<Rightarrow> bool" where
  "segments_ok rs semis start rr \<longleftrightarrow>
     sorted_wrt (\<lambda>p q. snd p < fst q) rr \<and>
     (\<forall>r \<in> set rr. start \<le> fst r \<and> fst r \<le> snd r \<and> snd r \<le> len rs \<and> \<not> isBlank (segment rs r) \<and>
        (\<forall>s \<in> set semis. \<not> (fst r \<le> s \<and> s < snd r))) \<and>
     (\<forall>i. start \<le> i \<and> i < len rs \<and> i \<notin> set semis \<and> \<not> unicode_IsSpace (rs ! nat i) \<longrightarrow>
        (\<exists>r \<in> set rr. fst r \<le> i \<and> i < snd r))"

lemma blank_segment:
  assumes "isBlank (segment rs (a, b))" "0 \<le> a" "a \<le> i" "i < b" "b \<le> len rs"
  shows "unicode_IsSpace (rs ! nat i)"
proof -
  have "nat i - nat a < length (segment rs (a, b))" using assms by (simp add: segment_def)
  then have "segment rs (a, b) ! (nat i - nat a) \<in> set (segment rs (a, b))" by (rule nth_mem)
  moreover have "segment rs (a, b) ! (nat i - nat a) = rs ! nat i"
    using assms by (simp add: segment_def)
  ultimately show ?thesis using assms(1) by (auto simp: isBlank_def list_all_iff)
qed

lemma splitSegments_ok:
  assumes "sorted_wrt (<) semis" "0 \<le> start" "start \<le> len rs" "\<forall>s \<in> set semis. start \<le> s \<and> s < len rs"
  shows "\<exists>rr. splitSegments rs start semis = Some (map (segment rs) rr) \<and> segments_ok rs semis start rr"
  using assms
proof (induction semis arbitrary: start)
  case Nil
  let ?seg = "segment rs (start, len rs)"
  have sl: "go_slice rs start (len rs) = Some ?seg" if "start < len rs"
    using Nil.prems by (simp add: go_slice_def segment_def nat_diff_distrib)
  show ?case
  proof (cases "isBlank ?seg")
    case True
    have "splitSegments rs start [] = Some (map (segment rs) [])"
      using True sl by (cases "start < len rs") (auto simp: TrimSpace_Nil)
    moreover have "segments_ok rs [] start []"
      using blank_segment [OF True Nil.prems(2)] by (auto simp: segments_ok_def)
    ultimately show ?thesis by blast
  next
    case False
    then have "start < len rs" by (cases "start < len rs") (auto simp: segment_def isBlank_def)
    then have "splitSegments rs start [] = Some (map (segment rs) [(start, len rs)])"
      using False sl by (simp add: TrimSpace_Nil)
    moreover have "segments_ok rs [] start [(start, len rs)]"
      using False Nil.prems by (auto simp: segments_ok_def)
    ultimately show ?thesis by blast
  qed
next
  case (Cons s semis)
  let ?seg = "segment rs (start, s)"
  have s: "start \<le> s" "s < len rs" using Cons.prems(4) by auto
  have sl: "go_slice rs start s = Some ?seg"
    using Cons.prems s by (simp add: go_slice_def segment_def nat_diff_distrib)
  have "\<forall>r \<in> set semis. s + 1 \<le> r \<and> r < len rs" using Cons.prems by auto
  then obtain rr where rr: "splitSegments rs (s + 1) semis = Some (map (segment rs) rr)"
    "segments_ok rs semis (s + 1) rr"
    using Cons.IH [of "s + 1"] Cons.prems s by auto
  let ?rr = "(if isBlank ?seg then [] else [(start, s)]) @ rr"
  have "splitSegments rs start (s # semis) = Some (map (segment rs) ?rr)"
    using sl rr(1) by (simp add: TrimSpace_Nil)
  moreover have "segments_ok rs (s # semis) start ?rr"
    unfolding segments_ok_def
  proof (intro conjI ballI allI impI)
    show "sorted_wrt (\<lambda>p q. snd p < fst q) ?rr"
      using rr(2) s by (auto simp: segments_ok_def)
  next
    fix r assume "r \<in> set ?rr"
    then consider "r = (start, s)" "\<not> isBlank ?seg" | "r \<in> set rr" by (auto split: if_splits)
    then show "start \<le> fst r" "fst r \<le> snd r" "snd r \<le> len rs" "\<not> isBlank (segment rs r)"
      using rr(2) s by (cases; force simp: segments_ok_def)+
    fix t assume "t \<in> set (s # semis)"
    then show "\<not> (fst r \<le> t \<and> t < snd r)"
      using \<open>r \<in> set ?rr\<close> rr(2) s Cons.prems(1) by (auto simp: segments_ok_def split: if_splits)
  next
    fix i assume i: "start \<le> i \<and> i < len rs \<and> i \<notin> set (s # semis) \<and> \<not> unicode_IsSpace (rs ! nat i)"
    show "\<exists>r \<in> set ?rr. fst r \<le> i \<and> i < snd r"
    proof (cases "i < s")
      case True
      then have "\<not> isBlank ?seg" using i blank_segment [of rs start s i] Cons.prems(2) s by auto
      then show ?thesis using True i by auto
    next
      case False
      then have "s + 1 \<le> i" using i by auto
      then show ?thesis using i rr(2) by (auto simp: segments_ok_def)
    qed
  qed
  ultimately show ?case by blast
qed

lemma SplitStatements_ok:
  assumes "lexer_lossless chroma buf"
  shows "\<exists>rr. SplitStatements chroma buf = Some (map (segment buf) rr) \<and>
    segments_ok buf (semis_of chroma buf) 0 rr"
proof -
  consider "isBlank buf" | "\<not> isBlank buf" "semis_of chroma buf = []"
    | "\<not> isBlank buf" "semis_of chroma buf \<noteq> []" by blast
  then show ?thesis
  proof cases
    case 1
    then have "segments_ok buf (semis_of chroma buf) 0 []"
      by (auto simp: segments_ok_def isBlank_def list_all_length)
    moreover have "SplitStatements chroma buf = Some (map (segment buf) [])"
      using 1 by (simp add: SplitStatements_def TrimSpace_Nil)
    ultimately show ?thesis by blast
  next
    case 2
    then have "segments_ok buf (semis_of chroma buf) 0 [(0, len buf)]"
      by (auto simp: segments_ok_def segment_def)
    moreover have "SplitStatements chroma buf = Some (map (segment buf) [(0, len buf)])"
      using 2 by (simp add: SplitStatements_def TrimSpace_Nil semis_of_def segment_def)
    ultimately show ?thesis by blast
  next
    case 3
    then have "SplitStatements chroma buf = splitSegments buf 0 (semis_of chroma buf)"
      by (simp add: SplitStatements_def TrimSpace_Nil semis_of_def)
    then show ?thesis
      using splitSegments_ok [of "semis_of chroma buf" 0 buf] semis_of_ok [OF assms] by simp
  qed
qed

section \<open>Properties\<close>

text \<open>A lexer for the witnesses: one token per rune, semicolons as punctuation.\<close>

definition rune_lexer :: chroma where
  "rune_lexer t = Some (map (\<lambda>r. (if r = semicolon then Punctuation else Identifier, [r])) t)"

lemma rune_lexer_lossless: "lexer_lossless rune_lexer t"
  by (simp add: lexer_lossless_def rune_lexer_def comp_def)

text \<open>
  For a lexer whose tokens spell the buffer, \<open>StatementRangeAt\<close> returns a stretch of the
  buffer bounded by semicolons or the ends, with no statement-separating semicolon inside it;
  it holds the (clamped) offset, except that just past a semicolon it may end one rune before
  it.  \<open>StatementAt\<close> never slices out of range and returns that stretch trimmed.
\<close>

theorem statement_range_bounds:
  assumes "lexer_lossless chroma buf" "StatementRangeAt chroma buf off = (a, b)"
  shows "0 \<le> a \<and> a \<le> b \<and> b \<le> len buf \<and>
    (a = 0 \<or> a - 1 \<in> set (semis_of chroma buf)) \<and>
    (b = len buf \<or> b \<in> set (semis_of chroma buf)) \<and>
    (\<forall>s \<in> set (semis_of chroma buf). \<not> (a \<le> s \<and> s < b)) \<and>
    a \<le> max 0 (min off (len buf)) \<and> max 0 (min off (len buf)) \<le> b + 1 \<and>
    (\<forall>k. StatementAt chroma buf k \<noteq> None)"
proof -
  have "StatementAt chroma buf k \<noteq> None" for k
  proof -
    obtain c d where cd: "StatementRangeAt chroma buf
        (runeCountPrefix buf (let o1 = (if k < 0 then 0 else k) in if o1 > utf8ByteLen buf then utf8ByteLen buf else o1)) = (c, d)"
      by (meson surj_pair)
    from StatementRangeAt_ok [OF assms(1) cd] cd show ?thesis
      by (simp add: StatementAt_def Let_def go_slice_def)
  qed
  then show ?thesis using StatementRangeAt_ok [OF assms] by blast
qed

theorem statement_range_bounds_witness:
  "StatementRangeAt rune_lexer [97, 59, 98, 99] 3 = (2, 4) \<and>
   (\<forall>k. StatementAt rune_lexer [97, 59, 98, 99] k \<noteq> None) \<and>
   (2 \<notin> set (semis_of rune_lexer [97, 59, 98, 99]))"
proof -
  have "StatementRangeAt rune_lexer [97, 59, 98, 99] 3 = (2, 4)"
    by (simp add: StatementRangeAt_def Tokenize_def rune_lexer_def semicolon_def
        semicolonRuneOffsets_def startAfter_def)
  then show ?thesis
    using statement_range_bounds [OF rune_lexer_lossless, of "[97, 59, 98, 99]" 3 2 4] by auto
qed



end
