(* ===== verification/EditorTextObject.thy ===== *)
theory EditorTextObject
  imports EditorMotionSpec EditorStatement
begin

text \<open>
  Text objects (\<open>pkg/gui/editor/textobject.go\<close>): the range of the quotes, brackets, word,
  paragraph or SQL statement around a position, \<open>None\<close> when there is none.  The lemmas say
  that every object is an ordered range inside the rows, that a bracket object is a matched
  pair around the cursor, and that positions and flat offsets convert back and forth.
\<close>

section \<open>Quotes\<close>

fun quoteCols :: "int \<Rightarrow> rune \<Rightarrow> line \<Rightarrow> int list" where
  "quoteCols i q [] = []"
| "quoteCols i q (r # rs) = (if r = q then [i] else []) @ quoteCols (i + 1) q rs"

fun pairAround :: "int \<Rightarrow> int list \<Rightarrow> (int \<times> int) option" where
  "pairAround col (a # c # rest) = (if col \<ge> a \<and> col \<le> c then Some (a, c) else pairAround col rest)"
| "pairAround col _ = None"

definition InnerQuote :: "line list \<Rightarrow> position \<Rightarrow> rune \<Rightarrow> erange option" where
  "InnerQuote ls p q =
     (if ls = [] \<or> Line p < 0 \<or> Line p \<ge> len ls then None
      else if Col p < 0 then None
      else let quotes = quoteCols 0 q (ls ! nat (Line p)) in
        if length quotes < 2 then None
        else case pairAround (Col p) quotes of
          Some (a, c) \<Rightarrow> Some (Chars (Pos (Line p) (a + 1)) (Pos (Line p) c))
        | None \<Rightarrow>
            if Col p < quotes ! 0
            then Some (Chars (Pos (Line p) (quotes ! 0 + 1)) (Pos (Line p) (quotes ! 1)))
            else None)"

definition AroundQuote :: "line list \<Rightarrow> position \<Rightarrow> rune \<Rightarrow> erange option" where
  "AroundQuote ls p q =
     (case InnerQuote ls p q of
        None \<Rightarrow> None
      | Some r \<Rightarrow> Some (r\<lparr>Start := (Start r)\<lparr>Col := Col (Start r) - 1\<rparr>,
                         End := (End r)\<lparr>Col := Col (End r) + 1\<rparr>\<rparr>))"

section \<open>Brackets\<close>

text \<open>
  One row of the backward search, from column \<open>n - 1\<close> down: the column of the first unmatched
  \<open>opn\<close>, or the depth to go on with in the row above.
\<close>

fun openInRow :: "rune \<Rightarrow> rune \<Rightarrow> line \<Rightarrow> nat \<Rightarrow> nat \<Rightarrow> nat + nat" where
  "openInRow opn cls rs 0 depth = Inr depth"
| "openInRow opn cls rs (Suc i) depth =
     (if rs ! i = cls then openInRow opn cls rs i (depth + 1)
      else if rs ! i = opn then
        (if depth = 0 then Inl i else openInRow opn cls rs i (depth - 1))
      else openInRow opn cls rs i depth)"

text \<open>The rows from \<open>l\<close> up, all but the first searched from their end.\<close>

fun openInRows :: "rune \<Rightarrow> rune \<Rightarrow> line list \<Rightarrow> nat \<Rightarrow> nat \<Rightarrow> nat \<Rightarrow> position option" where
  "openInRows opn cls ls l n depth =
     (case openInRow opn cls (ls ! l) n depth of
        Inl i \<Rightarrow> Some (Pos (int l) (int i))
      | Inr d \<Rightarrow> (case l of 0 \<Rightarrow> None
                 | Suc l' \<Rightarrow> openInRows opn cls ls l' (length (ls ! l')) d))"

declare openInRows.simps [simp del]

definition findEnclosingOpen :: "line list \<Rightarrow> position \<Rightarrow> rune \<Rightarrow> rune \<Rightarrow> position option" where
  "findEnclosingOpen ls p opn cls =
     (if ls = [] then None
      else let line = (if Line p < 0 then 0 else Line p);
               (line, col) = (if line \<ge> len ls then (len ls - 1, len (last ls)) else (line, Col p))
           in if runeAt ls (Pos line col) = Some opn then Some (Pos line col)
              else openInRows opn cls ls (nat line) (nat (min col (len (ls ! nat line)))) 0)"

fun closeInRow :: "rune \<Rightarrow> rune \<Rightarrow> line \<Rightarrow> int \<Rightarrow> nat \<Rightarrow> int + nat" where
  "closeInRow opn cls [] i depth = Inr depth"
| "closeInRow opn cls (r # rs) i depth =
     (if r = opn then closeInRow opn cls rs (i + 1) (depth + 1)
      else if r = cls then
        (if depth - 1 = 0 then Inl i else closeInRow opn cls rs (i + 1) (depth - 1))
      else closeInRow opn cls rs (i + 1) depth)"

fun closeInRows :: "rune \<Rightarrow> rune \<Rightarrow> line list \<Rightarrow> int \<Rightarrow> nat \<Rightarrow> position option" where
  "closeInRows opn cls [] l depth = None"
| "closeInRows opn cls (rs # ls) l depth =
     (case closeInRow opn cls rs 0 depth of
        Inl i \<Rightarrow> Some (Pos l i)
      | Inr d \<Rightarrow> closeInRows opn cls ls (l + 1) d)"

definition findMatchingClose :: "line list \<Rightarrow> position \<Rightarrow> rune \<Rightarrow> rune \<Rightarrow> position option" where
  "findMatchingClose ls p opn cls =
     (case drop (nat (Line p)) ls of
        [] \<Rightarrow> None
      | rs # rest \<Rightarrow>
          (case closeInRow opn cls (drop (nat (Col p + 1)) rs) (Col p + 1) 1 of
             Inl i \<Rightarrow> Some (Pos (Line p) i)
           | Inr d \<Rightarrow> closeInRows opn cls rest (Line p + 1) d))"

definition innerBracket :: "line list \<Rightarrow> position \<Rightarrow> rune \<Rightarrow> rune \<Rightarrow> erange option" where
  "innerBracket ls p opn cls =
     (case findEnclosingOpen ls p opn cls of
        None \<Rightarrow> None
      | Some o1 \<Rightarrow>
          (case findMatchingClose ls o1 opn cls of
             None \<Rightarrow> None
           | Some c1 \<Rightarrow> Some (Chars (Pos (Line o1) (Col o1 + 1)) c1)))"

definition aroundBracket :: "line list \<Rightarrow> position \<Rightarrow> rune \<Rightarrow> rune \<Rightarrow> erange option" where
  "aroundBracket ls p opn cls =
     (case findEnclosingOpen ls p opn cls of
        None \<Rightarrow> None
      | Some o1 \<Rightarrow>
          (case findMatchingClose ls o1 opn cls of
             None \<Rightarrow> None
           | Some c1 \<Rightarrow> Some (Chars o1 (Pos (Line c1) (Col c1 + 1)))))"

definition InnerParen :: "line list \<Rightarrow> position \<Rightarrow> erange option" where
  "InnerParen ls p = innerBracket ls p 40 41"

definition AroundParen :: "line list \<Rightarrow> position \<Rightarrow> erange option" where
  "AroundParen ls p = aroundBracket ls p 40 41"

definition InnerBracket :: "line list \<Rightarrow> position \<Rightarrow> erange option" where
  "InnerBracket ls p = innerBracket ls p 91 93"

definition AroundBracket :: "line list \<Rightarrow> position \<Rightarrow> erange option" where
  "AroundBracket ls p = aroundBracket ls p 91 93"

definition InnerBraces :: "line list \<Rightarrow> position \<Rightarrow> erange option" where
  "InnerBraces ls p = innerBracket ls p 123 125"

definition AroundBraces :: "line list \<Rightarrow> position \<Rightarrow> erange option" where
  "AroundBraces ls p = aroundBracket ls p 123 125"

section \<open>Words\<close>

text \<open>\<open>for start > 0 && P(runes[start-1]) { start-- }\<close> and \<open>for end < len && P(runes[end]) { end++ }\<close>.\<close>

fun runStart :: "(rune \<Rightarrow> bool) \<Rightarrow> line \<Rightarrow> nat \<Rightarrow> nat" where
  "runStart P rs 0 = 0"
| "runStart P rs (Suc i) = (if P (rs ! i) then runStart P rs i else Suc i)"

definition runEnd :: "(rune \<Rightarrow> bool) \<Rightarrow> line \<Rightarrow> nat \<Rightarrow> nat" where
  "runEnd P rs i = i + length (takeWhile P (drop i rs))"

definition innerWord :: "(rune \<Rightarrow> runeClass) \<Rightarrow> line list \<Rightarrow> position \<Rightarrow> erange option" where
  "innerWord classify ls p =
     (if ls = [] \<or> Line p < 0 \<or> Line p \<ge> len ls then None
      else let runes = ls ! nat (Line p) in
        if runes = [] then None
        else let col = nat (max (Col p) 0);
                 col = (if col \<ge> length runes then length runes - 1 else col);
                 cls = classify (runes ! col)
             in Some (Chars (Pos (Line p) (int (runStart (\<lambda>r. classify r = cls) runes col)))
                            (Pos (Line p) (int (runEnd (\<lambda>r. classify r = cls) runes (col + 1))))))"

definition aroundWord :: "(rune \<Rightarrow> runeClass) \<Rightarrow> line list \<Rightarrow> position \<Rightarrow> erange option" where
  "aroundWord classify ls p =
     (case innerWord classify ls p of
        None \<Rightarrow> None
      | Some inner \<Rightarrow>
          let runes = ls ! nat (Line (Start inner));
              s = nat (Col (Start inner)); e = nat (Col (End inner)) in
          if classify (runes ! s) = classSpace then
            Some (inner\<lparr>End := Pos (Line (End inner)) (int (runEnd (\<lambda>r. classify r \<noteq> classSpace) runes e))\<rparr>)
          else if e < length runes \<and> classify (runes ! e) = classSpace then
            Some (inner\<lparr>End := Pos (Line (End inner)) (int (runEnd (\<lambda>r. classify r = classSpace) runes e))\<rparr>)
          else
            Some (inner\<lparr>Start := Pos (Line (Start inner)) (int (runStart (\<lambda>r. classify r = classSpace) runes s))\<rparr>))"

definition InnerWord :: "unicode_tables \<Rightarrow> line list \<Rightarrow> position \<Rightarrow> erange option" where
  "InnerWord u = innerWord (classifyWord u)"

definition AroundWord :: "unicode_tables \<Rightarrow> line list \<Rightarrow> position \<Rightarrow> erange option" where
  "AroundWord u = aroundWord (classifyWord u)"

definition InnerWORD :: "line list \<Rightarrow> position \<Rightarrow> erange option" where
  "InnerWORD = innerWord classifyWORD"

definition AroundWORD :: "line list \<Rightarrow> position \<Rightarrow> erange option" where
  "AroundWORD = aroundWord classifyWORD"

section \<open>Paragraphs\<close>

fun rowsUp :: "(line \<Rightarrow> bool) \<Rightarrow> line list \<Rightarrow> nat \<Rightarrow> nat" where
  "rowsUp P ls 0 = 0"
| "rowsUp P ls (Suc i) = (if P (ls ! i) then rowsUp P ls i else Suc i)"

definition rowsDown :: "(line \<Rightarrow> bool) \<Rightarrow> line list \<Rightarrow> nat \<Rightarrow> nat" where
  "rowsDown P ls i = i + length (takeWhile P (drop (i + 1) ls))"

definition InnerParagraph :: "line list \<Rightarrow> position \<Rightarrow> erange option" where
  "InnerParagraph ls p =
     (if ls = [] \<or> Line p < 0 \<or> Line p \<ge> len ls then None
      else if isBlankLine (ls ! nat (Line p)) then None
      else let s = rowsUp (\<lambda>r. \<not> isBlankLine r) ls (nat (Line p));
               e = rowsDown (\<lambda>r. \<not> isBlankLine r) ls (nat (Line p))
           in Some (Chars (Pos (int s) 0) (Pos (int e) (len (ls ! e)))))"

definition AroundParagraph :: "line list \<Rightarrow> position \<Rightarrow> erange option" where
  "AroundParagraph ls p =
     (case InnerParagraph ls p of
        None \<Rightarrow> None
      | Some r \<Rightarrow>
          let e = rowsDown isBlankLine ls (nat (Line (End r))) in
          if int e = Line (End r) then
            Some (r\<lparr>Start := Pos (int (rowsUp isBlankLine ls (nat (Line (Start r))))) 0\<rparr>)
          else Some (r\<lparr>End := Pos (int e) (len (ls ! e))\<rparr>))"

section \<open>Statements\<close>

definition posToRuneOffset :: "line list \<Rightarrow> position \<Rightarrow> int" where
  "posToRuneOffset ls p =
     (let (line, col) = (if Line p < 0 then (0, 0) else (Line p, Col p));
          (line, col) = (if line \<ge> len ls then (len ls - 1, len (last ls)) else (line, col));
          m = len (ls ! nat line)
      in (\<Sum>row\<leftarrow>take (nat line) ls. len row + 1) + (if col > m then m else col))"

fun offsetInRows :: "line list \<Rightarrow> int \<Rightarrow> int \<Rightarrow> position option" where
  "offsetInRows [] i remaining = None"
| "offsetInRows (l # ls) i remaining =
     (if remaining \<le> len l then Some (Pos i remaining)
      else offsetInRows ls (i + 1) (remaining - (len l + 1)))"

definition runeOffsetToPos :: "line list \<Rightarrow> int \<Rightarrow> position" where
  "runeOffsetToPos ls off =
     (if off \<le> 0 then Pos 0 0
      else case offsetInRows ls 0 off of
        Some p \<Rightarrow> p
      | None \<Rightarrow> Pos (len ls - 1) (len (last ls)))"

text \<open>A rune compared with the newline is never one: rows hold none.\<close>

definition expandLeadingWhitespace :: "line list \<Rightarrow> position \<Rightarrow> position" where
  "expandLeadingWhitespace ls p =
     (if Line p < 0 \<or> Line p \<ge> len ls then p
      else let runes = ls ! nat (Line p) in
        if Col p - 1 \<ge> len runes then p
        else if Col p \<le> 0 then p
        else Pos (Line p) (int (runStart (\<lambda>r. unicode_IsSpace r \<and> r \<noteq> newline) runes (nat (Col p)))))"

definition statementRange :: "chroma \<Rightarrow> line list \<Rightarrow> position \<Rightarrow> bool \<Rightarrow> erange option" where
  "statementRange chroma ls p around =
     (if ls = [] then None
      else let buf = stringLocked ls in
        (case StatementRangeAt chroma buf (posToRuneOffset ls p) of (start, en) \<Rightarrow>
           let startPos = runeOffsetToPos ls start; endPos = runeOffsetToPos ls en in
           if \<not> around then
             (if \<not> posLess startPos endPos \<and> startPos \<noteq> endPos then None
              else Some (Chars startPos endPos))
           else
             let hasSemi = en < len buf \<and> buf ! nat en = semicolon;
                 endPos = (if hasSemi then runeOffsetToPos ls (en + 1) else endPos);
                 startPos = expandLeadingWhitespace ls startPos
             in if \<not> posLess startPos endPos \<and> startPos \<noteq> endPos then None
                else Some (Chars startPos endPos)))"

definition InnerStatement :: "chroma \<Rightarrow> line list \<Rightarrow> position \<Rightarrow> erange option" where
  "InnerStatement chroma ls p = statementRange chroma ls p False"

definition AroundStatement :: "chroma \<Rightarrow> line list \<Rightarrow> position \<Rightarrow> erange option" where
  "AroundStatement chroma ls p = statementRange chroma ls p True"

section \<open>Positions and offsets\<close>

lemma offset_less:
  assumes "positionInBoundsLocked ls s" "positionInBoundsLocked ls e" "posLess s e" "ls \<noteq> []"
  shows "offset ls s < offset ls e"
proof -
  have "\<not> posLess e s" by (rule posLess_antisym [OF assms(3)])
  from assms(1,2) this assms(4) show ?thesis
  proof (cases rule: in_bounds_pair)
    case (same xs l ys c d)
    then show ?thesis using assms(3) by (auto simp: posLess_def offset_def)
  next
    case (diff xs l mid m ys c d)
    have "offset ls e = length (lines_pre (xs @ l # mid)) + d"
      by (rule offset_split [of _ _ "m # ys"]) (simp_all add: diff)
    then show ?thesis using diff by (simp add: offset_def)
  qed
qed

lemma ordered_by_offset:
  "positionInBoundsLocked ls s \<Longrightarrow> positionInBoundsLocked ls e \<Longrightarrow> ls \<noteq> [] \<Longrightarrow> offset ls s \<le> offset ls e \<Longrightarrow>
   \<not> posLess e s"
  using offset_less [of ls e s] by auto

lemma offset_inj:
  "positionInBoundsLocked ls s \<Longrightarrow> positionInBoundsLocked ls e \<Longrightarrow> ls \<noteq> [] \<Longrightarrow> offset ls s = offset ls e \<Longrightarrow> s = e"
  using offset_less [of ls e s] offset_less [of ls s e] not_posLess_both by (metis less_irrefl)

lemma length_lines_pre: "len (lines_pre ls) = (\<Sum>row\<leftarrow>ls. len row + 1)"
  by (induction ls) simp_all

lemma posToRuneOffset_in:
  assumes "positionInBoundsLocked ls p" "ls \<noteq> []"
  shows "posToRuneOffset ls p = int (offset ls p)"
  using assms
proof (cases rule: in_bounds_cases)
  case (1 xs l ys c)
  then show ?thesis by (simp add: posToRuneOffset_def offset_def length_lines_pre)
qed

text \<open>Every offset of the text is that of a position inside the rows.\<close>

lemma offsetInRows_ok:
  "0 \<le> off \<Longrightarrow> off \<le> len (stringLocked ls) \<Longrightarrow> ls \<noteq> [] \<Longrightarrow>
   \<exists>xs l ys c. ls = xs @ l # ys \<and> c \<le> length l \<and> off = int (length (lines_pre xs) + c) \<and>
     offsetInRows ls i off = Some (Pos (i + len xs) (int c))"
proof (induction ls arbitrary: i off)
  case Nil
  then show ?case by simp
next
  case (Cons l ls)
  show ?case
  proof (cases "off \<le> len l")
    case True
    then show ?thesis using Cons.prems
      by (intro exI [of _ "[]"] exI [of _ l] exI [of _ ls] exI [of _ "nat off"]) auto
  next
    case False
    then have ne: "ls \<noteq> []" using Cons.prems by (cases ls) auto
    have "0 \<le> off - (len l + 1)" "off - (len l + 1) \<le> len (stringLocked ls)"
      using False Cons.prems ne by (auto simp: neq_Nil_conv)
    from Cons.IH [OF this ne, of "i + 1"] obtain xs m ys c where
      "ls = xs @ m # ys" "c \<le> length m" "off - (len l + 1) = int (length (lines_pre xs) + c)"
      "offsetInRows ls (i + 1) (off - (len l + 1)) = Some (Pos (i + 1 + len xs) (int c))" by blast
    then show ?thesis using False
      by (intro exI [of _ "l # xs"] exI [of _ m] exI [of _ ys] exI [of _ c]) (auto simp: algebra_simps)
  qed
qed

lemma runeOffsetToPos_in:
  assumes "0 \<le> off" "off \<le> len (stringLocked ls)" "ls \<noteq> []"
  shows "positionInBoundsLocked ls (runeOffsetToPos ls off) \<and> int (offset ls (runeOffsetToPos ls off)) = off"
proof (cases "off = 0")
  case True
  then have "runeOffsetToPos ls off = Pos 0 0" by (simp add: runeOffsetToPos_def)
  then show ?thesis using True assms(3) by (auto simp: positionInBoundsLocked_def offset_def)
next
  case False
  from offsetInRows_ok [OF assms, of 0] obtain xs l ys c where
    r: "ls = xs @ l # ys" "c \<le> length l" "off = int (length (lines_pre xs) + c)"
      "offsetInRows ls 0 off = Some (Pos (len xs) (int c))" by auto
  then have "runeOffsetToPos ls off = Pos (len xs) (int c)" using False assms(1) by (simp add: runeOffsetToPos_def)
  then show ?thesis using r by (simp add: offset_def)
qed

lemma runeOffsetToPos_inverse:
  "positionInBoundsLocked ls p \<Longrightarrow> ls \<noteq> [] \<Longrightarrow> runeOffsetToPos ls (posToRuneOffset ls p) = p"
  using runeOffsetToPos_in [of "int (offset ls p)" ls] offset_le_length [of ls p]
  by (auto simp: posToRuneOffset_in intro: offset_inj)

section \<open>Bracket balance\<close>

text \<open>The height of a text: its opening brackets less its closing ones.\<close>

definition height :: "rune \<Rightarrow> rune \<Rightarrow> runes \<Rightarrow> int" where
  "height opn cls w = int (count_list w opn) - int (count_list w cls)"

lemma height_simps [simp]:
  "height o1 c1 [] = 0" "height o1 c1 (u @ v) = height o1 c1 u + height o1 c1 v"
  "height o1 c1 (r # v) = (if r = o1 then 1 else 0) - (if r = c1 then 1 else 0) + height o1 c1 v"
  by (auto simp: height_def)

definition balanced :: "rune \<Rightarrow> rune \<Rightarrow> runes \<Rightarrow> bool" where
  "balanced opn cls w \<longleftrightarrow> height opn cls w = 0 \<and> (\<forall>u v. w = u @ v \<longrightarrow> 0 \<le> height opn cls u)"

lemma closeInRow_spec:
  assumes "o1 \<noteq> c1"
  shows "0 < d \<Longrightarrow> closeInRow o1 c1 w k d = Inl j \<Longrightarrow>
    \<exists>u v. w = u @ c1 # v \<and> j = k + len u \<and> int d + height o1 c1 u = 1 \<and>
      (\<forall>a b. u = a @ b \<longrightarrow> 1 \<le> int d + height o1 c1 a)"
proof (induction w arbitrary: k d)
  case Nil
  then show ?case by simp
next
  case (Cons r w)
  have *: ?case if "0 < d'" "int d' = int d + (if r = o1 then 1 else 0) - (if r = c1 then 1 else 0)"
    and "closeInRow o1 c1 w (k + 1) d' = Inl j" for d'
  proof -
    from Cons.IH [OF that(1,3)] obtain u v where uv: "w = u @ c1 # v" "j = k + 1 + len u"
      "int d' + height o1 c1 u = 1" "\<forall>a b. u = a @ b \<longrightarrow> 1 \<le> int d' + height o1 c1 a" by blast
    have "1 \<le> int d + height o1 c1 a" if "r # u = a @ b" for a b
      using that uv(4) Cons.prems(1) \<open>int d' = _\<close> by (cases a) (auto simp: algebra_simps)
    then show ?thesis using uv that(2)
      by (intro exI [of _ "r # u"] exI [of _ v]) (auto simp: algebra_simps)
  qed
  show ?case
  proof (cases "r = c1 \<and> d - 1 = 0")
    case True
    then show ?thesis using Cons.prems assms by (intro exI [of _ "[]"] exI [of _ w]) auto
  next
    case False
    show ?thesis
    proof (rule * [of "if r = o1 then d + 1 else if r = c1 then d - 1 else d"])
      show "0 < (if r = o1 then d + 1 else if r = c1 then d - 1 else d)"
        using Cons.prems(1) False by auto
      show "int (if r = o1 then d + 1 else if r = c1 then d - 1 else d) =
          int d + (if r = o1 then 1 else 0) - (if r = c1 then 1 else 0)"
        using Cons.prems(1) assms by auto
      show "closeInRow o1 c1 w (k + 1) (if r = o1 then d + 1 else if r = c1 then d - 1 else d) = Inl j"
        using Cons.prems(2) False by (auto split: if_splits)
    qed
  qed
qed

lemma openInRow_spec:
  assumes "o1 \<noteq> c1"
  shows "n \<le> length S \<Longrightarrow> openInRow o1 c1 S n d = Inl i \<Longrightarrow>
    i < n \<and> S ! i = o1 \<and> (let w = take (n - Suc i) (drop (Suc i) S) in
      height o1 c1 w = int d \<and> (\<forall>a b. w = a @ b \<longrightarrow> height o1 c1 b \<le> int d))"
proof (induction n arbitrary: d)
  case 0
  then show ?case by simp
next
  case (Suc n)
  have n: "n < length S" using Suc.prems by simp
  have *: ?case if d': "int d' = int d - height o1 c1 [S ! n]" and r: "openInRow o1 c1 S n d' = Inl i" for d'
  proof -
    from Suc.IH [OF _ r] n have ih: "i < n" "S ! i = o1"
      "height o1 c1 (take (n - Suc i) (drop (Suc i) S)) = int d'"
      "\<And>a b. take (n - Suc i) (drop (Suc i) S) = a @ b \<Longrightarrow> height o1 c1 b \<le> int d'"
      by (auto simp: Let_def)
    let ?w = "take (n - Suc i) (drop (Suc i) S)"
    have w: "take (Suc n - Suc i) (drop (Suc i) S) = ?w @ [S ! n]"
    proof -
      have "Suc n - Suc i = Suc (n - Suc i)" "n - Suc i < length (drop (Suc i) S)" using ih(1) n by auto
      then show ?thesis using ih(1) by (simp add: take_Suc_conv_app_nth del: diff_Suc_Suc)
    qed
    have "height o1 c1 b \<le> int d" if "?w @ [S ! n] = a @ b" for a b
    proof (cases b rule: rev_cases)
      case (snoc b' y)
      then have "?w = a @ b'" "y = S ! n" using that by auto
      then show ?thesis using ih(4) [of a b'] d' snoc by simp
    qed simp
    then show ?thesis using ih(1-3) d' unfolding w by (auto simp: Let_def)
  qed
  show ?case
  proof (cases "S ! n = o1 \<and> d = 0")
    case True
    then have "i = n" using Suc.prems(2) assms by simp
    then show ?thesis using True by simp
  next
    case False
    show ?thesis
      by (rule * [of "if S ! n = c1 then d + 1 else if S ! n = o1 then d - 1 else d"])
        (use False assms Suc.prems(2) in \<open>auto split: if_splits\<close>)
  qed
qed

text \<open>What the two scans enclose: the matched pair around an offset.\<close>

lemma matched_pair:
  assumes "o1 \<noteq> c1" "n \<le> length S" "openInRow o1 c1 S n 0 = Inl i"
    and "closeInRow o1 c1 (drop (Suc i) S) (int (Suc i)) 1 = Inl j"
  shows "\<exists>A M B. S = A @ o1 # M @ c1 # B \<and> balanced o1 c1 M \<and> length A = i \<and> nat j = i + 1 + length M \<and>
    i < n \<and> n \<le> nat j"
proof -
  from openInRow_spec [OF assms(1-3)] have i: "i < n" "S ! i = o1"
    and w: "height o1 c1 (take (n - Suc i) (drop (Suc i) S)) = 0"
      "\<And>a b. take (n - Suc i) (drop (Suc i) S) = a @ b \<Longrightarrow> height o1 c1 b \<le> 0"
    by (auto simp: Let_def)
  from closeInRow_spec [OF assms(1) _ assms(4)] obtain u v where
    u: "drop (Suc i) S = u @ c1 # v" "j = int (Suc i) + len u" "height o1 c1 u = 0"
      "\<And>a b. u = a @ b \<Longrightarrow> 0 \<le> height o1 c1 a" by fastforce
  have S: "S = take i S @ o1 # u @ c1 # v"
    using i assms(2) u(1) id_take_nth_drop [of i S] by simp
  have "n - Suc i \<le> length u"
  proof (rule ccontr)
    assume "\<not> n - Suc i \<le> length u"
    then have "take (n - Suc i) (drop (Suc i) S) = u @ c1 # take (n - Suc i - Suc (length u)) v"
      by (simp add: u(1) take_Cons' Suc_diff_Suc)
    then have "height o1 c1 (take (n - Suc i - Suc (length u)) v) \<le> 0"
      and "height o1 c1 u - 1 + height o1 c1 (take (n - Suc i - Suc (length u)) v) = 0"
      using w(1) w(2) [of "u @ [c1]"] assms(1) by simp_all
    then show False using u(3) by simp
  qed
  moreover have "balanced o1 c1 u" using u(3,4) by (auto simp: balanced_def)
  ultimately show ?thesis using S i assms(2) u(2)
    by (intro exI [of _ "take i S"] exI [of _ u] exI [of _ v]) auto
qed

section \<open>Bracket objects\<close>

lemma openInRow_segment:
  "n \<le> length row \<Longrightarrow> openInRow o1 c1 (pre @ row @ post) (length pre + n) d =
     (case openInRow o1 c1 row n d of Inl i \<Rightarrow> Inl (length pre + i)
      | Inr d' \<Rightarrow> openInRow o1 c1 (pre @ row @ post) (length pre) d')"
proof (induction n arbitrary: d)
  case (Suc n)
  then have "(pre @ row @ post) ! (length pre + n) = row ! n" by (simp add: nth_append)
  then show ?case using Suc by simp
qed simp

lemma openInRows_flat:
  assumes "newline \<noteq> o1" "newline \<noteq> c1"
  shows "ls = xs @ row # ys \<Longrightarrow> n \<le> length row \<Longrightarrow> openInRows o1 c1 ls (length xs) n d = Some q \<Longrightarrow>
    \<exists>i ws r zs k. openInRow o1 c1 (stringLocked ls) (length (lines_pre xs) + n) d = Inl i \<and>
      ls = ws @ r # zs \<and> k < length r \<and> q = Pos (len ws) (int k) \<and> i = length (lines_pre ws) + k"
proof (induction xs arbitrary: row ys n d rule: rev_induct)
  case Nil
  let ?S = "stringLocked ls"
  have S: "?S = [] @ row @ lines_post ys" using Nil.prems(1) by (simp add: stringLocked_Cons)
  from Nil.prems(1,3) obtain k where k: "openInRow o1 c1 row n d = Inl k" "q = Pos 0 (int k)"
    by (subst (asm) openInRows.simps) (auto split: sum.splits)
  have bound: "openInRow o1 c1 row n d = Inl k \<Longrightarrow> k < n" for n d
    by (induction n arbitrary: d) (fastforce split: if_splits)+
  have "openInRow o1 c1 ?S (length (lines_pre []) + n) d = Inl k"
    using openInRow_segment [OF Nil.prems(2), of o1 c1 "[]" "lines_post ys" d] k(1) unfolding S by simp
  then show ?case using Nil.prems(1,2) k bound [OF k(1)]
    by (intro exI [of _ k] exI [of _ "[]"] exI [of _ row] exI [of _ ys] exI [of _ k]) simp
next
  case (snoc m xs)
  let ?S = "stringLocked ls" and ?pre = "lines_pre (xs @ [m])"
  have S: "?S = ?pre @ row @ lines_post ys" using snoc.prems(1) by (simp add: stringLocked_middle)
  note seg = openInRow_segment [OF snoc.prems(2), of o1 c1 ?pre "lines_post ys" d, folded S]
  have row: "ls ! length (xs @ [m]) = row" using snoc.prems(1) by (simp add: nth_append)
  show ?case
  proof (cases "openInRow o1 c1 row n d")
    case (Inl k)
    have bound: "openInRow o1 c1 row n d = Inl k \<Longrightarrow> k < n" for n d
      by (induction n arbitrary: d) (fastforce split: if_splits)+
    have "q = Pos (len (xs @ [m])) (int k)"
      using snoc.prems(3) Inl row by (subst (asm) openInRows.simps) simp
    then show ?thesis using snoc.prems(1,2) Inl bound [OF Inl] seg
      by (intro exI [of _ "length ?pre + k"] exI [of _ "xs @ [m]"] exI [of _ row] exI [of _ ys] exI [of _ k]) simp
  next
    case (Inr d')
    have m: "ls ! length xs = m" using snoc.prems(1) by (simp add: nth_append)
    have up: "openInRows o1 c1 ls (length xs) (length m) d' = Some q"
      using snoc.prems(3) Inr row m by (subst (asm) openInRows.simps) simp
    have "?S ! (length (lines_pre xs) + length m) = newline" unfolding S by (simp add: nth_append)
    then have "openInRow o1 c1 ?S (length ?pre) d' = openInRow o1 c1 ?S (length (lines_pre xs) + length m) d'"
      using assms by simp
    then have "openInRow o1 c1 ?S (length ?pre + n) d = openInRow o1 c1 ?S (length (lines_pre xs) + length m) d'"
      using seg Inr by simp
    moreover have "ls = xs @ m # (row # ys)" using snoc.prems(1) by simp
    ultimately show ?thesis using snoc.IH [of m "row # ys" "length m" d'] up by simp
  qed
qed

lemma closeInRow_append:
  "closeInRow o1 c1 (u @ v) k d =
     (case closeInRow o1 c1 u k d of Inl j \<Rightarrow> Inl j | Inr d' \<Rightarrow> closeInRow o1 c1 v (k + len u) d')"
proof (induction u arbitrary: k d)
  case (Cons a u)
  have "k + 1 + len u = k + len (a # u)" by simp
  then show ?case using Cons by (simp only: append_Cons closeInRow.simps Cons) (auto split: sum.splits)
qed simp

lemma closeInRow_shift:
  "closeInRow o1 c1 w (k + l) d = (case closeInRow o1 c1 w l d of Inl j \<Rightarrow> Inl (k + j) | Inr d' \<Rightarrow> Inr d')"
  by (induction w arbitrary: l d) (auto simp: add.assoc)

lemma closeInRow_bound: "closeInRow o1 c1 w k d = Inl j \<Longrightarrow> k \<le> j \<and> j < k + len w"
  by (induction w arbitrary: k d) (fastforce split: if_splits)+

lemma closeInRows_flat:
  assumes "newline \<noteq> o1" "newline \<noteq> c1"
  shows "ls = xs @ rows \<Longrightarrow> closeInRows o1 c1 rows (len xs) d = Some q \<Longrightarrow>
    \<exists>j ws r zs k. closeInRow o1 c1 (lines_post rows) (len (lines_pre xs) - 1) d = Inl j \<and>
      ls = ws @ r # zs \<and> k < length r \<and> q = Pos (len ws) (int k) \<and> j = len (lines_pre ws) + int k"
proof (induction rows arbitrary: xs d)
  case Nil
  then show ?case by simp
next
  case (Cons row rows)
  have flat: "closeInRow o1 c1 (lines_post (row # rows)) (len (lines_pre xs) - 1) d =
      (case closeInRow o1 c1 row 0 d of Inl j \<Rightarrow> Inl (len (lines_pre xs) + j)
       | Inr d' \<Rightarrow> closeInRow o1 c1 (lines_post rows) (len (lines_pre (xs @ [row])) - 1) d')"
    using assms closeInRow_shift [of o1 c1 row "len (lines_pre xs)" 0 d]
    by (auto simp: closeInRow_append algebra_simps split: sum.splits)
  show ?case
  proof (cases "closeInRow o1 c1 row 0 d")
    case (Inl i)
    then have "q = Pos (len xs) i" using Cons.prems(2) by simp
    then show ?thesis using flat Inl closeInRow_bound [OF Inl] Cons.prems(1)
      by (intro exI [of _ "len (lines_pre xs) + i"] exI [of _ xs] exI [of _ row] exI [of _ rows] exI [of _ "nat i"]) auto
  next
    case (Inr d')
    then have "closeInRows o1 c1 rows (len (xs @ [row])) d' = Some q"
      using Cons.prems(2) by (simp add: add.commute)
    then show ?thesis using Cons.IH [of "xs @ [row]" d'] Cons.prems(1) flat Inr by simp
  qed
qed

lemma findMatchingClose_flat:
  assumes "newline \<noteq> o1" "newline \<noteq> c1" "ls = xs @ row # ys" "i < length row"
    and "findMatchingClose ls (Pos (len xs) (int i)) o1 c1 = Some q"
  defines "a \<equiv> length (lines_pre xs) + i"
  shows "\<exists>j ws r zs k. closeInRow o1 c1 (drop (Suc a) (stringLocked ls)) (int (Suc a)) 1 = Inl j \<and>
      ls = ws @ r # zs \<and> k < length r \<and> q = Pos (len ws) (int k) \<and> j = len (lines_pre ws) + int k"
proof -
  have S: "drop (Suc a) (stringLocked ls) = drop (Suc i) row @ lines_post ys"
    using assms(3,4) by (simp add: stringLocked_middle a_def)
  let ?c = "closeInRow o1 c1 (drop (Suc i) row) (int i + 1) 1"
  have shift: "closeInRow o1 c1 (drop (Suc i) row) (int (Suc a)) 1 =
      (case ?c of Inl j \<Rightarrow> Inl (len (lines_pre xs) + j) | Inr d' \<Rightarrow> Inr d')"
    using closeInRow_shift [of o1 c1 "drop (Suc i) row" "len (lines_pre xs)" "int i + 1" 1]
    by (simp add: a_def algebra_simps)
  have len: "int (Suc a) + len (drop (Suc i) row) = len (lines_pre (xs @ [row])) - 1"
    using assms(4) by (simp add: a_def)
  have fm: "findMatchingClose ls (Pos (len xs) (int i)) o1 c1 =
      (case ?c of Inl j \<Rightarrow> Some (Pos (len xs) j) | Inr d \<Rightarrow> closeInRows o1 c1 ys (len (xs @ [row])) d)"
    by (simp add: findMatchingClose_def assms(3) nat_add_distrib add.commute split: sum.splits)
  show ?thesis
  proof (cases ?c)
    case (Inl j)
    then have "q = Pos (len xs) j" using fm assms(5) by simp
    moreover have "int i + 1 \<le> j" "j < len row" using closeInRow_bound [OF Inl] assms(4) by auto
    moreover have "closeInRow o1 c1 (drop (Suc a) (stringLocked ls)) (int (Suc a)) 1 = Inl (len (lines_pre xs) + j)"
      unfolding S closeInRow_append using shift Inl by simp
    ultimately show ?thesis using assms(3)
      by (intro exI [of _ "len (lines_pre xs) + j"] exI [of _ xs] exI [of _ row] exI [of _ ys] exI [of _ "nat j"]) auto
  next
    case (Inr d')
    then have "closeInRows o1 c1 ys (len (xs @ [row])) d' = Some q" using fm assms(5) by simp
    from closeInRows_flat [OF assms(1,2) _ this] assms(3) show ?thesis
      unfolding S closeInRow_append len using shift Inr len by simp
  qed
qed

lemma findEnclosingOpen_flat:
  assumes "newline \<noteq> o1" "newline \<noteq> c1" "o1 \<noteq> 32" "ls \<noteq> []" "positionInBoundsLocked ls p"
    and "findEnclosingOpen ls p o1 c1 = Some q"
  shows "\<exists>ws r zs k. ls = ws @ r # zs \<and> k < length r \<and> q = Pos (len ws) (int k) \<and>
    (offset ls p = length (lines_pre ws) + k \<and> r ! k = o1 \<or>
     openInRow o1 c1 (stringLocked ls) (offset ls p) 0 = Inl (length (lines_pre ws) + k))"
  using assms(5,4)
proof (cases rule: in_bounds_cases)
  case (1 xs l ys c)
  have o: "offset ls p = length (lines_pre xs) + c" using 1 by (simp add: offset_def)
  show ?thesis
  proof (cases "runeAt ls p = Some o1")
    case True
    then have "c < length l \<and> l ! c = o1" using 1 assms(3) by (auto simp: runeAt_def Let_def split: if_splits)
    moreover have "q = p" using True 1 assms(6) by (simp add: findEnclosingOpen_def)
    ultimately show ?thesis using 1 o by blast
  next
    case False
    have "openInRows o1 c1 ls (length xs) c 0 = Some q"
      using False 1 assms(6) by (simp add: findEnclosingOpen_def min_def split: if_splits)
    from openInRows_flat [OF assms(1,2) 1(1) _ this] 1(3) o show ?thesis by fastforce
  qed
qed

lemma bracket_flat:
  assumes "newline \<noteq> o1" "newline \<noteq> c1" "o1 \<noteq> 32" "o1 \<noteq> c1" "ls \<noteq> []" "positionInBoundsLocked ls p"
    and "findEnclosingOpen ls p o1 c1 = Some q" "findMatchingClose ls q o1 c1 = Some e"
  shows "\<exists>A M B. stringLocked ls = A @ o1 # M @ c1 # B \<and> balanced o1 c1 M \<and>
    length A \<le> offset ls p \<and> offset ls p \<le> length A + 1 + length M \<and>
    (\<forall>d \<in> {0, 1}. positionInBoundsLocked ls (Pos (Line q) (Col q + int d)) \<and>
       offset ls (Pos (Line q) (Col q + int d)) = length A + d \<and>
       positionInBoundsLocked ls (Pos (Line e) (Col e + int d)) \<and>
       offset ls (Pos (Line e) (Col e + int d)) = length A + 1 + length M + d)"
proof -
  let ?S = "stringLocked ls"
  from findEnclosingOpen_flat [OF assms(1-3,5-7)] obtain ws r zs k where
    q: "ls = ws @ r # zs" "k < length r" "q = Pos (len ws) (int k)" and
    op: "offset ls p = length (lines_pre ws) + k \<and> r ! k = o1 \<or>
      openInRow o1 c1 ?S (offset ls p) 0 = Inl (length (lines_pre ws) + k)" by blast
  let ?i = "length (lines_pre ws) + k"
  from findMatchingClose_flat [OF assms(1,2) q(1,2), of e] assms(8) q(3) obtain j ws' r' zs' k' where
    e: "closeInRow o1 c1 (drop (Suc ?i) ?S) (int (Suc ?i)) 1 = Inl j"
      "ls = ws' @ r' # zs'" "k' < length r'" "e = Pos (len ws') (int k')" "j = len (lines_pre ws') + int k'" by blast
  have Sk: "?S ! ?i = r ! k" "?i < length ?S" using q by (simp_all add: stringLocked_middle nth_append)
  obtain A M B where amb: "?S = A @ o1 # M @ c1 # B" "balanced o1 c1 M" "length A = ?i"
    "nat j = ?i + 1 + length M" "?i \<le> offset ls p" "offset ls p \<le> nat j"
  proof (cases "openInRow o1 c1 ?S (offset ls p) 0 = Inl ?i")
    case True
    from matched_pair [OF assms(4) offset_le_length [OF assms(6)] True e(1)] show ?thesis
      using that by (metis order_less_imp_le)
  next
    case False
    then have at: "offset ls p = ?i" "r ! k = o1" using op by auto
    have "openInRow o1 c1 ?S (Suc ?i) 0 = Inl ?i" using Sk at assms(4) by simp
    from matched_pair [OF assms(4) _ this e(1)] Sk(2) show ?thesis using that at by auto
  qed
  have qd: "positionInBoundsLocked ls (Pos (Line q) (Col q + int d)) \<and>
      offset ls (Pos (Line q) (Col q + int d)) = ?i + d" if "d \<le> 1" for d
    using q that by (simp add: offset_def flip: of_nat_add)
  have ed: "positionInBoundsLocked ls (Pos (Line e) (Col e + int d)) \<and>
      offset ls (Pos (Line e) (Col e + int d)) = nat j + d" if "d \<le> 1" for d
    using e(2-5) that by (simp add: offset_def nat_add_distrib flip: of_nat_add)
  show ?thesis
    by (rule exI [of _ A], rule exI [of _ M], rule exI [of _ B])
      (use amb qd [of 0] qd [of 1] ed [of 0] ed [of 1] in auto)
qed

lemma Pos_eta [simp]: "Pos (Line p) (Col p) = p"
  by (cases p) simp

section \<open>Every object is a range of the rows\<close>

definition range_ok :: "line list \<Rightarrow> erange \<Rightarrow> bool" where
  "range_ok ls r \<longleftrightarrow> \<not> LineWise r \<and> \<not> BlockWise r \<and> rangeInBoundsLocked ls r"

lemma range_ok_chars:
  "range_ok ls (Chars s e) \<longleftrightarrow> positionInBoundsLocked ls s \<and> positionInBoundsLocked ls e \<and> \<not> posLess e s"
  by (auto simp: range_ok_def rangeInBoundsLocked_def)

lemma range_ok_row:
  "0 \<le> l \<Longrightarrow> l < len ls \<Longrightarrow> 0 \<le> a \<Longrightarrow> a \<le> b \<Longrightarrow> b \<le> len (ls ! nat l) \<Longrightarrow> range_ok ls (Chars (Pos l a) (Pos l b))"
  by (auto simp: range_ok_chars positionInBoundsLocked_def posLess_def)

lemma quoteCols_ok:
  "sorted_wrt (<) (quoteCols i q rs) \<and> (\<forall>x \<in> set (quoteCols i q rs). i \<le> x \<and> x < i + len rs)"
proof (induction rs arbitrary: i)
  case (Cons r rs)
  then show ?case using Cons [of "i + 1"] by fastforce
qed simp

lemma pairAround_ok:
  "sorted_wrt (<) cs \<Longrightarrow> pairAround col cs = Some (a, c) \<Longrightarrow> a \<in> set cs \<and> c \<in> set cs \<and> a < c"
  by (induction col cs rule: pairAround.induct) (auto split: if_splits)

lemma InnerQuote_cols:
  assumes "InnerQuote ls p q = Some r"
  shows "\<exists>a c. r = Chars (Pos (Line p) (a + 1)) (Pos (Line p) c) \<and> 0 \<le> Line p \<and> Line p < len ls \<and>
    0 \<le> a \<and> a < c \<and> c < len (ls ! nat (Line p))"
proof -
  let ?qs = "quoteCols 0 q (ls ! nat (Line p))"
  note qs = quoteCols_ok [of 0 q "ls ! nat (Line p)"]
  from assms consider a c where "pairAround (Col p) ?qs = Some (a, c)" "r = Chars (Pos (Line p) (a + 1)) (Pos (Line p) c)"
    "0 \<le> Line p" "Line p < len ls"
    | "\<not> length ?qs < 2" "r = Chars (Pos (Line p) (?qs ! 0 + 1)) (Pos (Line p) (?qs ! 1))"
      "0 \<le> Line p" "Line p < len ls"
    by (auto simp: InnerQuote_def Let_def split: if_splits option.splits)
  then show ?thesis
  proof cases
    case 1
    then show ?thesis using pairAround_ok [OF _ 1(1)] qs by (intro exI [of _ a] exI [of _ c]) auto
  next
    case 2
    then obtain x y zs where xy: "?qs = x # y # zs" by (cases ?qs; cases "tl ?qs") auto
    show ?thesis using qs 2(2-4) unfolding xy by (intro exI [of _ x] exI [of _ y]) auto
  qed
qed

lemma quote_ok: "InnerQuote ls p q = Some r \<Longrightarrow> range_ok ls r" "AroundQuote ls p q = Some r \<Longrightarrow> range_ok ls r"
  by (auto simp: AroundQuote_def dest!: InnerQuote_cols intro!: range_ok_row split: option.splits)

lemma runStart_le: "runStart P rs i \<le> i"
  by (induction i) (auto simp: le_SucI)

lemma runEnd_ge: "i \<le> length rs \<Longrightarrow> i \<le> runEnd P rs i \<and> runEnd P rs i \<le> length rs"
  using length_takeWhile_le [of P "drop i rs"] by (auto simp: runEnd_def)

lemma innerWord_cols:
  assumes "innerWord cls ls p = Some r"
  shows "\<exists>a b. r = Chars (Pos (Line p) (int a)) (Pos (Line p) (int b)) \<and> 0 \<le> Line p \<and> Line p < len ls \<and>
    a < b \<and> b \<le> length (ls ! nat (Line p))"
proof -
  let ?rs = "ls ! nat (Line p)"
  define col where "col = (let col = nat (max (Col p) 0) in if col \<ge> length ?rs then length ?rs - 1 else col)"
  from assms have r: "0 \<le> Line p" "Line p < len ls" "?rs \<noteq> []"
    "r = Chars (Pos (Line p) (int (runStart (\<lambda>r. cls r = cls (?rs ! col)) ?rs col)))
      (Pos (Line p) (int (runEnd (\<lambda>r. cls r = cls (?rs ! col)) ?rs (col + 1))))"
    by (auto simp: innerWord_def Let_def col_def split: if_splits)
  have "col + 1 \<le> length ?rs" using r(3) by (auto simp: col_def Let_def Suc_le_eq)
  from runEnd_ge [OF this, of "\<lambda>r. cls r = cls (?rs ! col)"]
    runStart_le [of "\<lambda>r. cls r = cls (?rs ! col)" ?rs col] r show ?thesis by fastforce
qed

lemma word_ok: "innerWord cls ls p = Some r \<Longrightarrow> range_ok ls r" "aroundWord cls ls p = Some r \<Longrightarrow> range_ok ls r"
proof -
  show "innerWord cls ls p = Some r \<Longrightarrow> range_ok ls r"
    by (auto dest!: innerWord_cols intro!: range_ok_row)
  assume a: "aroundWord cls ls p = Some r"
  then obtain i where i: "innerWord cls ls p = Some i" by (auto simp: aroundWord_def split: option.splits)
  from innerWord_cols [OF i] obtain x y where
    xy: "i = Chars (Pos (Line p) (int x)) (Pos (Line p) (int y))" "0 \<le> Line p" "Line p < len ls"
      "x < y" "y \<le> length (ls ! nat (Line p))" by blast
  let ?rs = "ls ! nat (Line p)"
  have re: "y \<le> runEnd P ?rs y \<and> runEnd P ?rs y \<le> length ?rs" for P by (rule runEnd_ge [OF xy(5)])
  have "runStart P ?rs x \<le> y" for P using runStart_le [of P ?rs x] xy(4) by simp
  with re a i xy show "range_ok ls r"
    by (auto simp: aroundWord_def Let_def intro!: range_ok_row split: if_splits) (meson le_trans less_imp_le)+
qed

lemma rowsUp_le: "rowsUp P ls i \<le> i"
  by (induction i) (auto simp: le_SucI)

lemma rowsDown_ge: "i < length ls \<Longrightarrow> i \<le> rowsDown P ls i \<and> rowsDown P ls i < length ls"
  using length_takeWhile_le [of P "drop (i + 1) ls"] by (auto simp: rowsDown_def)

lemma rows_range_ok:
  "s \<le> e \<Longrightarrow> e < length ls \<Longrightarrow> range_ok ls (Chars (Pos (int s) 0) (Pos (int e) (len (ls ! e))))"
  by (auto simp: range_ok_chars positionInBoundsLocked_def posLess_def)

lemma paragraph_ok: "InnerParagraph ls p = Some r \<Longrightarrow> range_ok ls r" "AroundParagraph ls p = Some r \<Longrightarrow> range_ok ls r"
proof -
  have inner: "\<exists>s e. r = Chars (Pos (int s) 0) (Pos (int e) (len (ls ! e))) \<and> s \<le> e \<and> e < length ls"
    if "InnerParagraph ls p = Some r" for r
  proof -
    let ?l = "nat (Line p)"
    have l: "?l < length ls" using that by (auto simp: InnerParagraph_def split: if_splits)
    have "r = Chars (Pos (int (rowsUp (\<lambda>r. \<not> isBlankLine r) ls ?l)) 0)
        (Pos (int (rowsDown (\<lambda>r. \<not> isBlankLine r) ls ?l)) (len (ls ! rowsDown (\<lambda>r. \<not> isBlankLine r) ls ?l)))"
      using that by (auto simp: InnerParagraph_def Let_def split: if_splits)
    then show ?thesis using rowsUp_le [of _ ls ?l] rowsDown_ge [OF l] by (metis le_trans)
  qed
  then show "InnerParagraph ls p = Some r \<Longrightarrow> range_ok ls r" by (auto dest!: inner intro!: rows_range_ok)
  assume a: "AroundParagraph ls p = Some r"
  then obtain i where i: "InnerParagraph ls p = Some i" by (auto simp: AroundParagraph_def split: option.splits)
  from inner [OF i] obtain s e where
    se: "i = Chars (Pos (int s) 0) (Pos (int e) (len (ls ! e)))" "s \<le> e" "e < length ls" by blast
  have "rowsUp isBlankLine ls s \<le> e" using rowsUp_le [of isBlankLine ls s] se(2) by simp
  moreover have "s \<le> rowsDown isBlankLine ls e" "rowsDown isBlankLine ls e < length ls"
    using rowsDown_ge [OF se(3), of isBlankLine] se(2) by auto
  ultimately show "range_ok ls r" using a i se
    by (auto simp: AroundParagraph_def Let_def intro!: rows_range_ok split: if_splits)
qed

lemma runeOffsetToPos_any:
  assumes "ls \<noteq> []"
  shows "positionInBoundsLocked ls (runeOffsetToPos ls off)"
proof (cases "0 \<le> off \<and> off \<le> len (stringLocked ls)")
  case True
  then show ?thesis using runeOffsetToPos_in assms by blast
next
  case False
  have past: "offsetInRows ms i k = None" if "len (stringLocked ms) < k" for ms i k
    using that
  proof (induction ms arbitrary: i k)
    case (Cons m ms)
    then show ?case by (cases ms) auto
  qed simp
  show ?thesis
  proof (cases "off \<le> 0")
    case True
    then show ?thesis using assms by (auto simp: runeOffsetToPos_def positionInBoundsLocked_def)
  next
    case f: False
    have "positionInBoundsLocked (butlast ls @ [last ls]) (Pos (len (butlast ls)) (int (length (last ls))))"
      unfolding in_bounds_middle by simp
    moreover have "len (butlast ls) = len ls - 1" using assms by (simp add: of_nat_diff Suc_le_eq)
    ultimately show ?thesis using f False past [of ls off 0] assms
      by (simp add: runeOffsetToPos_def)
  qed
qed

lemma expand_ok:
  assumes "positionInBoundsLocked ls p"
  shows "positionInBoundsLocked ls (expandLeadingWhitespace ls p)"
proof -
  let ?k = "runStart (\<lambda>r. unicode_IsSpace r \<and> r \<noteq> newline) (ls ! nat (Line p)) (nat (Col p))"
  have "?k \<le> nat (Col p)" by (rule runStart_le)
  then have "int ?k \<le> max 0 (Col p)" by linarith
  with assms show ?thesis
    by (auto simp: expandLeadingWhitespace_def positionInBoundsLocked_def Let_def split: if_splits)
qed

lemma statement_ok: "statementRange chroma ls p a = Some r \<Longrightarrow> range_ok ls r"
proof -
  assume s: "statementRange chroma ls p a = Some r"
  then have ne: "ls \<noteq> []" by (auto simp: statementRange_def)
  have "\<exists>s e. r = Chars s e \<and> positionInBoundsLocked ls s \<and> positionInBoundsLocked ls e \<and> \<not> (\<not> posLess s e \<and> s \<noteq> e)"
    using s runeOffsetToPos_any [OF ne] expand_ok
    by (auto simp: statementRange_def Let_def split: prod.splits if_splits)
  then show ?thesis using posLess_antisym by (auto simp: range_ok_chars)
qed

lemma bracket_ok:
  assumes "newline \<noteq> o1" "newline \<noteq> c1" "o1 \<noteq> 32" "o1 \<noteq> c1" "positionInBoundsLocked ls p"
  shows "innerBracket ls p o1 c1 = Some r \<Longrightarrow> range_ok ls r" "aroundBracket ls p o1 c1 = Some r \<Longrightarrow> range_ok ls r"
proof -
  have main: "range_ok ls (Chars (Pos (Line q) (Col q + int d)) (Pos (Line e) (Col e + int (1 - d))))"
    if f: "findEnclosingOpen ls p o1 c1 = Some q" "findMatchingClose ls q o1 c1 = Some e" and d: "d \<in> {0, 1}" for q e d
  proof -
    have ne: "ls \<noteq> []" using f(1) by (auto simp: findEnclosingOpen_def)
    from bracket_flat [OF assms(1-4) ne assms(5) f] obtain A M :: runes where
      am: "\<forall>d \<in> {0, 1}. positionInBoundsLocked ls (Pos (Line q) (Col q + int d)) \<and>
        offset ls (Pos (Line q) (Col q + int d)) = length A + d \<and>
        positionInBoundsLocked ls (Pos (Line e) (Col e + int d)) \<and>
        offset ls (Pos (Line e) (Col e + int d)) = length A + 1 + length M + d"
      by blast
    have "1 - d \<in> {0, 1 :: nat}" using d by auto
    with am d show ?thesis
      unfolding range_ok_chars by (intro conjI ordered_by_offset [OF _ _ ne]) auto
  qed
  show "innerBracket ls p o1 c1 = Some r \<Longrightarrow> range_ok ls r"
    using main [of _ _ 1] by (auto simp: innerBracket_def split: option.splits)
  show "aroundBracket ls p o1 c1 = Some r \<Longrightarrow> range_ok ls r"
    using main [of _ _ 0] by (auto simp: aroundBracket_def split: option.splits)
qed

section \<open>Properties\<close>

text \<open>
  C21. \<open>i(\<close>, \<open>a(\<close> and the other bracket objects select a matched pair around the cursor: in
  the flat text there is an opening bracket at or before the cursor and a closing one at or
  after it, the text between them is balanced, the inner object is exactly that text and the
  around object adds the two brackets.
\<close>

theorem bracket_object_matches:
  assumes "(opn, cls) \<in> {(40, 41), (91, 93), (123, 125)}" "positionInBoundsLocked ls p"
    and "innerBracket ls p opn cls = Some r"
  shows "\<exists>A M B r'. stringLocked ls = A @ opn # M @ cls # B \<and> balanced opn cls M \<and>
    length A \<le> offset ls p \<and> offset ls p \<le> length A + 1 + length M \<and>
    offset ls (Start r) = length A + 1 \<and> offset ls (End r) = length A + 1 + length M \<and>
    aroundBracket ls p opn cls = Some r' \<and>
    offset ls (Start r') = length A \<and> offset ls (End r') = length A + 2 + length M"
proof -
  have o: "newline \<noteq> opn" "newline \<noteq> cls" "opn \<noteq> 32" "opn \<noteq> cls" using assms(1) by (auto simp: newline_def)
  from assms(3) obtain q e where qe: "findEnclosingOpen ls p opn cls = Some q"
    "findMatchingClose ls q opn cls = Some e" "r = Chars (Pos (Line q) (Col q + 1)) e"
    by (auto simp: innerBracket_def split: option.splits)
  have ne: "ls \<noteq> []" using qe(1) by (auto simp: findEnclosingOpen_def)
  have around: "aroundBracket ls p opn cls = Some (Chars q (Pos (Line e) (Col e + 1)))"
    using qe by (simp add: aroundBracket_def)
  from bracket_flat [OF o ne assms(2) qe(1,2)] obtain A M B where
    am: "stringLocked ls = A @ opn # M @ cls # B" "balanced opn cls M"
      "length A \<le> offset ls p" "offset ls p \<le> length A + 1 + length M"
      "\<forall>d \<in> {0, 1}. positionInBoundsLocked ls (Pos (Line q) (Col q + int d)) \<and>
        offset ls (Pos (Line q) (Col q + int d)) = length A + d \<and>
        positionInBoundsLocked ls (Pos (Line e) (Col e + int d)) \<and>
        offset ls (Pos (Line e) (Col e + int d)) = length A + 1 + length M + d"
    by blast
  then show ?thesis using qe(3) around
    by (intro exI [of _ A] exI [of _ M] exI [of _ B] exI [of _ "Chars q (Pos (Line e) (Col e + 1))"]) simp
qed

theorem bracket_object_matches_witness:
  "\<exists>A M B. stringLocked [[40, 97], [40, 41, 41]] = A @ 40 # M @ 41 # B \<and> balanced 40 41 M \<and>
    length A \<le> 1 \<and> 1 \<le> length A + 1 + length M \<and>
    innerBracket [[40, 97], [40, 41, 41]] (Pos 0 1) 40 41 = Some (Chars (Pos 0 1) (Pos 1 2))"
proof -
  let ?ls = "[[40, 97], [40, 41, 41]]"
  have i: "innerBracket ?ls (Pos 0 1) 40 41 = Some (Chars (Pos 0 1) (Pos 1 2))"
    by (simp add: innerBracket_def findEnclosingOpen_def findMatchingClose_def runeAt_def openInRows.simps
        nat_numeral)
  have "positionInBoundsLocked ?ls (Pos 0 1)" by (simp add: positionInBoundsLocked_def)
  moreover have "offset ?ls (Pos 0 1) = 1" by (simp add: offset_def)
  ultimately show ?thesis using bracket_object_matches [OF _ _ i] i by (metis insertCI)
qed

text \<open>
  Every text object other than the rows' own is a character-wise, ordered range inside
  the rows, and the flat offsets the statement objects go through are exact: a position
  converts to its offset and back to itself.
\<close>

theorem text_objects_in_bounds:
  assumes "positionInBoundsLocked ls p"
    and "obj \<in> {InnerQuote ls p q, AroundQuote ls p q, InnerParen ls p, AroundParen ls p,
      InnerBracket ls p, AroundBracket ls p, InnerBraces ls p, AroundBraces ls p,
      InnerWord u ls p, AroundWord u ls p, InnerWORD ls p, AroundWORD ls p,
      InnerParagraph ls p, AroundParagraph ls p, InnerStatement chroma ls p, AroundStatement chroma ls p}"
  shows "(\<forall>r. obj = Some r \<longrightarrow> \<not> LineWise r \<and> \<not> BlockWise r \<and> rangeInBoundsLocked ls r) \<and>
    (ls \<noteq> [] \<longrightarrow> runeOffsetToPos ls (posToRuneOffset ls p) = p)"
proof -
  have b: "innerBracket ls p o1 c1 = Some r \<Longrightarrow> range_ok ls r" "aroundBracket ls p o1 c1 = Some r \<Longrightarrow> range_ok ls r"
    if "(o1, c1) \<in> {(40, 41), (91, 93), (123, 125)}" for o1 c1 r
    using bracket_ok [of o1 c1 ls p r] that assms(1) by (auto simp: newline_def)
  have "InnerParen ls p = Some r \<Longrightarrow> range_ok ls r" "AroundParen ls p = Some r \<Longrightarrow> range_ok ls r"
    "InnerBracket ls p = Some r \<Longrightarrow> range_ok ls r" "AroundBracket ls p = Some r \<Longrightarrow> range_ok ls r"
    "InnerBraces ls p = Some r \<Longrightarrow> range_ok ls r" "AroundBraces ls p = Some r \<Longrightarrow> range_ok ls r" for r
    unfolding InnerParen_def AroundParen_def InnerBracket_def AroundBracket_def InnerBraces_def AroundBraces_def
    by (rule b; simp)+
  moreover have "InnerWord u ls p = Some r \<Longrightarrow> range_ok ls r" "AroundWord u ls p = Some r \<Longrightarrow> range_ok ls r"
    "InnerWORD ls p = Some r \<Longrightarrow> range_ok ls r" "AroundWORD ls p = Some r \<Longrightarrow> range_ok ls r"
    "InnerStatement chroma ls p = Some r \<Longrightarrow> range_ok ls r" "AroundStatement chroma ls p = Some r \<Longrightarrow> range_ok ls r" for r
    unfolding InnerWord_def AroundWord_def InnerWORD_def AroundWORD_def InnerStatement_def AroundStatement_def
    by (rule word_ok statement_ok; assumption)+
  ultimately have "range_ok ls r" if "obj = Some r" for r
    using assms(2) that quote_ok [of ls p q r] paragraph_ok [of ls p r] by (elim insertE emptyE) simp_all
  then show ?thesis using runeOffsetToPos_inverse [OF assms(1)] by (auto simp: range_ok_def)
qed

theorem text_objects_in_bounds_witness:
  "\<exists>r. AroundWord ascii_tables [[97, 32, 98]] (Pos 0 0) = Some r \<and> rangeInBoundsLocked [[97, 32, 98]] r \<and>
     runeOffsetToPos [[97, 32, 98]] (posToRuneOffset [[97, 32, 98]] (Pos 0 0)) = Pos 0 0"
proof -
  have "AroundWord ascii_tables [[97, 32, 98]] (Pos 0 0) = Some (Chars (Pos 0 0) (Pos 0 2))"
    by (simp add: AroundWord_def aroundWord_def innerWord_def classifyWord_def unicode_IsSpace_def
        ascii_tables_def runEnd_def Let_def nat_numeral)
  moreover have "positionInBoundsLocked [[97, 32, 98]] (Pos 0 0)" by (simp add: positionInBoundsLocked_def)
  ultimately show ?thesis
    using text_objects_in_bounds [of "[[97, 32, 98]]" "Pos 0 0" "AroundWord ascii_tables [[97, 32, 98]] (Pos 0 0)" 0 ascii_tables rune_lexer]
    by auto
qed

end
