(* ===== verification/SqlClassify.thy ===== *)
theory SqlClassify
  imports Prelude
begin

text \<open>
  The parser-free classification of a SQL statement (\<open>pkg/query/classify.go\<close>) and the gate of
  EXPLAIN ANALYZE (\<open>pkg/query/explain_gate.go\<close>).  A Go string is a \<open>string\<close> here, one \<open>char\<close>
  per byte.  The two regular expressions are written out as a scan for a whole word, with the
  case folding of Go's \<open>(?i)\<close>: it also folds the long s (C5 BF) and the Kelvin sign (E2 84 AA).
\<close>

section \<open>Bytes\<close>

definition byte :: "char \<Rightarrow> nat" where
  "byte c = of_char c"

definition isWordByte :: "char \<Rightarrow> bool" where
  "isWordByte c \<longleftrightarrow> c = CHR ''_'' \<or> 97 \<le> byte c \<and> byte c \<le> 122 \<or> 65 \<le> byte c \<and> byte c \<le> 90 \<or>
     48 \<le> byte c \<and> byte c \<le> 57"

text \<open>ASCII upper-casing, \<open>strings.ToUpper\<close> on words of ASCII bytes.\<close>

definition upperByte :: "char \<Rightarrow> char" where
  "upperByte c = (if 97 \<le> byte c \<and> byte c \<le> 122 then char_of (byte c - 32) else c)"

definition sqlSpace :: "char \<Rightarrow> bool" where
  "sqlSpace c \<longleftrightarrow> byte c = 32 \<or> 9 \<le> byte c \<and> byte c \<le> 13"

section \<open>The leading keyword\<close>

text \<open>The block-comment loop from index 2 on: the text after it and the depth at its end.\<close>

fun blockComment :: "nat \<Rightarrow> string \<Rightarrow> string \<times> nat" where
  "blockComment 0 s = (s, 0)"
| "blockComment (Suc d) (a # b # s) =
     (if a = CHR ''/'' \<and> b = CHR ''*'' then blockComment (Suc (Suc d)) s
      else if a = CHR ''*'' \<and> b = CHR ''/'' then blockComment d s
      else blockComment (Suc d) (b # s))"
| "blockComment (Suc d) s = (s, Suc d)"

lemma blockComment_shorter: "length (fst (blockComment d s)) \<le> length s"
  by (induction d s rule: blockComment.induct) auto

function skipLeading :: "string \<Rightarrow> string" where
  "skipLeading s0 =
     (let s = dropWhile sqlSpace s0 in
      if take 2 s = ''--'' then
        (case dropWhile (\<lambda>c. byte c \<noteq> 10) s of
           [] \<Rightarrow> []
         | _ # rest \<Rightarrow> skipLeading rest)
      else if take 2 s = ''/*'' then
        (case blockComment 1 (drop 2 s) of
           (rest, d) \<Rightarrow> if d \<noteq> 0 then [] else skipLeading rest)
      else s)"
  by auto
termination
proof (relation "measure length", goal_cases)
  case (2 s0 s c rest)
  then have "length (c # rest) \<le> length s" by (metis length_dropWhile_le)
  then show ?case using 2(1) length_dropWhile_le [of sqlSpace s0] by simp
next
  case (3 s0 s rest d)
  then have "length rest \<le> length (drop 2 s)" using blockComment_shorter [of 1 "drop 2 s"] by (metis fst_conv)
  moreover have "length (take 2 s) = 2" using 3 by simp
  then have "2 \<le> length s" by (simp add: min_def split: if_splits)
  ultimately show ?case using 3(1) length_dropWhile_le [of sqlSpace s0] by simp
qed simp

declare skipLeading.simps [simp del]

definition leadingKeyword :: "string \<Rightarrow> string" where
  "leadingKeyword sql = map upperByte (takeWhile isWordByte (skipLeading sql))"

datatype StatementKind = KindOther | KindDML | KindDDL

definition dmlKeywords :: "string list" where
  "dmlKeywords = [''INSERT'', ''UPDATE'', ''DELETE'', ''MERGE'']"

definition ddlKeywords :: "string list" where
  "ddlKeywords = [''CREATE'', ''ALTER'', ''DROP'', ''TRUNCATE'', ''COMMENT'', ''GRANT'', ''REVOKE'']"

definition Classify :: "string \<Rightarrow> StatementKind" where
  "Classify sql =
     (let kw = leadingKeyword sql in
      if kw \<in> set dmlKeywords then KindDML
      else if kw \<in> set ddlKeywords then KindDDL
      else KindOther)"

section \<open>Whole-word tokens\<close>

text \<open>
  Match the keyword at the beginning of the text, case-insensitively; the text after it.
\<close>

fun matchFold :: "string \<Rightarrow> string \<Rightarrow> string option" where
  "matchFold [] s = Some s"
| "matchFold (k # ks) [] = None"
| "matchFold (k # ks) (c # s) =
     (if upperByte c = k then matchFold ks s
      else if k = CHR ''S'' \<and> byte c = 0xC5 \<and> s \<noteq> [] \<and> byte (hd s) = 0xBF then matchFold ks (tl s)
      else if k = CHR ''K'' \<and> byte c = 0xE2 \<and> length s \<ge> 2 \<and> byte (s ! 0) = 0x84 \<and> byte (s ! 1) = 0xAA
      then matchFold ks (drop 2 s)
      else None)"

text \<open>\<open>\b(kw1|kw2|...)\b\<close> at this place; \<open>word_before\<close> says whether a word byte precedes it.\<close>

definition wordHere :: "string list \<Rightarrow> bool \<Rightarrow> string \<Rightarrow> bool" where
  "wordHere kws word_before s \<longleftrightarrow>
     \<not> word_before \<and>
     (\<exists>kw \<in> set kws. case matchFold kw s of
        None \<Rightarrow> False
      | Some rest \<Rightarrow> rest = [] \<or> \<not> isWordByte (hd rest))"

fun tokenMatch :: "string list \<Rightarrow> bool \<Rightarrow> string \<Rightarrow> bool" where
  "tokenMatch kws wb [] = wordHere kws wb []"
| "tokenMatch kws wb (c # s) = (wordHere kws wb (c # s) \<or> tokenMatch kws (isWordByte c) s)"

definition dmlTokenRE :: "string \<Rightarrow> bool" where
  "dmlTokenRE = tokenMatch [''INSERT'', ''UPDATE'', ''DELETE'', ''MERGE''] False"

definition ddlTokenRE :: "string \<Rightarrow> bool" where
  "ddlTokenRE = tokenMatch [''CREATE'', ''ALTER'', ''DROP'', ''TRUNCATE'', ''COMMENT'', ''GRANT'',
     ''REVOKE'', ''REFRESH''] False"

definition EffectiveKind :: "string \<Rightarrow> StatementKind" where
  "EffectiveKind sql =
     (let kind = Classify sql in if kind = KindOther \<and> dmlTokenRE sql then KindDML else kind)"

definition EffectiveAnalyze :: "string \<Rightarrow> bool \<Rightarrow> bool \<Rightarrow> bool" where
  "EffectiveAnalyze sql readOnly requested =
     (if \<not> requested then False
      else if readOnly then True
      else if Classify sql \<noteq> KindOther then False
      else \<not> dmlTokenRE sql \<and> \<not> ddlTokenRE sql)"

section \<open>Lemmas\<close>

lemma take2_iff: "take 2 s = [a, b] \<longleftrightarrow> (\<exists>r. s = a # b # r)"
  by (cases s; cases "tl s") (auto simp: numeral_2_eq_2)

lemma blockComment_suffix: "\<exists>p. s = p @ fst (blockComment d s)"
  by (induction d s rule: blockComment.induct) (auto, (metis append_Cons)+)

lemma skipLeading_suffix: "\<exists>p. s = p @ skipLeading s"
proof (induction s rule: skipLeading.induct)
  case (1 s0)
  define s where "s = dropWhile sqlSpace s0"
  have s0: "\<exists>q. s0 = q @ s" unfolding s_def by (metis takeWhile_dropWhile_id)
  have "\<exists>p. s = p @ skipLeading s0"
  proof (cases "take 2 s = ''--''")
    case True
    show ?thesis
    proof (cases "dropWhile (\<lambda>c. byte c \<noteq> 10) s")
      case Nil
      then have "skipLeading s0 = []" using True by (subst skipLeading.simps) (simp add: Let_def Nil flip: s_def)
      then show ?thesis by simp
    next
      case (Cons c rest)
      then have "skipLeading s0 = skipLeading rest" using True by (subst skipLeading.simps) (simp add: s_def)
      moreover obtain p where "rest = p @ skipLeading rest"
        using "1.IH"(1) [of s c rest] True Cons by (auto simp: s_def)
      moreover have "\<exists>q. s = q @ c # rest" by (metis Cons takeWhile_dropWhile_id)
      ultimately show ?thesis by (metis append_Cons append_assoc)
    qed
  next
    case False
    show ?thesis
    proof (cases "take 2 s = ''/*''")
      case True
      obtain rest d where b: "blockComment 1 (drop 2 s) = (rest, d)" by (meson surj_pair)
      show ?thesis
      proof (cases "d = 0")
        case False
        then have "skipLeading s0 = []" using True b by (subst skipLeading.simps) (simp add: s_def)
        then show ?thesis by simp
      next
        case d: True
        then have "skipLeading s0 = skipLeading rest" using True b by (subst skipLeading.simps) (simp add: s_def)
        moreover obtain p where "rest = p @ skipLeading rest"
          using "1.IH"(2) [of s rest d] True d b by (auto simp: s_def)
        moreover have "\<exists>q. drop 2 s = q @ rest" using blockComment_suffix [of "drop 2 s" 1] b by auto
        ultimately show ?thesis by (metis append_assoc append_take_drop_id)
      qed
    next
      case f: False
      then have "skipLeading s0 = s" using False by (subst skipLeading.simps) (simp add: s_def)
      then show ?thesis by simp
    qed
  qed
  then show ?case using s0 by (metis append_assoc)
qed

lemma skipLeading_head:
  "skipLeading s = [] \<or> \<not> sqlSpace (hd (skipLeading s)) \<and> take 2 (skipLeading s) \<noteq> ''--'' \<and> take 2 (skipLeading s) \<noteq> ''/*''"
proof (induction s rule: skipLeading.induct)
  case (1 s0)
  define s where "s = dropWhile sqlSpace s0"
  show ?case
  proof (cases "take 2 s = ''--''")
    case True
    then show ?thesis using "1.IH"(1) [of s] 
      by (subst (1 2 3 4) skipLeading.simps) (auto simp: s_def Let_def split: list.splits)
  next
    case False
    show ?thesis
    proof (cases "take 2 s = ''/*''")
      case True
      obtain rest d where b: "blockComment 1 (drop 2 s) = (rest, d)" by (meson surj_pair)
      then show ?thesis using True "1.IH"(2) [of s rest d]
        by (subst (1 2 3 4) skipLeading.simps) (auto simp: s_def Let_def)
    next
      case f: False
      then have "skipLeading s0 = s" using False by (subst skipLeading.simps) (simp add: s_def)
      then show ?thesis using f False hd_dropWhile [of sqlSpace s0] by (auto simp: s_def)
    qed
  qed
qed

lemma skipLeading_blank: "list_all sqlSpace w \<Longrightarrow> skipLeading (w @ s) = skipLeading s"
  by (subst (1 2) skipLeading.simps) (simp add: dropWhile_append list_all_iff)

lemma skipLeading_line_comment:
  assumes "list_all (\<lambda>x. byte x \<noteq> 10) c" "byte nl = 10"
  shows "skipLeading (''--'' @ c @ nl # s) = skipLeading s"
proof -
  have d: "dropWhile sqlSpace (''--'' @ c @ nl # s) = ''--'' @ c @ nl # s"
    by (simp add: sqlSpace_def byte_def)
  have "dropWhile (\<lambda>x. byte x \<noteq> 10) (''--'' @ c @ nl # s) = nl # s"
    using assms by (simp add: byte_def dropWhile_append list_all_iff)
  then show ?thesis by (subst skipLeading.simps) (simp only: d Let_def, simp)
qed

lemma matchFold_word: "matchFold (map upperByte w) (w @ rest) = Some rest"
  by (induction w) auto

lemma matchFold_ascii:
  "matchFold kw s = Some rest \<Longrightarrow> \<forall>c \<in> set s. byte c < 128 \<Longrightarrow> \<exists>w. s = w @ rest \<and> map upperByte w = kw"
proof (induction kw s rule: matchFold.induct)
  case (3 k ks c s)
  then have "upperByte c = k" "matchFold ks s = Some rest" by (auto split: if_splits)
  with 3 obtain w where "s = w @ rest" "map upperByte w = ks" by auto
  then show ?case using \<open>upperByte c = k\<close> by (intro exI [of _ "c # w"]) auto
qed auto

text \<open>A keyword as a whole word: no word byte before it and none after it.\<close>

definition has_word :: "string list \<Rightarrow> string \<Rightarrow> bool" where
  "has_word kws s \<longleftrightarrow>
     (\<exists>a w b. s = a @ w @ b \<and> map upperByte w \<in> set kws \<and>
        (a = [] \<or> \<not> isWordByte (last a)) \<and> (b = [] \<or> \<not> isWordByte (hd b)))"

lemma tokenMatch_complete:
  "s = a @ w @ b \<Longrightarrow> map upperByte w \<in> set kws \<Longrightarrow> (if a = [] then \<not> wb else \<not> isWordByte (last a)) \<Longrightarrow>
   b = [] \<or> \<not> isWordByte (hd b) \<Longrightarrow> tokenMatch kws wb s"
proof (induction a arbitrary: s wb)
  case Nil
  then have "wordHere kws wb s" using matchFold_word [of w b] by (force simp: wordHere_def)
  then show ?case by (cases s) auto
next
  case (Cons c a)
  then show ?case by (cases a) auto
qed

lemma tokenMatch_sound:
  "tokenMatch kws wb s \<Longrightarrow> \<forall>c \<in> set s. byte c < 128 \<Longrightarrow>
   \<exists>a w b. s = a @ w @ b \<and> map upperByte w \<in> set kws \<and>
     (if a = [] then \<not> wb else \<not> isWordByte (last a)) \<and> (b = [] \<or> \<not> isWordByte (hd b))"
proof (induction s arbitrary: wb)
  case Nil
  then obtain kw rest where "kw \<in> set kws" "\<not> wb" "matchFold kw [] = Some rest" "rest = [] \<or> \<not> isWordByte (hd rest)"
    by (auto simp: wordHere_def split: option.splits)
  then show ?case using matchFold_ascii [of kw "[]" rest]
    by (intro exI [of _ "[]"] exI [of _ "[]"] exI [of _ "[]"]) auto
next
  case (Cons c s)
  show ?case
  proof (cases "wordHere kws wb (c # s)")
    case True
    then obtain kw rest where k: "kw \<in> set kws" "\<not> wb" "matchFold kw (c # s) = Some rest" "rest = [] \<or> \<not> isWordByte (hd rest)"
      by (auto simp: wordHere_def split: option.splits)
    from matchFold_ascii [OF k(3) Cons.prems(2)] obtain w where "c # s = w @ rest" "map upperByte w = kw" by blast
    then show ?thesis using k by (intro exI [of _ "[]"] exI [of _ w] exI [of _ rest]) auto
  next
    case False
    then have "tokenMatch kws (isWordByte c) s" using Cons.prems(1) by simp
    from Cons.IH [OF this] Cons.prems(2) obtain a w b where
      "s = a @ w @ b" "map upperByte w \<in> set kws" "if a = [] then \<not> isWordByte c else \<not> isWordByte (last a)"
      "b = [] \<or> \<not> isWordByte (hd b)" by auto
    then show ?thesis
      by (intro exI [of _ "c # a"] exI [of _ w] exI [of _ b]) (auto split: if_splits)
  qed
qed

lemma has_word_match: "has_word kws s \<Longrightarrow> tokenMatch kws False s"
  unfolding has_word_def using tokenMatch_complete [of s _ _ _ kws False] by (elim exE conjE) presburger

lemma match_has_word: "tokenMatch kws False s \<Longrightarrow> \<forall>c \<in> set s. byte c < 128 \<Longrightarrow> has_word kws s"
  unfolding has_word_def using tokenMatch_sound [of kws False s] by metis

lemma dmlTokenRE_eq: "dmlTokenRE = tokenMatch dmlKeywords False"
  by (simp add: dmlTokenRE_def dmlKeywords_def)

lemma ddlTokenRE_eq: "ddlTokenRE = tokenMatch (ddlKeywords @ [''REFRESH'']) False"
  by (simp add: ddlTokenRE_def ddlKeywords_def)

section \<open>Properties\<close>

text \<open>
  \<open>Classify\<close> looks at the first keyword of the statement: what \<open>skipLeading\<close> leaves is a
  suffix of the text that begins with no blank and no comment, leading blanks and line
  comments do not change the classification, and skipping twice is skipping once.
\<close>

theorem classify_skips_leading:
  "(\<exists>p. s = p @ skipLeading s) \<and>
   (skipLeading s = [] \<or> \<not> sqlSpace (hd (skipLeading s)) \<and>
      take 2 (skipLeading s) \<noteq> ''--'' \<and> take 2 (skipLeading s) \<noteq> ''/*'') \<and>
   skipLeading (skipLeading s) = skipLeading s \<and>
   (list_all sqlSpace w \<longrightarrow> Classify (w @ s) = Classify s) \<and>
   (list_all (\<lambda>x. byte x \<noteq> 10) c \<and> byte nl = 10 \<longrightarrow> Classify (''--'' @ c @ nl # s) = Classify s)"
proof -
  have "skipLeading r = r" if "r = [] \<or> \<not> sqlSpace (hd r) \<and> take 2 r \<noteq> ''--'' \<and> take 2 r \<noteq> ''/*''" for r
    using that by (subst skipLeading.simps) (cases r, auto)
  then have "skipLeading (skipLeading s) = skipLeading s" using skipLeading_head by blast
  moreover have "list_all sqlSpace w \<longrightarrow> Classify (w @ s) = Classify s"
    by (simp add: Classify_def leadingKeyword_def skipLeading_blank)
  moreover have "list_all (\<lambda>x. byte x \<noteq> 10) c \<and> byte nl = 10 \<longrightarrow> Classify (''--'' @ c @ nl # s) = Classify s"
    unfolding Classify_def leadingKeyword_def using skipLeading_line_comment [of c nl s] by metis
  ultimately show ?thesis using skipLeading_suffix [of s] skipLeading_head [of s] by (intro conjI)
qed

theorem classify_skips_leading_witness:
  "Classify (''--'' @ ''x'' @ char_of (10 :: nat) # ''SELECT'') = Classify ''SELECT'' \<and>
   Classify ('' '' @ ''SELECT'') = Classify ''SELECT''"
  using classify_skips_leading [of "''SELECT''" "'' ''" "''x''" "char_of (10 :: nat)"]
  by (simp add: byte_def sqlSpace_def)

text \<open>
  C17. The write gates fail closed: a statement in which a DML keyword stands as a whole word,
  anywhere and in any letter case, is never \<open>KindOther\<close>, and EXPLAIN ANALYZE of it (or of one
  with a DDL keyword) is refused on a connection that is not read-only.  On ASCII text the
  elevation happens for no other reason.
\<close>

theorem write_gates_fail_closed:
  "(has_word dmlKeywords s \<longrightarrow> EffectiveKind s \<noteq> KindOther) \<and>
   (has_word dmlKeywords s \<or> has_word (ddlKeywords @ [''REFRESH'']) s \<longrightarrow> \<not> EffectiveAnalyze s False req) \<and>
   (EffectiveAnalyze s ro req \<longrightarrow> req \<and> (ro \<or> EffectiveKind s = KindOther)) \<and>
   ((\<forall>c \<in> set s. byte c < 128) \<and> EffectiveKind s = KindDML \<longrightarrow>
      Classify s = KindDML \<or> has_word dmlKeywords s)"
proof -
  have dml: "has_word dmlKeywords s \<Longrightarrow> dmlTokenRE s" unfolding dmlTokenRE_eq by (rule has_word_match)
  have ddl: "has_word (ddlKeywords @ [''REFRESH'']) s \<Longrightarrow> ddlTokenRE s"
    unfolding ddlTokenRE_eq by (rule has_word_match)
  have conv: "\<forall>c \<in> set s. byte c < 128 \<Longrightarrow> dmlTokenRE s \<Longrightarrow> has_word dmlKeywords s"
    unfolding dmlTokenRE_eq by (rule match_has_word)
  have "EffectiveAnalyze s ro req \<longrightarrow> req \<and> (ro \<or> EffectiveKind s = KindOther)"
    by (simp add: EffectiveAnalyze_def EffectiveKind_def Let_def)
  moreover have "EffectiveKind s = KindDML \<longrightarrow> Classify s = KindDML \<or> dmlTokenRE s"
    by (simp add: EffectiveKind_def Let_def)
  moreover have "dmlTokenRE s \<longrightarrow> EffectiveKind s \<noteq> KindOther"
    by (simp add: EffectiveKind_def Let_def)
  moreover have "dmlTokenRE s \<or> ddlTokenRE s \<longrightarrow> \<not> EffectiveAnalyze s False req"
    by (simp add: EffectiveAnalyze_def)
  ultimately show ?thesis using dml ddl conv by blast
qed

theorem write_gates_fail_closed_witness:
  "EffectiveKind ''WITH d AS (delete FROM t) SELECT 1'' \<noteq> KindOther \<and>
   \<not> EffectiveAnalyze ''WITH d AS (delete FROM t) SELECT 1'' False True"
proof -
  have "has_word dmlKeywords ''WITH d AS (delete FROM t) SELECT 1''"
    unfolding has_word_def
  proof (intro exI conjI)
    show "''WITH d AS (delete FROM t) SELECT 1'' = ''WITH d AS ('' @ ''delete'' @ '' FROM t) SELECT 1''" by simp
    show "map upperByte ''delete'' \<in> set dmlKeywords" by code_simp
    show "''WITH d AS ('' = [] \<or> \<not> isWordByte (last ''WITH d AS ('')" by code_simp
    show "'' FROM t) SELECT 1'' = [] \<or> \<not> isWordByte (hd '' FROM t) SELECT 1'')" by code_simp
  qed
  then show ?thesis using write_gates_fail_closed by blast
qed

end
