(* ===== verification/CliLexer.thy ===== *)
theory CliLexer
  imports SqlClassify
begin

text \<open>
  The lexer of the non-interactive front end (\<open>cliLexer\<close> in \<open>pkg/query/cli_statements.go\<close>),
  on bytes.  Positions are indices into the SQL text.  \<open>ctx.Err()\<close> is asked at known places of
  the text, each at most once, so the context is a predicate on \<open>cli_poll\<close>: true when that poll
  reports a cancelled context.  The lemmas say that every token ends after it starts, that the
  lexer never moves back and never leaves the text.
\<close>

datatype cli_error = ErrContext | ErrInvalidCLIInput | ErrUnsupportedCLISQL

datatype cli_poll = PollEntry | PollNext nat | PollComment nat | PollOperator nat | PollTrim nat
  | PollQuoted nat | PollFinal

type_synonym ctx = "cli_poll \<Rightarrow> bool"

record cliToken =
  tok_start :: nat
  tok_end :: nat
  tok_word :: string
  tok_identifier :: bool

record cliLexer =
  pos :: nat
  operatorSuffixEnd :: nat

section \<open>Bytes and UTF-8\<close>

definition cliSpace :: "char \<Rightarrow> bool" where
  "cliSpace b \<longleftrightarrow> byte b = 32 \<or> byte b = 9 \<or> byte b = 10 \<or> byte b = 13 \<or> byte b = 12 \<or> byte b = 11"

definition cliIdentStart :: "char \<Rightarrow> bool" where
  "cliIdentStart b \<longleftrightarrow> byte b \<ge> 0x80 \<or> b = CHR ''_'' \<or> 97 \<le> byte b \<and> byte b \<le> 122 \<or> 65 \<le> byte b \<and> byte b \<le> 90"

definition cliDigit :: "char \<Rightarrow> bool" where
  "cliDigit b \<longleftrightarrow> 48 \<le> byte b \<and> byte b \<le> 57"

definition cliIdentContinue :: "char \<Rightarrow> bool" where
  "cliIdentContinue b \<longleftrightarrow> cliIdentStart b \<or> cliDigit b \<or> b = CHR ''$''"

text \<open>\<open>s[i] = c\<close> for an \<open>i\<close> inside the text; \<open>strings.HasPrefix(s[i:], p)\<close>.\<close>

definition at :: "string \<Rightarrow> nat \<Rightarrow> char \<Rightarrow> bool" where
  "at s i c \<longleftrightarrow> i < length s \<and> s ! i = c"

definition sat :: "string \<Rightarrow> nat \<Rightarrow> (char \<Rightarrow> bool) \<Rightarrow> bool" where
  "sat s i P \<longleftrightarrow> i < length s \<and> P (s ! i)"

definition prefixAt :: "string \<Rightarrow> nat \<Rightarrow> string \<Rightarrow> bool" where
  "prefixAt s i p \<longleftrightarrow> take (length p) (drop i s) = p"

definition runFrom :: "(char \<Rightarrow> bool) \<Rightarrow> string \<Rightarrow> nat \<Rightarrow> nat" where
  "runFrom P s i = i + length (takeWhile P (drop i s))"

definition cont :: "char \<Rightarrow> bool" where
  "cont b \<longleftrightarrow> 0x80 \<le> byte b \<and> byte b \<le> 0xBF"

definition inBytes :: "nat \<Rightarrow> nat \<Rightarrow> char \<Rightarrow> bool" where
  "inBytes lo hi b \<longleftrightarrow> lo \<le> byte b \<and> byte b \<le> hi"

text \<open>The length of the valid sequence at the beginning of the bytes, 0 when there is none.\<close>

definition utf8_seq :: "string \<Rightarrow> nat" where
  "utf8_seq s =
     (case s of
        [] \<Rightarrow> 0
      | a # r \<Rightarrow>
          if byte a < 0x80 then 1
          else if inBytes 0xC2 0xDF a then
            (case r of b # _ \<Rightarrow> if cont b then 2 else 0 | _ \<Rightarrow> 0)
          else if inBytes 0xE0 0xEF a then
            (case r of b # c # _ \<Rightarrow>
               if inBytes (if byte a = 0xE0 then 0xA0 else 0x80) (if byte a = 0xED then 0x9F else 0xBF) b \<and> cont c
               then 3 else 0
             | _ \<Rightarrow> 0)
          else if inBytes 0xF0 0xF4 a then
            (case r of b # c # d # _ \<Rightarrow>
               if inBytes (if byte a = 0xF0 then 0x90 else 0x80) (if byte a = 0xF4 then 0x8F else 0xBF) b \<and> cont c \<and> cont d
               then 4 else 0
             | _ \<Rightarrow> 0)
          else 0)"

function utf8_Valid :: "string \<Rightarrow> bool" where
  "utf8_Valid s =
     (if s = [] then True else if utf8_seq s = 0 then False else utf8_Valid (drop (utf8_seq s) s))"
  by auto
termination by (relation "measure length") auto

declare utf8_Valid.simps [simp del]

definition utf8_AppendRune :: "string \<Rightarrow> nat \<Rightarrow> string" where
  "utf8_AppendRune d r = d @ map char_of
     (if r \<le> 0x7F then [r]
      else if r \<le> 0x7FF then [0xC0 + r div 0x40, 0x80 + r mod 0x40]
      else if r \<le> 0xFFFF then [0xE0 + r div 0x1000, 0x80 + r div 0x40 mod 0x40, 0x80 + r mod 0x40]
      else [0xF0 + r div 0x40000, 0x80 + r div 0x1000 mod 0x40, 0x80 + r div 0x40 mod 0x40, 0x80 + r mod 0x40])"

section \<open>Escapes in quoted strings\<close>

definition cliHex :: "char \<Rightarrow> int" where
  "cliHex b =
     (if cliDigit b then int (byte b) - 48
      else if 97 \<le> byte b \<and> byte b \<le> 102 then int (byte b) - 97 + 10
      else if 65 \<le> byte b \<and> byte b \<le> 70 then int (byte b) - 65 + 10
      else -1)"

fun hexDigits :: "string \<Rightarrow> nat \<Rightarrow> nat \<Rightarrow> nat \<Rightarrow> nat option" where
  "hexDigits s i 0 value = Some value"
| "hexDigits s i (Suc n) value =
     (if i \<ge> length s \<or> cliHex (s ! i) < 0 then None
      else hexDigits s (i + 1) n (value * 16 + nat (cliHex (s ! i))))"

definition cliUnicodeEscape :: "string \<Rightarrow> nat \<Rightarrow> cli_error + (nat \<times> nat)" where
  "cliUnicodeEscape s i =
     (if i + 1 \<ge> length s \<or> s ! i \<noteq> char_of (92 :: nat) \<or> (s ! (i + 1) \<noteq> CHR ''u'' \<and> s ! (i + 1) \<noteq> CHR ''U'')
      then Inl ErrUnsupportedCLISQL
      else let digits = (if s ! (i + 1) = CHR ''U'' then 8 else 4) in
        case hexDigits s (i + 2) digits 0 of
          None \<Rightarrow> Inl ErrUnsupportedCLISQL
        | Some value \<Rightarrow>
            if value = 0 \<or> value > 0x10FFFF then Inl ErrUnsupportedCLISQL
            else Inr (i + 2 + digits, value))"

text \<open>At most \<open>n\<close> digits of base \<open>b\<close>, folded into a byte; the index after them.\<close>

fun byteDigits :: "nat \<Rightarrow> (char \<Rightarrow> bool) \<Rightarrow> (char \<Rightarrow> nat) \<Rightarrow> string \<Rightarrow> nat \<Rightarrow> nat \<Rightarrow> nat \<Rightarrow> nat \<times> nat" where
  "byteDigits b P v s i 0 value = (i, value)"
| "byteDigits b P v s i (Suc n) value =
     (if i < length s \<and> P (s ! i) then byteDigits b P v s (i + 1) n ((value * b + v (s ! i)) mod 256)
      else (i, value))"

definition cliEscape :: "string \<Rightarrow> nat \<Rightarrow> string \<Rightarrow> cli_error + (nat \<times> string)" where
  "cliEscape s i0 decoded =
     (let i = i0 + 1 in
      if i \<ge> length s then Inl ErrUnsupportedCLISQL
      else let c = s ! i in
        if c = CHR ''u'' \<or> c = CHR ''U'' then
          (case cliUnicodeEscape s (i - 1) of
             Inl e \<Rightarrow> Inl e
           | Inr (nxt, value) \<Rightarrow>
               if 0xD800 \<le> value \<and> value \<le> 0xDBFF then
                 (case cliUnicodeEscape s nxt of
                    Inl e \<Rightarrow> Inl ErrUnsupportedCLISQL
                  | Inr (nxt2, second) \<Rightarrow>
                      if second < 0xDC00 \<or> second > 0xDFFF then Inl ErrUnsupportedCLISQL
                      else Inr (nxt2, utf8_AppendRune decoded
                                  (0x10000 + (value - 0xD800) * 0x400 + second - 0xDC00)))
               else if 0xDC00 \<le> value \<and> value \<le> 0xDFFF then Inl ErrUnsupportedCLISQL
               else Inr (nxt, utf8_AppendRune decoded value))
        else if 48 \<le> byte c \<and> byte c \<le> 55 then
          (case byteDigits 8 (\<lambda>b. 48 \<le> byte b \<and> byte b \<le> 55) (\<lambda>b. byte b - 48) s i 3 0 of
             (j, value) \<Rightarrow> Inr (j, decoded @ [char_of value]))
        else if c = CHR ''x'' \<and> i + 1 < length s \<and> cliHex (s ! (i + 1)) \<ge> 0 then
          (case byteDigits 16 (\<lambda>b. cliHex b \<ge> 0) (\<lambda>b. nat (cliHex b)) s (i + 1) 2 0 of
             (j, value) \<Rightarrow> Inr (j, decoded @ [char_of value]))
        else Inr (i + 1, decoded @
          [if c = CHR ''b'' then char_of (8 :: nat) else if c = CHR ''f'' then char_of (12 :: nat)
           else if c = CHR ''n'' then char_of (10 :: nat) else if c = CHR ''r'' then char_of (13 :: nat)
           else if c = CHR ''t'' then char_of (9 :: nat) else c]))"

section \<open>Quoted strings\<close>

definition lineBreak :: "char \<Rightarrow> bool" where
  "lineBreak b \<longleftrightarrow> byte b = 13 \<or> byte b = 10"

function skipToQuote :: "string \<Rightarrow> nat \<Rightarrow> bool \<Rightarrow> nat \<times> bool" where
  "skipToQuote s i nl =
     (if i \<ge> length s then (i, nl)
      else if cliSpace (s ! i) then skipToQuote s (i + 1) (nl \<or> lineBreak (s ! i))
      else if prefixAt s i ''--'' then skipToQuote s (runFrom (\<lambda>b. \<not> lineBreak b) s (i + 2)) nl
      else (i, nl))"
  by auto
termination by (relation "measure (\<lambda>(s, i, _). length s - i)") (auto simp: runFrom_def)

declare skipToQuote.simps [simp del]

definition cliQuoteContinuation :: "string \<Rightarrow> nat \<Rightarrow> nat option" where
  "cliQuoteContinuation s i =
     (case skipToQuote s i False of
        (j, nl) \<Rightarrow> if nl \<and> at s j (CHR 0x27) then Some j else None)"

lemma skipToQuote_ge: "i \<le> fst (skipToQuote s i nl)"
proof (induction s i nl rule: skipToQuote.induct)
  case (1 s i nl)
  then show ?case
    by (subst skipToQuote.simps) (auto simp: runFrom_def)
qed

lemma hexDigits_value: "hexDigits s i n v = Some w \<Longrightarrow> i + n \<le> length s \<or> n = 0"
  by (induction s i n v rule: hexDigits.induct) (fastforce split: if_splits)+

lemma cliUnicodeEscape_bounds: "cliUnicodeEscape s i = Inr (j, v) \<Longrightarrow> i < j \<and> j \<le> length s \<and> v \<le> 0x10FFFF"
  by (auto simp: cliUnicodeEscape_def Let_def dest!: hexDigits_value split: if_splits option.splits)

lemma byteDigits_bounds:
  "byteDigits b P v s i n u0 = (j, w) \<Longrightarrow> i \<le> j \<and> (i \<le> length s \<longrightarrow> j \<le> length s) \<and>
   (i < length s \<and> P (s ! i) \<and> 0 < n \<longrightarrow> i < j)"
proof (induction n arbitrary: i u0)
  case (Suc n)
  show ?case
  proof (cases "i < length s \<and> P (s ! i)")
    case True
    with Suc.prems have "byteDigits b P v s (i + 1) n ((u0 * b + v (s ! i)) mod 256) = (j, w)" by simp
    from Suc.IH [OF this] True show ?thesis by auto
  next
    case False
    then show ?thesis using Suc.prems by auto
  qed
qed simp

lemma cliEscape_bounds:
  assumes "cliEscape s i d = Inr (j, d')"
  shows "i < j \<and> j \<le> length s"
proof -
  have i: "i + 1 < length s" using assms by (auto simp: cliEscape_def Let_def split: if_splits)
  let ?c = "s ! (i + 1)"
  consider "?c = CHR ''u'' \<or> ?c = CHR ''U''"
    | "?c \<noteq> CHR ''u''" "?c \<noteq> CHR ''U''" "48 \<le> byte ?c \<and> byte ?c \<le> 55"
    | "?c \<noteq> CHR ''u''" "?c \<noteq> CHR ''U''" "\<not> (48 \<le> byte ?c \<and> byte ?c \<le> 55)"
      "?c = CHR ''x'' \<and> i + 2 < length s \<and> cliHex (s ! (i + 2)) \<ge> 0"
    | "?c \<noteq> CHR ''u''" "?c \<noteq> CHR ''U''" "\<not> (48 \<le> byte ?c \<and> byte ?c \<le> 55)"
      "\<not> (?c = CHR ''x'' \<and> i + 2 < length s \<and> cliHex (s ! (i + 2)) \<ge> 0)" by blast
  then show ?thesis
  proof cases
    case 1
    then obtain k v where k: "cliUnicodeEscape s i = Inr (k, v)"
      "j = k \<or> (\<exists>v2. cliUnicodeEscape s k = Inr (j, v2))"
      using assms i by (auto simp: cliEscape_def Let_def split: sum.splits if_splits)
    then show ?thesis using cliUnicodeEscape_bounds [OF k(1)] cliUnicodeEscape_bounds [of s k j] by auto
  next
    case 2
    then obtain v where "byteDigits 8 (\<lambda>b. 48 \<le> byte b \<and> byte b \<le> 55) (\<lambda>b. byte b - 48) s (i + 1) 3 0 = (j, v)"
      using assms i by (auto simp: cliEscape_def Let_def split: prod.splits)
    from byteDigits_bounds [OF this] i show ?thesis by auto
  next
    case 3
    then obtain v where "byteDigits 16 (\<lambda>b. cliHex b \<ge> 0) (\<lambda>b. nat (cliHex b)) s (i + 2) 2 0 = (j, v)"
      using assms i by (auto simp: cliEscape_def Let_def split: prod.splits if_splits)
    from byteDigits_bounds [OF this] i 3 show ?thesis by auto
  next
    case 4
    then show ?thesis using assms i by (auto simp: cliEscape_def Let_def split: if_splits)
  qed
qed

text \<open>The loop of \<open>quoted\<close>; \<open>start\<close> is the index of the opening quote.\<close>

function quotedLoop :: "ctx \<Rightarrow> string \<Rightarrow> nat \<Rightarrow> char \<Rightarrow> bool \<Rightarrow> bool \<Rightarrow> nat \<Rightarrow> string \<Rightarrow> cli_error + nat" where
  "quotedLoop ctx s start quote escapes doubled i decoded =
     (if i \<ge> length s then Inl ErrUnsupportedCLISQL
      else if i mod 4096 = 0 \<and> ctx (PollQuoted i) then Inl ErrContext
      else if s ! i = quote then
        (if doubled \<and> at s (i + 1) quote then
           quotedLoop ctx s start quote escapes doubled (i + 2) (if escapes then decoded @ [quote] else decoded)
         else if byte quote = 34 \<and> i = start + 1 then Inl ErrUnsupportedCLISQL
         else (case (if byte quote = 39 then cliQuoteContinuation s (i + 1) else None) of
                 Some nxt \<Rightarrow> quotedLoop ctx s start quote escapes doubled (nxt + 1) decoded
               | None \<Rightarrow>
                   if escapes \<and> (\<not> utf8_Valid decoded \<or> char_of (0 :: nat) \<in> set decoded)
                   then Inl ErrUnsupportedCLISQL
                   else Inr (i + 1)))
      else if escapes \<and> byte (s ! i) = 92 then
        (case cliEscape s i decoded of
           Inl e \<Rightarrow> Inl e
         | Inr (j, decoded') \<Rightarrow> quotedLoop ctx s start quote escapes doubled j decoded')
      else quotedLoop ctx s start quote escapes doubled (i + 1) (if escapes then decoded @ [s ! i] else decoded))"
  by auto
termination
proof (relation "measure (\<lambda>(ctx, s, start, quote, escapes, doubled, i, decoded). length s - i)", goal_cases)
  case (3 ctx s start quote escapes doubled i decoded nxt)
  then have "cliQuoteContinuation s (i + 1) = Some nxt" by (simp split: if_splits)
  then have "i + 1 \<le> nxt" using skipToQuote_ge [of "i + 1" s False]
    by (auto simp: cliQuoteContinuation_def split: prod.splits if_splits)
  then show ?case using 3 by auto
next
  case (4 ctx s start quote escapes doubled i decoded r j decoded')
  then have "i < j" using cliEscape_bounds [of s i decoded j decoded'] by auto
  then show ?case using 4 by auto
qed auto

declare quotedLoop.simps [simp del]

definition cli_quoted :: "ctx \<Rightarrow> string \<Rightarrow> nat \<Rightarrow> char \<Rightarrow> bool \<Rightarrow> bool \<Rightarrow> cli_error + nat" where
  "cli_quoted ctx s start quote escapes doubled = quotedLoop ctx s start quote escapes doubled (start + 1) []"

lemma quotedLoop_bounds:
  "quotedLoop ctx s start quote escapes doubled i decoded = Inr j \<Longrightarrow> i < j \<and> j \<le> length s"
proof (induction ctx s start quote escapes doubled i decoded rule: quotedLoop.induct)
  case (1 ctx s start quote escapes doubled i decoded)
  have i: "i < length s" and np: "\<not> (i mod 4096 = 0 \<and> ctx (PollQuoted i))"
    using "1.prems" by (subst (asm) quotedLoop.simps; simp split: if_splits)+
  show ?case
  proof (cases "s ! i = quote")
    case q: True
    show ?thesis
    proof (cases "doubled \<and> at s (i + 1) quote")
      case True
      then have "quotedLoop ctx s start quote escapes doubled (i + 2) (if escapes then decoded @ [quote] else decoded) = Inr j"
        using "1.prems" i np q by (subst (asm) quotedLoop.simps) (simp split: if_splits)
      from "1.IH"(1) [OF _ np q True this] i show ?thesis by simp
    next
      case nd: False
      have ne: "\<not> (byte quote = 34 \<and> i = start + 1)"
        using "1.prems" i np q nd by (subst (asm) quotedLoop.simps) (simp split: if_splits)
      show ?thesis
      proof (cases "if byte quote = 39 then cliQuoteContinuation s (i + 1) else None")
        case None
        then show ?thesis using "1.prems" i np q nd ne
          by (subst (asm) quotedLoop.simps) (auto split: if_splits)
      next
        case (Some nxt)
        then have "i + 1 \<le> nxt" using skipToQuote_ge [of "i + 1" s False]
          by (auto simp: cliQuoteContinuation_def split: prod.splits if_splits)
        moreover have "quotedLoop ctx s start quote escapes doubled (nxt + 1) decoded = Inr j"
          using "1.prems" i np q nd ne Some by (subst (asm) quotedLoop.simps) (simp split: if_splits)
        ultimately show ?thesis using "1.IH"(2) [OF _ np q nd ne Some] i by fastforce
      qed
    qed
  next
    case q: False
    show ?thesis
    proof (cases "escapes \<and> byte (s ! i) = 92")
      case True
      then obtain k d where k: "cliEscape s i decoded = Inr (k, d)"
        "quotedLoop ctx s start quote escapes doubled k d = Inr j"
        using "1.prems" i np q by (subst (asm) quotedLoop.simps) (auto split: sum.splits)
      from "1.IH"(3) [OF _ np q True k(1) refl k(2)] i cliEscape_bounds [OF k(1)] show ?thesis by simp
    next
      case False
      then have "quotedLoop ctx s start quote escapes doubled (i + 1) (if escapes then decoded @ [s ! i] else decoded) = Inr j"
        using "1.prems" i np q by (subst (asm) quotedLoop.simps) (simp split: if_splits)
      from "1.IH"(4) [OF _ np q False this] i show ?thesis by simp
    qed
  qed
qed

section \<open>Numbers\<close>

text \<open>\<open>(_?P)*\<close>, greedily: the index after it.\<close>

function digitRun :: "(char \<Rightarrow> bool) \<Rightarrow> string \<Rightarrow> nat \<Rightarrow> nat" where
  "digitRun P s i =
     (if sat s i P then digitRun P s (i + 1)
      else if at s i (CHR ''_'') \<and> sat s (i + 1) P then digitRun P s (i + 2)
      else i)"
  by auto
termination by (relation "measure (\<lambda>(P, s, i). length s - i)") (auto simp: sat_def at_def)

declare digitRun.simps [simp del]

definition decimalEnd :: "string \<Rightarrow> nat \<Rightarrow> nat option" where
  "decimalEnd s i = (if sat s i cliDigit then Some (digitRun cliDigit s (i + 1)) else None)"

definition radixEnd :: "char set \<Rightarrow> (char \<Rightarrow> bool) \<Rightarrow> string \<Rightarrow> nat \<Rightarrow> nat option" where
  "radixEnd xs P s i =
     (if at s i (CHR ''0'') \<and> sat s (i + 1) (\<lambda>c. c \<in> xs) \<and> i + 2 < digitRun P s (i + 2)
      then Some (digitRun P s (i + 2)) else None)"

definition numericEnd :: "string \<Rightarrow> nat \<Rightarrow> nat option" where
  "numericEnd s i =
     (case decimalEnd s i of
        Some d \<Rightarrow>
          if at s d (CHR ''.'')
          then Some (case decimalEnd s (d + 1) of Some f \<Rightarrow> f | None \<Rightarrow> d + 1) else None
      | None \<Rightarrow> if at s i (CHR ''.'') then decimalEnd s (i + 1) else None)"

definition exponentEnd :: "string \<Rightarrow> nat \<Rightarrow> nat option" where
  "exponentEnd s m =
     (if sat s m (\<lambda>c. c = CHR ''E'' \<or> c = CHR ''e'')
      then decimalEnd s (if sat s (m + 1) (\<lambda>c. c = CHR ''+'' \<or> c = CHR ''-'') then m + 2 else m + 1)
      else None)"

text \<open>
  The longest match of the alternatives of \<open>cliNumber\<close> at \<open>i\<close>.  A run of digits that is cut
  short is never followed by a dot or an exponent, so each alternative is longest when its
  parts are.
\<close>

definition numberEnd :: "string \<Rightarrow> nat \<Rightarrow> nat" where
  "numberEnd s i =
     foldl (\<lambda>m c. case c of None \<Rightarrow> m | Some e \<Rightarrow> max m e) i
       [decimalEnd s i,
        radixEnd {CHR ''x'', CHR ''X''} (\<lambda>b. cliHex b \<ge> 0) s i,
        radixEnd {CHR ''o'', CHR ''O''} (\<lambda>b. 48 \<le> byte b \<and> byte b \<le> 55) s i,
        radixEnd {CHR ''b'', CHR ''B''} (\<lambda>b. b = CHR ''0'' \<or> b = CHR ''1'') s i,
        numericEnd s i,
        Option.bind (decimalEnd s i) (exponentEnd s),
        Option.bind (numericEnd s i) (exponentEnd s)]"

section \<open>Operators\<close>

definition opByte :: "char \<Rightarrow> bool" where
  "opByte c \<longleftrightarrow> c \<in> set ''~!@#^&|`?+-*/%<>=''"

definition nonSQLByte :: "char \<Rightarrow> bool" where
  "nonSQLByte c \<longleftrightarrow> c \<in> set ''~!@#^&|`?%''"

function operatorRun :: "ctx \<Rightarrow> string \<Rightarrow> nat \<Rightarrow> bool \<Rightarrow> cli_error + (nat \<times> bool)" where
  "operatorRun ctx s en nonSQL =
     (if sat s en opByte then
        (if en mod 4096 = 0 \<and> ctx (PollOperator en) then Inl ErrContext
         else if prefixAt s en ''/*'' \<or> prefixAt s en ''--'' then Inr (en, nonSQL)
         else operatorRun ctx s (en + 1) (nonSQL \<or> nonSQLByte (s ! en)))
      else Inr (en, nonSQL))"
  by auto
termination by (relation "measure (\<lambda>(ctx, s, en, _). length s - en)") (auto simp: sat_def)

declare operatorRun.simps [simp del]

fun trimSigns :: "ctx \<Rightarrow> string \<Rightarrow> nat \<Rightarrow> nat \<Rightarrow> cli_error + nat" where
  "trimSigns ctx s i 0 = Inr 0"
| "trimSigns ctx s i (Suc e) =
     (if Suc e > i + 1 \<and> (s ! e = CHR ''+'' \<or> s ! e = CHR ''-'') then
        (if Suc e mod 4096 = 0 \<and> ctx (PollTrim (Suc e)) then Inl ErrContext else trimSigns ctx s i e)
      else Inr (Suc e))"

section \<open>Tokens\<close>

fun indexOf :: "string \<Rightarrow> string \<Rightarrow> nat option" where
  "indexOf [] p = (if p = [] then Some 0 else None)"
| "indexOf (c # s) p =
     (if take (length p) (c # s) = p then Some 0 else map_option Suc (indexOf s p))"

definition digitsValue :: "string \<Rightarrow> nat" where
  "digitsValue ds = foldl (\<lambda>v c. v * 10 + (byte c - 48)) 0 ds"

definition sliceOf :: "string \<Rightarrow> nat \<Rightarrow> nat \<Rightarrow> string" where
  "sliceOf s a b = take (b - a) (drop a s)"

type_synonym lexed = "cli_error + (cliToken \<times> cliLexer)"

definition emit :: "cliLexer \<Rightarrow> nat \<Rightarrow> string \<Rightarrow> bool \<Rightarrow> lexed" where
  "emit l en w ident =
     Inr (\<lparr>tok_start = pos l, tok_end = en, tok_word = w, tok_identifier = ident\<rparr>, l\<lparr>pos := en\<rparr>)"

text \<open>The quote a token opens: its index, the quote, escape mode, doubled quotes.\<close>

definition quoteOpen :: "string \<Rightarrow> nat \<Rightarrow> (nat \<times> char \<times> bool \<times> bool) option" where
  "quoteOpen s i =
     (if byte (s ! i) = 39 \<or> byte (s ! i) = 34 then Some (i, s ! i, False, True)
      else if sat s (i + 1) (\<lambda>b. byte b = 39) \<and> s ! i \<in> set ''eEbBxXnN'' then
        Some (i + 1, CHR 0x27, s ! i = CHR ''e'' \<or> s ! i = CHR ''E'', s ! i \<notin> set ''bBxX'')
      else if (s ! i = CHR ''u'' \<or> s ! i = CHR ''U'') \<and> at s (i + 1) (CHR ''&'') \<and>
              sat s (i + 2) (\<lambda>b. byte b = 39 \<or> byte b = 34) then
        Some (i + 2, s ! (i + 2), False, True)
      else None)"

definition parameterToken :: "string \<Rightarrow> cliLexer \<Rightarrow> lexed" where
  "parameterToken s l =
     (let i = pos l; en = runFrom cliDigit s (i + 2); number = dropWhile (\<lambda>c. c = CHR ''0'') (sliceOf s (i + 1) en) in
      if sat s en cliIdentStart then Inl ErrUnsupportedCLISQL
      else if length number > 10 \<or> length number = 10 \<and> digitsValue number > 2147483647
      then Inl ErrUnsupportedCLISQL
      else emit l en [] False)"

text \<open>A dollar quote at \<open>i\<close>: the index of the dollar that closes its opening delimiter.\<close>

definition dollarTag :: "string \<Rightarrow> nat \<Rightarrow> nat option" where
  "dollarTag s i =
     (let j = (if sat s (i + 1) cliIdentStart
               then runFrom (\<lambda>b. cliIdentContinue b \<and> b \<noteq> CHR ''$'') s (i + 2) else i + 1)
      in if at s j (CHR ''$'') then Some j else None)"

definition wordToken :: "string \<Rightarrow> cliLexer \<Rightarrow> lexed" where
  "wordToken s l =
     (let i = pos l in
      if cliIdentStart (s ! i) then
        (let en = runFrom cliIdentContinue s (i + 1); w = sliceOf s i en in
         emit l en (if list_all (\<lambda>b. byte b < 0x80) w then map upperByte w else []) True)
      else emit l (i + 1) [s ! i] False)"

definition operatorToken :: "ctx \<Rightarrow> string \<Rightarrow> cliLexer \<Rightarrow> lexed" where
  "operatorToken ctx s l =
     (let i = pos l in
      case operatorRun ctx s (i + 1) (nonSQLByte (s ! i)) of
        Inl e \<Rightarrow> Inl e
      | Inr (runEnd, nonSQL) \<Rightarrow>
          (case (if nonSQL then Inr runEnd else trimSigns ctx s i runEnd) of
             Inl e \<Rightarrow> Inl e
           | Inr en \<Rightarrow>
               if en - i \<ge> 64 then Inl ErrUnsupportedCLISQL
               else emit (if en < runEnd then l\<lparr>operatorSuffixEnd := runEnd\<rparr> else l) en [] False))"

definition numberToken :: "string \<Rightarrow> cliLexer \<Rightarrow> lexed" where
  "numberToken s l =
     (let i = pos l; e0 = numberEnd s i;
          en = (if e0 < length s \<and> s ! (e0 - 1) = CHR ''.'' \<and> s ! e0 = CHR ''.'' then e0 - 1 else e0)
      in if sat s en cliIdentStart then Inl ErrUnsupportedCLISQL else emit l en [] False)"

definition cli_token :: "ctx \<Rightarrow> string \<Rightarrow> cliLexer \<Rightarrow> lexed" where
  "cli_token ctx s l =
     (let i = pos l in
      if i < operatorSuffixEnd l then emit l (i + 1) [] False
      else case quoteOpen s i of
        Some (q, quote, escapes, doubled) \<Rightarrow>
          (case cli_quoted ctx s q quote escapes doubled of
             Inl e \<Rightarrow> Inl e
           | Inr en \<Rightarrow> emit l en [] (byte quote = 34))
      | None \<Rightarrow>
          if cliDigit (s ! i) \<or> s ! i = CHR ''.'' \<and> sat s (i + 1) cliDigit then numberToken s l
          else if s ! i = CHR ''$'' \<and> sat s (i + 1) cliDigit then parameterToken s l
          else case (if s ! i = CHR ''$'' then dollarTag s i else None) of
            Some j \<Rightarrow>
              (case indexOf (drop (j + 1) s) (sliceOf s i (j + 1)) of
                 None \<Rightarrow> Inl ErrUnsupportedCLISQL
               | Some k \<Rightarrow> emit l (j + 1 + k + (j + 1 - i)) [] False)
          | None \<Rightarrow> if opByte (s ! i) then operatorToken ctx s l else wordToken s l)"

section \<open>Blanks and comments\<close>

function commentLoop :: "ctx \<Rightarrow> string \<Rightarrow> nat \<Rightarrow> nat \<Rightarrow> cli_error + (nat \<times> nat)" where
  "commentLoop ctx s i depth =
     (if i < length s \<and> depth > 0 then
        (if i mod 4096 = 0 \<and> ctx (PollComment i) then Inl ErrContext
         else if prefixAt s i ''/*'' then commentLoop ctx s (i + 2) (depth + 1)
         else if prefixAt s i ''*/'' then commentLoop ctx s (i + 2) (depth - 1)
         else commentLoop ctx s (i + 1) depth)
      else Inr (i, depth))"
  by auto
termination by (relation "measure (\<lambda>(ctx, s, i, _). length s - i)") auto

declare commentLoop.simps [simp del]

lemma commentLoop_bounds:
  "commentLoop ctx s i d = Inr (j, d') \<Longrightarrow> i \<le> j \<and> (i \<le> length s \<longrightarrow> j \<le> length s)"
proof (induction ctx s i d rule: commentLoop.induct)
  case (1 ctx s i d)
  have p: "length p = 2 \<Longrightarrow> prefixAt s i p \<Longrightarrow> i + 2 \<le> length s \<or> length s \<le> i" for p
    by (auto simp: prefixAt_def min_def dest!: arg_cong [of _ _ length] split: if_splits)
  have "i + 2 \<le> length s" if "i < length s" "prefixAt s i ''/*'' \<or> prefixAt s i ''*/''"
    using that p [of "''/*''"] p [of "''*/''"] by auto
  then show ?case using 1 by (auto simp: commentLoop.simps [of ctx s i d] split: if_splits)
qed

function lexer_next :: "ctx \<Rightarrow> string \<Rightarrow> cliLexer \<Rightarrow> lexed" where
  "lexer_next ctx s l =
     (if pos l \<ge> length s then
        Inr (\<lparr>tok_start = pos l, tok_end = pos l, tok_word = [], tok_identifier = False\<rparr>, l)
      else if ctx (PollNext (pos l)) then Inl ErrContext
      else if cliSpace (s ! pos l) then lexer_next ctx s (l\<lparr>pos := pos l + 1\<rparr>)
      else if prefixAt s (pos l) ''--'' then
        lexer_next ctx s (l\<lparr>pos := runFrom (\<lambda>b. \<not> lineBreak b) s (pos l + 2)\<rparr>)
      else if prefixAt s (pos l) ''/*'' then
        (case commentLoop ctx s (pos l + 2) 1 of
           Inl e \<Rightarrow> Inl e
         | Inr (j, depth) \<Rightarrow>
             if depth \<noteq> 0 then Inl ErrUnsupportedCLISQL else lexer_next ctx s (l\<lparr>pos := j\<rparr>))
      else cli_token ctx s l)"
  by auto
termination
proof (relation "measure (\<lambda>(ctx, s, l). length s - pos l)", goal_cases)
  case (4 ctx s l r j depth)
  then show ?case using commentLoop_bounds [of ctx s "pos l + 2" 1 j depth] by auto
qed (auto simp: runFrom_def)

declare lexer_next.simps [simp del]

section \<open>Progress\<close>

lemma runFrom_bounds: "i \<le> runFrom P s i \<and> (i \<le> length s \<longrightarrow> runFrom P s i \<le> length s)"
  using length_takeWhile_le [of P "drop i s"] by (auto simp: runFrom_def)

lemma digitRun_bounds: "i \<le> digitRun P s i \<and> (i \<le> length s \<longrightarrow> digitRun P s i \<le> length s)"
proof (induction P s i rule: digitRun.induct)
  case (1 P s i)
  then show ?case by (auto simp: digitRun.simps [of P s i] sat_def at_def)
qed

lemma decimalEnd_bounds: "decimalEnd s i = Some e \<Longrightarrow> i < e \<and> e \<le> length s"
  using digitRun_bounds [of "i + 1" cliDigit s] by (auto simp: decimalEnd_def sat_def split: if_splits)

lemma radixEnd_bounds: "radixEnd xs P s i = Some e \<Longrightarrow> i < e \<and> e \<le> length s"
  using digitRun_bounds [of "i + 2" P s] by (auto simp: radixEnd_def sat_def split: if_splits)

lemma numericEnd_bounds: "numericEnd s i = Some e \<Longrightarrow> i < e \<and> e \<le> length s"
  by (auto simp: numericEnd_def at_def dest!: decimalEnd_bounds split: option.splits if_splits)

lemma exponentEnd_bounds: "exponentEnd s i = Some e \<Longrightarrow> i < e \<and> e \<le> length s"
  by (auto simp: exponentEnd_def dest!: decimalEnd_bounds split: if_splits)

lemma bind_exponent_bounds:
  assumes "\<And>e. m = Some e \<Longrightarrow> i < e"
  shows "Option.bind m (exponentEnd s) = Some e \<Longrightarrow> i < e \<and> e \<le> length s"
  using assms by (cases m) (auto dest: exponentEnd_bounds less_trans)

lemma foldl_max_ge: "m \<le> foldl (\<lambda>m c. case c of None \<Rightarrow> m | Some e \<Rightarrow> max m e) (m :: nat) cs"
proof (induction cs arbitrary: m)
  case (Cons c cs)
  have "m \<le> (case c of None \<Rightarrow> m | Some e \<Rightarrow> max m e)" by (cases c) auto
  then show ?case using Cons [of "case c of None \<Rightarrow> m | Some e \<Rightarrow> max m e"] by simp
qed simp

lemma foldl_max_le:
  "\<forall>e. Some e \<in> set cs \<longrightarrow> e \<le> n \<Longrightarrow> m \<le> n \<Longrightarrow>
   foldl (\<lambda>m c. case c of None \<Rightarrow> m | Some e \<Rightarrow> max m e) m cs \<le> (n :: nat)"
  by (induction cs arbitrary: m) (auto split: option.splits)

lemma foldl_max_member:
  "Some e \<in> set cs \<Longrightarrow> e \<le> foldl (\<lambda>m c. case c of None \<Rightarrow> m | Some e \<Rightarrow> max m e) (m :: nat) cs"
proof (induction cs arbitrary: m)
  case (Cons c cs)
  show ?case using Cons foldl_max_ge [of "max m e" cs] by (cases "c = Some e") auto
qed simp

lemma numberEnd_bounds:
  assumes "sat s i cliDigit \<or> at s i (CHR ''.'') \<and> sat s (i + 1) cliDigit"
  shows "i < numberEnd s i \<and> numberEnd s i \<le> length s \<and> (at s i (CHR ''.'') \<longrightarrow> i + 1 < numberEnd s i)"
proof -
  let ?cs = "[decimalEnd s i,
        radixEnd {CHR ''x'', CHR ''X''} (\<lambda>b. cliHex b \<ge> 0) s i,
        radixEnd {CHR ''o'', CHR ''O''} (\<lambda>b. 48 \<le> byte b \<and> byte b \<le> 55) s i,
        radixEnd {CHR ''b'', CHR ''B''} (\<lambda>b. b = CHR ''0'' \<or> b = CHR ''1'') s i,
        numericEnd s i,
        Option.bind (decimalEnd s i) (exponentEnd s),
        Option.bind (numericEnd s i) (exponentEnd s)]"
  have all: "\<forall>e. Some e \<in> set ?cs \<longrightarrow> e \<le> length s"
    using decimalEnd_bounds [of s i] radixEnd_bounds [of _ _ s i] numericEnd_bounds [of s i]
      bind_exponent_bounds [of "decimalEnd s i" i s] bind_exponent_bounds [of "numericEnd s i" i s]
    by (metis (no_types, lifting) empty_iff empty_set set_ConsD)
  have "i \<le> length s" using assms by (auto simp: sat_def at_def)
  from foldl_max_le [OF all this] have "numberEnd s i \<le> length s" unfolding numberEnd_def .
  moreover have "\<exists>e. Some e \<in> set ?cs \<and> i < e \<and> (at s i (CHR ''.'') \<longrightarrow> i + 1 < e)"
  proof (cases "sat s i cliDigit")
    case True
    then obtain e where "decimalEnd s i = Some e" by (simp add: decimalEnd_def)
    moreover have "\<not> at s i (CHR ''.'')" using True by (auto simp: at_def sat_def cliDigit_def byte_def)
    ultimately show ?thesis using decimalEnd_bounds [of s i e] by auto
  next
    case False
    then obtain e where "decimalEnd s (i + 1) = Some e" using assms by (auto simp: decimalEnd_def)
    moreover from this have "numericEnd s i = Some e" using False assms by (simp add: numericEnd_def decimalEnd_def)
    ultimately show ?thesis using decimalEnd_bounds [of s "i + 1" e] by auto
  qed
  then obtain e where "Some e \<in> set ?cs" "i < e" "at s i (CHR ''.'') \<longrightarrow> i + 1 < e" by blast
  with foldl_max_member [of e ?cs i] show ?thesis using calculation unfolding numberEnd_def by linarith
qed

lemma operatorRun_bounds:
  "operatorRun ctx s i b = Inr (j, c) \<Longrightarrow> i \<le> length s \<Longrightarrow> i \<le> j \<and> j \<le> length s"
proof (induction ctx s i b rule: operatorRun.induct)
  case (1 ctx s i b)
  then show ?case by (auto simp: operatorRun.simps [of ctx s i b] sat_def split: if_splits)
qed

lemma trimSigns_bounds: "trimSigns ctx s i e = Inr k \<Longrightarrow> k \<le> e \<and> (i + 1 \<le> e \<longrightarrow> i + 1 \<le> k)"
  by (induction e) (auto split: if_splits)

lemma indexOf_bounds: "indexOf s p = Some k \<Longrightarrow> k + length p \<le> length s"
proof (induction s arbitrary: k)
  case (Cons c s)
  show ?case
  proof (cases "take (length p) (c # s) = p")
    case True
    then have "length p \<le> length (c # s)" by (metis length_take min.bounded_iff order_refl)
    then show ?thesis using Cons.prems True by simp
  next
    case False
    then show ?thesis using Cons by (auto split: option.splits)
  qed
qed (auto split: if_splits)

text \<open>What a token is: it starts where the lexer stands, ends later, inside the text; its word is
  a semicolon only when it is that one byte.\<close>

definition token_ok :: "string \<Rightarrow> cliLexer \<Rightarrow> cliToken \<times> cliLexer \<Rightarrow> bool" where
  "token_ok s l r \<longleftrightarrow> tok_start (fst r) = pos l \<and> pos l < tok_end (fst r) \<and> tok_end (fst r) \<le> length s \<and>
     pos (snd r) = tok_end (fst r) \<and>
     (tok_word (fst r) = '';'' \<longrightarrow> tok_end (fst r) = pos l + 1 \<and> s ! pos l = CHR '';'')"

lemma emit_ok: "emit l en w b = Inr r \<Longrightarrow> pos l < en \<Longrightarrow> en \<le> length s \<Longrightarrow>
    (w = '';'' \<longrightarrow> en = pos l + 1 \<and> s ! pos l = CHR '';'') \<Longrightarrow> token_ok s l r"
  by (auto simp: emit_def token_ok_def)

lemma numberToken_ok:
  assumes "numberToken s l = Inr r" "pos l < length s"
    "cliDigit (s ! pos l) \<or> s ! pos l = CHR ''.'' \<and> sat s (pos l + 1) cliDigit"
  shows "token_ok s l r"
proof -
  let ?e = "numberEnd s (pos l)"
  define en where "en = (if ?e < length s \<and> s ! (?e - 1) = CHR ''.'' \<and> s ! ?e = CHR ''.'' then ?e - 1 else ?e)"
  have b: "pos l < ?e" "?e \<le> length s" "at s (pos l) (CHR ''.'') \<Longrightarrow> pos l + 1 < ?e"
    using numberEnd_bounds [of s "pos l"] assms(2,3) by (auto simp: sat_def at_def)
  have "pos l < en"
  proof (cases "?e < length s \<and> s ! (?e - 1) = CHR ''.'' \<and> s ! ?e = CHR ''.''")
    case True
    have "?e - 1 \<noteq> pos l"
    proof
      assume "?e - 1 = pos l"
      then have "at s (pos l) (CHR ''.'')" using True assms(2) by (simp add: at_def)
      then show False using b(3) \<open>?e - 1 = pos l\<close> by simp
    qed
    then show ?thesis using True b(1) by (simp add: en_def)
  qed (use b in \<open>auto simp: en_def\<close>)
  moreover have "en \<le> length s" using b by (auto simp: en_def)
  moreover have "emit l en [] False = Inr r"
    using assms(1) by (auto simp: numberToken_def en_def Let_def split: if_splits)
  ultimately show ?thesis by (auto intro: emit_ok)
qed

lemma operatorToken_ok:
  assumes "operatorToken ctx s l = Inr r" "pos l < length s"
  shows "token_ok s l r"
proof -
  from assms(1) obtain re ns en where o: "operatorRun ctx s (pos l + 1) (nonSQLByte (s ! pos l)) = Inr (re, ns)"
    "(if ns then Inr re else trimSigns ctx s (pos l) re) = Inr en"
    "emit (if en < re then l\<lparr>operatorSuffixEnd := re\<rparr> else l) en [] False = Inr r"
    by (auto simp: operatorToken_def Let_def split: sum.splits if_splits)
  have re: "pos l + 1 \<le> re" "re \<le> length s" using operatorRun_bounds [OF o(1)] assms(2) by auto
  have "pos l + 1 \<le> en \<and> en \<le> re" using o(2) re trimSigns_bounds [of ctx s "pos l" re en] by (auto split: if_splits)
  then show ?thesis using o(3) re by (auto simp: emit_def token_ok_def)
qed

lemma wordToken_ok:
  assumes "wordToken s l = Inr r" "pos l < length s"
  shows "token_ok s l r"
proof (cases "cliIdentStart (s ! pos l)")
  case True
  let ?en = "runFrom cliIdentContinue s (pos l + 1)"
  let ?w = "sliceOf s (pos l) ?en"
  have b: "pos l < ?en" "?en \<le> length s" using runFrom_bounds [of "pos l + 1" cliIdentContinue s] assms(2) by auto
  have "map upperByte ?w \<noteq> '';''"
  proof
    assume "map upperByte ?w = '';''"
    moreover have "take (?en - pos l) (drop (pos l) s) = s ! pos l # take (?en - pos l - 1) (drop (Suc (pos l)) s)"
      using b(1) assms(2) by (simp add: take_Cons' Cons_nth_drop_Suc [symmetric])
    ultimately have "upperByte (s ! pos l) = CHR '';''" by (simp add: sliceOf_def)
    then have "s ! pos l = CHR '';'' \<or> 97 \<le> byte (s ! pos l) \<and> byte (s ! pos l) \<le> 122 \<and>
        (char_of (byte (s ! pos l) - 32) :: char) = CHR '';''"
      by (auto simp: upperByte_def split: if_splits)
    then show False
    proof
      assume "s ! pos l = CHR '';''"
      then show False using True by (simp add: cliIdentStart_def byte_def)
    next
      assume *: "97 \<le> byte (s ! pos l) \<and> byte (s ! pos l) \<le> 122 \<and> (char_of (byte (s ! pos l) - 32) :: char) = CHR '';''"
      then have "(of_char (char_of (byte (s ! pos l) - 32) :: char) :: nat) = of_char (CHR '';'')" by simp
      then have "(byte (s ! pos l) - 32) mod 256 = 59" by (simp only: of_char_of) simp
      moreover have "(byte (s ! pos l) - 32) mod 256 = byte (s ! pos l) - 32"
        by (rule mod_less) (use * in linarith)
      ultimately show False using * by linarith
    qed
  qed
  then show ?thesis using assms True b by (auto simp: wordToken_def Let_def intro!: emit_ok split: if_splits)
next
  case False
  then show ?thesis using assms by (auto simp: wordToken_def Let_def intro!: emit_ok)
qed

lemma cli_token_ok:
  assumes "cli_token ctx s l = Inr r" "pos l < length s"
  shows "token_ok s l r"
proof -
  let ?i = "pos l"
  consider "?i < operatorSuffixEnd l" "emit l (?i + 1) [] False = Inr r"
    | q quote e d en where "quoteOpen s ?i = Some (q, quote, e, d)" "cli_quoted ctx s q quote e d = Inr en"
      "emit l en [] (byte quote = 34) = Inr r"
    | "numberToken s l = Inr r" "cliDigit (s ! ?i) \<or> s ! ?i = CHR ''.'' \<and> sat s (?i + 1) cliDigit"
    | "parameterToken s l = Inr r" "sat s (?i + 1) cliDigit"
    | j k where "dollarTag s ?i = Some j" "indexOf (drop (j + 1) s) (sliceOf s ?i (j + 1)) = Some k"
      "emit l (j + 1 + k + (j + 1 - ?i)) [] False = Inr r"
    | "operatorToken ctx s l = Inr r"
    | "wordToken s l = Inr r"
    using assms(1) by (auto simp: cli_token_def Let_def split: if_splits option.splits sum.splits prod.splits)
  then show ?thesis
  proof cases
    case 1
    then show ?thesis using assms(2) by (auto intro: emit_ok)
  next
    case 2
    then have "?i \<le> q" by (auto simp: quoteOpen_def split: if_splits)
    moreover have "q + 1 < en" "en \<le> length s" using quotedLoop_bounds 2(2) unfolding cli_quoted_def by blast+
    ultimately show ?thesis using 2(3) by (auto intro: emit_ok)
  next
    case 3
    then show ?thesis using numberToken_ok assms(2) by blast
  next
    case 4
    let ?en = "runFrom cliDigit s (?i + 2)"
    have "?i + 2 \<le> length s" using 4(2) by (auto simp: sat_def)
    then have "?i < ?en" "?en \<le> length s" using runFrom_bounds [of "?i + 2" cliDigit s] by auto
    moreover have "emit l ?en [] False = Inr r" using 4(1) by (auto simp: parameterToken_def Let_def split: if_splits)
    ultimately show ?thesis by (auto intro: emit_ok)
  next
    case 5
    have j: "j < length s" using 5(1) by (auto simp: dollarTag_def at_def Let_def split: if_splits)
    have "?i < j"
      using 5(1) runFrom_bounds [of "?i + 2" "\<lambda>b. cliIdentContinue b \<and> b \<noteq> CHR ''$''" s]
      by (auto simp: dollarTag_def Let_def split: if_splits)
    moreover have "length (sliceOf s ?i (j + 1)) = j + 1 - ?i" using j by (simp add: sliceOf_def)
    ultimately have "j + 1 + k + (j + 1 - ?i) \<le> length s" using indexOf_bounds [OF 5(2)] j by simp
    then show ?thesis using 5(3) \<open>?i < j\<close> by (auto intro: emit_ok)
  next
    case 6
    then show ?thesis using operatorToken_ok assms(2) by blast
  next
    case 7
    then show ?thesis using wordToken_ok assms(2) by blast
  qed
qed

text \<open>The lexer's next token: the end of the text, or a token after the lexer's position.\<close>

definition lexed_ok :: "string \<Rightarrow> cliLexer \<Rightarrow> cliToken \<times> cliLexer \<Rightarrow> bool" where
  "lexed_ok s l r \<longleftrightarrow>
     (let t = fst r; l' = snd r in
      pos l \<le> tok_start t \<and> tok_end t \<le> length s \<and> pos l' = tok_end t \<and>
      (tok_start t < tok_end t \<and>
         (tok_word t = '';'' \<longrightarrow> tok_end t = tok_start t + 1 \<and> s ! tok_start t = CHR '';'') \<or>
       tok_start t = length s \<and> tok_end t = length s))"

lemma prefixAt2: "length p = 2 \<Longrightarrow> prefixAt s i p \<Longrightarrow> i < length s \<Longrightarrow> i + 2 \<le> length s"
  by (auto simp: prefixAt_def min_def dest!: arg_cong [of _ _ length] split: if_splits)

lemma lexer_next_ok:
  "lexer_next ctx s l = Inr r \<Longrightarrow> pos l \<le> length s \<Longrightarrow> lexed_ok s l r"
proof (induction ctx s l rule: lexer_next.induct)
  case (1 ctx s l)
  show ?case
  proof (cases "pos l \<ge> length s")
    case True
    then show ?thesis using "1.prems" by (auto simp: lexer_next.simps [of ctx s l] lexed_ok_def Let_def)
  next
    case f: False
    then have np: "\<not> ctx (PollNext (pos l))" using "1.prems" by (auto simp: lexer_next.simps [of ctx s l])
    have step: "lexed_ok s l r" if "lexed_ok s (l\<lparr>pos := k\<rparr>) r" "pos l \<le> k" for k
      using that by (auto simp: lexed_ok_def Let_def)
    show ?thesis
    proof (cases "cliSpace (s ! pos l)")
      case True
      then have "lexer_next ctx s (l\<lparr>pos := pos l + 1\<rparr>) = Inr r"
        using "1.prems" f np by (simp add: lexer_next.simps [of ctx s l])
      from "1.IH"(1) [OF f np True this] f show ?thesis by (intro step) auto
    next
      case ns: False
      show ?thesis
      proof (cases "prefixAt s (pos l) ''--''")
        case True
        let ?k = "runFrom (\<lambda>b. \<not> lineBreak b) s (pos l + 2)"
        have "pos l + 2 \<le> length s" using prefixAt2 [OF _ True] f by simp
        then have k: "pos l \<le> ?k" "?k \<le> length s" using runFrom_bounds [of "pos l + 2" "\<lambda>b. \<not> lineBreak b" s] by auto
        have "lexer_next ctx s (l\<lparr>pos := ?k\<rparr>) = Inr r"
          using "1.prems" f np ns True by (simp add: lexer_next.simps [of ctx s l])
        from "1.IH"(2) [OF f np ns True this] k show ?thesis by (intro step) auto
      next
        case nl: False
        show ?thesis
        proof (cases "prefixAt s (pos l) ''/*''")
          case True
          have two: "pos l + 2 \<le> length s" using prefixAt2 [OF _ True] f by simp
          obtain j where j: "commentLoop ctx s (pos l + 2) 1 = Inr (j, 0)" "lexer_next ctx s (l\<lparr>pos := j\<rparr>) = Inr r"
            using "1.prems" f np ns nl True
            by (auto simp: lexer_next.simps [of ctx s l] split: sum.splits if_splits)
          from commentLoop_bounds [OF j(1)] two have "pos l \<le> j" "j \<le> length s" by auto
          with "1.IH"(3) [OF f np ns nl True j(1) refl _ j(2)] show ?thesis by (intro step) auto
        next
          case False
          then have "cli_token ctx s l = Inr r"
            using "1.prems" f np ns nl by (simp add: lexer_next.simps [of ctx s l])
          from cli_token_ok [OF this] f show ?thesis by (auto simp: token_ok_def lexed_ok_def Let_def)
        qed
      qed
    qed
  qed
qed

end
