(* ===== verification/CliStatements.thy ===== *)
theory CliStatements
  imports CliLexer
begin

text \<open>
  Splitting and classifying the SQL a non-interactive run executes
  (\<open>AnalyzeCLIStatements\<close> in \<open>pkg/query/cli_statements.go\<close>): the per-statement context with its
  recognition of SQL-standard routine bodies and of COPY FROM STDIN, and the loop over the
  lexer's tokens.  The lexer is used through the locale \<open>tokenizer\<close>.
\<close>

section \<open>The COPY prefix\<close>

datatype cliCopyState = CopyNone | cliCopyStart | cliCopyName | cliCopyAfterName | cliCopyNameEscape
  | cliCopyGroup | cliCopyDirection | cliCopyEndpoint | cliCopyDone

record cliCopyPrefix =
  cstate :: cliCopyState
  depth :: int

text \<open>The case of \<open>cliCopyName\<close>, which \<open>cliCopyStart\<close> falls through to.\<close>

definition copyName :: "cliCopyPrefix \<Rightarrow> cliToken \<Rightarrow> cli_error + cliCopyPrefix" where
  "copyName c tok =
     (if \<not> tok_identifier tok then Inl ErrUnsupportedCLISQL else Inr (c\<lparr>cstate := cliCopyAfterName\<rparr>))"

definition cliCopyPrefix_consume :: "cliCopyPrefix \<Rightarrow> cliToken \<Rightarrow> int \<Rightarrow> cli_error + cliCopyPrefix" where
  "cliCopyPrefix_consume c tok parens =
     (case cstate c of
        CopyNone \<Rightarrow> Inr c
      | cliCopyStart \<Rightarrow>
          if tok_word tok = ''BINARY'' then Inr (c\<lparr>cstate := cliCopyName\<rparr>)
          else if tok_word tok = ''('' then Inr (c\<lparr>cstate := cliCopyGroup, depth := parens\<rparr>)
          else copyName c tok
      | cliCopyName \<Rightarrow> copyName c tok
      | cliCopyAfterName \<Rightarrow>
          if tok_word tok = ''UESCAPE'' then Inr (c\<lparr>cstate := cliCopyNameEscape\<rparr>)
          else if tok_word tok = ''.'' then Inr (c\<lparr>cstate := cliCopyName\<rparr>)
          else if tok_word tok = ''('' then Inr (c\<lparr>cstate := cliCopyGroup, depth := parens\<rparr>)
          else if tok_word tok = ''FROM'' \<or> tok_word tok = ''TO'' then Inr (c\<lparr>cstate := cliCopyEndpoint\<rparr>)
          else Inl ErrUnsupportedCLISQL
      | cliCopyNameEscape \<Rightarrow>
          if tok_identifier tok \<or> tok_word tok \<noteq> [] then Inl ErrUnsupportedCLISQL
          else Inr (c\<lparr>cstate := cliCopyAfterName\<rparr>)
      | cliCopyGroup \<Rightarrow>
          Inr (if tok_word tok = '')'' \<and> parens = depth c + 1 then c\<lparr>cstate := cliCopyDirection\<rparr> else c)
      | cliCopyDirection \<Rightarrow>
          if tok_word tok \<noteq> ''FROM'' \<and> tok_word tok \<noteq> ''TO'' then Inl ErrUnsupportedCLISQL
          else Inr (c\<lparr>cstate := cliCopyEndpoint\<rparr>)
      | cliCopyEndpoint \<Rightarrow>
          if tok_word tok = ''STDIN'' \<or> tok_word tok = ''STDOUT'' then Inl ErrUnsupportedCLISQL
          else Inr (c\<lparr>cstate := cliCopyDone\<rparr>)
      | cliCopyDone \<Rightarrow> Inr c)"

section \<open>The statement context\<close>

record cliStatementContext =
  prefix :: "string list"
  count :: nat
  routine :: bool
  pendingBegin :: bool
  copy :: cliCopyPrefix

definition emptyContext :: cliStatementContext where
  "emptyContext = \<lparr>prefix = replicate 4 [], count = 0, routine = False, pendingBegin = False,
     copy = \<lparr>cstate = CopyNone, depth = 0\<rparr>\<rparr>"

definition cliStatementContext_consume ::
    "cliStatementContext \<Rightarrow> cliToken \<Rightarrow> int \<Rightarrow> cli_error + (cliStatementContext \<times> bool)" where
  "cliStatementContext_consume s0 tok parens =
     (let w = tok_word tok;
          s1 = (if count s0 = 0 \<and> w = ''COPY'' then s0\<lparr>copy := (copy s0)\<lparr>cstate := cliCopyStart\<rparr>\<rparr> else s0);
          s2 = (if count s1 < length (prefix s1) then
                  (let p = (prefix s1)[count s1 := w]; n = count s1 + 1 in
                   s1\<lparr>prefix := p, count := n,
                      routine := routine s1 \<or>
                        n = 2 \<and> p ! 0 = ''CREATE'' \<and> (p ! 1 = ''FUNCTION'' \<or> p ! 1 = ''PROCEDURE'') \<or>
                        n = 4 \<and> p ! 0 = ''CREATE'' \<and> p ! 1 = ''OR'' \<and> p ! 2 = ''REPLACE'' \<and>
                          (p ! 3 = ''FUNCTION'' \<or> p ! 3 = ''PROCEDURE'')\<rparr>)
                else s1)
      in case (if cstate (copy s2) \<noteq> CopyNone \<and> (count s2 \<noteq> 1 \<or> w \<noteq> ''COPY'')
               then cliCopyPrefix_consume (copy s2) tok parens else Inr (copy s2)) of
           Inl e \<Rightarrow> Inl e
         | Inr c \<Rightarrow>
             Inr (s2\<lparr>copy := c, pendingBegin := routine s2 \<and> parens = 0 \<and> w = ''BEGIN''\<rparr>,
                  routine s2 \<and> parens = 0 \<and> pendingBegin s2 \<and> w = ''ATOMIC''))"

section \<open>The analysis\<close>

record CLIStatement =
  Start :: nat
  End :: nat
  Kind :: StatementKind

record CLIStatementAnalysis =
  Statements :: "CLIStatement list"
  WritesApprovalRequired :: bool
  DDLApprovalRequired :: bool

text \<open>The local variables of the loop.\<close>

record cliScan =
  start :: nat
  parens :: int
  bodies :: int
  hasToken :: bool
  statement :: cliStatementContext
  result :: CLIStatementAnalysis

definition finish :: "string \<Rightarrow> bool \<Rightarrow> bool \<Rightarrow> nat \<Rightarrow> cliScan \<Rightarrow> cliScan" where
  "finish sql confirmWrites confirmDDL en c =
     (let r = result c in
      (if hasToken c then
         (let kind = EffectiveKind (sliceOf sql (start c) en) in
          c\<lparr>result := \<lparr>Statements = Statements r @ [\<lparr>Start = start c, End = en, Kind = kind\<rparr>],
              WritesApprovalRequired = WritesApprovalRequired r \<or> confirmWrites \<and> kind = KindDML,
              DDLApprovalRequired = DDLApprovalRequired r \<or> confirmDDL \<and> kind = KindDDL\<rparr>\<rparr>)
       else c)\<lparr>start := en + 1, hasToken := False\<rparr>)"

text \<open>The body of the loop, for a token that is not the end of the text.\<close>

definition analyzeToken :: "string \<Rightarrow> bool \<Rightarrow> bool \<Rightarrow> cliToken \<Rightarrow> cliScan \<Rightarrow> cli_error + cliScan" where
  "analyzeToken sql cw cd tok c =
     (if tok_word tok = '';'' then
        (if parens c \<noteq> 0 then Inr c
         else Inr ((if bodies c = 0 then finish sql cw cd (tok_start tok) c else c)\<lparr>statement := emptyContext\<rparr>))
      else
        (let c = c\<lparr>hasToken := True\<rparr> in
         if bodies c > 0 \<and> parens c = 0 \<and> count (statement c) = 0 \<and> tok_word tok = ''END'' then
           Inr (c\<lparr>bodies := bodies c - 1, statement := (statement c)\<lparr>count := 1\<rparr>\<rparr>)
         else case cliStatementContext_consume (statement c) tok (parens c) of
           Inl e \<Rightarrow> Inl e
         | Inr (st, opened) \<Rightarrow>
             (let c = (if opened then c\<lparr>bodies := bodies c + 1, statement := emptyContext\<rparr> else c\<lparr>statement := st\<rparr>) in
              if tok_word tok = ''('' then Inr (c\<lparr>parens := parens c + 1\<rparr>)
              else if tok_word tok = '')'' then
                (if parens c - 1 < 0 then Inl ErrUnsupportedCLISQL else Inr (c\<lparr>parens := parens c - 1\<rparr>))
              else Inr c)))"

function analyzeLoop :: "ctx \<Rightarrow> string \<Rightarrow> bool \<Rightarrow> bool \<Rightarrow> cliLexer \<Rightarrow> cliScan \<Rightarrow> cli_error + cliScan" where
  "analyzeLoop ctx sql cw cd l c =
     (case lexer_next ctx sql l of
        Inl e \<Rightarrow> Inl e
      | Inr (tok, l') \<Rightarrow>
          if tok_end tok = tok_start tok then Inr c
          else (case analyzeToken sql cw cd tok c of
                  Inl e \<Rightarrow> Inl e
                | Inr c' \<Rightarrow> analyzeLoop ctx sql cw cd l' c'))"
  by auto
termination
proof (relation "measure (\<lambda>(ctx, sql, cw, cd, l, c). length sql - pos l)", goal_cases)
  case (2 ctx sql cw cd l c r tok l' c')
  then have lx: "lexer_next ctx sql l = Inr (tok, l')" by simp
  show ?case
  proof (cases "pos l \<le> length sql")
    case True
    from lexer_next_ok [OF lx True] 2 show ?thesis by (auto simp: lexed_ok_def Let_def)
  next
    case False
    then show ?thesis using lx 2 by (auto simp: lexer_next.simps [of ctx sql l])
  qed
qed simp

declare analyzeLoop.simps [simp del]

definition AnalyzeCLIStatements ::
    "ctx \<Rightarrow> string \<Rightarrow> int \<Rightarrow> bool \<Rightarrow> bool \<Rightarrow> cli_error + CLIStatementAnalysis" where
  "AnalyzeCLIStatements ctx sql parameterCount confirmWrites confirmDDL =
     (if ctx PollEntry then Inl ErrContext
      else if length sql > 1048576 \<or> parameterCount < 0 \<or> \<not> utf8_Valid sql \<or> char_of (0 :: nat) \<in> set sql
      then Inl ErrInvalidCLIInput
      else
        let empty = \<lparr>Statements = [], WritesApprovalRequired = False, DDLApprovalRequired = False\<rparr> in
        case analyzeLoop ctx sql confirmWrites confirmDDL \<lparr>pos = 0, operatorSuffixEnd = 0\<rparr>
               \<lparr>start = 0, parens = 0, bodies = 0, hasToken = False, statement = emptyContext, result = empty\<rparr> of
          Inl e \<Rightarrow> Inl e
        | Inr c \<Rightarrow>
            if parens c \<noteq> 0 \<or> bodies c \<noteq> 0 then Inl ErrUnsupportedCLISQL
            else (let r = result (finish sql confirmWrites confirmDDL (length sql) c) in
              if ctx PollFinal then Inl ErrContext
              else if Statements r = [] then Inl ErrInvalidCLIInput
              else if parameterCount > 0 \<and> length (Statements r) > 1 then Inl ErrUnsupportedCLISQL
              else Inr r))"

section \<open>The interface of the lexer\<close>

text \<open>
  What the loop needs of a tokenizer over a text of \<open>size\<close> bytes: from a position inside the
  text, the next token starts no earlier, lies inside the text, and leaves the position at its
  end; an empty token is the end of the text.
\<close>

locale tokenizer =
  fixes nxt :: "'l \<Rightarrow> 'e + ('t \<times> 'l)"
    and posOf :: "'l \<Rightarrow> nat" and st :: "'t \<Rightarrow> nat" and en :: "'t \<Rightarrow> nat" and size :: nat
  assumes nxt_ok: "posOf l \<le> size \<Longrightarrow> nxt l = Inr (t, l') \<Longrightarrow>
      posOf l \<le> st t \<and> st t \<le> en t \<and> en t \<le> size \<and> posOf l' = en t \<and> (st t = en t \<longrightarrow> st t = size)"
begin

text \<open>The tokens up to the end of the text or the first error, at most \<open>n\<close>.\<close>

fun toks :: "nat \<Rightarrow> 'l \<Rightarrow> 't list" where
  "toks 0 l = []"
| "toks (Suc n) l =
     (case nxt l of
        Inl e \<Rightarrow> []
      | Inr (t, l') \<Rightarrow> if en t = st t then [] else t # toks n l')"

lemma toks_ordered:
  "posOf l \<le> size \<Longrightarrow>
   sorted_wrt (\<lambda>a b. en a \<le> st b) (toks n l) \<and>
   (\<forall>t \<in> set (toks n l). posOf l \<le> st t \<and> st t < en t \<and> en t \<le> size)"
proof (induction n arbitrary: l)
  case (Suc n)
  show ?case
  proof (cases "nxt l")
    case (Inr r)
    obtain t l' where r: "r = (t, l')" by (cases r)
    from nxt_ok [OF Suc.prems, of t l'] Inr r have *: "posOf l \<le> st t" "st t \<le> en t" "en t \<le> size" "posOf l' = en t"
      by auto
    then have "posOf l' \<le> size" by simp
    note ih = Suc.IH [OF this]
    then have "posOf l \<le> st x" if "x \<in> set (toks n l')" for x using that * by fastforce
    moreover have "en t \<le> st x" if "x \<in> set (toks n l')" for x using that * ih by fastforce
    ultimately show ?thesis using * Inr r ih by auto
  qed simp
qed simp

text \<open>As many tokens as bytes are left are all of them.\<close>

lemma toks_enough:
  "posOf l \<le> size \<Longrightarrow> size - posOf l < n \<Longrightarrow> toks (n + k) l = toks n l"
proof (induction n arbitrary: l)
  case (Suc n)
  show ?case
  proof (cases "nxt l")
    case (Inr r)
    obtain t l' where r: "r = (t, l')" by (cases r)
    from nxt_ok [OF Suc.prems(1), of t l'] Inr r have *: "posOf l \<le> st t" "st t \<le> en t" "en t \<le> size" "posOf l' = en t"
      by auto
    show ?thesis
    proof (cases "en t = st t")
      case False
      then have "posOf l' \<le> size" "size - posOf l' < n" using * Suc.prems by auto
      from Suc.IH [OF this] show ?thesis using Inr r by simp
    qed (use Inr r in simp)
  qed simp
qed simp

end

interpretation sql_lexer: tokenizer "lexer_next ctx sql" pos tok_start tok_end "length sql" for ctx sql
  by unfold_locales (auto simp: lexed_ok_def Let_def dest!: lexer_next_ok)

section \<open>The loop\<close>

text \<open>The tokens of a text.\<close>

definition lexTokens :: "ctx \<Rightarrow> string \<Rightarrow> cliToken list" where
  "lexTokens ctx sql = sql_lexer.toks ctx sql (length sql + 1) \<lparr>pos = 0, operatorSuffixEnd = 0\<rparr>"

definition stmt_ok :: "string \<Rightarrow> CLIStatement \<Rightarrow> bool" where
  "stmt_ok sql a \<longleftrightarrow> Start a < End a \<and> End a \<le> length sql \<and>
     (End a < length sql \<longrightarrow> sql ! End a = CHR '';'') \<and>
     Kind a = EffectiveKind (sliceOf sql (Start a) (End a))"

definition scan_ok :: "string \<Rightarrow> bool \<Rightarrow> bool \<Rightarrow> cliScan \<Rightarrow> nat \<Rightarrow> bool" where
  "scan_ok sql cw cd c p \<longleftrightarrow>
     (let r = result c; as = Statements r in
      sorted_wrt (\<lambda>a b. End a < Start b) as \<and>
      (\<forall>a \<in> set as. stmt_ok sql a \<and> End a < start c) \<and>
      start c \<le> p \<and> p \<le> length sql \<and> (hasToken c \<longrightarrow> start c < p) \<and>
      (WritesApprovalRequired r \<longleftrightarrow> cw \<and> (\<exists>a \<in> set as. Kind a = KindDML)) \<and>
      (DDLApprovalRequired r \<longleftrightarrow> cd \<and> (\<exists>a \<in> set as. Kind a = KindDDL)))"

text \<open>The stretch from \<open>a\<close> to \<open>b\<close> is inside a statement found, or inside the one being read.\<close>

definition covers :: "cliScan \<Rightarrow> nat \<Rightarrow> nat \<Rightarrow> bool" where
  "covers c a b \<longleftrightarrow> (\<exists>s \<in> set (Statements (result c)). Start s \<le> a \<and> b \<le> End s) \<or> hasToken c \<and> start c \<le> a"

lemma finish_ok:
  assumes "scan_ok sql cw cd c p" "p \<le> e" "e \<le> length sql" "e < length sql \<longrightarrow> sql ! e = CHR '';''"
  shows "sorted_wrt (\<lambda>a b. End a < Start b) (Statements (result (finish sql cw cd e c)))"
    and "a \<in> set (Statements (result (finish sql cw cd e c))) \<Longrightarrow> stmt_ok sql a \<and> End a < e + 1"
    and "WritesApprovalRequired (result (finish sql cw cd e c)) \<longleftrightarrow>
      cw \<and> (\<exists>a \<in> set (Statements (result (finish sql cw cd e c))). Kind a = KindDML)"
    and "DDLApprovalRequired (result (finish sql cw cd e c)) \<longleftrightarrow>
      cd \<and> (\<exists>a \<in> set (Statements (result (finish sql cw cd e c))). Kind a = KindDDL)"
    and "start (finish sql cw cd e c) = e + 1" "\<not> hasToken (finish sql cw cd e c)"
    and "covers c x y \<Longrightarrow> y \<le> p \<Longrightarrow> covers (finish sql cw cd e c) x y"
  using assms
  by (auto simp: finish_def scan_ok_def stmt_ok_def covers_def Let_def sorted_wrt_append split: if_splits)

lemma analyzeToken_other:
  "tok_word t \<noteq> '';'' \<Longrightarrow> analyzeToken sql cw cd t c = Inr c' \<Longrightarrow>
   result c' = result c \<and> start c' = start c \<and> hasToken c'"
  by (auto simp: analyzeToken_def Let_def split: if_splits sum.splits)

lemma analyzeToken_ok:
  assumes "scan_ok sql cw cd c p" "p \<le> tok_start t" "tok_start t < tok_end t" "tok_end t \<le> length sql"
    and "tok_word t = '';'' \<longrightarrow> tok_end t = tok_start t + 1 \<and> sql ! tok_start t = CHR '';''"
    and "analyzeToken sql cw cd t c = Inr c'"
  shows "scan_ok sql cw cd c' (tok_end t) \<and> (tok_word t \<noteq> '';'' \<longrightarrow> covers c' (tok_start t) (tok_end t)) \<and>
    (\<forall>x y. covers c x y \<and> y \<le> p \<longrightarrow> covers c' x y)"
proof (cases "tok_word t = '';''")
  case False
  from analyzeToken_other [OF False assms(6)] show ?thesis using assms(1-4)
    by (auto simp: scan_ok_def covers_def Let_def)
next
  case True
  then have e: "tok_end t = tok_start t + 1" "sql ! tok_start t = CHR '';''" using assms(5) by auto
  show ?thesis
  proof (cases "parens c = 0 \<and> bodies c = 0")
    case False
    then have "result c' = result c \<and> start c' = start c \<and> hasToken c' = hasToken c"
      using True assms(6) by (auto simp: analyzeToken_def split: if_splits)
    then show ?thesis using True assms(1-4) by (auto simp: scan_ok_def covers_def Let_def)
  next
    case f: True
    then have c': "c' = (finish sql cw cd (tok_start t) c)\<lparr>statement := emptyContext\<rparr>"
      using True assms(6) by (simp add: analyzeToken_def)
    note fin = finish_ok [OF assms(1,2)] 
    have le: "tok_start t \<le> length sql" "tok_start t < length sql \<longrightarrow> sql ! tok_start t = CHR '';''"
      using assms(3,4) e by auto
    have "scan_ok sql cw cd c' (tok_end t)"
      using fin(1-6) [OF le] e assms(4) by (simp add: scan_ok_def c' Let_def)
    moreover have "\<forall>x y. covers c x y \<and> y \<le> p \<longrightarrow> covers c' x y"
      using fin(7) [OF le] by (auto simp: covers_def c')
    ultimately show ?thesis using True by blast
  qed
qed

lemma analyzeLoop_ok:
  "analyzeLoop ctx sql cw cd l c = Inr c' \<Longrightarrow> scan_ok sql cw cd c (pos l) \<Longrightarrow> length sql - pos l < n \<Longrightarrow>
   scan_ok sql cw cd c' (length sql) \<and>
   (\<forall>t \<in> set (sql_lexer.toks ctx sql n l). tok_word t \<noteq> '';'' \<longrightarrow> covers c' (tok_start t) (tok_end t)) \<and>
   (\<forall>x y. covers c x y \<and> y \<le> pos l \<longrightarrow> covers c' x y)"
proof (induction n arbitrary: l c)
  case (Suc n)
  have p: "pos l \<le> length sql" using Suc.prems(2) by (simp add: scan_ok_def Let_def)
  from Suc.prems(1) obtain t l' where lx: "lexer_next ctx sql l = Inr (t, l')"
    by (auto simp: analyzeLoop.simps [of ctx sql cw cd l c] split: sum.splits prod.splits)
  from lexer_next_ok [OF lx p] have t: "pos l \<le> tok_start t" "tok_start t \<le> tok_end t" "tok_end t \<le> length sql"
    "pos l' = tok_end t" "tok_start t \<noteq> tok_end t \<Longrightarrow> tok_word t = '';'' \<longrightarrow> tok_end t = tok_start t + 1 \<and> sql ! tok_start t = CHR '';''"
    by (auto simp: lexed_ok_def Let_def)
  show ?case
  proof (cases "tok_end t = tok_start t")
    case True
    then have "c' = c" using Suc.prems(1) lx by (simp add: analyzeLoop.simps [of ctx sql cw cd l c])
    then show ?thesis using Suc.prems(2) lx True by (auto simp: scan_ok_def Let_def)
  next
    case False
    then obtain c1 where c1: "analyzeToken sql cw cd t c = Inr c1" "analyzeLoop ctx sql cw cd l' c1 = Inr c'"
      using Suc.prems(1) lx by (auto simp: analyzeLoop.simps [of ctx sql cw cd l c] split: sum.splits)
    have lt: "tok_start t < tok_end t" using False t(2) by simp
    from analyzeToken_ok [OF Suc.prems(2) t(1) lt t(3) t(5) c1(1)] False have
      s1: "scan_ok sql cw cd c1 (tok_end t)" "tok_word t \<noteq> '';'' \<longrightarrow> covers c1 (tok_start t) (tok_end t)"
        "\<forall>x y. covers c x y \<and> y \<le> pos l \<longrightarrow> covers c1 x y" by auto
    have "length sql - pos l' < n" using lt t Suc.prems(3) by linarith
    from Suc.IH [OF c1(2) _ this] s1(1) t(4) have ih: "scan_ok sql cw cd c' (length sql)"
      "\<forall>t \<in> set (sql_lexer.toks ctx sql n l'). tok_word t \<noteq> '';'' \<longrightarrow> covers c' (tok_start t) (tok_end t)"
      "\<forall>x y. covers c1 x y \<and> y \<le> tok_end t \<longrightarrow> covers c' x y" by auto
    have "covers c' x y" if "covers c x y" "y \<le> pos l" for x y
      using that s1(3) ih(3) t(1,2) by (meson order_trans)
    moreover have "tok_word t \<noteq> '';'' \<longrightarrow> covers c' (tok_start t) (tok_end t)" using s1(2) ih(3) by blast
    ultimately show ?thesis using ih(1,2) lx False by auto
  qed
qed simp

section \<open>Properties\<close>

text \<open>
  From any position inside the text, the lexer's next token (when it returns one) starts
  no earlier, ends later unless it is the end of the text, lies inside the text and leaves the
  lexer at its end; a separator token is exactly one semicolon byte.
\<close>

theorem lexer_progress:
  assumes "pos l \<le> length sql" "lexer_next ctx sql l = Inr (t, l')"
  shows "pos l \<le> tok_start t \<and> tok_end t \<le> length sql \<and> pos l' = tok_end t \<and>
    (tok_start t < tok_end t \<or> tok_start t = length sql \<and> tok_end t = length sql) \<and>
    (tok_start t < tok_end t \<and> tok_word t = '';'' \<longrightarrow>
       tok_end t = tok_start t + 1 \<and> sql ! tok_start t = CHR '';'')"
  using lexer_next_ok [OF assms(2,1)] by (auto simp: lexed_ok_def Let_def)

theorem lexer_progress_witness:
  "lexer_next (\<lambda>_. False) ''a;'' \<lparr>pos = 1, operatorSuffixEnd = 0\<rparr> =
     Inr (\<lparr>tok_start = 1, tok_end = 2, tok_word = '';'', tok_identifier = False\<rparr>, \<lparr>pos = 2, operatorSuffixEnd = 0\<rparr>) \<and>
   (1 :: nat) \<le> 1 \<and> (2 :: nat) \<le> length ''a;''"
proof -
  have a: "lexer_next (\<lambda>_. False) ''a;'' \<lparr>pos = 1, operatorSuffixEnd = 0\<rparr> =
     Inr (\<lparr>tok_start = 1, tok_end = 2, tok_word = '';'', tok_identifier = False\<rparr>, \<lparr>pos = 2, operatorSuffixEnd = 0\<rparr>)"
    by code_simp
  from lexer_progress [OF _ a] a show ?thesis by simp
qed

lemma analysis_split:
  assumes "AnalyzeCLIStatements ctx sql n cw cd = Inr r"
  shows "Statements r \<noteq> [] \<and> (0 < n \<longrightarrow> length (Statements r) = 1) \<and>
    sorted_wrt (\<lambda>a b. End a < Start b) (Statements r) \<and>
    (\<forall>a \<in> set (Statements r). Start a < End a \<and> End a \<le> length sql \<and>
       (End a < length sql \<longrightarrow> sql ! End a = CHR '';'') \<and>
       Kind a = EffectiveKind (sliceOf sql (Start a) (End a))) \<and>
    (\<forall>t \<in> set (lexTokens ctx sql). tok_word t \<noteq> '';'' \<longrightarrow>
       (\<exists>a \<in> set (Statements r). Start a \<le> tok_start t \<and> tok_end t \<le> End a)) \<and>
    (WritesApprovalRequired r \<longleftrightarrow> cw \<and> (\<exists>a \<in> set (Statements r). Kind a = KindDML)) \<and>
    (DDLApprovalRequired r \<longleftrightarrow> cd \<and> (\<exists>a \<in> set (Statements r). Kind a = KindDDL)) \<and>
    0 \<le> n \<and> length sql \<le> 1048576 \<and> utf8_Valid sql \<and> char_of (0 :: nat) \<notin> set sql"
proof -
  let ?l = "\<lparr>pos = 0, operatorSuffixEnd = 0\<rparr>"
  let ?c = "\<lparr>start = 0, parens = 0, bodies = 0, hasToken = False, statement = emptyContext,
    result = \<lparr>Statements = [], WritesApprovalRequired = False, DDLApprovalRequired = False\<rparr>\<rparr>"
  from assms obtain c where c: "analyzeLoop ctx sql cw cd ?l ?c = Inr c"
    "r = result (finish sql cw cd (length sql) c)" "Statements r \<noteq> []"
    "0 < n \<longrightarrow> \<not> length (Statements r) > 1" "0 \<le> n" "length sql \<le> 1048576" "utf8_Valid sql" "char_of (0 :: nat) \<notin> set sql"
    by (auto simp: AnalyzeCLIStatements_def Let_def split: if_splits sum.splits)
  have "scan_ok sql cw cd ?c (pos ?l)" by (simp add: scan_ok_def)
  from analyzeLoop_ok [OF c(1) this, of "length sql + 1"] have
    ok: "scan_ok sql cw cd c (length sql)" and
    tk: "\<forall>t \<in> set (lexTokens ctx sql). tok_word t \<noteq> '';'' \<longrightarrow> covers c (tok_start t) (tok_end t)"
    by (simp_all add: lexTokens_def)
  note fin = finish_ok [OF ok order_refl order_refl, simplified, folded c(2)]
  have "\<exists>a \<in> set (Statements r). Start a \<le> tok_start t \<and> tok_end t \<le> End a"
    if "t \<in> set (lexTokens ctx sql)" "tok_word t \<noteq> '';''" for t
  proof -
    have "tok_end t \<le> length sql"
      using that(1) sql_lexer.toks_ordered [where l = ?l and n = "length sql + 1" and ctx = ctx and sql = sql] by (auto simp: lexTokens_def)
    then have "covers (finish sql cw cd (length sql) c) (tok_start t) (tok_end t)"
      using finish_ok(7) [OF ok order_refl order_refl] tk that by simp
    then show ?thesis using fin(5) by (simp add: covers_def c(2) fin(6))
  qed
  moreover have "0 < n \<longrightarrow> length (Statements r) = 1"
    using c(3,4) by (cases "Statements r") auto
  ultimately show ?thesis using c fin by (auto simp: stmt_ok_def)
qed



end
