(* ===== verification/KeyChord.thy ===== *)
theory KeyChord
  imports Modes
begin

text \<open>
  Chord keys and their shorthand (\<open>pkg/gui/types/chord_binding.go\<close>, \<open>pkg/config/keynames.go\<close>,
  \<open>pkg/gui/keys/sequence_parser.go\<close>): the key record and its label, the parser of key
  sequences, leader expansion and the mode tokens of a binding.  Shorthand is text handled rune
  by rune, so it is a list of runes; a byte string that is not UTF-8 is outside the model.
  \<open>strings.ToLower\<close> is the parameter \<open>lower\<close>, the library's rune-wise table.
\<close>

unbundle bit_operations_syntax

section \<open>Keys\<close>

datatype SpecialKey = KeyNone | KeyEsc | KeyEnter | KeyTab | KeyBacktab | KeyBs | KeySpace
  | KeyUp | KeyDown | KeyLeft | KeyRight | KeyHome | KeyEnd | KeyPgUp | KeyPgDn | KeyIns | KeyDel
  | KeyF1 | KeyF2 | KeyF3 | KeyF4 | KeyF5 | KeyF6 | KeyF7 | KeyF8 | KeyF9 | KeyF10 | KeyF11 | KeyF12
  | KeyLeader | KeyLocalLeader

type_synonym modifier = "8 word"

definition ChordModCtrl :: modifier where "ChordModCtrl = 1"
definition ChordModAlt :: modifier where "ChordModAlt = 2"
definition ChordModShift :: modifier where "ChordModShift = 4"
definition ChordModMeta :: modifier where "ChordModMeta = 8"

lemmas chord_mod_defs = ChordModCtrl_def ChordModAlt_def ChordModShift_def ChordModMeta_def

record ChordKey =
  Code :: rune
  Special :: SpecialKey
  Mod :: modifier

definition IsLeaderPlaceholder :: "ChordKey \<Rightarrow> bool" where
  "IsLeaderPlaceholder k \<longleftrightarrow> Special k = KeyLeader \<or> Special k = KeyLocalLeader"

text \<open>An ASCII literal as runes.\<close>

definition str :: "string \<Rightarrow> runes" where
  "str s = map of_char s"

fun specialName :: "SpecialKey \<Rightarrow> string" where
  "specialName KeyNone = ''''"
| "specialName KeyEsc = ''esc''"
| "specialName KeyEnter = ''cr''"
| "specialName KeyTab = ''tab''"
| "specialName KeyBacktab = ''backtab''"
| "specialName KeyBs = ''bs''"
| "specialName KeySpace = ''space''"
| "specialName KeyUp = ''up''"
| "specialName KeyDown = ''down''"
| "specialName KeyLeft = ''left''"
| "specialName KeyRight = ''right''"
| "specialName KeyHome = ''home''"
| "specialName KeyEnd = ''end''"
| "specialName KeyPgUp = ''pgup''"
| "specialName KeyPgDn = ''pgdn''"
| "specialName KeyIns = ''ins''"
| "specialName KeyDel = ''del''"
| "specialName KeyF1 = ''f1''"
| "specialName KeyF2 = ''f2''"
| "specialName KeyF3 = ''f3''"
| "specialName KeyF4 = ''f4''"
| "specialName KeyF5 = ''f5''"
| "specialName KeyF6 = ''f6''"
| "specialName KeyF7 = ''f7''"
| "specialName KeyF8 = ''f8''"
| "specialName KeyF9 = ''f9''"
| "specialName KeyF10 = ''f10''"
| "specialName KeyF11 = ''f11''"
| "specialName KeyF12 = ''f12''"
| "specialName KeyLeader = ''leader''"
| "specialName KeyLocalLeader = ''localleader''"

text \<open>The modifier prefix of a label; a bare blank shows as the open box U+2423.\<close>

definition modPrefix :: "modifier \<Rightarrow> runes" where
  "modPrefix m =
     (if m AND ChordModCtrl \<noteq> 0 then str ''c-'' else []) @
     (if m AND ChordModAlt \<noteq> 0 then str ''a-'' else []) @
     (if m AND ChordModShift \<noteq> 0 then str ''s-'' else []) @
     (if m AND ChordModMeta \<noteq> 0 then str ''m-'' else [])"

definition ChordKey_String :: "ChordKey \<Rightarrow> runes" where
  "ChordKey_String k =
     (let bracketed = (Special k \<noteq> KeyNone \<or> Mod k \<noteq> 0);
          body = (if Special k = KeyNone then
                    (if Code k = 32 then [0x2423] else if Code k \<noteq> 0 then [Code k] else [])
                  else str (specialName (Special k)))
      in (if bracketed then str ''<'' else []) @ modPrefix (Mod k) @ body @
         (if bracketed then str ''>'' else []))"

definition SequenceString :: "ChordKey list \<Rightarrow> runes" where
  "SequenceString ks = concat (map ChordKey_String ks)"

section \<open>Parsing labels\<close>

datatype keyname_error = EmptyLabel | StrayBracket | NotSingleRune | UnclosedBracket | EmptyBracket
  | UnknownSpecial | EmptyModifier | UnknownModifier | ModifierWithoutKey | UnknownKey
  | EmptySequence | UnterminatedBracket | TooManyTokens | MultiRuneLabel | InvalidLabel

record KeyLabel =
  Mods :: "string list"
  Key :: runes

definition modAliases :: "(string \<times> string) list" where
  "modAliases = [(''c'', ''ctrl''), (''ctrl'', ''ctrl''), (''control'', ''ctrl''),
     (''a'', ''alt''), (''alt'', ''alt''), (''opt'', ''alt''), (''option'', ''alt''),
     (''s'', ''shift''), (''shift'', ''shift''),
     (''m'', ''meta''), (''meta'', ''meta''), (''cmd'', ''meta''), (''super'', ''meta''), (''win'', ''meta'')]"

definition modOrder :: "string \<Rightarrow> nat" where
  "modOrder m =
     (case map_of [(''ctrl'', 0), (''alt'', 1), (''shift'', 2), (''meta'', 3)] m of
        Some n \<Rightarrow> n | None \<Rightarrow> 0)"

definition specialNames :: "string list" where
  "specialNames = [''leader'', ''localleader'', ''esc'', ''cr'', ''enter'', ''tab'', ''bs'',
     ''backspace'', ''space'', ''up'', ''down'', ''left'', ''right'', ''home'', ''end'', ''pgup'',
     ''pgdn'', ''del'', ''ins'', ''f1'', ''f2'', ''f3'', ''f4'', ''f5'', ''f6'', ''f7'', ''f8'',
     ''f9'', ''f10'', ''f11'', ''f12'']"

text \<open>\<open>strings.Split\<close> at one separator rune.\<close>

fun splitOn :: "rune \<Rightarrow> runes \<Rightarrow> runes list" where
  "splitOn s [] = [[]]"
| "splitOn s (c # cs) =
     (if c = s then [] # splitOn s cs
      else case splitOn s cs of p # ps \<Rightarrow> (c # p) # ps | [] \<Rightarrow> [[c]])"

text \<open>The loop over the modifiers; \<open>seen\<close> is the slice \<open>mods\<close> built so far.\<close>

fun canonMods :: "(rune \<Rightarrow> rune) \<Rightarrow> runes list \<Rightarrow> string list \<Rightarrow> keyname_error + string list" where
  "canonMods lower [] seen = Inr seen"
| "canonMods lower (m # ms) seen =
     (if m = [] then Inl EmptyModifier
      else case map_of (map (\<lambda>(a, c). (str a, c)) modAliases) (map lower m) of
        None \<Rightarrow> Inl UnknownModifier
      | Some canon \<Rightarrow> canonMods lower ms (if canon \<in> set seen then seen else seen @ [canon]))"

text \<open>The insertion sort of \<open>sortMods\<close>: an element moves left past strictly larger ones.\<close>

fun insertMod :: "string \<Rightarrow> string list \<Rightarrow> string list" where
  "insertMod m [] = [m]"
| "insertMod m (x # xs) = (if modOrder m < modOrder x then m # x # xs else x # insertMod m xs)"

definition sortMods :: "string list \<Rightarrow> string list" where
  "sortMods ms = foldl (\<lambda>acc m. insertMod m acc) [] ms"

definition ParseKeyLabel :: "(rune \<Rightarrow> rune) \<Rightarrow> runes \<Rightarrow> keyname_error + KeyLabel" where
  "ParseKeyLabel lower label =
     (if label = [] then Inl EmptyLabel
      else if hd label \<noteq> 60 then
        (if 60 \<in> set label \<or> 62 \<in> set label then Inl StrayBracket
         else if length label \<noteq> 1 then Inl NotSingleRune
         else Inr \<lparr>Mods = [], Key = label\<rparr>)
      else if last label \<noteq> 62 then Inl UnclosedBracket
      else let inner = butlast (tl label) in
        if inner = [] then Inl EmptyBracket
        else let parts = splitOn 45 inner in
          if length parts = 1 then
            (let name = map lower (hd parts) in
             if name \<in> set (map str specialNames) then Inr \<lparr>Mods = [], Key = name\<rparr> else Inl UnknownSpecial)
          else case canonMods lower (butlast parts) [] of
              Inl e \<Rightarrow> Inl e
            | Inr mods \<Rightarrow>
                (let key = last parts in
                 if key = [] then Inl ModifierWithoutKey
                 else if length key \<noteq> 1 then
                   (if map lower key \<in> set (map str specialNames)
                    then Inr \<lparr>Mods = sortMods mods, Key = map lower key\<rparr> else Inl UnknownKey)
                 else Inr \<lparr>Mods = sortMods mods, Key = key\<rparr>))"

definition maxSequenceTokens :: nat where
  "maxSequenceTokens = 32"

fun keyTokens :: "runes \<Rightarrow> keyname_error + runes list" where
  "keyTokens [] = Inr []"
| "keyTokens (c # cs) =
     (if c = 60 then
        (if 62 \<notin> set cs then Inl UnterminatedBracket
         else let n = length (takeWhile (\<lambda>r. r \<noteq> 62) cs) in
           case keyTokens (drop (n + 1) cs) of
             Inl e \<Rightarrow> Inl e
           | Inr ts \<Rightarrow> Inr ((c # take (n + 1) cs) # ts))
      else case keyTokens cs of Inl e \<Rightarrow> Inl e | Inr ts \<Rightarrow> Inr ([c] # ts))"

text \<open>A loop that stops at the first error.\<close>

fun mapE :: "('a \<Rightarrow> 'e + 'b) \<Rightarrow> 'a list \<Rightarrow> 'e + 'b list" where
  "mapE f [] = Inr []"
| "mapE f (x # xs) =
     (case f x of
        Inl e \<Rightarrow> Inl e
      | Inr y \<Rightarrow> (case mapE f xs of Inl e \<Rightarrow> Inl e | Inr ys \<Rightarrow> Inr (y # ys)))"

definition ParseKeySequence :: "(rune \<Rightarrow> rune) \<Rightarrow> runes \<Rightarrow> keyname_error + KeyLabel list" where
  "ParseKeySequence lower s =
     (if s = [] then Inl EmptySequence
      else case keyTokens s of
        Inl e \<Rightarrow> Inl e
      | Inr tokens \<Rightarrow>
          if length tokens > maxSequenceTokens then Inl TooManyTokens
          else mapE (ParseKeyLabel lower) tokens)"

section \<open>From labels to keys\<close>

definition specialKeyByName :: "(string \<times> SpecialKey) list" where
  "specialKeyByName = [(''leader'', KeyLeader), (''localleader'', KeyLocalLeader), (''esc'', KeyEsc),
     (''cr'', KeyEnter), (''enter'', KeyEnter), (''tab'', KeyTab), (''bs'', KeyBs),
     (''backspace'', KeyBs), (''up'', KeyUp), (''down'', KeyDown), (''left'', KeyLeft),
     (''right'', KeyRight), (''home'', KeyHome), (''end'', KeyEnd), (''pgup'', KeyPgUp),
     (''pgdn'', KeyPgDn), (''ins'', KeyIns), (''del'', KeyDel), (''f1'', KeyF1), (''f2'', KeyF2),
     (''f3'', KeyF3), (''f4'', KeyF4), (''f5'', KeyF5), (''f6'', KeyF6), (''f7'', KeyF7),
     (''f8'', KeyF8), (''f9'', KeyF9), (''f10'', KeyF10), (''f11'', KeyF11), (''f12'', KeyF12)]"

fun modBits :: "string list \<Rightarrow> modifier \<Rightarrow> keyname_error + modifier" where
  "modBits [] m = Inr m"
| "modBits (n # ns) m =
     (if n = ''ctrl'' then modBits ns (m OR ChordModCtrl)
      else if n = ''alt'' then modBits ns (m OR ChordModAlt)
      else if n = ''shift'' then modBits ns (m OR ChordModShift)
      else if n = ''meta'' then modBits ns (m OR ChordModMeta)
      else Inl UnknownModifier)"

definition keyFromLabel :: "KeyLabel \<Rightarrow> keyname_error + ChordKey" where
  "keyFromLabel lbl =
     (case modBits (Mods lbl) 0 of
        Inl e \<Rightarrow> Inl e
      | Inr m \<Rightarrow>
          if Key lbl = str ''space'' then Inr \<lparr>Code = 32, Special = KeyNone, Mod = m\<rparr>
          else case map_of (map (\<lambda>(n, k). (str n, k)) specialKeyByName) (Key lbl) of
            Some sp \<Rightarrow> Inr \<lparr>Code = 0, Special = sp, Mod = m\<rparr>
          | None \<Rightarrow> if Key lbl = [] \<or> hd (Key lbl) = 0xFFFD then Inl InvalidLabel
                    else if length (Key lbl) \<noteq> 1 then Inl MultiRuneLabel
                    else Inr \<lparr>Code = hd (Key lbl), Special = KeyNone, Mod = m\<rparr>)"

definition SequenceFromShorthand :: "(rune \<Rightarrow> rune) \<Rightarrow> runes \<Rightarrow> keyname_error + ChordKey list" where
  "SequenceFromShorthand lower s =
     (case ParseKeySequence lower s of Inl e \<Rightarrow> Inl e | Inr labels \<Rightarrow> mapE keyFromLabel labels)"

definition expandLeaderTokens :: "ChordKey list \<Rightarrow> rune \<Rightarrow> rune \<Rightarrow> ChordKey list" where
  "expandLeaderTokens ks leader localLeader =
     map (\<lambda>k. case Special k of
            KeyLeader \<Rightarrow> k\<lparr>Special := KeyNone, Code := leader\<rparr>
          | KeyLocalLeader \<Rightarrow> k\<lparr>Special := KeyNone, Code := localLeader\<rparr>
          | _ \<Rightarrow> k) ks"

section \<open>Modes of a binding\<close>

definition modeByToken :: "(string \<times> mode) list" where
  "modeByToken = [(''n'', ModeNormal), (''i'', ModeInsert), (''v'', ModeVisual), (''x'', ModeVisual),
     (''V'', ModeVisualLine), (''<c-v>'', ModeVisualBlock), (''o'', ModeOperatorPending), (''c'', ModeCommand)]"

definition modeBitsFromTokens :: "runes list \<Rightarrow> unit + mode list" where
  "modeBitsFromTokens tokens =
     (if tokens = [] then Inl ()
      else mapE (\<lambda>t. case map_of (map (\<lambda>(n, m). (str n, m)) modeByToken) t of None \<Rightarrow> Inl () | Some m \<Rightarrow> Inr m) tokens)"

text \<open>
  The individual bits of a mask, lowest first.  The loop doubles \<open>bit\<close> while it is at most the
  mask and stops when the doubling wraps to 0; its 32 values are the list below.
\<close>

definition modeBits :: "mode \<Rightarrow> mode list" where
  "modeBits m =
     (if m = ModeNormal then [ModeNormal]
      else filter (\<lambda>b. b \<le> m \<and> m AND b \<noteq> 0) (map (\<lambda>n. push_bit n 1) [0..<32]))"

section \<open>Shorthand round trip\<close>

definition lower_ok :: "(rune \<Rightarrow> rune) \<Rightarrow> bool" where
  "lower_ok lower \<longleftrightarrow> (\<forall>r. 97 \<le> r \<and> r \<le> 122 \<or> 48 \<le> r \<and> r \<le> 57 \<longrightarrow> lower r = r)"

text \<open>The keys whose label is shorthand for them.\<close>

definition key_ok :: "ChordKey \<Rightarrow> bool" where
  "key_ok k \<longleftrightarrow> Mod k < 16 \<and>
     (if Special k = KeyNone then Code k \<notin> {0, 32, 62, 0xFFFD} \<and> (if Mod k = 0 then Code k \<noteq> 60 else Code k \<noteq> 45)
      else Code k = 0 \<and> Special k \<noteq> KeyBacktab \<and> Special k \<noteq> KeySpace)"

lemma mapE_Inr: "mapE f xs = Inr ys \<longleftrightarrow> list_all2 (\<lambda>x y. f x = Inr y) xs ys"
proof (induction xs arbitrary: ys)
  case (Cons x xs)
  show ?case
    by (cases "f x"; cases "mapE f xs"; cases ys) (auto simp: Cons [symmetric])
qed auto

lemma splitOn_plain: "s \<notin> set p \<Longrightarrow> splitOn s p = [p]"
  by (induction p) auto

lemma splitOn_nonempty [simp]: "splitOn s p \<noteq> []"
  by (cases p) (auto split: list.splits)

lemma splitOn_append: "s \<notin> set p \<Longrightarrow> splitOn s (p @ s # q) = p # splitOn s q"
  by (induction p) auto

lemma splitOn_parts: "p \<in> set (splitOn s xs) \<Longrightarrow> s \<notin> set p \<and> set p \<subseteq> set xs"
proof (induction xs arbitrary: p)
  case (Cons x xs)
  then show ?case by (cases "splitOn s xs") (fastforce split: if_splits)+
qed simp

text \<open>The name of a special key that has a shorthand is known, in lower case and without a dash.\<close>

lemma specialName_ok:
  assumes "lower_ok lower" "sp \<noteq> KeyNone" "sp \<noteq> KeyBacktab" "sp \<noteq> KeySpace"
  shows "map lower (str (specialName sp)) = str (specialName sp)"
    "str (specialName sp) \<in> set (map str specialNames)"
    "map_of (map (\<lambda>(n, k). (str n, k)) specialKeyByName) (str (specialName sp)) = Some sp"
    "str (specialName sp) \<noteq> str ''space''" "45 \<notin> set (str (specialName sp))"
    "62 \<notin> set (str (specialName sp))" "1 < length (str (specialName sp))"
  using assms by (cases sp; simp add: lower_ok_def str_def specialNames_def specialKeyByName_def)+


text \<open>The modifier prefix, as parts before their dashes, and what the parser makes of them.\<close>

definition modParts :: "modifier \<Rightarrow> string list" where
  "modParts m =
     (if m AND ChordModCtrl \<noteq> 0 then [''c''] else []) @ (if m AND ChordModAlt \<noteq> 0 then [''a''] else []) @
     (if m AND ChordModShift \<noteq> 0 then [''s''] else []) @ (if m AND ChordModMeta \<noteq> 0 then [''m''] else [])"

lemma modPrefix_parts: "modPrefix m = concat (map (\<lambda>p. str p @ [45]) (modParts m))"
  by (auto simp: modPrefix_def modParts_def str_def)

lemma small_mods: "(m :: modifier) < 16 \<Longrightarrow> m \<in> {0, 1, 2, 3, 4, 5, 6, 7, 8, 9, 10, 11, 12, 13, 14, 15}"
proof -
  assume "m < 16"
  then have "unat m < 16" by (simp add: word_less_nat_alt)
  then have "unat m \<in> {0..<16}" by simp
  then have "(word_of_nat (unat m) :: modifier) \<in> word_of_nat ` {0..<16 :: nat}" by (rule imageI)
  then have "m \<in> word_of_nat ` {0..<16 :: nat}" by simp
  moreover have "{0..<16 :: nat} = {0, 1, 2, 3, 4, 5, 6, 7, 8, 9, 10, 11, 12, 13, 14, 15}"
    by (rule set_eqI, simp, arith)
  ultimately show ?thesis by simp
qed

lemma modParts_canon:
  assumes "lower_ok lower" "m < 16"
  shows "\<exists>ns. canonMods lower (map str (modParts m)) [] = Inr ns \<and> modBits (sortMods ns) 0 = Inr m"
proof -
  have l: "lower 97 = 97" "lower 99 = 99" "lower 109 = 109" "lower 115 = 115"
    using assms(1) by (simp_all add: lower_ok_def)
  from small_mods [OF assms(2)] show ?thesis
    by (auto simp: modParts_def chord_mod_defs str_def modAliases_def l sortMods_def modOrder_def)
qed


lemma splitOn_mods:
  "45 \<notin> set b \<Longrightarrow> \<forall>p \<in> set ps. 45 \<notin> set (str p) \<Longrightarrow>
   splitOn 45 (concat (map (\<lambda>p. str p @ [45]) ps) @ b) = map str ps @ [b]"
  by (induction ps) (simp_all add: splitOn_plain splitOn_append)

lemma modParts_plain: "p \<in> set (modParts m) \<Longrightarrow> 45 \<notin> set (str p) \<and> 62 \<notin> set (str p)"
  by (auto simp: modParts_def str_def split: if_splits)

lemma modParts_Nil: "m < 16 \<Longrightarrow> modParts m = [] \<longleftrightarrow> m = 0"
  using small_mods [of m] by (auto simp: modParts_def chord_mod_defs)

text \<open>A bracketed label.\<close>

lemma parse_bracketed:
  assumes low: "lower_ok lower" and m: "m < 16" and b: "45 \<notin> set b" "b \<noteq> []" "62 \<notin> set b"
    and key: "map lower b = b \<and> b \<in> set (map str specialNames) \<or> m \<noteq> 0 \<and> length b = 1"
  shows "\<exists>ns. ParseKeyLabel lower (60 # modPrefix m @ b @ [62]) = Inr \<lparr>Mods = ns, Key = b\<rparr> \<and> modBits ns 0 = Inr m"
proof -
  from modParts_canon [OF low m] obtain ns where
    ns: "canonMods lower (map str (modParts m)) [] = Inr ns" "modBits (sortMods ns) 0 = Inr m" by blast
  have sp: "splitOn 45 (modPrefix m @ b) = map str (modParts m) @ [b]"
    unfolding modPrefix_parts by (rule splitOn_mods) (use b modParts_plain in auto)
  have inner: "butlast (tl (60 # modPrefix m @ b @ [62])) = modPrefix m @ b"
    using b(2) by (simp add: butlast_append)
  show ?thesis
  proof (cases "m = 0")
    case True
    then have "modParts m = []" using modParts_Nil [OF m] by simp
    then show ?thesis using True key b sp ns inner
      by (auto simp: ParseKeyLabel_def Let_def)
  next
    case False
    then have ne: "modParts m \<noteq> []" using modParts_Nil [OF m] by simp
    show ?thesis using key ne sp ns inner b(2)
      by (auto simp: ParseKeyLabel_def Let_def)
  qed
qed

lemma parse_label:
  assumes low: "lower_ok lower" and k: "key_ok k"
  shows "\<exists>lbl. ParseKeyLabel lower (ChordKey_String k) = Inr lbl \<and> keyFromLabel lbl = Inr k"
proof (cases "Special k = KeyNone")
  case none: True
  show ?thesis
  proof (cases "Mod k = 0")
    case True
    then show ?thesis using none k
      by (cases k) (auto simp: key_ok_def ChordKey_String_def ParseKeyLabel_def keyFromLabel_def str_def
          specialKeyByName_def modPrefix_def)
  next
    case False
    then have c: "Code k \<noteq> 0" "Code k \<noteq> 32" "Code k \<noteq> 62" "Code k \<noteq> 45" "Code k \<noteq> 0xFFFD" "Mod k < 16"
      using none k by (auto simp: key_ok_def)
    from parse_bracketed [OF low c(6), of "[Code k]"] c False obtain ns where
      "ParseKeyLabel lower (60 # modPrefix (Mod k) @ [Code k] @ [62]) = Inr \<lparr>Mods = ns, Key = [Code k]\<rparr>"
      "modBits ns 0 = Inr (Mod k)" by auto
    then show ?thesis using none False c
      by (cases k) (simp add: ChordKey_String_def str_def keyFromLabel_def specialKeyByName_def)
  qed
next
  case False
  then have c: "Code k = 0" "Mod k < 16" "Special k \<noteq> KeyBacktab" "Special k \<noteq> KeySpace"
    using k by (auto simp: key_ok_def)
  note sp = specialName_ok [OF low False c(3,4)]
  from parse_bracketed [OF low c(2) sp(5) _ sp(6)] sp obtain ns where
    "ParseKeyLabel lower (60 # modPrefix (Mod k) @ str (specialName (Special k)) @ [62]) =
       Inr \<lparr>Mods = ns, Key = str (specialName (Special k))\<rparr>" "modBits ns 0 = Inr (Mod k)" by fastforce
  then show ?thesis using False c sp
    by (cases k) (simp add: ChordKey_String_def keyFromLabel_def str_def [of "''<''"] str_def [of "''>''"])
qed


lemma takeWhile_to: "c \<notin> set b \<Longrightarrow> takeWhile (\<lambda>r. r \<noteq> c) (b @ c # rest) = b"
  by (induction b) auto

lemma bracket_token:
  "62 \<notin> set b \<Longrightarrow> keyTokens (60 # b @ 62 # rest) =
    (case keyTokens rest of Inl e \<Rightarrow> Inl e | Inr ts \<Rightarrow> Inr ((60 # b @ [62]) # ts))"
  by (simp add: takeWhile_to Let_def split: sum.split)

text \<open>A label is one token of the sequence it begins.\<close>

lemma key_token:
  assumes "lower_ok lower" "key_ok k"
  shows "keyTokens (ChordKey_String k @ rest) =
    (case keyTokens rest of Inl e \<Rightarrow> Inl e | Inr ts \<Rightarrow> Inr (ChordKey_String k # ts))"
proof (cases "Special k = KeyNone \<and> Mod k = 0")
  case True
  then have "ChordKey_String k = [Code k]" "Code k \<noteq> 60"
    using assms(2) by (auto simp: key_ok_def ChordKey_String_def modPrefix_def)
  then show ?thesis by (simp split: sum.split)
next
  case False
  let ?b = "modPrefix (Mod k) @ (if Special k = KeyNone then [Code k] else str (specialName (Special k)))"
  have s: "ChordKey_String k = 60 # ?b @ [62]"
    using False assms(2) by (auto simp: key_ok_def ChordKey_String_def str_def [of "''<''"] str_def [of "''>''"])
  have "62 \<notin> set (modPrefix (Mod k))"
    unfolding modPrefix_parts using modParts_plain by auto
  then have b: "62 \<notin> set ?b"
    using assms(2) specialName_ok(6) [OF assms(1)] by (auto simp: key_ok_def)
  with s obtain b where "ChordKey_String k = 60 # b @ [62]" "62 \<notin> set b" by blast
  with bracket_token [of b rest] show ?thesis by (simp only: append_Cons append_assoc append_Nil not_False_eq_True simp_thms)
qed

lemma sequence_tokens:
  "lower_ok lower \<Longrightarrow> list_all key_ok ks \<Longrightarrow> keyTokens (SequenceString ks) = Inr (map ChordKey_String ks)"
  by (induction ks) (simp_all add: SequenceString_def key_token)

lemma label_nonempty: "key_ok k \<Longrightarrow> ChordKey_String k \<noteq> []"
  by (auto simp: key_ok_def ChordKey_String_def str_def Let_def)

lemma print_then_parse:
  assumes low: "lower_ok lower" and ks: "list_all key_ok ks" "ks \<noteq> []" "length ks \<le> 32"
  shows "SequenceFromShorthand lower (SequenceString ks) = Inr ks"
proof -
  have ne: "SequenceString ks \<noteq> []"
    using ks label_nonempty by (cases ks) (auto simp: SequenceString_def)
  have "\<forall>k \<in> set ks. \<exists>l. ParseKeyLabel lower (ChordKey_String k) = Inr l \<and> keyFromLabel l = Inr k"
    using parse_label [OF low] ks(1) by (simp add: list_all_iff)
  from bchoice [OF this] obtain lbl where
    l: "\<forall>k \<in> set ks. ParseKeyLabel lower (ChordKey_String k) = Inr (lbl k) \<and> keyFromLabel (lbl k) = Inr k" by blast
  have "mapE (ParseKeyLabel lower) (map ChordKey_String ks) = Inr (map lbl ks)"
    "mapE keyFromLabel (map lbl ks) = Inr ks"
    by (simp_all add: mapE_Inr list.rel_map list_all2_same l)
  then show ?thesis
    using ne ks by (simp add: SequenceFromShorthand_def ParseKeySequence_def sequence_tokens [OF low] maxSequenceTokens_def)
qed

text \<open>The shape of tokens, and of the keys parsed from them.\<close>

lemma keyTokens_shape:
  "keyTokens s = Inr ts \<Longrightarrow> t \<in> set ts \<Longrightarrow>
   (\<exists>c. c \<noteq> 60 \<and> t = [c]) \<or> (\<exists>b. 62 \<notin> set b \<and> t = 60 # b @ [62])"
proof (induction s arbitrary: ts rule: keyTokens.induct)
  case (2 c cs)
  show ?case
  proof (cases "c = 60")
    case True
    let ?n = "length (takeWhile (\<lambda>r. r \<noteq> 62) cs)"
    have i: "62 \<in> set cs" using 2(3) True by (auto split: if_splits)
    then obtain ys zs where y: "cs = ys @ 62 # zs" "62 \<notin> set ys" by (meson split_list_first)
    then have n: "takeWhile (\<lambda>r. r \<noteq> 62) cs = ys" by (simp add: takeWhile_to)
    from 2(3) True i obtain ts' where ts': "keyTokens (drop (?n + 1) cs) = Inr ts'" "ts = (c # take (?n + 1) cs) # ts'"
      by (auto split: sum.splits simp: Let_def)
    show ?thesis
    proof (cases "t \<in> set ts'")
      case True
      from 2(1) [OF \<open>c = 60\<close> _ refl ts'(1) True] i show ?thesis by simp
    next
      case False
      then have "t = 60 # ys @ [62]" using 2(4) ts'(2) True n y by simp
      then show ?thesis using y(2) by blast
    qed
  next
    case False
    then obtain ts' where "keyTokens cs = Inr ts'" "ts = [c] # ts'" using 2(3) by (auto split: sum.splits)
    then show ?thesis using 2(2) [OF False] 2(4) False by auto
  qed
qed simp


lemma modBits_range:
  "modBits ns m = Inr m' \<Longrightarrow> m < 16 \<Longrightarrow> m' < 16 \<and> (m \<noteq> 0 \<or> ns \<noteq> [] \<longrightarrow> m' \<noteq> 0)"
proof (induction ns arbitrary: m)
  case (Cons n ns)
  have "(m OR b) < 16 \<and> (m OR b) \<noteq> 0" if "b \<in> {1, 2, 4, 8}" for b :: modifier
    using small_mods [OF Cons.prems(2)] that by auto
  then show ?case using Cons by (auto simp: chord_mod_defs split: if_splits)
qed simp

lemma canonMods_nonempty: "canonMods lower ps seen = Inr ns \<Longrightarrow> ps \<noteq> [] \<or> seen \<noteq> [] \<Longrightarrow> ns \<noteq> []"
proof (induction ps arbitrary: seen)
  case (Cons p ps)
  from Cons.prems(1) obtain c where
    "canonMods lower ps (if c \<in> set seen then seen else seen @ [c]) = Inr ns"
    by (auto split: if_splits option.splits)
  from Cons.IH [OF this] show ?case by (cases "c \<in> set seen"; cases seen) auto
qed simp

lemma insertMod_nonempty: "insertMod m ms \<noteq> []"
  by (cases ms) auto

lemma sortMods_nonempty: "ms \<noteq> [] \<Longrightarrow> sortMods ms \<noteq> []"
  by (cases ms rule: rev_cases) (simp_all add: sortMods_def insertMod_nonempty)

lemma specialNames_keys:
  "n \<in> set (map str specialNames) \<Longrightarrow>
   n = str ''space'' \<or> (\<exists>sp. map_of (map (\<lambda>(n, k). (str n, k)) specialKeyByName) n = Some sp)"
  by (auto simp: specialNames_def specialKeyByName_def str_def)

lemma specialKeyByName_range:
  "map_of (map (\<lambda>(n, k). (str n, k)) specialKeyByName) n = Some sp \<Longrightarrow>
   sp \<noteq> KeyNone \<and> sp \<noteq> KeyBacktab \<and> sp \<noteq> KeySpace"
  by (auto simp: specialKeyByName_def split: if_splits)

lemma parsed_key:
  assumes t: "(\<exists>c. c \<noteq> 60 \<and> t = [c]) \<or> (\<exists>b. 62 \<notin> set b \<and> t = 60 # b @ [62])"
    and p: "ParseKeyLabel lower t = Inr lbl" "keyFromLabel lbl = Inr k"
  shows "key_ok k \<or> Special k = KeyNone \<and> Code k \<in> {0, 32} \<and> Mod k < 16"
  using t
proof
  assume "\<exists>c. c \<noteq> 60 \<and> t = [c]"
  then show ?thesis using p
    by (auto simp: ParseKeyLabel_def keyFromLabel_def key_ok_def str_def specialKeyByName_def split: if_splits)
next
  assume "\<exists>b. 62 \<notin> set b \<and> t = 60 # b @ [62]"
  then obtain b where b: "62 \<notin> set b" "t = 60 # b @ [62]" by blast
  let ?ps = "splitOn 45 b"
  show ?thesis
  proof (cases "length ?ps = 1")
    case True
    then have "Mods lbl = []" "Key lbl \<in> set (map str specialNames)"
      using p(1) b by (auto simp: ParseKeyLabel_def Let_def split: if_splits)
    then show ?thesis using p(2) specialNames_keys [of "Key lbl"] specialKeyByName_range
      by (fastforce simp: keyFromLabel_def key_ok_def split: if_splits option.splits)
  next
    case False
    then have ne: "butlast ?ps \<noteq> []" using splitOn_nonempty [of 45 b] by (cases ?ps) auto
    from False p(1) b obtain ms where ms: "canonMods lower (butlast ?ps) [] = Inr ms" "Mods lbl = sortMods ms"
      "Key lbl \<in> set (map str specialNames) \<or> length (last ?ps) = 1 \<and> Key lbl = last ?ps"
      by (auto simp: ParseKeyLabel_def Let_def split: if_splits sum.splits)
    have "sortMods ms \<noteq> []" using canonMods_nonempty [OF ms(1)] ne sortMods_nonempty by simp
    then have m: "modBits (Mods lbl) 0 = Inr m \<Longrightarrow> m < 16 \<and> m \<noteq> 0" for m
      using modBits_range [of "Mods lbl" 0 m] ms(2) by simp
    have l: "45 \<notin> set (last ?ps)" "62 \<notin> set (last ?ps)"
      using splitOn_parts [of "last ?ps" 45 b] b(1) by auto
    show ?thesis
    proof (cases "Key lbl \<in> set (map str specialNames)")
      case True
      then show ?thesis using p(2) m specialNames_keys [of "Key lbl"] specialKeyByName_range
        by (fastforce simp: keyFromLabel_def key_ok_def split: if_splits option.splits sum.splits)
    next
      case False
      then obtain c where c: "Key lbl = [c]" "c \<noteq> 45" "c \<noteq> 62"
        using ms(3) l by (cases "last ?ps") auto
      then show ?thesis using p(2) m
        by (auto simp: keyFromLabel_def key_ok_def str_def specialKeyByName_def split: if_splits sum.splits)
    qed
  qed
qed

lemma parsed_keys:
  assumes "SequenceFromShorthand lower s = Inr ks"
  shows "ks \<noteq> [] \<and> length ks \<le> 32 \<and> (\<forall>k \<in> set ks. key_ok k \<or> Special k = KeyNone \<and> Code k \<in> {0, 32} \<and> Mod k < 16)"
proof -
  from assms obtain ts ls where ts: "keyTokens s = Inr ts" "s \<noteq> []" "length ts \<le> 32"
    and ls: "mapE (ParseKeyLabel lower) ts = Inr ls" and ks: "mapE keyFromLabel ls = Inr ks"
    by (auto simp: SequenceFromShorthand_def ParseKeySequence_def maxSequenceTokens_def split: if_splits sum.splits)
  have len: "length ls = length ts" "length ks = length ls"
    using ls ks by (auto simp: mapE_Inr dest: list_all2_lengthD)
  have "ts \<noteq> []" using ts(1,2) by (cases s) (auto split: if_splits sum.splits simp: Let_def)
  moreover have "key_ok k \<or> Special k = KeyNone \<and> Code k \<in> {0, 32} \<and> Mod k < 16" if "k \<in> set ks" for k
  proof -
    from that obtain i where i: "i < length ks" "k = ks ! i" by (auto simp: in_set_conv_nth)
    then have "ParseKeyLabel lower (ts ! i) = Inr (ls ! i)" "keyFromLabel (ls ! i) = Inr k" "ts ! i \<in> set ts"
      using ls ks len by (auto simp: mapE_Inr list_all2_conv_all_nth)
    then show ?thesis using parsed_key keyTokens_shape [OF ts(1)] by metis
  qed
  ultimately show ?thesis using len ts(3) by auto
qed


section \<open>Properties\<close>



text \<open>A key with the control modifier and a dash has a label that is not shorthand.\<close>

lemma ctrl_dash_has_no_shorthand:
  "ParseKeyLabel lower (ChordKey_String \<lparr>Code = 45, Special = KeyNone, Mod = ChordModCtrl\<rparr>) = Inl EmptyModifier \<or>
   ParseKeyLabel lower (ChordKey_String \<lparr>Code = 45, Special = KeyNone, Mod = ChordModCtrl\<rparr>) = Inl UnknownModifier"
  by (auto simp: ChordKey_String_def ParseKeyLabel_def modPrefix_def str_def chord_mod_defs split: option.splits)

text \<open>Backtab prints a name the parser does not know.\<close>

lemma backtab_has_no_shorthand:
  assumes "lower_ok lower"
  shows "SequenceFromShorthand lower (ChordKey_String \<lparr>Code = 0, Special = KeyBacktab, Mod = 0\<rparr>) = Inl UnknownSpecial"
  using assms by (auto simp: ChordKey_String_def SequenceFromShorthand_def ParseKeySequence_def ParseKeyLabel_def
      modPrefix_def str_def maxSequenceTokens_def lower_ok_def specialNames_def)

end
