(* ===== verification/KeyTrie.thy ===== *)
theory KeyTrie
  imports KeyChord "HOL-Library.AList"
begin

text \<open>
  The chord tries (\<open>pkg/gui/keys/chord_trie.go\<close>): nodes, the builder with its two insertion
  tiers and the removal by action, the finished trie with lookup, walk and the key listings, and
  the set of tries by mode and scope (\<open>TrieSet\<close> of \<open>keybinding_service.go\<close>).

  A node's children are an association list with distinct keys: Go's map order is visible
  nowhere, since every listing sorts the keys first.  A \<open>*commands.Command\<close> is the record below,
  with the pointer it is compared by as \<open>cmd_ref\<close>.  Labels compare by code points, which is the
  byte order of their UTF-8.  Of a warning the model keeps the level, the code, the origin and
  what the message reports, not its English text.
\<close>

section \<open>Commands, bindings, nodes\<close>

record command =
  cmd_ref :: nat
  cmd_ID :: string
  cmd_Description :: string
  DisabledReasonStatic :: string

definition NopCommand :: command where
  "NopCommand = \<lparr>cmd_ref = 0, cmd_ID = ''<nop>'', cmd_Description = ''(unbound)'', DisabledReasonStatic = ''''\<rparr>"

datatype source = ShippedDefault | UserOverride | CustomCmd

type_synonym context_key = string

definition GLOBAL :: context_key where
  "GLOBAL = ''global''"

record ChordBinding =
  Sequence :: "ChordKey list"
  BMode :: mode
  Scope :: context_key
  ActionID :: string
  Description :: string
  Tag :: string
  ShowInBar :: bool
  OpensMenu :: bool
  Source :: source
  Origin :: string

text \<open>What a node carries besides its children.\<close>

record leaf =
  action :: "command option"
  lsource :: source
  lorigin :: string
  showInBar :: bool
  opensMenu :: bool

definition noLeaf :: leaf where
  "noLeaf = \<lparr>action = None, lsource = ShippedDefault, lorigin = '''', showInBar = False, opensMenu = False\<rparr>"

datatype trieNode = TrieNode (node_leaf: leaf) (children: "(ChordKey \<times> trieNode) list")

lemma child_size: "(k, c) \<in> set (children n) \<Longrightarrow> size c < size n"
proof (cases n)
  case (TrieNode l cs)
  assume "(k, c) \<in> set (children n)"
  then have "size_prod (\<lambda>_. 0) size (k, c) \<le> sum_list (map (size_prod (\<lambda>_. 0) size) cs)"
    using TrieNode by (intro member_le_sum_list) force+
  then show ?thesis using TrieNode by (simp add: size_list_conv_sum_list)
qed

definition emptyNode :: trieNode where
  "emptyNode = TrieNode noLeaf []"

section \<open>Lookup\<close>

fun nodeAt :: "trieNode \<Rightarrow> ChordKey list \<Rightarrow> trieNode option" where
  "nodeAt n [] = Some n"
| "nodeAt n (k # ks) = (case map_of (children n) k of None \<Rightarrow> None | Some c \<Rightarrow> nodeAt c ks)"

record LookupResult =
  Action :: "command option"
  RSource :: source
  ROrigin :: string
  IsLeaf :: bool
  HasChildren :: bool
  Found :: bool
  RShowInBar :: bool
  ROpensMenu :: bool

definition notFound :: LookupResult where
  "notFound = \<lparr>Action = None, RSource = ShippedDefault, ROrigin = '''', IsLeaf = False,
     HasChildren = False, Found = False, RShowInBar = False, ROpensMenu = False\<rparr>"

definition resultOf :: "trieNode \<Rightarrow> LookupResult" where
  "resultOf n =
     (let l = node_leaf n in
      \<lparr>Action = action l, RSource = lsource l, ROrigin = lorigin l, IsLeaf = (action l \<noteq> None),
       HasChildren = (children n \<noteq> []), Found = True, RShowInBar = showInBar l, ROpensMenu = opensMenu l\<rparr>)"

definition Lookup :: "trieNode \<Rightarrow> ChordKey list \<Rightarrow> LookupResult" where
  "Lookup t ks = (case nodeAt t ks of None \<Rightarrow> notFound | Some n \<Rightarrow> resultOf n)"

section \<open>Listings\<close>

text \<open>\<open>a < b\<close> on labels.\<close>

fun label_less :: "runes \<Rightarrow> runes \<Rightarrow> bool" where
  "label_less _ [] = False"
| "label_less [] (y # ys) = True"
| "label_less (x # xs) (y # ys) = (x < y \<or> x = y \<and> label_less xs ys)"

text \<open>The insertion sort: a key moves left past strictly larger ones.\<close>

fun insertSorted :: "ChordKey \<Rightarrow> ChordKey list \<Rightarrow> ChordKey list" where
  "insertSorted k [] = [k]"
| "insertSorted k (x # xs) =
     (if label_less (ChordKey_String k) (ChordKey_String x) then k # x # xs else x # insertSorted k xs)"

definition sortKeys :: "ChordKey list \<Rightarrow> ChordKey list" where
  "sortKeys ks = foldl (\<lambda>acc k. insertSorted k acc) [] ks"

definition sortedKeys :: "(ChordKey \<times> trieNode) list \<Rightarrow> ChordKey list" where
  "sortedKeys m = sortKeys (map fst m)"

definition RootKeys :: "trieNode \<Rightarrow> ChordKey list" where
  "RootKeys t = sortedKeys (children t)"

fun collectReachableKeys :: "trieNode \<Rightarrow> ChordKey list" where
  "collectReachableKeys (TrieNode l cs) = concat (map (\<lambda>(k, c). k # collectReachableKeys c) cs)"

definition ReachableKeys :: "trieNode \<Rightarrow> ChordKey list" where
  "ReachableKeys t = sortKeys (remdups (collectReachableKeys t))"

record ChildRow =
  RowKey :: ChordKey
  Label :: string
  RowIsLeaf :: bool
  RowSource :: source

definition childRow :: "ChordKey \<Rightarrow> trieNode \<Rightarrow> ChildRow" where
  "childRow k c =
     \<lparr>RowKey = k, Label = (case action (node_leaf c) of None \<Rightarrow> '''' | Some cmd \<Rightarrow> cmd_Description cmd),
      RowIsLeaf = (action (node_leaf c) \<noteq> None), RowSource = lsource (node_leaf c)\<rparr>"

definition childRows :: "trieNode \<Rightarrow> ChildRow list" where
  "childRows n = map (\<lambda>k. childRow k (the (map_of (children n) k))) (sortedKeys (children n))"

definition ChildrenAt :: "trieNode \<Rightarrow> ChordKey list \<Rightarrow> ChildRow list option" where
  "ChildrenAt t prefix = map_option childRows (nodeAt t prefix)"

text \<open>\<open>Walk\<close> collects the leaves it visits, in order.\<close>

function walkNode :: "trieNode \<Rightarrow> ChordKey list \<Rightarrow> (ChordKey list \<times> LookupResult) list" where
  "walkNode n prefix =
     (if action (node_leaf n) \<noteq> None then [(prefix, resultOf n)] else []) @
     concat (map (\<lambda>k. case map_of (children n) k of None \<Rightarrow> [] | Some c \<Rightarrow> walkNode c (prefix @ [k]))
       (sortedKeys (children n)))"
  by auto
termination
  by (relation "measure (\<lambda>(n, _). size n)") (auto dest: map_of_SomeD child_size)

declare walkNode.simps [simp del]

definition Walk :: "trieNode \<Rightarrow> (ChordKey list \<times> LookupResult) list" where
  "Walk t = walkNode t []"

section \<open>The builder\<close>

datatype level = WarnLevel | InfoLevel

record Warning =
  Level :: level
  WCode :: string
  Subject :: "ChordKey list"
  Descendants :: "ChordKey list list"
  Truncated :: bool
  WOrigin :: string

record TrieBuilder =
  root :: trieNode
  warnings :: "Warning list"

definition NewTrieBuilder :: TrieBuilder where
  "NewTrieBuilder = \<lparr>root = emptyNode, warnings = []\<rparr>"

text \<open>Walk down a path, creating the nodes that are missing, and change the node at its end.\<close>

fun at_path :: "(trieNode \<Rightarrow> trieNode) \<Rightarrow> ChordKey list \<Rightarrow> trieNode \<Rightarrow> trieNode" where
  "at_path f [] n = f n"
| "at_path f (k # ks) n =
     TrieNode (node_leaf n)
       (AList.update k (at_path f ks (case map_of (children n) k of None \<Rightarrow> emptyNode | Some c \<Rightarrow> c)) (children n))"

definition setLeaf :: "ChordBinding \<Rightarrow> command \<Rightarrow> trieNode \<Rightarrow> trieNode" where
  "setLeaf cb cmd n =
     TrieNode \<lparr>action = Some cmd, lsource = Source cb, lorigin = Origin cb,
       showInBar = ShowInBar cb, opensMenu = OpensMenu cb\<rparr> (children n)"

definition simpleWarning :: "string \<Rightarrow> ChordBinding \<Rightarrow> Warning" where
  "simpleWarning code cb =
     \<lparr>Level = WarnLevel, WCode = code, Subject = Sequence cb, Descendants = [], Truncated = False, WOrigin = Origin cb\<rparr>"

text \<open>
  The common body of \<open>insert\<close> and \<open>insertUser\<close>, which differ in when an existing leaf is a
  collision.  A placeholder in the sequence stops the walk after the nodes before it exist.
\<close>

definition insertWith :: "(leaf \<Rightarrow> bool) \<Rightarrow> TrieBuilder \<Rightarrow> ChordBinding \<Rightarrow> command \<Rightarrow> TrieBuilder" where
  "insertWith clashes b cb cmd =
     (if Sequence cb = [] then b
      else if \<exists>k \<in> set (Sequence cb). IsLeaderPlaceholder k then
        b\<lparr>root := at_path (\<lambda>n. n) (takeWhile (\<lambda>k. \<not> IsLeaderPlaceholder k) (Sequence cb)) (root b),
          warnings := warnings b @ [simpleWarning ''unexpanded_leader'' cb]\<rparr>
      else
        let old = (case nodeAt (root b) (Sequence cb) of None \<Rightarrow> noLeaf | Some n \<Rightarrow> node_leaf n);
            clash = (case action old of None \<Rightarrow> False | Some c \<Rightarrow> cmd_ref c \<noteq> cmd_ref cmd \<and> clashes old)
        in b\<lparr>root := at_path (setLeaf cb cmd) (Sequence cb) (root b),
             warnings := warnings b @ (if clash then [simpleWarning ''collision'' cb] else [])\<rparr>)"

definition trie_insert :: "TrieBuilder \<Rightarrow> ChordBinding \<Rightarrow> command \<Rightarrow> TrieBuilder" where
  "trie_insert = insertWith (\<lambda>_. True)"

definition trie_insertUser :: "TrieBuilder \<Rightarrow> ChordBinding \<Rightarrow> command \<Rightarrow> TrieBuilder" where
  "trie_insertUser = insertWith (\<lambda>old. lsource old = UserOverride \<or> lsource old = CustomCmd)"

definition InsertDefault :: "TrieBuilder \<Rightarrow> ChordBinding \<Rightarrow> command option \<Rightarrow> TrieBuilder" where
  "InsertDefault b cb cmd =
     (case cmd of None \<Rightarrow> b | Some c \<Rightarrow> trie_insert b (cb\<lparr>Source := ShippedDefault\<rparr>) c)"

definition InsertUser :: "TrieBuilder \<Rightarrow> ChordBinding \<Rightarrow> command option \<Rightarrow> TrieBuilder" where
  "InsertUser b cb cmd = (case cmd of None \<Rightarrow> b | Some c \<Rightarrow> trie_insertUser b cb c)"

text \<open>Clearing a leaf leaves the fields of the zero node.\<close>

definition hasAction :: "string \<Rightarrow> trieNode \<Rightarrow> bool" where
  "hasAction i n = (case action (node_leaf n) of None \<Rightarrow> False | Some c \<Rightarrow> cmd_ID c = i)"

definition clearIf :: "string \<Rightarrow> trieNode \<Rightarrow> trieNode" where
  "clearIf i n = (if hasAction i n then TrieNode noLeaf (children n) else n)"

definition isEmptyNode :: "trieNode \<Rightarrow> bool" where
  "isEmptyNode n = (action (node_leaf n) = None \<and> children n = [])"

text \<open>The node after the removal in its subtree, and whether anything was removed there.\<close>

fun removeLeafByAction :: "string \<Rightarrow> trieNode \<Rightarrow> trieNode" where
  "removeLeafByAction i (TrieNode l cs) =
     TrieNode l (filter (\<lambda>(k, c). \<not> isEmptyNode c)
       (map (\<lambda>(k, c). (k, clearIf i (removeLeafByAction i c))) cs))"

fun removesAction :: "string \<Rightarrow> trieNode \<Rightarrow> bool" where
  "removesAction i (TrieNode l cs) =
     list_ex (\<lambda>(k, c). removesAction i c \<or> hasAction i (removeLeafByAction i c)) cs"

definition RemoveLeafByAction :: "TrieBuilder \<Rightarrow> string \<Rightarrow> TrieBuilder \<times> bool" where
  "RemoveLeafByAction b i =
     (if i = [] then (b, False)
      else (b\<lparr>root := removeLeafByAction i (root b)\<rparr>, removesAction i (root b)))"

section \<open>Finishing a trie\<close>

text \<open>
  The leaves below a node in walk order, with their sequences: what \<open>collectLeafDiagnostics\<close>
  counts, asks the source of and lists the first four of.
\<close>

definition leavesBelow :: "trieNode \<Rightarrow> ChordKey list \<Rightarrow> (ChordKey list \<times> LookupResult) list" where
  "leavesBelow n prefix =
     concat (map (\<lambda>k. case map_of (children n) k of None \<Rightarrow> [] | Some c \<Rightarrow> walkNode c (prefix @ [k]))
       (sortedKeys (children n)))"

definition diagnosticOrigin :: "leaf \<Rightarrow> string" where
  "diagnosticOrigin l =
     (if lorigin l \<noteq> [] then lorigin l
      else case lsource l of ShippedDefault \<Rightarrow> ''shipped default'' | CustomCmd \<Rightarrow> ''user custom command''
                           | UserOverride \<Rightarrow> ''user override'')"

definition ambiguousWarning :: "trieNode \<Rightarrow> ChordKey list \<Rightarrow> Warning list" where
  "ambiguousWarning n prefix =
     (case action (node_leaf n) of
        None \<Rightarrow> []
      | Some c \<Rightarrow>
          if children n \<noteq> [] \<and> cmd_ref c \<noteq> cmd_ref NopCommand then
            (let below = leavesBelow n prefix;
                 hasUser = list_ex (\<lambda>(s, r). RSource r \<noteq> ShippedDefault) below
             in [\<lparr>Level = (if lsource (node_leaf n) \<noteq> ShippedDefault \<or> hasUser then WarnLevel else InfoLevel),
                  WCode = ''ambiguous_prefix'', Subject = prefix, Descendants = map fst (take 4 below),
                  Truncated = (length below > 4), WOrigin = diagnosticOrigin (node_leaf n)\<rparr>])
          else [])"

function detectAmbiguousPrefixes :: "trieNode \<Rightarrow> ChordKey list \<Rightarrow> Warning list" where
  "detectAmbiguousPrefixes n prefix =
     ambiguousWarning n prefix @
     concat (map (\<lambda>k. case map_of (children n) k of None \<Rightarrow> [] | Some c \<Rightarrow> detectAmbiguousPrefixes c (prefix @ [k]))
       (sortedKeys (children n)))"
  by auto
termination
  by (relation "measure (\<lambda>(n, _). size n)") (auto dest: map_of_SomeD child_size)

declare detectAmbiguousPrefixes.simps [simp del]

definition TrieBuilder_Build :: "TrieBuilder \<Rightarrow> trieNode \<times> Warning list" where
  "TrieBuilder_Build b = (root b, warnings b @ detectAmbiguousPrefixes (root b) [])"

section \<open>Sets of tries\<close>

record TrieSet =
  tries :: "((mode \<times> context_key) \<times> trieNode) list"
  Leader :: rune
  LocalLeader :: rune

definition NewTrieSet :: TrieSet where
  "NewTrieSet = \<lparr>tries = [], Leader = 0, LocalLeader = 0\<rparr>"

definition TrieSet_Set :: "TrieSet \<Rightarrow> mode \<Rightarrow> context_key \<Rightarrow> trieNode \<Rightarrow> TrieSet" where
  "TrieSet_Set s m sc t = s\<lparr>tries := AList.update (m, sc) t (tries s)\<rparr>"

text \<open>The set may be the nil pointer.\<close>

definition TrieSet_Get :: "TrieSet option \<Rightarrow> mode \<Rightarrow> context_key \<Rightarrow> trieNode option" where
  "TrieSet_Get s m sc = (case s of None \<Rightarrow> None | Some s \<Rightarrow> map_of (tries s) (m, sc))"

definition TrieSet_Len :: "TrieSet option \<Rightarrow> int" where
  "TrieSet_Len s = (case s of None \<Rightarrow> 0 | Some s \<Rightarrow> len (tries s))"

end
