(* ===== verification/KeyMatcher.thy ===== *)
theory KeyMatcher
  imports KeyTrie
begin

text \<open>
  The keystroke dispatcher (\<open>pkg/gui/keys/matcher.go\<close>) with the mode store (\<open>modestore.go\<close>), the
  register store (\<open>registers.go\<close>), the which-key popup (\<open>whichkey_impl.go\<close>), the disabled check of
  \<open>pkg/gui/commands/command.go\<close> and \<open>SafeText\<close> of \<open>pkg/config/safe_text.go\<close>.

  Handlers, predicates and the Unicode print table are parameters (the record \<open>env\<close>).  What the
  matcher does to the outside is a list of events.  A handler runs after the mutex is released and
  after the state is reset, so what it does to the matcher (\<open>Cancel\<close>, \<open>SwapTrieSet\<close>) is a step of
  its own after the dispatch.  A timer is the sequence number its callback carries; a callback may
  fire at any time after it was scheduled, even when the timer was stopped.  The 64-bit sequence
  number is a natural number: it grows by at most a few per keystroke.  The text of a recovered
  panic is modelled up to the panic value.
\<close>

section \<open>Stores\<close>

type_synonym mode_store = "(context_key \<times> mode) list"

definition ModeStore_Get :: "mode_store \<Rightarrow> context_key \<Rightarrow> mode" where
  "ModeStore_Get s k = (case map_of s k of None \<Rightarrow> ModeNormal | Some m \<Rightarrow> m)"

definition ModeStore_Set :: "mode_store \<Rightarrow> context_key \<Rightarrow> mode \<Rightarrow> mode_store" where
  "ModeStore_Set s k m = AList.update k m s"

definition ModeStore_Reset :: "mode_store \<Rightarrow> context_key \<Rightarrow> mode_store" where
  "ModeStore_Reset s k = AList.delete k s"

type_synonym register_store = "(rune \<times> string) list"

definition RegisterStore_Get :: "register_store \<Rightarrow> rune \<Rightarrow> string" where
  "RegisterStore_Get s r = (case map_of s r of None \<Rightarrow> [] | Some v \<Rightarrow> v)"

definition RegisterStore_Set :: "register_store \<Rightarrow> rune \<Rightarrow> string \<Rightarrow> register_store" where
  "RegisterStore_Set s r v = AList.update r v s"

section \<open>Running a command\<close>

record ExecCtx =
  CtxCount :: int
  CtxRegister :: rune
  CtxMode :: mode
  CtxScope :: context_key

datatype outcome = Done | Failed string | Quit | Panicked

datatype predicate_reply = Reply string bool | PredicatePanic

datatype event = Invoke command ExecCtx | Flush context_key runes | Hide
  | ShowAfter context_key "ChordKey list" | Toast string

datatype key_error = ErrQuit | HandlerPanic string

record env =
  handler :: "command \<Rightarrow> (ExecCtx \<Rightarrow> outcome) option"
  getDisabled :: "command \<Rightarrow> (ExecCtx \<Rightarrow> predicate_reply) option"
  isPrint :: "rune \<Rightarrow> bool"
  hasWhichKey :: bool
  hasToaster :: bool
  tlen :: int
  ttlen :: int
  wdelay :: int

definition Disabled :: "env \<Rightarrow> command \<Rightarrow> ExecCtx \<Rightarrow> string option" where
  "Disabled v c ctx =
     (case getDisabled v c of
        Some p \<Rightarrow> (case p ctx of PredicatePanic \<Rightarrow> Some ''<internal error>''
                              | Reply reason d \<Rightarrow> if d then Some reason else None)
      | None \<Rightarrow> if DisabledReasonStatic c \<noteq> [] then Some (DisabledReasonStatic c) else None)"

definition SafeText :: "string \<Rightarrow> string" where
  "SafeText s = filter (\<lambda>c. \<not> ((of_char c :: nat) < 0x20 \<and> (of_char c :: nat) \<noteq> 9) \<and> (of_char c :: nat) \<noteq> 0x7F) s"

definition toast :: "env \<Rightarrow> string \<Rightarrow> event list" where
  "toast v s = (if hasToaster v then [Toast s] else [])"

definition disabledToast :: "env \<Rightarrow> command \<Rightarrow> string \<Rightarrow> event list" where
  "disabledToast v c reason =
     toast v ((if cmd_Description c \<noteq> [] then cmd_Description c
               else if cmd_ID c \<noteq> [] then cmd_ID c else ''<unknown>'') @ '': '' @
              (if reason = [] then ''disabled'' else reason))"

definition invokeHandler ::
    "env \<Rightarrow> command option \<Rightarrow> context_key \<Rightarrow> mode \<Rightarrow> int \<Rightarrow> rune \<Rightarrow> event list \<times> key_error option" where
  "invokeHandler v cmd scope mode count reg =
     (case cmd of
        None \<Rightarrow> ([], None)
      | Some c \<Rightarrow>
          (case handler v c of
             None \<Rightarrow> ([], None)
           | Some h \<Rightarrow>
               (let ctx = \<lparr>CtxCount = count, CtxRegister = reg, CtxMode = mode, CtxScope = scope\<rparr> in
                case Disabled v c ctx of
                  Some reason \<Rightarrow> (disabledToast v c reason, None)
                | None \<Rightarrow>
                    (case h ctx of
                       Done \<Rightarrow> ([Invoke c ctx], None)
                     | Quit \<Rightarrow> ([Invoke c ctx], Some ErrQuit)
                     | Failed e \<Rightarrow> (Invoke c ctx # toast v (SafeText e), None)
                     | Panicked \<Rightarrow> ([Invoke c ctx], Some (HandlerPanic (cmd_ID c)))))))"

section \<open>The matcher\<close>

datatype DispatchResult = Dispatched | Pending | FellThrough | Cancelled | Swallowed | Passthrough

definition countMax :: int where
  "countMax = 999999"

record Matcher =
  trieSet :: "TrieSet option"
  swapCount :: nat
  modes :: mode_store
  pending :: "ChordKey list"
  lastLeaf :: "command option"
  count :: int
  register :: rune
  timer :: "nat option"
  seq :: nat
  insertFlush :: "context_key list"
  timerScope :: context_key
  timerInputScope :: context_key
  timerMode :: mode
  timerPending :: "ChordKey list"

definition NewMatcher :: "TrieSet option \<Rightarrow> mode_store \<Rightarrow> rune \<Rightarrow> Matcher option" where
  "NewMatcher initial ms leader =
     (if 48 \<le> leader \<and> leader \<le> 57 then None
      else Some \<lparr>trieSet = initial, swapCount = 0, modes = ms, pending = [], lastLeaf = None, count = 0,
        register = 0, timer = None, seq = 0, insertFlush = [], timerScope = [], timerInputScope = [],
        timerMode = ModeNormal, timerPending = []\<rparr>)"

definition IsPartial :: "Matcher \<Rightarrow> bool" where
  "IsPartial m \<longleftrightarrow> pending m \<noteq> [] \<or> count m \<noteq> 0 \<or> register m \<noteq> 0"

definition OnInsertPendingFlush :: "Matcher \<Rightarrow> context_key \<Rightarrow> bool \<Rightarrow> Matcher" where
  "OnInsertPendingFlush m scope registered =
     m\<lparr>insertFlush := (if registered then List.insert scope (insertFlush m) else removeAll scope (insertFlush m))\<rparr>"

definition CurrentMode :: "Matcher \<Rightarrow> context_key \<Rightarrow> mode" where
  "CurrentMode m scope = ModeStore_Get (modes m) scope"

definition isPrintableRune :: "env \<Rightarrow> ChordKey \<Rightarrow> bool" where
  "isPrintableRune v k \<longleftrightarrow> Special k = KeyNone \<and> Mod k = 0 \<and> Code k \<noteq> 0 \<and> isPrint v (Code k)"

definition isEditorSafeSpecial :: "ChordKey \<Rightarrow> bool" where
  "isEditorSafeSpecial k \<longleftrightarrow> Mod k = 0 \<and>
     Special k \<in> {KeyBs, KeyDel, KeyLeft, KeyRight, KeyUp, KeyDown, KeyHome, KeyEnd}"

definition flushInsertPending :: "env \<Rightarrow> Matcher \<Rightarrow> context_key \<Rightarrow> ChordKey list \<Rightarrow> event list" where
  "flushInsertPending v m scope ks =
     (let rs = map Code (filter (isPrintableRune v) ks) in
      if rs = [] \<or> scope \<notin> set (insertFlush m) then [] else [Flush scope rs])"

definition cancelLocked :: "Matcher \<Rightarrow> Matcher" where
  "cancelLocked m =
     m\<lparr>timer := None, pending := [], lastLeaf := None, count := 0, register := 0,
       timerPending := [], seq := seq m + 1\<rparr>"

definition cancelPendingLocked :: "Matcher \<Rightarrow> Matcher" where
  "cancelPendingLocked m =
     m\<lparr>timer := None, pending := [], lastLeaf := None, timerPending := [], seq := seq m + 1\<rparr>"

definition stopTimerLocked :: "Matcher \<Rightarrow> Matcher" where
  "stopTimerLocked m = m\<lparr>timer := None, seq := seq m + 1\<rparr>"

definition hide :: "env \<Rightarrow> event list" where
  "hide v = (if hasWhichKey v then [Hide] else [])"

definition Cancel :: "env \<Rightarrow> Matcher \<Rightarrow> Matcher \<times> event list" where
  "Cancel v m = (cancelLocked m, if pending m \<noteq> [] then hide v else [])"

definition SwapTrieSet :: "env \<Rightarrow> Matcher \<Rightarrow> TrieSet option \<Rightarrow> Matcher \<times> event list" where
  "SwapTrieSet v m t =
     (case Cancel v (m\<lparr>swapCount := swapCount m + 1\<rparr>) of (m', es) \<Rightarrow> (m'\<lparr>trieSet := t\<rparr>, es))"

definition timerDelay :: "env \<Rightarrow> ChordKey list \<Rightarrow> int" where
  "timerDelay v ks = (if ks \<noteq> [] \<and> Special (hd ks) = KeyEsc then ttlen v else tlen v)"

definition scheduleTimerLocked :: "env \<Rightarrow> Matcher \<Rightarrow> context_key \<Rightarrow> mode \<Rightarrow> context_key \<Rightarrow> Matcher" where
  "scheduleTimerLocked v m scope mode inputScope =
     (if timerDelay v (pending m) \<le> 0 then m\<lparr>timer := None\<rparr>
      else m\<lparr>timer := Some (seq m + 1), seq := seq m + 1, timerScope := scope,
             timerInputScope := inputScope, timerMode := mode, timerPending := pending m\<rparr>)"

definition notifyWhichKey :: "env \<Rightarrow> context_key \<Rightarrow> ChordKey list \<Rightarrow> event list" where
  "notifyWhichKey v scope prefix =
     (if \<not> hasWhichKey v \<or> wdelay v \<le> 0 then [] else [ShowAfter scope prefix])"

definition bindingExistsAt :: "TrieSet option \<Rightarrow> mode \<Rightarrow> context_key \<Rightarrow> ChordKey \<Rightarrow> bool" where
  "bindingExistsAt ts mode scope k =
     (case TrieSet_Get ts mode scope of None \<Rightarrow> False | Some t \<Rightarrow> Found (Lookup t [k]))"

definition bound :: "Matcher \<Rightarrow> mode \<Rightarrow> context_key \<Rightarrow> ChordKey \<Rightarrow> bool" where
  "bound m mode scope k \<longleftrightarrow>
     bindingExistsAt (trieSet m) mode scope k \<or> bindingExistsAt (trieSet m) mode GLOBAL k"

type_synonym dispatched = "Matcher \<times> DispatchResult \<times> event list \<times> key_error option"

definition handleLookup ::
    "env \<Rightarrow> Matcher \<Rightarrow> LookupResult \<Rightarrow> ChordKey list \<Rightarrow> context_key \<Rightarrow> mode \<Rightarrow> context_key \<Rightarrow> ChordKey list \<Rightarrow> dispatched" where
  "handleLookup v m res ks scope mode inputScope abandoned =
     (if IsLeaf res \<and> \<not> HasChildren res then
        (case invokeHandler v (Action res) scope mode (count m) (register m) of
           (es, err) \<Rightarrow>
             (cancelLocked m, Dispatched, flushInsertPending v m inputScope abandoned @ hide v @ es, err))
      else if IsLeaf res \<and> HasChildren res then
        (scheduleTimerLocked v (m\<lparr>pending := ks, lastLeaf := Action res\<rparr>) scope mode inputScope, Pending,
         notifyWhichKey v scope ks @ flushInsertPending v m inputScope abandoned, None)
      else if \<not> IsLeaf res \<and> HasChildren res then
        (let m1 = m\<lparr>pending := ks, lastLeaf := None\<rparr> in
         (if mode = ModeInsert \<or> mode = ModeCommand then scheduleTimerLocked v m1 scope mode inputScope
          else stopTimerLocked m1,
          Pending, notifyWhichKey v scope ks @ flushInsertPending v m inputScope abandoned, None))
      else (m, FellThrough, [], None))"

definition textMode :: "mode \<Rightarrow> bool" where
  "textMode mode \<longleftrightarrow> mode = ModeInsert \<or> mode = ModeCommand"

text \<open>Step 3 of \<open>Dispatch\<close>: nothing matched; \<open>dropped\<close> is the abandoned prefix, if any.\<close>

definition noMatch :: "env \<Rightarrow> Matcher \<Rightarrow> mode \<Rightarrow> context_key \<Rightarrow> ChordKey \<Rightarrow> ChordKey list option \<Rightarrow> dispatched" where
  "noMatch v m mode scope k dropped =
     (let fl = (case dropped of None \<Rightarrow> [] | Some d \<Rightarrow> if textMode mode then flushInsertPending v m scope d else []) in
      if textMode mode \<and> (isPrintableRune v k \<or> isEditorSafeSpecial k) then (m, Passthrough, fl, None)
      else
        let hadPartial = (count m \<noteq> 0 \<or> register m \<noteq> 0) in
        (if hadPartial then cancelLocked m else m, FellThrough,
         fl @ (if hadPartial \<or> dropped \<noteq> None then hide v else []), None))"

text \<open>The retries of the key alone, scope before global, once a prefix was abandoned.\<close>

definition retryKey ::
    "env \<Rightarrow> Matcher \<Rightarrow> mode \<Rightarrow> context_key \<Rightarrow> ChordKey \<Rightarrow> ChordKey list option \<Rightarrow> dispatched" where
  "retryKey v m mode scope k dropped =
     (let scopeRes = (case TrieSet_Get (trieSet m) mode scope of None \<Rightarrow> notFound | Some t \<Rightarrow> Lookup t [k]);
          globalRes = (case TrieSet_Get (trieSet m) mode GLOBAL of None \<Rightarrow> notFound | Some t \<Rightarrow> Lookup t [k]);
          abandoned = (case dropped of None \<Rightarrow> [] | Some d \<Rightarrow> if textMode mode then d else [])
      in if dropped \<noteq> None \<and> Found scopeRes then handleLookup v m scopeRes [k] scope mode scope abandoned
         else if Found globalRes then handleLookup v m globalRes [k] GLOBAL mode scope abandoned
         else noMatch v m mode scope k dropped)"

text \<open>Attempts 1 and 2 of \<open>Dispatch\<close>: the pending sequence extended by the key.\<close>

definition dispatchTries :: "env \<Rightarrow> Matcher \<Rightarrow> mode \<Rightarrow> context_key \<Rightarrow> ChordKey \<Rightarrow> dispatched" where
  "dispatchTries v m mode scope k =
     (let full = pending m @ [k];
          scopeTrie = TrieSet_Get (trieSet m) mode scope;
          globalTrie = TrieSet_Get (trieSet m) mode GLOBAL;
          scopeRes = (case scopeTrie of None \<Rightarrow> notFound | Some t \<Rightarrow> Lookup t full);
          globalRes = (case globalTrie of None \<Rightarrow> notFound | Some t \<Rightarrow> Lookup t full)
      in if Found scopeRes then handleLookup v m scopeRes full scope mode scope []
         else if pending m = [] then retryKey v m mode scope k None
         else
           (let m1 = (if scopeTrie \<noteq> None then cancelPendingLocked m else m) in
            if Found globalRes then handleLookup v m1 globalRes full GLOBAL mode scope []
            else if scopeTrie \<noteq> None \<or> globalTrie \<noteq> None then
              retryKey v (cancelPendingLocked m) mode scope k (Some (pending m))
            else retryKey v m mode scope k None))"

definition plainRune :: "ChordKey \<Rightarrow> bool" where
  "plainRune k \<longleftrightarrow> Special k = KeyNone \<and> Mod k = 0"

definition registerPrompt :: "Matcher \<Rightarrow> bool" where
  "registerPrompt m \<longleftrightarrow> length (pending m) = 1 \<and> plainRune (hd (pending m)) \<and> Code (hd (pending m)) = 34"

definition countDigit :: "Matcher \<Rightarrow> ChordKey \<Rightarrow> bool" where
  "countDigit m k \<longleftrightarrow> 49 \<le> Code k \<and> Code k \<le> 57 \<or> count m > 0 \<and> 48 \<le> Code k \<and> Code k \<le> 57"

text \<open>Count collection, the start of a register prefix, then the tries.\<close>

definition dispatchIdle :: "env \<Rightarrow> Matcher \<Rightarrow> mode \<Rightarrow> context_key \<Rightarrow> ChordKey \<Rightarrow> dispatched" where
  "dispatchIdle v m mode scope k =
     (if \<not> textMode mode \<and> pending m = [] \<and> plainRune k \<and> countDigit m k \<and> \<not> bound m mode scope k then
        (m\<lparr>count := min (count m * 10 + int (Code k - 48)) countMax\<rparr>, Pending, [], None)
      else if \<not> textMode mode \<and> pending m = [] \<and> plainRune k \<and> Code k = 34 \<and> \<not> bound m mode scope k then
        (m\<lparr>pending := [k], seq := seq m + 1\<rparr>, Pending, [], None)
      else dispatchTries v m mode scope k)"

definition Dispatch :: "env \<Rightarrow> Matcher \<Rightarrow> context_key \<Rightarrow> ChordKey \<Rightarrow> dispatched" where
  "Dispatch v m scope k =
     (let mode = ModeStore_Get (modes m) scope in
      if textMode mode \<and> pending m = [] \<and> count m = 0 \<and> register m = 0 \<and> isPrintableRune v k \<and>
         \<not> bound m mode scope k
      then (m, Passthrough, [], None)
      else if registerPrompt m \<and> plainRune k \<and> Code k \<noteq> 0 then
        (m\<lparr>register := Code k, pending := [], lastLeaf := None, timer := None, seq := seq m + 1\<rparr>, Pending, [], None)
      else dispatchIdle v (if registerPrompt m then cancelLocked m else m) mode scope k)"

text \<open>The delivery of a timeout on the owning lane (\<open>onTimerFire\<close> only checks the number twice).\<close>

definition deliverTimeout :: "env \<Rightarrow> Matcher \<Rightarrow> nat \<Rightarrow> Matcher \<times> event list \<times> key_error option" where
  "deliverTimeout v m fid =
     (if fid \<noteq> seq m then (m, [], None)
      else if ModeStore_Get (modes m) (timerInputScope m) \<noteq> timerMode m then (cancelLocked m, [], None)
      else
        (let m' = cancelLocked m in
         case lastLeaf m of
           Some c \<Rightarrow>
             (case invokeHandler v (Some c) (timerScope m) (timerMode m) (count m) (register m) of
                (es, None) \<Rightarrow> (m', hide v @ es, None)
              | (es, Some ErrQuit) \<Rightarrow> (m', hide v @ es, Some ErrQuit)
              | (es, Some (HandlerPanic i)) \<Rightarrow>
                  (m', hide v @ es @ toast v (SafeText (''panic in handler '' @ i)), None))
         | None \<Rightarrow>
             (m', hide v @ (if textMode (timerMode m) then flushInsertPending v m (timerInputScope m) (timerPending m) else []),
              None)))"

section \<open>The which-key popup\<close>

record whichKeyState =
  wid :: nat
  wscope :: context_key
  wprefix :: "ChordKey list"
  wtimer :: bool
  visible :: bool

record WhichKey =
  wseq :: nat
  wstate :: "whichKeyState option"

definition NewWhichKey :: WhichKey where
  "NewWhichKey = \<lparr>wseq = 0, wstate = None\<rparr>"

definition wk_cancelLocked :: "WhichKey \<Rightarrow> WhichKey" where
  "wk_cancelLocked w = w\<lparr>wstate := None, wseq := wseq w + 1\<rparr>"

definition wk_ShowAfter :: "WhichKey \<Rightarrow> int \<Rightarrow> context_key \<Rightarrow> ChordKey list \<Rightarrow> WhichKey" where
  "wk_ShowAfter w delay scope prefix =
     (let w1 = wk_cancelLocked w; i = wseq w1 + 1 in
      w1\<lparr>wseq := i, wstate := Some \<lparr>wid = i, wscope = scope, wprefix = prefix,
           wtimer = (delay > 0), visible = (delay \<le> 0)\<rparr>\<rparr>)"

definition wk_Hide :: "WhichKey \<Rightarrow> WhichKey" where
  "wk_Hide w = wk_cancelLocked w"

text \<open>The closure of the timer carrying \<open>i\<close>.\<close>

definition wk_fire :: "nat \<Rightarrow> WhichKey \<Rightarrow> WhichKey" where
  "wk_fire i w =
     (case wstate w of
        Some st \<Rightarrow> if wid st = i then w\<lparr>wstate := Some (st\<lparr>visible := True\<rparr>)\<rparr> else w
      | None \<Rightarrow> w)"

definition wk_Visible :: "WhichKey \<Rightarrow> bool" where
  "wk_Visible w = (case wstate w of None \<Rightarrow> False | Some st \<Rightarrow> visible st)"

definition wk_Snapshot :: "WhichKey \<Rightarrow> context_key \<times> ChordKey list \<times> bool" where
  "wk_Snapshot w = (case wstate w of None \<Rightarrow> ([], [], False) | Some st \<Rightarrow> (wscope st, wprefix st, visible st))"

end
