(* ===== verification/KeyTrieSpec.thy ===== *)
theory KeyTrieSpec
  imports KeyTrie
begin

text \<open>
  What the chord tries promise: lookups after insertion and removal, the layering of user
  bindings over shipped defaults (through the locale \<open>leaf_store\<close>, which both insertion tiers
  instantiate), well-formedness, and the completeness of the walk.
\<close>

section \<open>What a trie says about a sequence\<close>

text \<open>The leaf data at a sequence, \<open>None\<close> when there is no node.\<close>

definition leafAt :: "trieNode \<Rightarrow> ChordKey list \<Rightarrow> leaf option" where
  "leafAt t s = map_option node_leaf (nodeAt t s)"

lemma leafAt_Nil [simp]: "leafAt t [] = Some (node_leaf t)"
  by (simp add: leafAt_def)

lemma leafAt_Cons: "leafAt t (k # s) = (case map_of (children t) k of None \<Rightarrow> None | Some c \<Rightarrow> leafAt c s)"
  by (simp add: leafAt_def split: option.split)

lemma nodeAt_append: "nodeAt t (s @ s') = (case nodeAt t s of None \<Rightarrow> None | Some n \<Rightarrow> nodeAt n s')"
  by (induction s arbitrary: t) (simp_all split: option.split)

lemma children_leafAt: "nodeAt t s = Some n \<Longrightarrow> children n \<noteq> [] \<longleftrightarrow> (\<exists>k. leafAt t (s @ [k]) \<noteq> None)"
proof -
  assume n: "nodeAt t s = Some n"
  have "(\<exists>k. leafAt t (s @ [k]) \<noteq> None) \<longleftrightarrow> (\<exists>k. map_of (children n) k \<noteq> None)"
    by (simp add: leafAt_def nodeAt_append n split: option.split)
  also have "\<dots> \<longleftrightarrow> children n \<noteq> []"
    by (cases "children n") auto
  finally show ?thesis by blast
qed

lemma Lookup_leafAt:
  "Lookup t s = (case leafAt t s of
     None \<Rightarrow> notFound
   | Some l \<Rightarrow> \<lparr>Action = action l, RSource = lsource l, ROrigin = lorigin l, IsLeaf = (action l \<noteq> None),
       HasChildren = (\<exists>k. leafAt t (s @ [k]) \<noteq> None), Found = True, RShowInBar = showInBar l, ROpensMenu = opensMenu l\<rparr>)"
proof (cases "nodeAt t s")
  case None
  then show ?thesis by (simp add: Lookup_def leafAt_def)
next
  case (Some n)
  from children_leafAt [OF this] Some show ?thesis
    by (simp add: Lookup_def leafAt_def resultOf_def Let_def)
qed

lemma Found_leafAt: "Found (Lookup t s) \<longleftrightarrow> leafAt t s \<noteq> None"
  by (simp add: Lookup_leafAt notFound_def split: option.split)

lemma leafAt_prefix: "leafAt t (s @ s') \<noteq> None \<Longrightarrow> leafAt t s \<noteq> None"
  by (simp add: leafAt_def nodeAt_append split: option.splits)

lemma leafAt_emptyNode: "leafAt emptyNode s = (if s = [] then Some noLeaf else None)"
  by (cases s) (simp_all add: leafAt_Cons emptyNode_def)

text \<open>Changing the node at the end of a path.\<close>

lemma leafAt_at_path:
  assumes "\<And>n. children (f n) = children n" "\<And>n. node_leaf (f n) = g (node_leaf n)"
  shows "leafAt (at_path f ks t) s =
    (if s = ks then Some (g (case leafAt t s of None \<Rightarrow> noLeaf | Some l \<Rightarrow> l))
     else if \<exists>z. ks = s @ z then Some (case leafAt t s of None \<Rightarrow> noLeaf | Some l \<Rightarrow> l)
     else leafAt t s)"
proof (induction ks arbitrary: t s)
  case Nil
  have "leafAt (f t) s = leafAt t s" if "s \<noteq> []"
    using that by (cases s) (simp_all add: leafAt_Cons assms(1))
  then show ?case by (auto simp: assms(2))
next
  case (Cons k ks)
  show ?case
  proof (cases s)
    case Nil
    then show ?thesis by simp
  next
    case (Cons j s')
    show ?thesis
    proof (cases "j = k")
      case True
      then show ?thesis using Cons Cons.IH [of "case map_of (children t) k of None \<Rightarrow> emptyNode | Some c \<Rightarrow> c" s']
        by (auto simp: leafAt_Cons update_conv' leafAt_emptyNode split: option.split)
    next
      case False
      then show ?thesis using Cons by (auto simp: leafAt_Cons update_conv')
    qed
  qed
qed

section \<open>Well-formed tries\<close>

text \<open>Keys are distinct among siblings, and a node below the root is a leaf or has children.\<close>

fun trie_ok :: "trieNode \<Rightarrow> bool" where
  "trie_ok (TrieNode l cs) \<longleftrightarrow> distinct (map fst cs) \<and> list_all (\<lambda>(k, c). trie_ok c \<and> \<not> isEmptyNode c) cs"

lemma trie_ok_iff:
  "trie_ok t \<longleftrightarrow> distinct (map fst (children t)) \<and> (\<forall>k c. (k, c) \<in> set (children t) \<longrightarrow> trie_ok c \<and> \<not> isEmptyNode c)"
  by (cases t) (auto simp: list_all_iff)

lemma trie_ok_child: "trie_ok t \<Longrightarrow> (k, c) \<in> set (children t) \<Longrightarrow> trie_ok c \<and> \<not> isEmptyNode c"
  by (cases t) (auto simp: list_all_iff)

lemma trie_ok_distinct: "trie_ok t \<Longrightarrow> distinct (map fst (children t))"
  by (cases t) auto

lemma trie_ok_cong: "children t = children t' \<Longrightarrow> trie_ok t = trie_ok t'"
  by (cases t; cases t') simp

lemma trie_ok_empty [simp]: "trie_ok emptyNode"
  by (simp add: emptyNode_def)

lemma in_set_update: "(a, b) \<in> set (AList.update k v al) \<Longrightarrow> a = k \<and> b = v \<or> (a, b) \<in> set al"
  by (induction al) (auto split: if_splits)

lemma trie_ok_update:
  assumes "trie_ok t" "trie_ok c" "\<not> isEmptyNode c"
  shows "trie_ok (TrieNode l (AList.update k c (children t)))"
proof -
  have "trie_ok c' \<and> \<not> isEmptyNode c'" if "(k', c') \<in> set (AList.update k c (children t))" for k' c'
    using in_set_update [OF that] assms trie_ok_child by blast
  then show ?thesis using trie_ok_distinct [OF assms(1)] by (auto simp: list_all_iff distinct_update)
qed


lemma trie_ok_insert:
  assumes "trie_ok t"
  shows "trie_ok (at_path (setLeaf cb cmd) ks t)" and "\<not> isEmptyNode (at_path (setLeaf cb cmd) ks t)"
  using assms
proof (induction ks arbitrary: t)
  case Nil
  case 1 then show ?case using trie_ok_cong [of "setLeaf cb cmd t" t] by (simp add: setLeaf_def)
  case 2 then show ?case by (simp add: setLeaf_def isEmptyNode_def)
next
  case (Cons k ks)
  have c: "trie_ok (case map_of (children t) k of None \<Rightarrow> emptyNode | Some c \<Rightarrow> c)" if "trie_ok t" for t
    using trie_ok_child [OF that map_of_SomeD] by (simp split: option.split)
  case 1 then show ?case
    unfolding at_path.simps by (intro trie_ok_update Cons.IH c)
  case 2 then show ?case by (simp add: isEmptyNode_def)
qed

text \<open>In a well-formed trie every node is on the way to a leaf, so the leaves say it all.\<close>

lemma trie_ok_leads_to_leaf:
  "trie_ok t \<Longrightarrow> \<not> isEmptyNode t \<Longrightarrow> \<exists>s l. leafAt t s = Some l \<and> action l \<noteq> None"
proof (induction t)
  case (TrieNode l cs)
  show ?case
  proof (cases "action l = None")
    case False
    then show ?thesis by (intro exI [of _ "[]"]) simp
  next
    case True
    then obtain k c where c: "(k, c) \<in> set cs"
      using TrieNode.prems(2) by (cases cs) (auto simp: isEmptyNode_def)
    then have "trie_ok c" "\<not> isEmptyNode c" using TrieNode.prems(1) by (auto simp: list_all_iff)
    with TrieNode.IH [OF c] obtain s l' where "leafAt c s = Some l'" "action l' \<noteq> None" by auto
    moreover have "map_of cs k = Some c" using c TrieNode.prems(1) by simp
    ultimately show ?thesis by (intro exI [of _ "k # s"]) (simp add: leafAt_Cons)
  qed
qed

lemma trie_ok_nodeAt: "trie_ok t \<Longrightarrow> nodeAt t s = Some n \<Longrightarrow> s \<noteq> [] \<Longrightarrow> trie_ok n \<and> \<not> isEmptyNode n"
proof (induction s arbitrary: t)
  case (Cons k s)
  then obtain c where c: "map_of (children t) k = Some c" "nodeAt c s = Some n" by (auto split: option.splits)
  then have "trie_ok c" "\<not> isEmptyNode c" using trie_ok_child [OF Cons.prems(1) map_of_SomeD] by auto
  then show ?case using Cons.IH c by (cases s) auto
qed simp

lemma found_iff_leads:
  assumes "trie_ok t"
  shows "leafAt t s \<noteq> None \<longleftrightarrow> s = [] \<or> (\<exists>z l. leafAt t (s @ z) = Some l \<and> action l \<noteq> None)"
proof
  assume "leafAt t s \<noteq> None"
  then obtain n where n: "nodeAt t s = Some n" by (auto simp: leafAt_def)
  show "s = [] \<or> (\<exists>z l. leafAt t (s @ z) = Some l \<and> action l \<noteq> None)"
  proof (cases "s = []")
    case False
    from trie_ok_nodeAt [OF assms n this] trie_ok_leads_to_leaf [of n] obtain z l where
      "leafAt n z = Some l" "action l \<noteq> None" by blast
    then show ?thesis using n by (auto simp: leafAt_def nodeAt_append)
  qed simp
next
  assume "s = [] \<or> (\<exists>z l. leafAt t (s @ z) = Some l \<and> action l \<noteq> None)"
  then show "leafAt t s \<noteq> None" using leafAt_prefix [of t s] by (auto simp: option.distinct)
qed

section \<open>Removal\<close>

lemma leaf_remove [simp]: "node_leaf (removeLeafByAction i t) = node_leaf t"
  by (cases t) simp

lemma hasAction_remove [simp]: "hasAction i (removeLeafByAction i t) = hasAction i t"
  by (simp add: hasAction_def)

lemma children_remove:
  "children (removeLeafByAction i t) =
   filter (\<lambda>(k, c). \<not> isEmptyNode c) (map (\<lambda>(k, c). (k, clearIf i (removeLeafByAction i c))) (children t))"
  by (cases t) simp

lemma trie_ok_clearIf: "trie_ok n \<Longrightarrow> trie_ok (clearIf i n)"
  using trie_ok_cong [of "clearIf i n" n] by (simp add: clearIf_def)

lemma keys_filter_map: "map fst (filter (\<lambda>(k, c). P c) (map (\<lambda>(k, c). (k, f c)) cs)) = map fst (filter (\<lambda>(k, c). P (f c)) cs)"
  by (induction cs) auto

lemma distinct_fst_filter: "distinct (map fst xs) \<Longrightarrow> distinct (map fst (filter P xs))"
  by (induction xs) auto

lemma map_of_filter_map:
  "distinct (map fst cs) \<Longrightarrow>
   map_of (filter (\<lambda>(k, c). P c) (map (\<lambda>(k, c). (k, f c)) cs)) k =
   (case map_of cs k of None \<Rightarrow> None | Some c \<Rightarrow> if P (f c) then Some (f c) else None)"
proof (induction cs)
  case (Cons x cs)
  have "map_of cs k = None" if "k \<notin> fst ` set cs" for k
    using that by (simp add: map_of_eq_None_iff)
  then show ?case using Cons by (cases x) (force split: option.splits)
qed simp

lemma trie_ok_remove: "trie_ok t \<Longrightarrow> trie_ok (removeLeafByAction i t)"
proof (induction t)
  case (TrieNode l cs)
  have "trie_ok (clearIf i (removeLeafByAction i c))" if "(k, c) \<in> set cs" for k c
    using TrieNode.IH [OF that] TrieNode.prems that by (auto simp: trie_ok_clearIf list_all_iff)
  then show ?case using TrieNode.prems
    by (auto simp: list_all_iff keys_filter_map intro!: distinct_fst_filter)
qed


text \<open>The leaf with an action at a sequence.\<close>

definition leafOf :: "trieNode \<Rightarrow> ChordKey list \<Rightarrow> leaf option" where
  "leafOf t s = (case leafAt t s of None \<Rightarrow> None | Some l \<Rightarrow> if action l = None then None else Some l)"

lemma leafOf_Some: "leafOf t s = Some l \<longleftrightarrow> leafAt t s = Some l \<and> action l \<noteq> None"
  by (auto simp: leafOf_def split: option.splits if_splits)

lemma leafOf_Cons: "leafOf t (k # s) = (case map_of (children t) k of None \<Rightarrow> None | Some c \<Rightarrow> leafOf c s)"
  by (simp add: leafOf_def leafAt_Cons split: option.split)

lemma found_iff_leafOf: "trie_ok t \<Longrightarrow> leafAt t s \<noteq> None \<longleftrightarrow> s = [] \<or> (\<exists>z. leafOf t (s @ z) \<noteq> None)"
  using found_iff_leads [of t s] by (auto simp: leafOf_Some)

lemma IsLeaf_leafOf: "IsLeaf (Lookup t s) \<longleftrightarrow> leafOf t s \<noteq> None"
  by (simp add: Lookup_leafAt leafOf_def notFound_def split: option.split)

lemma Action_leafOf: "Action (Lookup t s) = (case leafOf t s of None \<Rightarrow> None | Some l \<Rightarrow> action l)"
  by (simp add: Lookup_leafAt leafOf_def notFound_def split: option.split)

lemma leafOf_empty: "isEmptyNode n \<Longrightarrow> leafOf n s = None"
  by (cases s) (simp_all add: leafOf_Cons isEmptyNode_def leafOf_def [of _ "[]"])

lemma leafOf_clearIf: "leafOf (clearIf i n) s = (if s = [] \<and> hasAction i n then None else leafOf n s)"
  by (cases s) (simp_all add: clearIf_def leafOf_Cons leafOf_def [of _ "[]"] noLeaf_def)

definition leafID :: "leaf \<Rightarrow> string" where
  "leafID l = (case action l of None \<Rightarrow> [] | Some c \<Rightarrow> cmd_ID c)"

lemma hasAction_leafOf: "hasAction i n \<longleftrightarrow> (\<exists>l. leafOf n [] = Some l \<and> leafID l = i)"
  by (auto simp: hasAction_def leafOf_Some leafID_def split: option.split)

lemma leafOf_remove:
  "trie_ok t \<Longrightarrow> leafOf (removeLeafByAction i t) s =
    (case leafOf t s of None \<Rightarrow> None | Some l \<Rightarrow> if s \<noteq> [] \<and> leafID l = i then None else Some l)"
proof (induction s arbitrary: t)
  case Nil
  then show ?case by (simp add: leafOf_def)
next
  case (Cons k s)
  have "leafOf (removeLeafByAction i t) (k # s) =
    (case map_of (children t) k of None \<Rightarrow> None | Some c \<Rightarrow> leafOf (clearIf i (removeLeafByAction i c)) s)"
    unfolding leafOf_Cons children_remove map_of_filter_map [OF trie_ok_distinct [OF Cons.prems]]
    by (simp add: leafOf_empty split: option.split)
  also have "\<dots> = (case leafOf t (k # s) of None \<Rightarrow> None | Some l \<Rightarrow> if leafID l = i then None else Some l)"
  proof (cases "map_of (children t) k")
    case (Some c)
    then have "trie_ok c" using trie_ok_child [OF Cons.prems map_of_SomeD] by blast
    then have "leafOf (clearIf i (removeLeafByAction i c)) s =
        (case leafOf c s of None \<Rightarrow> None | Some l \<Rightarrow> if leafID l = i then None else Some l)"
      unfolding leafOf_clearIf hasAction_remove unfolding hasAction_leafOf Cons.IH [OF \<open>trie_ok c\<close>]
      by (auto split: option.split)
    then show ?thesis using Some by (simp add: leafOf_Cons)
  qed (simp add: leafOf_Cons)
  finally show ?case by (simp only: list.distinct(2) simp_thms not_False_eq_True)
qed

lemma leafOf_step:
  "trie_ok t \<Longrightarrow> leafOf t (k # s) = Some l \<longleftrightarrow> (\<exists>c. (k, c) \<in> set (children t) \<and> leafOf c s = Some l)"
proof -
  assume "trie_ok t"
  then have "(k, c) \<in> set (children t) \<longleftrightarrow> map_of (children t) k = Some c" for c
    by (simp add: trie_ok_distinct)
  then show ?thesis by (simp only: leafOf_Cons) (auto split: option.split)
qed

lemma removesAction_iff:
  "trie_ok t \<Longrightarrow> removesAction i t \<longleftrightarrow> (\<exists>s l. s \<noteq> [] \<and> leafOf t s = Some l \<and> leafID l = i)"
proof (induction t)
  case (TrieNode l cs)
  have child: "removesAction i c \<or> hasAction i c \<longleftrightarrow> (\<exists>s l. leafOf c s = Some l \<and> leafID l = i)" if "(k, c) \<in> set cs" for k c
  proof -
    have "trie_ok c" using trie_ok_child [OF TrieNode.prems] that by simp
    then have "removesAction i c \<longleftrightarrow> (\<exists>s l. s \<noteq> [] \<and> leafOf c s = Some l \<and> leafID l = i)"
      using TrieNode.IH [OF that] by simp
    then show ?thesis unfolding hasAction_leafOf by metis
  qed
  have "removesAction i (TrieNode l cs) \<longleftrightarrow> (\<exists>k c. (k, c) \<in> set cs \<and> (removesAction i c \<or> hasAction i c))"
    by (auto simp: list_ex_iff)
  also have "\<dots> \<longleftrightarrow> (\<exists>k c s l. (k, c) \<in> set cs \<and> leafOf c s = Some l \<and> leafID l = i)"
    using child by blast
  also have "\<dots> \<longleftrightarrow> (\<exists>k s l'. leafOf (TrieNode l cs) (k # s) = Some l' \<and> leafID l' = i)"
    unfolding leafOf_step [OF TrieNode.prems] by auto
  also have "\<dots> \<longleftrightarrow> (\<exists>s l'. s \<noteq> [] \<and> leafOf (TrieNode l cs) s = Some l' \<and> leafID l' = i)"
    by (metis neq_Nil_conv list.discI)
  finally show ?case .
qed

section \<open>The walk\<close>

lemma set_insertSorted: "set (insertSorted k ks) = insert k (set ks)"
  by (induction ks) auto

lemma distinct_insertSorted: "distinct (insertSorted k ks) \<longleftrightarrow> k \<notin> set ks \<and> distinct ks"
  by (induction ks) (auto simp: set_insertSorted)

lemma sortKeys_foldl:
  "set (foldl (\<lambda>acc k. insertSorted k acc) acc ks) = set acc \<union> set ks \<and>
   (distinct (acc @ ks) \<longrightarrow> distinct (foldl (\<lambda>acc k. insertSorted k acc) acc ks))"
  by (induction ks arbitrary: acc) (auto simp: set_insertSorted distinct_insertSorted)

lemma set_sortKeys [simp]: "set (sortKeys ks) = set ks"
  using sortKeys_foldl [of "[]"] by (simp add: sortKeys_def)

lemma distinct_sortKeys: "distinct ks \<Longrightarrow> distinct (sortKeys ks)"
  using sortKeys_foldl [of "[]" ks] by (simp add: sortKeys_def)

lemma UN_collect: "(\<And>k s. P k s \<Longrightarrow> k \<in> A) \<Longrightarrow> (\<Union>k \<in> A. {f k s | s. P k s}) = {f k s | k s. P k s}"
  by blast

lemma set_by_cases: "{f s | s. P s} = (if P [] then {f []} else {}) \<union> {f (k # s) | k s. P (k # s)}"
proof (intro set_eqI iffI)
  fix x assume "x \<in> {f s | s. P s}"
  then obtain s where "x = f s" "P s" by blast
  then show "x \<in> (if P [] then {f []} else {}) \<union> {f (k # s) | k s. P (k # s)}" by (cases s) auto
qed (auto split: if_splits)

lemma walk_ok:
  "trie_ok n \<Longrightarrow> distinct (map fst (walkNode n p)) \<and>
   set (walkNode n p) = {(p @ s, Lookup n s) | s. leafOf n s \<noteq> None}"
proof (induction n p rule: walkNode.induct)
  case (1 n p)
  let ?sub = "\<lambda>k. case map_of (children n) k of None \<Rightarrow> [] | Some c \<Rightarrow> walkNode c (p @ [k])"
  let ?ks = "sortedKeys (children n)"
  have ks: "set ?ks = fst ` set (children n)" "distinct ?ks"
    using trie_ok_distinct [OF "1.prems"] by (simp_all add: sortedKeys_def distinct_sortKeys)
  have sub: "distinct (map fst (?sub k)) \<and> set (?sub k) = {(p @ k # s, Lookup n (k # s)) | s. leafOf n (k # s) \<noteq> None}"
    if "k \<in> set ?ks" for k
  proof -
    from that have "map_of (children n) k \<noteq> None" unfolding ks(1) by (simp add: map_of_eq_None_iff)
    then obtain c where c: "map_of (children n) k = Some c" by blast
    then have "trie_ok c" using trie_ok_child [OF "1.prems" map_of_SomeD] by blast
    from "1.IH" [OF that c this] c show ?thesis by (simp add: leafOf_Cons Lookup_def)
  qed
  have in_keys: "k \<in> fst ` set (children n)" if "leafOf n (k # s) \<noteq> None" for k s
    using that leafOf_step [OF "1.prems"] by force
  have hd: "set (if action (node_leaf n) \<noteq> None then [(p, resultOf n)] else []) = (if leafOf n [] \<noteq> None then {(p, Lookup n [])} else {})"
    by (auto simp: leafOf_def Lookup_def)
  have fresh: "p \<notin> fst ` set (?sub k)" if "k \<in> set ?ks" for k
    using sub [OF that] by auto
  have apart: "fst ` set (?sub k) \<inter> fst ` set (?sub j) = {}" if "k \<in> set ?ks" "j \<in> set ?ks" "k \<noteq> j" for k j
    using sub [OF that(1)] sub [OF that(2)] that(3) by auto
  have "distinct (map fst (concat (map ?sub ks)))" if "set ks \<subseteq> set ?ks" "distinct ks" for ks
    using that
  proof (induction ks)
    case (Cons k ks)
    have "fst ` set (?sub k) \<inter> fst ` set (concat (map ?sub ks)) = {}"
      using apart [of k] Cons.prems by auto
    then show ?case using Cons sub [of k] by simp
  qed simp
  then have "distinct (map fst (concat (map ?sub ?ks)))" using ks(2) by blast
  then have d: "distinct (map fst (walkNode n p))"
    unfolding walkNode.simps [of n p] using fresh by fastforce
  have "set (concat (map ?sub ?ks)) = (\<Union>k \<in> set ?ks. set (?sub k))" by simp
  also have "\<dots> = (\<Union>k \<in> set ?ks. {(p @ k # s, Lookup n (k # s)) | s. leafOf n (k # s) \<noteq> None})"
    by (intro SUP_cong refl) (rule sub [THEN conjunct2])
  also have "\<dots> = {(p @ k # s, Lookup n (k # s)) | k s. leafOf n (k # s) \<noteq> None}"
    unfolding ks(1) by (rule UN_collect) (rule in_keys)
  finally have "set (walkNode n p) = (if leafOf n [] \<noteq> None then {(p, Lookup n [])} else {}) \<union>
      {(p @ k # s, Lookup n (k # s)) | k s. leafOf n (k # s) \<noteq> None}"
    unfolding walkNode.simps [of n p] using hd by simp
  also have "\<dots> = {(p @ s, Lookup n s) | s. leafOf n s \<noteq> None}"
    using set_by_cases [of "\<lambda>s. (p @ s, Lookup n s)" "\<lambda>s. leafOf n s \<noteq> None"] by simp
  finally show ?case using d by simp
qed


section \<open>Insertion\<close>

definition plain :: "ChordBinding \<Rightarrow> bool" where
  "plain cb \<longleftrightarrow> Sequence cb \<noteq> [] \<and> list_all (\<lambda>k. \<not> IsLeaderPlaceholder k) (Sequence cb)"

definition leafFor :: "ChordBinding \<Rightarrow> command \<Rightarrow> leaf" where
  "leafFor cb cmd = \<lparr>action = Some cmd, lsource = Source cb, lorigin = Origin cb,
     showInBar = ShowInBar cb, opensMenu = OpensMenu cb\<rparr>"

lemma leafAt_setLeaf:
  "leafAt (at_path (setLeaf cb cmd) ks t) s =
    (if s = ks then Some (leafFor cb cmd)
     else if \<exists>z. ks = s @ z then Some (case leafAt t s of None \<Rightarrow> noLeaf | Some l \<Rightarrow> l)
     else leafAt t s)"
  by (subst leafAt_at_path [where g = "\<lambda>_. leafFor cb cmd"]) (simp_all add: setLeaf_def leafFor_def)

lemma leafOf_setLeaf: "leafOf (at_path (setLeaf cb cmd) ks t) s = (if s = ks then Some (leafFor cb cmd) else leafOf t s)"
  by (auto simp: leafOf_def leafAt_setLeaf leafFor_def noLeaf_def split: option.split)

lemma root_insertWith: "plain cb \<Longrightarrow> root (insertWith P b cb cmd) = at_path (setLeaf cb cmd) (Sequence cb) (root b)"
  by (auto simp: insertWith_def plain_def list_all_iff Let_def)

lemma plain_source [simp]: "plain (cb\<lparr>Source := src\<rparr>) = plain cb"
  by (simp add: plain_def)

text \<open>
  Both tiers keep one contract: a store of leaves in which an insertion changes the entry at its
  own sequence only.  Whatever is proved from the contract holds for defaults and overrides.
\<close>

locale leaf_store =
  fixes ok :: "'t \<Rightarrow> bool" and look :: "'t \<Rightarrow> 'k \<Rightarrow> 'v option" and put :: "'t \<Rightarrow> 'b \<Rightarrow> 't"
    and key :: "'b \<Rightarrow> 'k" and val :: "'b \<Rightarrow> 'v" and good :: "'b \<Rightarrow> bool"
  assumes ok_put: "ok t \<Longrightarrow> good b \<Longrightarrow> ok (put t b)"
    and look_put: "ok t \<Longrightarrow> good b \<Longrightarrow> look (put t b) k = (if k = key b then Some (val b) else look t k)"
begin

lemma ok_puts: "ok t \<Longrightarrow> list_all good bs \<Longrightarrow> ok (foldl put t bs)"
  by (induction bs arbitrary: t) (simp_all add: ok_put)

text \<open>The later insertion wins.\<close>

lemma look_puts:
  "ok t \<Longrightarrow> list_all good bs \<Longrightarrow>
   look (foldl put t bs) k = (case find (\<lambda>b. key b = k) (rev bs) of None \<Rightarrow> look t k | Some b \<Rightarrow> Some (val b))"
proof (induction bs rule: rev_induct)
  case (snoc b bs)
  then have "ok (foldl put t bs)" by (simp add: ok_puts)
  with snoc show ?case by (simp add: look_put)
qed simp

end

definition putDefault :: "TrieBuilder \<Rightarrow> ChordBinding \<times> command \<Rightarrow> TrieBuilder" where
  "putDefault b e = InsertDefault b (fst e) (Some (snd e))"

definition putUser :: "TrieBuilder \<Rightarrow> ChordBinding \<times> command \<Rightarrow> TrieBuilder" where
  "putUser b e = InsertUser b (fst e) (Some (snd e))"

lemma root_putDefault:
  "plain (fst e) \<Longrightarrow> root (putDefault b e) = at_path (setLeaf ((fst e)\<lparr>Source := ShippedDefault\<rparr>) (snd e)) (Sequence (fst e)) (root b)"
  by (simp add: putDefault_def InsertDefault_def trie_insert_def root_insertWith)

lemma root_putUser:
  "plain (fst e) \<Longrightarrow> root (putUser b e) = at_path (setLeaf (fst e) (snd e)) (Sequence (fst e)) (root b)"
  by (simp add: putUser_def InsertUser_def trie_insertUser_def root_insertWith)

interpretation default_tier: leaf_store "\<lambda>b. trie_ok (root b)" "\<lambda>b. leafOf (root b)" putDefault "\<lambda>e. Sequence (fst e)"
    "\<lambda>e. leafFor ((fst e)\<lparr>Source := ShippedDefault\<rparr>) (snd e)" "\<lambda>e. plain (fst e)"
  by unfold_locales (simp_all add: root_putDefault trie_ok_insert leafOf_setLeaf)

interpretation user_tier: leaf_store "\<lambda>b. trie_ok (root b)" "\<lambda>b. leafOf (root b)" putUser "\<lambda>e. Sequence (fst e)"
    "\<lambda>e. leafFor (fst e) (snd e)" "\<lambda>e. plain (fst e)"
  by unfold_locales (simp_all add: root_putUser trie_ok_insert leafOf_setLeaf)

definition layeredTrie :: "(ChordBinding \<times> command) list \<Rightarrow> (ChordBinding \<times> command) list \<Rightarrow> trieNode" where
  "layeredTrie ds us = fst (TrieBuilder_Build (foldl putUser (foldl putDefault NewTrieBuilder ds) us))"

definition lastFor :: "ChordKey list \<Rightarrow> (ChordBinding \<times> command) list \<Rightarrow> (ChordBinding \<times> command) option" where
  "lastFor s bs = find (\<lambda>e. Sequence (fst e) = s) (rev bs)"

lemma layered_ok:
  assumes "list_all (\<lambda>e. plain (fst e)) ds" "list_all (\<lambda>e. plain (fst e)) us"
  shows "trie_ok (layeredTrie ds us)"
    and "leafOf (layeredTrie ds us) s =
      (case lastFor s us of Some e \<Rightarrow> Some (leafFor (fst e) (snd e))
       | None \<Rightarrow> (case lastFor s ds of None \<Rightarrow> None
          | Some e \<Rightarrow> Some (leafFor ((fst e)\<lparr>Source := ShippedDefault\<rparr>) (snd e))))"
proof -
  have e: "trie_ok (root NewTrieBuilder)" "leafOf (root NewTrieBuilder) s = None"
    by (simp_all add: NewTrieBuilder_def leafOf_empty isEmptyNode_def emptyNode_def noLeaf_def)
  note d = default_tier.ok_puts [OF e(1) assms(1)]
  show "trie_ok (layeredTrie ds us)"
    using user_tier.ok_puts [OF d assms(2)] by (simp add: layeredTrie_def TrieBuilder_Build_def)
  show "leafOf (layeredTrie ds us) s =
      (case lastFor s us of Some e \<Rightarrow> Some (leafFor (fst e) (snd e))
       | None \<Rightarrow> (case lastFor s ds of None \<Rightarrow> None
          | Some e \<Rightarrow> Some (leafFor ((fst e)\<lparr>Source := ShippedDefault\<rparr>) (snd e))))"
    using user_tier.look_puts [OF d assms(2), of s] default_tier.look_puts [OF e(1) assms(1), of s] e(2)
    by (simp add: layeredTrie_def TrieBuilder_Build_def lastFor_def split: option.split)
qed

lemma lastFor_None: "lastFor s bs = None \<longleftrightarrow> (\<forall>e \<in> set bs. Sequence (fst e) \<noteq> s)"
  unfolding lastFor_def find_None_iff by force

lemma lastFor_append: "lastFor s (ds @ us) = (case lastFor s us of None \<Rightarrow> lastFor s ds | Some e \<Rightarrow> Some e)"
  unfolding lastFor_def rev_append find_append ..


section \<open>Properties\<close>

text \<open>
  Inserting a binding without leader placeholders changes the lookup of exactly its own
  sequence (to the binding's action, source, origin and flags, keeping its continuations) and of
  the prefixes of it, which become interior if they were not there; every other lookup is as
  before.  A default that replaces a different command warns of a collision, an override only
  when it replaces another override.
\<close>

theorem insert_changes_one_leaf:
  assumes "plain cb"
  shows "(let b' = trie_insertUser b cb cmd; old = Lookup (root b) (Sequence cb) in
      (\<forall>s. Lookup (root b') s =
        (if s = Sequence cb then
           \<lparr>Action = Some cmd, RSource = Source cb, ROrigin = Origin cb, IsLeaf = True,
             HasChildren = HasChildren old, Found = True, RShowInBar = ShowInBar cb, ROpensMenu = OpensMenu cb\<rparr>
         else if \<exists>z. Sequence cb = s @ z then (Lookup (root b) s)\<lparr>HasChildren := True, Found := True\<rparr>
         else Lookup (root b) s)) \<and>
      root (trie_insert b cb cmd) = root b' \<and>
      warnings b' = warnings b @
        (if \<exists>c. Action old = Some c \<and> cmd_ref c \<noteq> cmd_ref cmd \<and> RSource old \<noteq> ShippedDefault
         then [simpleWarning ''collision'' cb] else []) \<and>
      warnings (trie_insert b cb cmd) = warnings b @
        (if \<exists>c. Action old = Some c \<and> cmd_ref c \<noteq> cmd_ref cmd
         then [simpleWarning ''collision'' cb] else []))"
proof -
  let ?q = "Sequence cb" and ?t = "root b"
  let ?t' = "at_path (setLeaf cb cmd) ?q ?t"
  have root: "root (insertWith P b cb cmd) = ?t'" for P using assms by (rule root_insertWith)
  have next_key: "leafAt ?t' (?q @ [k]) = leafAt ?t (?q @ [k])" for k
    by (simp add: leafAt_setLeaf)
  have own: "(\<exists>k. leafAt ?t (?q @ [k]) \<noteq> None) = HasChildren (Lookup ?t ?q)"
  proof (cases "leafAt ?t ?q")
    case None
    then have "leafAt ?t (?q @ [k]) = None" for k using leafAt_prefix by blast
    then show ?thesis using None by (simp add: Lookup_leafAt notFound_def)
  qed (simp add: Lookup_leafAt)
  have "Lookup ?t' s =
      (if s = ?q then
         \<lparr>Action = Some cmd, RSource = Source cb, ROrigin = Origin cb, IsLeaf = True,
           HasChildren = HasChildren (Lookup ?t ?q), Found = True, RShowInBar = ShowInBar cb, ROpensMenu = OpensMenu cb\<rparr>
       else if \<exists>z. ?q = s @ z then (Lookup ?t s)\<lparr>HasChildren := True, Found := True\<rparr>
       else Lookup ?t s)" for s
  proof (cases "s = ?q")
    case True
    then show ?thesis using own next_key by (simp add: Lookup_leafAt [of ?t'] leafAt_setLeaf leafFor_def)
  next
    case ne: False
    show ?thesis
    proof (cases "\<exists>z. ?q = s @ z")
      case True
      then obtain k z where "?q = s @ k # z" using ne by (metis append_Nil2 neq_Nil_conv)
      then have "leafAt ?t' (s @ [k]) \<noteq> None" by (simp add: leafAt_setLeaf)
      then show ?thesis using ne True
        by (auto simp: Lookup_leafAt leafAt_setLeaf [of cb cmd ?q ?t s] notFound_def noLeaf_def split: option.split)
    next
      case False
      then have "s @ [k] \<noteq> ?q" "\<not> (\<exists>z. ?q = (s @ [k]) @ z)" for k
        by (metis, metis append_assoc)
      then have "leafAt ?t' (s @ [k]) = leafAt ?t (s @ [k])" for k
        by (simp only: leafAt_setLeaf if_False)
      then show ?thesis using ne False by (simp add: Lookup_leafAt leafAt_setLeaf [of cb cmd ?q ?t s] split: option.split)
    qed
  qed
  moreover have "warnings (insertWith P b cb cmd) = warnings b @
      (if \<exists>c. Action (Lookup ?t ?q) = Some c \<and> cmd_ref c \<noteq> cmd_ref cmd \<and>
           P (case nodeAt ?t ?q of None \<Rightarrow> noLeaf | Some n \<Rightarrow> node_leaf n)
       then [simpleWarning ''collision'' cb] else [])" for P
    using assms by (auto simp: insertWith_def plain_def list_all_iff Let_def Lookup_def resultOf_def
        notFound_def noLeaf_def split: option.splits)
  moreover have "lsource (case nodeAt ?t ?q of None \<Rightarrow> noLeaf | Some n \<Rightarrow> node_leaf n) = RSource (Lookup ?t ?q)"
    by (simp add: Lookup_def resultOf_def notFound_def noLeaf_def Let_def split: option.split)
  moreover have "(src = UserOverride \<or> src = CustomCmd) \<longleftrightarrow> src \<noteq> ShippedDefault" for src
    by (cases src) auto
  ultimately show ?thesis
    by (simp add: trie_insertUser_def trie_insert_def root Let_def)
qed

definition sample_key :: "rune \<Rightarrow> ChordKey" where
  "sample_key r = \<lparr>Code = r, Special = KeyNone, Mod = 0\<rparr>"

definition sample_binding :: "rune list \<Rightarrow> source \<Rightarrow> ChordBinding" where
  "sample_binding rs src = \<lparr>Sequence = map sample_key rs, BMode = ModeNormal, Scope = GLOBAL, ActionID = [],
     Description = [], Tag = [], ShowInBar = False, OpensMenu = False, Source = src, Origin = ''sample''\<rparr>"

definition sample_command :: "nat \<Rightarrow> string \<Rightarrow> command" where
  "sample_command n i = \<lparr>cmd_ref = n, cmd_ID = i, cmd_Description = i, DisabledReasonStatic = []\<rparr>"

lemma sample_plain [simp]: "plain (sample_binding rs src) \<longleftrightarrow> rs \<noteq> []"
  by (auto simp: plain_def sample_binding_def sample_key_def IsLeaderPlaceholder_def list_all_iff)

theorem insert_changes_one_leaf_witness:
  "Action (Lookup (root (trie_insertUser NewTrieBuilder (sample_binding [103, 103] UserOverride) (sample_command 1 ''top'')))
     (map sample_key [103, 103])) = Some (sample_command 1 ''top'')"
  using insert_changes_one_leaf [of "sample_binding [103, 103] UserOverride" NewTrieBuilder "sample_command 1 ''top''"]
  by (simp add: Let_def) (simp add: sample_binding_def)

text \<open>
  C28. The trie built from defaults and user bindings (no leader placeholders left in them) is
  well-formed, and says of every sequence what the last binding with that sequence says, user
  bindings over defaults; a default keeps the default tier whatever its source field said.  A
  sequence has a node exactly when it begins some binding's sequence.
\<close>

theorem user_overlays_defaults:
  assumes "\<forall>e \<in> set (ds @ us). plain (fst e)"
  shows "trie_ok (layeredTrie ds us) \<and>
    (\<forall>s. Action (Lookup (layeredTrie ds us) s) = map_option snd (lastFor s (ds @ us)) \<and>
      (\<forall>e. lastFor s us = Some e \<longrightarrow> RSource (Lookup (layeredTrie ds us) s) = Source (fst e)) \<and>
      (lastFor s us = None \<longrightarrow> RSource (Lookup (layeredTrie ds us) s) = ShippedDefault \<or> lastFor s ds = None) \<and>
      (Found (Lookup (layeredTrie ds us) s) \<longleftrightarrow> s = [] \<or> (\<exists>e \<in> set (ds @ us). \<exists>z. Sequence (fst e) = s @ z)))"
proof -
  let ?t = "layeredTrie ds us"
  have p: "list_all (\<lambda>e. plain (fst e)) ds" "list_all (\<lambda>e. plain (fst e)) us"
    using assms by (auto simp: list_all_iff)
  note ok = layered_ok(1) [OF p] and l = layered_ok(2) [OF p]
  have src: "RSource (Lookup ?t s) = lsource l" if "leafOf ?t s = Some l" for s l
    using that by (simp add: leafOf_Some Lookup_leafAt)
  have "leafOf ?t s \<noteq> None \<longleftrightarrow> (\<exists>e \<in> set (ds @ us). Sequence (fst e) = s)" for s
    using lastFor_None [of s us] lastFor_None [of s ds] by (auto simp: l split: option.split)
  then have F: "Found (Lookup ?t s) \<longleftrightarrow> s = [] \<or> (\<exists>e \<in> set (ds @ us). \<exists>z. Sequence (fst e) = s @ z)" for s
    unfolding Found_leafAt found_iff_leafOf [OF ok] by blast
  have A: "Action (Lookup ?t s) = map_option snd (lastFor s (ds @ us))" for s
    by (simp add: Action_leafOf l lastFor_append leafFor_def split: option.split)
  have U: "lastFor s us = Some e \<Longrightarrow> RSource (Lookup ?t s) = Source (fst e)" for s e
    using src [of s] by (simp add: l leafFor_def)
  have D: "lastFor s us = None \<Longrightarrow> RSource (Lookup ?t s) = ShippedDefault \<or> lastFor s ds = None" for s
    using src [of s] by (cases "lastFor s ds") (simp_all add: l leafFor_def)
  show ?thesis by (intro conjI allI impI ok F A U D)
qed

theorem user_overlays_defaults_witness:
  "Action (Lookup (layeredTrie [(sample_binding [103] ShippedDefault, sample_command 1 ''a'')]
      [(sample_binding [103] UserOverride, sample_command 2 ''b'')]) [sample_key 103]) = Some (sample_command 2 ''b'')"
  using user_overlays_defaults [of "[(sample_binding [103] ShippedDefault, sample_command 1 ''a'')]"
      "[(sample_binding [103] UserOverride, sample_command 2 ''b'')]"]
  by (simp add: lastFor_def) (simp add: sample_binding_def)

text \<open>
  Removing an action from a well-formed trie frees exactly the sequences bound to it: no
  other lookup changes its action, the report says whether there was any, the trie stays
  well-formed and the nodes left are those on the way to a remaining leaf.
\<close>

theorem removal_frees_action:
  assumes "trie_ok (root b)" "i \<noteq> []" "RemoveLeafByAction b i = (b', removed)"
  shows "trie_ok (root b') \<and>
    (\<forall>s. s \<noteq> [] \<longrightarrow> Action (Lookup (root b') s) =
      (case Action (Lookup (root b) s) of None \<Rightarrow> None | Some c \<Rightarrow> if cmd_ID c = i then None else Some c)) \<and>
    (removed \<longleftrightarrow> (\<exists>s c. s \<noteq> [] \<and> Action (Lookup (root b) s) = Some c \<and> cmd_ID c = i)) \<and>
    (\<forall>s. Found (Lookup (root b') s) \<longleftrightarrow> s = [] \<or> (\<exists>z. IsLeaf (Lookup (root b') (s @ z))))"
proof -
  from assms(2,3) have b': "root b' = removeLeafByAction i (root b)" "removed = removesAction i (root b)"
    by (auto simp: RemoveLeafByAction_def)
  note ok = trie_ok_remove [OF assms(1), of i]
  have act: "(\<exists>l. leafOf (root b) s = Some l \<and> leafID l = i) \<longleftrightarrow>
      (\<exists>c. Action (Lookup (root b) s) = Some c \<and> cmd_ID c = i)" for s
    using assms(2) by (auto simp: Action_leafOf leafID_def split: option.splits)
  have "Action (Lookup (root b') s) =
      (case Action (Lookup (root b) s) of None \<Rightarrow> None | Some c \<Rightarrow> if cmd_ID c = i then None else Some c)"
    if "s \<noteq> []" for s
    using that assms(2) unfolding Action_leafOf b'(1) leafOf_remove [OF assms(1)]
    by (auto simp: leafID_def split: option.split)
  moreover have "removed \<longleftrightarrow> (\<exists>s c. s \<noteq> [] \<and> Action (Lookup (root b) s) = Some c \<and> cmd_ID c = i)"
    unfolding b'(2) removesAction_iff [OF assms(1)] using act by blast
  moreover have "Found (Lookup (root b') s) \<longleftrightarrow> s = [] \<or> (\<exists>z. IsLeaf (Lookup (root b') (s @ z)))" for s
    unfolding Found_leafAt IsLeaf_leafOf b'(1) by (rule found_iff_leafOf [OF ok])
  ultimately show ?thesis using ok b'(1) by simp
qed

theorem removal_frees_action_witness:
  "let b = putDefault NewTrieBuilder (sample_binding [100, 106] ShippedDefault, sample_command 1 ''down'') in
   snd (RemoveLeafByAction b ''down'') \<and> \<not> Found (Lookup (root (fst (RemoveLeafByAction b ''down''))) [sample_key 100])"
proof -
  let ?b = "putDefault NewTrieBuilder (sample_binding [100, 106] ShippedDefault, sample_command 1 ''down'')"
  have ok: "trie_ok (root ?b)"
    by (simp add: root_putDefault trie_ok_insert NewTrieBuilder_def)
  have leaf: "leafOf (root ?b) s = (if s = map sample_key [100, 106] then
      Some (leafFor ((sample_binding [100, 106] ShippedDefault)\<lparr>Source := ShippedDefault\<rparr>) (sample_command 1 ''down'')) else None)" for s
    by (simp add: root_putDefault leafOf_setLeaf NewTrieBuilder_def leafOf_empty isEmptyNode_def emptyNode_def noLeaf_def)
      (simp add: sample_binding_def)
  obtain b' r where r: "RemoveLeafByAction ?b ''down'' = (b', r)" by fastforce
  have a: "Action (Lookup (root ?b) s) = (if s = map sample_key [100, 106] then Some (sample_command 1 ''down'') else None)" for s
    unfolding Action_leafOf leaf by (simp add: leafFor_def)
  note rem = removal_frees_action [OF ok _ r]
  have "\<exists>s c. s \<noteq> [] \<and> Action (Lookup (root ?b) s) = Some c \<and> cmd_ID c = ''down''"
    unfolding a by (intro exI [of _ "map sample_key [100, 106]"]) (simp add: sample_command_def)
  then have "r" using rem by blast
  have none: "\<not> IsLeaf (Lookup (root b') (s @ z))" if "s \<noteq> []" for s z
  proof -
    have "Action (Lookup (root b') (s @ z)) = None"
      using rem that unfolding a by (simp add: sample_command_def)
    then show ?thesis by (auto simp: Action_leafOf IsLeaf_leafOf leafOf_def split: option.splits)
  qed
  from rem have "Found (Lookup (root b') [sample_key 100]) \<longleftrightarrow>
      [sample_key 100] = [] \<or> (\<exists>z. IsLeaf (Lookup (root b') ([sample_key 100] @ z)))" by blast
  then have "\<not> Found (Lookup (root b') [sample_key 100])" using none by blast
  then show ?thesis using \<open>r\<close> unfolding Let_def r fst_conv snd_conv by blast
qed

text \<open>
  \<open>Walk\<close> visits every bound sequence of a well-formed trie exactly once and nothing else, and
  hands each one the result that looking it up gives.
\<close>

theorem walk_visits_each_leaf:
  assumes "trie_ok t"
  shows "distinct (map fst (Walk t)) \<and> set (Walk t) = {(s, Lookup t s) | s. IsLeaf (Lookup t s)}"
  using walk_ok [OF assms, of "[]"] by (simp add: Walk_def IsLeaf_leafOf)

theorem walk_visits_each_leaf_witness:
  "map fst (Walk (root (putDefault NewTrieBuilder (sample_binding [103] ShippedDefault, sample_command 1 ''a'')))) = [[sample_key 103]]"
proof -
  let ?t = "root (putDefault NewTrieBuilder (sample_binding [103] ShippedDefault, sample_command 1 ''a''))"
  have "trie_ok ?t" by (simp add: root_putDefault trie_ok_insert NewTrieBuilder_def)
  moreover have "IsLeaf (Lookup ?t s) \<longleftrightarrow> s = [sample_key 103]" for s
    by (simp add: root_putDefault leafOf_setLeaf NewTrieBuilder_def leafOf_empty isEmptyNode_def emptyNode_def noLeaf_def IsLeaf_leafOf)
      (simp add: sample_binding_def)
  ultimately have "distinct (map fst (Walk ?t))" "set (map fst (Walk ?t)) = {[sample_key 103]}"
    using walk_visits_each_leaf [of ?t] by (auto simp: image_def)
  then show ?thesis by (cases "map fst (Walk ?t)" rule: list.exhaust) (auto simp: subset_singleton_iff dest: subset_singletonD)
qed

text \<open>
  A placeholder after the first key leaves nodes that are neither leaves nor prefixes of one;
  callers expand the placeholders before they insert.
\<close>

lemma placeholder_leaves_dead_node:
  "let k = sample_key 103; cb = (sample_binding [103] UserOverride)\<lparr>Sequence := [k, \<lparr>Code = 0, Special = KeyLeader, Mod = 0\<rparr>]\<rparr>;
       r = Lookup (root (trie_insertUser NewTrieBuilder cb (sample_command 1 ''a''))) [k]
   in Found r \<and> \<not> IsLeaf r \<and> \<not> HasChildren r"
  by (simp add: Let_def trie_insertUser_def insertWith_def IsLeaderPlaceholder_def sample_key_def
      NewTrieBuilder_def emptyNode_def Lookup_def resultOf_def noLeaf_def)

end
