(* ===== verification/KeyMatcherSpec.thy ===== *)
theory KeyMatcherSpec
  imports KeyMatcher KeyTrieSpec
begin

text \<open>
  What the keystroke dispatcher promises: the matcher's invariant and its steps, timers that carry
  a version number (the locale \<open>versioned_timer\<close>, which the chord timer and the which-key popup
  both provide), a typed count and chord running the bound command once, no rune lost in the text
  modes, and the two chords that do not behave as the code intends.
\<close>

section \<open>The matcher's invariant\<close>

text \<open>
  An armed timer carries the current number, stands for the pending keys it saved and has a
  positive delay; a saved leaf belongs to pending keys; counts stay in their range.
\<close>

definition matcher_ok :: "env \<Rightarrow> Matcher \<Rightarrow> bool" where
  "matcher_ok v m \<longleftrightarrow>
     (\<forall>i. timer m = Some i \<longrightarrow> i = seq m \<and> pending m \<noteq> [] \<and> timerPending m = pending m \<and> 0 < timerDelay v (pending m)) \<and>
     (lastLeaf m \<noteq> None \<longrightarrow> pending m \<noteq> []) \<and> 0 \<le> count m \<and> count m \<le> countMax"

text \<open>
  What a transition does to the timer: the number never goes back, and a timer that is disarmed
  or replaced has a smaller number than the matcher from then on.
\<close>

definition retires :: "Matcher \<Rightarrow> Matcher \<Rightarrow> bool" where
  "retires m m' \<longleftrightarrow> seq m \<le> seq m' \<and> (\<forall>i. timer m = Some i \<longrightarrow> timer m' = Some i \<or> i < seq m')"

lemma cancelLocked_ok: "matcher_ok v m \<Longrightarrow> matcher_ok v (cancelLocked m) \<and> retires m (cancelLocked m)"
  by (auto simp: matcher_ok_def cancelLocked_def countMax_def retires_def)

lemma cancelPendingLocked_ok:
  "matcher_ok v m \<Longrightarrow> matcher_ok v (cancelPendingLocked m) \<and> retires m (cancelPendingLocked m) \<and>
    pending (cancelPendingLocked m) = [] \<and> timer (cancelPendingLocked m) = None"
  by (auto simp: matcher_ok_def cancelPendingLocked_def retires_def)

text \<open>The keys a lookup stores begin with the pending keys, or nothing was pending.\<close>

lemma handleLookup_ok:
  assumes "matcher_ok v m" "ks \<noteq> []" "timer m = None \<or> pending m \<noteq> [] \<and> hd ks = hd (pending m)"
  shows "matcher_ok v (fst (handleLookup v m res ks scope mode isc ab)) \<and>
    retires m (fst (handleLookup v m res ks scope mode isc ab))"
proof -
  have d: "timerDelay v ks = timerDelay v (pending m)" if "timer m \<noteq> None"
    using that assms(2,3) by (auto simp: timerDelay_def)
  show ?thesis using assms d cancelLocked_ok [OF assms(1)]
    by (auto simp: handleLookup_def Let_def matcher_ok_def retires_def scheduleTimerLocked_def stopTimerLocked_def
        split: prod.split)
qed

lemma noMatch_ok:
  "matcher_ok v m \<Longrightarrow> matcher_ok v (fst (noMatch v m mode scope k d)) \<and> retires m (fst (noMatch v m mode scope k d))"
  using cancelLocked_ok [of v m] by (auto simp: noMatch_def Let_def retires_def)

lemma retryKey_ok:
  assumes "matcher_ok v m" "timer m = None"
  shows "matcher_ok v (fst (retryKey v m mode scope k d)) \<and> retires m (fst (retryKey v m mode scope k d))"
proof -
  have "matcher_ok v (fst (handleLookup v m res [k] sc mode isc ab)) \<and> retires m (fst (handleLookup v m res [k] sc mode isc ab))"
    for res sc isc ab using handleLookup_ok [OF assms(1), of "[k]"] assms(2) by simp
  then show ?thesis using noMatch_ok [OF assms(1)] by (simp add: retryKey_def Let_def)
qed

lemma retires_trans: "retires m m' \<Longrightarrow> retires m' m'' \<Longrightarrow> retires m m''"
  by (fastforce simp: retires_def)

lemma idle_timer: "matcher_ok v m \<Longrightarrow> pending m = [] \<Longrightarrow> timer m = None"
  by (cases "timer m") (auto simp: matcher_ok_def)


lemma retryKey_cancelled_ok:
  assumes "matcher_ok v m"
  shows "matcher_ok v (fst (retryKey v (cancelPendingLocked m) mode scope k d)) \<and>
    retires m (fst (retryKey v (cancelPendingLocked m) mode scope k d))"
  using cancelPendingLocked_ok [OF assms] retryKey_ok [of v "cancelPendingLocked m" mode scope k d]
    retires_trans [of m "cancelPendingLocked m"] by blast

lemma dispatchTries_ok:
  assumes "matcher_ok v m"
  shows "matcher_ok v (fst (dispatchTries v m mode scope k)) \<and> retires m (fst (dispatchTries v m mode scope k))"
proof -
  let ?f = "pending m @ [k]"
  have a: "matcher_ok v (fst (handleLookup v m res ?f sc mode isc ab)) \<and> retires m (fst (handleLookup v m res ?f sc mode isc ab))"
    for res sc isc ab
    using handleLookup_ok [OF assms, of ?f] idle_timer [OF assms] by (cases "pending m") auto
  have b: "matcher_ok v (fst (handleLookup v (cancelPendingLocked m) res ?f sc mode isc ab)) \<and>
      retires m (fst (handleLookup v (cancelPendingLocked m) res ?f sc mode isc ab))" for res sc isc ab
    using handleLookup_ok [of v "cancelPendingLocked m" ?f] cancelPendingLocked_ok [OF assms] retires_trans [of m "cancelPendingLocked m"]
    by (metis append_is_Nil_conv not_Cons_self2)
  have c: "matcher_ok v (fst (retryKey v m mode scope k None)) \<and> retires m (fst (retryKey v m mode scope k None))" if "pending m = []"
    using retryKey_ok [OF assms idle_timer [OF assms that]] .
  have d: "matcher_ok v (fst (retryKey v m mode scope k None)) \<and> retires m (fst (retryKey v m mode scope k None))"
    if "TrieSet_Get (trieSet m) mode scope = None" "TrieSet_Get (trieSet m) mode GLOBAL = None"
    using noMatch_ok [OF assms] that by (simp add: retryKey_def notFound_def)
  show ?thesis using a b c d retryKey_cancelled_ok [OF assms]
    by (simp add: dispatchTries_def Let_def)
qed

lemma dispatchIdle_ok:
  assumes "matcher_ok v m"
  shows "matcher_ok v (fst (dispatchIdle v m mode scope k)) \<and> retires m (fst (dispatchIdle v m mode scope k))"
proof -
  have "0 \<le> min (count m * 10 + int (Code k - 48)) countMax" using assms by (simp add: matcher_ok_def countMax_def)
  then show ?thesis using assms dispatchTries_ok [OF assms] idle_timer [OF assms]
    by (auto simp: dispatchIdle_def matcher_ok_def retires_def)
qed

lemma Dispatch_ok:
  assumes "matcher_ok v m"
  shows "matcher_ok v (fst (Dispatch v m scope k)) \<and> retires m (fst (Dispatch v m scope k))"
proof -
  note c = cancelLocked_ok [OF assms]
  have "matcher_ok v (fst (dispatchIdle v (cancelLocked m) mode scope k)) \<and> retires m (fst (dispatchIdle v (cancelLocked m) mode scope k))" for mode
    using dispatchIdle_ok [of v "cancelLocked m" mode scope k] c retires_trans by blast
  moreover have "matcher_ok v (m\<lparr>register := Code k, pending := [], lastLeaf := None, timer := None, seq := seq m + 1\<rparr>) \<and>
      retires m (m\<lparr>register := Code k, pending := [], lastLeaf := None, timer := None, seq := seq m + 1\<rparr>)"
    using assms by (auto simp: matcher_ok_def retires_def)
  moreover have "retires m m" by (auto simp: retires_def)
  ultimately show ?thesis using assms dispatchIdle_ok [OF assms]
    by (simp add: Dispatch_def Let_def)
qed

lemma deliverTimeout_ok:
  "matcher_ok v m \<Longrightarrow> matcher_ok v (fst (deliverTimeout v m i)) \<and> retires m (fst (deliverTimeout v m i))"
proof -
  assume m: "matcher_ok v m"
  have "fst (deliverTimeout v m i) \<in> {m, cancelLocked m}"
    by (auto simp: deliverTimeout_def Let_def split: option.split prod.split key_error.split)
  then show ?thesis using m cancelLocked_ok [OF m] by (auto simp: retires_def)
qed

section \<open>Transitions\<close>

inductive matcher_step :: "env \<Rightarrow> Matcher \<Rightarrow> Matcher \<Rightarrow> bool" for v where
  key: "matcher_step v m (fst (Dispatch v m scope k))"
| timeout: "matcher_step v m (fst (deliverTimeout v m i))"
| cancel: "matcher_step v m (fst (Cancel v m))"
| swap: "matcher_step v m (fst (SwapTrieSet v m t))"
| set_mode: "matcher_step v m (m\<lparr>modes := ModeStore_Set (modes m) scope mode\<rparr>)"
| reset_mode: "matcher_step v m (m\<lparr>modes := ModeStore_Reset (modes m) scope\<rparr>)"
| flush_callback: "matcher_step v m (OnInsertPendingFlush m scope registered)"

lemma matcher_step_ok: "matcher_step v m m' \<Longrightarrow> matcher_ok v m \<Longrightarrow> matcher_ok v m' \<and> retires m m'"
proof (induction rule: matcher_step.induct)
  case (swap m t)
  then have "matcher_ok v (m\<lparr>swapCount := swapCount m + 1\<rparr>)" by (simp add: matcher_ok_def)
  from cancelLocked_ok [OF this] show ?case
    by (simp add: SwapTrieSet_def Cancel_def matcher_ok_def retires_def)
qed (simp_all add: Dispatch_ok deliverTimeout_ok Cancel_def cancelLocked_ok, simp_all add: matcher_ok_def retires_def OnInsertPendingFlush_def)

text \<open>Timers that are told apart by a number.\<close>

locale versioned_timer =
  fixes inv :: "'s \<Rightarrow> bool" and number :: "'s \<Rightarrow> nat" and armed :: "'s \<Rightarrow> nat option"
    and fire :: "nat \<Rightarrow> 's \<Rightarrow> 's" and step :: "'s \<Rightarrow> 's \<Rightarrow> bool"
  assumes inv_step: "step s s' \<Longrightarrow> inv s \<Longrightarrow> inv s'"
    and number_step: "step s s' \<Longrightarrow> inv s \<Longrightarrow> number s \<le> number s'"
    and disarm: "step s s' \<Longrightarrow> inv s \<Longrightarrow> armed s = Some i \<Longrightarrow> armed s' = Some i \<or> i < number s'"
    and old_inert: "i < number s \<Longrightarrow> inv s \<Longrightarrow> fire i s = s"
begin

lemma run_inv: "step\<^sup>*\<^sup>* s s' \<Longrightarrow> inv s \<Longrightarrow> inv s' \<and> number s \<le> number s'"
  by (induction rule: rtranclp_induct) (auto dest: inv_step number_step order_trans)

text \<open>Once an armed timer is disarmed or replaced, its callback is inert for ever.\<close>

lemma retired:
  assumes "step\<^sup>*\<^sup>* s s'" "inv s" "armed s = Some i"
  shows "armed s' = Some i \<or> i < number s'"
  using assms(1)
proof (induction rule: rtranclp_induct)
  case (step s' s'')
  then have "inv s'" using run_inv assms(2) by blast
  from step.IH show ?case
  proof
    assume "armed s' = Some i"
    from disarm [OF step.hyps(2) \<open>inv s'\<close> this] show ?thesis .
  next
    assume "i < number s'"
    then show ?thesis using number_step [OF step.hyps(2) \<open>inv s'\<close>] by simp
  qed
qed (simp add: assms(3))

lemma retired_inert:
  assumes "step\<^sup>*\<^sup>* s s'" "inv s" "armed s = Some i" "armed s' \<noteq> Some i" "step\<^sup>*\<^sup>* s' s''"
  shows "i < number s'' \<and> fire i s'' = s''"
proof -
  have "i < number s'" using retired [OF assms(1-3)] assms(4) by blast
  moreover have "inv s'" using run_inv [OF assms(1,2)] by blast
  ultimately show ?thesis using run_inv [OF assms(5)] old_inert [of i s''] by force
qed

end

interpretation chord_timer: versioned_timer "matcher_ok v" seq timer "\<lambda>i m. fst (deliverTimeout v m i)" "matcher_step v" for v
  by unfold_locales (use matcher_step_ok in \<open>fastforce simp: retires_def deliverTimeout_def\<close>)+

inductive wk_step :: "WhichKey \<Rightarrow> WhichKey \<Rightarrow> bool" where
  show_after: "wk_step w (wk_ShowAfter w delay scope prefix)"
| wk_hide: "wk_step w (wk_Hide w)"
| fires: "wk_step w (wk_fire i w)"

definition wk_ok :: "WhichKey \<Rightarrow> bool" where
  "wk_ok w \<longleftrightarrow> (\<forall>st. wstate w = Some st \<longrightarrow> wid st = wseq w)"

definition wk_armed :: "WhichKey \<Rightarrow> nat option" where
  "wk_armed w = (case wstate w of None \<Rightarrow> None | Some st \<Rightarrow> if wtimer st then Some (wid st) else None)"

lemmas wk_defs = wk_ShowAfter_def wk_Hide_def wk_cancelLocked_def wk_fire_def wk_ok_def wk_armed_def Let_def

interpretation popup_timer: versioned_timer wk_ok wseq wk_armed wk_fire wk_step
  by unfold_locales (auto elim!: wk_step.cases simp: wk_defs split: option.splits if_splits)


section \<open>Typing a chord\<close>

text \<open>The keys of a list one after another, with no timeout in between.\<close>

fun typed :: "env \<Rightarrow> Matcher \<Rightarrow> context_key \<Rightarrow> ChordKey list \<Rightarrow> Matcher \<times> DispatchResult list \<times> event list" where
  "typed v m scope [] = (m, [], [])"
| "typed v m scope (k # ks) =
     (case Dispatch v m scope k of
        (m1, r, es, err) \<Rightarrow> (case typed v m1 scope ks of (m2, rs, es2) \<Rightarrow> (m2, r # rs, es @ es2)))"

lemma typed_append:
  "typed v m scope (xs @ ys) =
   (case typed v m scope xs of (m1, rs1, es1) \<Rightarrow> (case typed v m1 scope ys of (m2, rs2, es2) \<Rightarrow> (m2, rs1 @ rs2, es1 @ es2)))"
  by (induction xs arbitrary: m) (simp_all split: prod.split)

definition quote :: ChordKey where
  "quote = \<lparr>Code = 34, Special = KeyNone, Mod = 0\<rparr>"

lemma registerPrompt_quote: "registerPrompt m \<longleftrightarrow> pending m = [quote]"
  by (cases "pending m") (auto simp: registerPrompt_def plainRune_def quote_def)

text \<open>The invoking events are those of the handler's run only.\<close>

definition invokes :: "event list \<Rightarrow> (command \<times> ExecCtx) list" where
  "invokes es = concat (map (\<lambda>e. case e of Invoke c x \<Rightarrow> [(c, x)] | _ \<Rightarrow> []) es)"

lemma invokes_simps [simp]:
  "invokes (a @ b) = invokes a @ invokes b" "invokes [] = []" "invokes (hide v) = []"
  "invokes (flushInsertPending v m sc ks) = []" "invokes (notifyWhichKey v sc ks) = []" "invokes (toast v s) = []"
  by (simp_all add: invokes_def hide_def flushInsertPending_def notifyWhichKey_def toast_def Let_def)

text \<open>A key that extends the pending keys along the scope's trie.\<close>

lemma Dispatch_extends:
  assumes "TrieSet_Get (trieSet m) (CurrentMode m scope) scope = Some t"
    and "Found (Lookup t (pending m @ [k]))" "\<not> registerPrompt m"
  shows "Dispatch v m scope k =
    handleLookup v m (Lookup t (pending m @ [k])) (pending m @ [k]) scope (CurrentMode m scope) scope []"
proof -
  have "bound m (CurrentMode m scope) scope k" if "pending m = []"
    using assms(1,2) that by (simp add: bound_def bindingExistsAt_def)
  then show ?thesis using assms
    by (auto simp: Dispatch_def Let_def dispatchIdle_def dispatchTries_def CurrentMode_def)
qed

lemma prefix_interior:
  assumes "Found (Lookup t (p @ k # s))"
  shows "Found (Lookup t p) \<and> HasChildren (Lookup t p)"
proof -
  have "leafAt t ((p @ [k]) @ s) \<noteq> None" using assms by (simp add: Found_leafAt)
  then have "leafAt t (p @ [k]) \<noteq> None" by (rule leafAt_prefix)
  moreover from this have "leafAt t p \<noteq> None" by (rule leafAt_prefix)
  ultimately show ?thesis by (auto simp: Lookup_leafAt) blast
qed

text \<open>What a pending dispatch leaves alone.\<close>

definition same_setup :: "Matcher \<Rightarrow> Matcher \<Rightarrow> bool" where
  "same_setup m m' \<longleftrightarrow> trieSet m' = trieSet m \<and> modes m' = modes m \<and> count m' = count m \<and>
     register m' = register m \<and> insertFlush m' = insertFlush m"

lemma interior_pends:
  assumes "HasChildren res" "handleLookup v m res ks sc mode isc ab = (m', r, es, err)"
  shows "r = Pending \<and> pending m' = ks \<and> same_setup m m' \<and> invokes es = [] \<and> err = None"
  using assms by (auto simp: handleLookup_def Let_def same_setup_def scheduleTimerLocked_def stopTimerLocked_def
      split: if_splits)

lemma typed_prefix:
  assumes "TrieSet_Get (trieSet m) (CurrentMode m scope) scope = Some t" "pending m = []"
    and "Found (Lookup t (p @ k # s))" "p @ k # s \<noteq> [] \<longrightarrow> hd (p @ k # s) \<noteq> quote"
  shows "\<exists>m' es. typed v m scope p = (m', replicate (length p) Pending, es) \<and> pending m' = p \<and>
    same_setup m m' \<and> invokes es = []"
  using assms(3,4)
proof (induction p arbitrary: k s rule: rev_induct)
  case Nil
  then show ?case using assms(2) by (simp add: same_setup_def)
next
  case (snoc j p)
  then have f: "Found (Lookup t (p @ j # k # s))" by simp
  from snoc.IH [OF this] snoc.prems(2) obtain m' es where
    m': "typed v m scope p = (m', replicate (length p) Pending, es)" "pending m' = p" "same_setup m m'" "invokes es = []"
    by auto
  have c: "Found (Lookup t (p @ [j]))" "HasChildren (Lookup t (p @ [j]))"
    using prefix_interior [of t "p @ [j]" k s] snoc.prems(1) by simp_all
  have "\<not> registerPrompt m'" using snoc.prems(2) m'(2) by (cases p) (auto simp: registerPrompt_quote)
  moreover have "TrieSet_Get (trieSet m') (CurrentMode m' scope) scope = Some t"
    using assms(1) m'(3) by (simp add: same_setup_def CurrentMode_def)
  ultimately have d: "Dispatch v m' scope j = handleLookup v m' (Lookup t (p @ [j])) (p @ [j]) scope (CurrentMode m' scope) scope []"
    using Dispatch_extends [of m' scope t j v] c(1) m'(2) by simp
  obtain m'' r es' err where h: "handleLookup v m' (Lookup t (p @ [j])) (p @ [j]) scope (CurrentMode m' scope) scope [] = (m'', r, es', err)"
    by (metis prod_cases4)
  from interior_pends [OF c(2) h] d h m' show ?case
    by (simp add: typed_append replicate_append_same same_setup_def)
qed

section \<open>Counts\<close>

definition digitKey :: "nat \<Rightarrow> ChordKey" where
  "digitKey d = \<lparr>Code = 48 + d, Special = KeyNone, Mod = 0\<rparr>"

definition decimal :: "nat list \<Rightarrow> int" where
  "decimal ds = foldl (\<lambda>a d. a * 10 + int d) 0 ds"

lemma decimal_snoc: "decimal (ds @ [d]) = decimal ds * 10 + int d"
  by (simp add: decimal_def)

lemma decimal_nonneg: "0 \<le> decimal ds"
  by (induction ds rule: rev_induct) (simp_all add: decimal_snoc, simp add: decimal_def)

lemma typed_digits:
  assumes "\<not> textMode (CurrentMode m scope)" "pending m = []" "count m = 0"
    and "\<forall>d \<in> set ds. d < 10 \<and> \<not> bound m (CurrentMode m scope) scope (digitKey d)" "ds \<noteq> [] \<longrightarrow> hd ds \<noteq> 0"
  shows "typed v m scope (map digitKey ds) = (m\<lparr>count := min (decimal ds) countMax\<rparr>, replicate (length ds) Pending, []) \<and>
    (ds \<noteq> [] \<longrightarrow> 0 < decimal ds)"
  using assms(4,5)
proof (induction ds rule: rev_induct)
  case Nil
  then show ?case using assms(3) by (simp add: decimal_def countMax_def)
next
  case (snoc d ds)
  let ?m = "m\<lparr>count := min (decimal ds) countMax\<rparr>"
  have ih: "typed v m scope (map digitKey ds) = (?m, replicate (length ds) Pending, [])" "ds \<noteq> [] \<longrightarrow> 0 < decimal ds"
    using snoc by (cases ds; simp)+
  have digit: "countDigit ?m (digitKey d)"
    using snoc.prems ih(2) by (cases ds) (auto simp: countDigit_def digitKey_def countMax_def)
  have "bound ?m = bound m" by (simp add: bound_def fun_eq_iff)
  moreover have "min (min (decimal ds) countMax * 10 + int d) countMax = min (decimal ds * 10 + int d) countMax"
    by (auto simp: countMax_def)
  ultimately have "Dispatch v ?m scope (digitKey d) = (m\<lparr>count := min (decimal (ds @ [d])) countMax\<rparr>, Pending, [], None)"
    using assms(1,2) snoc.prems(1) digit
    by (simp add: Dispatch_def Let_def dispatchIdle_def CurrentMode_def registerPrompt_def plainRune_def digitKey_def decimal_snoc)
  moreover have "0 < decimal (ds @ [d])"
    unfolding decimal_snoc using snoc.prems(2) ih(2) by (cases "ds = []") (simp_all add: decimal_def)
  ultimately show ?case using ih(1) by (simp add: typed_append replicate_append_same)
qed


section \<open>Text\<close>

text \<open>The runes flushed to a scope.\<close>

definition flushed :: "context_key \<Rightarrow> event list \<Rightarrow> runes" where
  "flushed scope es = concat (map (\<lambda>e. case e of Flush sc rs \<Rightarrow> if sc = scope then rs else [] | _ \<Rightarrow> []) es)"

lemma flushed_simps [simp]:
  "flushed sc (a @ b) = flushed sc a @ flushed sc b" "flushed sc [] = []" "flushed sc (hide v) = []"
  "flushed sc (notifyWhichKey v sc' ks) = []" "flushed sc (toast v s) = []"
  by (simp_all add: flushed_def hide_def notifyWhichKey_def toast_def)

lemma flushed_invoke [simp]: "flushed sc (fst (invokeHandler v cmd s mode n r)) = []"
  by (auto simp: invokeHandler_def Let_def flushed_def disabledToast_def toast_def split: option.split outcome.split)

lemma flushed_pending:
  "scope \<in> set (insertFlush m) \<Longrightarrow> list_all (isPrintableRune v) ks \<Longrightarrow>
   flushed scope (flushInsertPending v m scope ks) = map Code ks"
  by (simp add: flushInsertPending_def flushed_def Let_def list_all_iff filter_id_conv)

text \<open>
  Where a rune typed in a text mode goes: out to the buffer by a flush or a pass-through, into
  the pending chord, or into the chord whose command was dispatched.
\<close>

definition tries_ok :: "Matcher \<Rightarrow> bool" where
  "tries_ok m \<longleftrightarrow> (\<forall>mode sc t. TrieSet_Get (trieSet m) mode sc = Some t \<longrightarrow> trie_ok t)"

definition accounted :: "Matcher \<Rightarrow> mode \<Rightarrow> context_key \<Rightarrow> runes \<Rightarrow> runes \<Rightarrow> dispatched \<Rightarrow> bool" where
  "accounted m mode scope old new d \<longleftrightarrow>
     (case d of (m', r, es, err) \<Rightarrow>
        r = Passthrough \<and> pending m' = [] \<and> flushed scope es @ new = old @ new \<or>
        r = Pending \<and> flushed scope es @ map Code (pending m') = old @ new \<or>
        r = Dispatched \<and> pending m' = [] \<and>
          (\<exists>ks sc t. sc \<in> {scope, GLOBAL} \<and> TrieSet_Get (trieSet m) mode sc = Some t \<and> IsLeaf (Lookup t ks) \<and>
             flushed scope es @ map Code ks = old @ new))"

lemma trie_found_cases: "trie_ok t \<Longrightarrow> ks \<noteq> [] \<Longrightarrow> Found (Lookup t ks) \<Longrightarrow> IsLeaf (Lookup t ks) \<or> HasChildren (Lookup t ks)"
proof -
  assume "trie_ok t" "ks \<noteq> []" "Found (Lookup t ks)"
  then obtain n where n: "nodeAt t ks = Some n" by (auto simp: Lookup_def notFound_def split: option.splits)
  from trie_ok_nodeAt [OF \<open>trie_ok t\<close> n \<open>ks \<noteq> []\<close>] show ?thesis
    by (auto simp: Lookup_def n resultOf_def isEmptyNode_def Let_def)
qed

lemma handleLookup_accounted:
  assumes "TrieSet_Get (trieSet m0) mode sc = Some t" "trie_ok t" "sc \<in> {scope, GLOBAL}" "ks \<noteq> []" "Found (Lookup t ks)"
    and "scope \<in> set (insertFlush m)" "list_all (isPrintableRune v) ab" "map Code ab @ map Code ks = old @ new"
  shows "accounted m0 mode scope old new (handleLookup v m (Lookup t ks) ks sc mode scope ab)"
proof (cases "HasChildren (Lookup t ks)")
  case True
  then show ?thesis using assms(6-8)
    by (auto simp: accounted_def handleLookup_def Let_def scheduleTimerLocked_def stopTimerLocked_def flushed_pending)
next
  case False
  then have "IsLeaf (Lookup t ks)" using trie_found_cases [OF assms(2,4,5)] by simp
  obtain es err where i: "invokeHandler v (Action (Lookup t ks)) sc mode (count m) (register m) = (es, err)" by fastforce
  from flushed_invoke [of scope v "Action (Lookup t ks)" sc mode "count m" "register m"] i
  have "flushed scope es = []" by simp
  then show ?thesis using \<open>IsLeaf (Lookup t ks)\<close> False assms(1,3,6-8)
    by (simp add: accounted_def handleLookup_def i cancelLocked_def flushed_pending) blast
qed

lemma retryKey_accounted:
  assumes "textMode mode" "tries_ok m" "scope \<in> set (insertFlush m)" "pending m = []" "isPrintableRune v k"
    and "list_all (isPrintableRune v) (case dropped of None \<Rightarrow> [] | Some d \<Rightarrow> d)"
  shows "accounted m mode scope (map Code (case dropped of None \<Rightarrow> [] | Some d \<Rightarrow> d)) [Code k] (retryKey v m mode scope k dropped)"
proof -
  let ?ab = "case dropped of None \<Rightarrow> [] | Some d \<Rightarrow> d"
  have ab: "(case dropped of None \<Rightarrow> [] | Some d \<Rightarrow> if textMode mode then d else []) = ?ab"
    using assms(1) by (simp split: option.split)
  have h: "accounted m mode scope (map Code ?ab) [Code k] (handleLookup v m (Lookup t [k]) [k] sc mode scope ?ab)"
    if "TrieSet_Get (trieSet m) mode sc = Some t" "sc \<in> {scope, GLOBAL}" "Found (Lookup t [k])" for sc t
  proof (rule handleLookup_accounted [OF that(1) _ that(2) _ that(3) assms(3,6)])
    show "trie_ok t" using assms(2) that(1) by (auto simp: tries_ok_def)
  qed simp_all
  have n: "accounted m mode scope (map Code ?ab) [Code k] (noMatch v m mode scope k dropped)"
    using assms by (auto simp: accounted_def noMatch_def Let_def flushed_pending split: option.splits)
  show ?thesis unfolding retryKey_def Let_def ab
    using h [of scope] h [of GLOBAL] n by (auto simp: notFound_def split: option.splits)
qed

lemma accounted_setup: "trieSet m' = trieSet m \<Longrightarrow> accounted m' = accounted m"
  by (simp add: accounted_def fun_eq_iff)

lemma Dispatch_accounted:
  assumes "textMode (CurrentMode m scope)" "tries_ok m" "scope \<in> set (insertFlush m)" "isPrintableRune v k"
    and "list_all (isPrintableRune v) (pending m)" "\<not> registerPrompt m"
    and "pending m \<noteq> [] \<longrightarrow> TrieSet_Get (trieSet m) (CurrentMode m scope) scope \<noteq> None \<or>
      TrieSet_Get (trieSet m) (CurrentMode m scope) GLOBAL \<noteq> None"
  shows "accounted m (CurrentMode m scope) scope (map Code (pending m)) [Code k] (Dispatch v m scope k)"
proof (cases "pending m = [] \<and> count m = 0 \<and> register m = 0 \<and> \<not> bound m (CurrentMode m scope) scope k")
  case True
  then show ?thesis using assms(1,4) by (simp add: Dispatch_def Let_def CurrentMode_def accounted_def)
next
  case False
  let ?mode = "CurrentMode m scope" and ?f = "pending m @ [k]" and ?c = "cancelPendingLocked m"
  have d: "Dispatch v m scope k = dispatchTries v m ?mode scope k"
    using False assms(1,4,6) by (auto simp: Dispatch_def Let_def CurrentMode_def dispatchIdle_def)
  have c: "trieSet ?c = trieSet m" "insertFlush ?c = insertFlush m" "pending ?c = []" "tries_ok ?c"
    using assms(2) by (simp_all add: cancelPendingLocked_def tries_ok_def)
  have h: "accounted m ?mode scope (map Code (pending m)) [Code k] (handleLookup v m' (Lookup t ?f) ?f sc ?mode scope [])"
    if "TrieSet_Get (trieSet m) ?mode sc = Some t" "sc \<in> {scope, GLOBAL}" "Found (Lookup t ?f)" "insertFlush m' = insertFlush m" for sc t m'
  proof (rule handleLookup_accounted [OF that(1) _ that(2) _ that(3)])
    show "trie_ok t" using assms(2) that(1) by (auto simp: tries_ok_def)
  qed (use assms(3) that(4) in simp_all)
  have r: "accounted m ?mode scope (map Code (pending m)) [Code k] (retryKey v ?c ?mode scope k (Some (pending m)))"
    using retryKey_accounted [OF assms(1) c(4) _ c(3) assms(4), of scope "Some (pending m)"] assms(3,5) c
    by (simp add: accounted_setup [OF c(1)])
  have e: "accounted m ?mode scope (map Code (pending m)) [Code k] (retryKey v m ?mode scope k None)" if "pending m = []"
    using retryKey_accounted [OF assms(1-3) that assms(4), of None] that by simp
  show ?thesis unfolding d dispatchTries_def Let_def
    using h [of scope _ m] h [of GLOBAL _ m] h [of GLOBAL _ ?c] r e assms(7) c(2)
    by (auto simp: notFound_def split: option.splits)
qed


section \<open>Properties\<close>

text \<open>
  C27. Typing a chord runs its command: from an idle matcher, a count (in a mode that collects
  counts, of digits that are bound to nothing) followed by the keys of an unambiguous leaf of
  the scope's trie gives \<open>Pending\<close> for every key but the last and \<open>Dispatched\<close> for the last, runs
  that command and nothing else, once, with the count clamped to 999999 and the register chosen
  before (or not at all when it is disabled), and leaves the matcher idle.
\<close>

theorem typed_chord_runs_command:
  assumes "pending m = []" "count m = 0" "textMode (CurrentMode m scope) \<longrightarrow> ds = []"
    and "\<forall>d \<in> set ds. d < 10 \<and> \<not> bound m (CurrentMode m scope) scope (digitKey d)" "ds \<noteq> [] \<longrightarrow> hd ds \<noteq> 0"
    and "TrieSet_Get (trieSet m) (CurrentMode m scope) scope = Some t" "ks \<noteq> []" "tl ks \<noteq> [] \<longrightarrow> hd ks \<noteq> quote"
    and "Action (Lookup t ks) = Some c" "IsLeaf (Lookup t ks)" "Found (Lookup t ks)" "\<not> HasChildren (Lookup t ks)"
    and "handler v c = Some h"
  shows "let ctx = \<lparr>CtxCount = min (decimal ds) 999999, CtxRegister = register m,
                    CtxMode = CurrentMode m scope, CtxScope = scope\<rparr> in
    \<exists>m' es. typed v m scope (map digitKey ds @ ks) =
        (m', replicate (length ds + length ks - 1) Pending @ [Dispatched], es) \<and>
      invokes es = (if Disabled v c ctx = None then [(c, ctx)] else []) \<and>
      \<not> IsPartial m' \<and> trieSet m' = trieSet m \<and> modes m' = modes m"
proof -
  let ?m = "m\<lparr>count := min (decimal ds) countMax\<rparr>"
  let ?ctx = "\<lparr>CtxCount = min (decimal ds) 999999, CtxRegister = register m, CtxMode = CurrentMode m scope, CtxScope = scope\<rparr>"
  have digits: "typed v m scope (map digitKey ds) = (?m, replicate (length ds) Pending, [])"
  proof (cases "ds = []")
    case True
    then show ?thesis using assms(2) by (simp add: decimal_def countMax_def)
  next
    case False
    then show ?thesis using typed_digits [OF _ assms(1,2,4,5)] assms(3) by blast
  qed
  obtain p k where ks: "ks = p @ [k]" using assms(7) by (cases ks rule: rev_cases) auto
  have t: "TrieSet_Get (trieSet ?m) (CurrentMode ?m scope) scope = Some t" using assms(6) by (simp add: CurrentMode_def)
  have m1: "\<exists>m1 es. typed v ?m scope p = (m1, replicate (length p) Pending, es) \<and> pending m1 = p \<and> same_setup ?m m1 \<and> invokes es = []"
  proof (cases "p = []")
    case True
    then show ?thesis using assms(1) by (simp add: same_setup_def)
  next
    case False
    then have "hd (p @ [k]) \<noteq> quote" using assms(8) ks by (cases p) auto
    then show ?thesis using typed_prefix [OF t _ assms(11) [unfolded ks], of v] assms(1) by simp
  qed
  then obtain m1 es where m1: "typed v ?m scope p = (m1, replicate (length p) Pending, es)" "pending m1 = p"
    "same_setup ?m m1" "invokes es = []" by blast
  have t1: "TrieSet_Get (trieSet m1) (CurrentMode m1 scope) scope = Some t" "CurrentMode m1 scope = CurrentMode m scope"
    using t m1(3) by (simp_all add: same_setup_def CurrentMode_def)
  have "\<not> registerPrompt m1" using assms(8) ks m1(2) by (auto simp: registerPrompt_quote)
  from Dispatch_extends [OF t1(1) _ this, of k v] have d: "Dispatch v m1 scope k =
      handleLookup v m1 (Lookup t ks) ks scope (CurrentMode m scope) scope []"
    using assms(11) m1(2) t1(2) ks by simp
  obtain es' err where i: "invokeHandler v (Some c) scope (CurrentMode m scope) (count m1) (register m1) = (es', err)" by fastforce
  have "invokes es' = (if Disabled v c ?ctx = None then [(c, ?ctx)] else [])"
    using i assms(13) m1(3) by (auto simp: invokeHandler_def Let_def same_setup_def countMax_def disabledToast_def toast_def
        invokes_def split: option.splits outcome.splits if_splits)
  moreover have "Dispatch v m1 scope k = (cancelLocked m1, Dispatched, hide v @ es', err)"
    using d assms(9,10,12) i by (simp add: handleLookup_def flushInsertPending_def)
  moreover have "\<not> IsPartial (cancelLocked m1)" by (simp add: IsPartial_def cancelLocked_def)
  ultimately show ?thesis using m1 digits ks
    by (simp add: typed_append Let_def same_setup_def cancelLocked_def replicate_add [symmetric] replicate_app_Cons_same)
qed

definition sample_env :: env where
  "sample_env = \<lparr>handler = \<lambda>_. Some (\<lambda>_. Done), getDisabled = \<lambda>_. None, isPrint = \<lambda>r. 32 \<le> r, hasWhichKey = True,
     hasToaster = False, tlen = 500, ttlen = 50, wdelay = 300\<rparr>"

definition sample_trie :: trieNode where
  "sample_trie = root (putDefault NewTrieBuilder (sample_binding [103, 103] ShippedDefault, sample_command 1 ''top''))"

definition sample_matcher :: "mode \<Rightarrow> Matcher" where
  "sample_matcher mode = \<lparr>trieSet = Some \<lparr>tries = [((mode, ''q''), sample_trie)], Leader = 32, LocalLeader = 44\<rparr>,
     swapCount = 0, modes = [(''q'', mode)], pending = [], lastLeaf = None, count = 0, register = 0, timer = None,
     seq = 0, insertFlush = [''q''], timerScope = [], timerInputScope = [], timerMode = ModeNormal, timerPending = []\<rparr>"

lemma sample_trie_lookup:
  "trie_ok sample_trie" "leafOf sample_trie s = (if s = [sample_key 103, sample_key 103] then
     Some (leafFor (sample_binding [103, 103] ShippedDefault) (sample_command 1 ''top'')) else None)"
  by (simp_all add: sample_trie_def root_putDefault trie_ok_insert leafOf_setLeaf NewTrieBuilder_def leafOf_empty
      isEmptyNode_def emptyNode_def noLeaf_def) (simp add: sample_binding_def)

lemma sample_lookup_simps:
  "Action (Lookup sample_trie [sample_key 103, sample_key 103]) = Some (sample_command 1 ''top'')"
  "IsLeaf (Lookup sample_trie [sample_key 103, sample_key 103])"
  "Found (Lookup sample_trie [sample_key 103, sample_key 103])"
  "\<not> HasChildren (Lookup sample_trie [sample_key 103, sample_key 103])"
  "Found (Lookup sample_trie [k]) \<longleftrightarrow> k = sample_key 103"
  by (simp_all add: sample_trie_def root_putDefault Lookup_leafAt leafAt_setLeaf leafAt_emptyNode NewTrieBuilder_def
      notFound_def leafFor_def) (auto simp: sample_binding_def)

theorem typed_chord_runs_command_witness:
  "\<exists>m' es. typed sample_env (sample_matcher ModeNormal) ''q'' (map digitKey [1, 2] @ [sample_key 103, sample_key 103]) =
      (m', [Pending, Pending, Pending, Dispatched], es) \<and>
    invokes es = [(sample_command 1 ''top'', \<lparr>CtxCount = 12, CtxRegister = 0, CtxMode = ModeNormal, CtxScope = ''q''\<rparr>)]"
proof -
  let ?m = "sample_matcher ModeNormal"
  have m: "CurrentMode ?m ''q'' = ModeNormal" "pending ?m = []" "count ?m = 0" "register ?m = 0"
    "TrieSet_Get (trieSet ?m) ModeNormal ''q'' = Some sample_trie" "TrieSet_Get (trieSet ?m) ModeNormal GLOBAL = None"
    by (simp_all add: sample_matcher_def CurrentMode_def ModeStore_Get_def TrieSet_Get_def GLOBAL_def)
  have "\<not> bound ?m ModeNormal ''q'' (digitKey 1) \<and> \<not> bound ?m ModeNormal ''q'' (digitKey 2)"
    by (simp add: bound_def bindingExistsAt_def m sample_lookup_simps) (simp add: digitKey_def sample_key_def)
  moreover have "sample_key 103 \<noteq> quote" by (simp add: sample_key_def quote_def)
  moreover have "Disabled sample_env (sample_command 1 ''top'') x = None" for x
    by (simp add: Disabled_def sample_env_def sample_command_def)
  moreover have "handler sample_env (sample_command 1 ''top'') = Some (\<lambda>_. Done)" by (simp add: sample_env_def)
  moreover have "decimal [1, 2] = 12" "length [1 :: nat, 2] + length [sample_key 103, sample_key 103] - 1 = 3"
    by (simp_all add: decimal_def)
  moreover have "replicate 3 Pending @ [Dispatched] = [Pending, Pending, Pending, Dispatched]"
    by (simp add: numeral_eq_Suc)
  ultimately show ?thesis
    using typed_chord_runs_command [of ?m "''q''" "[1, 2]" sample_trie "[sample_key 103, sample_key 103]"
        "sample_command 1 ''top''" sample_env "\<lambda>_. Done"] m sample_lookup_simps
    by (simp del: typed.simps One_nat_def add: textMode_def Let_def) blast
qed




text \<open>
  C30. Stale timers are harmless.  In every run of keystrokes, timeouts, cancels, reloads and mode
  changes, once a chord's timer is no longer the armed one, its callback does nothing whenever
  it fires: no state changes, no command runs, no text is flushed.  The same holds of the
  which-key popup: a superseded or hidden schedule never makes it visible.
\<close>

theorem stale_timers_are_inert:
  assumes "matcher_ok v m" "timer m = Some i" "(matcher_step v)\<^sup>*\<^sup>* m m1" "timer m1 \<noteq> Some i" "(matcher_step v)\<^sup>*\<^sup>* m1 m2"
    and "wk_ok w" "wk_armed w = Some j" "wk_step\<^sup>*\<^sup>* w w1" "wk_armed w1 \<noteq> Some j" "wk_step\<^sup>*\<^sup>* w1 w2"
  shows "deliverTimeout v m2 i = (m2, [], None) \<and> wk_fire j w2 = w2 \<and> matcher_ok v m2"
proof -
  from chord_timer.retired_inert [OF assms(3,1,2,4,5)] have "i < seq m2" by blast
  moreover have "matcher_ok v m2"
    using chord_timer.run_inv [OF rtranclp_trans [OF assms(3,5)] assms(1)] by blast
  ultimately show ?thesis
    using popup_timer.retired_inert [OF assms(8,6,7,9,10)] by (simp add: deliverTimeout_def)
qed

theorem stale_timers_are_inert_witness:
  "let m = (sample_matcher ModeInsert)\<lparr>pending := [sample_key 103], timerPending := [sample_key 103], timer := Some 1, seq := 1\<rparr>;
       m2 = fst (Cancel sample_env m); w = wk_ShowAfter NewWhichKey 300 ''q'' [sample_key 103]; w2 = wk_Hide w
   in deliverTimeout sample_env m2 1 = (m2, [], None) \<and> wk_fire 2 w2 = w2"
proof -
  let ?m = "(sample_matcher ModeInsert)\<lparr>pending := [sample_key 103], timerPending := [sample_key 103], timer := Some 1, seq := 1\<rparr>"
  let ?w = "wk_ShowAfter NewWhichKey 300 ''q'' [sample_key 103]"
  have "matcher_ok sample_env ?m" "timer ?m = Some 1" "timer (fst (Cancel sample_env ?m)) \<noteq> Some 1"
    by (simp_all add: matcher_ok_def sample_matcher_def timerDelay_def sample_env_def sample_key_def countMax_def Cancel_def cancelLocked_def)
  moreover have "wk_ok ?w" "wk_armed ?w = Some 2" "wk_armed (wk_Hide ?w) \<noteq> Some 2"
    by (simp_all add: wk_defs NewWhichKey_def)
  moreover have "matcher_step sample_env ?m (fst (Cancel sample_env ?m))" "wk_step ?w (wk_Hide ?w)"
    by (rule matcher_step.cancel, rule wk_hide)
  ultimately show ?thesis
    unfolding Let_def using stale_timers_are_inert [of sample_env ?m 1 _ "fst (Cancel sample_env ?m)" ?w 2 _ "wk_Hide ?w"]
    by blast
qed

text \<open>
  C32. Every operation keeps the matcher's invariant, and the ones that end a chord leave nothing
  behind: after \<open>Cancel\<close>, after a reload, after a delivered timeout and after a dispatched command
  the matcher is idle with no timer, so no partial chord crosses a reload; a reload installs
  exactly the new tries.
\<close>

theorem matcher_returns_to_idle:
  assumes "matcher_ok v m"
  shows "(\<forall>m'. (matcher_step v)\<^sup>*\<^sup>* m m' \<longrightarrow> matcher_ok v m') \<and>
    \<not> IsPartial (fst (Cancel v m)) \<and> timer (fst (Cancel v m)) = None \<and>
    \<not> IsPartial (fst (SwapTrieSet v m t)) \<and> timer (fst (SwapTrieSet v m t)) = None \<and> trieSet (fst (SwapTrieSet v m t)) = t \<and>
    (timer m = Some i \<longrightarrow> \<not> IsPartial (fst (deliverTimeout v m i)) \<and> timer (fst (deliverTimeout v m i)) = None) \<and>
    (\<forall>m' es err. Dispatch v m scope k = (m', Dispatched, es, err) \<longrightarrow> \<not> IsPartial m' \<and> timer m' = None)"
proof -
  have idle: "\<not> IsPartial (cancelLocked m') \<and> timer (cancelLocked m') = None" for m'
    by (simp add: IsPartial_def cancelLocked_def)
  have h: "r = Dispatched \<Longrightarrow> \<exists>m0. m' = cancelLocked m0" if "handleLookup v m0 res ks sc mode isc ab = (m', r, es, err)"
    for m0 res ks sc mode isc ab m' r es err
    using that by (auto simp: handleLookup_def Let_def split: if_splits prod.splits)
  have n: "noMatch v m0 mode sc k d = (m', r, es, err) \<Longrightarrow> r \<noteq> Dispatched" for m0 mode sc d m' r es err
    by (auto simp: noMatch_def Let_def split: if_splits)
  have rk: "retryKey v m0 mode sc k d = (m', Dispatched, es, err) \<Longrightarrow> \<exists>m1. m' = cancelLocked m1" for m0 mode sc d m' es err
    unfolding retryKey_def Let_def using h n by (metis (no_types, lifting))
  have "dispatchTries v m0 mode sc k = (m', Dispatched, es, err) \<Longrightarrow> \<exists>m1. m' = cancelLocked m1" for m0 mode sc m' es err
    unfolding dispatchTries_def Let_def using h rk by (metis (no_types, lifting))
  then have "Dispatch v m scope k = (m', Dispatched, es, err) \<Longrightarrow> \<exists>m1. m' = cancelLocked m1" for m' es err
    by (auto simp: Dispatch_def dispatchIdle_def Let_def split: if_splits)
  then have "\<not> IsPartial m' \<and> timer m' = None" if "Dispatch v m scope k = (m', Dispatched, es, err)" for m' es err
    using idle that by metis
  moreover have "\<not> IsPartial (fst (deliverTimeout v m i)) \<and> timer (fst (deliverTimeout v m i)) = None" if "timer m = Some i"
  proof -
    have "fst (deliverTimeout v m i) = cancelLocked m"
      using that assms by (auto simp: matcher_ok_def deliverTimeout_def Let_def split: option.split prod.split key_error.split)
    then show ?thesis using idle by simp
  qed
  moreover have "(matcher_step v)\<^sup>*\<^sup>* m m' \<Longrightarrow> matcher_ok v m'" for m'
    using chord_timer.run_inv assms by blast
  moreover have "\<not> IsPartial (fst (SwapTrieSet v m t)) \<and> timer (fst (SwapTrieSet v m t)) = None \<and> trieSet (fst (SwapTrieSet v m t)) = t"
    by (simp add: SwapTrieSet_def Cancel_def cancelLocked_def IsPartial_def)
  ultimately show ?thesis using idle by (simp add: Cancel_def)
qed

theorem matcher_returns_to_idle_witness:
  "matcher_ok sample_env (sample_matcher ModeNormal) \<and> \<not> IsPartial (fst (SwapTrieSet sample_env (sample_matcher ModeNormal) None))"
proof -
  have "matcher_ok sample_env (sample_matcher ModeNormal)" by (simp add: matcher_ok_def sample_matcher_def countMax_def)
  with matcher_returns_to_idle [OF this, of None] show ?thesis by blast
qed

text \<open>
  A chord that begins with the quote never runs: its first key is taken for the register prompt
  and the second for the register's name, even though the binding exists.
\<close>

lemma quote_chord_never_runs:
  assumes "pending m = []" "TrieSet_Get (trieSet m) (CurrentMode m scope) scope = Some t"
    and "Found (Lookup t [quote])" "\<not> IsLeaf (Lookup t [quote])" "HasChildren (Lookup t [quote])" "plainRune k" "Code k \<noteq> 0"
  shows "\<exists>m' es. typed v m scope [quote, k] = (m', [Pending, Pending], es) \<and> invokes es = [] \<and> register m' = Code k \<and> pending m' = []"
proof -
  have "\<not> registerPrompt m" using assms(1) by (simp add: registerPrompt_quote)
  with Dispatch_extends [of m scope t quote v] assms(1-3)
  have d: "Dispatch v m scope quote = handleLookup v m (Lookup t [quote]) [quote] scope (CurrentMode m scope) scope []" by simp
  obtain m1 r es err where h: "handleLookup v m (Lookup t [quote]) [quote] scope (CurrentMode m scope) scope [] = (m1, r, es, err)"
    by (metis prod_cases4)
  from interior_pends [OF assms(5) h] have m1: "r = Pending" "pending m1 = [quote]" "invokes es = []" by auto
  have "Dispatch v m1 scope k = (m1\<lparr>register := Code k, pending := [], lastLeaf := None, timer := None, seq := seq m1 + 1\<rparr>, Pending, [], None)"
    using assms(6,7) m1(2) by (simp add: Dispatch_def Let_def registerPrompt_quote)
  then show ?thesis using d h m1 by simp
qed

text \<open>A broken chord in a text mode leaves its popup scheduled: nothing hides it.\<close>

lemma broken_text_chord_keeps_popup:
  assumes "textMode mode" "isPrintableRune v k"
  shows "Hide \<notin> set (fst (snd (snd (noMatch v m mode scope k (Some d)))))"
  using assms by (auto simp: noMatch_def flushInsertPending_def Let_def)

end
