(* ===== verification/KeyService.thy ===== *)
theory KeyService
  imports KeyTrie
begin

text \<open>
  The keybinding service (\<open>pkg/gui/keys/keybinding_service.go\<close>) with the context keys and kinds of
  \<open>pkg/gui/types/context.go\<close>: lifting configured bindings, fanning bindings out over modes and
  scopes, the propagation of a remapped motion, the build of the set of tries and its merged
  listings.

  The registry is a function from action to command, \<open>known\<close> the service's context keys and
  \<open>kindOf\<close> the injected lookup; the origin of a configured binding is the text \<open>fmtOrigin\<close>
  makes.  The builders are kept in the order they were made; Go finishes them in map order, which
  shows only in the order of the warnings.  An \<open>action:\<close> or default binding resolves to the
  registered command; a \<open>command:\<close> binding allocates a stub, whose address is the counter
  \<open>nextRef\<close>.
\<close>

section \<open>Context keys and kinds\<close>

datatype ContextKind = SIDE_CONTEXT | MAIN_CONTEXT | PERSISTENT_POPUP | TEMPORARY_POPUP
  | EXTRAS_CONTEXT | GLOBAL_CONTEXT | DISPLAY_CONTEXT | STUB

definition AllContextKeys :: "context_key list" where
  "AllContextKeys = [''schemas'', ''tables'', ''schema-rail'', ''columns'', ''indexes'', ''query_rail'',
     ''query_editor'', ''table_data_editor'', ''result_grid'', ''plan'', ''menu'', ''confirmation'', ''prompt'',
     ''selection'', ''suggestions'', ''command_line'', ''search_line'', ''history'', ''saved_query'', ''which_key'',
     GLOBAL, ''limit'', ''cheatsheet'', ''hide_overlay'', ''export_menu'', ''first_run_tip'', ''table_inspect'',
     ''cell_editor'', ''cell_viewer'', ''commit_dialog'', ''conflict_dialog'', ''fk_reverse_picker'',
     ''connection_manager'', ''settings'', ''relationship_panel'', ''foreign_keys'', ''constraints'', ''changelog'',
     ''file_picker'']"

definition IsEditable :: "context_key \<Rightarrow> bool" where
  "IsEditable k \<longleftrightarrow> k \<in> {''command_line'', ''query_editor'', ''prompt'', ''cell_editor'', ''search_line'', ''file_picker''}"

section \<open>The set of tries\<close>

text \<open>The first row of each key survives, scope rows before global ones.\<close>

fun addRows :: "ChildRow list \<Rightarrow> ChildRow list \<Rightarrow> ChildRow list" where
  "addRows merged [] = merged"
| "addRows merged (r # rs) =
     addRows (if RowKey r \<in> set (map RowKey merged) then merged else merged @ [r]) rs"

fun insertRow :: "ChildRow \<Rightarrow> ChildRow list \<Rightarrow> ChildRow list" where
  "insertRow r [] = [r]"
| "insertRow r (x # xs) =
     (if label_less (ChordKey_String (RowKey r)) (ChordKey_String (RowKey x)) then r # x # xs else x # insertRow r xs)"

definition ChildrenAtMerged :: "TrieSet option \<Rightarrow> mode \<Rightarrow> context_key \<Rightarrow> ChordKey list \<Rightarrow> ChildRow list option" where
  "ChildrenAtMerged s mode scope prefix =
     (let rows = (\<lambda>sc. case TrieSet_Get s mode sc of None \<Rightarrow> None | Some t \<Rightarrow> ChildrenAt t prefix);
          own = rows scope;
          global = (if scope = GLOBAL then None else rows GLOBAL)
      in if own = None \<and> global = None then None
         else Some (foldl (\<lambda>acc r. insertRow r acc) []
           (addRows (addRows [] (case own of None \<Rightarrow> [] | Some rs \<Rightarrow> rs)) (case global of None \<Rightarrow> [] | Some rs \<Rightarrow> rs))))"

definition trieKeyLess :: "mode \<times> context_key \<Rightarrow> mode \<times> context_key \<Rightarrow> bool" where
  "trieKeyLess a b \<longleftrightarrow> fst a < fst b \<or> fst a = fst b \<and> label_less (str (snd a)) (str (snd b))"

fun insertTrieKey :: "(mode \<times> context_key) \<times> trieNode \<Rightarrow> ((mode \<times> context_key) \<times> trieNode) list \<Rightarrow>
    ((mode \<times> context_key) \<times> trieNode) list" where
  "insertTrieKey e [] = [e]"
| "insertTrieKey e (x # xs) = (if trieKeyLess (fst e) (fst x) then e # x # xs else x # insertTrieKey e xs)"

text \<open>The pairs \<open>fn\<close> is called with, in order.\<close>

definition TrieSet_Walk :: "TrieSet option \<Rightarrow> ((mode \<times> context_key) \<times> trieNode) list" where
  "TrieSet_Walk s = (case s of None \<Rightarrow> [] | Some s \<Rightarrow> foldl (\<lambda>acc e. insertTrieKey e acc) [] (tries s))"

section \<open>Configuration\<close>

record KeybindingConfig =
  kb_Mode :: runes
  kb_Scope :: string
  kb_Key :: runes
  kb_Action :: string
  kb_Command :: string
  kb_OpensMenu :: bool
  kb_ShowInBar :: bool
  kb_Description :: string
  kb_Tag :: string
  kb_Origin :: string

record UserConfig =
  cfg_Leader :: runes
  cfg_LocalLeader :: runes
  Keybindings :: "KeybindingConfig list"

definition singleRune :: "runes \<Rightarrow> rune option" where
  "singleRune s = (if length s = 1 then Some (hd s) else None)"

definition leaderRunes :: "UserConfig \<Rightarrow> rune \<times> rune" where
  "leaderRunes cfg =
     (case singleRune (cfg_Leader cfg) of None \<Rightarrow> 32 | Some r \<Rightarrow> r,
      case singleRune (cfg_LocalLeader cfg) of None \<Rightarrow> 44 | Some r \<Rightarrow> r)"

definition bindWarning :: "string \<Rightarrow> ChordKey list \<Rightarrow> string \<Rightarrow> Warning" where
  "bindWarning code ks org =
     \<lparr>Level = WarnLevel, WCode = code, Subject = ks, Descendants = [], Truncated = False, WOrigin = org\<rparr>"

section \<open>Fanning a binding out\<close>

definition nonPopupKinds :: "ContextKind set" where
  "nonPopupKinds = {SIDE_CONTEXT, MAIN_CONTEXT, EXTRAS_CONTEXT, DISPLAY_CONTEXT}"

definition overlayExclusions :: "context_key set" where
  "overlayExclusions = {''which_key'', ''limit'', ''hide_overlay'', ''relationship_panel''}"

definition scopesOf :: "context_key list \<Rightarrow> (context_key \<Rightarrow> ContextKind) \<Rightarrow> context_key \<Rightarrow> context_key list" where
  "scopesOf known kindOf sc =
     (if sc = ''all'' then filter (\<lambda>c. c \<notin> overlayExclusions \<and> kindOf c \<in> nonPopupKinds) known @ [GLOBAL]
      else if sc = GLOBAL \<or> sc = '''' then [GLOBAL]
      else [sc])"

definition fanOutBinding :: "context_key list \<Rightarrow> (context_key \<Rightarrow> ContextKind) \<Rightarrow> source \<Rightarrow> ChordBinding \<Rightarrow>
    ChordBinding list \<times> Warning list" where
  "fanOutBinding known kindOf force cb =
     (if Sequence cb = [] then ([], [bindWarning ''empty_sequence'' [] (Origin cb)])
      else (concat (map (\<lambda>m. map (\<lambda>sc. cb\<lparr>BMode := m, Scope := sc, Source := force\<rparr>)
                                  (scopesOf known kindOf (Scope cb))) (modeBits (BMode cb))), []))"

section \<open>Lifting a configured binding\<close>

definition splitModeTokens :: "runes \<Rightarrow> runes list" where
  "splitModeTokens s = (if s = [] then [] else filter (\<lambda>p. p \<noteq> []) (map TrimSpace (splitOn 44 s)))"

definition liftKeybindingConfig :: "(rune \<Rightarrow> rune) \<Rightarrow> KeybindingConfig \<Rightarrow> ChordBinding list \<times> Warning list" where
  "liftKeybindingConfig lower kb =
     (case SequenceFromShorthand lower (kb_Key kb) of
        Inl e \<Rightarrow> ([], [bindWarning ''parse_sequence'' [] (kb_Origin kb)])
      | Inr ks \<Rightarrow>
         (case modeBitsFromTokens (splitModeTokens (kb_Mode kb)) of
            Inl e \<Rightarrow> ([], [bindWarning ''parse_mode'' [] (kb_Origin kb)])
          | Inr ms \<Rightarrow>
             (let mask = foldl (\<lambda>acc m. acc OR m) 0 ms;
                  cell = (\<lambda>m i src. \<lparr>Sequence = ks, BMode = m,
                     Scope = (if kb_Scope kb = '''' then GLOBAL else kb_Scope kb), ActionID = i,
                     Description = kb_Description kb, Tag = kb_Tag kb, ShowInBar = kb_ShowInBar kb,
                     OpensMenu = kb_OpensMenu kb, Source = src, Origin = kb_Origin kb\<rparr>);
                  cells = (\<lambda>i src. (if ModeNormal \<in> set ms then [cell ModeNormal i src] else []) @
                                    (if mask \<noteq> ModeNormal then [cell mask i src] else []))
              in if kb_Action kb \<noteq> '''' then (cells (kb_Action kb) UserOverride, [])
                 else if kb_Command kb \<noteq> '''' then (cells (''command:'' @ kb_Command kb) CustomCmd, [])
                 else ([], [bindWarning ''missing_action'' [] (kb_Origin kb)]))))"

section \<open>Propagating a remapped motion\<close>

record shippedRecord =
  mask :: mode
  hasNormal :: bool

type_synonym shipped = "((string \<times> context_key) \<times> shippedRecord) list"

definition shipped_modes :: "shippedRecord \<Rightarrow> mode list" where
  "shipped_modes r =
     (if hasNormal r then [ModeNormal] else []) @ (if mask r \<noteq> ModeNormal then modeBits (mask r) else [])"

definition recordShipped :: "ChordBinding \<Rightarrow> shipped \<Rightarrow> shipped" where
  "recordShipped cb s =
     (let k = (ActionID cb, Scope cb);
          r = (case map_of s k of None \<Rightarrow> \<lparr>mask = 0, hasNormal = False\<rparr> | Some r \<Rightarrow> r)
      in AList.update k (if BMode cb = ModeNormal then r\<lparr>hasNormal := True\<rparr> else r\<lparr>mask := mask r OR BMode cb\<rparr>) s)"

definition crossModeMask :: mode where
  "crossModeMask = ModeOperatorPending OR ModeVisual OR ModeVisualLine OR ModeVisualBlock"

definition reservedMotionTarget :: "ChordKey list \<Rightarrow> bool" where
  "reservedMotionTarget ks =
     (case ks of
        [k] \<Rightarrow> Special k = KeyNone \<and> Mod k = 0 \<and> (48 \<le> Code k \<and> Code k \<le> 57 \<or> Code k = 34)
      | _ \<Rightarrow> False)"

definition userTargetedModes :: "ChordBinding list \<Rightarrow> string \<Rightarrow> context_key \<Rightarrow> mode list" where
  "userTargetedModes lifted i sc =
     concat (map (\<lambda>b. modeBits (BMode b)) (filter (\<lambda>b. ActionID b = i \<and> Scope b = sc) lifted))"

record propagation =
  extra :: "ChordBinding list"
  removals :: "((mode \<times> context_key) \<times> string) list"
  reject :: bool
  propWarnings :: "Warning list"

definition noPropagation :: propagation where
  "noPropagation = \<lparr>extra = [], removals = [], reject = False, propWarnings = []\<rparr>"

text \<open>The loop over the lifted bindings: the first that takes part decides.\<close>

fun crossModeLoop :: "ChordBinding list \<Rightarrow> shipped \<Rightarrow> ChordBinding list \<Rightarrow> propagation" where
  "crossModeLoop lifted shipped [] = noPropagation"
| "crossModeLoop lifted shipped (b # bs) =
     (if Source b \<noteq> UserOverride then crossModeLoop lifted shipped bs
      else case map_of shipped (ActionID b, Scope b) of
          None \<Rightarrow> crossModeLoop lifted shipped bs
        | Some rec \<Rightarrow>
            if mask rec AND crossModeMask = 0 then crossModeLoop lifted shipped bs
            else if reservedMotionTarget (Sequence b) then
              noPropagation\<lparr>reject := True,
                propWarnings := [bindWarning ''reserved_motion_target'' (Sequence b) (Origin b)]\<rparr>
            else noPropagation\<lparr>
              extra := map (\<lambda>m. b\<lparr>BMode := m\<rparr>)
                (filter (\<lambda>m. m \<notin> set (userTargetedModes lifted (ActionID b) (Scope b))) (shipped_modes rec)),
              removals := map (\<lambda>m. ((m, Scope b), ActionID b)) (shipped_modes rec)\<rparr>)"

definition crossModeBindings :: "ChordBinding list \<Rightarrow> shipped \<Rightarrow> propagation" where
  "crossModeBindings lifted shipped = crossModeLoop lifted shipped lifted"

section \<open>Build\<close>

type_synonym registry = "string \<Rightarrow> command option"

record BuildState =
  builders :: "((mode \<times> context_key) \<times> TrieBuilder) list"
  buildWarnings :: "Warning list"
  shippedDefaults :: shipped
  nextRef :: nat

text \<open>
  The command of a binding: \<open>None\<close> for an orphan.  A \<open>command:\<close> binding allocates a stub, whose
  address is new.
\<close>

definition resolveCommand :: "registry \<Rightarrow> nat \<Rightarrow> ChordBinding \<Rightarrow> command option" where
  "resolveCommand registry fresh cb =
     (if ActionID cb = '''' then None
      else if ActionID cb = ''<nop>'' then Some NopCommand
      else if Source cb = CustomCmd then
        Some \<lparr>cmd_ref = fresh, cmd_ID = ActionID cb, cmd_Description = Description cb, DisabledReasonStatic = ''''\<rparr>
      else registry (ActionID cb))"

definition build_insert :: "registry \<Rightarrow> rune \<times> rune \<Rightarrow> bool \<Rightarrow> ChordBinding \<Rightarrow> BuildState \<Rightarrow> BuildState" where
  "build_insert registry leaders isUser cb st =
     (case resolveCommand registry (nextRef st) cb of
        None \<Rightarrow> st\<lparr>buildWarnings := buildWarnings st @ [bindWarning ''orphan_action'' (Sequence cb) (Origin cb)]\<rparr>
      | Some cmd \<Rightarrow>
         (let key = (BMode cb, Scope cb);
              b = (case map_of (builders st) key of None \<Rightarrow> NewTrieBuilder | Some b \<Rightarrow> b);
              cp = cb\<lparr>Sequence := expandLeaderTokens (Sequence cb) (fst leaders) (snd leaders)\<rparr>
          in st\<lparr>builders := AList.update key (if isUser then InsertUser b cp (Some cmd) else InsertDefault b cp (Some cmd)) (builders st),
                shippedDefaults := (if isUser then shippedDefaults st else recordShipped cp (shippedDefaults st)),
                nextRef := nextRef st + 1\<rparr>))"

definition build_inserts :: "registry \<Rightarrow> rune \<times> rune \<Rightarrow> bool \<Rightarrow> ChordBinding list \<Rightarrow> BuildState \<Rightarrow> BuildState" where
  "build_inserts registry leaders isUser bs st = foldl (\<lambda>st b. build_insert registry leaders isUser b st) st bs"

definition addDefault :: "context_key list \<Rightarrow> (context_key \<Rightarrow> ContextKind) \<Rightarrow> registry \<Rightarrow> rune \<times> rune \<Rightarrow> BuildState \<Rightarrow>
    ChordBinding option \<Rightarrow> BuildState" where
  "addDefault known kindOf registry leaders st cb =
     (case cb of
        None \<Rightarrow> st
      | Some cb \<Rightarrow>
         (case fanOutBinding known kindOf ShippedDefault cb of
            (bs, ws) \<Rightarrow> build_inserts registry leaders False bs (st\<lparr>buildWarnings := buildWarnings st @ ws\<rparr>)))"

definition removeShipped :: "((mode \<times> context_key) \<times> string) list \<Rightarrow> BuildState \<Rightarrow> BuildState" where
  "removeShipped rms st =
     foldl (\<lambda>st (key, i).
       case map_of (builders st) key of
         None \<Rightarrow> st
       | Some b \<Rightarrow> st\<lparr>builders := AList.update key (fst (RemoveLeafByAction b i)) (builders st)\<rparr>) st rms"

definition fanOutUser :: "context_key list \<Rightarrow> (context_key \<Rightarrow> ContextKind) \<Rightarrow> registry \<Rightarrow> rune \<times> rune \<Rightarrow> BuildState \<Rightarrow>
    ChordBinding \<Rightarrow> BuildState" where
  "fanOutUser known kindOf registry leaders st b =
     (case fanOutBinding known kindOf (Source b) b of
        (fanned, ws) \<Rightarrow> build_inserts registry leaders True fanned (st\<lparr>buildWarnings := buildWarnings st @ ws\<rparr>))"

definition addUser :: "(rune \<Rightarrow> rune) \<Rightarrow> context_key list \<Rightarrow> (context_key \<Rightarrow> ContextKind) \<Rightarrow> registry \<Rightarrow> rune \<times> rune \<Rightarrow>
    BuildState \<Rightarrow> KeybindingConfig \<Rightarrow> BuildState" where
  "addUser lower known kindOf registry leaders st kb =
     (let (lifted, ws) = liftKeybindingConfig lower kb;
          p = crossModeBindings lifted (shippedDefaults st);
          st1 = st\<lparr>buildWarnings := buildWarnings st @ ws @ propWarnings p\<rparr>
      in if reject p then st1
         else build_inserts registry leaders True (extra p)
           (foldl (fanOutUser known kindOf registry leaders) (removeShipped (removals p) st1) lifted))"

definition HelpCheatsheet :: string where
  "HelpCheatsheet = ''help.cheatsheet''"

definition bindsCheatsheet :: "TrieSet \<Rightarrow> bool" where
  "bindsCheatsheet ts =
     list_ex (\<lambda>(key, t). list_ex (\<lambda>(ks, r). case Action r of None \<Rightarrow> False | Some c \<Rightarrow> cmd_ID c = HelpCheatsheet) (Walk t))
       (TrieSet_Walk (Some ts))"

definition finishBuild :: "registry \<Rightarrow> rune \<times> rune \<Rightarrow> BuildState \<Rightarrow> TrieSet \<times> Warning list" where
  "finishBuild registry leaders st =
     (let ts = \<lparr>tries = map (\<lambda>(key, b). (key, fst (TrieBuilder_Build b))) (builders st),
                Leader = fst leaders, LocalLeader = snd leaders\<rparr>
      in (ts, buildWarnings st @ concat (map (\<lambda>(key, b). snd (TrieBuilder_Build b)) (builders st)) @
              (if registry HelpCheatsheet \<noteq> None \<and> \<not> bindsCheatsheet ts
               then [bindWarning ''missing_cheatsheet_binding'' [] ''''] else [])))"

datatype build_error = NilRegistry | NilConfig

text \<open>\<open>fresh\<close> is an address no registered command has.\<close>

definition KeybindingService_Build :: "(rune \<Rightarrow> rune) \<Rightarrow> context_key list \<Rightarrow> nat \<Rightarrow> ChordBinding option list \<Rightarrow>
    UserConfig option \<Rightarrow> registry option \<Rightarrow> (context_key \<Rightarrow> ContextKind) option \<Rightarrow>
    build_error + TrieSet \<times> Warning list" where
  "KeybindingService_Build lower known fresh defaults cfg registry kindOf =
     (case registry of
        None \<Rightarrow> Inl NilRegistry
      | Some registry \<Rightarrow>
         (case cfg of
            None \<Rightarrow> Inl NilConfig
          | Some cfg \<Rightarrow>
             (let kindOf = (case kindOf of None \<Rightarrow> (\<lambda>_. GLOBAL_CONTEXT) | Some f \<Rightarrow> f);
                  leaders = leaderRunes cfg;
                  st0 = \<lparr>builders = [], buildWarnings = [], shippedDefaults = [], nextRef = fresh\<rparr>;
                  st1 = foldl (addDefault known kindOf registry leaders) st0 defaults;
                  st2 = foldl (addUser lower known kindOf registry leaders) st1 (Keybindings cfg)
              in Inr (finishBuild registry leaders st2))))"

definition NewKeybindingService :: "context_key list \<Rightarrow> context_key list" where
  "NewKeybindingService known = (if known = [] then AllContextKeys else known)"

end
