(* ===== verification/KeyServiceSpec.thy ===== *)
theory KeyServiceSpec
  imports KeyService KeyTrieSpec
begin

text \<open>
  What the keybinding service promises: its builds implement an abstract keymap from mode, scope
  and sequence to leaf (a functional refinement through \<open>keymapOf\<close>), and remapping a motion moves
  its key in every cell the shipped default spans.
\<close>

section \<open>The abstract keymap\<close>

text \<open>
  What the set of tries stands for: for every mode and scope a finite map from sequences to
  leaves.  A build is a sequence of two operations on it: put a binding (which may allocate a
  stub command), and free an action in one cell.
\<close>

type_synonym keymap = "mode \<times> context_key \<Rightarrow> ChordKey list \<Rightarrow> leaf option"

datatype keyop = Put bool ChordBinding | Free "mode \<times> context_key" string

definition tier :: "bool \<Rightarrow> ChordBinding \<Rightarrow> ChordBinding" where
  "tier isUser cb = (if isUser then cb else cb\<lparr>Source := ShippedDefault\<rparr>)"

fun applyOp :: "registry \<Rightarrow> rune \<times> rune \<Rightarrow> keymap \<times> nat \<Rightarrow> keyop \<Rightarrow> keymap \<times> nat" where
  "applyOp registry leaders (km, n) (Put isUser cb) =
     (case resolveCommand registry n cb of
        None \<Rightarrow> (km, n)
      | Some cmd \<Rightarrow>
         (let key = (BMode cb, Scope cb);
              s = expandLeaderTokens (Sequence cb) (fst leaders) (snd leaders)
          in (km(key := (km key)(s \<mapsto> leafFor (tier isUser cb) cmd)), n + 1)))"
| "applyOp registry leaders (km, n) (Free key i) =
     (km(key := (\<lambda>s. case km key s of None \<Rightarrow> None | Some l \<Rightarrow> if i \<noteq> '''' \<and> leafID l = i then None else Some l)), n)"

definition keymapOf :: "BuildState \<Rightarrow> keymap \<times> nat" where
  "keymapOf st = ((\<lambda>key s. case map_of (builders st) key of None \<Rightarrow> None | Some b \<Rightarrow> leafOf (root b) s), nextRef st)"

definition build_ok :: "BuildState \<Rightarrow> bool" where
  "build_ok st \<longleftrightarrow> (\<forall>key b. map_of (builders st) key = Some b \<longrightarrow> trie_ok (root b) \<and> leafOf (root b) [] = None) \<and>
     distinct (map fst (builders st))"

lemma expand_plain: "list_all (\<lambda>k. \<not> IsLeaderPlaceholder k) (expandLeaderTokens ks l l')"
  by (auto simp: expandLeaderTokens_def IsLeaderPlaceholder_def list_all_iff split: SpecialKey.split)

lemma expand_Nil [simp]: "expandLeaderTokens ks l l' = [] \<longleftrightarrow> ks = []"
  by (simp add: expandLeaderTokens_def)

text \<open>Both insertion tiers at once.\<close>

lemma root_insert:
  assumes "plain cb"
  shows "root (if isUser then InsertUser b cb (Some cmd) else InsertDefault b cb (Some cmd)) =
    at_path (setLeaf (tier isUser cb) cmd) (Sequence cb) (root b)"
  using root_putUser [of "(cb, cmd)" b] root_putDefault [of "(cb, cmd)" b] assms
  by (simp add: putUser_def putDefault_def tier_def)

lemma leafFor_tier [simp]: "leafFor (tier u (cb\<lparr>Sequence := s\<rparr>)) cmd = leafFor (tier u cb) cmd"
  by (simp add: leafFor_def tier_def)

lemma build_ok_update:
  assumes "build_ok st" "builders st' = AList.update key b (builders st)" "trie_ok (root b)" "leafOf (root b) [] = None"
  shows "build_ok st'"
  unfolding build_ok_def
proof (intro conjI allI impI)
  fix k c assume "map_of (builders st') k = Some c"
  then have "(k = key \<and> c = b) \<or> map_of (builders st) k = Some c"
    by (simp only: assms(2) update_conv fun_upd_apply split: if_splits) simp_all
  then show "trie_ok (root c)" "leafOf (root c) [] = None" using assms unfolding build_ok_def by blast+
next
  show "distinct (map fst (builders st'))" using assms(1,2) unfolding build_ok_def by (simp add: distinct_update)
qed

lemma build_insert_refines:
  assumes "build_ok st" "Sequence cb \<noteq> []"
  shows "build_ok (build_insert registry leaders u cb st) \<and>
    keymapOf (build_insert registry leaders u cb st) = applyOp registry leaders (keymapOf st) (Put u cb)"
proof (cases "resolveCommand registry (nextRef st) cb")
  case None
  then show ?thesis using assms by (simp add: build_insert_def build_ok_def keymapOf_def)
next
  case (Some cmd)
  let ?key = "(BMode cb, Scope cb)" and ?s = "expandLeaderTokens (Sequence cb) (fst leaders) (snd leaders)"
  let ?b = "case map_of (builders st) ?key of None \<Rightarrow> NewTrieBuilder | Some b \<Rightarrow> b"
  let ?cp = "cb\<lparr>Sequence := ?s\<rparr>"
  let ?b' = "if u then InsertUser ?b ?cp (Some cmd) else InsertDefault ?b ?cp (Some cmd)"
  have p: "plain ?cp" using assms(2) expand_plain by (simp add: plain_def)
  have old: "trie_ok (root ?b) \<and> leafOf (root ?b) [] = None"
    using assms(1) by (auto simp: build_ok_def NewTrieBuilder_def leafOf_empty isEmptyNode_def emptyNode_def noLeaf_def
        split: option.split)
  have lf: "leafOf (root ?b') s = (if s = ?s then Some (leafFor (tier u cb) cmd) else leafOf (root ?b) s)" for s
    unfolding root_insert [OF p] by (simp add: leafOf_setLeaf)
  have ok: "trie_ok (root ?b')" unfolding root_insert [OF p] using old p by (simp add: trie_ok_insert plain_def)
  have lf0: "leafOf (root ?b') [] = None" using lf [of "[]"] old assms(2) by (metis expand_Nil)
  have st: "builders (build_insert registry leaders u cb st) = AList.update ?key ?b' (builders st)"
    "nextRef (build_insert registry leaders u cb st) = nextRef st + 1"
    using Some by (simp_all add: build_insert_def Let_def)
  have "build_ok (build_insert registry leaders u cb st)"
    using assms(1) st(1) ok lf0 by (rule build_ok_update)
  moreover have "fst (keymapOf (build_insert registry leaders u cb st)) key s =
      fst (applyOp registry leaders (keymapOf st) (Put u cb)) key s" for key s
  proof (cases "key = ?key")
    case True
    have "leafOf (root ?b) s = (case map_of (builders st) ?key of None \<Rightarrow> None | Some b \<Rightarrow> leafOf (root b) s)"
      by (simp add: NewTrieBuilder_def leafOf_empty isEmptyNode_def emptyNode_def noLeaf_def split: option.split)
    then show ?thesis
      unfolding True keymapOf_def applyOp.simps st fst_conv update_conv Some option.case Let_def fun_upd_same
      by (simp only: lf option.case fun_upd_apply)
  next
    case False
    then show ?thesis
      unfolding keymapOf_def applyOp.simps st fst_conv update_conv Some option.case Let_def
      by (simp only: fun_upd_apply if_False)
  qed
  moreover have "snd (keymapOf (build_insert registry leaders u cb st)) = snd (applyOp registry leaders (keymapOf st) (Put u cb))"
    using Some st by (simp add: keymapOf_def Let_def)
  ultimately show ?thesis by (intro conjI prod_eqI ext) simp_all
qed

lemma build_inserts_refines:
  "build_ok st \<Longrightarrow> \<forall>cb \<in> set bs. Sequence cb \<noteq> [] \<Longrightarrow>
   build_ok (build_inserts registry leaders u bs st) \<and>
   keymapOf (build_inserts registry leaders u bs st) = foldl (applyOp registry leaders) (keymapOf st) (map (Put u) bs)"
  by (induction bs arbitrary: st) (simp_all add: build_inserts_def build_insert_refines)

lemma keymapOf_warnings [simp]:
  "keymapOf (st\<lparr>buildWarnings := w\<rparr>) = keymapOf st" "build_ok (st\<lparr>buildWarnings := w\<rparr>) = build_ok st"
  by (simp_all add: keymapOf_def build_ok_def)

lemma leafOf_RemoveLeafByAction:
  assumes "trie_ok (root b)" "leafOf (root b) [] = None"
  shows "trie_ok (root (fst (RemoveLeafByAction b i))) \<and>
    leafOf (root (fst (RemoveLeafByAction b i))) s =
      (case leafOf (root b) s of None \<Rightarrow> None | Some l \<Rightarrow> if i \<noteq> '''' \<and> leafID l = i then None else Some l)"
  using assms by (cases "s = []") (auto simp: RemoveLeafByAction_def leafOf_remove trie_ok_remove split: option.split)

lemma removeShipped_refines:
  "build_ok st \<Longrightarrow> build_ok (removeShipped rms st) \<and>
   keymapOf (removeShipped rms st) = foldl (applyOp registry leaders) (keymapOf st) (map (\<lambda>(key, i). Free key i) rms) \<and>
   shippedDefaults (removeShipped rms st) = shippedDefaults st"
proof (induction rms arbitrary: st)
  case Nil
  then show ?case by (simp add: removeShipped_def)
next
  case (Cons rm rms)
  obtain key i where rm: "rm = (key, i)" by (cases rm) blast
  let ?st = "removeShipped [rm] st"
  have "build_ok ?st \<and> keymapOf ?st = applyOp registry leaders (keymapOf st) (Free key i) \<and> shippedDefaults ?st = shippedDefaults st"
  proof (cases "map_of (builders st) key")
    case None
    then show ?thesis using Cons.prems by (auto simp: removeShipped_def rm keymapOf_def)
  next
    case (Some b)
    have b: "trie_ok (root b)" "leafOf (root b) [] = None" using Cons.prems Some unfolding build_ok_def by blast+
    note r = leafOf_RemoveLeafByAction [OF b]
    have bs: "?st = st\<lparr>builders := AList.update key (fst (RemoveLeafByAction b i)) (builders st)\<rparr>"
      using Some by (simp add: removeShipped_def rm)
    have "build_ok ?st"
      using r [of i "[]"] b(2) by (intro build_ok_update [OF Cons.prems, of _ key "fst (RemoveLeafByAction b i)"]) (auto simp: bs)
    moreover have "keymapOf ?st = applyOp registry leaders (keymapOf st) (Free key i)"
      using Some r [of i] by (auto simp: bs keymapOf_def update_conv fun_eq_iff split: option.split)
    ultimately show ?thesis by (simp add: bs)
  qed
  moreover have "removeShipped (rm # rms) st = removeShipped rms ?st" by (simp add: removeShipped_def)
  ultimately show ?case using Cons.IH [of ?st] rm by simp
qed

section \<open>A build as a list of operations\<close>

definition defaultOps :: "context_key list \<Rightarrow> (context_key \<Rightarrow> ContextKind) \<Rightarrow> ChordBinding option \<Rightarrow> keyop list" where
  "defaultOps known kindOf cb =
     (case cb of None \<Rightarrow> [] | Some cb \<Rightarrow> map (Put False) (fst (fanOutBinding known kindOf ShippedDefault cb)))"

text \<open>The shipped footprint: what the defaults that resolve record.\<close>

definition footprint :: "context_key list \<Rightarrow> (context_key \<Rightarrow> ContextKind) \<Rightarrow> registry \<Rightarrow> ChordBinding option list \<Rightarrow> shipped" where
  "footprint known kindOf registry ds =
     foldl (\<lambda>s cb. recordShipped cb s) []
       (filter (\<lambda>cb. resolveCommand registry 0 cb \<noteq> None)
         (concat (map (\<lambda>d. case d of None \<Rightarrow> [] | Some cb \<Rightarrow> fst (fanOutBinding known kindOf ShippedDefault cb)) ds)))"

definition userOps :: "(rune \<Rightarrow> rune) \<Rightarrow> context_key list \<Rightarrow> (context_key \<Rightarrow> ContextKind) \<Rightarrow> shipped \<Rightarrow> KeybindingConfig \<Rightarrow> keyop list" where
  "userOps lower known kindOf shipped kb =
     (let lifted = fst (liftKeybindingConfig lower kb); p = crossModeBindings lifted shipped in
      if reject p then []
      else map (\<lambda>(key, i). Free key i) (removals p) @
           map (Put True) (concat (map (\<lambda>b. fst (fanOutBinding known kindOf (Source b) b)) lifted)) @
           map (Put True) (extra p))"

lemma fanOut_Sequence: "b \<in> set (fst (fanOutBinding known kindOf src cb)) \<Longrightarrow> Sequence b = Sequence cb \<and> Sequence cb \<noteq> []"
  by (auto simp: fanOutBinding_def split: if_splits)

lemma keyTokens_Nil: "keyTokens s = Inr [] \<Longrightarrow> s = []"
  by (cases s) (auto simp: Let_def split: sum.splits if_splits)

lemma lift_Sequence: "b \<in> set (fst (liftKeybindingConfig lower kb)) \<Longrightarrow> Sequence b \<noteq> []"
proof -
  assume b: "b \<in> set (fst (liftKeybindingConfig lower kb))"
  then obtain ks where "SequenceFromShorthand lower (kb_Key kb) = Inr ks" "Sequence b = ks"
    by (auto simp: liftKeybindingConfig_def Let_def split: sum.splits if_splits)
  moreover from this have "ks \<noteq> []"
    by (auto simp: SequenceFromShorthand_def ParseKeySequence_def mapE_Inr Let_def dest: keyTokens_Nil split: sum.splits if_splits)
  ultimately show ?thesis by simp
qed


lemma resolve_None: "resolveCommand registry n cb = None \<longleftrightarrow> resolveCommand registry 0 cb = None"
  by (simp add: resolveCommand_def)

lemma recordShipped_Sequence [simp]: "recordShipped (cb\<lparr>Sequence := s\<rparr>) m = recordShipped cb m"
  by (simp add: recordShipped_def Let_def)

lemma shipped_insert:
  "shippedDefaults (build_insert registry leaders u cb st) =
    (if u \<or> resolveCommand registry 0 cb = None then shippedDefaults st else recordShipped cb (shippedDefaults st))"
  using resolve_None [of registry "nextRef st" cb] by (auto simp: build_insert_def Let_def split: option.split)

lemma shipped_inserts:
  "shippedDefaults (build_inserts registry leaders True bs st) = shippedDefaults st"
  "shippedDefaults (build_inserts registry leaders False bs st) =
     foldl (\<lambda>s cb. recordShipped cb s) (shippedDefaults st) (filter (\<lambda>cb. resolveCommand registry 0 cb \<noteq> None) bs)"
  by (induction bs arbitrary: st) (simp_all add: build_inserts_def shipped_insert)

lemma addDefault_refines:
  assumes "build_ok st"
  shows "build_ok (addDefault known kindOf registry leaders st cb) \<and>
    keymapOf (addDefault known kindOf registry leaders st cb) = foldl (applyOp registry leaders) (keymapOf st) (defaultOps known kindOf cb) \<and>
    shippedDefaults (addDefault known kindOf registry leaders st cb) =
      foldl (\<lambda>s cb. recordShipped cb s) (shippedDefaults st)
        (filter (\<lambda>cb. resolveCommand registry 0 cb \<noteq> None)
          (case cb of None \<Rightarrow> [] | Some cb \<Rightarrow> fst (fanOutBinding known kindOf ShippedDefault cb)))"
proof (cases cb)
  case (Some c)
  obtain bs ws where f: "fanOutBinding known kindOf ShippedDefault c = (bs, ws)" by force
  have "\<forall>b \<in> set bs. Sequence b \<noteq> []" using fanOut_Sequence [of _ known kindOf ShippedDefault c] f by force
  then show ?thesis
    using assms Some f build_inserts_refines [of "st\<lparr>buildWarnings := buildWarnings st @ ws\<rparr>" bs]
    by (simp add: addDefault_def defaultOps_def shipped_inserts)
qed (simp add: addDefault_def defaultOps_def assms)

lemma fanOutUser_refines:
  assumes "build_ok st"
  shows "build_ok (fanOutUser known kindOf registry leaders st b) \<and>
    keymapOf (fanOutUser known kindOf registry leaders st b) =
      foldl (applyOp registry leaders) (keymapOf st) (map (Put True) (fst (fanOutBinding known kindOf (Source b) b))) \<and>
    shippedDefaults (fanOutUser known kindOf registry leaders st b) = shippedDefaults st"
proof -
  obtain bs ws where f: "fanOutBinding known kindOf (Source b) b = (bs, ws)" by force
  have "\<forall>b \<in> set bs. Sequence b \<noteq> []" using fanOut_Sequence [of _ known kindOf "Source b" b] f by force
  then show ?thesis
    using assms f build_inserts_refines [of "st\<lparr>buildWarnings := buildWarnings st @ ws\<rparr>" bs]
    by (simp add: fanOutUser_def shipped_inserts)
qed

lemma fanOutUsers_refines:
  "build_ok st \<Longrightarrow>
   build_ok (foldl (fanOutUser known kindOf registry leaders) st bs) \<and>
   keymapOf (foldl (fanOutUser known kindOf registry leaders) st bs) =
     foldl (applyOp registry leaders) (keymapOf st)
       (map (Put True) (concat (map (\<lambda>b. fst (fanOutBinding known kindOf (Source b) b)) bs))) \<and>
   shippedDefaults (foldl (fanOutUser known kindOf registry leaders) st bs) = shippedDefaults st"
  by (induction bs arbitrary: st) (simp_all add: fanOutUser_refines)

lemma crossMode_extra: "b \<in> set (extra (crossModeLoop all shipped bs)) \<Longrightarrow> \<exists>c \<in> set bs. Sequence b = Sequence c"
  by (induction bs) (auto simp: noPropagation_def split: if_splits option.splits)

lemma addUser_refines:
  assumes "build_ok st"
  shows "build_ok (addUser lower known kindOf registry leaders st kb) \<and>
    keymapOf (addUser lower known kindOf registry leaders st kb) =
      foldl (applyOp registry leaders) (keymapOf st) (userOps lower known kindOf (shippedDefaults st) kb) \<and>
    shippedDefaults (addUser lower known kindOf registry leaders st kb) = shippedDefaults st"
proof -
  obtain lifted ws where l: "liftKeybindingConfig lower kb = (lifted, ws)" by force
  let ?p = "crossModeBindings lifted (shippedDefaults st)"
  let ?st1 = "st\<lparr>buildWarnings := buildWarnings st @ ws @ propWarnings ?p\<rparr>"
  let ?st2 = "removeShipped (removals ?p) ?st1"
  let ?st3 = "foldl (fanOutUser known kindOf registry leaders) ?st2 lifted"
  have r: "build_ok ?st2" "shippedDefaults ?st2 = shippedDefaults st"
    "keymapOf ?st2 = foldl (applyOp registry leaders) (keymapOf st) (map (\<lambda>(key, i). Free key i) (removals ?p))"
    using removeShipped_refines [of ?st1 "removals ?p" registry leaders] assms by simp_all
  note f = fanOutUsers_refines [OF r(1), of known kindOf registry leaders lifted]
  have "\<forall>b \<in> set (extra ?p). Sequence b \<noteq> []"
    using crossMode_extra [of _ lifted "shippedDefaults st" lifted] lift_Sequence [of _ lower kb] l
    unfolding crossModeBindings_def by fastforce
  then show ?thesis
    using f r assms build_inserts_refines [of ?st3 "extra ?p" registry leaders True]
    by (simp add: addUser_def userOps_def l Let_def shipped_inserts)
qed

lemma adds_refine:
  "build_ok st \<Longrightarrow>
   build_ok (foldl (addUser lower known kindOf registry leaders) st kbs) \<and>
   keymapOf (foldl (addUser lower known kindOf registry leaders) st kbs) =
     foldl (applyOp registry leaders) (keymapOf st) (concat (map (userOps lower known kindOf (shippedDefaults st)) kbs))"
proof (induction kbs arbitrary: st)
  case (Cons kb kbs)
  note a = addUser_refines [OF Cons.prems, of lower known kindOf registry leaders kb]
  then show ?case
    using Cons.IH [of "addUser lower known kindOf registry leaders st kb"] by simp
qed simp

lemma defaults_refine:
  "build_ok st \<Longrightarrow>
   build_ok (foldl (addDefault known kindOf registry leaders) st ds) \<and>
   keymapOf (foldl (addDefault known kindOf registry leaders) st ds) =
     foldl (applyOp registry leaders) (keymapOf st) (concat (map (defaultOps known kindOf) ds)) \<and>
   shippedDefaults (foldl (addDefault known kindOf registry leaders) st ds) =
     foldl (\<lambda>s cb. recordShipped cb s) (shippedDefaults st)
       (filter (\<lambda>cb. resolveCommand registry 0 cb \<noteq> None)
         (concat (map (\<lambda>d. case d of None \<Rightarrow> [] | Some cb \<Rightarrow> fst (fanOutBinding known kindOf ShippedDefault cb)) ds)))"
  by (induction ds arbitrary: st) (simp_all add: addDefault_refines)

text \<open>What the matcher finds in a set of tries.\<close>

definition bindingAt :: "TrieSet \<Rightarrow> keymap" where
  "bindingAt ts key s = (case TrieSet_Get (Some ts) (fst key) (snd key) of None \<Rightarrow> None | Some t \<Rightarrow> leafOf t s)"

definition buildOps :: "(rune \<Rightarrow> rune) \<Rightarrow> context_key list \<Rightarrow> (context_key \<Rightarrow> ContextKind) \<Rightarrow> registry \<Rightarrow>
    ChordBinding option list \<Rightarrow> KeybindingConfig list \<Rightarrow> keyop list" where
  "buildOps lower known kindOf registry ds kbs =
     concat (map (defaultOps known kindOf) ds) @
     concat (map (userOps lower known kindOf (footprint known kindOf registry ds)) kbs)"

lemma finishBuild_refines:
  assumes "build_ok st"
  shows "bindingAt (fst (finishBuild registry leaders st)) = fst (keymapOf st)"
    and "TrieSet_Get (Some (fst (finishBuild registry leaders st))) m sc = Some t \<Longrightarrow> trie_ok t"
proof -
  have g: "TrieSet_Get (Some (fst (finishBuild registry leaders st))) m sc = map_option root (map_of (builders st) (m, sc))" for m sc
    by (simp add: finishBuild_def Let_def TrieSet_Get_def TrieBuilder_Build_def)
      (simp add: map_of_map [of "\<lambda>b. root b", simplified case_prod_beta'] case_prod_beta')
  show "bindingAt (fst (finishBuild registry leaders st)) = fst (keymapOf st)"
    by (auto simp: bindingAt_def fun_eq_iff g keymapOf_def split: option.split)
  show "TrieSet_Get (Some (fst (finishBuild registry leaders st))) m sc = Some t \<Longrightarrow> trie_ok t"
    using assms unfolding g build_ok_def by auto
qed

lemma build_keymap:
  "\<exists>ts ws. KeybindingService_Build lower known fresh ds (Some cfg) (Some registry) (Some kindOf) = Inr (ts, ws) \<and>
     bindingAt ts = fst (foldl (applyOp registry (leaderRunes cfg)) (\<lambda>_ _. None, fresh)
       (buildOps lower known kindOf registry ds (Keybindings cfg))) \<and>
     (\<forall>m sc. case TrieSet_Get (Some ts) m sc of None \<Rightarrow> True | Some t \<Rightarrow> trie_ok t)"
proof -
  let ?l = "leaderRunes cfg"
  let ?st0 = "\<lparr>builders = [], buildWarnings = [], shippedDefaults = [], nextRef = fresh\<rparr>"
  let ?st1 = "foldl (addDefault known kindOf registry ?l) ?st0 ds"
  let ?st2 = "foldl (addUser lower known kindOf registry ?l) ?st1 (Keybindings cfg)"
  have "build_ok ?st0" "keymapOf ?st0 = (\<lambda>_ _. None, fresh)" by (simp_all add: build_ok_def keymapOf_def)
  then have d: "build_ok ?st1" "shippedDefaults ?st1 = footprint known kindOf registry ds"
    "keymapOf ?st1 = foldl (applyOp registry ?l) (\<lambda>_ _. None, fresh) (concat (map (defaultOps known kindOf) ds))"
    using defaults_refine [of ?st0 known kindOf registry ?l ds] by (simp_all add: footprint_def)
  have u: "build_ok ?st2" "keymapOf ?st2 = foldl (applyOp registry ?l) (\<lambda>_ _. None, fresh)
      (buildOps lower known kindOf registry ds (Keybindings cfg))"
    using adds_refine [OF d(1), of lower known kindOf registry ?l "Keybindings cfg"] d(2,3) by (simp_all add: buildOps_def)
  have "KeybindingService_Build lower known fresh ds (Some cfg) (Some registry) (Some kindOf) = Inr (finishBuild registry ?l ?st2)"
    by (simp add: KeybindingService_Build_def Let_def)
  then show ?thesis
    using finishBuild_refines [OF u(1), of registry ?l] u(2) by (auto simp: split: option.split intro!: exI prod_eqI)
qed

text \<open>
  C24. A build implements the abstract keymap: it returns (whenever a registry and a configuration
  are given), its tries are well-formed, and what the matcher finds in every mode and scope at
  every sequence is what the defaults and then each configured entry put and free there, in
  order, the effect of a remapped motion included.
\<close>

theorem build_refines_keymap:
  "\<exists>ts ws. KeybindingService_Build lower known fresh ds (Some cfg) (Some registry) (Some kindOf) = Inr (ts, ws) \<and>
     bindingAt ts = fst (foldl (applyOp registry (leaderRunes cfg)) (\<lambda>_ _. None, fresh)
       (buildOps lower known kindOf registry ds (Keybindings cfg))) \<and>
     (\<forall>m sc. case TrieSet_Get (Some ts) m sc of None \<Rightarrow> True | Some t \<Rightarrow> trie_ok t)"
  by (rule build_keymap)

text \<open>The lifted cells of one entry differ in their modes only.\<close>

lemma lift_cells:
  assumes "liftKeybindingConfig lower kb = (b0 # bs, ws)" "kb_Action kb \<noteq> ''''" "b \<in> set (b0 # bs)"
  shows "b = b0\<lparr>BMode := BMode b\<rparr> \<and> ActionID b0 = kb_Action kb \<and> Source b0 = UserOverride \<and>
    ActionID b = ActionID b0 \<and> Scope b = Scope b0 \<and> Sequence b0 \<noteq> []"
  using assms lift_Sequence [of b0 lower kb]
  by (auto simp: liftKeybindingConfig_def Let_def split: sum.splits if_splits)

lemma lift_all: "liftKeybindingConfig lower kb = (b0 # bs, ws) \<Longrightarrow> kb_Action kb \<noteq> '''' \<Longrightarrow>
   concat (map f (filter (\<lambda>b. ActionID b = ActionID b0 \<and> Scope b = Scope b0) (b0 # bs))) = concat (map f (b0 # bs))"
  by (subst filter_True) (auto dest!: lift_cells)

text \<open>Putting one command at one sequence in several cells.\<close>

lemma lift_fanOut:
  assumes "liftKeybindingConfig lower kb = (b0 # bs, ws)" "kb_Action kb \<noteq> ''''" "b \<in> set (b0 # bs)"
    "Scope b0 \<noteq> ''all''" "Scope b0 \<noteq> ''''"
  shows "set (fst (fanOutBinding known kindOf (Source b) b)) = (\<lambda>m. b0\<lparr>BMode := m\<rparr>) ` set (modeBits (BMode b))"
proof -
  obtain x where b: "b = b0\<lparr>BMode := x\<rparr>" using lift_cells [OF assms(1-3)] by blast
  have "Sequence b0 \<noteq> []" "scopesOf known kindOf (Scope b0) = [Scope b0]"
    using lift_cells [OF assms(1-3)] assms(4,5) by (auto simp: scopesOf_def)
  then show ?thesis by (auto simp: b fanOutBinding_def image_iff)
qed

lemma image_diff_union: "f ` A \<union> f ` (B - A) = f ` (B \<union> A)"
  by blast

lemma cell_image: "(m, sc) \<in> (\<lambda>b. (BMode b, Scope b)) ` (\<lambda>m. b0\<lparr>BMode := m\<rparr>) ` A \<longleftrightarrow> sc = Scope b0 \<and> m \<in> A"
  by (auto simp: image_iff)

lemma foldl_Put:
  assumes "\<forall>b \<in> set bs. resolveCommand registry 0 b = Some c \<and> Source b \<noteq> CustomCmd \<and>
      expandLeaderTokens (Sequence b) (fst leaders) (snd leaders) = q \<and> leafFor b c = l"
  shows "fst (foldl (applyOp registry leaders) st (map (Put True) bs)) key s =
    (if s = q \<and> key \<in> (\<lambda>b. (BMode b, Scope b)) ` set bs then Some l else fst st key s)"
  using assms
proof (induction bs arbitrary: st)
  case (Cons b bs)
  obtain km n where st: "st = (km, n)" by force
  have "resolveCommand registry n b = Some c" using Cons.prems by (auto simp: resolveCommand_def split: if_splits)
  then show ?case using Cons by (auto simp: st Let_def tier_def)
qed simp

lemma foldl_Free:
  "fst (foldl (applyOp registry leaders) st (map (\<lambda>(key, i). Free key i) (map (\<lambda>m. ((m, sc), i)) ms))) key s =
    (case fst st key s of None \<Rightarrow> None
     | Some l \<Rightarrow> if i \<noteq> [] \<and> leafID l = i \<and> key \<in> (\<lambda>m. (m, sc)) ` set ms then None else Some l)"
proof (induction ms arbitrary: st)
  case (Cons m ms)
  obtain km n where st: "st = (km, n)" by force
  show ?case using Cons [of "applyOp registry leaders st (Free (m, sc) i)"] by (auto simp: st split: option.split)
qed (auto split: option.split)


text \<open>A shipped motion and a configured entry that remaps it.\<close>

definition rune_key :: "rune \<Rightarrow> ChordKey" where
  "rune_key r = \<lparr>Code = r, Special = KeyNone, Mod = 0\<rparr>"

definition down_command :: command where
  "down_command = \<lparr>cmd_ref = 1, cmd_ID = ''editor.down'', cmd_Description = ''Down'', DisabledReasonStatic = ''''\<rparr>"

definition down_default :: "mode \<Rightarrow> ChordBinding option" where
  "down_default m = Some \<lparr>Sequence = [rune_key 106], BMode = m, Scope = ''query_editor'', ActionID = ''editor.down'',
     Description = '''', Tag = '''', ShowInBar = False, OpensMenu = False, Source = ShippedDefault, Origin = ''''\<rparr>"

definition down_entry :: "runes \<Rightarrow> KeybindingConfig" where
  "down_entry k = \<lparr>kb_Mode = str ''n'', kb_Scope = ''query_editor'', kb_Key = k, kb_Action = ''editor.down'',
     kb_Command = '''', kb_OpensMenu = False, kb_ShowInBar = False, kb_Description = '''', kb_Tag = '''', kb_Origin = ''keys.yml:1''\<rparr>"

definition down_override :: "rune \<Rightarrow> ChordBinding" where
  "down_override r = \<lparr>Sequence = [rune_key r], BMode = ModeNormal, Scope = ''query_editor'', ActionID = ''editor.down'',
     Description = '''', Tag = '''', ShowInBar = False, OpensMenu = False, Source = UserOverride, Origin = ''keys.yml:1''\<rparr>"

abbreviation down_registry :: registry where
  "down_registry \<equiv> (\<lambda>i. if i = ''editor.down'' then Some down_command else None)"

abbreviation down_build :: "KeybindingConfig list \<Rightarrow> build_error + TrieSet \<times> Warning list" where
  "down_build kbs \<equiv> KeybindingService_Build (\<lambda>r. r) [''query_editor''] 2 [down_default ModeNormal, down_default ModeOperatorPending]
     (Some (\<lparr>cfg_Leader = [], cfg_LocalLeader = [], Keybindings = []\<rparr>\<lparr>Keybindings := kbs\<rparr>)) (Some down_registry) (Some (\<lambda>_. MAIN_CONTEXT))"

lemma down_lift:
  assumes "r = 109 \<or> r = 110"
  shows "liftKeybindingConfig (\<lambda>r. r) (down_entry [r]) = ([down_override r], [])"
proof -
  have "SequenceFromShorthand (\<lambda>r. r) [r] = Inr [rune_key r]"
    using assms by (auto simp: SequenceFromShorthand_def ParseKeySequence_def maxSequenceTokens_def ParseKeyLabel_def
        keyFromLabel_def specialKeyByName_def str_def rune_key_def)
  moreover have "modeBitsFromTokens (splitModeTokens (str ''n'')) = Inr [ModeNormal]"
    by (simp add: splitModeTokens_def TrimSpace_def unicode_IsSpace_def modeBitsFromTokens_def modeByToken_def str_def)
  ultimately show ?thesis
    by (simp add: liftKeybindingConfig_def down_entry_def down_override_def ModeNormal_def)
qed

lemma down_modes:
  "modeBits ModeNormal = [ModeNormal]" "modeBits ModeOperatorPending = [ModeOperatorPending]"
  "ModeOperatorPending \<noteq> ModeNormal" "ModeOperatorPending AND crossModeMask \<noteq> 0"
    "ModeNormal OR m = m" "ModeNormal \<noteq> ModeOperatorPending"
  by (code_simp, code_simp, code_simp, code_simp) (simp_all add: mode_defs)

lemma down_fanOut:
  "fanOutBinding [''query_editor''] (\<lambda>_. MAIN_CONTEXT) ShippedDefault (the (down_default ModeNormal)) = ([the (down_default ModeNormal)], [])"
  "fanOutBinding [''query_editor''] (\<lambda>_. MAIN_CONTEXT) ShippedDefault (the (down_default ModeOperatorPending)) =
     ([the (down_default ModeOperatorPending)], [])"
  "fanOutBinding [''query_editor''] (\<lambda>_. MAIN_CONTEXT) UserOverride (down_override r) = ([down_override r], [])"
  by (simp_all add: fanOutBinding_def down_default_def down_override_def scopesOf_def down_modes GLOBAL_def)

lemma down_footprint:
  "footprint [''query_editor''] (\<lambda>_. MAIN_CONTEXT) down_registry [down_default ModeNormal, down_default ModeOperatorPending] =
    [((''editor.down'', ''query_editor''), \<lparr>mask = ModeOperatorPending, hasNormal = True\<rparr>)]"
  using down_fanOut(1,2) unfolding footprint_def down_default_def
  by (simp add: resolveCommand_def recordShipped_def down_modes ModeNormal_def [symmetric])

lemma down_build_keymap:
  "\<exists>ts ws. down_build kbs = Inr (ts, ws) \<and>
     bindingAt ts = fst (foldl (applyOp down_registry (32, 44)) (\<lambda>_ _. None, 2)
       (Put False (the (down_default ModeNormal)) # Put False (the (down_default ModeOperatorPending)) #
        concat (map (userOps (\<lambda>r. r) [''query_editor''] (\<lambda>_. MAIN_CONTEXT)
          [((''editor.down'', ''query_editor''), \<lparr>mask = ModeOperatorPending, hasNormal = True\<rparr>)]) kbs)))"
proof -
  have d: "defaultOps [''query_editor''] (\<lambda>_. MAIN_CONTEXT) (down_default m) = [Put False (the (down_default m))]"
    if "m = ModeNormal \<or> m = ModeOperatorPending" for m
    using that down_fanOut(1,2) by (auto simp: defaultOps_def down_default_def)
  have "leaderRunes (\<lparr>cfg_Leader = [], cfg_LocalLeader = [], Keybindings = []\<rparr>\<lparr>Keybindings := kbs\<rparr>) = (32, 44)"
    by (simp add: leaderRunes_def singleRune_def)
  then show ?thesis
    using build_keymap [of "\<lambda>r. r" "[''query_editor'']" 2 "[down_default ModeNormal, down_default ModeOperatorPending]"
        "\<lparr>cfg_Leader = [], cfg_LocalLeader = [], Keybindings = []\<rparr>\<lparr>Keybindings := kbs\<rparr>" down_registry "\<lambda>_. MAIN_CONTEXT"]
    by (auto simp: buildOps_def d down_footprint)
qed

lemma down_shipped: "shipped_modes \<lparr>mask = ModeOperatorPending, hasNormal = True\<rparr> = [ModeNormal, ModeOperatorPending]"
  by (simp add: shipped_modes_def down_modes)

lemmas down_defs = down_default_def down_override_def resolveCommand_def expandLeaderTokens_def rune_key_def tier_def leafFor_def
  leafID_def down_command_def


text \<open>
  Two configured keys for one motion: the second entry frees the first, since a removal takes
  every leaf of the action, not only the shipped one, and no warning says so.
\<close>

lemma second_remap_drops_first:
  "\<exists>ts ws. down_build [down_entry [110], down_entry [109]] = Inr (ts, ws) \<and>
     bindingAt ts (ModeNormal, ''query_editor'') [rune_key 109] = Some (leafFor (down_override 109) down_command) \<and>
     bindingAt ts (ModeNormal, ''query_editor'') [rune_key 110] = None"
proof -
  obtain ts ws where b: "down_build [down_entry [110], down_entry [109]] = Inr (ts, ws)"
      "bindingAt ts = fst (foldl (applyOp down_registry (32, 44)) (\<lambda>_ _. None, 2)
       (Put False (the (down_default ModeNormal)) # Put False (the (down_default ModeOperatorPending)) #
        concat (map (userOps (\<lambda>r. r) [''query_editor''] (\<lambda>_. MAIN_CONTEXT)
          [((''editor.down'', ''query_editor''), \<lparr>mask = ModeOperatorPending, hasNormal = True\<rparr>)])
          [down_entry [110], down_entry [109]])))"
    using down_build_keymap by blast
  have u: "userOps (\<lambda>r. r) [''query_editor''] (\<lambda>_. MAIN_CONTEXT)
      [((''editor.down'', ''query_editor''), \<lparr>mask = ModeOperatorPending, hasNormal = True\<rparr>)] (down_entry [r]) =
      [Free (ModeNormal, ''query_editor'') ''editor.down'', Free (ModeOperatorPending, ''query_editor'') ''editor.down'',
       Put True (down_override r), Put True ((down_override r)\<lparr>BMode := ModeOperatorPending\<rparr>)]"
    if "r = 109 \<or> r = 110" for r
  proof -
    have "Source (down_override r) = UserOverride" "\<not> reservedMotionTarget (Sequence (down_override r))"
      "ActionID (down_override r) = ''editor.down''" "Scope (down_override r) = ''query_editor''" "BMode (down_override r) = ModeNormal"
      using that by (auto simp: down_override_def reservedMotionTarget_def rune_key_def)
    then show ?thesis
      by (simp add: userOps_def down_lift [OF that] crossModeBindings_def noPropagation_def down_modes down_shipped
          userTargetedModes_def down_fanOut)
  qed
  have "bindingAt ts (ModeNormal, ''query_editor'') [rune_key 109] = Some (leafFor (down_override 109) down_command) \<and>
     bindingAt ts (ModeNormal, ''query_editor'') [rune_key 110] = None"
    unfolding b(2) by (simp add: u down_defs down_modes)
  then show ?thesis using b(1) by blast
qed

end
