(* ===== verification/RowValue.thy ===== *)
theory RowValue
  imports Prelude "HOL-Library.Word"
begin

text \<open>
  Row values and their identity (\<open>RowIdentityEqual\<close>, \<open>identityValueEqual\<close> and
  \<open>clonePendingValue\<close> of \<open>pkg/models/pending_edit.go\<close>).  A key value is whatever the driver
  decoded, compared by reflection, so the model has the Go values reflection sees: scalars,
  floats at their bits, pointers, interfaces, slices, arrays, structs (with the fields that are
  exported marked) and maps with scalar keys; each carries the name of its type.  A map is a list
  of entries with distinct keys.  Values are immutable here: \<open>DeepEqual\<close>'s shortcut for one and the
  same pointer, slice or map object matters only for a map that holds a NaN, and functions and
  channels are not modelled.
\<close>

section \<open>Values\<close>

type_synonym gotype = string

datatype scalar = BoolS bool | IntS int | StrS string

datatype gval =
    NilV
  | ScalarV gotype scalar
  | FloatV gotype "64 word"
  | PointerV gotype "gval option"
  | InterfaceV gotype "gval option"
  | SliceV gotype "gval list option"
  | ArrayV gotype "gval list"
  | StructV gotype "(bool \<times> gval) list"
  | MapV gotype "(scalar \<times> gval) list option"

text \<open>A \<open>float64\<close> by its bits (a \<open>float32\<close> is widened by \<open>Float()\<close> first): NaN, and Go's \<open>==\<close>.\<close>

definition isNaN :: "64 word \<Rightarrow> bool" where
  "isNaN w \<longleftrightarrow> unat (drop_bit 52 w) mod 2048 = 2047 \<and> take_bit 52 w \<noteq> 0"

definition isZero :: "64 word \<Rightarrow> bool" where
  "isZero w \<longleftrightarrow> take_bit 63 w = 0"

definition floatEq :: "64 word \<Rightarrow> 64 word \<Rightarrow> bool" where
  "floatEq a b \<longleftrightarrow> \<not> isNaN a \<and> \<not> isNaN b \<and> (a = b \<or> isZero a \<and> isZero b)"

section \<open>\<open>reflect.DeepEqual\<close>\<close>

text \<open>The comparison of two values, given the one of two floats.\<close>

type_synonym float_rel = "64 word \<Rightarrow> 64 word \<Rightarrow> bool"

fun deepEqualBy :: "float_rel \<Rightarrow> gval \<Rightarrow> gval \<Rightarrow> bool"
  and deepEqualsBy :: "float_rel \<Rightarrow> gval list \<Rightarrow> gval list \<Rightarrow> bool"
  and deepFieldsBy :: "float_rel \<Rightarrow> (bool \<times> gval) list \<Rightarrow> (bool \<times> gval) list \<Rightarrow> bool"
  and deepEntriesBy :: "float_rel \<Rightarrow> (scalar \<times> gval) list \<Rightarrow> (scalar \<times> gval) list \<Rightarrow> bool" where
  "deepEqualBy feq NilV b \<longleftrightarrow> b = NilV"
| "deepEqualBy feq (ScalarV t s) b \<longleftrightarrow> b = ScalarV t s"
| "deepEqualBy feq (FloatV t x) b \<longleftrightarrow> (case b of FloatV t' y \<Rightarrow> t = t' \<and> feq x y | _ \<Rightarrow> False)"
| "deepEqualBy feq (PointerV t None) b \<longleftrightarrow> b = PointerV t None"
| "deepEqualBy feq (PointerV t (Some v)) b \<longleftrightarrow> (case b of PointerV t' (Some w) \<Rightarrow> t = t' \<and> deepEqualBy feq v w | _ \<Rightarrow> False)"
| "deepEqualBy feq (InterfaceV t None) b \<longleftrightarrow> b = InterfaceV t None"
| "deepEqualBy feq (InterfaceV t (Some v)) b \<longleftrightarrow> (case b of InterfaceV t' (Some w) \<Rightarrow> t = t' \<and> deepEqualBy feq v w | _ \<Rightarrow> False)"
| "deepEqualBy feq (SliceV t None) b \<longleftrightarrow> b = SliceV t None"
| "deepEqualBy feq (SliceV t (Some vs)) b \<longleftrightarrow> (case b of SliceV t' (Some ws) \<Rightarrow> t = t' \<and> deepEqualsBy feq vs ws | _ \<Rightarrow> False)"
| "deepEqualBy feq (ArrayV t vs) b \<longleftrightarrow> (case b of ArrayV t' ws \<Rightarrow> t = t' \<and> deepEqualsBy feq vs ws | _ \<Rightarrow> False)"
| "deepEqualBy feq (StructV t fs) b \<longleftrightarrow> (case b of StructV t' gs \<Rightarrow> t = t' \<and> deepFieldsBy feq fs gs | _ \<Rightarrow> False)"
| "deepEqualBy feq (MapV t None) b \<longleftrightarrow> b = MapV t None"
| "deepEqualBy feq (MapV t (Some m)) b \<longleftrightarrow>
     (case b of MapV t' (Some m') \<Rightarrow> t = t' \<and> length m = length m' \<and> deepEntriesBy feq m m' | _ \<Rightarrow> False)"
| "deepEqualsBy feq [] ws \<longleftrightarrow> ws = []"
| "deepEqualsBy feq (v # vs) ws \<longleftrightarrow> (case ws of w # ws' \<Rightarrow> deepEqualBy feq v w \<and> deepEqualsBy feq vs ws' | [] \<Rightarrow> False)"
| "deepFieldsBy feq [] gs \<longleftrightarrow> gs = []"
| "deepFieldsBy feq ((e, v) # fs) gs \<longleftrightarrow> (case gs of (e', w) # gs' \<Rightarrow> deepEqualBy feq v w \<and> deepFieldsBy feq fs gs' | [] \<Rightarrow> False)"
| "deepEntriesBy feq [] m' \<longleftrightarrow> True"
| "deepEntriesBy feq ((k, v) # m) m' \<longleftrightarrow> (case map_of m' k of Some w \<Rightarrow> deepEqualBy feq v w \<and> deepEntriesBy feq m m' | None \<Rightarrow> False)"

definition deepEqual :: "gval \<Rightarrow> gval \<Rightarrow> bool" where
  "deepEqual = deepEqualBy floatEq"

section \<open>Identity\<close>

text \<open>
  \<open>identityValueEqual\<close>: \<open>ci\<close> is \<open>CanInterface\<close>, lost below an unexported field.  The kinds
  without a case of their own are maps, which are not comparable, and scalars, which
  \<open>DeepEqual\<close> has already compared when they are reachable.  Structs of one type have the same
  fields.
\<close>

definition typeOf :: "gval \<Rightarrow> gotype option" where
  "typeOf v = (case v of NilV \<Rightarrow> None | ScalarV t _ \<Rightarrow> Some t | FloatV t _ \<Rightarrow> Some t | PointerV t _ \<Rightarrow> Some t
     | InterfaceV t _ \<Rightarrow> Some t | SliceV t _ \<Rightarrow> Some t | ArrayV t _ \<Rightarrow> Some t | StructV t _ \<Rightarrow> Some t | MapV t _ \<Rightarrow> Some t)"

fun identityValueEqual :: "bool \<Rightarrow> gval \<Rightarrow> gval \<Rightarrow> bool"
  and identityValues :: "bool \<Rightarrow> gval list \<Rightarrow> gval list \<Rightarrow> bool"
  and identityFields :: "bool \<Rightarrow> (bool \<times> gval) list \<Rightarrow> (bool \<times> gval) list \<Rightarrow> bool" where
  "identityValueEqual ci NilV b \<longleftrightarrow> b = NilV"
| "identityValueEqual ci (ScalarV t s) b \<longleftrightarrow> b = ScalarV t s"
| "identityValueEqual ci (FloatV t x) b \<longleftrightarrow>
     (case b of FloatV t' y \<Rightarrow> t = t' \<and> (ci \<and> floatEq x y \<or> isNaN x \<and> isNaN y) | _ \<Rightarrow> False)"
| "identityValueEqual ci (PointerV t v) b \<longleftrightarrow>
     typeOf b = Some t \<and> ci \<and> deepEqual (PointerV t v) b \<or>
     (case v of None \<Rightarrow> False
      | Some v' \<Rightarrow> (case b of PointerV t' (Some w) \<Rightarrow> t = t' \<and> identityValueEqual ci v' w | _ \<Rightarrow> False))"
| "identityValueEqual ci (InterfaceV t v) b \<longleftrightarrow>
     typeOf b = Some t \<and> ci \<and> deepEqual (InterfaceV t v) b \<or>
     (case v of None \<Rightarrow> False
      | Some v' \<Rightarrow> (case b of InterfaceV t' (Some w) \<Rightarrow> t = t' \<and> identityValueEqual ci v' w | _ \<Rightarrow> False))"
| "identityValueEqual ci (SliceV t vs) b \<longleftrightarrow>
     typeOf b = Some t \<and> ci \<and> deepEqual (SliceV t vs) b \<or>
     (case vs of
        None \<Rightarrow> b = SliceV t None
      | Some vs' \<Rightarrow> (case b of SliceV t' (Some ws) \<Rightarrow> t = t' \<and> length vs' = length ws \<and> identityValues ci vs' ws | _ \<Rightarrow> False))"
| "identityValueEqual ci (ArrayV t vs) b \<longleftrightarrow>
     typeOf b = Some t \<and> ci \<and> deepEqual (ArrayV t vs) b \<or>
     (case b of ArrayV t' ws \<Rightarrow> t = t' \<and> length vs = length ws \<and> identityValues ci vs ws | _ \<Rightarrow> False)"
| "identityValueEqual ci (StructV t fs) b \<longleftrightarrow>
     typeOf b = Some t \<and> ci \<and> deepEqual (StructV t fs) b \<or>
     (case b of StructV t' gs \<Rightarrow> t = t' \<and> identityFields ci fs gs | _ \<Rightarrow> False)"
| "identityValueEqual ci (MapV t m) b \<longleftrightarrow> typeOf b = Some t \<and> ci \<and> deepEqual (MapV t m) b"
| "identityValues ci [] ws \<longleftrightarrow> True"
| "identityValues ci (v # vs) ws \<longleftrightarrow> (case ws of w # ws' \<Rightarrow> identityValueEqual ci v w \<and> identityValues ci vs ws' | [] \<Rightarrow> False)"
| "identityFields ci [] gs \<longleftrightarrow> gs = []"
| "identityFields ci ((e, v) # fs) gs \<longleftrightarrow>
     (case gs of (e', w) # gs' \<Rightarrow> identityValueEqual (ci \<and> e) v w \<and> identityFields ci fs gs' | [] \<Rightarrow> False)"

definition RowIdentityEqual :: "gval list \<Rightarrow> gval list \<Rightarrow> bool" where
  "RowIdentityEqual a b \<longleftrightarrow> length a = length b \<and> identityValues True a b"

section \<open>Copies\<close>

text \<open>
  \<open>clonePendingValue\<close> copies whatever an exported path reaches; a \<open>*big.Int\<close> is a pointer to a
  struct without exported fields and is copied by \<open>Set\<close>, which keeps its digits.
\<close>

fun clonePendingValue :: "gval \<Rightarrow> gval" where
  "clonePendingValue (PointerV t (Some v)) =
     (if t = ''*big.Int'' then PointerV t (Some v) else PointerV t (Some (clonePendingValue v)))"
| "clonePendingValue (InterfaceV t (Some v)) = InterfaceV t (Some (clonePendingValue v))"
| "clonePendingValue (SliceV t (Some vs)) = SliceV t (Some (map clonePendingValue vs))"
| "clonePendingValue (ArrayV t vs) = ArrayV t (map clonePendingValue vs)"
| "clonePendingValue (StructV t fs) = StructV t (map (\<lambda>(e, v). (e, if e then clonePendingValue v else v)) fs)"
| "clonePendingValue (MapV t (Some m)) = MapV t (Some (map (\<lambda>(k, v). (k, clonePendingValue v)) m))"
| "clonePendingValue v = v"

lemma clone_same [simp]: "clonePendingValue v = v"
  by (induction v rule: clonePendingValue.induct) (auto intro!: map_idI)

lemma clone_row [simp]: "map clonePendingValue vs = vs"
  by (simp add: map_idI)

section \<open>Identity is an equivalence\<close>

lemma deepEquals_iff: "deepEqualsBy feq vs ws \<longleftrightarrow> list_all2 (deepEqualBy feq) vs ws"
  by (induction vs arbitrary: ws) (auto split: list.split)

lemma deepFields_iff: "deepFieldsBy feq fs gs \<longleftrightarrow> list_all2 (\<lambda>a b. deepEqualBy feq (snd a) (snd b)) fs gs"
  by (induction fs arbitrary: gs) (auto split: list.splits)

lemma deepEntries_iff:
  "deepEntriesBy feq m m' \<longleftrightarrow> (\<forall>(k, v) \<in> set m. \<exists>w. map_of m' k = Some w \<and> deepEqualBy feq v w)"
  by (induction m) (auto split: option.splits)

lemma identityValues_iff: "length vs = length ws \<Longrightarrow> identityValues ci vs ws \<longleftrightarrow> list_all2 (identityValueEqual ci) vs ws"
  by (induction vs ws rule: list_induct2) simp_all

lemma identityFields_iff:
  "identityFields ci fs gs \<longleftrightarrow> list_all2 (\<lambda>a b. identityValueEqual (ci \<and> fst a) (snd a) (snd b)) fs gs"
  by (induction fs arbitrary: gs) (auto split: list.splits)

text \<open>The keys of every map differ, as they do in Go.\<close>

fun wf_value :: "gval \<Rightarrow> bool" where
  "wf_value (PointerV t v) \<longleftrightarrow> (case v of None \<Rightarrow> True | Some v \<Rightarrow> wf_value v)"
| "wf_value (InterfaceV t v) \<longleftrightarrow> (case v of None \<Rightarrow> True | Some v \<Rightarrow> wf_value v)"
| "wf_value (SliceV t vs) \<longleftrightarrow> (case vs of None \<Rightarrow> True | Some vs \<Rightarrow> list_all wf_value vs)"
| "wf_value (ArrayV t vs) \<longleftrightarrow> list_all wf_value vs"
| "wf_value (StructV t fs) \<longleftrightarrow> list_all (\<lambda>(e, v). wf_value v) fs"
| "wf_value (MapV t m) \<longleftrightarrow> (case m of None \<Rightarrow> True | Some m \<Rightarrow> distinct (map fst m) \<and> list_all (\<lambda>(k, v). wf_value v) m)"
| "wf_value v \<longleftrightarrow> True"

lemma list_all2_trans_in:
  "list_all2 P xs ys \<Longrightarrow> list_all2 Q ys zs \<Longrightarrow> (\<And>x y z. x \<in> set xs \<Longrightarrow> P x y \<Longrightarrow> Q y z \<Longrightarrow> R x z) \<Longrightarrow> list_all2 R xs zs"
  by (auto simp: list_all2_conv_all_nth)

text \<open>The relation an equivalence on floats lifts to is an equivalence on well-formed values.\<close>

locale float_equivalence =
  fixes feq :: float_rel
  assumes feq_refl: "feq x x" and feq_sym: "feq x y \<Longrightarrow> feq y x" and feq_trans: "feq x y \<Longrightarrow> feq y z \<Longrightarrow> feq x z"
begin

lemma deep_refl: "wf_value v \<Longrightarrow> deepEqualBy feq v v"
proof (induction v rule: wf_value.induct)
  case (6 t m)
  show ?case
  proof (cases m)
    case (Some es)
    have "\<exists>w. map_of es k = Some w \<and> deepEqualBy feq v w" if "(k, v) \<in> set es" for k v
      using 6 Some that by (auto simp: list_all_iff)
    then show ?thesis using Some by (auto simp: deepEntries_iff)
  qed simp
qed (auto simp: deepEquals_iff deepFields_iff feq_refl list_all_iff list_all2_same split: option.splits)

lemma deep_sym: "wf_value v \<Longrightarrow> wf_value w \<Longrightarrow> deepEqualBy feq v w \<Longrightarrow> deepEqualBy feq w v"
proof (induction v arbitrary: w rule: wf_value.induct)
  case (3 t vs)
  then show ?case
    by (auto simp: deepEquals_iff list_all2_conv_all_nth list_all_length split: option.splits gval.splits)
next
  case (4 t vs)
  then show ?case
    by (auto simp: deepEquals_iff list_all2_conv_all_nth list_all_length split: gval.splits)
next
  case (5 t fs)
  have "deepEqualBy feq y (snd f)" if "f \<in> set fs" "wf_value (snd f)" "wf_value y" "deepEqualBy feq (snd f) y" for f y
    using "5.IH" [of f "fst f" "snd f"] that by auto
  then show ?case using "5.prems"
    by (auto simp: deepFields_iff list_all2_conv_all_nth list_all_length case_prod_beta' split: gval.splits)
next
  case (6 t m)
  show ?case
  proof (cases m)
    case (Some es)
    then obtain es' where w: "w = MapV t (Some es')" "length es = length es'" "deepEntriesBy feq es es'"
      using "6.prems"(3) by (auto split: gval.splits option.splits)
    have d: "distinct (map fst es)" "distinct (map fst es')" using "6.prems"(1,2) Some w by auto
    have sub: "fst ` set es \<subseteq> fst ` set es'"
    proof
      fix k assume "k \<in> fst ` set es"
      then obtain v where "(k, v) \<in> set es" by force
      with w(3) obtain x where "map_of es' k = Some x" unfolding deepEntries_iff by blast
      then show "k \<in> fst ` set es'" by (metis map_of_eq_None_iff option.distinct(1))
    qed
    have "card (fst ` set es) = card (fst ` set es')"
      using d w(2) by (metis distinct_card length_map list.set_map)
    with sub have keys: "fst ` set es = fst ` set es'" by (simp add: card_subset_eq)
    have "\<exists>v. map_of es k = Some v \<and> deepEqualBy feq x v" if kx: "(k, x) \<in> set es'" for k x
    proof -
      obtain v where v: "(k, v) \<in> set es" using keys kx by force
      with w(3) obtain y where "map_of es' k = Some y" "deepEqualBy feq v y" unfolding deepEntries_iff by blast
      moreover have "map_of es' k = Some x" using d(2) kx by simp
      ultimately have "deepEqualBy feq v x" by simp
      moreover have "wf_value v" "wf_value x" using "6.prems"(1,2) Some w(1) v kx by (auto simp: list_all_iff)
      ultimately show ?thesis using "6.IH" [OF Some v refl] v d(1) by auto
    qed
    then show ?thesis using w d unfolding Some by (auto simp: deepEntries_iff)
  qed (use "6.prems" in simp)
qed (auto simp: feq_sym split: option.splits gval.splits)

lemma deep_trans: "deepEqualBy feq u v \<Longrightarrow> deepEqualBy feq v w \<Longrightarrow> deepEqualBy feq u w"
proof (induction u arbitrary: v w rule: wf_value.induct)
  case (1 t u)
  then show ?case by (cases u) (auto split: option.splits gval.splits)
next
  case (2 t u)
  then show ?case by (cases u) (auto split: option.splits gval.splits)
next
  case (3 t us)
  show ?case
  proof (cases us)
    case (Some us')
    from "3.IH" [OF Some] "3.prems" show ?thesis
      by (auto simp: Some deepEquals_iff split: option.splits gval.splits intro: list_all2_trans_in)
  qed (use "3.prems" in simp)
next
  case (4 t us)
  then show ?case by (auto simp: deepEquals_iff split: gval.splits intro: list_all2_trans_in)
next
  case (5 t fs)
  have "deepEqualBy feq (snd f) y \<Longrightarrow> deepEqualBy feq y z \<Longrightarrow> deepEqualBy feq (snd f) z" if "f \<in> set fs" for f y z
    using "5.IH" [of f "fst f" "snd f"] that by auto
  then show ?case using "5.prems"
    by (auto simp: deepFields_iff split: gval.splits intro: list_all2_trans_in)
next
  case (6 t m)
  show ?case
  proof (cases m)
    case (Some es)
    obtain es' es'' where e: "v = MapV t (Some es')" "w = MapV t (Some es'')" "length es = length es''"
        "deepEntriesBy feq es es'" "deepEntriesBy feq es' es''"
      using "6.prems" Some by (auto split: gval.splits option.splits)
    have "\<exists>z. map_of es'' k = Some z \<and> deepEqualBy feq x z" if kx: "(k, x) \<in> set es" for k x
    proof -
      obtain y where y: "map_of es' k = Some y" "deepEqualBy feq x y" using e(4) kx unfolding deepEntries_iff by blast
      then obtain z where "map_of es'' k = Some z" "deepEqualBy feq y z"
        using e(5) map_of_SomeD [OF y(1)] unfolding deepEntries_iff by blast
      then show ?thesis using "6.IH" [OF Some kx refl] y(2) by blast
    qed
    then show ?thesis using e unfolding Some by (auto simp: deepEntries_iff)
  qed (use "6.prems" in simp)
qed (auto intro: feq_trans split: option.splits gval.splits)

end

definition floatSame :: float_rel where
  "floatSame x y \<longleftrightarrow> floatEq x y \<or> isNaN x \<and> isNaN y"

lemma zero_not_NaN: "isZero x \<Longrightarrow> \<not> isNaN x"
proof -
  assume "isZero x"
  then have "take_bit 52 (take_bit 63 x) = 0" by (simp add: isZero_def)
  then show ?thesis by (simp add: isNaN_def)
qed

interpretation same: float_equivalence floatSame
  by unfold_locales (auto simp: floatSame_def floatEq_def dest: zero_not_NaN)

text \<open>Values identity treats as PostgreSQL does: a NaN lies neither in a map nor behind an unexported field.\<close>

fun floats :: "gval \<Rightarrow> 64 word list" where
  "floats (FloatV t x) = [x]"
| "floats (PointerV t v) = (case v of None \<Rightarrow> [] | Some v \<Rightarrow> floats v)"
| "floats (InterfaceV t v) = (case v of None \<Rightarrow> [] | Some v \<Rightarrow> floats v)"
| "floats (SliceV t vs) = (case vs of None \<Rightarrow> [] | Some vs \<Rightarrow> concat (map floats vs))"
| "floats (ArrayV t vs) = concat (map floats vs)"
| "floats (StructV t fs) = concat (map (\<lambda>(e, v). floats v) fs)"
| "floats (MapV t m) = (case m of None \<Rightarrow> [] | Some m \<Rightarrow> concat (map (\<lambda>(k, v). floats v) m))"
| "floats v = []"

definition nanFree :: "gval \<Rightarrow> bool" where
  "nanFree v \<longleftrightarrow> list_all (\<lambda>x. \<not> isNaN x) (floats v)"

fun regular :: "gval \<Rightarrow> bool" where
  "regular (PointerV t v) \<longleftrightarrow> (case v of None \<Rightarrow> True | Some v \<Rightarrow> regular v)"
| "regular (InterfaceV t v) \<longleftrightarrow> (case v of None \<Rightarrow> True | Some v \<Rightarrow> regular v)"
| "regular (SliceV t vs) \<longleftrightarrow> (case vs of None \<Rightarrow> True | Some vs \<Rightarrow> list_all regular vs)"
| "regular (ArrayV t vs) \<longleftrightarrow> list_all regular vs"
| "regular (StructV t fs) \<longleftrightarrow> nanFree (StructV t fs) \<or> list_all (\<lambda>(e, v). e \<and> regular v) fs"
| "regular (MapV t m) \<longleftrightarrow> nanFree (MapV t m)"
| "regular v \<longleftrightarrow> True"

text \<open>Changing the relation on floats.\<close>

lemma deep_change:
  "(\<And>x y. x \<in> set (floats v) \<Longrightarrow> f x y \<Longrightarrow> g x y) \<Longrightarrow> deepEqualBy f v w \<Longrightarrow> deepEqualBy g v w"
proof (induction v arbitrary: w rule: wf_value.induct)
  case (1 t u)
  then show ?case by (cases u) (auto split: option.splits gval.splits)
next
  case (2 t u)
  then show ?case by (cases u) (auto split: option.splits gval.splits)
next
  case (3 t us)
  show ?case
  proof (cases us)
    case (Some us')
    have "deepEqualBy f b y \<Longrightarrow> deepEqualBy g b y" if "b \<in> set us'" for b y
      using "3.IH" [OF Some that] "3.prems"(1) Some that by auto
    then show ?thesis using "3.prems"(2) Some
      by (auto simp: deepEquals_iff split: option.splits gval.splits elim!: list.rel_mono_strong)
  qed (use "3.prems" in simp)
next
  case (4 t us)
  have "deepEqualBy f b y \<Longrightarrow> deepEqualBy g b y" if "b \<in> set us" for b y
    using "4.IH" [OF that] "4.prems"(1) that by auto
  then show ?case using "4.prems"(2) by (auto simp: deepEquals_iff split: gval.splits elim!: list.rel_mono_strong)
next
  case (5 t fs)
  have "deepEqualBy f (snd b) y \<Longrightarrow> deepEqualBy g (snd b) y" if "b \<in> set fs" for b y
    using "5.IH" [OF that, of "fst b" "snd b"] "5.prems"(1) that by (auto simp: case_prod_beta')
  then show ?case using "5.prems"(2) by (auto simp: deepFields_iff split: gval.splits elim!: list.rel_mono_strong)
next
  case (6 t m)
  show ?case
  proof (cases m)
    case (Some es)
    have *: "deepEqualBy f y z \<Longrightarrow> deepEqualBy g y z" if "(k, y) \<in> set es" for k y z
    proof -
      have "set (floats y) \<subseteq> set (floats (MapV t m))" using Some that by force
      then show "deepEqualBy f y z \<Longrightarrow> deepEqualBy g y z" using "6.IH" [OF Some that refl] "6.prems"(1) by blast
    qed
    obtain es' where e: "w = MapV t (Some es')" "length es = length es'" "deepEntriesBy f es es'"
      using "6.prems"(2) Some by (auto split: gval.splits option.splits)
    then have "deepEntriesBy g es es'" unfolding deepEntries_iff using * by blast
    then show ?thesis using e Some by simp
  qed (use "6.prems" in simp)
qed (auto split: gval.splits)

lemma deep_nanFree: "nanFree v \<Longrightarrow> deepEqualBy floatSame v w = deepEqual v w"
  unfolding deepEqual_def nanFree_def list_all_iff
  by (auto intro: deep_change [of v floatSame floatEq w] deep_change [of v floatEq floatSame w] simp: floatSame_def)

lemma deepEqual_same: "deepEqual v w \<Longrightarrow> deepEqualBy floatSame v w"
  unfolding deepEqual_def by (rule deep_change [of v floatEq]) (simp_all add: floatSame_def)

lemma identity_same: "identityValueEqual ci v w \<Longrightarrow> deepEqualBy floatSame v w"
proof (induction v arbitrary: ci w rule: wf_value.induct)
  case (1 t u)
  then show ?case by (cases u) (auto dest: deepEqual_same split: option.splits gval.splits)
next
  case (2 t u)
  then show ?case by (cases u) (auto dest: deepEqual_same split: option.splits gval.splits)
next
  case (3 t us)
  then show ?case
    by (cases us) (auto simp: identityValues_iff deepEquals_iff dest: deepEqual_same split: option.splits gval.splits
        elim!: list.rel_mono_strong)
next
  case (4 t us)
  then show ?case
    by (auto simp: identityValues_iff deepEquals_iff dest: deepEqual_same split: gval.splits elim!: list.rel_mono_strong)
next
  case (5 t fs)
  have "identityValueEqual ci' (snd b) y \<Longrightarrow> deepEqualBy floatSame (snd b) y" if "b \<in> set fs" for ci' b y
    using "5.IH" [OF that, of "fst b" "snd b"] by simp
  then show ?case using "5.prems"
    by (auto simp: identityFields_iff deepFields_iff dest: deepEqual_same split: gval.splits elim!: list.rel_mono_strong)
next
  case (6 t m)
  then show ?case by (auto dest: deepEqual_same)
qed (auto simp: floatSame_def split: gval.splits)

lemma typeOf_deep: "deepEqualBy feq v w \<Longrightarrow> typeOf w = typeOf v"
  by (cases "(feq, v, w)" rule: deepEqualBy.cases) (auto simp: typeOf_def split: gval.splits option.splits)

lemma list_all2_in: "list_all2 P xs ys \<Longrightarrow> (\<And>x y. x \<in> set xs \<Longrightarrow> P x y \<Longrightarrow> Q x y) \<Longrightarrow> list_all2 Q xs ys"
  by (auto simp: list_all2_conv_all_nth)

lemma same_identity: "regular v \<Longrightarrow> deepEqualBy floatSame v w \<Longrightarrow> identityValueEqual True v w"
proof (induction v arbitrary: w rule: wf_value.induct)
  case (1 t u)
  then show ?case by (cases u) (auto simp: deepEqual_def typeOf_def split: option.splits gval.splits)
next
  case (2 t u)
  then show ?case by (cases u) (auto simp: deepEqual_def typeOf_def split: option.splits gval.splits)
next
  case (3 t us)
  show ?case
  proof (cases us)
    case (Some us')
    obtain ws where w: "w = SliceV t (Some ws)" "list_all2 (deepEqualBy floatSame) us' ws"
      using "3.prems"(2) by (auto simp: Some deepEquals_iff split: option.splits gval.splits)
    have "list_all2 (identityValueEqual True) us' ws"
      using "3.IH" [OF Some] "3.prems"(1) by (intro list_all2_in [OF w(2)]) (auto simp: Some list_all_iff)
    then show ?thesis using w by (auto simp: Some identityValues_iff list_all2_lengthD)
  qed (use "3.prems" in \<open>simp add: deepEqual_def typeOf_def\<close>)
next
  case (4 t us)
  obtain ws where w: "w = ArrayV t ws" "list_all2 (deepEqualBy floatSame) us ws"
    using "4.prems"(2) by (auto simp: deepEquals_iff split: gval.splits)
  have "list_all2 (identityValueEqual True) us ws"
    using "4.IH" "4.prems"(1) by (intro list_all2_in [OF w(2)]) (auto simp: list_all_iff)
  then show ?case using w by (auto simp: identityValues_iff list_all2_lengthD)
next
  case (5 t fs)
  obtain gs where w: "w = StructV t gs" "list_all2 (\<lambda>a b. deepEqualBy floatSame (snd a) (snd b)) fs gs"
    using "5.prems"(2) by (auto simp: deepFields_iff split: gval.splits)
  show ?case
  proof (cases "nanFree (StructV t fs)")
    case True
    then show ?thesis using "5.prems"(2) deep_nanFree [OF True, of w] w(1) by (simp add: typeOf_def)
  next
    case False
    then have r: "fst b \<and> regular (snd b)" if "b \<in> set fs" for b
      using "5.prems"(1) that by (auto simp: list_all_iff)
    have "deepEqualBy floatSame (snd b) y \<Longrightarrow> identityValueEqual True (snd b) y" if "b \<in> set fs" for b y
      using "5.IH" [OF that prod.collapse] r [OF that] by blast
    then have "list_all2 (\<lambda>a b. identityValueEqual (True \<and> fst a) (snd a) (snd b)) fs gs"
      using r by (intro list_all2_in [OF w(2)]) simp
    then show ?thesis using w(1) by (simp add: identityFields_iff)
  qed
next
  case (6 t m)
  then show ?case using deep_nanFree [of "MapV t m" w] typeOf_deep [of floatSame "MapV t m" w] by (simp add: typeOf_def)
qed (auto simp: floatSame_def split: gval.splits)

text \<open>The keys for which identity is an equivalence.\<close>

definition key_value :: "gval \<Rightarrow> bool" where
  "key_value v \<longleftrightarrow> wf_value v \<and> regular v"

lemma identity_iff_same: "key_value v \<Longrightarrow> identityValueEqual True v w \<longleftrightarrow> deepEqualBy floatSame v w"
  using identity_same same_identity unfolding key_value_def by blast

abbreviation row_key :: "gval list \<Rightarrow> bool" where
  "row_key \<equiv> list_all key_value"

lemma RowIdentityEqual_iff: "row_key a \<Longrightarrow> RowIdentityEqual a b \<longleftrightarrow> list_all2 (deepEqualBy floatSame) a b"
  unfolding RowIdentityEqual_def
  by (auto simp: identityValues_iff list_all2_conv_all_nth list_all_length identity_iff_same)

lemma row_identity_refl: "row_key a \<Longrightarrow> RowIdentityEqual a a"
  by (auto simp: RowIdentityEqual_iff list_all2_same list_all_iff key_value_def same.deep_refl)

lemma row_identity_sym: "row_key a \<Longrightarrow> row_key b \<Longrightarrow> RowIdentityEqual a b \<Longrightarrow> RowIdentityEqual b a"
  by (auto simp: RowIdentityEqual_iff list_all2_conv_all_nth list_all_length key_value_def same.deep_sym)

lemma row_identity_trans: "row_key a \<Longrightarrow> row_key b \<Longrightarrow> RowIdentityEqual a b \<Longrightarrow> RowIdentityEqual b c \<Longrightarrow> RowIdentityEqual a c"
  unfolding RowIdentityEqual_iff by (erule (1) list_all2_trans_in) (rule same.deep_trans)

text \<open>A map that holds a NaN is not even identical to itself.\<close>

lemma nan_in_map_has_no_identity:
  "\<not> RowIdentityEqual [MapV ''map[string]interface {}'' (Some [(StrS ''k'', FloatV ''float64'' 0x7FF8000000000001)])]
      [MapV ''map[string]interface {}'' (Some [(StrS ''k'', FloatV ''float64'' 0x7FF8000000000001)])]"
proof -
  have "isNaN 0x7FF8000000000001" by code_simp
  then show ?thesis by (simp add: RowIdentityEqual_def deepEqual_def floatEq_def)
qed

end
