(* ===== verification/PendingEdits.thy ===== *)
theory PendingEdits
  imports RowValue
begin

text \<open>
  Pending row edits (\<open>pkg/models/pending_edit.go\<close>, \<open>pkg/models/edit_identity.go\<close>): the physical
  identity of a row and its normalisation, and the set of staged edits of one table with staging,
  commit attempts, settlement, unknown outcomes and their reconciliation.

  A set's address is the field \<open>self\<close>: edits name their owner by it, and a commit attempt is
  known by the address of its snapshot, which is an argument of \<open>BeginCommit\<close> (the allocation).
  The snapshot's own edits are copied when the attempt begins, so what happens to the snapshot
  later is invisible.  The 64-bit revision is a natural number: a set would need \<open>2 ^ 64\<close> stagings
  to wrap it.  Times are integers.  Errors do not change the set; an operation that can fail
  returns the set with its error.
\<close>

section \<open>Physical row identity\<close>

datatype edit_error = ErrEmptyPrimaryKey | ErrCommitOutcomeUnknown | ErrCommitIdentityUnresolved
  | ErrCommitInFlight | ErrCommitSnapshotStale | ErrEditIdentityMismatch | ErrEditIdentityUnresolved

record IdentityColumn =
  Attnum :: nat
  ColName :: string

record EditIdentity =
  RelationOID :: nat
  Columns :: "IdentityColumn list"

definition noIdentity :: EditIdentity where
  "noIdentity = \<lparr>RelationOID = 0, Columns = []\<rparr>"

definition EditIdentity_Names :: "EditIdentity \<Rightarrow> string list" where
  "EditIdentity_Names i = map ColName (Columns i)"

text \<open>The loop over the columns; \<open>prior\<close> are the ones before.\<close>

fun columnsValid :: "IdentityColumn list \<Rightarrow> IdentityColumn list \<Rightarrow> bool" where
  "columnsValid prior [] \<longleftrightarrow> True"
| "columnsValid prior (c # cs) \<longleftrightarrow>
     Attnum c \<noteq> 0 \<and> ColName c \<noteq> '''' \<and>
     list_all (\<lambda>p. Attnum p \<noteq> Attnum c \<and> ColName p \<noteq> ColName c) prior \<and> columnsValid (prior @ [c]) cs"

definition EditIdentity_Validate :: "EditIdentity \<Rightarrow> edit_error option" where
  "EditIdentity_Validate i =
     (if RelationOID i = 0 \<or> Columns i = [] \<or> \<not> columnsValid [] (Columns i) then Some ErrEditIdentityUnresolved else None)"

definition Compatible :: "EditIdentity \<Rightarrow> EditIdentity \<Rightarrow> bool" where
  "Compatible i other \<longleftrightarrow>
     EditIdentity_Validate i = None \<and> EditIdentity_Validate other = None \<and> RelationOID i = RelationOID other \<and>
     length (Columns i) = length (Columns other) \<and> list_all (\<lambda>c. c \<in> set (Columns other)) (Columns i)"

text \<open>\<open>slices.Index\<close>: the first position of an element, \<open>-1\<close> when absent.\<close>

fun slicesIndex :: "'a list \<Rightarrow> 'a \<Rightarrow> int" where
  "slicesIndex [] x = -1"
| "slicesIndex (y # ys) x = (if y = x then 0 else let i = slicesIndex ys x in if i < 0 then -1 else i + 1)"

text \<open>Outer \<open>None\<close>: indexing with -1 panics.\<close>

fun mapGo :: "('a \<Rightarrow> 'b go) \<Rightarrow> 'a list \<Rightarrow> 'b list go" where
  "mapGo f [] = Some []"
| "mapGo f (x # xs) = do { y \<leftarrow> f x; ys \<leftarrow> mapGo f xs; Some (y # ys) }"

definition Normalize :: "EditIdentity \<Rightarrow> EditIdentity \<Rightarrow> gval list \<Rightarrow> (edit_error + gval list) go" where
  "Normalize i other vs =
     (if \<not> Compatible i other \<or> length vs \<noteq> length (Columns other) then Some (Inl ErrEditIdentityMismatch)
      else map_option Inr (mapGo (\<lambda>c. go_index vs (slicesIndex (Columns other) c)) (Columns i)))"

section \<open>Staged edits\<close>

datatype EditKind = Literal | Expression

type_synonym addr = nat

record PendingEdit =
  revision :: nat
  owner :: "addr option"
  e_identity :: EditIdentity
  PrimaryKey :: "gval list"
  Column :: string
  ColumnType :: string
  TypeOID :: nat
  OldValue :: gval
  NewValue :: gval
  NewExpr :: string
  Kind :: EditKind
  LoadedAt :: int

record ConflictedEdit =
  Edit :: PendingEdit
  ServerValue :: gval
  ServerLoadedAt :: int

text \<open>
  \<open>self\<close> is the set's own address, which edits and snapshots are matched by; a snapshot in flight
  is the address of the set \<open>BeginCommit\<close> returned.
\<close>

record PendingEditSet =
  self :: addr
  Table :: "string \<times> string"
  edits :: "PendingEdit list"
  nextRevision :: nat
  unknown :: "PendingEdit list"
  unknownOriginalPKs :: "gval list list"
  unknownResultPKs :: "gval list list"
  commitAttempt :: "addr option"
  commitEdits :: "PendingEdit list"
  s_identity :: EditIdentity

definition newSet :: "addr \<Rightarrow> string \<times> string \<Rightarrow> PendingEditSet" where
  "newSet a table = \<lparr>self = a, Table = table, edits = [], nextRevision = 0, unknown = [], unknownOriginalPKs = [],
     unknownResultPKs = [], commitAttempt = None, commitEdits = [], s_identity = noIdentity\<rparr>"

definition clonePendingEdit :: "PendingEdit \<Rightarrow> PendingEdit" where
  "clonePendingEdit e = e\<lparr>PrimaryKey := map clonePendingValue (PrimaryKey e),
     OldValue := (if OldValue e \<noteq> NilV then clonePendingValue (OldValue e) else OldValue e),
     NewValue := (if NewValue e \<noteq> NilV then clonePendingValue (NewValue e) else NewValue e)\<rparr>"

lemma clonePendingEdit_same [simp]: "clonePendingEdit e = e"
  by (simp add: clonePendingEdit_def)

definition sameCell :: "gval list \<Rightarrow> string \<Rightarrow> PendingEdit \<Rightarrow> bool" where
  "sameCell pk col e \<longleftrightarrow> Column e = col \<and> RowIdentityEqual (PrimaryKey e) pk"

section \<open>Staging\<close>

text \<open>Replacement in place at the first edit of the same cell.\<close>

fun replaceEdit :: "PendingEdit \<Rightarrow> PendingEdit list \<Rightarrow> PendingEdit list option" where
  "replaceEdit e [] = None"
| "replaceEdit e (x # xs) =
     (if Column x = Column e \<and> RowIdentityEqual (PrimaryKey x) (PrimaryKey e)
      then Some (x\<lparr>NewValue := NewValue e, NewExpr := NewExpr e, Kind := Kind e, revision := revision e, owner := owner e\<rparr> # xs)
      else map_option (\<lambda>ys. x # ys) (replaceEdit e xs))"

type_synonym staged = "PendingEditSet \<times> edit_error option"

definition addLocked :: "PendingEditSet \<Rightarrow> PendingEdit \<Rightarrow> staged" where
  "addLocked s e0 =
     (let bound = (RelationOID (s_identity s) \<noteq> 0);
          e1 = (if bound then e0\<lparr>e_identity := s_identity s\<rparr> else e0)
      in if bound \<and> length (PrimaryKey e0) \<noteq> length (Columns (s_identity s)) then (s, Some ErrEditIdentityMismatch)
         else if list_ex (\<lambda>a. RowIdentityEqual (PrimaryKey a) (PrimaryKey e1)) (commitEdits s) then (s, Some ErrCommitInFlight)
         else if list_ex (\<lambda>a. RowIdentityEqual (PrimaryKey a) (PrimaryKey e1)) (unknown s) then (s, Some ErrCommitOutcomeUnknown)
         else
           let r = nextRevision s + 1;
               e = (clonePendingEdit e1)\<lparr>owner := Some (self s), revision := r\<rparr>
           in (s\<lparr>nextRevision := r,
                 edits := (case replaceEdit e (edits s) of Some es \<Rightarrow> es | None \<Rightarrow> edits s @ [e])\<rparr>, None))"

definition Add :: "PendingEditSet \<Rightarrow> PendingEdit \<Rightarrow> staged" where
  "Add s e = (if PrimaryKey e = [] then (s, Some ErrEmptyPrimaryKey) else addLocked s e)"

definition quiescent :: "PendingEditSet \<Rightarrow> bool" where
  "quiescent s \<longleftrightarrow> edits s = [] \<and> commitAttempt s = None \<and> commitEdits s = [] \<and> unknown s = []"

definition BindIdentity :: "PendingEditSet \<Rightarrow> EditIdentity \<Rightarrow> staged" where
  "BindIdentity s i =
     (case EditIdentity_Validate i of
        Some err \<Rightarrow> (s, Some err)
      | None \<Rightarrow> if \<not> quiescent s then (s, Some ErrEditIdentityMismatch) else (s\<lparr>s_identity := i\<rparr>, None))"

text \<open>A panic of \<open>Normalize\<close> is \<open>None\<close>.\<close>

definition AddWithIdentity :: "PendingEditSet \<Rightarrow> EditIdentity \<Rightarrow> PendingEdit \<Rightarrow> staged go" where
  "AddWithIdentity s i e =
     (case EditIdentity_Validate i of
        Some err \<Rightarrow> Some (s, Some err)
      | None \<Rightarrow>
          if length (PrimaryKey e) \<noteq> length (Columns i) then Some (s, Some ErrEditIdentityMismatch)
          else if Column e = '''' then Some (s, Some ErrEditIdentityUnresolved)
          else if \<not> Compatible (s_identity s) i then
            (if \<not> quiescent s then Some (s, Some ErrEditIdentityMismatch)
             else Some (case addLocked (s\<lparr>s_identity := i\<rparr>) e of
                (s', Some err) \<Rightarrow> (s'\<lparr>s_identity := s_identity s\<rparr>, Some err)
              | (s', None) \<Rightarrow> (s', None)))
          else do {
            r \<leftarrow> Normalize (s_identity s) i (PrimaryKey e);
            Some (case r of
              Inl err \<Rightarrow> (s, Some err)
            | Inr pk \<Rightarrow> addLocked s (e\<lparr>PrimaryKey := pk, e_identity := s_identity s\<rparr>)) })"

definition removeLocked :: "PendingEditSet \<Rightarrow> gval list \<Rightarrow> string \<Rightarrow> PendingEditSet" where
  "removeLocked s pk col = s\<lparr>edits := removeFirst (sameCell pk col) (edits s)\<rparr>"

definition Remove :: "PendingEditSet \<Rightarrow> gval list \<Rightarrow> string \<Rightarrow> PendingEditSet" where
  "Remove s pk col = removeLocked s pk col"

definition RemoveWithIdentity :: "PendingEditSet \<Rightarrow> EditIdentity \<Rightarrow> gval list \<Rightarrow> string \<Rightarrow> staged go" where
  "RemoveWithIdentity s i pk0 col = do {
     r \<leftarrow> Normalize (s_identity s) i pk0;
     Some (case r of Inl err \<Rightarrow> (s, Some err) | Inr pk \<Rightarrow> (removeLocked s pk col, None)) }"

definition FindWithIdentity :: "PendingEditSet \<Rightarrow> EditIdentity \<Rightarrow> gval list \<Rightarrow> string \<Rightarrow> PendingEdit option go" where
  "FindWithIdentity s i pk0 col = do {
     r \<leftarrow> Normalize (s_identity s) i pk0;
     Some (case r of Inl err \<Rightarrow> None | Inr pk \<Rightarrow> map_option clonePendingEdit (find (sameCell pk col) (edits s))) }"

definition HasEdit :: "PendingEditSet \<Rightarrow> gval list \<Rightarrow> string \<Rightarrow> bool" where
  "HasEdit s pk col \<longleftrightarrow> list_ex (sameCell pk col) (edits s)"

definition Clear :: "PendingEditSet \<Rightarrow> PendingEditSet" where
  "Clear s = s\<lparr>edits := []\<rparr>"

definition IsEmpty :: "PendingEditSet \<Rightarrow> bool" where
  "IsEmpty s \<longleftrightarrow> edits s = []"

definition Count :: "PendingEditSet \<Rightarrow> int" where
  "Count s = len (edits s)"

definition Edits :: "PendingEditSet \<Rightarrow> PendingEdit list" where
  "Edits s = map clonePendingEdit (edits s)"

section \<open>Commit attempts\<close>

definition ownedBy :: "PendingEditSet \<Rightarrow> PendingEdit \<Rightarrow> PendingEdit \<Rightarrow> bool" where
  "ownedBy s attempt current \<longleftrightarrow> owner attempt = Some (self s) \<and> revision attempt \<noteq> 0 \<and> revision attempt = revision current"

text \<open>The versions a selection names, \<open>None\<close> when one of them is not current any more.\<close>

fun capture :: "PendingEditSet \<Rightarrow> PendingEdit list \<Rightarrow> PendingEdit list option" where
  "capture s [] = Some []"
| "capture s (a # as) =
     (case find (ownedBy s a) (edits s) of
        None \<Rightarrow> None
      | Some c \<Rightarrow> map_option (\<lambda>cs. clonePendingEdit c # cs) (capture s as))"

text \<open>\<open>a\<close> is the address of the new snapshot; a nil selection (\<open>None\<close>) means all edits.\<close>

definition BeginCommit :: "PendingEditSet \<Rightarrow> addr \<Rightarrow> PendingEdit list option \<Rightarrow> PendingEditSet \<times> (edit_error + PendingEditSet)" where
  "BeginCommit s a selected =
     (if commitAttempt s \<noteq> None then (s, Inl ErrCommitInFlight)
      else if unknown s \<noteq> [] then (s, Inl ErrCommitOutcomeUnknown)
      else
        let sel = (case selected of None \<Rightarrow> edits s | Some es \<Rightarrow> es) in
        if sel = [] then (s, Inl ErrCommitSnapshotStale)
        else case capture s sel of
            None \<Rightarrow> (s, Inl ErrCommitSnapshotStale)
          | Some cs \<Rightarrow>
              (let snap = (newSet a (Table s))\<lparr>s_identity := s_identity s, edits := cs\<rparr>
               in (s\<lparr>commitAttempt := Some a, commitEdits := Edits snap\<rparr>, Inr snap)))"

definition CommitInFlight :: "PendingEditSet \<Rightarrow> bool" where
  "CommitInFlight s \<longleftrightarrow> commitAttempt s \<noteq> None"

definition retire :: "PendingEditSet \<Rightarrow> PendingEdit list \<Rightarrow> PendingEditSet" where
  "retire s snapshot =
     s\<lparr>edits := filter (\<lambda>c. \<not> list_ex (\<lambda>a. revision c \<noteq> 0 \<and> revision c = revision a \<and> owner a = Some (self s)) snapshot) (edits s)\<rparr>"

text \<open>The surviving edits of rows whose key the commit changed get the new key and a new version.\<close>

fun rekey :: "(gval list \<times> gval list) list \<Rightarrow> nat \<Rightarrow> PendingEdit list \<Rightarrow> nat \<times> PendingEdit list" where
  "rekey ks n [] = (n, [])"
| "rekey ks n (e # es) =
     (case find (\<lambda>(orig, res). RowIdentityEqual (PrimaryKey e) orig \<and> \<not> RowIdentityEqual orig res) ks of
        None \<Rightarrow> (let (m, es') = rekey ks n es in (m, e # es'))
      | Some (orig, res) \<Rightarrow>
          (let (m, es') = rekey ks (n + 1) es
           in (m, e\<lparr>PrimaryKey := map clonePendingValue res, revision := n + 1\<rparr> # es')))"

definition retireCommitted :: "PendingEditSet \<Rightarrow> PendingEdit list \<Rightarrow> gval list list \<Rightarrow> gval list list \<Rightarrow> PendingEditSet" where
  "retireCommitted s snapshot originals results =
     (let s1 = retire s snapshot in
      if length originals \<noteq> length results then s1
      else let (n, es) = rekey (zip originals results) (nextRevision s1) (edits s1)
           in s1\<lparr>nextRevision := n, edits := es\<rparr>)"

text \<open>The receipt is the snapshot's address, \<open>None\<close> for the nil pointer.\<close>

definition SettleCommit :: "PendingEditSet \<Rightarrow> addr option \<Rightarrow> bool \<Rightarrow> bool \<Rightarrow> gval list list \<Rightarrow> gval list list \<Rightarrow> PendingEditSet" where
  "SettleCommit s receipt committed isUnknown originals results =
     (if receipt = None \<or> commitAttempt s \<noteq> receipt then s
      else
        let s1 = (if committed then retireCommitted s (commitEdits s) originals results
                  else if isUnknown then s\<lparr>unknown := unknown s @ commitEdits s,
                    unknownOriginalPKs := map (map clonePendingValue) originals,
                    unknownResultPKs := map (map clonePendingValue) results\<rparr>
                  else s)
        in s1\<lparr>commitAttempt := None, commitEdits := []\<rparr>)"

definition DiscardOwned :: "PendingEditSet \<Rightarrow> PendingEdit list \<Rightarrow> staged" where
  "DiscardOwned s selected =
     (if commitAttempt s \<noteq> None then (s, Some ErrCommitInFlight)
      else if unknown s \<noteq> [] then (s, Some ErrCommitOutcomeUnknown)
      else if \<not> list_all (\<lambda>a. list_ex (ownedBy s a) (edits s)) selected then (s, Some ErrCommitSnapshotStale)
      else (foldl (\<lambda>s e. removeLocked s (PrimaryKey e) (Column e)) s selected, None))"

definition Retire :: "PendingEditSet \<Rightarrow> PendingEdit list \<Rightarrow> PendingEditSet" where
  "Retire s snapshot = retire s snapshot"

definition RetireCommitted :: "PendingEditSet \<Rightarrow> PendingEdit list \<Rightarrow> gval list list \<Rightarrow> gval list list \<Rightarrow> PendingEditSet" where
  "RetireCommitted s snapshot originals results = retireCommitted s snapshot originals results"

section \<open>Unknown outcomes\<close>

definition MarkCommitUnknown :: "PendingEditSet \<Rightarrow> PendingEdit list \<Rightarrow> gval list list \<Rightarrow> gval list list \<Rightarrow> PendingEditSet" where
  "MarkCommitUnknown s snapshot originals results =
     s\<lparr>unknown := unknown s @ map clonePendingEdit snapshot,
       unknownOriginalPKs := unknownOriginalPKs s @ map (map clonePendingValue) originals,
       unknownResultPKs := unknownResultPKs s @ map (map clonePendingValue) results\<rparr>"

definition CommitUnknownIdentities :: "PendingEditSet \<Rightarrow> gval list list \<times> gval list list" where
  "CommitUnknownIdentities s = (map (map clonePendingValue) (unknownOriginalPKs s), map (map clonePendingValue) (unknownResultPKs s))"

definition CommitOutcomeUnknown :: "PendingEditSet \<Rightarrow> bool" where
  "CommitOutcomeUnknown s \<longleftrightarrow> unknown s \<noteq> []"

text \<open>The loop over the pairs of keys; \<open>os\<close> and \<open>rs\<close> are the ones before.\<close>

fun identitiesValid :: "PendingEdit list \<Rightarrow> gval list list \<Rightarrow> gval list list \<Rightarrow> (gval list \<times> gval list) list \<Rightarrow> bool" where
  "identitiesValid es os rs [] \<longleftrightarrow> True"
| "identitiesValid es os rs ((pk, res) # ks) \<longleftrightarrow>
     pk \<noteq> [] \<and> length pk = length res \<and>
     list_ex (\<lambda>e. RowIdentityEqual pk (PrimaryKey e)) es \<and>
     NilV \<notin> set res \<and>
     list_all (\<lambda>other. \<not> RowIdentityEqual pk other) os \<and>
     list_all (\<lambda>other. \<not> RowIdentityEqual res other) rs \<and>
     identitiesValid es (os @ [pk]) (rs @ [res]) ks"

definition validCommitIdentities :: "PendingEdit list \<Rightarrow> gval list list \<Rightarrow> gval list list \<Rightarrow> bool" where
  "validCommitIdentities es originals results \<longleftrightarrow>
     length originals = length results \<and> identitiesValid es [] [] (zip originals results) \<and>
     list_all (\<lambda>e. list_ex (\<lambda>pk. RowIdentityEqual pk (PrimaryKey e)) originals) es"

definition ReconcileCommitOutcome :: "PendingEditSet \<Rightarrow> bool \<Rightarrow> staged" where
  "ReconcileCommitOutcome s committed =
     (let settled = (\<lambda>s. s\<lparr>unknown := [], unknownOriginalPKs := [], unknownResultPKs := []\<rparr>) in
      if commitAttempt s \<noteq> None then (s, Some ErrCommitInFlight)
      else if committed then
        (if \<not> validCommitIdentities (unknown s) (unknownOriginalPKs s) (unknownResultPKs s) then (s, Some ErrCommitIdentityUnresolved)
         else (settled (retireCommitted s (unknown s) (unknownOriginalPKs s) (unknownResultPKs s)), None))
      else (settled s, None))"

end
