(* ===== verification/PendingEditsSpec.thy ===== *)
theory PendingEditsSpec
  imports PendingEdits
begin

text \<open>
  What the pending edit set promises: key values are permuted, never lost, by normalisation; the
  staged edits are a map from cells to edits (through the locale \<open>cell_list\<close>); a version that a
  commit reported committed never comes back; and an unknown outcome blocks everything that could
  commit or discard until it is reconciled.
\<close>

section \<open>Lists of cells\<close>

text \<open>
  A list searched from the front by a key that is compared with an equivalence, whose first match
  is replaced or removed: what the client sees is a map, as long as no two elements match.
\<close>

locale cell_list =
  fixes cell :: "'e \<Rightarrow> 'k" and eq :: "'k \<Rightarrow> 'k \<Rightarrow> bool" and good :: "'k \<Rightarrow> bool"
  assumes eq_refl: "good k \<Longrightarrow> eq k k" and eq_sym: "good k \<Longrightarrow> good l \<Longrightarrow> eq k l \<Longrightarrow> eq l k"
    and eq_trans: "good k \<Longrightarrow> good l \<Longrightarrow> eq k l \<Longrightarrow> eq l n \<Longrightarrow> eq k n"
begin

abbreviation match_at :: "'k \<Rightarrow> 'e \<Rightarrow> bool" where
  "match_at k e \<equiv> eq (cell e) k"

abbreviation at :: "'k \<Rightarrow> 'e list \<Rightarrow> 'e option" where
  "at k es \<equiv> find (match_at k) es"

definition separate :: "'e list \<Rightarrow> bool" where
  "separate es \<longleftrightarrow> list_all (\<lambda>e. good (cell e)) es \<and> sorted_wrt (\<lambda>a b. \<not> eq (cell a) (cell b)) es"

lemma at_cong: "good k \<Longrightarrow> good l \<Longrightarrow> eq k l \<Longrightarrow> list_all (\<lambda>e. good (cell e)) es \<Longrightarrow> at k es = at l es"
proof (induction es)
  case (Cons e es)
  then have "match_at k e \<longleftrightarrow> match_at l e" using eq_trans [of "cell e" k l] eq_trans [of "cell e" l k] eq_sym [of k l] by auto
  with Cons show ?case by simp
qed simp

lemma at_None: "at k es = None \<longleftrightarrow> \<not> list_ex (match_at k) es"
  by (induction es) auto

lemma separate_sub: "separate (xs @ ys @ zs) \<Longrightarrow> separate (xs @ zs)"
  by (auto simp: separate_def sorted_wrt_append)

text \<open>Putting an element: in place of the first match, which keeps its cell, or at the end.\<close>

lemma at_put:
  assumes "separate es" "good k" "good l"
  shows "es = ys @ x # zs \<Longrightarrow> \<not> list_ex (match_at k) ys \<Longrightarrow> match_at k x \<Longrightarrow> cell x' = cell x \<Longrightarrow>
      at l (ys @ x' # zs) = (if eq k l then Some x' else at l es)"
    and "\<not> list_ex (match_at k) es \<Longrightarrow> eq (cell e) k \<Longrightarrow> good (cell e) \<Longrightarrow>
      at l (es @ [e]) = (if eq k l then Some e else at l es)"
proof -
  have gl: "list_all (\<lambda>e. good (cell e)) es" using assms(1) by (simp add: separate_def)
  { assume es: "es = ys @ x # zs" and ys: "\<not> list_ex (match_at k) ys" and x: "match_at k x" "cell x' = cell x"
    have gx: "good (cell x)" "list_all (\<lambda>e. good (cell e)) ys" using gl es by simp_all
    show "at l (ys @ x' # zs) = (if eq k l then Some x' else at l es)"
    proof (cases "eq k l")
      case True
      then have "at l ys = None" using at_cong [OF assms(2,3) True gx(2)] ys unfolding at_None [symmetric] by simp
      moreover have "match_at l x" using eq_trans [OF gx(1) assms(2) x(1) True] .
      ultimately show ?thesis using True x(2) by (simp add: find_append)
    next
      case False
      then have "\<not> match_at l x" using eq_trans [of k "cell x" l] eq_sym [OF gx(1) assms(2) x(1)] gx(1) assms(2) by blast
      then show ?thesis using False x(2) by (simp add: es find_append split: option.split)
    qed }
  { assume none: "\<not> list_ex (match_at k) es" and e: "eq (cell e) k" "good (cell e)"
    show "at l (es @ [e]) = (if eq k l then Some e else at l es)"
    proof (cases "eq k l")
      case True
      then have "at l es = None" using at_cong [OF assms(2,3) True gl] none unfolding at_None [symmetric] by simp
      then show ?thesis using True eq_trans [OF e(2) assms(2) e(1) True] by (simp add: find_append)
    next
      case False
      then have "\<not> eq (cell e) l" using eq_trans [of k "cell e" l] eq_sym [OF e(2) assms(2) e(1)] e(2) assms(2) by blast
      then show ?thesis using False by (simp add: find_append split: option.split)
    qed }
qed

lemma at_remove:
  assumes "separate es" "good k" "good l"
  shows "at l (removeFirst (match_at k) es) = (if eq k l then None else at l es)"
  using assms(1)
proof (induction es)
  case (Cons e es)
  have g: "good (cell e)" "list_all (\<lambda>e. good (cell e)) es" using Cons.prems by (simp_all add: separate_def)
  have sep: "separate es" using Cons.prems by (simp add: separate_def)
  show ?case
  proof (cases "match_at k e")
    case True
    have none: "at k es = None"
    proof -
      have "\<not> eq (cell f) k" if "f \<in> set es" for f
      proof
        assume "eq (cell f) k"
        moreover have "good (cell f)" using g(2) that by (simp add: list_all_iff)
        ultimately have "eq k (cell f)" using eq_sym assms(2) by blast
        then have "eq (cell e) (cell f)" using eq_trans [OF g(1) assms(2) True] by blast
        then show False using Cons.prems that by (simp add: separate_def)
      qed
      then show ?thesis unfolding at_None by (simp add: list_ex_iff)
    qed
    show ?thesis
    proof (cases "eq k l")
      case t: True
      then show ?thesis using True at_cong [OF assms(2,3) t g(2)] none by simp
    next
      case False
      then have "\<not> match_at l e" using eq_trans [of k "cell e" l] eq_sym [OF g(1) assms(2) True] g(1) assms(2) by blast
      then show ?thesis using False True by simp
    qed
  next
    case False
    have "\<not> (match_at l e \<and> eq k l)" using False eq_trans [of "cell e" l k] eq_sym [OF assms(2,3)] g(1) assms(3) by blast
    then show ?thesis using Cons.IH [OF sep] False by auto
  qed
qed simp

end

text \<open>A cell is a row and a column; rows are compared by \<open>RowIdentityEqual\<close>.\<close>

definition cellOf :: "PendingEdit \<Rightarrow> gval list \<times> string" where
  "cellOf e = (PrimaryKey e, Column e)"

definition cellEq :: "gval list \<times> string \<Rightarrow> gval list \<times> string \<Rightarrow> bool" where
  "cellEq a b \<longleftrightarrow> RowIdentityEqual (fst a) (fst b) \<and> snd a = snd b"

interpretation cells: cell_list cellOf cellEq "\<lambda>k. row_key (fst k)"
  by unfold_locales (auto simp: cellEq_def intro: row_identity_refl row_identity_sym row_identity_trans)

lemma sameCell_iff: "sameCell pk col = cells.match_at (pk, col)"
  by (auto simp: sameCell_def cellOf_def cellEq_def fun_eq_iff)

abbreviation editAt :: "PendingEditSet \<Rightarrow> gval list \<Rightarrow> string \<Rightarrow> PendingEdit option" where
  "editAt s pk col \<equiv> find (sameCell pk col) (edits s)"

section \<open>Normalising a row identity\<close>

lemma columnsValid_distinct:
  "columnsValid prior cs \<Longrightarrow> distinct cs \<and> set prior \<inter> set cs = {} \<and> (\<forall>c \<in> set cs. \<forall>p \<in> set prior. p \<noteq> c)"
proof (induction cs arbitrary: prior)
  case (Cons c cs)
  then show ?case using Cons.IH [of "prior @ [c]"] by (fastforce simp: list_all_iff)
qed simp

lemma Validate_distinct: "EditIdentity_Validate i = None \<Longrightarrow> distinct (Columns i)"
  using columnsValid_distinct [of "[]" "Columns i"] by (simp add: EditIdentity_Validate_def split: if_splits)

lemma slicesIndex_in: "x \<in> set ys \<Longrightarrow> 0 \<le> slicesIndex ys x \<and> slicesIndex ys x < len ys \<and> ys ! nat (slicesIndex ys x) = x"
  by (induction ys) (auto simp: Let_def nat_add_distrib)

lemma slicesIndex_nth: "distinct ys \<Longrightarrow> n < length ys \<Longrightarrow> slicesIndex ys (ys ! n) = int n"
proof -
  assume a: "distinct ys" "n < length ys"
  then have i: "ys ! nat (slicesIndex ys (ys ! n)) = ys ! n" "nat (slicesIndex ys (ys ! n)) < length ys" "0 \<le> slicesIndex ys (ys ! n)"
    using slicesIndex_in [OF nth_mem [OF a(2)]] by (blast, linarith, blast)
  then have "nat (slicesIndex ys (ys ! n)) = n" using a nth_eq_iff_index_eq [OF a(1) i(2) a(2)] by blast
  then show ?thesis using i(3) by linarith
qed

lemma mapGo_Some: "(\<And>x. x \<in> set xs \<Longrightarrow> f x = Some (g x)) \<Longrightarrow> mapGo f xs = Some (map g xs)"
  by (induction xs) simp_all

lemma Compatible_sets: "Compatible i j \<Longrightarrow> set (Columns i) = set (Columns j) \<and> distinct (Columns i) \<and> distinct (Columns j) \<and>
    length (Columns i) = length (Columns j)"
proof -
  assume c: "Compatible i j"
  then have d: "distinct (Columns i)" "distinct (Columns j)" "length (Columns i) = length (Columns j)"
      "set (Columns i) \<subseteq> set (Columns j)"
    by (auto simp: Compatible_def list_all_iff intro: Validate_distinct)
  then have "set (Columns i) = set (Columns j)" by (metis card_subset_eq distinct_card finite_set)
  with d show ?thesis by simp
qed

lemma Compatible_flip:
  assumes "Compatible i j"
  shows "Compatible j i"
proof -
  have "set (Columns i) = set (Columns j)" using Compatible_sets [OF assms] by blast
  then have "list_all (\<lambda>c. c \<in> set (Columns i)) (Columns j)" by (simp add: list_all_iff)
  then show ?thesis using assms unfolding Compatible_def by (simp only: simp_thms)
qed

lemma Compatible_sym: "Compatible i j \<longleftrightarrow> Compatible j i"
  using Compatible_flip by blast

text \<open>The value a row has in a column under an identity's order.\<close>

definition valueOf :: "EditIdentity \<Rightarrow> gval list \<Rightarrow> IdentityColumn \<Rightarrow> gval option" where
  "valueOf i vs c = map_of (zip (Columns i) vs) c"

definition normalized :: "EditIdentity \<Rightarrow> EditIdentity \<Rightarrow> gval list \<Rightarrow> gval list" where
  "normalized i other vs = map (\<lambda>c. vs ! nat (slicesIndex (Columns other) c)) (Columns i)"

lemma Normalize_total:
  "Normalize i other vs = Some (if Compatible i other \<and> length vs = length (Columns other)
     then Inr (normalized i other vs) else Inl ErrEditIdentityMismatch)"
proof (cases "Compatible i other \<and> length vs = length (Columns other)")
  case True
  have "go_index vs (slicesIndex (Columns other) c) = Some (vs ! nat (slicesIndex (Columns other) c))" if "c \<in> set (Columns i)" for c
    using slicesIndex_in [of c "Columns other"] that True Compatible_sets [of i other] by (simp add: go_index_in)
  then have "mapGo (\<lambda>c. go_index vs (slicesIndex (Columns other) c)) (Columns i) = Some (normalized i other vs)"
    unfolding normalized_def by (rule mapGo_Some)
  then show ?thesis using True by (simp add: Normalize_def)
qed (auto simp: Normalize_def)

lemma nth_normalized:
  "Compatible i other \<Longrightarrow> length vs = length (Columns other) \<Longrightarrow> n < length (Columns i) \<Longrightarrow> m < length (Columns other) \<Longrightarrow>
   Columns i ! n = Columns other ! m \<Longrightarrow> normalized i other vs ! n = vs ! m"
  using Compatible_sets [of i other] slicesIndex_nth [of "Columns other" m] by (simp add: normalized_def)

lemma valueOf_nth: "distinct (Columns i) \<Longrightarrow> length vs = length (Columns i) \<Longrightarrow> n < length vs \<Longrightarrow> valueOf i vs (Columns i ! n) = Some (vs ! n)"
  by (simp add: valueOf_def map_of_zip_nth)

lemma normalized_value:
  assumes "Compatible i other" "length vs = length (Columns other)"
  shows "valueOf i (normalized i other vs) c = valueOf other vs c"
proof (cases "c \<in> set (Columns other)")
  case True
  note s = Compatible_sets [OF assms(1)]
  obtain n m where n: "n < length (Columns i)" "Columns i ! n = c" and m: "m < length (Columns other)" "Columns other ! m = c"
    using True s by (metis in_set_conv_nth)
  have "valueOf i (normalized i other vs) (Columns i ! n) = Some (normalized i other vs ! n)"
    using s n by (intro valueOf_nth) (simp_all add: normalized_def)
  moreover have "valueOf other vs (Columns other ! m) = Some (vs ! m)"
    using s m assms(2) by (intro valueOf_nth) simp_all
  ultimately show ?thesis using nth_normalized [OF assms n(1) m(1)] n m by simp
next
  case False
  then have "valueOf i ws c = None" "valueOf other vs c = None" for ws
    using Compatible_sets [OF assms(1)] by (auto simp: valueOf_def map_of_eq_None_iff dest: set_zip_leftD)
  then show ?thesis by simp
qed

lemma normalized_back:
  assumes "Compatible i other" "length vs = length (Columns other)"
  shows "normalized other i (normalized i other vs) = vs"
proof (rule nth_equalityI)
  note s = Compatible_sets [OF assms(1)]
  show "length (normalized other i (normalized i other vs)) = length vs" using assms(2) by (simp add: normalized_def)
  fix m assume "m < length (normalized other i (normalized i other vs))"
  then have m: "m < length (Columns other)" by (simp add: normalized_def)
  then obtain n where n: "n < length (Columns i)" "Columns i ! n = Columns other ! m" using s by (metis in_set_conv_nth nth_mem)
  then show "normalized other i (normalized i other vs) ! m = vs ! m"
    using nth_normalized [OF assms n(1) m n(2)]
      nth_normalized [of other i "normalized i other vs" m n] m n assms Compatible_sym [of i other] by (simp add: normalized_def)
qed

text \<open>
  Normalising key values keeps what each column holds: it never panics, it fails exactly when
  the two identities are not the same columns of the same relation (a symmetric relation) or the
  number of values is wrong, the value of every column is unchanged, and normalising back gives
  the original row.
\<close>

theorem normalize_roundtrip:
  "(\<not> (Compatible i other \<and> length vs = length (Columns other)) \<and> Normalize i other vs = Some (Inl ErrEditIdentityMismatch)) \<or>
   (\<exists>ws. Compatible i other \<and> Compatible other i \<and> Normalize i other vs = Some (Inr ws) \<and> (\<forall>c. valueOf i ws c = valueOf other vs c) \<and>
      Normalize other i ws = Some (Inr vs))"
proof (cases "Compatible i other \<and> length vs = length (Columns other)")
  case True
  then have "length (normalized i other vs) = length (Columns i)" "Compatible other i"
    using Compatible_sym [of i other] by (simp_all add: normalized_def)
  then show ?thesis
    using True normalized_value [of i other vs] normalized_back [of i other vs] by (simp add: Normalize_total)
next
  case False
  then show ?thesis unfolding Normalize_total by (simp only: if_False simp_thms)
qed

definition sample_columns :: "IdentityColumn list" where
  "sample_columns = [\<lparr>Attnum = 1, ColName = ''tenant''\<rparr>, \<lparr>Attnum = 2, ColName = ''id''\<rparr>]"

theorem normalize_roundtrip_witness:
  "\<exists>ws. Normalize \<lparr>RelationOID = 7, Columns = sample_columns\<rparr> \<lparr>RelationOID = 7, Columns = rev sample_columns\<rparr>
     [ScalarV ''int64'' (IntS 5), ScalarV ''string'' (StrS ''acme'')] = Some (Inr ws) \<and>
   valueOf \<lparr>RelationOID = 7, Columns = sample_columns\<rparr> ws \<lparr>Attnum = 2, ColName = ''id''\<rparr> = Some (ScalarV ''int64'' (IntS 5))"
proof -
  let ?i = "\<lparr>RelationOID = 7, Columns = sample_columns\<rparr>" and ?j = "\<lparr>RelationOID = 7, Columns = rev sample_columns\<rparr>"
  have "Compatible ?i ?j" by (simp add: Compatible_def EditIdentity_Validate_def sample_columns_def)
  then show ?thesis
    using normalize_roundtrip [of ?i ?j "[ScalarV ''int64'' (IntS 5), ScalarV ''string'' (StrS ''acme'')]"]
    by (auto simp: sample_columns_def valueOf_def)
qed

section \<open>Staging\<close>

text \<open>
  A set keeps its edits as its own, each version once and none newer than its counter, no two on
  one cell; while no commit is in flight none is remembered.
\<close>

definition set_ok :: "PendingEditSet \<Rightarrow> bool" where
  "set_ok s \<longleftrightarrow>
     list_all (\<lambda>e. owner e = Some (self s) \<and> 0 < revision e \<and> revision e \<le> nextRevision s) (edits s) \<and>
     distinct (map revision (edits s)) \<and>
     list_all (\<lambda>e. owner e = Some (self s) \<and> 0 < revision e \<and> revision e \<le> nextRevision s) (commitEdits s) \<and>
     (commitAttempt s = None \<longrightarrow> commitEdits s = [])"

definition cells_ok :: "PendingEditSet \<Rightarrow> bool" where
  "cells_ok s \<longleftrightarrow> cells.separate (edits s)"

lemma newSet_ok [simp]: "set_ok (newSet a t)" "cells_ok (newSet a t)"
  by (simp_all add: set_ok_def cells_ok_def newSet_def cells.separate_def)

lemma replaceEdit_None: "replaceEdit e es = None \<longleftrightarrow> \<not> list_ex (sameCell (PrimaryKey e) (Column e)) es"
  by (induction es) (auto simp: sameCell_def)

definition replaced :: "PendingEdit \<Rightarrow> PendingEdit \<Rightarrow> PendingEdit" where
  "replaced e x = x\<lparr>NewValue := NewValue e, NewExpr := NewExpr e, Kind := Kind e, revision := revision e, owner := owner e\<rparr>"

lemma replaceEdit_Some:
  "replaceEdit e es = Some es' \<Longrightarrow> \<exists>ys x zs. es = ys @ x # zs \<and> es' = ys @ replaced e x # zs \<and>
     \<not> list_ex (sameCell (PrimaryKey e) (Column e)) ys \<and> sameCell (PrimaryKey e) (Column e) x"
proof (induction es arbitrary: es')
  case (Cons x es)
  show ?case
  proof (cases "sameCell (PrimaryKey e) (Column e) x")
    case True
    then show ?thesis using Cons.prems by (auto simp: sameCell_def replaced_def intro!: exI [of _ "[]"])
  next
    case False
    then obtain es1 where "replaceEdit e es = Some es1" "es' = x # es1" using Cons.prems by (auto simp: sameCell_def split: if_splits)
    then obtain ys y zs where "es = ys @ y # zs" "es1 = ys @ replaced e y # zs"
        "\<not> list_ex (sameCell (PrimaryKey e) (Column e)) ys" "sameCell (PrimaryKey e) (Column e) y"
      using Cons.IH [of es1] by blast
    then show ?thesis using False \<open>es' = x # es1\<close> by (intro exI [of _ "x # ys"]) auto
  qed
qed simp

text \<open>What a successful staging does, in two cases.\<close>

definition stagedEdit :: "PendingEditSet \<Rightarrow> PendingEdit \<Rightarrow> PendingEdit" where
  "stagedEdit s e = e\<lparr>e_identity := (if RelationOID (s_identity s) \<noteq> 0 then s_identity s else e_identity e),
     owner := Some (self s), revision := nextRevision s + 1\<rparr>"

lemma addLocked_eq:
  "addLocked s e =
     (if RelationOID (s_identity s) \<noteq> 0 \<and> length (PrimaryKey e) \<noteq> length (Columns (s_identity s)) then (s, Some ErrEditIdentityMismatch)
      else if list_ex (\<lambda>a. RowIdentityEqual (PrimaryKey a) (PrimaryKey e)) (commitEdits s) then (s, Some ErrCommitInFlight)
      else if list_ex (\<lambda>a. RowIdentityEqual (PrimaryKey a) (PrimaryKey e)) (unknown s) then (s, Some ErrCommitOutcomeUnknown)
      else (s\<lparr>nextRevision := nextRevision s + 1,
          edits := (case replaceEdit (stagedEdit s e) (edits s) of Some es \<Rightarrow> es | None \<Rightarrow> edits s @ [stagedEdit s e])\<rparr>, None))"
proof (cases "RelationOID (s_identity s) = 0")
  case True
  then have "stagedEdit s e = e\<lparr>owner := Some (self s), revision := nextRevision s + 1\<rparr>" by (simp add: stagedEdit_def)
  then show ?thesis using True by (simp add: addLocked_def Let_def cong: option.case_cong)
next
  case False
  then have "stagedEdit s e = e\<lparr>e_identity := s_identity s, owner := Some (self s), revision := nextRevision s + 1\<rparr>"
    by (simp add: stagedEdit_def)
  then show ?thesis using False by (simp add: addLocked_def Let_def cong: option.case_cong)
qed

lemma addLocked_cases:
  assumes "addLocked s e = (s', err)"
  obtains
    (failed) x where "err = Some x" "s' = s"
  | (inserted) "err = None" "s' = s\<lparr>nextRevision := nextRevision s + 1, edits := edits s @ [stagedEdit s e]\<rparr>"
      "\<not> list_ex (sameCell (PrimaryKey e) (Column e)) (edits s)"
      "\<not> list_ex (\<lambda>a. RowIdentityEqual (PrimaryKey a) (PrimaryKey e)) (commitEdits s @ unknown s)"
  | (updated) ys x zs where "err = None" "edits s = ys @ x # zs" "\<not> list_ex (sameCell (PrimaryKey e) (Column e)) ys"
      "sameCell (PrimaryKey e) (Column e) x"
      "s' = s\<lparr>nextRevision := nextRevision s + 1, edits := ys @ replaced (stagedEdit s e) x # zs\<rparr>"
      "\<not> list_ex (\<lambda>a. RowIdentityEqual (PrimaryKey a) (PrimaryKey e)) (commitEdits s @ unknown s)"
proof -
  let ?e = "stagedEdit s e"
  have pk: "PrimaryKey ?e = PrimaryKey e" "Column ?e = Column e" by (simp_all add: stagedEdit_def)
  consider "\<exists>x. err = Some x \<and> s' = s"
    | "err = None" "s' = s\<lparr>nextRevision := nextRevision s + 1, edits := (case replaceEdit ?e (edits s) of Some es \<Rightarrow> es | None \<Rightarrow> edits s @ [?e])\<rparr>"
      "\<not> list_ex (\<lambda>a. RowIdentityEqual (PrimaryKey a) (PrimaryKey e)) (commitEdits s @ unknown s)"
    using assms unfolding addLocked_eq by (auto split: if_splits)
  then show thesis
  proof cases
    case 1
    then show thesis using failed by blast
  next
    case 2
    show thesis
    proof (cases "replaceEdit ?e (edits s)")
      case None
      then show thesis using 2 inserted replaceEdit_None [of ?e "edits s"] by (simp add: pk)
    next
      case (Some es')
      then show thesis using 2 updated replaceEdit_Some [OF Some] pk by auto
    qed
  qed
qed

lemma stagedEdit_cell [simp]: "cellOf (stagedEdit s e) = cellOf e" "cellOf (replaced e x) = cellOf x"
  by (simp_all add: stagedEdit_def replaced_def cellOf_def)

lemma addLocked_cells:
  assumes "cells_ok s" "row_key (PrimaryKey e)" "addLocked s e = (s', err)"
  shows "cells_ok s'"
  using assms(3)
proof (cases rule: addLocked_cases)
  case inserted
  then show ?thesis using assms(1,2) unfolding sameCell_iff
    by (auto simp: cells_ok_def cells.separate_def sorted_wrt_append list_ex_iff cellOf_def [of e])
next
  case (updated ys x zs)
  then show ?thesis using assms(1) by (simp add: cells_ok_def cells.separate_def sorted_wrt_append)
qed (use assms(1) in simp)

lemma addLocked_at:
  assumes "cells_ok s" "row_key (PrimaryKey e)" "row_key pk" "addLocked s e = (s', None)"
  shows "editAt s' pk col =
      (if cellEq (cellOf e) (pk, col)
       then Some (case editAt s (PrimaryKey e) (Column e) of None \<Rightarrow> stagedEdit s e | Some x \<Rightarrow> replaced (stagedEdit s e) x)
       else editAt s pk col)"
    and "len (edits s') = len (edits s) + (if HasEdit s (PrimaryKey e) (Column e) then 0 else 1)"
proof -
  have sep: "cells.separate (edits s)" using assms(1) by (simp add: cells_ok_def)
  have k: "row_key (fst (cellOf e))" "row_key (fst (pk, col))" "cellOf e = (PrimaryKey e, Column e)"
    using assms(2,3) by (simp_all add: cellOf_def)
  have "(editAt s' pk col =
      (if cellEq (cellOf e) (pk, col)
       then Some (case editAt s (PrimaryKey e) (Column e) of None \<Rightarrow> stagedEdit s e | Some x \<Rightarrow> replaced (stagedEdit s e) x)
       else editAt s pk col)) \<and> len (edits s') = len (edits s) + (if HasEdit s (PrimaryKey e) (Column e) then 0 else 1)"
    using assms(4)
  proof (cases rule: addLocked_cases)
    case inserted
    have none: "editAt s (PrimaryKey e) (Column e) = None" "\<not> HasEdit s (PrimaryKey e) (Column e)"
      using inserted(3) unfolding sameCell_iff k(3) [symmetric] HasEdit_def cells.at_None by simp_all
    have "cells.at (pk, col) (edits s @ [stagedEdit s e]) =
        (if cellEq (cellOf e) (pk, col) then Some (stagedEdit s e) else cells.at (pk, col) (edits s))"
      using cells.at_put(2) [OF sep k(1,2), of "stagedEdit s e"] inserted(3) k(1) cells.eq_refl [OF k(1)]
      unfolding sameCell_iff k(3) [symmetric] by simp
    then show ?thesis using inserted(2) none unfolding sameCell_iff by simp
  next
    case (updated ys x zs)
    have "editAt s (PrimaryKey e) (Column e) = Some x"
      using updated(2-4) unfolding sameCell_iff k(3) [symmetric] cells.at_None [symmetric] by (simp add: find_append)
    moreover have "HasEdit s (PrimaryKey e) (Column e)" using updated(2,4) by (simp add: HasEdit_def)
    moreover have "cells.at (pk, col) (ys @ replaced (stagedEdit s e) x # zs) =
        (if cellEq (cellOf e) (pk, col) then Some (replaced (stagedEdit s e) x) else cells.at (pk, col) (edits s))"
      using cells.at_put(1) [OF sep k(1,2) updated(2)] updated(3,4) unfolding sameCell_iff k(3) [symmetric] by simp
    ultimately show ?thesis using updated(2,5) unfolding sameCell_iff by simp
  qed simp_all
  then show "editAt s' pk col =
      (if cellEq (cellOf e) (pk, col)
       then Some (case editAt s (PrimaryKey e) (Column e) of None \<Rightarrow> stagedEdit s e | Some x \<Rightarrow> replaced (stagedEdit s e) x)
       else editAt s pk col)"
    "len (edits s') = len (edits s) + (if HasEdit s (PrimaryKey e) (Column e) then 0 else 1)" by blast+
qed

lemma Remove_cells: "cells_ok s \<Longrightarrow> cells_ok (Remove s pk col)"
  using removeFirst_sub [of "edits s" "sameCell pk col"] cells.separate_sub
  unfolding cells_ok_def Remove_def removeLocked_def by (metis PendingEditSet.select_convs(3) PendingEditSet.surjective PendingEditSet.update_convs(3))


section \<open>Runs of a set\<close>

text \<open>
  Every operation of the interface as a step; the label is the receipt of a settlement.  The
  address of a new snapshot is any address.
\<close>

inductive pes_step :: "addr option \<Rightarrow> PendingEditSet \<Rightarrow> PendingEditSet \<Rightarrow> bool" where
  add: "pes_step None s (fst (Add s e))"
| bind: "pes_step None s (fst (BindIdentity s i))"
| add_with: "AddWithIdentity s i e = Some r \<Longrightarrow> pes_step None s (fst r)"
| remove: "pes_step None s (Remove s pk col)"
| remove_with: "RemoveWithIdentity s i pk col = Some r \<Longrightarrow> pes_step None s (fst r)"
| clear: "pes_step None s (Clear s)"
| discard: "pes_step None s (fst (DiscardOwned s sel))"
| begin_commit: "pes_step None s (fst (BeginCommit s a sel))"
| retire_versions: "pes_step None s (Retire s sn)"
| retire_committed: "pes_step None s (RetireCommitted s sn os rs)"
| mark_unknown: "pes_step None s (MarkCommitUnknown s sn os rs)"
| reconcile: "pes_step None s (fst (ReconcileCommitOutcome s b))"
| settle: "pes_step receipt s (SettleCommit s receipt b u os rs)"

abbreviation pes_run :: "PendingEditSet \<Rightarrow> PendingEditSet \<Rightarrow> bool" where
  "pes_run \<equiv> (\<lambda>s s'. \<exists>l. pes_step l s s')\<^sup>*\<^sup>*"

abbreviation pes_run_unsettled :: "addr \<Rightarrow> PendingEditSet \<Rightarrow> PendingEditSet \<Rightarrow> bool" where
  "pes_run_unsettled a \<equiv> (\<lambda>s s'. \<exists>l. l \<noteq> Some a \<and> pes_step l s s')\<^sup>*\<^sup>*"

text \<open>
  What every operation does to the versions: an edit it leaves has either its old version or one
  above the old counter, and the counter never goes back.
\<close>

definition advances :: "PendingEditSet \<Rightarrow> PendingEditSet \<Rightarrow> bool" where
  "advances s s' \<longleftrightarrow> self s' = self s \<and> nextRevision s \<le> nextRevision s' \<and>
     list_all (\<lambda>e. owner e = Some (self s) \<and> revision e \<le> nextRevision s' \<and>
       (revision e \<in> revision ` set (edits s) \<or> nextRevision s < revision e)) (edits s') \<and>
     distinct (map revision (edits s'))"

lemma advancesI:
  "set_ok s \<Longrightarrow> self s' = self s \<Longrightarrow> nextRevision s' = nextRevision s \<Longrightarrow> edits s' = xs @ zs \<Longrightarrow> edits s = xs @ ys @ zs \<Longrightarrow> advances s s'"
  by (auto simp: advances_def set_ok_def list_all_iff)

lemma advances_refl: "set_ok s \<Longrightarrow> advances s s"
  by (rule advancesI [where xs = "edits s" and ys = "[]" and zs = "[]"]) simp_all

lemma advances_trans: "advances s s1 \<Longrightarrow> advances s1 s2 \<Longrightarrow> advances s s2"
  by (fastforce simp: advances_def list_all_iff)

lemma advances_filter: "set_ok s \<Longrightarrow> edits s' = filter P (edits s) \<Longrightarrow> self s' = self s \<Longrightarrow> nextRevision s' = nextRevision s \<Longrightarrow> advances s s'"
  by (auto simp: advances_def set_ok_def list_all_iff distinct_map_filter)

lemma advances_ok: "set_ok s \<Longrightarrow> advances s s' \<Longrightarrow> commitAttempt s' = commitAttempt s \<Longrightarrow> commitEdits s' = commitEdits s \<Longrightarrow> set_ok s'"
  by (fastforce simp: advances_def set_ok_def list_all_iff)

lemma addLocked_advances:
  assumes "set_ok s" "addLocked s e = (s', err)"
  shows "advances s s'" "commitAttempt s' = commitAttempt s" "commitEdits s' = commitEdits s" "unknown s' = unknown s" "s_identity s' = s_identity s"
proof -
  have "advances s s' \<and> commitAttempt s' = commitAttempt s \<and> commitEdits s' = commitEdits s \<and> unknown s' = unknown s \<and> s_identity s' = s_identity s"
    using assms(2)
  proof (cases rule: addLocked_cases)
    case failed
    then show ?thesis using advances_refl [OF assms(1)] by simp
  next
    case inserted
    have "nextRevision s + 1 \<notin> revision ` set (edits s)" using assms(1) by (auto simp: set_ok_def list_all_iff)
    then show ?thesis using inserted assms(1) by (auto simp: advances_def set_ok_def stagedEdit_def list_all_iff intro: le_SucI)
  next
    case (updated ys x zs)
    have "nextRevision s + 1 \<notin> revision ` set (edits s)" using assms(1) by (auto simp: set_ok_def list_all_iff)
    then show ?thesis using updated assms(1)
      by (auto simp: advances_def set_ok_def stagedEdit_def replaced_def list_all_iff intro: le_SucI)
  qed
  then show "advances s s'" "commitAttempt s' = commitAttempt s" "commitEdits s' = commitEdits s" "unknown s' = unknown s" "s_identity s' = s_identity s"
    by blast+
qed

lemma rekey_revisions:
  "rekey ks n es = (m, es') \<Longrightarrow> list_all (\<lambda>e. owner e = Some a \<and> revision e \<le> n) es \<Longrightarrow> distinct (map revision es) \<Longrightarrow>
   n \<le> m \<and> list_all (\<lambda>e. owner e = Some a \<and> revision e \<le> m \<and> (revision e \<in> revision ` set es \<or> n < revision e)) es' \<and>
   distinct (map revision es')"
proof (induction ks n es arbitrary: m es' rule: rekey.induct)
  case (2 ks n e es)
  show ?case
  proof (cases "find (\<lambda>(orig, res). RowIdentityEqual (PrimaryKey e) orig \<and> \<not> RowIdentityEqual orig res) ks")
    case None
    obtain es1 where r: "rekey ks n es = (m, es1)" "es' = e # es1"
      using "2.prems"(1) None by (auto simp: Let_def split: prod.splits)
    have "list_all (\<lambda>e. owner e = Some a \<and> revision e \<le> n) es" "distinct (map revision es)" using "2.prems"(2,3) by simp_all
    note h = "2.IH"(1) [OF None r(1) this]
    have "revision e \<notin> revision ` set es1"
    proof
      assume "revision e \<in> revision ` set es1"
      then have "revision e \<in> revision ` set es \<or> n < revision e" using h by (auto simp: list_all_iff)
      then show False using "2.prems"(2,3) by auto
    qed
    then show ?thesis using h r "2.prems"(2,3) by (auto simp: list_all_iff)
  next
    case (Some k)
    obtain orig res where k: "k = (orig, res)" by force
    obtain es1 where r: "rekey ks (n + 1) es = (m, es1)" "es' = e\<lparr>PrimaryKey := map clonePendingValue res, revision := n + 1\<rparr> # es1"
      using "2.prems"(1) Some k by (auto simp: Let_def split: prod.splits)
    have "list_all (\<lambda>e. owner e = Some a \<and> revision e \<le> n + 1) es" "distinct (map revision es)"
      using "2.prems"(2,3) by (auto simp: list_all_iff)
    note h = "2.IH"(2) [OF Some k [symmetric] r(1) this]
    have "n + 1 \<notin> revision ` set es1"
    proof
      assume "n + 1 \<in> revision ` set es1"
      then have "n + 1 \<in> revision ` set es" using h by (auto simp: list_all_iff)
      then show False using "2.prems"(2) by (auto simp: list_all_iff)
    qed
    then show ?thesis using h r "2.prems"(2,3) by (fastforce simp: list_all_iff)
  qed
qed simp

lemma retire_advances: "set_ok s \<Longrightarrow> advances s (retire s sn)"
  by (rule advances_filter) (simp_all add: retire_def)

lemma retireCommitted_advances:
  assumes "set_ok s"
  shows "advances s (retireCommitted s sn os rs)"
proof (cases "length os = length rs")
  case True
  let ?s1 = "retire s sn"
  obtain n es where r: "rekey (zip os rs) (nextRevision ?s1) (edits ?s1) = (n, es)" by force
  have a: "advances s ?s1" using assms by (rule retire_advances)
  then have "list_all (\<lambda>e. owner e = Some (self s) \<and> revision e \<le> nextRevision ?s1) (edits ?s1)" "distinct (map revision (edits ?s1))"
    by (auto simp: advances_def list_all_iff)
  note h = rekey_revisions [OF r this]
  have "advances ?s1 (retireCommitted s sn os rs)"
    using h True r a by (auto simp: retireCommitted_def Let_def advances_def)
  then show ?thesis using a advances_trans by blast
qed (simp add: retireCommitted_def Let_def retire_advances assms)

lemma retire_fields [simp]:
  "commitAttempt (retire s sn) = commitAttempt s" "commitEdits (retire s sn) = commitEdits s" "self (retire s sn) = self s"
  "unknown (retire s sn) = unknown s"
  by (simp_all add: retire_def)

lemma retireCommitted_fields [simp]:
  "commitAttempt (retireCommitted s sn os rs) = commitAttempt s" "commitEdits (retireCommitted s sn os rs) = commitEdits s"
  "self (retireCommitted s sn os rs) = self s" "unknown (retireCommitted s sn os rs) = unknown s"
  by (simp_all add: retireCommitted_def Let_def split: prod.split)

lemma removes_advance:
  "set_ok s \<Longrightarrow> advances s (foldl (\<lambda>s e. removeLocked s (PrimaryKey e) (Column e)) s sel) \<and>
   commitAttempt (foldl (\<lambda>s e. removeLocked s (PrimaryKey e) (Column e)) s sel) = commitAttempt s \<and>
   commitEdits (foldl (\<lambda>s e. removeLocked s (PrimaryKey e) (Column e)) s sel) = commitEdits s \<and>
   unknown (foldl (\<lambda>s e. removeLocked s (PrimaryKey e) (Column e)) s sel) = unknown s"
proof (induction sel arbitrary: s)
  case (Cons e sel)
  let ?s1 = "removeLocked s (PrimaryKey e) (Column e)"
  have f: "commitAttempt ?s1 = commitAttempt s" "commitEdits ?s1 = commitEdits s" "unknown ?s1 = unknown s" by (simp_all add: removeLocked_def)
  have a: "advances s ?s1"
    using removeFirst_sub [of "edits s" "sameCell (PrimaryKey e) (Column e)"] Cons.prems
    by (auto simp: removeLocked_def intro: advancesI)
  then have "set_ok ?s1" using Cons.prems f by (auto intro: advances_ok)
  then show ?case using Cons.IH [of ?s1] a f advances_trans by auto
qed (simp add: advances_refl)

lemma removeLocked_advances:
  assumes "set_ok s"
  shows "advances s (removeLocked s pk col)" "commitAttempt (removeLocked s pk col) = commitAttempt s"
    "commitEdits (removeLocked s pk col) = commitEdits s" "unknown (removeLocked s pk col) = unknown s"
  using removeFirst_sub [of "edits s" "sameCell pk col"] assms by (auto simp: removeLocked_def intro: advancesI)

text \<open>An operation advances the versions and keeps a running attempt, unless it settles it.\<close>

definition step_ok :: "addr option \<Rightarrow> PendingEditSet \<Rightarrow> PendingEditSet \<Rightarrow> bool" where
  "step_ok l s s' \<longleftrightarrow> set_ok s' \<and> advances s s' \<and>
     (commitAttempt s \<noteq> None \<and> commitAttempt s \<noteq> l \<longrightarrow> commitAttempt s' = commitAttempt s \<and> commitEdits s' = commitEdits s)"

lemma step_okI: "set_ok s \<Longrightarrow> advances s s' \<Longrightarrow> commitAttempt s' = commitAttempt s \<Longrightarrow> commitEdits s' = commitEdits s \<Longrightarrow> step_ok l s s'"
  by (simp add: step_ok_def advances_ok)

lemma step_ok_refl: "set_ok s \<Longrightarrow> step_ok l s s"
  by (simp add: step_ok_def advances_refl)

lemma capture_edits: "capture s sel = Some cs \<Longrightarrow> set cs \<subseteq> set (edits s) \<and> length cs = length sel"
proof (induction sel arbitrary: cs)
  case (Cons a sel)
  then show ?case by (auto split: option.splits dest: find_SomeD)
qed simp

lemma BeginCommit_ok: "set_ok s \<Longrightarrow> step_ok l s (fst (BeginCommit s a sel))"
proof -
  assume ok: "set_ok s"
  show ?thesis
  proof (cases "snd (BeginCommit s a sel)")
    case (Inl err)
    then have "fst (BeginCommit s a sel) = s" by (auto simp: BeginCommit_def Let_def split: if_splits option.splits)
    then show ?thesis using ok by (simp add: step_ok_refl)
  next
    case (Inr snap)
    then obtain cs where c: "capture s (case sel of None \<Rightarrow> edits s | Some es \<Rightarrow> es) = Some cs"
        "fst (BeginCommit s a sel) = s\<lparr>commitAttempt := Some a, commitEdits := cs\<rparr>" "commitAttempt s = None"
      by (auto simp: BeginCommit_def Let_def Edits_def newSet_def map_idI split: if_splits option.splits)
    have "advances s (fst (BeginCommit s a sel))" unfolding c(2) by (rule advances_filter [OF ok, where P = "\<lambda>_. True"]) simp_all
    moreover have "set_ok (fst (BeginCommit s a sel))"
      using ok capture_edits [OF c(1)] unfolding c(2) by (auto simp: set_ok_def list_all_iff)
    ultimately show ?thesis using c(3) by (simp add: step_ok_def)
  qed
qed

lemma advances_idle_ok: "set_ok s \<Longrightarrow> advances s s' \<Longrightarrow> commitEdits s' = [] \<Longrightarrow> set_ok s'"
  by (fastforce simp: advances_def set_ok_def list_all_iff)

lemma SettleCommit_ok: "set_ok s \<Longrightarrow> step_ok receipt s (SettleCommit s receipt b u os rs)"
proof (cases "receipt = None \<or> commitAttempt s \<noteq> receipt")
  case True
  moreover assume "set_ok s"
  ultimately show ?thesis by (auto simp: SettleCommit_def step_ok_def advances_refl)
next
  case False
  assume ok: "set_ok s"
  let ?s1 = "if b then retireCommitted s (commitEdits s) os rs
    else if u then s\<lparr>unknown := unknown s @ commitEdits s, unknownOriginalPKs := map (map clonePendingValue) os,
      unknownResultPKs := map (map clonePendingValue) rs\<rparr> else s"
  have "advances s ?s1"
    using retireCommitted_advances [OF ok] advances_filter [OF ok, of _ "\<lambda>_. True"] by auto
  then have a: "advances s (SettleCommit s receipt b u os rs)"
    using False by (auto simp: SettleCommit_def Let_def advances_def)
  moreover have "set_ok (SettleCommit s receipt b u os rs)"
    using False advances_idle_ok [OF ok a] by (auto simp: SettleCommit_def Let_def)
  ultimately show ?thesis using False by (simp add: step_ok_def)
qed

lemma pes_step_ok: "pes_step l s s' \<Longrightarrow> set_ok s \<Longrightarrow> step_ok l s s'"
proof (induction rule: pes_step.induct)
  case (add s e)
  then show ?case using addLocked_advances [of s e "fst (addLocked s e)" "snd (addLocked s e)"]
    by (auto simp: Add_def step_ok_refl intro: step_okI)
next
  case (bind s i)
  then show ?case by (auto simp: BindIdentity_def step_ok_refl split: option.split intro!: step_okI advances_filter [where P = "\<lambda>_. True"])
next
  case (add_with s i e r)
  show ?case
  proof (cases "Compatible (s_identity s) i")
    case True
    obtain s1 err where a: "addLocked s (e\<lparr>PrimaryKey := normalized (s_identity s) i (PrimaryKey e), e_identity := s_identity s\<rparr>) = (s1, err)"
      by force
    note adv = addLocked_advances [OF add_with.prems a]
    then have "step_ok None s s1" using add_with.prems by (auto intro!: step_okI)
    then show ?thesis using add_with True a
      by (auto simp: AddWithIdentity_def Normalize_total step_ok_refl split: option.splits if_splits) (metis fst_conv)
  next
    case False
    let ?s = "s\<lparr>s_identity := i\<rparr>"
    have ok: "set_ok ?s" using add_with.prems by (simp add: set_ok_def)
    obtain s1 err where a: "addLocked ?s e = (s1, err)" by force
    note adv = addLocked_advances [OF ok a]
    have "advances s s1" using adv(1) by (simp add: advances_def)
    then have "step_ok None s s1" "step_ok None s (s1\<lparr>s_identity := s_identity s\<rparr>)"
      using adv add_with.prems by (auto intro!: step_okI simp: advances_def)
    then show ?thesis using add_with False a
      by (auto simp: AddWithIdentity_def step_ok_refl split: option.splits if_splits) (metis fst_conv)
  qed
next
  case (remove s pk col)
  then show ?case by (auto simp: Remove_def intro!: step_okI removeLocked_advances)
next
  case (remove_with s i pk col r)
  then show ?case
    by (auto simp: RemoveWithIdentity_def Normalize_total advances_refl split: if_splits intro!: step_okI removeLocked_advances)
next
  case (clear s)
  then show ?case by (auto simp: Clear_def intro!: step_okI advances_filter [where P = "\<lambda>_. False"])
next
  case (discard s sel)
  then show ?case using removes_advance [OF discard.prems, of sel] by (auto simp: DiscardOwned_def step_ok_refl intro!: step_okI)
next
  case (begin_commit s a sel)
  then show ?case by (rule BeginCommit_ok)
next
  case (retire_versions s sn)
  then show ?case by (auto simp: Retire_def intro!: step_okI retire_advances)
next
  case (retire_committed s sn os rs)
  then show ?case by (auto simp: RetireCommitted_def intro!: step_okI retireCommitted_advances)
next
  case (mark_unknown s sn os rs)
  then show ?case by (auto simp: MarkCommitUnknown_def intro!: step_okI advances_filter [where P = "\<lambda>_. True"])
next
  case (reconcile s b)
  let ?s1 = "retireCommitted s (unknown s) (unknownOriginalPKs s) (unknownResultPKs s)"
  have "advances s (?s1\<lparr>unknown := [], unknownOriginalPKs := [], unknownResultPKs := []\<rparr>)"
    using retireCommitted_advances [OF reconcile.prems] by (simp add: advances_def)
  moreover have "advances s (s\<lparr>unknown := [], unknownOriginalPKs := [], unknownResultPKs := []\<rparr>)"
    using advances_refl [OF reconcile.prems] by (simp add: advances_def)
  ultimately show ?case using reconcile by (auto simp: ReconcileCommitOutcome_def Let_def step_ok_refl intro!: step_okI)
next
  case (settle receipt s b u os rs)
  then show ?case by (rule SettleCommit_ok)
qed

lemma pes_run_ok: "pes_run s s' \<Longrightarrow> set_ok s \<Longrightarrow> set_ok s' \<and> advances s s'"
proof (induction rule: rtranclp_induct)
  case (step s1 s2)
  then show ?case using pes_step_ok [of _ s1 s2] advances_trans [of s s1 s2] by (auto simp: step_ok_def)
qed (simp add: advances_refl)

lemma pes_run_unsettled_ok:
  "pes_run_unsettled a s s' \<Longrightarrow> set_ok s \<Longrightarrow> commitAttempt s = Some a \<Longrightarrow>
   set_ok s' \<and> advances s s' \<and> commitAttempt s' = Some a \<and> commitEdits s' = commitEdits s"
proof (induction rule: rtranclp_induct)
  case (step s1 s2)
  then obtain l where l: "l \<noteq> Some a" "pes_step l s1 s2" by blast
  then show ?case using step pes_step_ok [OF l(2)] advances_trans [of s s1 s2] by (auto simp: step_ok_def)
qed (simp add: advances_refl)

lemma BeginCommit_Inr:
  assumes "BeginCommit s a sel = (s', Inr snap)"
  shows "commitAttempt s = None" "unknown s = []" "s' = s\<lparr>commitAttempt := Some a, commitEdits := edits snap\<rparr>"
    "set (edits snap) \<subseteq> set (edits s)" "edits snap \<noteq> []"
proof -
  let ?sel = "case sel of None \<Rightarrow> edits s | Some es \<Rightarrow> es"
  have c: "\<exists>cs. capture s ?sel = Some cs \<and> ?sel \<noteq> [] \<and> edits snap = cs" and
    b: "commitAttempt s = None \<and> unknown s = [] \<and> s' = s\<lparr>commitAttempt := Some a, commitEdits := edits snap\<rparr>"
    using assms by (auto simp: BeginCommit_def Let_def Edits_def newSet_def map_idI split: if_splits option.split_asm)
  from b show "commitAttempt s = None" "unknown s = []" "s' = s\<lparr>commitAttempt := Some a, commitEdits := edits snap\<rparr>" by blast+
  from c show "set (edits snap) \<subseteq> set (edits s)" "edits snap \<noteq> []" using capture_edits [of s ?sel] by force+
qed

text \<open>The versions of a committed snapshot are gone, and the new ones are above the counter.\<close>

lemma retireCommitted_versions:
  assumes "set_ok s" "e \<in> set (edits (retireCommitted s sn os rs))" "c \<in> set sn"
    "owner c = Some (self s)" "0 < revision c" "revision c \<le> nextRevision s"
  shows "revision e \<noteq> revision c"
proof -
  let ?s1 = "retire s sn"
  have fresh: "revision f \<noteq> revision c" if "f \<in> set (edits ?s1)" for f
    using that assms(1,3-5) by (auto simp: retire_def set_ok_def list_all_iff list_ex_iff)
  show ?thesis
  proof (cases "length os = length rs")
    case True
    obtain n es where r: "rekey (zip os rs) (nextRevision ?s1) (edits ?s1) = (n, es)" by force
    have a: "advances s ?s1" using assms(1) by (rule retire_advances)
    then have "list_all (\<lambda>e. owner e = Some (self s) \<and> revision e \<le> nextRevision ?s1) (edits ?s1)" "distinct (map revision (edits ?s1))"
      by (auto simp: advances_def list_all_iff)
    note h = rekey_revisions [OF r this]
    have "e \<in> set es" using assms(2) True r by (simp add: retireCommitted_def Let_def)
    then have "revision e \<in> revision ` set (edits ?s1) \<or> nextRevision ?s1 < revision e" using h by (auto simp: list_all_iff)
    then show ?thesis using fresh assms(6) by (auto simp: retire_def)
  next
    case False
    then show ?thesis using assms(2) fresh by (simp add: retireCommitted_def Let_def)
  qed
qed

lemma settled_versions:
  assumes "set_ok s" "commitAttempt s = Some a" "e \<in> set (edits (SettleCommit s (Some a) True u os rs))" "c \<in> set (commitEdits s)"
  shows "revision e \<noteq> revision c"
  using retireCommitted_versions [OF assms(1), of e "commitEdits s" os rs c] assms
  by (auto simp: SettleCommit_def Let_def set_ok_def list_all_iff)

text \<open>
  C13. A version that was reported committed is never committed again.  From a fresh set, through
  any operations, a commit attempt captures only current versions; until its own receipt settles
  it, whatever else is called, the captured versions stay the running attempt, a second attempt
  and any discard are refused, and so is staging on its rows.  Once it is settled as committed, no
  attempt made after any further operations contains any of those versions.
\<close>

theorem committed_versions_never_recur:
  assumes "pes_run (newSet p t) s1" "BeginCommit s1 a sel = (s2, Inr snap)" "pes_run_unsettled a s2 s3"
    "pes_run (SettleCommit s3 (Some a) True u os rs) s5" "BeginCommit s5 b sel' = (s6, Inr snap')"
  shows "set (edits snap) \<subseteq> set (edits s1) \<and> edits snap \<noteq> [] \<and> commitEdits s3 = edits snap \<and>
    BeginCommit s3 c sel'' = (s3, Inl ErrCommitInFlight) \<and> DiscardOwned s3 es = (s3, Some ErrCommitInFlight) \<and>
    fst (ReconcileCommitOutcome s3 v) = s3 \<and>
    (list_ex (\<lambda>x. RowIdentityEqual (PrimaryKey x) (PrimaryKey e)) (edits snap) \<longrightarrow> fst (Add s3 e) = s3 \<and> snd (Add s3 e) \<noteq> None) \<and>
    revision ` set (edits snap) \<inter> revision ` set (edits snap') = {}"
proof -
  have ok1: "set_ok s1" using pes_run_ok [OF assms(1)] by simp
  note b1 = BeginCommit_Inr [OF assms(2)] and b5 = BeginCommit_Inr [OF assms(5)]
  have ok2: "set_ok s2" "commitAttempt s2 = Some a" "commitEdits s2 = edits snap"
    using BeginCommit_ok [OF ok1, of None a sel] assms(2) b1(3) by (simp_all add: step_ok_def)
  note s3 = pes_run_unsettled_ok [OF assms(3) ok2(1,2)]
  let ?s4 = "SettleCommit s3 (Some a) True u os rs"
  have ok4: "set_ok ?s4" "advances s3 ?s4" using SettleCommit_ok [of s3 "Some a" True u os rs] s3 by (simp_all add: step_ok_def)
  have adv: "advances ?s4 s5" using pes_run_ok [OF assms(4) ok4(1)] by blast
  have "revision x \<noteq> revision y" if x: "x \<in> set (edits snap)" and y: "y \<in> set (edits snap')" for x y
  proof -
    have x3: "x \<in> set (commitEdits s3)" "revision x \<le> nextRevision s3" using x s3 ok2(3) by (auto simp: set_ok_def list_all_iff)
    have "y \<in> set (edits s5)" using y b5(4) by blast
    then consider z where "z \<in> set (edits ?s4)" "revision y = revision z" | "nextRevision ?s4 < revision y"
      using adv by (auto simp: advances_def list_all_iff)
    then show ?thesis
    proof cases
      case 1
      then show ?thesis using settled_versions [OF _ _ 1(1) x3(1)] s3 by auto
    next
      case 2
      then show ?thesis using ok4(2) x3(2) by (auto simp: advances_def)
    qed
  qed
  then have "revision ` set (edits snap) \<inter> revision ` set (edits snap') = {}" by blast
  moreover have "fst (Add s3 e) = s3 \<and> snd (Add s3 e) \<noteq> None"
    if "list_ex (\<lambda>x. RowIdentityEqual (PrimaryKey x) (PrimaryKey e)) (edits snap)"
    using that s3 ok2(3) by (auto simp: Add_def addLocked_eq)
  ultimately show ?thesis using b1(4,5) s3 ok2(3)
    by (auto simp: BeginCommit_def DiscardOwned_def ReconcileCommitOutcome_def Let_def)
qed

section \<open>Unknown outcomes\<close>

text \<open>Only reconciliation, with no attempt in flight, forgets an unknown outcome.\<close>

lemma addLocked_unknown: "addLocked s e = (s', err) \<Longrightarrow> unknown s' = unknown s"
  by (auto simp: addLocked_eq split: if_splits)

lemma removes_unknown: "unknown (foldl (\<lambda>s e. removeLocked s (PrimaryKey e) (Column e)) s sel) = unknown s"
  by (induction sel arbitrary: s) (simp_all add: removeLocked_def)

lemma addLocked_fst_unknown [simp]: "unknown (fst (addLocked s e)) = unknown s"
  using addLocked_unknown [of s e] by (metis prod.collapse)

lemma AddWithIdentity_unknown: "AddWithIdentity s i e = Some r \<Longrightarrow> unknown (fst r) = unknown s"
  by (auto simp: AddWithIdentity_def Normalize_total split: option.splits if_splits prod.splits dest: addLocked_unknown)

lemma pes_step_unknown: "pes_step l s s' \<Longrightarrow> unknown s \<noteq> [] \<Longrightarrow> unknown s' \<noteq> [] \<or> (\<exists>b. s' = fst (ReconcileCommitOutcome s b))"
proof (induction rule: pes_step.induct)
  case (add s e)
  then show ?case by (simp add: Add_def)
next
  case (discard s sel)
  then show ?case by (auto simp: DiscardOwned_def)
next
  case (add_with s i e r)
  then show ?case using AddWithIdentity_unknown by metis
qed (auto simp: BindIdentity_def Remove_def removeLocked_def RemoveWithIdentity_def Normalize_total Clear_def BeginCommit_def
    Retire_def RetireCommitted_def MarkCommitUnknown_def SettleCommit_def Let_def split: option.splits if_splits)


definition sample_edit :: PendingEdit where
  "sample_edit = \<lparr>revision = 0, owner = None, e_identity = noIdentity, PrimaryKey = [ScalarV ''int64'' (IntS 5)], Column = ''name'',
     ColumnType = ''text'', TypeOID = 25, OldValue = ScalarV ''string'' (StrS ''a''), NewValue = ScalarV ''string'' (StrS ''b''),
     NewExpr = '''', Kind = Literal, LoadedAt = 9\<rparr>"

abbreviation sample_set :: PendingEditSet where
  "sample_set \<equiv> fst (Add (newSet 1 (''public'', ''users'')) sample_edit)"

abbreviation sample_committed :: PendingEditSet where
  "sample_committed \<equiv> SettleCommit (fst (BeginCommit sample_set 2 None)) (Some 2) True False [] []"

lemmas sample_defs = sample_edit_def Add_def addLocked_def newSet_def noIdentity_def BeginCommit_def Edits_def ownedBy_def Let_def
  SettleCommit_def retireCommitted_def retire_def


theorem committed_versions_never_recur_witness:
  "\<exists>snap snap' s6. BeginCommit sample_set 2 None = (fst (BeginCommit sample_set 2 None), Inr snap) \<and>
     BeginCommit (fst (Add sample_committed sample_edit)) 3 None = (s6, Inr snap') \<and>
     revision ` set (edits snap) \<inter> revision ` set (edits snap') = {}"
proof -
  have r1: "pes_run (newSet 1 (''public'', ''users'')) sample_set"
    using pes_step.add by blast
  obtain snap where b1: "BeginCommit sample_set 2 None = (fst (BeginCommit sample_set 2 None), Inr snap)"
    by (simp add: sample_defs)
  have r2: "pes_run sample_committed (fst (Add sample_committed sample_edit))" using pes_step.add by blast
  obtain s6 snap' where b2: "BeginCommit (fst (Add sample_committed sample_edit)) 3 None = (s6, Inr snap')"
    by (simp add: sample_defs)
  show ?thesis using committed_versions_never_recur [OF r1 b1 rtranclp.rtrancl_refl r2 b2] b1 b2 by blast
qed


end
