(* ===== verification/ContextTree.thy ===== *)
theory ContextTree
  imports KeyService
begin

text \<open>
  The focus stack (\<open>pkg/gui/context_mgr.go\<close>), and the two callers that close a full-screen modal
  (\<open>gui/orchestrator/wire_backbone.go\<close>, \<open>wire_post_controllers.go\<close>).

  A context is what the tree sees of the interface \<open>IBaseContext\<close>: its key, its kind and which object
  it is.  Lifecycle hooks and swap hooks are code of other components: a parameter, called where the
  code calls them with the mutex released, which may change the tree itself (they may re-enter it)
  and whatever other state \<open>'w\<close> there is, and of which a lifecycle hook may fail.  The mutex and
  the log are not modelled.  The stack is listed from bottom to top.
\<close>

record cxt =
  GetKey :: context_key
  GetKind :: ContextKind
  object :: nat

record ContextTree =
  stack :: "cxt list"
  swapHooks :: "nat list"
  evictedMain :: "cxt option"

datatype ctx_error = ErrPopAtBottom | HookError string

datatype hook_call =
    HandleFocus cxt context_key
  | HandleFocusLost cxt context_key
  | SwapHook nat

type_synonym 'w hooks = "hook_call \<Rightarrow> ContextTree \<times> 'w \<Rightarrow> (ContextTree \<times> 'w) \<times> ctx_error option"

type_synonym 'w outcome = "(ContextTree \<times> 'w) \<times> ctx_error option"

definition NewContextTree :: ContextTree where
  "NewContextTree = \<lparr>stack = [], swapHooks = [], evictedMain = None\<rparr>"

definition kindLabel :: "ContextKind \<Rightarrow> string" where
  "kindLabel k = (case k of
     SIDE_CONTEXT \<Rightarrow> ''side'' | MAIN_CONTEXT \<Rightarrow> ''main'' | PERSISTENT_POPUP \<Rightarrow> ''persistent_popup''
   | TEMPORARY_POPUP \<Rightarrow> ''temporary_popup'' | EXTRAS_CONTEXT \<Rightarrow> ''extras'' | GLOBAL_CONTEXT \<Rightarrow> ''global''
   | DISPLAY_CONTEXT \<Rightarrow> ''display'' | STUB \<Rightarrow> ''stub'')"

section \<open>The locked parts\<close>

definition peekLocked :: "ContextTree \<Rightarrow> cxt option" where
  "peekLocked t = (if stack t = [] then None else Some (last (stack t)))"

definition wipeStackLocked :: "ContextTree \<Rightarrow> ContextTree \<times> cxt list" where
  "wipeStackLocked t = (t\<lparr>stack := []\<rparr>, stack t)"

definition removeMainLocked :: "ContextTree \<Rightarrow> ContextTree \<times> cxt option" where
  "removeMainLocked t =
     (let isMain = (\<lambda>c. GetKind c = MAIN_CONTEXT); found = find isMain (stack t)
      in (t\<lparr>stack := removeFirst isMain (stack t), evictedMain := found\<rparr>, found))"

definition popOneLocked :: "ContextTree \<Rightarrow> ContextTree \<times> cxt option" where
  "popOneLocked t = (if stack t = [] then (t, None) else (t\<lparr>stack := butlast (stack t)\<rparr>, Some (last (stack t))))"

definition appendLocked :: "cxt \<Rightarrow> ContextTree \<Rightarrow> ContextTree" where
  "appendLocked c t = t\<lparr>stack := stack t @ [c]\<rparr>"

text \<open>The switch over the kind in \<open>Push\<close>: the new stack and the contexts that lost their place.\<close>

definition pushLocked :: "ContextTree \<Rightarrow> cxt \<Rightarrow> ContextTree \<times> cxt list" where
  "pushLocked t c = (case GetKind c of
     SIDE_CONTEXT \<Rightarrow> (case wipeStackLocked t of (t', lost) \<Rightarrow> (appendLocked c t', lost))
   | MAIN_CONTEXT \<Rightarrow> (case removeMainLocked t of (t', evicted) \<Rightarrow>
       (appendLocked c t', case evicted of None \<Rightarrow> [] | Some e \<Rightarrow> [e]))
   | TEMPORARY_POPUP \<Rightarrow>
       (case peekLocked t of
          Some tp \<Rightarrow>
            (if GetKind tp = TEMPORARY_POPUP
             then (case popOneLocked t of (t', popped) \<Rightarrow> (appendLocked c t', case popped of None \<Rightarrow> [] | Some p \<Rightarrow> [p]))
             else (appendLocked c t, []))
        | None \<Rightarrow> (appendLocked c t, []))
   | _ \<Rightarrow> (appendLocked c t, []))"

section \<open>Operations\<close>

text \<open>Hooks are called one after the other; what they return is ignored.\<close>

fun callAll :: "'w hooks \<Rightarrow> hook_call list \<Rightarrow> ContextTree \<times> 'w \<Rightarrow> ContextTree \<times> 'w" where
  "callAll h [] s = s"
| "callAll h (c # cs) s = callAll h cs (fst (h c s))"

text \<open>The hook list is copied before the first hook runs.\<close>

definition fireSwapHooks :: "'w hooks \<Rightarrow> ContextTree \<times> 'w \<Rightarrow> ContextTree \<times> 'w" where
  "fireSwapHooks h s = callAll h (map SwapHook (swapHooks (fst s))) s"

definition Push :: "'w hooks \<Rightarrow> cxt \<Rightarrow> ContextTree \<times> 'w \<Rightarrow> 'w outcome" where
  "Push h c s =
     (case s of (t, w) \<Rightarrow>
        if (case peekLocked t of Some tp \<Rightarrow> GetKey tp = GetKey c | None \<Rightarrow> False) then (s, None)
        else case pushLocked t c of (t', lost) \<Rightarrow>
          (case h (HandleFocus c (GetKey c)) (callAll h (map (\<lambda>v. HandleFocusLost v '''') (rev lost)) (t', w)) of
             (s', Some err) \<Rightarrow> (s', Some err)
           | (s', None) \<Rightarrow> (fireSwapHooks h s', None)))"

definition Pop :: "'w hooks \<Rightarrow> ContextTree \<times> 'w \<Rightarrow> 'w outcome" where
  "Pop h s =
     (case s of (t, w) \<Rightarrow>
        if length (stack t) \<le> 1 then (s, Some ErrPopAtBottom)
        else
          let popped = last (stack t); t' = t\<lparr>stack := butlast (stack t)\<rparr>; newTop = last (stack t')
          in case h (HandleFocusLost popped (GetKey newTop)) (t', w) of
               (s1, Some err) \<Rightarrow> (s1, Some err)
             | (s1, None) \<Rightarrow>
                 (case h (HandleFocus newTop (GetKey newTop)) s1 of
                    (s2, Some err) \<Rightarrow> (s2, Some err)
                  | (s2, None) \<Rightarrow> (fireSwapHooks h s2, None)))"

definition PopIfTop :: "'w hooks \<Rightarrow> context_key \<Rightarrow> ContextTree \<times> 'w \<Rightarrow> 'w outcome" where
  "PopIfTop h key s =
     (if (case peekLocked (fst s) of None \<Rightarrow> True | Some tp \<Rightarrow> GetKey tp \<noteq> key) then (s, None) else Pop h s)"

definition Replace :: "'w hooks \<Rightarrow> cxt \<Rightarrow> ContextTree \<times> 'w \<Rightarrow> 'w outcome" where
  "Replace h c s =
     (case s of (t, w) \<Rightarrow>
        if stack t = [] then (fireSwapHooks h (t\<lparr>stack := [c]\<rparr>, w), None)
        else (fireSwapHooks h (t\<lparr>stack := (stack t)[length (stack t) - 1 := c]\<rparr>, w), None))"

text \<open>\<open>None\<close> is a nil function.\<close>

definition RegisterSwapHook :: "nat option \<Rightarrow> ContextTree \<Rightarrow> ContextTree" where
  "RegisterSwapHook fn t = (case fn of None \<Rightarrow> t | Some f \<Rightarrow> t\<lparr>swapHooks := swapHooks t @ [f]\<rparr>)"

definition Current :: "ContextTree \<Rightarrow> cxt option" where
  "Current t = peekLocked t"

definition CurrentKind :: "ContextTree \<Rightarrow> ContextKind" where
  "CurrentKind t = (case peekLocked t of None \<Rightarrow> SIDE_CONTEXT | Some tp \<Rightarrow> GetKind tp)"

definition Stack :: "ContextTree \<Rightarrow> cxt list" where
  "Stack t = stack t"

definition TakeEvictedMain :: "ContextTree \<Rightarrow> ContextTree \<times> cxt option" where
  "TakeEvictedMain t = (t\<lparr>evictedMain := None\<rparr>, evictedMain t)"

section \<open>Closing a modal\<close>

text \<open>
  \<open>OnCloseConnectionManager\<close>: nothing at the root; otherwise the pane the modal covered is taken,
  the modal popped and the pane pushed again.  The closer of the settings modal has no check for the
  root and pushes the pane even when the pop failed.  Errors of the last push are dropped.
\<close>

definition pushPrev :: "'w hooks \<Rightarrow> cxt option \<Rightarrow> ContextTree \<times> 'w \<Rightarrow> ContextTree \<times> 'w" where
  "pushPrev h prevMain s = (case prevMain of None \<Rightarrow> s | Some c \<Rightarrow> fst (Push h c s))"

definition OnCloseConnectionManager :: "'w hooks \<Rightarrow> ContextTree \<times> 'w \<Rightarrow> ContextTree \<times> 'w" where
  "OnCloseConnectionManager h s =
     (if length (Stack (fst s)) \<le> 1 then s
      else case TakeEvictedMain (fst s) of (t, prevMain) \<Rightarrow>
        (case Pop h (t, snd s) of
           (s', Some err) \<Rightarrow> s'
         | (s', None) \<Rightarrow> pushPrev h prevMain s'))"

definition closeSettings :: "'w hooks \<Rightarrow> ContextTree \<times> 'w \<Rightarrow> ContextTree \<times> 'w" where
  "closeSettings h s =
     (case TakeEvictedMain (fst s) of (t, prevMain) \<Rightarrow> pushPrev h prevMain (fst (Pop h (t, snd s))))"

end
