(* ===== verification/ContextTreeSpec.thy ===== *)
theory ContextTreeSpec
  imports ContextTree "HOL-Library.Multiset" "HOL-Library.Sublist"
begin

text \<open>
  What the focus stack promises: its shape (a side context only as root, one main context at
  most), that every context is told once of each change, and that closing a modal undoes opening
  it.
\<close>

section \<open>The shape of the stack\<close>

definition isMain :: "cxt \<Rightarrow> bool" where
  "isMain c \<longleftrightarrow> GetKind c = MAIN_CONTEXT"

text \<open>A side context can only be the root, and there is at most one main context.\<close>

definition shape :: "cxt list \<Rightarrow> bool" where
  "shape xs \<longleftrightarrow> list_all (\<lambda>c. GetKind c \<noteq> SIDE_CONTEXT) (tl xs) \<and> length (filter isMain xs) \<le> 1"

abbreviation stack_ok :: "ContextTree \<Rightarrow> bool" where
  "stack_ok t \<equiv> shape (stack t)"

lemma shape_simps [simp]:
  "shape []" "shape [c]" "GetKind c \<noteq> SIDE_CONTEXT \<Longrightarrow> \<not> isMain c \<Longrightarrow> shape (xs @ [c]) \<longleftrightarrow> shape xs"
  by (simp_all add: shape_def tl_append split: list.split)

lemma shape_append_main: "shape xs \<Longrightarrow> filter isMain xs = [] \<Longrightarrow> isMain c \<Longrightarrow> shape (xs @ [c])"
  by (auto simp: shape_def isMain_def tl_append split: list.split)

lemma shape_butlast: "shape xs \<Longrightarrow> shape (butlast xs)"
  by (cases xs rule: rev_cases) (simp_all add: shape_def tl_append split: list.splits if_splits)

lemma shape_removeMain: "shape xs \<Longrightarrow> shape (removeFirst isMain xs) \<and> filter isMain (removeFirst isMain xs) = []"
proof (cases xs)
  case (Cons x ys)
  assume s: "shape xs"
  have "list_all (\<lambda>c. GetKind c \<noteq> SIDE_CONTEXT) (tl (removeFirst isMain xs))"
    using s set_removeFirst [of isMain ys] Cons by (cases ys) (auto simp: shape_def list_all_iff)
  then show ?thesis using s filter_removeFirst [of isMain xs] by (simp add: shape_def)
qed simp

lemma removeMain_eq: "removeMainLocked t = (t\<lparr>stack := removeFirst isMain (stack t), evictedMain := find isMain (stack t)\<rparr>, find isMain (stack t))"
  by (simp add: removeMainLocked_def isMain_def [abs_def] Let_def)

lemma pushLocked_shape: "stack_ok t \<Longrightarrow> stack_ok (fst (pushLocked t c))"
proof (cases "GetKind c")
  case SIDE_CONTEXT
  then show ?thesis by (simp add: pushLocked_def appendLocked_def wipeStackLocked_def)
next
  case MAIN_CONTEXT
  moreover assume "stack_ok t"
  ultimately show ?thesis
    using shape_removeMain [of "stack t"] shape_append_main [of "removeFirst isMain (stack t)" c]
    by (simp add: pushLocked_def appendLocked_def removeMain_eq isMain_def)
next
  case TEMPORARY_POPUP
  moreover assume "stack_ok t"
  ultimately show ?thesis using shape_butlast [of "stack t"]
    by (simp add: pushLocked_def appendLocked_def popOneLocked_def isMain_def split: option.split)
qed (simp_all add: pushLocked_def appendLocked_def isMain_def)

text \<open>What the push does to the stack and to the contexts that lose their place.\<close>

lemma find_removeFirst: "find P xs = Some x \<Longrightarrow> mset xs = add_mset x (mset (removeFirst P xs))"
  by (induction xs) (auto split: if_splits)

lemma subseq_removeFirst: "subseq (removeFirst P xs) xs"
  by (induction xs) auto

lemma pushLocked_moves:
  assumes "pushLocked t c = (t', lost)"
  shows "\<exists>kept. stack t' = kept @ [c] \<and> mset (stack t) = mset kept + mset lost \<and> subseq kept (stack t) \<and> subseq lost (stack t) \<and>
    swapHooks t' = swapHooks t"
proof (cases "GetKind c")
  case MAIN_CONTEXT
  then show ?thesis
    using assms find_removeFirst [of isMain "stack t"] removeFirst_None [of isMain "stack t"] subseq_removeFirst [of isMain "stack t"]
      find_SomeD [of isMain "stack t"]
    by (auto simp: pushLocked_def appendLocked_def removeMain_eq subseq_singleton_left split: option.splits)
next
  case TEMPORARY_POPUP
  then show ?thesis using assms
    by (cases "stack t" rule: rev_cases)
      (auto simp: pushLocked_def appendLocked_def peekLocked_def popOneLocked_def split: if_splits)
qed (use assms in \<open>auto simp: pushLocked_def appendLocked_def wipeStackLocked_def\<close>)

section \<open>Operations keep the shape\<close>

lemma callAll_keeps: "(\<And>c s. I (fst s) \<Longrightarrow> I (fst (fst (h c s)))) \<Longrightarrow> I (fst s) \<Longrightarrow> I (fst (callAll h cs s))"
  by (induction cs arbitrary: s) auto

lemma Push_keeps:
  assumes h: "\<And>c s. I (fst s) \<Longrightarrow> I (fst (fst (h c s)))" and p: "\<And>t. I t \<Longrightarrow> I (fst (pushLocked t c))" and s: "I (fst s)"
  shows "I (fst (fst (Push h c s)))"
proof -
  obtain t w where tw: "s = (t, w)" by force
  obtain t' lost where l: "pushLocked t c = (t', lost)" by force
  let ?s1 = "callAll h (map (\<lambda>v. HandleFocusLost v '''') (rev lost)) (t', w)"
  obtain s2 r where r: "h (HandleFocus c (GetKey c)) ?s1 = (s2, r)" by (rule prod.exhaust)
  have "I t'" using p [of t] s tw l by simp
  then have "I (fst ?s1)" using callAll_keeps [of I h "(t', w)"] h by simp
  then have "I (fst s2)" using h [of ?s1] r by (metis fst_conv)
  then have "I (fst (fireSwapHooks h s2))" unfolding fireSwapHooks_def using callAll_keeps [of I h] h by blast
  with \<open>I (fst s2)\<close> show ?thesis using s tw l r by (auto simp: Push_def split: option.split)
qed

lemma Pop_keeps:
  assumes h: "\<And>c s. I (fst s) \<Longrightarrow> I (fst (fst (h c s)))" and p: "\<And>t. I t \<Longrightarrow> I (t\<lparr>stack := butlast (stack t)\<rparr>)" and s: "I (fst s)"
  shows "I (fst (fst (Pop h s)))"
proof -
  obtain t w where tw: "s = (t, w)" by force
  let ?t = "t\<lparr>stack := butlast (stack t)\<rparr>"
  obtain s1 r1 where r1: "h (HandleFocusLost (last (stack t)) (GetKey (last (butlast (stack t))))) (?t, w) = (s1, r1)" by (rule prod.exhaust)
  obtain s2 r2 where r2: "h (HandleFocus (last (butlast (stack t))) (GetKey (last (butlast (stack t))))) s1 = (s2, r2)" by (rule prod.exhaust)
  have "I ?t" using p s tw by simp
  then have "I (fst s1)" using h [of "(?t, w)"] r1 by (metis fst_conv)
  then have "I (fst s2)" using h [of s1] r2 by (metis fst_conv)
  then have "I (fst (fireSwapHooks h s2))" unfolding fireSwapHooks_def using callAll_keeps [of I h] h by blast
  with \<open>I (fst s1)\<close> \<open>I (fst s2)\<close> show ?thesis using s tw r1 r2 by (auto simp: Pop_def Let_def split: option.split)
qed

lemma shape_replace: "shape xs \<Longrightarrow> xs \<noteq> [] \<Longrightarrow> GetKind c = GetKind (last xs) \<Longrightarrow> shape (xs[length xs - 1 := c])"
proof (cases xs rule: rev_cases)
  case (snoc ys y)
  assume "shape xs" "GetKind c = GetKind (last xs)"
  then show ?thesis using snoc by (cases ys) (auto simp: shape_def isMain_def)
qed simp

text \<open>
  C33. The focus stack keeps its shape: a side context is only ever the root, and there is at most
  one main context.  This holds for every push, pop and close, whatever the contexts' own hooks do
  to the tree while they run, as long as those keep the shape too and whether or not they fail, and
  for a replacement of the top by a context of the same kind.
\<close>

theorem focus_stack_keeps_shape:
  assumes h: "\<And>c s. stack_ok (fst s) \<Longrightarrow> stack_ok (fst (fst (h c s)))" and s: "stack_ok (fst s)"
  shows "stack_ok (fst (fst (Push h c s))) \<and> stack_ok (fst (fst (Pop h s))) \<and> stack_ok (fst (fst (PopIfTop h key s))) \<and>
    (stack (fst s) = [] \<or> GetKind c = CurrentKind (fst s) \<longrightarrow> stack_ok (fst (fst (Replace h c s)))) \<and>
    stack_ok (fst (OnCloseConnectionManager h s)) \<and> stack_ok (fst (closeSettings h s))"
proof -
  have push: "stack_ok (fst (fst (Push h c s)))" if "stack_ok (fst s)" for c s
    by (rule Push_keeps [where I = stack_ok]) (use h pushLocked_shape that in auto)
  have pop: "stack_ok (fst (fst (Pop h s)))" if "stack_ok (fst s)" for s
    by (rule Pop_keeps [where I = stack_ok]) (use h shape_butlast that in auto)
  have prev: "stack_ok (fst (pushPrev h p s))" if "stack_ok (fst s)" for p s
    using push [OF that] that by (simp add: pushPrev_def split: option.split)
  have fire: "stack_ok (fst (fireSwapHooks h s))" if "stack_ok (fst s)" for s
    unfolding fireSwapHooks_def by (rule callAll_keeps [where I = stack_ok]) (use h that in auto)
  have "stack_ok (fst (fst (Replace h c s)))" if "stack (fst s) = [] \<or> GetKind c = CurrentKind (fst s)"
    using that fire s shape_replace [of "stack (fst s)" c]
    by (cases s) (auto simp: Replace_def CurrentKind_def peekLocked_def)
  moreover have taken: "stack_ok (fst (fst (Pop h (fst (TakeEvictedMain (fst s)), snd s))))"
    using pop [of "(fst (TakeEvictedMain (fst s)), snd s)"] s by (simp add: TakeEvictedMain_def)
  moreover have "stack_ok (fst (OnCloseConnectionManager h s))"
    using prev taken s by (fastforce simp: OnCloseConnectionManager_def TakeEvictedMain_def split: option.split prod.split)
  moreover have "stack_ok (fst (closeSettings h s))"
    using prev taken by (auto simp: closeSettings_def TakeEvictedMain_def)
  ultimately show ?thesis using push pop s by (simp add: PopIfTop_def split: option.split)
qed

section \<open>Hooks that only watch\<close>

text \<open>The hooks' state is the list of the calls so far; \<open>errs\<close> says which of them fail.\<close>

definition watching :: "(hook_call \<Rightarrow> ctx_error option) \<Rightarrow> hook_call list hooks" where
  "watching errs c s = ((fst s, snd s @ [c]), errs c)"

lemma callAll_watching [simp]: "callAll (watching errs) cs (t, w) = (t, w @ cs)"
  by (induction cs arbitrary: w) (simp_all add: watching_def)

lemma fire_watching [simp]: "fireSwapHooks (watching errs) (t, w) = (t, w @ map SwapHook (swapHooks t))"
  by (simp add: fireSwapHooks_def)

text \<open>
  Each change of the stack tells every context concerned exactly once.  A push of what is on
  top is a no-op.  Any other push puts the context on top, and the contexts that leave the stack,
  each exactly once and the topmost first, are told they lost the focus before the new one gets it;
  the swap hooks follow in order unless taking the focus failed.  A pop tells the old top, then the
  new one, stopping at the first failure, and the root is never popped.
\<close>

theorem focus_changes_are_told_once:
  assumes "stack t = [] \<or> GetKey (last (stack t)) \<noteq> GetKey c"
  shows "(\<exists>t' kept lost. pushLocked t c = (t', lost) \<and> stack t' = kept @ [c] \<and>
      mset (stack t) = mset kept + mset lost \<and> subseq kept (stack t) \<and> subseq lost (stack t) \<and>
      Push (watching errs) c (t, w) =
        ((t', w @ map (\<lambda>v. HandleFocusLost v '''') (rev lost) @ [HandleFocus c (GetKey c)] @
           (if errs (HandleFocus c (GetKey c)) = None then map SwapHook (swapHooks t) else [])), errs (HandleFocus c (GetKey c))) \<and>
      Push (watching errs) c (t', w) = ((t', w), None)) \<and>
    (length (stack t) \<le> 1 \<longrightarrow> Pop (watching errs) (t, w) = ((t, w), Some ErrPopAtBottom)) \<and>
    (\<forall>xs nw old. stack t = xs @ [nw, old] \<longrightarrow>
       (let t' = t\<lparr>stack := xs @ [nw]\<rparr>; lost = HandleFocusLost old (GetKey nw); got = HandleFocus nw (GetKey nw)
        in Pop (watching errs) (t, w) =
             (if errs lost \<noteq> None then ((t', w @ [lost]), errs lost)
              else if errs got \<noteq> None then ((t', w @ [lost, got]), errs got)
              else ((t', w @ [lost, got] @ map SwapHook (swapHooks t)), None))))"
proof -
  obtain t' lost where l: "pushLocked t c = (t', lost)" by force
  obtain kept where k: "stack t' = kept @ [c]" "mset (stack t) = mset kept + mset lost" "subseq kept (stack t)" "subseq lost (stack t)"
      "swapHooks t' = swapHooks t"
    using pushLocked_moves [OF l] by blast
  have "\<not> (case peekLocked t of Some tp \<Rightarrow> GetKey tp = GetKey c | None \<Rightarrow> False)" using assms by (auto simp: peekLocked_def)
  moreover have "watching errs (HandleFocus c (GetKey c)) (t', v) = ((t', v @ [HandleFocus c (GetKey c)]), errs (HandleFocus c (GetKey c)))" for v
    by (simp add: watching_def)
  ultimately have "Push (watching errs) c (t, w) =
      ((t', w @ map (\<lambda>v. HandleFocusLost v '''') (rev lost) @ [HandleFocus c (GetKey c)] @
         (if errs (HandleFocus c (GetKey c)) = None then map SwapHook (swapHooks t) else [])), errs (HandleFocus c (GetKey c)))"
    using l k(5) by (cases "errs (HandleFocus c (GetKey c))") (simp_all add: Push_def)
  moreover have "Push (watching errs) c (t', w) = ((t', w), None)" using k(1) by (simp add: Push_def peekLocked_def)
  moreover have "Pop (watching errs) (t, w) = ((t, w), Some ErrPopAtBottom)" if "length (stack t) \<le> 1"
    using that by (simp add: Pop_def)
  moreover have "let t' = t\<lparr>stack := xs @ [nw]\<rparr>; lost = HandleFocusLost old (GetKey nw); got = HandleFocus nw (GetKey nw)
        in Pop (watching errs) (t, w) =
             (if errs lost \<noteq> None then ((t', w @ [lost]), errs lost)
              else if errs got \<noteq> None then ((t', w @ [lost, got]), errs got)
              else ((t', w @ [lost, got] @ map SwapHook (swapHooks t)), None))" if "stack t = xs @ [nw, old]" for xs nw old
    using that by (auto simp: Pop_def Let_def watching_def [of errs "HandleFocusLost old (GetKey nw)"]
        watching_def [of errs "HandleFocus nw (GetKey nw)"] butlast_append split: option.split)
  ultimately show ?thesis using l k(1-4) by blast
qed

section \<open>Modals\<close>

lemma push_main:
  assumes "isMain d" "GetKey d \<notin> GetKey ` set (stack t)"
  shows "Push (watching (\<lambda>_. None)) d (t, w) =
    ((t\<lparr>stack := removeFirst isMain (stack t) @ [d], evictedMain := find isMain (stack t)\<rparr>,
      w @ map (\<lambda>v. HandleFocusLost v '''') (case find isMain (stack t) of None \<Rightarrow> [] | Some m \<Rightarrow> [m]) @
        [HandleFocus d (GetKey d)] @ map SwapHook (swapHooks t)), None)"
proof -
  have "\<not> (case peekLocked t of Some tp \<Rightarrow> GetKey tp = GetKey d | None \<Rightarrow> False)"
    using assms(2) by (auto simp: peekLocked_def) (metis image_eqI last_in_set)
  moreover have "pushLocked t d = (t\<lparr>stack := removeFirst isMain (stack t) @ [d], evictedMain := find isMain (stack t)\<rparr>,
      case find isMain (stack t) of None \<Rightarrow> [] | Some m \<Rightarrow> [m])"
    using assms(1) by (simp add: pushLocked_def isMain_def [of d] appendLocked_def removeMain_eq)
  ultimately show ?thesis
    by (simp add: Push_def watching_def [of _ "HandleFocus d (GetKey d)"] split: option.split)
qed


definition rail :: cxt where
  "rail = \<lparr>GetKey = ''tables'', GetKind = SIDE_CONTEXT, object = 0\<rparr>"

definition pane :: cxt where
  "pane = \<lparr>GetKey = ''query_editor'', GetKind = MAIN_CONTEXT, object = 1\<rparr>"

definition modal :: cxt where
  "modal = \<lparr>GetKey = ''settings'', GetKind = MAIN_CONTEXT, object = 2\<rparr>"

definition sample_tree :: ContextTree where
  "sample_tree = \<lparr>stack = [rail, pane], swapHooks = [7], evictedMain = None\<rparr>"

lemmas sample_tree_defs = rail_def pane_def modal_def sample_tree_def

theorem focus_stack_keeps_shape_witness:
  "stack_ok (fst (fst (Push (watching (\<lambda>_. None)) modal (sample_tree, []))))"
  by (rule focus_stack_keeps_shape [where key = "''''", THEN conjunct1])
    (simp_all add: watching_def sample_tree_defs shape_def isMain_def)

theorem focus_changes_are_told_once_witness:
  "snd (fst (Push (watching (\<lambda>_. None)) modal (sample_tree, []))) =
     [HandleFocusLost pane '''', HandleFocus modal ''settings'', SwapHook 7]"
  using focus_changes_are_told_once [of sample_tree modal "\<lambda>_. None" "[]"]
  by (auto simp: sample_tree_defs pushLocked_def removeMainLocked_def appendLocked_def Let_def)


text \<open>A persistent popup does not discard the temporary popup under it.\<close>

lemma persistent_popup_keeps_temporary:
  "peekLocked t = Some p \<Longrightarrow> GetKind p = TEMPORARY_POPUP \<Longrightarrow> GetKind c = PERSISTENT_POPUP \<Longrightarrow>
   stack (fst (pushLocked t c)) = stack t @ [c]"
  by (simp add: pushLocked_def appendLocked_def)

end
