(* ===== verification/ResultJumpList.thy ===== *)
theory ResultJumpList
  imports Prelude
begin

text \<open>
  The jump list of result tabs (\<open>pkg/gui/controllers/helpers/ui/result_jump_list.go\<close>): a bounded
  list of positions, oldest first, and a cursor that is \<open>-1\<close> at the most recent position.  The
  mutex is not modelled; slice aliasing is invisible, since the entries are only handed out as
  copies.
\<close>

record JumpEntry =
  TabSlot :: int
  TabID :: string
  jRow :: int
  jCol :: int
  At :: int
  Tombstone :: bool

record ResultJumpList =
  entries :: "JumpEntry list"
  cursor :: int
  capacity :: int

definition DefaultJumpListCapacity :: int where
  "DefaultJumpListCapacity = 100"

definition NewResultJumpListWithCapacity :: "int \<Rightarrow> ResultJumpList" where
  "NewResultJumpListWithCapacity n =
     \<lparr>entries = [], cursor = -1, capacity = (if n \<le> 0 then DefaultJumpListCapacity else n)\<rparr>"

definition NewResultJumpList :: ResultJumpList where
  "NewResultJumpList = NewResultJumpListWithCapacity DefaultJumpListCapacity"

definition Jump_Push :: "ResultJumpList \<Rightarrow> JumpEntry \<Rightarrow> ResultJumpList" where
  "Jump_Push l e =
     (let es1 = (if 0 \<le> cursor l \<and> cursor l < len (entries l) then take (nat (cursor l + 1)) (entries l) else entries l);
          es2 = (if capacity l \<le> len es1 then tl es1 else es1)
      in l\<lparr>entries := es2 @ [e], cursor := -1\<rparr>)"

text \<open>The loops over the indices, downwards and upwards: the first entry that is no tombstone.\<close>

fun liveDown :: "JumpEntry list \<Rightarrow> nat \<Rightarrow> int option" where
  "liveDown es 0 = None"
| "liveDown es (Suc i) = (if Tombstone (es ! i) then liveDown es i else Some (int i))"

fun liveUp :: "JumpEntry list \<Rightarrow> int \<Rightarrow> int option" where
  "liveUp [] i = None"
| "liveUp (e # es) i = (if Tombstone e then liveUp es (i + 1) else Some i)"

definition Back :: "ResultJumpList \<Rightarrow> ResultJumpList \<times> JumpEntry option" where
  "Back l =
     (if entries l = [] then (l, None)
      else
        let start = (if 0 \<le> cursor l then cursor l - 1 else len (entries l) - 1)
        in case liveDown (entries l) (nat (start + 1)) of
             Some i \<Rightarrow> (l\<lparr>cursor := i\<rparr>, Some (entries l ! nat i))
           | None \<Rightarrow> (l, None))"

definition Forward :: "ResultJumpList \<Rightarrow> ResultJumpList \<times> JumpEntry option" where
  "Forward l =
     (if entries l = [] \<or> cursor l < 0 then (l, None)
      else case liveUp (drop (nat (cursor l + 1)) (entries l)) (cursor l + 1) of
             Some i \<Rightarrow> (l\<lparr>cursor := (if i = len (entries l) - 1 then -1 else i)\<rparr>, Some (entries l ! nat i))
           | None \<Rightarrow> (l, None))"

text \<open>The compaction: \<open>i\<close> is the index of the next entry, \<open>out\<close> what survived so far.\<close>

fun pruneLoop :: "string \<Rightarrow> int \<Rightarrow> JumpEntry list \<Rightarrow> int \<Rightarrow> JumpEntry list \<Rightarrow> int \<Rightarrow> JumpEntry list \<times> int" where
  "pruneLoop tabID cursorAbs [] i out newCursor = (out, newCursor)"
| "pruneLoop tabID cursorAbs (e # es) i out newCursor =
     (if TabID e = tabID then pruneLoop tabID cursorAbs es (i + 1) out newCursor
      else pruneLoop tabID cursorAbs es (i + 1) (out @ [e]) (if cursorAbs = i then len out else newCursor))"

definition PruneByTab :: "ResultJumpList \<Rightarrow> string \<Rightarrow> ResultJumpList" where
  "PruneByTab l tabID =
     (if entries l = [] then l
      else case pruneLoop tabID (cursor l) (entries l) 0 [] (-1) of
        (out, c) \<Rightarrow> l\<lparr>entries := out, cursor := (if len out \<le> c then -1 else c)\<rparr>)"

definition Snapshot :: "ResultJumpList \<Rightarrow> JumpEntry list \<times> int" where
  "Snapshot l = (entries l, cursor l)"

definition Jump_Clear :: "ResultJumpList \<Rightarrow> ResultJumpList" where
  "Jump_Clear l = l\<lparr>entries := [], cursor := -1\<rparr>"

definition Jump_Len :: "ResultJumpList \<Rightarrow> int" where
  "Jump_Len l = len (entries l)"

definition Capacity :: "ResultJumpList \<Rightarrow> int" where
  "Capacity l = capacity l"

section \<open>What the list promises\<close>

definition jump_ok :: "ResultJumpList \<Rightarrow> bool" where
  "jump_ok l \<longleftrightarrow> 0 < capacity l \<and> len (entries l) \<le> capacity l \<and> - 1 \<le> cursor l \<and> cursor l < len (entries l)"

text \<open>
  The list as the user sees it: the positions up to the one walked to (all of them at the most
  recent one), and those walked away from; \<open>here\<close> tells whether the last of the first ones is the
  position walked to.
\<close>

definition walked :: "ResultJumpList \<Rightarrow> JumpEntry list \<times> JumpEntry list" where
  "walked l = (if cursor l < 0 then (entries l, []) else (take (nat (cursor l + 1)) (entries l), drop (nat (cursor l + 1)) (entries l)))"

lemma liveDown_Some: "n \<le> length es \<Longrightarrow> liveDown es n = Some i \<Longrightarrow>
    0 \<le> i \<and> i < int n \<and> \<not> Tombstone (es ! nat i) \<and> (\<forall>j. nat i < j \<and> j < n \<longrightarrow> Tombstone (es ! j))"
proof (induction n)
  case (Suc n)
  then show ?case by (auto split: if_splits simp: less_Suc_eq)
qed simp

lemma liveDown_None: "liveDown es n = None \<longleftrightarrow> (\<forall>j < n. Tombstone (es ! j))"
  by (induction n) (auto simp: less_Suc_eq)

lemma liveUp_Some: "liveUp es i = Some k \<Longrightarrow>
    i \<le> k \<and> k < i + len es \<and> \<not> Tombstone (es ! nat (k - i)) \<and> (\<forall>j. j < nat (k - i) \<longrightarrow> Tombstone (es ! j))"
proof (induction es i rule: liveUp.induct)
  case (2 e es i)
  show ?case
  proof (cases "Tombstone e")
    case True
    then have h: "i + 1 \<le> k \<and> k < i + 1 + len es \<and> \<not> Tombstone (es ! nat (k - (i + 1))) \<and> (\<forall>j. j < nat (k - (i + 1)) \<longrightarrow> Tombstone (es ! j))"
      using 2 by simp
    then have n: "nat (k - i) = Suc (nat (k - (i + 1)))" by (simp add: Suc_nat_eq_nat_zadd1)
    have "Tombstone ((e # es) ! j)" if "j < nat (k - i)" for j
      using that h True n by (cases j) auto
    then show ?thesis using h n by simp
  next
    case False
    then show ?thesis using "2.prems" by simp
  qed
qed simp

lemma liveUp_None: "liveUp es i = None \<longleftrightarrow> list_all Tombstone es"
  by (induction es i rule: liveUp.induct) auto

lemma prune_loop:
  "pruneLoop t c es i out n =
     (out @ filter (\<lambda>e. TabID e \<noteq> t) es,
      if i \<le> c \<and> c < i + len es \<and> TabID (es ! nat (c - i)) \<noteq> t
      then len (out @ filter (\<lambda>e. TabID e \<noteq> t) (take (nat (c - i)) es)) else n)"
proof (induction t c es i out n rule: pruneLoop.induct)
  case (2 t c e es i out n)
  show ?case
  proof (cases "c = i")
    case False
    have "nat (c - i) = Suc (nat (c - (i + 1)))" if "i \<le> c" using that False by simp
    then show ?thesis using 2 False by auto
  qed (use 2 in auto)
qed simp

text \<open>The entries \<open>Back\<close> can reach, in the order of the list.\<close>

definition behind :: "ResultJumpList \<Rightarrow> JumpEntry list" where
  "behind l = (if cursor l < 0 then entries l else take (nat (cursor l)) (entries l))"

lemma Push_walked:
  assumes "jump_ok l"
  shows "walked (Jump_Push l e) =
      ((if Capacity l \<le> len (fst (walked l)) then tl (fst (walked l)) else fst (walked l)) @ [e], []) \<and> jump_ok (Jump_Push l e)"
  using assms by (auto simp: walked_def Jump_Push_def Let_def Capacity_def jump_ok_def min_def)

lemma Back_walked:
  assumes "jump_ok l" "Back l = (l', r)"
  shows "jump_ok l' \<and> entries l' = entries l \<and>
    (case r of
       None \<Rightarrow> l' = l \<and> list_all Tombstone (behind l)
     | Some e \<Rightarrow> \<not> Tombstone e \<and> (\<exists>older skipped. behind l = older @ [e] @ skipped \<and> list_all Tombstone skipped \<and>
         fst (walked l') = older @ [e]))"
proof (cases "entries l = []")
  case False
  let ?n = "length (behind l)"
  have n: "?n \<le> length (entries l)" "behind l = take ?n (entries l)"
      "nat ((if 0 \<le> cursor l then cursor l - 1 else len (entries l) - 1) + 1) = ?n"
    using assms(1) False by (auto simp: behind_def jump_ok_def)
  show ?thesis
  proof (cases "liveDown (entries l) ?n")
    case None
    then have "list_all Tombstone (behind l)" using n liveDown_None [of "entries l" ?n] by (metis (no_types, lifting) list_all_length nth_take)
    then show ?thesis using None assms n(3) False by (simp add: Back_def Let_def)
  next
    case (Some i)
    have i: "0 \<le> i" "nat i < ?n" "\<not> Tombstone (entries l ! nat i)" "\<And>j. nat i < j \<Longrightarrow> j < ?n \<Longrightarrow> Tombstone (entries l ! j)"
      using liveDown_Some [OF n(1) Some] by auto
    have r: "l' = l\<lparr>cursor := i\<rparr>" "r = Some (entries l ! nat i)" using Some assms(2) n(3) False by (simp_all add: Back_def Let_def)
    have "behind l = take (nat i) (behind l) @ [behind l ! nat i] @ drop (Suc (nat i)) (behind l)"
      using i(2) by (rule around_nth)
    moreover have b: "behind l ! k = entries l ! k" if "k < ?n" for k using that n(2) by (metis nth_take)
    moreover have "list_all Tombstone (drop (Suc (nat i)) (behind l))" using i(4) b by (simp add: list_all_length)
    moreover have "fst (walked l') = take (nat i) (behind l) @ [behind l ! nat i]"
    proof -
      have "nat (i + 1) = Suc (nat i)" using i(1) by simp
      then have "fst (walked l') = take (Suc (nat i)) (entries l)" using r(1) i(1) by (simp add: walked_def)
      also have "\<dots> = take (Suc (nat i)) (behind l)" using n(2) i(2) by (metis Suc_leI min.absorb1 take_take)
      finally show ?thesis using i(2) by (simp add: take_Suc_conv_app_nth)
    qed
    ultimately show ?thesis using r i assms(1) n(1) b [OF i(2)] by (auto simp: jump_ok_def)
  qed
qed (use assms in \<open>auto simp: Back_def behind_def\<close>)

lemma Forward_walked:
  assumes "jump_ok l" "Forward l = (l', r)"
  shows "jump_ok l' \<and> entries l' = entries l \<and>
    (case r of
       None \<Rightarrow> l' = l \<and> list_all Tombstone (snd (walked l))
     | Some e \<Rightarrow> \<not> Tombstone e \<and> (\<exists>skipped newer. snd (walked l) = skipped @ [e] @ newer \<and> list_all Tombstone skipped \<and>
         walked l' = (fst (walked l) @ skipped @ [e], newer)))"
proof (cases "cursor l < 0 \<or> entries l = []")
  case False
  let ?c = "nat (cursor l + 1)" and ?fs = "drop (nat (cursor l + 1)) (entries l)"
  have w: "walked l = (take ?c (entries l), ?fs)" and c: "cursor l + 1 = int ?c" "?c \<le> length (entries l)"
    using False assms(1) by (simp_all add: walked_def jump_ok_def nat_le_iff)
  show ?thesis
  proof (cases "liveUp ?fs (cursor l + 1)")
    case None
    then show ?thesis using assms False w liveUp_None [of ?fs "cursor l + 1"] by (simp add: Forward_def)
  next
    case (Some k)
    define m where "m = nat (k - (cursor l + 1))"
    have k: "k = int (?c + m)" "m < length ?fs" "\<not> Tombstone (?fs ! m)" "\<And>j. j < m \<Longrightarrow> Tombstone (?fs ! j)"
    proof -
      note h = liveUp_Some [OF Some]
      have m: "int m = k - (cursor l + 1)" using h by (simp add: m_def)
      show "k = int (?c + m)" using m c(1) by simp
      show "m < length ?fs" using h m by linarith
      show "\<not> Tombstone (?fs ! m)" "\<And>j. j < m \<Longrightarrow> Tombstone (?fs ! j)" using h by (simp_all add: m_def)
    qed
    have "nat k = ?c + m" using k(1) by (simp only: nat_int)
    then have at: "entries l ! nat k = ?fs ! m" using c(2) by simp
    have r: "l' = l\<lparr>cursor := (if k = len (entries l) - 1 then -1 else k)\<rparr>" "r = Some (?fs ! m)"
      using Some assms(2) False at by (simp_all add: Forward_def)
    have split: "?fs = take m ?fs @ [?fs ! m] @ drop (Suc m) ?fs" using k(2) by (rule around_nth)
    have "walked l' = (take (Suc (?c + m)) (entries l), drop (Suc (?c + m)) (entries l))"
    proof (cases "k = len (entries l) - 1")
      case True
      then have "length (entries l) = Suc (?c + m)" using k(1) by linarith
      then show ?thesis using True r(1) by (simp add: walked_def)
    next
      case False
      have "nat (k + 1) = Suc (?c + m)" "\<not> k < 0" using k(1) by linarith+
      then show ?thesis using False r(1) by (simp add: walked_def)
    qed
    also have "\<dots> = (take ?c (entries l) @ take m ?fs @ [?fs ! m], drop (Suc m) ?fs)"
    proof -
      have "take (Suc (?c + m)) (entries l) = take ?c (entries l) @ take (Suc m) ?fs" by (metis add_Suc_right take_add)
      moreover have "drop (Suc (?c + m)) (entries l) = drop (Suc m) ?fs" by (simp add: add.commute)
      ultimately show ?thesis using k(2) by (simp only: take_Suc_conv_app_nth)
    qed
    finally have "walked l' = (take ?c (entries l) @ take m ?fs @ [?fs ! m], drop (Suc m) ?fs)" .
    moreover have "list_all Tombstone (take m ?fs)" using k(4) by (simp add: list_all_length)
    ultimately show ?thesis using r split w k assms(1) by (auto simp: jump_ok_def)
  qed
qed (use assms in \<open>auto simp: Forward_def walked_def\<close>)

lemma Prune_walked:
  assumes "jump_ok l"
  shows "jump_ok (PruneByTab l t) \<and> entries (PruneByTab l t) = filter (\<lambda>e. TabID e \<noteq> t) (entries l) \<and>
    (if 0 \<le> cursor l \<and> TabID (entries l ! nat (cursor l)) \<noteq> t
     then walked (PruneByTab l t) = (filter (\<lambda>e. TabID e \<noteq> t) (fst (walked l)), filter (\<lambda>e. TabID e \<noteq> t) (snd (walked l))) \<and>
       last (fst (walked (PruneByTab l t))) = entries l ! nat (cursor l)
     else cursor (PruneByTab l t) = -1)"
proof (cases "entries l = []")
  case False
  let ?P = "\<lambda>e. TabID e \<noteq> t" and ?i = "nat (cursor l)"
  have len: "length (filter ?P (entries l)) \<le> length (entries l)" by simp
  show ?thesis
  proof (cases "0 \<le> cursor l \<and> ?P (entries l ! ?i)")
    case True
    then have i: "0 \<le> cursor l" "?P (entries l ! ?i)" "?i < length (entries l)" "cursor l = int ?i"
      using assms by (auto simp: jump_ok_def)
    let ?xs = "filter ?P (take ?i (entries l))" and ?ys = "filter ?P (drop (Suc ?i) (entries l))"
    have f: "filter ?P (entries l) = ?xs @ [entries l ! ?i] @ ?ys"
      using id_take_nth_drop [OF i(3)] i(2) by (metis (mono_tags, lifting) append_Cons append_Nil filter.simps(2) filter_append)
    have p: "PruneByTab l t = l\<lparr>entries := filter ?P (entries l), cursor := len ?xs\<rparr>"
    proof -
      have "cursor l < 0 + len (entries l)" using i(3,4) by linarith
      then have "pruneLoop t (cursor l) (entries l) 0 [] (-1) = (filter ?P (entries l), len ?xs)"
        using i(1,2) unfolding prune_loop by simp
      moreover have "len ?xs < len (filter ?P (entries l))" unfolding f by simp
      ultimately show ?thesis using \<open>entries l \<noteq> []\<close> by (simp add: PruneByTab_def)
    qed
    have c: "nat (cursor l + 1) = Suc ?i" using i(1) by simp
    have t: "take (Suc ?i) (entries l) = take ?i (entries l) @ [entries l ! ?i]" using i(3) by (simp add: take_Suc_conv_app_nth)
    have "walked (PruneByTab l t) = (?xs @ [entries l ! ?i], ?ys)"
      unfolding p walked_def by (simp add: f nat_add_distrib)
    moreover have "entries (PruneByTab l t) = filter ?P (entries l)" "jump_ok (PruneByTab l t)"
      unfolding p using assms len f by (simp_all add: jump_ok_def)
    moreover have "fst (walked l) = take ?i (entries l) @ [entries l ! ?i]" "snd (walked l) = drop (Suc ?i) (entries l)"
      using i(1) t by (simp_all add: walked_def c)
    ultimately show ?thesis using i(1,2) by simp
  next
    case False
    have "PruneByTab l t = l\<lparr>entries := filter ?P (entries l), cursor := -1\<rparr>"
      using False \<open>entries l \<noteq> []\<close> by (auto simp: PruneByTab_def prune_loop)
    moreover have "len (filter ?P (entries l)) \<le> capacity l" using assms len unfolding jump_ok_def by linarith
    ultimately show ?thesis using False assms by (auto simp: jump_ok_def)
  qed
qed (use assms in \<open>auto simp: PruneByTab_def jump_ok_def\<close>)

lemma first_live: "list_all Tombstone xs \<Longrightarrow> \<not> Tombstone e \<Longrightarrow> find (\<lambda>e. \<not> Tombstone e) (xs @ e # ys) = Some e"
  by (induction xs) auto

lemma Back_then_Forward:
  assumes "jump_ok l" "0 \<le> cursor l" "\<not> Tombstone (entries l ! nat (cursor l))" "Back l = (l', Some e)"
  shows "snd (Forward l') = Some (entries l ! nat (cursor l))"
proof -
  let ?here = "entries l ! nat (cursor l)"
  obtain older skipped where b: "behind l = older @ [e] @ skipped" "list_all Tombstone skipped" "fst (walked l') = older @ [e]"
      "entries l' = entries l" "jump_ok l'"
    using Back_walked [OF assms(1,4)] by auto
  have i: "nat (cursor l) < length (entries l)" using assms(1,2) by (simp add: jump_ok_def nat_less_iff)
  have "entries l = older @ [e] @ skipped @ [?here] @ drop (Suc (nat (cursor l))) (entries l)"
    using around_nth [OF i] b(1) assms(2) by (simp add: behind_def)
  moreover have "entries l' = fst (walked l') @ snd (walked l')" by (simp add: walked_def)
  ultimately have "older @ [e] @ snd (walked l') = older @ [e] @ skipped @ [?here] @ drop (Suc (nat (cursor l))) (entries l)"
    using b(3,4) by simp
  then have w: "snd (walked l') = skipped @ ?here # drop (Suc (nat (cursor l))) (entries l)" by simp
  obtain l2 r where f: "Forward l' = (l2, r)" by force
  note fw = Forward_walked [OF b(5) f]
  show ?thesis
  proof (cases r)
    case None
    then show ?thesis using fw w assms(3) by simp
  next
    case (Some e')
    then obtain sk nw where "snd (walked l') = sk @ e' # nw" "list_all Tombstone sk" "\<not> Tombstone e'" using fw by auto
    then have "e' = ?here" using first_live [of sk e' nw] first_live [OF b(2) assms(3)] w by (metis option.inject)
    then show ?thesis using f Some by simp
  qed
qed

text \<open>
  The jump list is a bounded line of visited positions with a place on it.  A push drops what
  lies ahead and, when full, the oldest position, and puts the new one at the end.  Going back
  stops at the nearest live position behind, going forward at the nearest one ahead, nothing being
  lost or reordered, and each fails exactly when there is none; forward after back returns to where
  one was.  Closing a tab removes exactly its positions and keeps the place, or goes to the most
  recent position when the place was on that tab.
\<close>

theorem jump_list_walks:
  assumes "jump_ok l" "Back l = (b, r)" "Forward l = (f, q)"
  shows "jump_ok (Jump_Push l e) \<and> jump_ok b \<and> jump_ok f \<and> jump_ok (PruneByTab l t) \<and>
    walked (Jump_Push l e) = ((if Capacity l \<le> len (fst (walked l)) then tl (fst (walked l)) else fst (walked l)) @ [e], []) \<and>
    entries b = entries l \<and>
    (case r of
       None \<Rightarrow> b = l \<and> list_all Tombstone (behind l)
     | Some x \<Rightarrow> \<not> Tombstone x \<and> (\<exists>older skipped. behind l = older @ [x] @ skipped \<and> list_all Tombstone skipped \<and>
         fst (walked b) = older @ [x])) \<and>
    entries f = entries l \<and>
    (case q of
       None \<Rightarrow> f = l \<and> list_all Tombstone (snd (walked l))
     | Some x \<Rightarrow> \<not> Tombstone x \<and> (\<exists>skipped newer. snd (walked l) = skipped @ [x] @ newer \<and> list_all Tombstone skipped \<and>
         walked f = (fst (walked l) @ skipped @ [x], newer))) \<and>
    (r \<noteq> None \<and> 0 \<le> cursor l \<and> \<not> Tombstone (entries l ! nat (cursor l)) \<longrightarrow>
       snd (Forward b) = Some (entries l ! nat (cursor l))) \<and>
    entries (PruneByTab l t) = filter (\<lambda>e. TabID e \<noteq> t) (entries l) \<and>
    (if 0 \<le> cursor l \<and> TabID (entries l ! nat (cursor l)) \<noteq> t
     then walked (PruneByTab l t) = (filter (\<lambda>e. TabID e \<noteq> t) (fst (walked l)), filter (\<lambda>e. TabID e \<noteq> t) (snd (walked l))) \<and>
       last (fst (walked (PruneByTab l t))) = entries l ! nat (cursor l)
     else cursor (PruneByTab l t) = -1)"
  using Push_walked [OF assms(1), of e] Back_walked [OF assms(1,2)] Forward_walked [OF assms(1,3)] Prune_walked [OF assms(1), of t]
    Back_then_Forward [OF assms(1)] assms(2)
  by (intro conjI; (blast | auto))

definition sample_jumps :: ResultJumpList where
  "sample_jumps =
     (let j = (\<lambda>n. \<lparr>TabSlot = n, TabID = ''a'', jRow = n, jCol = 0, At = n, Tombstone = False\<rparr>)
      in fst (Back (fst (Back (foldl Jump_Push NewResultJumpList [j 1, j 2, j 3])))))"

theorem jump_list_walks_witness:
  "cursor sample_jumps = 1 \<and> map jRow (fst (walked (Jump_Push sample_jumps (entries sample_jumps ! 0)))) = [1, 2, 1]"
proof -
  have s: "jump_ok sample_jumps" "cursor sample_jumps = 1" "map jRow (fst (walked sample_jumps)) = [1, 2]" "Capacity sample_jumps = 100"
      "jRow (entries sample_jumps ! 0) = 1"
    by (simp_all add: sample_jumps_def NewResultJumpList_def NewResultJumpListWithCapacity_def DefaultJumpListCapacity_def Jump_Push_def
        Back_def Let_def jump_ok_def walked_def Capacity_def eval_nat_numeral)
  then have "length (fst (walked sample_jumps)) = 2" by (metis length_map list.size(3,4) Suc_1 One_nat_def add_0 plus_1_eq_Suc add.commute)
  then show ?thesis
    using jump_list_walks [OF s(1) prod.collapse [symmetric] prod.collapse [symmetric], of "entries sample_jumps ! 0"] s by simp
qed

end
