(* ===== verification/CliAccess.thy ===== *)
theory CliAccess
  imports Prelude
begin

text \<open>
  The access policy of non-interactive commands (\<open>pkg/models/cli_access.go\<close>), the part of a saved
  connection they read (\<open>pkg/models/connection.go\<close>), and the public errors (\<open>pkg/cli/errors.go\<close>).
\<close>

section \<open>Access policies\<close>

definition CLIAccessDisabled :: string where "CLIAccessDisabled = ''disabled''"
definition CLIAccessMetadata :: string where "CLIAccessMetadata = ''metadata''"
definition CLIAccessRowRead :: string where "CLIAccessRowRead = ''row-read''"
definition CLIAccessFull :: string where "CLIAccessFull = ''full''"

lemmas access_names = CLIAccessDisabled_def CLIAccessMetadata_def CLIAccessRowRead_def CLIAccessFull_def

definition CLIAccess_Validate :: "string \<Rightarrow> bool" where
  "CLIAccess_Validate a \<longleftrightarrow>
     a = '''' \<or> a = CLIAccessDisabled \<or> a = CLIAccessMetadata \<or> a = CLIAccessRowRead \<or> a = CLIAccessFull"

text \<open>
  The YAML node as the code reads it: whether it is a scalar, its tag and its value.  The result is
  the new value of the policy and whether the node was accepted.
\<close>

record yaml_node =
  isScalar :: bool
  Tag :: string
  Value :: string

definition UnmarshalYAML :: "string \<Rightarrow> yaml_node \<Rightarrow> string \<times> bool" where
  "UnmarshalYAML a node =
     (if \<not> isScalar node \<or> Tag node \<noteq> ''!!str'' then (a, False)
      else if \<not> CLIAccess_Validate (Value node) then (a, False)
      else (Value node, True))"

record Connection =
  Name :: string
  Driver :: string
  DSN :: string
  Host :: string
  Port :: int
  User :: string
  Database :: string
  SSLMode :: string
  CLIAccess :: string
  ReadOnly :: bool
  CLIHistory :: bool
  ConfirmWrites :: bool
  ConfirmDDL :: bool
  StatementTimeout :: string
  Role :: string

definition EffectiveCLIAccess :: "Connection \<Rightarrow> string" where
  "EffectiveCLIAccess c =
     (if CLIAccess c = CLIAccessMetadata \<or> CLIAccess c = CLIAccessRowRead \<or> CLIAccess c = CLIAccessFull
      then CLIAccess c else CLIAccessDisabled)"

definition AllowsCLIAccess :: "string \<Rightarrow> string \<Rightarrow> bool" where
  "AllowsCLIAccess a required \<longleftrightarrow>
     (if required = '''' \<or> required = CLIAccessMetadata
      then a = CLIAccessMetadata \<or> a = CLIAccessRowRead \<or> a = CLIAccessFull
      else if required = CLIAccessRowRead then a = CLIAccessRowRead \<or> a = CLIAccessFull
      else if required = CLIAccessFull then a = CLIAccessFull
      else False)"

section \<open>Public errors\<close>

text \<open>An error of a command is its code, a text; only the listed ones are ever published.\<close>

type_synonym ErrorCode = string

definition exitOf :: "(ErrorCode \<times> int) list" where
  "exitOf =
     [(''INVALID_INPUT'', 2), (''UNSUPPORTED_SQL'', 2), (''CONNECTION_UNAVAILABLE'', 3), (''CREDENTIALS_UNAVAILABLE'', 3),
      (''TRUST_REQUIRED'', 3), (''UNSUPPORTED_PGPASS_FAILOVER'', 3), (''POLICY_DENIED'', 4), (''APPROVAL_REQUIRED'', 4),
      (''APPROVAL_MISMATCH'', 4), (''APPROVAL_UNAVAILABLE'', 4), (''APPROVAL_CANCELLED'', 4), (''INCOMPLETE_TRANSACTION'', 5),
      (''DATABASE_FAILURE'', 5), (''OBJECT_NOT_FOUND'', 5), (''TIMEOUT'', 6), (''RESOURCE_FAILURE'', 7)]"

definition publicCode :: "ErrorCode \<Rightarrow> bool" where
  "publicCode c \<longleftrightarrow> map_of exitOf c \<noteq> None"

text \<open>
  What an error can be: a cancelled context, one of the package's own errors, an error of the
  driver with its SQLSTATE, the errors of the credential and tunnel packages with their codes, the
  driver's report that a COMMIT rolled back, or any other.
\<close>

record MachineError =
  mCode :: ErrorCode
  SQLState :: string

datatype gerr = CtxErr | PublicErr MachineError | MachineErr MachineError | CredentialErr ErrorCode | TunnelErr ErrorCode
  | PgErr string | TxCommitRollback | OtherErr

definition mkErr :: "ErrorCode \<Rightarrow> MachineError" where
  "mkErr c = \<lparr>mCode = c, SQLState = ''''\<rparr>"

definition safeError :: "gerr \<Rightarrow> MachineError" where
  "safeError e = (case e of
     CtxErr \<Rightarrow> mkErr ''TIMEOUT''
   | PublicErr p \<Rightarrow> if publicCode (mCode p) then p else mkErr ''RESOURCE_FAILURE''
   | _ \<Rightarrow> mkErr ''RESOURCE_FAILURE'')"

definition PublicMachineError :: "gerr \<Rightarrow> MachineError" where
  "PublicMachineError e = (case e of
     MachineErr m \<Rightarrow> if publicCode (mCode m) then m else safeError e
   | _ \<Rightarrow> safeError e)"

definition exitCode :: "MachineError \<Rightarrow> int" where
  "exitCode p = (case map_of exitOf (mCode p) of Some n \<Rightarrow> n | None \<Rightarrow> 7)"

section \<open>What the policies promise\<close>

text \<open>The strength of a policy: what is not one of the three enabling words grants nothing.\<close>

definition strength :: "string \<Rightarrow> nat" where
  "strength a = (if a = CLIAccessMetadata then 1 else if a = CLIAccessRowRead then 2 else if a = CLIAccessFull then 3 else 0)"

definition demand :: "string \<Rightarrow> nat" where
  "demand r = (if r = '''' then 1 else if strength r = 0 then 4 else strength r)"

lemma access_distinct [simp]:
  "CLIAccessDisabled \<noteq> CLIAccessMetadata" "CLIAccessDisabled \<noteq> CLIAccessRowRead" "CLIAccessDisabled \<noteq> CLIAccessFull"
  "CLIAccessMetadata \<noteq> CLIAccessDisabled" "CLIAccessRowRead \<noteq> CLIAccessDisabled" "CLIAccessFull \<noteq> CLIAccessDisabled"
  "CLIAccessMetadata \<noteq> CLIAccessRowRead" "CLIAccessMetadata \<noteq> CLIAccessFull" "CLIAccessRowRead \<noteq> CLIAccessFull"
  "CLIAccessRowRead \<noteq> CLIAccessMetadata" "CLIAccessFull \<noteq> CLIAccessMetadata" "CLIAccessFull \<noteq> CLIAccessRowRead"
  "CLIAccessDisabled \<noteq> []" "CLIAccessMetadata \<noteq> []" "CLIAccessRowRead \<noteq> []" "CLIAccessFull \<noteq> []"
  by (simp_all add: access_names)

lemma strength_levels:
  "1 \<le> strength a \<longleftrightarrow> a = CLIAccessMetadata \<or> a = CLIAccessRowRead \<or> a = CLIAccessFull"
  "2 \<le> strength a \<longleftrightarrow> a = CLIAccessRowRead \<or> a = CLIAccessFull"
  "3 \<le> strength a \<longleftrightarrow> a = CLIAccessFull"
  "strength a \<le> 3"
  by (simp_all add: strength_def)

lemma demand_levels:
  "demand [] = 1" "demand CLIAccessMetadata = 1" "demand CLIAccessRowRead = 2" "demand CLIAccessFull = 3"
  "r \<noteq> [] \<Longrightarrow> r \<noteq> CLIAccessMetadata \<Longrightarrow> r \<noteq> CLIAccessRowRead \<Longrightarrow> r \<noteq> CLIAccessFull \<Longrightarrow> demand r = 4"
  by (simp_all add: demand_def strength_def)

lemma allows_strength: "AllowsCLIAccess a r \<longleftrightarrow> demand r \<le> strength a"
proof -
  consider "r = []" | "r = CLIAccessMetadata" | "r = CLIAccessRowRead" | "r = CLIAccessFull"
    | "r \<noteq> []" "r \<noteq> CLIAccessMetadata" "r \<noteq> CLIAccessRowRead" "r \<noteq> CLIAccessFull" by blast
  then show ?thesis
  proof cases
    case 5
    then show ?thesis using strength_levels(4) [of a] demand_levels(5) [of r] by (simp add: AllowsCLIAccess_def)
  qed (simp_all only: demand_levels strength_levels, simp_all add: AllowsCLIAccess_def)
qed

lemma effective_strength: "strength (EffectiveCLIAccess c) = strength (CLIAccess c)"
  by (simp add: EffectiveCLIAccess_def strength_def)

text \<open>
  C39. The access policy is a type of four levels, and it fails closed.  Reading it from YAML either
  stores one of the known words or changes nothing and reports an error; the effective policy of
  a connection is always one of the four words; a requirement is granted exactly when the policy is
  at least as strong, so more access never grants less, and a disabled, empty or unknown policy, and
  an unknown requirement or the word disabled as one, grant nothing.
\<close>

theorem cli_access_is_ordered:
  "(let (a', ok) = UnmarshalYAML a node in
      if ok then a' = Value node \<and> a' \<in> {'''', CLIAccessDisabled, CLIAccessMetadata, CLIAccessRowRead, CLIAccessFull} else a' = a) \<and>
   EffectiveCLIAccess c \<in> {CLIAccessDisabled, CLIAccessMetadata, CLIAccessRowRead, CLIAccessFull} \<and>
   (AllowsCLIAccess (EffectiveCLIAccess c) r \<longleftrightarrow> demand r \<le> strength (CLIAccess c)) \<and>
   (if AllowsCLIAccess a r \<and> strength a \<le> strength b then AllowsCLIAccess b r else True) \<and>
   \<not> AllowsCLIAccess CLIAccessDisabled r \<and> \<not> AllowsCLIAccess '''' r \<and> \<not> AllowsCLIAccess a CLIAccessDisabled \<and>
   \<not> AllowsCLIAccess (EffectiveCLIAccess (c\<lparr>CLIAccess := ''readonly''\<rparr>)) r"
proof -
  have z: "strength CLIAccessDisabled = 0" "strength '''' = 0" "strength ''readonly'' = 0" "demand CLIAccessDisabled = 4"
    by (simp_all add: strength_def demand_def access_names)
  have "0 < demand r" "strength a \<le> 3" by (auto simp: demand_def strength_def)
  then have "\<not> AllowsCLIAccess CLIAccessDisabled r" "\<not> AllowsCLIAccess '''' r" "\<not> AllowsCLIAccess a CLIAccessDisabled"
      "\<not> AllowsCLIAccess (EffectiveCLIAccess (c\<lparr>CLIAccess := ''readonly''\<rparr>)) r"
    by (simp_all add: allows_strength effective_strength z)
  moreover have "EffectiveCLIAccess c \<in> {CLIAccessDisabled, CLIAccessMetadata, CLIAccessRowRead, CLIAccessFull}"
    by (auto simp: EffectiveCLIAccess_def)
  moreover have "let (a', ok) = UnmarshalYAML a node in
      if ok then a' = Value node \<and> a' \<in> {'''', CLIAccessDisabled, CLIAccessMetadata, CLIAccessRowRead, CLIAccessFull} else a' = a"
    by (auto simp: UnmarshalYAML_def CLIAccess_Validate_def)
  ultimately show ?thesis by (simp add: allows_strength effective_strength)
qed

text \<open>Whatever goes wrong inside, what is published is one of the listed codes.\<close>

lemma listed_codes [simp]: "publicCode ''TIMEOUT''" "publicCode ''RESOURCE_FAILURE''"
  by (simp_all add: publicCode_def exitOf_def)

lemma published_codes: "publicCode (mCode (PublicMachineError e))" "publicCode (mCode (safeError e))"
  by (auto simp: PublicMachineError_def safeError_def mkErr_def split: gerr.split)

end
