(* ===== verification/ByteText.thy ===== *)
theory ByteText
  imports CliLexer
begin

text \<open>
  Operations of Go's \<open>strings\<close> package on byte strings that several components use: trimming white
  space, replacing every occurrence, splitting at the first occurrence; and the decimal text of numbers.
\<close>

section \<open>Prefixes\<close>

text \<open>\<open>strings.HasPrefix(s, p)\<close>.\<close>

definition prefixOf :: "string \<Rightarrow> string \<Rightarrow> bool" where
  "prefixOf p s \<longleftrightarrow> take (length p) s = p"

section \<open>White space\<close>

text \<open>The code point of a valid sequence.\<close>

definition runeOf :: "string \<Rightarrow> rune" where
  "runeOf s =
     foldl (\<lambda>v c. v * 64 + byte c mod 64)
       (if length s \<le> 1 then byte (hd s) else byte (hd s) mod (if length s = 2 then 32 else if length s = 3 then 16 else 8))
       (tl s)"

text \<open>Whether the first \<open>n\<close> bytes are one space character.\<close>

definition spaceAt :: "string \<Rightarrow> nat \<Rightarrow> bool" where
  "spaceAt s n \<longleftrightarrow> s \<noteq> [] \<and> n \<le> length s \<and> utf8_seq s = n \<and> unicode_IsSpace (runeOf (take n s))"

function trimLeft :: "string \<Rightarrow> string" where
  "trimLeft s = (if 0 < utf8_seq s \<and> spaceAt s (utf8_seq s) then trimLeft (drop (utf8_seq s) s) else s)"
  by auto
termination by (relation "measure length") (auto simp: spaceAt_def)

text \<open>A space at the end takes one to three bytes.\<close>

function trimRight :: "string \<Rightarrow> string" where
  "trimRight s =
     (case find (\<lambda>n. n \<le> length s \<and> spaceAt (drop (length s - n) s) n) [1, 2, 3] of
        Some n \<Rightarrow> if s = [] \<or> n = 0 then s else trimRight (take (length s - n) s)
      | None \<Rightarrow> s)"
  by auto
termination by (relation "measure length") auto

declare trimLeft.simps [simp del] trimRight.simps [simp del]

definition TrimBytes :: "string \<Rightarrow> string" where
  "TrimBytes s = trimRight (trimLeft s)"

definition plainByte :: "char \<Rightarrow> bool" where
  "plainByte c \<longleftrightarrow> byte c < 128 \<and> \<not> unicode_IsSpace (byte c)"

lemma trimLeft_plain: "s = [] \<or> plainByte (hd s) \<Longrightarrow> trimLeft s = s"
  by (subst trimLeft.simps, cases s) (auto simp: spaceAt_def plainByte_def utf8_seq_def runeOf_def)

lemma utf8_seq_plain_last: "s \<noteq> [] \<Longrightarrow> byte (last s) < 128 \<Longrightarrow> utf8_seq s = length s \<Longrightarrow> length s = 1"
  by (auto simp: utf8_seq_def cont_def inBytes_def split: if_splits list.splits)

lemma trimRight_plain:
  assumes "s = [] \<or> plainByte (last s)"
  shows "trimRight s = s"
proof (cases "s = []")
  case True then show ?thesis by (simp add: trimRight.simps spaceAt_def)
next
  case False
  have "\<not> spaceAt (drop (length s - n) s) n" if "n \<in> {1, 2, 3}" "n \<le> length s" for n
  proof
    assume sp: "spaceAt (drop (length s - n) s) n"
    let ?d = "drop (length s - n) s"
    have l: "last ?d = last s" "length ?d = n" "?d \<noteq> []" using that False by auto
    have "n = 1" using utf8_seq_plain_last [of ?d] sp l assms False by (simp add: spaceAt_def plainByte_def)
    then obtain x where "?d = [x]" using l(2) by (metis One_nat_def length_0_conv length_Suc_conv)
    then have "?d = [last s]" using l(1) by simp
    then show False using sp assms False \<open>n = 1\<close> by (simp add: spaceAt_def runeOf_def plainByte_def)
  qed
  then show ?thesis by (subst trimRight.simps) (auto split: option.splits dest!: find_SomeD)
qed

lemma TrimBytes_plain: "s = [] \<or> plainByte (hd s) \<and> plainByte (last s) \<Longrightarrow> TrimBytes s = s"
  by (auto simp: TrimBytes_def trimLeft_plain trimRight_plain)

section \<open>Replacing and cutting\<close>

text \<open>\<open>strings.ReplaceAll\<close> for a non-empty old text; \<open>strings.Cut\<close> at a byte.\<close>

function replaceAll :: "string \<Rightarrow> string \<Rightarrow> string \<Rightarrow> string" where
  "replaceAll old new s =
     (if s = [] \<or> old = [] then s
      else if prefixOf old s then new @ replaceAll old new (drop (length old) s)
      else hd s # replaceAll old new (tl s))"
  by auto
termination by (relation "measure (\<lambda>(old, new, s). length s)") auto

declare replaceAll.simps [simp del]

definition cutAt :: "char \<Rightarrow> string \<Rightarrow> (string \<times> string) option" where
  "cutAt c s = (if c \<in> set s then Some (takeWhile (\<lambda>x. x \<noteq> c) s, tl (dropWhile (\<lambda>x. x \<noteq> c) s)) else None)"

lemma replaceAll_Nil [simp]: "replaceAll old new [] = []"
  by (simp add: replaceAll.simps)

lemma replaceAll_byte: "replaceAll [b] new s = concat (map (\<lambda>c. if c = b then new else [c]) s)"
  by (induction s) (auto simp: replaceAll.simps prefixOf_def)

section \<open>Numbers\<close>

text \<open>\<open>strconv.Itoa\<close>.\<close>

function digitsOf :: "nat \<Rightarrow> string" where
  "digitsOf n = (if n < 10 then [char_of (48 + n)] else digitsOf (n div 10) @ [char_of (48 + n mod 10)])"
  by auto
termination by (relation "measure id") auto

declare digitsOf.simps [simp del]

definition Itoa :: "int \<Rightarrow> string" where
  "Itoa n = (if n < 0 then CHR ''-'' # digitsOf (nat (- n)) else digitsOf (nat n))"

lemma digits_plain: "c \<in> set (digitsOf n) \<Longrightarrow> 48 \<le> byte c \<and> byte c \<le> 57"
proof (induction n rule: digitsOf.induct)
  case (1 n)
  then show ?case by (cases "n < 10") (auto simp: digitsOf.simps [of n] byte_def)
qed

lemma digits_ne: "digitsOf n \<noteq> []"
  by (simp add: digitsOf.simps [of n])

lemma Itoa_bytes: "c \<in> set (Itoa n) \<Longrightarrow> 45 \<le> byte c \<and> byte c \<le> 57"
  using digits_plain by (fastforce simp: Itoa_def byte_def split: if_splits)

lemma Itoa_ne: "Itoa n \<noteq> []"
  by (simp add: Itoa_def digits_ne)

end
