(* ===== verification/MachineClient.thy ===== *)
theory MachineClient
  imports CliStatements CliAccess ByteText
begin

text \<open>
  The client of non-interactive commands on a saved connection (\<open>pkg/drivers/pg/machine.go\<close>,
  \<open>machine_query.go\<close>, \<open>machine_execute.go\<close>): the setup of a connection, read-only transactions,
  read-only queries and full execution, with the limits on what is kept of the results.

  The connection is a third-party driver talking to a server, so a parameter: a record of
  functions over a state \<open>'w\<close> of everything outside the program, which each call may change.  A
  session pairs that state with the list of what happened so far.  A result set is what the
  driver's reader yields until it is closed.  \<open>ctx.Err()\<close> is asked of that state too; \<open>Caller\<close> is
  the command's context and \<open>Cleanup\<close> the fresh one of a rollback.  The quoting of an identifier is
  the driver's.  Connecting (dialling, tunnels, credentials) and the mutexes are not modelled.
\<close>

section \<open>The connection\<close>

record field =
  fName :: string
  fOID :: nat
  fFormat :: nat

record resultset =
  rsFields :: "field list"
  rsRows :: "string option list list"
  rsTag :: string
  rsErr :: "gerr option"

type_synonym params = "string option list"

text \<open>
  What happened on the connection: a statement of the program's own, with the tag and the error it
  got and the state of the connection after it (closed or not, transaction status), the script or
  query of the user, or an abort.
\<close>

datatype event = One string string "gerr option" bool char | Batch string | WithParams string params | Abort

datatype asked = Caller | Cleanup

record 'w server =
  ctxErr :: "asked \<Rightarrow> 'w \<Rightarrow> bool \<times> 'w"
  analysisCtx :: "'w \<Rightarrow> ctx"
  runOne :: "string \<Rightarrow> 'w \<Rightarrow> (string \<times> gerr option) \<times> 'w"
  runBatch :: "string \<Rightarrow> 'w \<Rightarrow> (resultset list \<times> gerr option) \<times> 'w"
  runParams :: "string \<Rightarrow> params \<Rightarrow> 'w \<Rightarrow> resultset \<times> 'w"
  isClosed :: "'w \<Rightarrow> bool"
  txStatus :: "'w \<Rightarrow> char"
  doAbort :: "'w \<Rightarrow> 'w"
  Sanitize :: "string \<Rightarrow> string"

type_synonym 'w sess = "'w \<times> event list"

record MachineClient =
  access :: string
  c_readOnly :: bool
  statementMS :: int
  temporary :: bool

definition poll :: "'w server \<Rightarrow> asked \<Rightarrow> 'w sess \<Rightarrow> bool \<times> 'w sess" where
  "poll srv c s = (case ctxErr srv c (fst s) of (b, w) \<Rightarrow> (b, (w, snd s)))"

definition send :: "'w server \<Rightarrow> string \<Rightarrow> 'w sess \<Rightarrow> (string \<times> gerr option) \<times> 'w sess" where
  "send srv sql s =
     (case runOne srv sql (fst s) of ((tag, e), w) \<Rightarrow>
        ((tag, e), (w, snd s @ [One sql tag e (isClosed srv w) (txStatus srv w)])))"

definition exec :: "'w server \<Rightarrow> string \<Rightarrow> 'w sess \<Rightarrow> gerr option \<times> 'w sess" where
  "exec srv sql s = (case send srv sql s of ((tag, e), s') \<Rightarrow> (e, s'))"

definition Client_Abort :: "'w server \<Rightarrow> 'w sess \<Rightarrow> 'w sess" where
  "Client_Abort srv s = (doAbort srv (fst s), snd s @ [Abort])"

text \<open>The statements of a list one after the other, up to the first error.\<close>

fun execAll :: "'w server \<Rightarrow> string list \<Rightarrow> 'w sess \<Rightarrow> gerr option \<times> 'w sess" where
  "execAll srv [] s = (None, s)"
| "execAll srv (q # qs) s =
     (case exec srv q s of
        (Some e, s') \<Rightarrow> (Some e, s')
      | (None, s') \<Rightarrow> execAll srv qs s')"

definition machineFailure :: "'w server \<Rightarrow> asked \<Rightarrow> gerr option \<Rightarrow> ErrorCode \<Rightarrow> 'w sess \<Rightarrow> MachineError \<times> 'w sess" where
  "machineFailure srv c err code s =
     (case poll srv c s of (done, s') \<Rightarrow>
        (if done \<or> err = Some CtxErr then mkErr ''TIMEOUT''
         else case err of
             Some (MachineErr own) \<Rightarrow> own
           | Some (CredentialErr kind) \<Rightarrow> mkErr kind
           | Some (TunnelErr kind) \<Rightarrow> mkErr kind
           | Some (PgErr state) \<Rightarrow>
               \<lparr>mCode = (if state = ''57014'' \<or> state = ''55P03'' then ''TIMEOUT'' else code), SQLState = state\<rparr>
           | _ \<Rightarrow> mkErr code, s'))"

definition failWith :: "'w server \<Rightarrow> asked \<Rightarrow> gerr option \<Rightarrow> ErrorCode \<Rightarrow> 'w sess \<Rightarrow> (MachineError + 'a) \<times> 'w sess" where
  "failWith srv c err code s = (case machineFailure srv c err code s of (m, s') \<Rightarrow> (Inl m, s'))"

section \<open>Setting up\<close>

definition quoted_ident :: "string \<Rightarrow> string" where
  "quoted_ident s = CHR 0x27 # s @ [CHR 0x27]"

definition setupStatements :: "'w server \<Rightarrow> MachineClient \<Rightarrow> string \<Rightarrow> string list" where
  "setupStatements srv c role =
     (if role \<noteq> '''' then [''SET ROLE '' @ Sanitize srv role] else []) @
     (if \<not> temporary c \<and> (access c \<noteq> CLIAccessFull \<or> c_readOnly c) then [''SET default_transaction_read_only=on''] else []) @
     [''SET client_encoding='' @ quoted_ident ''UTF8'', ''SET DateStyle='' @ quoted_ident ''ISO'', ''SET TimeZone='' @ quoted_ident ''UTC'',
      ''SET IntervalStyle='' @ quoted_ident ''postgres'', ''SET bytea_output='' @ quoted_ident ''hex'', ''SET extra_float_digits=3'',
      ''SET statement_timeout='' @ Itoa (statementMS c), ''SET lock_timeout=1000'']"

definition client_initialize :: "'w server \<Rightarrow> MachineClient \<Rightarrow> string \<Rightarrow> 'w sess \<Rightarrow> gerr option \<times> 'w sess" where
  "client_initialize srv c role s = execAll srv (setupStatements srv c role) s"

section \<open>Read-only transactions\<close>

text \<open>The deferred rollback: it aborts the connection when it fails, and only then adds an error.\<close>

definition endReadOnly :: "'w server \<Rightarrow> (MachineError + 'a) \<times> 'w sess \<Rightarrow> (MachineError + 'a) \<times> 'w sess" where
  "endReadOnly srv r =
     (case r of (res, s) \<Rightarrow>
        (case exec srv ''ROLLBACK'' s of
           (None, s') \<Rightarrow> (res, s')
         | (Some e, s') \<Rightarrow>
             (let s'' = Client_Abort srv s' in
              case res of
                Inl m \<Rightarrow> (Inl m, s'')
              | Inr x \<Rightarrow> failWith srv Cleanup (Some e) ''DATABASE_FAILURE'' s'')))"

definition withReadOnly :: "'w server \<Rightarrow> MachineClient \<Rightarrow> bool \<Rightarrow> string \<Rightarrow> ('w sess \<Rightarrow> (gerr + 'a) \<times> 'w sess) \<Rightarrow>
    'w sess \<Rightarrow> (MachineError + 'a) \<times> 'w sess" where
  "withReadOnly srv c repeatable schema operation s =
     (case exec srv (if repeatable then ''BEGIN ISOLATION LEVEL REPEATABLE READ READ ONLY'' else ''BEGIN READ ONLY'') s of
        (Some e, s1) \<Rightarrow> failWith srv Caller (Some e) ''DATABASE_FAILURE'' s1
      | (None, s1) \<Rightarrow> endReadOnly srv
          (case execAll srv ([''SET LOCAL statement_timeout='' @ Itoa (statementMS c), ''SET LOCAL lock_timeout=1000''] @
               (if schema \<noteq> '''' then [''SET LOCAL search_path TO '' @ Sanitize srv schema] else [])) s1 of
             (Some e, s2) \<Rightarrow> failWith srv Caller (Some e) ''DATABASE_FAILURE'' s2
           | (None, s2) \<Rightarrow>
               (case operation s2 of
                  (Inl e, s3) \<Rightarrow> failWith srv Caller (Some e) ''DATABASE_FAILURE'' s3
                | (Inr x, s3) \<Rightarrow> (Inr x, s3))))"

definition Ping :: "'w server \<Rightarrow> MachineClient \<Rightarrow> 'w sess \<Rightarrow> (MachineError + unit) \<times> 'w sess" where
  "Ping srv c s = withReadOnly srv c False ''''
     (\<lambda>s. case exec srv ''SELECT 1'' s of (Some e, s') \<Rightarrow> (Inl e, s') | (None, s') \<Rightarrow> (Inr (), s')) s"

section \<open>The size of results\<close>

text \<open>
  The length of \<open>json.Marshal\<close> of a string: two quotes, and for each character its escape; the line
  and paragraph separators (E2 80 A8, E2 80 A9) are escaped too.  Only valid UTF-8 is measured.
\<close>

fun jsonChars :: "string \<Rightarrow> nat" where
  "jsonChars [] = 0"
| "jsonChars (c # s) =
     (let b = byte c in
      if b = 0xE2 \<and> length s \<ge> 2 \<and> byte (s ! 0) = 0x80 \<and> (byte (s ! 1) = 0xA8 \<or> byte (s ! 1) = 0xA9) then 4 + jsonChars s
      else (if b = 34 \<or> b = 92 \<or> b = 8 \<or> b = 9 \<or> b = 10 \<or> b = 12 \<or> b = 13 then 2
            else if b < 32 \<or> b = 38 \<or> b = 60 \<or> b = 62 then 6 else 1) + jsonChars s)"

definition jsonString :: "string \<Rightarrow> nat" where
  "jsonString s = 2 + jsonChars s"

text \<open>\<open>{"name":...,"type_oid":...,"encoding":"postgres-text"}\<close>\<close>

definition jsonColumn :: "field \<Rightarrow> nat" where
  "jsonColumn f = 8 + jsonString (fName f) + 12 + length (digitsOf (fOID f)) + 12 + 15 + 1"

definition jsonRow :: "string option list \<Rightarrow> nat" where
  "jsonRow vs = 2 + (length vs - 1) + sum_list (map (\<lambda>v. case v of None \<Rightarrow> 4 | Some s \<Rightarrow> jsonString s) vs)"

definition validText :: "string \<Rightarrow> bool" where
  "validText s \<longleftrightarrow> length s \<le> 64 * 1024 \<and> utf8_Valid s"

abbreviation maxJson :: nat where "maxJson \<equiv> 1048576"

text \<open>A nil value has length 0 and is valid.\<close>

definition validCell :: "string option \<Rightarrow> bool" where
  "validCell v \<longleftrightarrow> (case v of None \<Rightarrow> True | Some s \<Rightarrow> validText s)"

section \<open>Read-only queries\<close>

record MachineQuery =
  SQL :: string
  Parameters :: params
  qMaxRows :: int
  Schema :: string

record MachineQueryResult =
  qColumns :: "field list"
  qRows :: "string option list list"
  qTruncated :: bool

abbreviation resourceFailure :: gerr where
  "resourceFailure \<equiv> MachineErr (mkErr ''RESOURCE_FAILURE'')"

text \<open>The columns with the budget they use, \<open>None\<close> when one is refused.\<close>

fun queryColumns :: "field list \<Rightarrow> nat \<Rightarrow> nat option" where
  "queryColumns [] budget = Some budget"
| "queryColumns (f # fs) budget =
     (if \<not> validText (fName f) then None
      else let b = budget + jsonColumn f + 1 in if maxJson < b then None else queryColumns fs b)"

text \<open>The cells of a row that is kept: the budget is checked after each that is not null.\<close>

fun queryCells :: "string option list \<Rightarrow> nat \<Rightarrow> nat option" where
  "queryCells [] budget = (if maxJson < budget then None else Some budget)"
| "queryCells (None # vs) budget = queryCells vs (budget + 1 + 4)"
| "queryCells (Some t # vs) budget =
     (let b = budget + 1 + jsonString t in if maxJson < b then None else queryCells vs b)"

fun queryRows :: "int \<Rightarrow> nat \<Rightarrow> string option list list \<Rightarrow> nat \<Rightarrow> MachineQueryResult \<Rightarrow> MachineQueryResult option" where
  "queryRows maxRows width [] budget r = Some r"
| "queryRows maxRows width (vs # rows) budget r =
     (if length vs \<noteq> width \<or> \<not> list_all validCell vs then None
      else if maxRows \<le> len (qRows r) then queryRows maxRows width rows budget (r\<lparr>qTruncated := True\<rparr>)
      else case queryCells vs (budget + 2) of
          None \<Rightarrow> None
        | Some b \<Rightarrow> queryRows maxRows width rows b (r\<lparr>qRows := qRows r @ [vs]\<rparr>))"

definition noRows :: MachineQueryResult where
  "noRows = \<lparr>qColumns = [], qRows = [], qTruncated = False\<rparr>"

text \<open>Sending the query and reading its result; a violation aborts the connection.\<close>

definition queryOperation :: "'w server \<Rightarrow> MachineQuery \<Rightarrow> 'w sess \<Rightarrow> (gerr + MachineQueryResult) \<times> 'w sess" where
  "queryOperation srv q s =
     (case runParams srv (SQL q) (Parameters q) (fst s) of (rs, w) \<Rightarrow>
        let s1 = (w, snd s @ [WithParams (SQL q) (Parameters q)]) in
        case queryColumns (rsFields rs) 2 of
          None \<Rightarrow> (Inl resourceFailure, Client_Abort srv s1)
        | Some b \<Rightarrow>
            (case queryRows (qMaxRows q) (length (rsFields rs)) (rsRows rs) b (noRows\<lparr>qColumns := rsFields rs\<rparr>) of
               None \<Rightarrow> (Inl resourceFailure, Client_Abort srv s1)
             | Some r \<Rightarrow> (case rsErr rs of Some e \<Rightarrow> (Inl e, s1) | None \<Rightarrow> (Inr r, s1))))"

text \<open>The running total of the parameter bytes is checked after each parameter.\<close>

fun parametersOk :: "(string \<Rightarrow> bool) \<Rightarrow> params \<Rightarrow> nat \<Rightarrow> bool" where
  "parametersOk ok [] used \<longleftrightarrow> True"
| "parametersOk ok (p # ps) used \<longleftrightarrow>
     (let text = (case p of None \<Rightarrow> [] | Some s \<Rightarrow> s); t = used + length text
      in t \<le> maxJson \<and> utf8_Valid text \<and> ok text \<and> parametersOk ok ps t)"

definition noNul :: "string \<Rightarrow> bool" where
  "noNul s \<longleftrightarrow> char_of (0 :: nat) \<notin> set s"

definition invalidInput :: MachineError where
  "invalidInput = mkErr ''INVALID_INPUT''"

text \<open>
  \<open>validate\<close> is \<open>ValidateMachineQuery\<close> for this call, \<open>None\<close> when the query is accepted.
\<close>

definition QueryReadOnly :: "'w server \<Rightarrow> (string \<Rightarrow> 'w \<Rightarrow> MachineError option \<times> 'w) \<Rightarrow> MachineClient \<Rightarrow> MachineQuery \<Rightarrow> 'w sess \<Rightarrow>
    (MachineError + MachineQueryResult) \<times> 'w sess" where
  "QueryReadOnly srv validate c request0 s =
     (if \<not> AllowsCLIAccess (access c) CLIAccessRowRead then (Inl (mkErr ''POLICY_DENIED''), s)
      else case validate (SQL request0) (fst s) of
        (Some e, w) \<Rightarrow> (Inl e, (w, snd s))
      | (None, w) \<Rightarrow>
          (let s1 = (w, snd s); request = (if qMaxRows request0 = 0 then request0\<lparr>qMaxRows := 100\<rparr> else request0) in
           if qMaxRows request < 1 \<or> 1000 < qMaxRows request \<or> 256 < length (Parameters request) then (Inl invalidInput, s1)
           else if \<not> parametersOk (\<lambda>_. True) (Parameters request) 0 then (Inl invalidInput, s1)
           else if \<not> utf8_Valid (Schema request) then (Inl invalidInput, s1)
           else withReadOnly srv c False (Schema request) (queryOperation srv request) s1))"


section \<open>Full execution\<close>

datatype MachineExecutionStatus = MachineExecutionNotStarted | MachineExecutionCompleted | MachineExecutionFailed | MachineExecutionUnknown

record MachineExecution =
  Status :: MachineExecutionStatus
  EffectsMayHaveOccurred :: bool
  PreparedTransactionsMayRemain :: bool

record MachineStatementResult =
  CommandTag :: string
  sColumns :: "field list"
  sRows :: "string option list list"
  sTruncated :: bool
  sTruncationReason :: string

record MachineExecuteResult =
  Results :: "MachineStatementResult list"
  Execution :: MachineExecution
  Truncated :: bool
  TruncationReason :: string

text \<open>
  Only a ROLLBACK tag for a submitted COMMIT or END is an unsuccessful commit: the keyword after
  blanks, line comments (ended by CR or LF) and nested block comments.  The block-comment loop stops
  with one byte left.
\<close>

definition asciiLetter :: "char \<Rightarrow> bool" where
  "asciiLetter c \<longleftrightarrow> 97 \<le> byte c \<and> byte c \<le> 122 \<or> 65 \<le> byte c \<and> byte c \<le> 90"

definition lineBreakByte :: "char \<Rightarrow> bool" where
  "lineBreakByte c \<longleftrightarrow> byte c = 13 \<or> byte c = 10"

function machineExecuteCommit :: "string \<Rightarrow> bool" where
  "machineExecuteCommit sql0 =
     (let sql = dropWhile cliSpace sql0 in
      if take 2 sql = ''--'' then
        (case dropWhile (\<lambda>c. \<not> lineBreakByte c) sql of
           [] \<Rightarrow> False
         | _ # rest \<Rightarrow> machineExecuteCommit rest)
      else if take 2 sql = ''/*'' then
        (case blockComment 1 (drop 2 sql) of
           (rest, d) \<Rightarrow> if d \<noteq> 0 then False else machineExecuteCommit rest)
      else map upperByte (takeWhile asciiLetter sql) = ''COMMIT'' \<or> map upperByte (takeWhile asciiLetter sql) = ''END'')"
  by auto
termination
proof (relation "measure length", goal_cases)
  case (2 s0 s c rest)
  then have "length (c # rest) \<le> length s" by (metis length_dropWhile_le)
  then show ?case using 2(1) length_dropWhile_le [of cliSpace s0] by simp
next
  case (3 s0 s rest d)
  then have "length rest \<le> length (drop 2 s)" using blockComment_shorter [of 1 "drop 2 s"] by (metis fst_conv)
  moreover have "length (take 2 s) = 2" using 3 by simp
  then have "2 \<le> length s" by (simp add: min_def split: if_splits)
  ultimately show ?case using 3(1) length_dropWhile_le [of cliSpace s0] by simp
qed simp

declare machineExecuteCommit.simps [simp del]

text \<open>The variables of one execution outside \<open>consume\<close>; \<open>retentionErr\<close> is only ever a resource failure.\<close>

record execVars =
  res :: MachineExecuteResult
  budget :: nat
  kept :: int
  stmtNo :: nat
  retentionErr :: bool
  executionErr :: "gerr option"

text \<open>Those of one call of \<open>consume\<close>.\<close>

record itemVars =
  item :: MachineStatementResult
  retain :: bool

type_synonym consuming = "execVars \<times> itemVars"

definition failRetention :: "consuming \<Rightarrow> consuming" where
  "failRetention v = ((fst v)\<lparr>retentionErr := True\<rparr>, (snd v)\<lparr>retain := False\<rparr>)"

definition charge :: "nat \<Rightarrow> consuming \<Rightarrow> consuming" where
  "charge n v =
     (let v' = ((fst v)\<lparr>budget := budget (fst v) + n + 1\<rparr>, snd v)
      in if maxJson < budget (fst v') then failRetention v' else v')"

definition consumeField :: "field \<Rightarrow> consuming \<Rightarrow> consuming" where
  "consumeField f v =
     (let v1 = (if validText (fName f) then v else failRetention v) in
      if retain (snd v1) then
        (let v2 = charge (jsonColumn f) v1 in
         if retain (snd v2) then (fst v2, (snd v2)\<lparr>item := (item (snd v2))\<lparr>sColumns := sColumns (item (snd v2)) @ [f]\<rparr>\<rparr>) else v2)
      else v1)"

definition consumeRow :: "int \<Rightarrow> nat \<Rightarrow> string option list \<Rightarrow> consuming \<Rightarrow> consuming" where
  "consumeRow maxRows width vs v =
     (let v1 = (if length vs = width then v else failRetention v);
          v2 = (if list_all validCell vs then v1 else failRetention v1)
      in if \<not> retain (snd v2) then v2
         else if maxRows \<le> kept (fst v2) then
           ((fst v2)\<lparr>res := (res (fst v2))\<lparr>Truncated := True,
               TruncationReason := (if TruncationReason (res (fst v2)) = '''' then ''max_rows'' else TruncationReason (res (fst v2)))\<rparr>\<rparr>,
            (snd v2)\<lparr>item := (item (snd v2))\<lparr>sTruncated := True, sTruncationReason := ''max_rows''\<rparr>\<rparr>)
         else
           (let v3 = charge (jsonRow vs) v2 in
            if retain (snd v3) then
              ((fst v3)\<lparr>kept := kept (fst v3) + 1\<rparr>, (snd v3)\<lparr>item := (item (snd v3))\<lparr>sRows := sRows (item (snd v3)) @ [vs]\<rparr>\<rparr>)
            else v3))"

definition noItem :: MachineStatementResult where
  "noItem = \<lparr>CommandTag = '''', sColumns = [], sRows = [], sTruncated = False, sTruncationReason = ''''\<rparr>"

text \<open>The error a closed reader leaves: that of the server, or a COMMIT that rolled back.\<close>

definition closeError :: "string \<Rightarrow> CLIStatement list \<Rightarrow> nat \<Rightarrow> resultset \<Rightarrow> gerr option" where
  "closeError sql statements n rs =
     (if rsTag rs = ''ROLLBACK'' \<and> n < length statements \<and>
         machineExecuteCommit (sliceOf sql (Start (statements ! n)) (End (statements ! n)))
      then Some TxCommitRollback else rsErr rs)"

definition consume :: "string \<Rightarrow> CLIStatement list \<Rightarrow> int \<Rightarrow> resultset \<Rightarrow> execVars \<Rightarrow> execVars" where
  "consume sql statements maxRows rs v0 =
     (let keep = length (Results (res v0)) < 256 \<and> \<not> retentionErr v0;
          v1 = (if \<not> keep \<and> \<not> retentionErr v0 then v0\<lparr>res := (res v0)\<lparr>Truncated := True, TruncationReason := ''max_results''\<rparr>\<rparr> else v0);
          v2 = (if keep then v1\<lparr>budget := budget v1 + 128\<rparr> else v1);
          v3 = fold consumeField (rsFields rs) (v2, \<lparr>item = noItem, retain = keep\<rparr>);
          v4 = fold (consumeRow maxRows (length (rsFields rs))) (rsRows rs) v3;
          tag = rsTag rs;
          x4 = fst v4;
          x5 = (if tag = ''PREPARE TRANSACTION''
                then x4\<lparr>res := (res x4)\<lparr>Execution := (Execution (res x4))\<lparr>PreparedTransactionsMayRemain := True\<rparr>\<rparr>\<rparr> else x4);
          e = closeError sql statements (stmtNo x5) rs;
          x6 = x5\<lparr>stmtNo := stmtNo x5 + 1, executionErr := (if e = None then executionErr x5 else e)\<rparr>
      in if \<not> retain (snd v4) then x6
         else
           (let v7 = (if validText tag then charge (jsonString tag) (x6, snd v4) else failRetention (x6, snd v4)) in
            if retain (snd v7)
            then (fst v7)\<lparr>res := (res (fst v7))\<lparr>Results := Results (res (fst v7)) @ [(item (snd v7))\<lparr>CommandTag := tag\<rparr>]\<rparr>\<rparr>
            else fst v7))"

definition noResult :: MachineExecuteResult where
  "noResult = \<lparr>Results = [],
     Execution = \<lparr>Status = MachineExecutionNotStarted, EffectsMayHaveOccurred = False, PreparedTransactionsMayRemain = False\<rparr>,
     Truncated = False, TruncationReason = ''''\<rparr>"

text \<open>The original SQL is sent once: as a batch without parameters, as one statement with them.\<close>

definition runScript :: "'w server \<Rightarrow> string \<Rightarrow> params \<Rightarrow> 'w sess \<Rightarrow> (resultset list \<times> gerr option) \<times> 'w sess" where
  "runScript srv sql ps s =
     (if ps = [] then (case runBatch srv sql (fst s) of (r, w) \<Rightarrow> (r, (w, snd s @ [Batch sql])))
      else (case runParams srv sql ps (fst s) of (rs, w) \<Rightarrow> (([rs], None), (w, snd s @ [WithParams sql ps]))))"

definition startVars :: execVars where
  "startVars = \<lparr>res = noResult\<lparr>Execution := \<lparr>Status = MachineExecutionUnknown, EffectsMayHaveOccurred = True,
       PreparedTransactionsMayRemain = False\<rparr>\<rparr>,
     budget = 4096, kept = 0, stmtNo = 0, retentionErr = False, executionErr = None\<rparr>"

definition setStatus :: "MachineExecutionStatus \<Rightarrow> MachineExecuteResult \<Rightarrow> MachineExecuteResult" where
  "setStatus st r = r\<lparr>Execution := (Execution r)\<lparr>Status := st\<rparr>\<rparr>"

text \<open>The verdict once everything is read: the status and the error, then the rollback of a transaction left open.\<close>

definition settleExecution :: "'w server \<Rightarrow> execVars \<Rightarrow> 'w sess \<Rightarrow> (MachineExecuteResult \<times> MachineError option) \<times> 'w sess" where
  "settleExecution srv v s =
     (let closed = isClosed srv (fst s);
          fine = (executionErr v = None \<and> \<not> closed);
          r1 = (if fine then setStatus MachineExecutionCompleted (res v)
                else if \<not> closed \<and> (case executionErr v of Some (PgErr _) \<Rightarrow> True | Some TxCommitRollback \<Rightarrow> True | _ \<Rightarrow> False)
                then setStatus MachineExecutionFailed (res v) else res v);
          ee = (if fine then None else if executionErr v = None then Some (MachineErr (mkErr ''DATABASE_FAILURE'')) else executionErr v)
      in case (case ee of
                 Some e \<Rightarrow> (case machineFailure srv Caller (Some e) ''DATABASE_FAILURE'' s of (m, s1) \<Rightarrow> (Some m, s1))
               | None \<Rightarrow> (if retentionErr v then Some (mkErr ''RESOURCE_FAILURE'') else None, s)) of
           (err, s1) \<Rightarrow>
             if \<not> isClosed srv (fst s1) \<and> (txStatus srv (fst s1) = CHR ''T'' \<or> txStatus srv (fst s1) = CHR ''E'') then
               (let (r2, err2) = (if ee = None then (setStatus MachineExecutionFailed r1, Some (mkErr ''INCOMPLETE_TRANSACTION'')) else (r1, err))
                in case exec srv ''ROLLBACK'' s1 of
                     (None, s2) \<Rightarrow> ((r2, err2), s2)
                   | (Some e, s2) \<Rightarrow> ((r2, err2), Client_Abort srv s2))
             else ((r1, err), s1))"

text \<open>The deferred clean-up: an error discards the rows, never the execution metadata.\<close>

definition dropRows :: "(MachineExecuteResult \<times> MachineError option) \<times> 'w sess \<Rightarrow> (MachineExecuteResult \<times> MachineError option) \<times> 'w sess" where
  "dropRows r = (case r of ((x, err), s) \<Rightarrow> ((if err = None then x else x\<lparr>Results := []\<rparr>, err), s))"

definition executeFail :: "'w server \<Rightarrow> gerr \<Rightarrow> ErrorCode \<Rightarrow> 'w sess \<Rightarrow> (MachineExecuteResult \<times> MachineError option) \<times> 'w sess" where
  "executeFail srv e code s = (case machineFailure srv Caller (Some e) code s of (m, s') \<Rightarrow> ((noResult, Some m), s'))"

definition boundedRequest :: "MachineQuery \<Rightarrow> bool" where
  "boundedRequest q \<longleftrightarrow>
     1 \<le> qMaxRows q \<and> qMaxRows q \<le> 1000 \<and> length (Parameters q) \<le> 256 \<and> length (Schema q) \<le> maxJson \<and>
     utf8_Valid (Schema q) \<and> noNul (Schema q) \<and> parametersOk noNul (Parameters q) 0"

definition baseSetup :: "string list" where
  "baseSetup = [''SET standard_conforming_strings=on'', ''SET client_encoding='' @ quoted_ident ''UTF8'']"

definition executeSetup :: "'w server \<Rightarrow> MachineQuery \<Rightarrow> string list" where
  "executeSetup srv q =
     baseSetup @ (if Schema q \<noteq> '''' then [''SET search_path TO '' @ Sanitize srv (Schema q)] else [])"

definition Execute :: "'w server \<Rightarrow> MachineClient \<Rightarrow> MachineQuery \<Rightarrow> 'w sess \<Rightarrow>
    (MachineExecuteResult \<times> MachineError option) \<times> 'w sess" where
  "Execute srv c request0 s =
     (if access c \<noteq> CLIAccessFull \<or> c_readOnly c then ((noResult, Some (mkErr ''POLICY_DENIED'')), s)
      else case AnalyzeCLIStatements (analysisCtx srv (fst s)) (SQL request0) (len (Parameters request0)) False False of
        Inl e \<Rightarrow>
          (let code = (if e = ErrInvalidCLIInput then ''INVALID_INPUT'' else ''UNSUPPORTED_SQL'')
           in executeFail srv (MachineErr (mkErr code)) code s)
      | Inr analysis \<Rightarrow>
          (let request = (if qMaxRows request0 = 0 then request0\<lparr>qMaxRows := 100\<rparr> else request0) in
           if \<not> boundedRequest request then ((noResult, Some invalidInput), s)
           else case execAll srv (executeSetup srv request) s of
               (Some e, s1) \<Rightarrow> executeFail srv e ''DATABASE_FAILURE'' s1
             | (None, s1) \<Rightarrow>
                 (case poll srv Caller s1 of
                    (True, s2) \<Rightarrow> ((noResult, Some (mkErr ''TIMEOUT'')), s2)
                  | (False, s2) \<Rightarrow>
                      (case runScript srv (SQL request) (Parameters request) s2 of
                         ((sets, terminalErr), s3) \<Rightarrow>
                           let v = fold (consume (SQL request) (Statements analysis) (qMaxRows request)) sets startVars;
                               v' = (if terminalErr = None then v else v\<lparr>executionErr := terminalErr\<rparr>)
                           in dropRows (settleExecution srv v' s3)))))"

end
