(* ===== verification/MachineAtomic.thy ===== *)
theory MachineAtomic
  imports MachineClient
begin

text \<open>
  The atomic execution of a validated script on a temporary connection
  (\<open>pkg/drivers/pg/machine_atomic.go\<close>): one transaction, a check of the complete answer before
  COMMIT, and an outcome that says what is known about the transaction.  The precommit check is the
  caller's function, \<open>None\<close> when nil.
\<close>

datatype MachineTransactionOutcome = MachineTransactionNotStarted | MachineTransactionRolledBack | MachineTransactionDisposed
  | MachineTransactionCommitted | MachineTransactionUnknown

record TemporaryStatement =
  tStart :: nat
  tEnd :: nat
  tWrites :: bool

record ValidatedTemporaryScript =
  ts_sql :: string
  ts_statements :: "TemporaryStatement list"
  parameterCount :: nat
  writes :: bool
  allowWrite :: bool
  validated :: bool

definition SupportsParameters :: "ValidatedTemporaryScript \<Rightarrow> bool" where
  "SupportsParameters s \<longleftrightarrow> length (ts_statements s) = 1"

record TemporaryAtomicOptions =
  oMaxRows :: int
  oSchema :: string

record TemporaryAtomicResult =
  answer :: MachineExecuteResult
  Outcome :: MachineTransactionOutcome

type_synonym 'w precommit = "TemporaryAtomicResult \<Rightarrow> 'w \<Rightarrow> gerr option \<times> 'w"

section \<open>Reading one result\<close>

type_synonym totals = "nat \<times> int"

definition chargeTemp :: "nat \<Rightarrow> totals \<Rightarrow> totals option" where
  "chargeTemp n t = (let b = fst t + n + 1 in if b \<le> maxJson then Some (b, snd t) else None)"

fun tempColumns :: "field list \<Rightarrow> totals \<Rightarrow> totals option" where
  "tempColumns [] t = Some t"
| "tempColumns (f # fs) t =
     (if \<not> validText (fName f) \<or> fFormat f \<noteq> 0 then None
      else do { t' \<leftarrow> chargeTemp (jsonColumn f) t; tempColumns fs t' })"

fun tempRows :: "int \<Rightarrow> nat \<Rightarrow> string option list list \<Rightarrow> totals \<Rightarrow> MachineStatementResult \<Rightarrow>
    (MachineStatementResult \<times> totals) option" where
  "tempRows maxRows width [] t it = Some (it, t)"
| "tempRows maxRows width (vs # rows) t it =
     (if length vs \<noteq> width \<or> \<not> list_all validCell vs then None
      else if maxRows \<le> snd t then tempRows maxRows width rows t (it\<lparr>sTruncated := True, sTruncationReason := ''max_rows''\<rparr>)
      else do {
        t' \<leftarrow> chargeTemp (jsonRow vs) t;
        tempRows maxRows width rows (fst t', snd t' + 1) (it\<lparr>sRows := sRows it @ [vs]\<rparr>) })"

definition consumeTemporaryResult :: "int \<Rightarrow> resultset \<Rightarrow> totals \<Rightarrow> gerr + (MachineStatementResult \<times> totals)" where
  "consumeTemporaryResult maxRows rs t =
     (case (do {
        t1 \<leftarrow> tempColumns (rsFields rs) (fst t + 128, snd t);
        tempRows maxRows (length (rsFields rs)) (rsRows rs) t1 (noItem\<lparr>sColumns := rsFields rs\<rparr>) }) of
        None \<Rightarrow> Inl resourceFailure
      | Some (it, t2) \<Rightarrow>
          (case rsErr rs of
             Some e \<Rightarrow> Inl e
           | None \<Rightarrow>
               if \<not> validText (rsTag rs) then Inl resourceFailure
               else (case chargeTemp (jsonString (rsTag rs)) t2 of
                   None \<Rightarrow> Inl resourceFailure
                 | Some t3 \<Rightarrow>
                     if \<not> (prefixOf ''SELECT '' (rsTag rs) \<or> prefixOf ''INSERT '' (rsTag rs) \<or> prefixOf ''UPDATE '' (rsTag rs) \<or>
                         prefixOf ''DELETE '' (rsTag rs))
                     then Inl (MachineErr (mkErr ''DATABASE_FAILURE''))
                     else Inr (it\<lparr>CommandTag := rsTag rs\<rparr>, t3))))"

text \<open>The loop over the results, up to the first violation; \<open>limit\<close> is the number of statements.\<close>

fun consumeSets :: "int \<Rightarrow> nat \<Rightarrow> resultset list \<Rightarrow> totals \<Rightarrow> MachineExecuteResult \<Rightarrow> MachineExecuteResult \<times> gerr option" where
  "consumeSets maxRows limit [] t r = (r, None)"
| "consumeSets maxRows limit (rs # sets) t r =
     (case consumeTemporaryResult maxRows rs t of
        Inl e \<Rightarrow> (r, Some e)
      | Inr (it, t') \<Rightarrow>
          if 256 \<le> length (Results r) \<or> limit \<le> length (Results r) then (r, Some resourceFailure)
          else consumeSets maxRows limit sets t'
            (let r1 = r\<lparr>Results := Results r @ [it]\<rparr>
             in if sTruncated it then r1\<lparr>Truncated := True, TruncationReason := ''max_rows''\<rparr> else r1))"

section \<open>The transaction\<close>

type_synonym 'w atomic = "(TemporaryAtomicResult \<times> MachineError option) \<times> 'w sess"

definition atomicStart :: TemporaryAtomicResult where
  "atomicStart = \<lparr>answer = noResult, Outcome = MachineTransactionNotStarted\<rparr>"

text \<open>
  The deferred clean-up: a transaction that was begun and is not known to be over is rolled back;
  when the rollback is not acknowledged the connection is dropped.  A later rollback cannot settle
  a COMMIT without an answer.
\<close>

definition cleanUp :: "'w server \<Rightarrow> bool \<Rightarrow> bool \<Rightarrow> bool \<Rightarrow> 'w atomic \<Rightarrow> 'w atomic" where
  "cleanUp srv began attempted definitive r =
     (case r of ((x, err), s) \<Rightarrow>
        (case (if began \<and> Outcome x \<noteq> MachineTransactionCommitted \<and> Outcome x \<noteq> MachineTransactionRolledBack then
                 (case send srv ''ROLLBACK'' s of ((tag, e), s1) \<Rightarrow>
                    if \<not> (attempted \<and> \<not> definitive) \<and> e = None \<and> tag = ''ROLLBACK'' \<and> \<not> isClosed srv (fst s1) \<and>
                       txStatus srv (fst s1) = CHR ''I''
                    then (x\<lparr>Outcome := MachineTransactionRolledBack\<rparr>, s1)
                    else (if attempted then x else x\<lparr>Outcome := MachineTransactionDisposed\<rparr>, Client_Abort srv s1))
               else (x, s)) of
           (x', s') \<Rightarrow> ((if err = None then x' else x'\<lparr>answer := (answer x')\<lparr>Results := []\<rparr>\<rparr>, err), s')))"

definition atomicFail :: "'w server \<Rightarrow> TemporaryAtomicResult \<Rightarrow> gerr option \<Rightarrow> ErrorCode \<Rightarrow> 'w sess \<Rightarrow> 'w atomic" where
  "atomicFail srv x e code s = (case machineFailure srv Caller e code s of (m, s') \<Rightarrow> ((x, Some m), s'))"

definition isPgErr :: "gerr option \<Rightarrow> bool" where
  "isPgErr e \<longleftrightarrow> (case e of Some (PgErr st) \<Rightarrow> True | _ \<Rightarrow> False)"

text \<open>COMMIT and what its answer says.\<close>

definition commitStage :: "'w server \<Rightarrow> MachineExecuteResult \<Rightarrow> 'w sess \<Rightarrow> 'w atomic" where
  "commitStage srv a s =
     (case send srv ''COMMIT'' s of ((tag, commitErr), s1) \<Rightarrow>
        let w = fst s1; sending = \<lparr>answer = setStatus MachineExecutionUnknown a, Outcome = MachineTransactionUnknown\<rparr> in
        if \<not> isClosed srv w \<and> txStatus srv w = CHR ''I'' \<and> tag = ''COMMIT'' then
          (let x = \<lparr>answer = setStatus MachineExecutionCompleted a, Outcome = MachineTransactionCommitted\<rparr>
           in cleanUp srv True True True
                (if commitErr \<noteq> None then atomicFail srv x commitErr ''DATABASE_FAILURE'' s1 else ((x, None), s1)))
        else if \<not> isClosed srv w \<and> (tag = ''ROLLBACK'' \<and> txStatus srv w = CHR ''I'' \<or> isPgErr commitErr) then
          cleanUp srv True True True
            (atomicFail srv \<lparr>answer = setStatus MachineExecutionFailed a,
               Outcome = (if txStatus srv w = CHR ''I'' then MachineTransactionRolledBack else MachineTransactionUnknown)\<rparr>
               commitErr ''DATABASE_FAILURE'' s1)
        else cleanUp srv True True False (atomicFail srv sending commitErr ''DATABASE_FAILURE'' s1))"

text \<open>The caller's check of the prospective answer, between two looks at the context.\<close>

definition precommitStage :: "'w server \<Rightarrow> 'w precommit \<Rightarrow> MachineExecuteResult \<Rightarrow> 'w sess \<Rightarrow> 'w atomic" where
  "precommitStage srv pre a s =
     (let x = \<lparr>answer = a, Outcome = MachineTransactionDisposed\<rparr>; stop = cleanUp srv True False False in
      case poll srv Caller s of
        (True, s1) \<Rightarrow> stop ((x, Some (mkErr ''TIMEOUT'')), s1)
      | (False, s1) \<Rightarrow>
          (case pre \<lparr>answer = setStatus MachineExecutionCompleted a, Outcome = MachineTransactionCommitted\<rparr> (fst s1) of
             (Some e, w) \<Rightarrow> stop (atomicFail srv x (Some e) ''RESOURCE_FAILURE'' (w, snd s1))
           | (None, w) \<Rightarrow>
               (case poll srv Caller (w, snd s1) of
                  (True, s2) \<Rightarrow> stop ((x, Some (mkErr ''TIMEOUT'')), s2)
                | (False, s2) \<Rightarrow> commitStage srv a s2)))"

definition runStage :: "'w server \<Rightarrow> 'w precommit \<Rightarrow> ValidatedTemporaryScript \<Rightarrow> params \<Rightarrow> int \<Rightarrow> 'w sess \<Rightarrow> 'w atomic" where
  "runStage srv pre script ps maxRows s =
     (case runScript srv (ts_sql script) ps s of ((sets, terminalErr), s1) \<Rightarrow>
        (case consumeSets maxRows (length (ts_statements script)) sets (4096, 0) (res startVars) of (r, readErr) \<Rightarrow>
           let s2 = (if readErr \<noteq> None then Client_Abort srv s1 else s1);
               e = (if readErr = None then terminalErr else readErr);
               w = fst s2
           in if e \<noteq> None \<or> isClosed srv w \<or> txStatus srv w \<noteq> CHR ''T'' \<or> length (Results r) \<noteq> length (ts_statements script) then
                cleanUp srv True False False
                  (atomicFail srv \<lparr>answer = setStatus MachineExecutionFailed r, Outcome = MachineTransactionDisposed\<rparr> e ''DATABASE_FAILURE'' s2)
              else precommitStage srv pre (setStatus MachineExecutionCompleted r) s2))"

definition beginStage :: "'w server \<Rightarrow> 'w precommit \<Rightarrow> ValidatedTemporaryScript \<Rightarrow> params \<Rightarrow> int \<Rightarrow> string \<Rightarrow> 'w sess \<Rightarrow> 'w atomic" where
  "beginStage srv pre script ps maxRows schema s =
     (let begun = atomicStart\<lparr>Outcome := MachineTransactionDisposed\<rparr>; stop = cleanUp srv True False False in
      case send srv (if allowWrite script then ''BEGIN'' else ''BEGIN READ ONLY'') s of ((tag, e), s1) \<Rightarrow>
        if e \<noteq> None \<or> tag \<noteq> ''BEGIN'' \<or> isClosed srv (fst s1) \<or> txStatus srv (fst s1) \<noteq> CHR ''T''
        then stop (atomicFail srv begun e ''DATABASE_FAILURE'' s1)
        else case execAll srv (if schema \<noteq> '''' then [''SET LOCAL search_path TO '' @ Sanitize srv schema] else []) s1 of
            (Some e', s2) \<Rightarrow> stop (atomicFail srv begun (Some e') ''DATABASE_FAILURE'' s2)
          | (None, s2) \<Rightarrow>
              (case poll srv Caller s2 of
                 (True, s3) \<Rightarrow> stop ((begun, Some (mkErr ''TIMEOUT'')), s3)
               | (False, s3) \<Rightarrow> runStage srv pre script ps maxRows s3))"

definition atomicInput :: "ValidatedTemporaryScript \<Rightarrow> params \<Rightarrow> bool" where
  "atomicInput script ps \<longleftrightarrow>
     validated script \<and> ts_statements script \<noteq> [] \<and> parameterCount script = length ps \<and>
     (ps \<noteq> [] \<longrightarrow> SupportsParameters script)"

definition ExecuteTemporaryAtomic :: "'w server \<Rightarrow> MachineClient \<Rightarrow> ValidatedTemporaryScript \<Rightarrow> params \<Rightarrow> TemporaryAtomicOptions \<Rightarrow>
    'w precommit option \<Rightarrow> 'w sess \<Rightarrow> 'w atomic" where
  "ExecuteTemporaryAtomic srv c script ps options0 precommit s =
     (let refuse = (\<lambda>code. ((atomicStart, Some (mkErr code)), s));
          options = (if oMaxRows options0 = 0 then options0\<lparr>oMaxRows := 100\<rparr> else options0)
      in if \<not> temporary c then refuse ''POLICY_DENIED''
         else case precommit of
             None \<Rightarrow> refuse ''INVALID_INPUT''
           | Some pre \<Rightarrow>
               if \<not> atomicInput script ps then refuse ''INVALID_INPUT''
               else if writes script \<and> \<not> allowWrite script then refuse ''POLICY_DENIED''
               else if 256 < length (ts_statements script) then refuse ''RESOURCE_FAILURE''
               else if \<not> boundedRequest \<lparr>SQL = ts_sql script, Parameters = ps, qMaxRows = oMaxRows options, Schema = oSchema options\<rparr>
               then refuse ''INVALID_INPUT''
               else case poll srv Caller s of
                   (True, s1) \<Rightarrow> ((atomicStart, Some (mkErr ''TIMEOUT'')), s1)
                 | (False, s1) \<Rightarrow>
                     if isClosed srv (fst s1) \<or> txStatus srv (fst s1) \<noteq> CHR ''I''
                     then ((atomicStart, Some (mkErr ''DATABASE_FAILURE'')), Client_Abort srv s1)
                     else case execAll srv baseSetup s1 of
                         (Some e, s2) \<Rightarrow> atomicFail srv atomicStart (Some e) ''DATABASE_FAILURE'' s2
                       | (None, s2) \<Rightarrow> beginStage srv pre script ps (oMaxRows options) (oSchema options) s2)"

end
