(* ===== verification/MachineAtomicSpec.thy ===== *)
theory MachineAtomicSpec
  imports MachineAtomic
begin

text \<open>
  What atomic execution promises: the outcome it reports is what happened on the connection.
\<close>

section \<open>What a log says\<close>

definition noCommit :: "event list \<Rightarrow> bool" where
  "noCommit log \<longleftrightarrow> list_all (\<lambda>ev. case ev of One q tag e closed tx \<Rightarrow> q \<noteq> ''COMMIT'' | _ \<Rightarrow> True) log"

text \<open>The server acknowledged the commit: the tag says so and the connection is open and idle.\<close>

definition commitAcked :: "event list \<Rightarrow> bool" where
  "commitAcked log \<longleftrightarrow> list_ex (\<lambda>ev. case ev of One q tag e closed tx \<Rightarrow>
     q = ''COMMIT'' \<and> tag = ''COMMIT'' \<and> \<not> closed \<and> tx = CHR ''I'' | _ \<Rightarrow> False) log"

definition rollbackAcked :: "event list \<Rightarrow> bool" where
  "rollbackAcked log \<longleftrightarrow> list_ex (\<lambda>ev. case ev of One q tag e closed tx \<Rightarrow>
     q = ''ROLLBACK'' \<and> tag = ''ROLLBACK'' \<and> e = None \<and> \<not> closed \<and> tx = CHR ''I'' | _ \<Rightarrow> False) log"

text \<open>The server refused the commit: it answered with a ROLLBACK tag or an error.\<close>

definition commitRefused :: "event list \<Rightarrow> bool" where
  "commitRefused log \<longleftrightarrow> list_ex (\<lambda>ev. case ev of One q tag e closed tx \<Rightarrow>
     q = ''COMMIT'' \<and> \<not> closed \<and> (tag = ''ROLLBACK'' \<or> isPgErr e) | _ \<Rightarrow> False) log"

definition truthful :: "MachineTransactionOutcome \<Rightarrow> event list \<Rightarrow> bool" where
  "truthful out log \<longleftrightarrow> (case out of
     MachineTransactionNotStarted \<Rightarrow> noCommit log
   | MachineTransactionDisposed \<Rightarrow> noCommit log
   | MachineTransactionCommitted \<Rightarrow> commitAcked log
   | MachineTransactionRolledBack \<Rightarrow> \<not> commitAcked log \<and> (if noCommit log then rollbackAcked log else commitRefused log)
   | MachineTransactionUnknown \<Rightarrow> \<not> noCommit log \<and> \<not> commitAcked log)"

lemmas log_defs = noCommit_def commitAcked_def rollbackAcked_def commitRefused_def

lemma log_simps [simp]:
  "noCommit []" "\<not> commitAcked []" "\<not> commitRefused []" "\<not> rollbackAcked []"
  "noCommit (xs @ ys) \<longleftrightarrow> noCommit xs \<and> noCommit ys" "commitAcked (xs @ ys) \<longleftrightarrow> commitAcked xs \<or> commitAcked ys"
  "commitRefused (xs @ ys) \<longleftrightarrow> commitRefused xs \<or> commitRefused ys" "rollbackAcked (xs @ ys) \<longleftrightarrow> rollbackAcked xs \<or> rollbackAcked ys"
  "noCommit (Batch q # log) \<longleftrightarrow> noCommit log" "noCommit (WithParams q ps # log) \<longleftrightarrow> noCommit log" "noCommit (Abort # log) \<longleftrightarrow> noCommit log"
  "noCommit (One q tag e c tx # log) \<longleftrightarrow> q \<noteq> ''COMMIT'' \<and> noCommit log"
  "commitAcked (Abort # log) \<longleftrightarrow> commitAcked log"
  "commitAcked (One q tag e c tx # log) \<longleftrightarrow> q = ''COMMIT'' \<and> tag = ''COMMIT'' \<and> \<not> c \<and> tx = CHR ''I'' \<or> commitAcked log"
  "commitRefused (Abort # log) \<longleftrightarrow> commitRefused log"
  "commitRefused (One q tag e c tx # log) \<longleftrightarrow> q = ''COMMIT'' \<and> \<not> c \<and> (tag = ''ROLLBACK'' \<or> isPgErr e) \<or> commitRefused log"
  "rollbackAcked (Abort # log) \<longleftrightarrow> rollbackAcked log"
  "rollbackAcked (One q tag e c tx # log) \<longleftrightarrow>
     q = ''ROLLBACK'' \<and> tag = ''ROLLBACK'' \<and> e = None \<and> \<not> c \<and> tx = CHR ''I'' \<or> rollbackAcked log"
  by (simp_all add: log_defs)

lemma noCommit_quiet: "noCommit log \<Longrightarrow> \<not> commitAcked log \<and> \<not> commitRefused log"
  by (auto simp: log_defs list_all_iff list_ex_iff split: event.splits)

section \<open>Steps of the connection\<close>

lemma poll_log [simp]: "snd (snd (poll srv c s)) = snd s"
  by (simp add: poll_def split: prod.split)

lemma poll_res: "poll srv c s = (b, s') \<Longrightarrow> snd s' = snd s"
  using poll_log [of srv c s] by simp

lemma machineFailure_log: "machineFailure srv c e code s = (m, s') \<Longrightarrow> snd s' = snd s"
  by (auto simp: machineFailure_def split: prod.splits dest: poll_res)

lemma atomicFail_res: "atomicFail srv x e code s = ((x', err), s') \<Longrightarrow> x' = x \<and> err \<noteq> None \<and> snd s' = snd s"
  by (auto simp: atomicFail_def dest: machineFailure_log split: prod.splits)

lemma send_res: "send srv q s = ((tag, e), s') \<Longrightarrow> snd s' = snd s @ [One q tag e (isClosed srv (fst s')) (txStatus srv (fst s'))]"
  by (auto simp: send_def split: prod.splits)

lemma execAll_noCommit: "execAll srv qs s = (e, s') \<Longrightarrow> list_all (\<lambda>q. q \<noteq> ''COMMIT'') qs \<Longrightarrow> noCommit (snd s) \<Longrightarrow> noCommit (snd s')"
proof (induction qs arbitrary: s)
  case (Cons q qs)
  obtain tag e1 s1 where r: "send srv q s = ((tag, e1), s1)" by (metis prod.exhaust)
  then have "noCommit (snd s1)" using send_res [OF r] Cons.prems by simp
  then show ?case using Cons r by (cases e1) (auto simp: exec_def)
qed simp

lemma runScript_noCommit: "runScript srv sql ps s = (r, s') \<Longrightarrow> noCommit (snd s) \<Longrightarrow> noCommit (snd s')"
  by (auto simp: runScript_def split: prod.splits if_splits)

lemma Abort_log [simp]: "snd (Client_Abort srv s) = snd s @ [Abort]"
  by (simp add: Client_Abort_def)

section \<open>The clean-up\<close>

lemma cleanUp_before_commit:
  assumes "cleanUp srv began False d ((x, err), s) = ((x', err'), s')" "noCommit (snd s)"
    "Outcome x = (if began then MachineTransactionDisposed else MachineTransactionNotStarted)"
  shows "truthful (Outcome x') (snd s') \<and> noCommit (snd s') \<and> err' = err \<and> (err \<noteq> None \<longrightarrow> Results (answer x') = []) \<and>
    Outcome x' \<noteq> MachineTransactionCommitted"
proof -
  obtain tag e s1 where r: "send srv ''ROLLBACK'' s = ((tag, e), s1)" by (metis prod.exhaust)
  have l: "noCommit (snd s1)" using send_res [OF r] assms(2) by simp
  then show ?thesis using assms r send_res [OF r] noCommit_quiet [of "snd s1"]
    by (cases began) (auto simp: cleanUp_def truthful_def rollbackAcked_def split: if_splits)
qed

section \<open>The stages\<close>

lemma setStatus_simps [simp]: "Results (setStatus st a) = Results a" "Status (Execution (setStatus st a)) = st"
  by (simp_all add: setStatus_def)

lemma cleanUp_settled:
  "Outcome x = MachineTransactionCommitted \<or> Outcome x = MachineTransactionRolledBack \<Longrightarrow>
   cleanUp srv b t d ((x, err), s) = ((if err = None then x else x\<lparr>answer := (answer x)\<lparr>Results := []\<rparr>\<rparr>, err), s)"
  by (auto simp: cleanUp_def)

text \<open>After a commit attempt the rollback decides only if the refusal was definitive.\<close>

lemma cleanUp_after_commit:
  assumes "cleanUp srv True True d ((x, err), s) = ((x', err'), s')" "Outcome x = MachineTransactionUnknown"
    "\<not> noCommit (snd s)" "\<not> commitAcked (snd s)" "d \<Longrightarrow> commitRefused (snd s)"
  shows "truthful (Outcome x') (snd s') \<and> err' = err \<and> (err \<noteq> None \<longrightarrow> Results (answer x') = []) \<and> Outcome x' \<noteq> MachineTransactionCommitted"
proof -
  obtain tag e s1 where r: "send srv ''ROLLBACK'' s = ((tag, e), s1)" by (metis prod.exhaust)
  show ?thesis using assms r send_res [OF r]
    by (auto simp: cleanUp_def truthful_def split: if_splits)
qed

lemma commitStage_truth:
  assumes "commitStage srv a s = ((x, err), s')" "noCommit (snd s)"
  shows "truthful (Outcome x) (snd s') \<and> \<not> noCommit (snd s') \<and> (err \<noteq> None \<longrightarrow> Results (answer x) = []) \<and>
    (err = None \<longrightarrow> Outcome x = MachineTransactionCommitted \<and> Status (Execution (answer x)) = MachineExecutionCompleted \<and>
       Results (answer x) = Results a)"
proof -
  obtain tag ce s1 where r: "send srv ''COMMIT'' s = ((tag, ce), s1)" by (metis prod.exhaust)
  note l = send_res [OF r]
  let ?open = "\<not> isClosed srv (fst s1)" and ?idle = "txStatus srv (fst s1) = CHR ''I''"
  have q: "\<not> commitAcked (snd s)" "\<not> commitRefused (snd s)" using noCommit_quiet [OF assms(2)] by blast+
  consider (acked) "?open" "?idle" "tag = ''COMMIT''"
    | (refused) "\<not> (?open \<and> ?idle \<and> tag = ''COMMIT'')" "?open" "tag = ''ROLLBACK'' \<and> ?idle \<or> isPgErr ce"
    | (unknown) "\<not> (?open \<and> ?idle \<and> tag = ''COMMIT'')" "\<not> (?open \<and> (tag = ''ROLLBACK'' \<and> ?idle \<or> isPgErr ce))" by blast
  then show ?thesis
  proof cases
    case acked
    let ?x = "\<lparr>answer = setStatus MachineExecutionCompleted a, Outcome = MachineTransactionCommitted\<rparr>"
    obtain m s2 where f: "atomicFail srv ?x ce ''DATABASE_FAILURE'' s1 = ((?x, Some m), s2)" "snd s2 = snd s1"
      using atomicFail_res [of srv ?x ce "''DATABASE_FAILURE''" s1] by (metis not_Some_eq prod.exhaust)
    have "truthful MachineTransactionCommitted (snd s1)" "\<not> noCommit (snd s1)" using acked l by (simp_all add: truthful_def)
    then show ?thesis using assms(1) r acked f by (auto simp: commitStage_def Let_def cleanUp_settled split: if_splits)
  next
    case refused
    define y where "y = \<lparr>answer = setStatus MachineExecutionFailed a,
      Outcome = (if ?idle then MachineTransactionRolledBack else MachineTransactionUnknown)\<rparr>"
    obtain m s2 where f: "atomicFail srv y ce ''DATABASE_FAILURE'' s1 = ((y, Some m), s2)" "snd s2 = snd s1"
      using atomicFail_res [of srv y ce "''DATABASE_FAILURE''" s1] by (metis not_Some_eq prod.exhaust)
    have "commitStage srv a s = cleanUp srv True True True (atomicFail srv y ce ''DATABASE_FAILURE'' s1)"
      unfolding commitStage_def r y_def using refused by (simp only: prod.case Let_def fst_conv if_False if_True simp_thms if_not_P)
    then have e: "cleanUp srv True True True ((y, Some m), s2) = ((x, err), s')" using assms(1) f by simp
    have log: "\<not> noCommit (snd s2)" "\<not> commitAcked (snd s2)" "commitRefused (snd s2)" using l f(2) q refused by auto
    show ?thesis
    proof (cases "?idle")
      case True
      then show ?thesis using e log by (auto simp: y_def cleanUp_settled truthful_def)
    next
      case False
      have "\<not> noCommit (snd s')"
        using e log(1) False send_res [of srv "''ROLLBACK''" s2] unfolding y_def by (auto simp: cleanUp_def split: prod.splits if_splits)
      moreover have "truthful (Outcome x) (snd s') \<and> err = Some m \<and> Results (answer x) = []"
        using cleanUp_after_commit [OF e] False log by (simp add: y_def)
      ultimately show ?thesis by simp
    qed
  next
    case unknown
    let ?x = "\<lparr>answer = setStatus MachineExecutionUnknown a, Outcome = MachineTransactionUnknown\<rparr>"
    obtain m s2 where f: "atomicFail srv ?x ce ''DATABASE_FAILURE'' s1 = ((?x, Some m), s2)" "snd s2 = snd s1"
      using atomicFail_res [of srv ?x ce "''DATABASE_FAILURE''" s1] by (metis not_Some_eq prod.exhaust)
    have e: "cleanUp srv True True False ((?x, Some m), s2) = ((x, err), s')"
      using assms(1) r unknown f by (simp add: commitStage_def Let_def)
    have log: "\<not> noCommit (snd s2)" "\<not> commitAcked (snd s2)" using l f(2) q unknown by auto
    have "\<not> noCommit (snd s')"
      using e log(1) send_res [of srv "''ROLLBACK''" s2] by (auto simp: cleanUp_def split: prod.splits if_splits)
    moreover have "truthful (Outcome x) (snd s') \<and> err = Some m \<and> Results (answer x) = []"
      using cleanUp_after_commit [OF e] log by simp
    ultimately show ?thesis by simp
  qed
qed

lemma precommitStage_truth:
  assumes "precommitStage srv pre a s = ((x, err), s')" "noCommit (snd s)"
  shows "truthful (Outcome x) (snd s') \<and> (err \<noteq> None \<longrightarrow> Results (answer x) = []) \<and>
    (err = None \<longrightarrow> Outcome x = MachineTransactionCommitted \<and> Status (Execution (answer x)) = MachineExecutionCompleted \<and>
       Results (answer x) = Results a) \<and>
    (noCommit (snd s') \<or>
     (\<exists>w w'. pre \<lparr>answer = setStatus MachineExecutionCompleted a, Outcome = MachineTransactionCommitted\<rparr> w = (None, w')))"
proof -
  let ?x = "\<lparr>answer = a, Outcome = MachineTransactionDisposed\<rparr>"
  let ?p = "\<lparr>answer = setStatus MachineExecutionCompleted a, Outcome = MachineTransactionCommitted\<rparr>"
  have stop: "truthful (Outcome x) (snd s') \<and> noCommit (snd s') \<and> err = Some m \<and> Results (answer x) = []"
    if "cleanUp srv True False False ((?x, Some m), t) = ((x, err), s')" "noCommit (snd t)" for m t
    using cleanUp_before_commit [OF that] by simp
  obtain b1 s1 where p1: "poll srv Caller s = (b1, s1)" by (metis prod.exhaust)
  have n1: "noCommit (snd s1)" using poll_res [OF p1] assms(2) by simp
  show ?thesis
  proof (cases b1)
    case True
    then have "cleanUp srv True False False ((?x, Some (mkErr ''TIMEOUT'')), s1) = ((x, err), s')"
      using assms(1) p1 by (simp add: precommitStage_def Let_def)
    then show ?thesis using stop n1 by blast
  next
    case f1: False
    obtain r w where pre: "pre ?p (fst s1) = (r, w)" by (metis prod.exhaust)
    show ?thesis
    proof (cases r)
      case (Some e)
      obtain m s2 where f: "atomicFail srv ?x (Some e) ''RESOURCE_FAILURE'' (w, snd s1) = ((?x, Some m), s2)" "snd s2 = snd s1"
        using atomicFail_res [of srv ?x "Some e" "''RESOURCE_FAILURE''" "(w, snd s1)"] by (metis not_Some_eq prod.exhaust snd_conv)
      have n2: "noCommit (snd s2)" using f(2) n1 by simp
      have "cleanUp srv True False False ((?x, Some m), s2) = ((x, err), s')"
        using f(1) assms(1) p1 f1 pre Some by (simp add: precommitStage_def Let_def)
      then show ?thesis using stop [OF _ n2] by blast
    next
      case None
      obtain b2 s2 where p2: "poll srv Caller (w, snd s1) = (b2, s2)" by (metis prod.exhaust)
      have n2: "noCommit (snd s2)" using poll_res [OF p2] n1 by simp
      show ?thesis
      proof (cases b2)
        case True
        then have "cleanUp srv True False False ((?x, Some (mkErr ''TIMEOUT'')), s2) = ((x, err), s')"
          using assms(1) p1 f1 pre None p2 by (simp add: precommitStage_def Let_def)
        then show ?thesis using stop n2 by blast
      next
        case False
        then have "commitStage srv a s2 = ((x, err), s')"
          using assms(1) p1 f1 pre None p2 by (simp add: precommitStage_def Let_def)
        then show ?thesis using commitStage_truth [OF _ n2] pre None by blast
      qed
    qed
  qed
qed

definition atomic_ok :: "ValidatedTemporaryScript \<Rightarrow> 'w precommit \<Rightarrow> TemporaryAtomicResult \<Rightarrow> MachineError option \<Rightarrow> event list \<Rightarrow> bool" where
  "atomic_ok script pre x err log \<longleftrightarrow>
     truthful (Outcome x) log \<and> (err \<noteq> None \<longrightarrow> Results (answer x) = []) \<and>
     (err = None \<longrightarrow> Outcome x = MachineTransactionCommitted \<and> Status (Execution (answer x)) = MachineExecutionCompleted \<and>
        length (Results (answer x)) = length (ts_statements script)) \<and>
     (noCommit log \<or>
      (\<exists>p w w'. length (Results (answer p)) = length (ts_statements script) \<and> Status (Execution (answer p)) = MachineExecutionCompleted \<and>
         Outcome p = MachineTransactionCommitted \<and> pre p w = (None, w')))"

text \<open>An early end: the error is reported and nothing was committed.\<close>

lemma stopped_ok:
  assumes "cleanUp srv b False False (atomicFail srv x0 e code s) = ((x, err), s')" "noCommit (snd s)"
    "Outcome x0 = (if b then MachineTransactionDisposed else MachineTransactionNotStarted)"
  shows "atomic_ok script pre x err (snd s')"
proof -
  obtain m s1 where f: "atomicFail srv x0 e code s = ((x0, Some m), s1)" "snd s1 = snd s"
    using atomicFail_res [of srv x0 e code s] by (metis not_Some_eq prod.exhaust)
  have e: "cleanUp srv b False False ((x0, Some m), s1) = ((x, err), s')" using assms(1) f(1) by simp
  have n: "noCommit (snd s1)" using assms(2) f(2) by simp
  show ?thesis using cleanUp_before_commit [OF e n assms(3)] by (simp add: atomic_ok_def)
qed

lemma refused_ok:
  "cleanUp srv True False False ((x0, Some m), s) = ((x, err), s') \<Longrightarrow> noCommit (snd s) \<Longrightarrow> Outcome x0 = MachineTransactionDisposed \<Longrightarrow>
   atomic_ok script pre x err (snd s')"
proof -
  assume a: "cleanUp srv True False False ((x0, Some m), s) = ((x, err), s')" "noCommit (snd s)" "Outcome x0 = MachineTransactionDisposed"
  show ?thesis using cleanUp_before_commit [OF a(1,2)] a(3) by (simp add: atomic_ok_def)
qed

lemma runStage_ok:
  assumes "runStage srv pre script ps n s = ((x, err), s')" "noCommit (snd s)"
  shows "atomic_ok script pre x err (snd s')"
proof -
  obtain sets te s1 where r: "runScript srv (ts_sql script) ps s = ((sets, te), s1)" by (metis prod.exhaust)
  obtain a re where c: "consumeSets n (length (ts_statements script)) sets (4096, 0) (res startVars) = (a, re)" by force
  define s2 where "s2 = (if re \<noteq> None then Client_Abort srv s1 else s1)"
  have n2: "noCommit (snd s2)" using runScript_noCommit [OF r assms(2)] by (simp add: s2_def)
  let ?e = "if re = None then te else re"
  show ?thesis
  proof (cases "?e \<noteq> None \<or> isClosed srv (fst s2) \<or> txStatus srv (fst s2) \<noteq> CHR ''T'' \<or> length (Results a) \<noteq> length (ts_statements script)")
    case True
    then have "cleanUp srv True False False (atomicFail srv \<lparr>answer = setStatus MachineExecutionFailed a, Outcome = MachineTransactionDisposed\<rparr>
        ?e ''DATABASE_FAILURE'' s2) = ((x, err), s')"
      using assms(1) r c by (simp only: runStage_def Let_def prod.case s2_def [symmetric] if_True)
    then show ?thesis using stopped_ok n2 by fastforce
  next
    case False
    then have l: "length (Results a) = length (ts_statements script)" by blast
    have "precommitStage srv pre (setStatus MachineExecutionCompleted a) s2 = ((x, err), s')"
      using False assms(1) r c by (simp only: runStage_def Let_def prod.case s2_def [symmetric] if_False)
    then show ?thesis using l precommitStage_truth [OF _ n2] unfolding atomic_ok_def by (metis setStatus_simps TemporaryAtomicResult.select_convs)
  qed
qed

lemma beginStage_ok:
  assumes "beginStage srv pre script ps n schema s = ((x, err), s')" "noCommit (snd s)"
  shows "atomic_ok script pre x err (snd s')"
proof -
  let ?begun = "atomicStart\<lparr>Outcome := MachineTransactionDisposed\<rparr>"
  obtain tag e s1 where r: "send srv (if allowWrite script then ''BEGIN'' else ''BEGIN READ ONLY'') s = ((tag, e), s1)" by (metis prod.exhaust)
  have n1: "noCommit (snd s1)" using send_res [OF r] assms(2) by simp
  let ?bad = "e \<noteq> None \<or> tag \<noteq> ''BEGIN'' \<or> isClosed srv (fst s1) \<or> txStatus srv (fst s1) \<noteq> CHR ''T''"
  show ?thesis
  proof (cases ?bad)
    case True
    then have "cleanUp srv True False False (atomicFail srv ?begun e ''DATABASE_FAILURE'' s1) = ((x, err), s')"
      using assms(1) r by (simp only: beginStage_def Let_def prod.case if_True)
    then show ?thesis using stopped_ok [OF _ n1] by fastforce
  next
    case good: False
    let ?qs = "if schema \<noteq> '''' then [''SET LOCAL search_path TO '' @ Sanitize srv schema] else []"
    obtain e2 s2 where x: "execAll srv ?qs s1 = (e2, s2)" by (metis prod.exhaust)
    have n2: "noCommit (snd s2)" using execAll_noCommit [OF x _ n1] by simp
    show ?thesis
    proof (cases e2)
      case (Some e')
      then have "cleanUp srv True False False (atomicFail srv ?begun (Some e') ''DATABASE_FAILURE'' s2) = ((x, err), s')"
        using assms(1) r good x by (simp only: beginStage_def Let_def prod.case if_False option.case)
      then show ?thesis using stopped_ok [OF _ n2] by fastforce
    next
      case None
      obtain b s3 where p: "poll srv Caller s2 = (b, s3)" by (metis prod.exhaust)
      have n3: "noCommit (snd s3)" using poll_res [OF p] n2 by simp
      show ?thesis
      proof (cases b)
        case True
        then have "cleanUp srv True False False ((?begun, Some (mkErr ''TIMEOUT'')), s3) = ((x, err), s')"
          using assms(1) r good x None p by (simp only: beginStage_def Let_def prod.case if_False option.case bool.case)
        then show ?thesis by (rule refused_ok [OF _ n3]) simp
      next
        case False
        then have "runStage srv pre script ps n s3 = ((x, err), s')"
          using assms(1) r good x None p by (simp only: beginStage_def Let_def prod.case if_False option.case bool.case)
        then show ?thesis by (rule runStage_ok [OF _ n3])
      qed
    qed
  qed
qed

section \<open>What is sent\<close>

definition own :: "event \<Rightarrow> bool" where
  "own ev \<longleftrightarrow> (case ev of Batch q \<Rightarrow> False | WithParams q ps \<Rightarrow> False | _ \<Rightarrow> True)"

lemma own_simps [simp]: "own (One q tag e c tx)" "own Abort" "\<not> own (Batch q)" "\<not> own (WithParams q ps)"
  by (simp_all add: own_def)

text \<open>Between two logs nothing of the user's was sent.\<close>

definition quiet :: "event list \<Rightarrow> event list \<Rightarrow> bool" where
  "quiet l l' \<longleftrightarrow> (\<exists>ext. l' = l @ ext \<and> list_all own ext)"

lemma quiet_refl: "quiet l l"
  by (simp add: quiet_def)

lemma quiet_trans: "quiet l l1 \<Longrightarrow> quiet l1 l2 \<Longrightarrow> quiet l l2"
  by (fastforce simp: quiet_def)

lemma quiet_poll: "poll srv c s = (b, s') \<Longrightarrow> quiet (snd s) (snd s')"
  by (simp add: poll_res quiet_refl)

lemma quiet_send: "send srv q s = ((tag, e), s') \<Longrightarrow> quiet (snd s) (snd s')"
  by (simp add: quiet_def send_res)

lemma quiet_Abort: "quiet (snd s) (snd (Client_Abort srv s))"
  by (simp add: quiet_def)

lemma quiet_fail: "atomicFail srv x e code s = ((x', err), s') \<Longrightarrow> quiet (snd s) (snd s')"
  by (simp add: atomicFail_res quiet_refl)

lemma quiet_execAll: "execAll srv qs s = (e, s') \<Longrightarrow> quiet (snd s) (snd s')"
proof (induction qs arbitrary: s)
  case (Cons q qs)
  obtain tag e1 s1 where r: "send srv q s = ((tag, e1), s1)" by (metis prod.exhaust)
  show ?case
  proof (cases e1)
    case None
    then have "execAll srv qs s1 = (e, s')" using Cons.prems r by (simp add: exec_def)
    then show ?thesis using Cons.IH quiet_send [OF r] quiet_trans by blast
  next
    case (Some y)
    then have "s' = s1" using Cons.prems r by (simp add: exec_def)
    then show ?thesis using quiet_send [OF r] by blast
  qed
qed (simp add: quiet_refl)

lemma quiet_cleanUp: "cleanUp srv b t d ((x, err), s) = ((x', err'), s') \<Longrightarrow> quiet (snd s) (snd s')"
proof -
  assume a: "cleanUp srv b t d ((x, err), s) = ((x', err'), s')"
  obtain tag e s1 where r: "send srv ''ROLLBACK'' s = ((tag, e), s1)" by (metis prod.exhaust)
  have "s' = s \<or> s' = s1 \<or> s' = Client_Abort srv s1" using a r by (auto simp: cleanUp_def split: if_splits)
  then show ?thesis using quiet_send [OF r] quiet_trans quiet_Abort quiet_refl by metis
qed

lemma quiet_stop: "cleanUp srv b t d (atomicFail srv x e code s) = ((x', err'), s') \<Longrightarrow> quiet (snd s) (snd s')"
proof -
  assume a: "cleanUp srv b t d (atomicFail srv x e code s) = ((x', err'), s')"
  obtain x1 err1 s1 where f: "atomicFail srv x e code s = ((x1, err1), s1)" by (metis prod.exhaust)
  show ?thesis using quiet_cleanUp [OF a [unfolded f]] quiet_fail [OF f] quiet_trans by blast
qed

lemma if3: "(if A then x else if B then y else z) = r \<Longrightarrow> x = r \<or> y = r \<or> z = r"
  by (simp split: if_splits)

lemma quiet_commitStage: "commitStage srv a s = ((x, err), s') \<Longrightarrow> quiet (snd s) (snd s')"
proof -
  assume a: "commitStage srv a s = ((x, err), s')"
  obtain tag ce s1 where r: "send srv ''COMMIT'' s = ((tag, ce), s1)" by (metis prod.exhaust)
  have "(\<exists>d y. cleanUp srv True True d (atomicFail srv y ce ''DATABASE_FAILURE'' s1) = ((x, err), s')) \<or>
      (\<exists>y. cleanUp srv True True True ((y, None), s1) = ((x, err), s'))"
  proof (cases "ce = None")
    case True
    show ?thesis using if3 [OF a [unfolded commitStage_def Let_def r prod.case]] unfolding True by (simp only: simp_thms if_False) blast
  next
    case False
    show ?thesis using if3 [OF a [unfolded commitStage_def Let_def r prod.case]] False by (simp only: simp_thms if_True) blast
  qed
  then have "quiet (snd s1) (snd s')"
    by (elim disjE exE) (erule quiet_stop, erule quiet_cleanUp)
  then show ?thesis by (rule quiet_trans [OF quiet_send [OF r]])
qed

lemma quiet_precommitStage: "precommitStage srv pre a s = ((x, err), s') \<Longrightarrow> quiet (snd s) (snd s')"
proof -
  assume a: "precommitStage srv pre a s = ((x, err), s')"
  let ?x = "\<lparr>answer = a, Outcome = MachineTransactionDisposed\<rparr>"
  let ?p = "\<lparr>answer = setStatus MachineExecutionCompleted a, Outcome = MachineTransactionCommitted\<rparr>"
  obtain b1 s1 where p1: "poll srv Caller s = (b1, s1)" by (metis prod.exhaust)
  obtain r w where pre: "pre ?p (fst s1) = (r, w)" by (metis prod.exhaust)
  obtain b2 s2 where p2: "poll srv Caller (w, snd s1) = (b2, s2)" by (metis prod.exhaust)
  have q: "quiet (snd s) (snd s1)" "quiet (snd s) (snd s2)" "snd (w, snd s1) = snd s1"
    using poll_res [OF p1] poll_res [OF p2] by (simp_all add: quiet_refl)
  have "(\<exists>e. cleanUp srv True False False ((?x, e), s1) = ((x, err), s')) \<or>
      (\<exists>e. cleanUp srv True False False (atomicFail srv ?x e ''RESOURCE_FAILURE'' (w, snd s1)) = ((x, err), s')) \<or>
      (\<exists>e. cleanUp srv True False False ((?x, e), s2) = ((x, err), s')) \<or> commitStage srv a s2 = ((x, err), s')"
    using a p1 pre p2
    by (cases b1; cases r; cases b2) (simp_all only: precommitStage_def Let_def prod.case bool.case option.case, blast+)
  then show ?thesis
  proof (elim disjE exE)
    fix e assume "cleanUp srv True False False (atomicFail srv ?x e ''RESOURCE_FAILURE'' (w, snd s1)) = ((x, err), s')"
    then have "quiet (snd s1) (snd s')" using quiet_stop q(3) by metis
    then show ?thesis using q(1) quiet_trans by blast
  qed (use q quiet_cleanUp quiet_commitStage quiet_trans in blast)+
qed

definition scriptEvent :: "string \<Rightarrow> params \<Rightarrow> event" where
  "scriptEvent sql ps = (if ps = [] then Batch sql else WithParams sql ps)"

text \<open>The user's script is sent at most once, and only inside a transaction of the right kind.\<close>

definition sent_once :: "ValidatedTemporaryScript \<Rightarrow> params \<Rightarrow> event list \<Rightarrow> bool" where
  "sent_once script ps log \<longleftrightarrow>
     list_all own log \<or>
     (\<exists>before after. log = before @ scriptEvent (ts_sql script) ps # after \<and> list_all own before \<and> list_all own after \<and>
        One (if allowWrite script then ''BEGIN'' else ''BEGIN READ ONLY'') ''BEGIN'' None False (CHR ''T'') \<in> set before)"

lemma runStage_once:
  assumes "runStage srv pre script ps n s = ((x, err), s')"
  shows "\<exists>after. snd s' = snd s @ scriptEvent (ts_sql script) ps # after \<and> list_all own after"
proof -
  obtain sets te s1 where r: "runScript srv (ts_sql script) ps s = ((sets, te), s1)" by (metis prod.exhaust)
  obtain a re where c: "consumeSets n (length (ts_statements script)) sets (4096, 0) (res startVars) = (a, re)" by force
  define s2 where "s2 = (if re \<noteq> None then Client_Abort srv s1 else s1)"
  let ?e = "if re = None then te else re"
  have s1: "snd s1 = snd s @ [scriptEvent (ts_sql script) ps]"
    using r by (auto simp: runScript_def scriptEvent_def split: prod.splits if_splits)
  have q: "quiet (snd s1) (snd s2)" by (simp add: s2_def quiet_refl quiet_def)
  have "(\<exists>y. cleanUp srv True False False (atomicFail srv y ?e ''DATABASE_FAILURE'' s2) = ((x, err), s')) \<or>
      (\<exists>b. precommitStage srv pre b s2 = ((x, err), s'))"
  proof (cases "?e \<noteq> None \<or> isClosed srv (fst s2) \<or> txStatus srv (fst s2) \<noteq> CHR ''T'' \<or> length (Results a) \<noteq> length (ts_statements script)")
    case True
    then show ?thesis using assms r c by (simp only: runStage_def Let_def prod.case s2_def [symmetric] if_True) blast
  next
    case False
    then show ?thesis using assms r c by (simp only: runStage_def Let_def prod.case s2_def [symmetric] if_False) blast
  qed
  then have "quiet (snd s2) (snd s')" by (elim disjE exE) (erule quiet_stop, erule quiet_precommitStage)
  then have "quiet (snd s1) (snd s')" using q quiet_trans by blast
  then show ?thesis using s1 by (auto simp: quiet_def)
qed

lemma beginStage_once:
  assumes "beginStage srv pre script ps n schema s = ((x, err), s')" "list_all own (snd s)"
  shows "sent_once script ps (snd s')"
proof -
  let ?begun = "atomicStart\<lparr>Outcome := MachineTransactionDisposed\<rparr>" and ?opening = "if allowWrite script then ''BEGIN'' else ''BEGIN READ ONLY''"
  obtain tag e s1 where r: "send srv ?opening s = ((tag, e), s1)" by (metis prod.exhaust)
  let ?bad = "e \<noteq> None \<or> tag \<noteq> ''BEGIN'' \<or> isClosed srv (fst s1) \<or> txStatus srv (fst s1) \<noteq> CHR ''T''"
  let ?qs = "if schema \<noteq> '''' then [''SET LOCAL search_path TO '' @ Sanitize srv schema] else []"
  obtain e2 s2 where x: "execAll srv ?qs s1 = (e2, s2)" by (metis prod.exhaust)
  obtain b s3 where p: "poll srv Caller s2 = (b, s3)" by (metis prod.exhaust)
  have own_q: "list_all own l" if "quiet (snd s) l" for l using that assms(2) by (auto simp: quiet_def)
  have q: "quiet (snd s) (snd s1)" "quiet (snd s1) (snd s2)" "quiet (snd s2) (snd s3)" using quiet_send [OF r] quiet_execAll [OF x] quiet_poll [OF p] by blast+
  have cases: "(\<exists>y e'. cleanUp srv True False False (atomicFail srv y e' ''DATABASE_FAILURE'' s1) = ((x, err), s')) \<or>
      (\<exists>y e'. cleanUp srv True False False (atomicFail srv y e' ''DATABASE_FAILURE'' s2) = ((x, err), s')) \<or>
      (\<exists>y e'. cleanUp srv True False False ((y, e'), s3) = ((x, err), s')) \<or>
      \<not> ?bad \<and> runStage srv pre script ps n s3 = ((x, err), s')"
  proof (cases ?bad)
    case True
    then show ?thesis using assms(1) r by (simp only: beginStage_def Let_def prod.case if_True) blast
  next
    case good: False
    then show ?thesis using assms(1) r x p
      by (cases e2; cases b) (simp_all only: beginStage_def Let_def prod.case if_False option.case bool.case, blast+)
  qed
  have "sent_once script ps (snd s')" if "quiet (snd s) (snd s')" using own_q [OF that] by (simp add: sent_once_def)
  moreover have "sent_once script ps (snd s')" if g: "\<not> ?bad" and run: "runStage srv pre script ps n s3 = ((x, err), s')"
  proof -
    have "snd s1 = snd s @ [One ?opening ''BEGIN'' None False (CHR ''T'')]" using send_res [OF r] g by auto
    moreover obtain ext where "snd s3 = snd s1 @ ext" using quiet_trans [OF q(2,3)] by (auto simp: quiet_def)
    ultimately have "One ?opening ''BEGIN'' None False (CHR ''T'') \<in> set (snd s3)" by simp
    moreover have "list_all own (snd s3)" using own_q quiet_trans [OF quiet_trans [OF q(1,2)] q(3)] by blast
    ultimately show ?thesis using runStage_once [OF run] unfolding sent_once_def by blast
  qed
  moreover have "quiet (snd s) (snd s')" if "quiet (snd s1) (snd s') \<or> quiet (snd s2) (snd s') \<or> quiet (snd s3) (snd s')"
    using that q quiet_trans by metis
  ultimately show ?thesis using cases by (elim disjE exE conjE) (metis quiet_stop quiet_cleanUp)+
qed

section \<open>The outcome is true\<close>

lemma atomicFail_ok:
  "atomicFail srv x0 e code s = ((x, err), s') \<Longrightarrow> noCommit (snd s) \<Longrightarrow> Outcome x0 = MachineTransactionNotStarted \<Longrightarrow>
   Results (answer x0) = [] \<Longrightarrow> atomic_ok script pre x err (snd s')"
  using atomicFail_res [of srv x0 e code s x err s'] by (auto simp: atomic_ok_def truthful_def)

lemma not_started_ok: "noCommit log \<Longrightarrow> atomic_ok script pre atomicStart (Some m) log"
  by (simp add: atomic_ok_def truthful_def atomicStart_def noResult_def)

lemma atomic_cases:
  assumes "ExecuteTemporaryAtomic srv c script ps opts (Some pre) s = ((x, err), s')"
  obtains (refused) m where "x = atomicStart" "err = Some m" "quiet (snd s) (snd s')" "noCommit (snd s) \<Longrightarrow> noCommit (snd s')"
  | (begun) s1 n schema where "beginStage srv pre script ps n schema s1 = ((x, err), s')" "quiet (snd s) (snd s1)"
      "noCommit (snd s) \<Longrightarrow> noCommit (snd s1)" "temporary c" "atomicInput script ps" "writes script \<longrightarrow> allowWrite script"
proof -
  define opts' where "opts' = (if oMaxRows opts = 0 then opts\<lparr>oMaxRows := 100\<rparr> else opts)"
  define bad where "bad \<longleftrightarrow> 256 < length (ts_statements script) \<or>
    \<not> boundedRequest \<lparr>SQL = ts_sql script, Parameters = ps, qMaxRows = oMaxRows opts', Schema = oSchema opts'\<rparr>"
  let ?go = "temporary c \<and> atomicInput script ps \<and> (writes script \<longrightarrow> allowWrite script) \<and> \<not> bad"
  obtain b s1 where p: "poll srv Caller s = (b, s1)" by (metis prod.exhaust)
  have base: "list_all (\<lambda>q. q \<noteq> ''COMMIT'') baseSetup" by (simp add: baseSetup_def)
  note eq = assms [unfolded ExecuteTemporaryAtomic_def Let_def option.case, folded opts'_def]
  obtain e s2 where x: "execAll srv baseSetup s1 = (e, s2)" by (metis prod.exhaust)
  note l = poll_res [OF p] quiet_execAll [OF x] execAll_noCommit [OF x base]
  show thesis
  proof (cases "?go \<and> \<not> b \<and> \<not> (isClosed srv (fst s1) \<or> txStatus srv (fst s1) \<noteq> CHR ''I'') \<and> e = None")
    case True
    then have "beginStage srv pre script ps (oMaxRows opts') (oSchema opts') s2 = ((x, err), s')"
      using eq p x by (auto simp: bad_def split: if_split_asm)
    then show thesis using begun [of "oMaxRows opts'" "oSchema opts'" s2] True l by auto
  next
    case False
    then consider (now) "\<not> ?go" | (late) "?go" "b" | (dead) "?go" "\<not> b" "isClosed srv (fst s1) \<or> txStatus srv (fst s1) \<noteq> CHR ''I''"
      | (failed) e' where "?go" "\<not> b" "\<not> (isClosed srv (fst s1) \<or> txStatus srv (fst s1) \<noteq> CHR ''I'')" "e = Some e'" by (cases e) blast+
    then show thesis
    proof cases
      case now
      then have "\<exists>m. ((x, err), s') = ((atomicStart, Some m), s)"
        using eq unfolding bad_def by (auto split: if_splits)
      then show thesis using refused quiet_refl by auto
    next
      case late
      then have "((x, err), s') = ((atomicStart, Some (mkErr ''TIMEOUT'')), s1)"
        using eq p by (auto simp: bad_def split: if_split_asm)
      then show thesis using refused l(1) quiet_refl by auto
    next
      case dead
      then have "((x, err), s') = ((atomicStart, Some (mkErr ''DATABASE_FAILURE'')), Client_Abort srv s1)"
        using eq p by (auto simp: bad_def split: if_split_asm)
      then show thesis using refused l(1) by (auto simp: quiet_def)
    next
      case failed
      then have f: "atomicFail srv atomicStart (Some e') ''DATABASE_FAILURE'' s2 = ((x, err), s')"
        using eq p x by (auto simp: bad_def split: if_split_asm)
      then have "x = atomicStart" "err \<noteq> None" "snd s' = snd s2" using atomicFail_res by blast+
      then show thesis using refused l by auto
    qed
  qed
qed

lemma truthful_facts:
  "truthful out log \<Longrightarrow>
   (commitAcked log \<longleftrightarrow> out = MachineTransactionCommitted) \<and>
   (out = MachineTransactionNotStarted \<or> out = MachineTransactionDisposed \<longrightarrow> noCommit log) \<and>
   (out = MachineTransactionRolledBack \<longrightarrow> (if noCommit log then rollbackAcked log else commitRefused log)) \<and>
   (out = MachineTransactionUnknown \<longrightarrow> \<not> noCommit log)"
  using noCommit_quiet [of log] by (cases out) (simp_all add: truthful_def)

text \<open>
  C6. The outcome that atomic execution reports is what happened.  A transaction is reported
  committed exactly when the server acknowledged the COMMIT; when it is reported not started,
  disposed of or rolled back, no COMMIT was acknowledged, and a rollback is only claimed if the
  server confirmed it or had refused the COMMIT.  Success means a commit and a complete
  answer, an error leaves no rows, and COMMIT is sent only after the caller accepted a complete
  prospective answer.  The script is sent at most once, only if validated and on a temporary
  connection, inside a transaction that is read-only unless writes were allowed.
\<close>

theorem atomic_outcome_is_truthful:
  assumes "ExecuteTemporaryAtomic srv c script ps opts (Some pre) (w, []) = ((x, err), (w', log))"
  shows "(commitAcked log \<longleftrightarrow> Outcome x = MachineTransactionCommitted) \<and>
    (Outcome x = MachineTransactionNotStarted \<or> Outcome x = MachineTransactionDisposed \<longrightarrow> noCommit log) \<and>
    (Outcome x = MachineTransactionRolledBack \<longrightarrow> (if noCommit log then rollbackAcked log else commitRefused log)) \<and>
    (Outcome x = MachineTransactionUnknown \<longrightarrow> \<not> noCommit log) \<and>
    (err \<noteq> None \<longrightarrow> Results (answer x) = []) \<and>
    (err = None \<longrightarrow> Outcome x = MachineTransactionCommitted \<and> Status (Execution (answer x)) = MachineExecutionCompleted \<and>
       length (Results (answer x)) = length (ts_statements script)) \<and>
    (noCommit log \<or> (\<exists>p w w'. length (Results (answer p)) = length (ts_statements script) \<and>
       Status (Execution (answer p)) = MachineExecutionCompleted \<and> Outcome p = MachineTransactionCommitted \<and> pre p w = (None, w'))) \<and>
    (list_all own log \<or>
     temporary c \<and> validated script \<and> (writes script \<longrightarrow> allowWrite script) \<and>
     (\<exists>before after. log = before @ scriptEvent (ts_sql script) ps # after \<and> list_all own before \<and> list_all own after \<and>
        One (if allowWrite script then ''BEGIN'' else ''BEGIN READ ONLY'') ''BEGIN'' None False (CHR ''T'') \<in> set before))"
proof -
  have "atomic_ok script pre x err log \<and>
      (list_all own log \<or> temporary c \<and> validated script \<and> (writes script \<longrightarrow> allowWrite script) \<and> sent_once script ps log)"
    using assms
  proof (cases rule: atomic_cases)
    case (refused m)
    then show ?thesis using not_started_ok by (auto simp: quiet_def)
  next
    case (begun s1 n schema)
    then have "noCommit (snd s1)" "list_all own (snd s1)" by (auto simp: quiet_def)
    then show ?thesis using beginStage_ok [OF begun(1)] beginStage_once [OF begun(1)] begun(4-6) by (auto simp: atomicInput_def)
  qed
  then show ?thesis using truthful_facts [of "Outcome x" log] unfolding atomic_ok_def sent_once_def by blast
qed

text \<open>A server that does what it is asked, with one row for every script; its state is the transaction status.\<close>

definition sample_server :: "char server" where
  "sample_server = \<lparr>
     ctxErr = (\<lambda>a w. (False, w)),
     analysisCtx = (\<lambda>w p. False),
     runOne = (\<lambda>q w. if q = ''COMMIT'' then ((''COMMIT'', None), CHR ''I'')
                else if q = ''BEGIN'' \<or> q = ''BEGIN READ ONLY'' then ((''BEGIN'', None), CHR ''T'')
                else if q = ''ROLLBACK'' then ((''ROLLBACK'', None), CHR ''I'') else ((''SET'', None), w)),
     runBatch = (\<lambda>q w. (([\<lparr>rsFields = [\<lparr>fName = ''n'', fOID = 23, fFormat = 0\<rparr>], rsRows = [[Some ''1'']], rsTag = ''SELECT 1'', rsErr = None\<rparr>],
                  None), w)),
     runParams = (\<lambda>q ps w. (\<lparr>rsFields = [], rsRows = [], rsTag = ''SELECT 0'', rsErr = None\<rparr>, w)),
     isClosed = (\<lambda>w. False), txStatus = (\<lambda>w. w), doAbort = (\<lambda>w. w), Sanitize = (\<lambda>q. q)\<rparr>"

definition sample_script :: ValidatedTemporaryScript where
  "sample_script = \<lparr>ts_sql = ''SELECT 1'', ts_statements = [\<lparr>tStart = 0, tEnd = 8, tWrites = False\<rparr>], parameterCount = 0,
     writes = False, allowWrite = False, validated = True\<rparr>"

definition sample_run :: "char atomic" where
  "sample_run = ExecuteTemporaryAtomic sample_server \<lparr>access = '''', c_readOnly = False, statementMS = 1000, temporary = True\<rparr>
     sample_script [] \<lparr>oMaxRows = 0, oSchema = ''''\<rparr> (Some (\<lambda>p w. (None, w))) (CHR ''I'', [])"

theorem atomic_outcome_is_truthful_witness:
  "commitAcked (snd (snd sample_run)) \<and> length (Results (answer (fst (fst sample_run)))) = 1"
proof -
  obtain x err w' log where r: "sample_run = ((x, err), (w', log))" by (metis prod.exhaust)
  have utf8: "utf8_Valid ''SELECT 1''" "utf8_Valid ''n''" "utf8_Valid ''1''" "utf8_Valid []" by code_simp+
  have "snd (fst sample_run) = None"
    by (simp add: sample_run_def sample_script_def sample_server_def ExecuteTemporaryAtomic_def Let_def atomicInput_def SupportsParameters_def
        boundedRequest_def noNul_def utf8 poll_def execAll.simps baseSetup_def exec_def send_def beginStage_def runStage_def runScript_def
        consumeTemporaryResult_def chargeTemp_def validText_def validCell_def startVars_def noResult_def noItem_def jsonColumn_def jsonRow_def
        jsonString_def digitsOf.simps byte_def prefixOf_def precommitStage_def commitStage_def cleanUp_def setStatus_def)
  then have "err = None" unfolding r by simp
  then show ?thesis
    using atomic_outcome_is_truthful [OF r [unfolded sample_run_def]] unfolding r by (simp add: sample_script_def)
qed

end
