(* ===== verification/TemporaryScript.thy ===== *)
theory TemporaryScript
  imports MachineAtomicSpec
begin

text \<open>
  The validation of scripts before they reach a server (\<open>pkg/drivers/pg/machine_query.go\<close>,
  \<open>machine_temporary_validate.go\<close>).  The SQL parser is third-party: a parameter that returns the
  syntax tree as reflection sees it, each value with what the type switches ask of it.  The
  character classes and the name normalisation of its scanner are parameters too.
\<close>

section \<open>Syntax trees\<close>

text \<open>
  What the switches tell apart, with the fields they read: the number of locking clauses of a
  \<open>Select\<close>; whether a \<open>UnionClause\<close> is a union, an intersection or a difference; the upsert alias of an
  \<open>Insert\<close>; the number of ORDER BY terms of an \<open>Update\<close> or \<open>Delete\<close> and whether there is a limit; the index
  flags of an aliased table; the hint of a join; whether the statement of a \<open>CTE\<close> is a \<open>Select\<close>; the
  AS OF of a \<open>From\<close>; whether an \<open>Order\<close> is by column.
\<close>

datatype ast_node =
    Select nat
  | SelectClause | ParenSelect | ValuesClause
  | UnionClause bool
  | Insert bool
  | Update nat bool
  | Delete nat bool
  | OtherStatement
  | AliasedTableExpr bool
  | ParenTableExpr | RowsFromExpr | Subquery | TableName | UnresolvedObjectName
  | JoinTableExpr bool
  | OtherTable
  | NoReturningClause | ReturningExprs | OtherReturning
  | CTE bool
  | From bool
  | Order bool
  | OtherNode

text \<open>
  A reflected value: invalid, a nil pointer or interface, a pointer or interface with its element, a
  slice or array, a struct with its fields (exported or not), or anything else.
\<close>

datatype rvalue =
    RInvalid
  | RNil
  | RRef ast_node rvalue
  | RSeq ast_node "rvalue list"
  | RStruct ast_node "(bool \<times> rvalue) list"
  | RLeaf ast_node

text \<open>The saved query: one read-only \<open>Select\<close>.\<close>

definition machineNode :: "ast_node \<Rightarrow> bool" where
  "machineNode n = (case n of
     Select locking \<Rightarrow> locking = 0
   | UnionClause plain \<Rightarrow> plain
   | Insert up \<Rightarrow> False | Update k l \<Rightarrow> False | Delete k l \<Rightarrow> False | OtherStatement \<Rightarrow> False
   | AliasedTableExpr flags \<Rightarrow> \<not> flags
   | OtherTable \<Rightarrow> False
   | CTE sel \<Rightarrow> sel
   | _ \<Rightarrow> True)"

text \<open>The temporary script: reads, and plain inserts, updates and deletes.\<close>

definition temporaryNode :: "ast_node \<Rightarrow> bool" where
  "temporaryNode n = (case n of
     Select locking \<Rightarrow> locking = 0
   | UnionClause plain \<Rightarrow> plain
   | Insert up \<Rightarrow> \<not> up
   | Update orderBy limit \<Rightarrow> orderBy = 0 \<and> \<not> limit
   | Delete orderBy limit \<Rightarrow> orderBy = 0 \<and> \<not> limit
   | OtherStatement \<Rightarrow> False
   | AliasedTableExpr flags \<Rightarrow> \<not> flags
   | JoinTableExpr hint \<Rightarrow> \<not> hint
   | OtherTable \<Rightarrow> False
   | OtherReturning \<Rightarrow> False
   | From asOf \<Rightarrow> \<not> asOf
   | Order byColumn \<Rightarrow> byColumn
   | _ \<Rightarrow> True)"

definition writingNode :: "ast_node \<Rightarrow> bool" where
  "writingNode n = (case n of Insert up \<Rightarrow> True | Update k l \<Rightarrow> True | Delete k l \<Rightarrow> True | _ \<Rightarrow> False)"

datatype verdict = Accepted | Unsupported | TimedOut

text \<open>
  The traversal, for either set of nodes.  \<open>visit\<close> numbers the visited values, each of which asks the
  context first; \<open>w\<close> tells whether a writing statement was met, also before a refusal.
\<close>

type_synonym walk = "verdict \<times> bool \<times> nat"

fun checkAST :: "(ast_node \<Rightarrow> bool) \<Rightarrow> (nat \<Rightarrow> bool) \<Rightarrow> nat \<Rightarrow> rvalue \<Rightarrow> bool \<Rightarrow> nat \<Rightarrow> walk"
and checkSeq :: "(ast_node \<Rightarrow> bool) \<Rightarrow> (nat \<Rightarrow> bool) \<Rightarrow> nat \<Rightarrow> rvalue list \<Rightarrow> bool \<Rightarrow> nat \<Rightarrow> walk"
and checkFields :: "(ast_node \<Rightarrow> bool) \<Rightarrow> (nat \<Rightarrow> bool) \<Rightarrow> nat \<Rightarrow> (bool \<times> rvalue) list \<Rightarrow> bool \<Rightarrow> nat \<Rightarrow> walk" where
  "checkAST ok cancelled dep v w visit =
     (if cancelled visit then (TimedOut, w, visit + 1)
      else if 512 < dep then (Unsupported, w, visit + 1)
      else case v of
          RInvalid \<Rightarrow> (Accepted, w, visit + 1)
        | RNil \<Rightarrow> (Accepted, w, visit + 1)
        | RRef n e \<Rightarrow>
            (if \<not> ok n then (Unsupported, w \<or> writingNode n, visit + 1)
             else checkAST ok cancelled (dep + 1) e (w \<or> writingNode n) (visit + 1))
        | RSeq n es \<Rightarrow>
            (if \<not> ok n then (Unsupported, w \<or> writingNode n, visit + 1)
             else checkSeq ok cancelled (dep + 1) es (w \<or> writingNode n) (visit + 1))
        | RStruct n fs \<Rightarrow>
            (if \<not> ok n then (Unsupported, w \<or> writingNode n, visit + 1)
             else checkFields ok cancelled (dep + 1) fs (w \<or> writingNode n) (visit + 1))
        | RLeaf n \<Rightarrow> (if ok n then Accepted else Unsupported, w \<or> writingNode n, visit + 1))"
| "checkSeq ok cancelled dep [] w visit = (Accepted, w, visit)"
| "checkSeq ok cancelled dep (v # vs) w visit =
     (case checkAST ok cancelled dep v w visit of
        (Accepted, w', visit') \<Rightarrow> checkSeq ok cancelled dep vs w' visit'
      | r \<Rightarrow> r)"
| "checkFields ok cancelled dep [] w visit = (Accepted, w, visit)"
| "checkFields ok cancelled dep ((exported, v) # fs) w visit =
     (if \<not> exported then checkFields ok cancelled dep fs w visit
      else case checkAST ok cancelled dep v w visit of
        (Accepted, w', visit') \<Rightarrow> checkFields ok cancelled dep fs w' visit'
      | r \<Rightarrow> r)"

definition checkMachineAST :: "(nat \<Rightarrow> bool) \<Rightarrow> rvalue \<Rightarrow> verdict" where
  "checkMachineAST cancelled v = fst (checkAST machineNode cancelled 0 v False 0)"

definition checkTemporaryAST :: "(nat \<Rightarrow> bool) \<Rightarrow> rvalue \<Rightarrow> verdict \<times> bool" where
  "checkTemporaryAST cancelled v = (case checkAST temporaryNode cancelled 0 v False 0 of (r, w, n) \<Rightarrow> (r, w))"

section \<open>What the traversal sees\<close>

text \<open>The values below a value, through exported fields only, with the nodes they carry and the dep needed.\<close>

fun nodesOf :: "rvalue \<Rightarrow> ast_node set"
and nodesSeq :: "rvalue list \<Rightarrow> ast_node set"
and nodesFields :: "(bool \<times> rvalue) list \<Rightarrow> ast_node set" where
  "nodesOf RInvalid = {}"
| "nodesOf RNil = {}"
| "nodesOf (RRef n e) = insert n (nodesOf e)"
| "nodesOf (RSeq n es) = insert n (nodesSeq es)"
| "nodesOf (RStruct n fs) = insert n (nodesFields fs)"
| "nodesOf (RLeaf n) = {n}"
| "nodesSeq [] = {}"
| "nodesSeq (v # vs) = nodesOf v \<union> nodesSeq vs"
| "nodesFields [] = {}"
| "nodesFields ((exported, v) # fs) = (if exported then nodesOf v else {}) \<union> nodesFields fs"

fun deepest :: "rvalue \<Rightarrow> nat"
and deepestSeq :: "rvalue list \<Rightarrow> nat"
and deepestFields :: "(bool \<times> rvalue) list \<Rightarrow> nat" where
  "deepest RInvalid = 0"
| "deepest RNil = 0"
| "deepest (RRef n e) = 1 + deepest e"
| "deepest (RSeq n es) = deepestSeq es"
| "deepest (RStruct n fs) = deepestFields fs"
| "deepest (RLeaf n) = 0"
| "deepestSeq [] = 0"
| "deepestSeq (v # vs) = max (1 + deepest v) (deepestSeq vs)"
| "deepestFields [] = 0"
| "deepestFields ((exported, v) # fs) = max (if exported then 1 + deepest v else 0) (deepestFields fs)"

lemma check_deep [simp]: "512 < k \<Longrightarrow> checkAST ok (\<lambda>_. False) k v w visit = (Unsupported, w, visit + 1)"
  by (cases v) simp_all

lemma check_shallow:
  assumes "k \<le> 512"
  shows "checkAST ok (\<lambda>_. False) k RInvalid w visit = (Accepted, w, visit + 1)"
    "checkAST ok (\<lambda>_. False) k RNil w visit = (Accepted, w, visit + 1)"
    "checkAST ok (\<lambda>_. False) k (RRef n e) w visit =
       (if ok n then checkAST ok (\<lambda>_. False) (k + 1) e (w \<or> writingNode n) (visit + 1)
        else (Unsupported, w \<or> writingNode n, visit + 1))"
    "checkAST ok (\<lambda>_. False) k (RSeq n es) w visit =
       (if ok n then checkSeq ok (\<lambda>_. False) (k + 1) es (w \<or> writingNode n) (visit + 1)
        else (Unsupported, w \<or> writingNode n, visit + 1))"
    "checkAST ok (\<lambda>_. False) k (RStruct n fs) w visit =
       (if ok n then checkFields ok (\<lambda>_. False) (k + 1) fs (w \<or> writingNode n) (visit + 1)
        else (Unsupported, w \<or> writingNode n, visit + 1))"
    "checkAST ok (\<lambda>_. False) k (RLeaf n) w visit =
       (if ok n then Accepted else Unsupported, w \<or> writingNode n, visit + 1)"
  using assms by simp_all

declare checkAST.simps(1) [simp del]

lemma check_complete:
  "checkAST ok (\<lambda>_. False) k v w visit = (r, w', visit') \<Longrightarrow>
     (r = Accepted \<longleftrightarrow> k + deepest v \<le> 512 \<and> (\<forall>n \<in> nodesOf v. ok n)) \<and> r \<noteq> TimedOut \<and>
     (r = Accepted \<longrightarrow> (w' \<longleftrightarrow> w \<or> (\<exists>n \<in> nodesOf v. writingNode n)))"
  "k \<le> 512 \<Longrightarrow> checkSeq ok (\<lambda>_. False) (Suc k) vs w visit = (r, w', visit') \<Longrightarrow>
     (r = Accepted \<longleftrightarrow> k + deepestSeq vs \<le> 512 \<and> (\<forall>n \<in> nodesSeq vs. ok n)) \<and> r \<noteq> TimedOut \<and>
     (r = Accepted \<longrightarrow> (w' \<longleftrightarrow> w \<or> (\<exists>n \<in> nodesSeq vs. writingNode n)))"
  "k \<le> 512 \<Longrightarrow> checkFields ok (\<lambda>_. False) (Suc k) fs w visit = (r, w', visit') \<Longrightarrow>
     (r = Accepted \<longleftrightarrow> k + deepestFields fs \<le> 512 \<and> (\<forall>n \<in> nodesFields fs. ok n)) \<and> r \<noteq> TimedOut \<and>
     (r = Accepted \<longrightarrow> (w' \<longleftrightarrow> w \<or> (\<exists>n \<in> nodesFields fs. writingNode n)))"
proof (induction v and vs and fs arbitrary: k w visit r w' visit' and k w visit r w' visit' and k w visit r w' visit'
    rule: nodesOf_nodesSeq_nodesFields.induct)
  case 1
  then show ?case by (cases "k \<le> 512") (auto simp: check_shallow)
next
  case 2
  then show ?case by (cases "k \<le> 512") (auto simp: check_shallow)
next
  case (3 n e)
  show ?case
  proof (cases "k \<le> 512 \<and> ok n")
    case True
    then have e: "checkAST ok (\<lambda>_. False) (k + 1) e (w \<or> writingNode n) (visit + 1) = (r, w', visit')"
      using "3.prems" by (simp add: check_shallow)
    show ?thesis using "3.IH"[OF e] True by auto
  next
    case False
    then show ?thesis using "3.prems" by (cases "k \<le> 512") (auto simp: check_shallow)
  qed
next
  case (4 n es)
  show ?case
  proof (cases "k \<le> 512 \<and> ok n")
    case True
    then have e: "checkSeq ok (\<lambda>_. False) (Suc k) es (w \<or> writingNode n) (visit + 1) = (r, w', visit')"
      using "4.prems" by (simp add: check_shallow)
    show ?thesis using "4.IH"[OF _ e] True by auto
  next
    case False
    then show ?thesis using "4.prems" by (cases "k \<le> 512") (auto simp: check_shallow)
  qed
next
  case (5 n fs)
  show ?case
  proof (cases "k \<le> 512 \<and> ok n")
    case True
    then have e: "checkFields ok (\<lambda>_. False) (Suc k) fs (w \<or> writingNode n) (visit + 1) = (r, w', visit')"
      using "5.prems" by (simp add: check_shallow)
    show ?thesis using "5.IH"[OF _ e] True by auto
  next
    case False
    then show ?thesis using "5.prems" by (cases "k \<le> 512") (auto simp: check_shallow)
  qed
next
  case (6 n)
  then show ?case by (cases "k \<le> 512") (auto simp: check_shallow split: if_splits)
next
  case 7
  then show ?case by simp
next
  case (8 v vs)
  obtain r1 w1 n1 where c: "checkAST ok (\<lambda>_. False) (Suc k) v w visit = (r1, w1, n1)" by (metis prod.exhaust)
  note v = "8.IH"(1)[OF c]
  show ?case
  proof (cases "r1 = Accepted")
    case True
    then have s: "checkSeq ok (\<lambda>_. False) (Suc k) vs w1 n1 = (r, w', visit')" using "8.prems"(2) c by simp
    show ?thesis using "8.IH"(2)[OF "8.prems"(1) s] v True by auto
  next
    case False
    then have "r = r1" using "8.prems"(2) c by (cases r1) auto
    then show ?thesis using v False by auto
  qed
next
  case 9
  then show ?case by simp
next
  case (10 ex v fs)
  show ?case
  proof (cases ex)
    case True
    obtain r1 w1 n1 where c: "checkAST ok (\<lambda>_. False) (Suc k) v w visit = (r1, w1, n1)" by (metis prod.exhaust)
    note v = "10.IH"(1)[OF True c]
    show ?thesis
    proof (cases "r1 = Accepted")
      case ok: True
      then have s: "checkFields ok (\<lambda>_. False) (Suc k) fs w1 n1 = (r, w', visit')" using "10.prems"(2) c True by simp
      show ?thesis using "10.IH"(2)[OF "10.prems"(1) s] v True ok by auto
    next
      case False
      then have "r = r1" using "10.prems"(2) c True by (cases r1) auto
      then show ?thesis using v False True by auto
    qed
  next
    case False
    then have s: "checkFields ok (\<lambda>_. False) (Suc k) fs w visit = (r, w', visit')" using "10.prems"(2) by simp
    show ?thesis using "10.IH"(2)[OF "10.prems"(1) s] False by auto
  qed
qed

section \<open>The lexical subset\<close>

text \<open>
  The context is asked at these points; \<open>LexAt i\<close> with \<open>i\<close> bytes of the script left, in any of the loops.
\<close>

datatype script_poll = AtEntry | AfterAnalysis | LexAt nat | LexEnd | Before nat | Parsed nat | Walk nat nat | AtEnd

text \<open>What the dependency supplies: the scanner's tables and the parser.\<close>

record sql_dependency =
  IsIdentStart :: "char \<Rightarrow> bool"
  IsIdentMiddle :: "char \<Rightarrow> bool"
  NormalizeName :: "string \<Rightarrow> string"
  ParseOne :: "string \<Rightarrow> rvalue option"

text \<open>Where a loop of the lexer leaves the script: what is left of it, or why it stopped.\<close>

datatype lex_step = Rest string | Stop verdict

text \<open>To the line feed that ends a line comment; a lone carriage return is refused.\<close>

fun lineComment :: "string \<Rightarrow> lex_step" where
  "lineComment [] = Rest []"
| "lineComment (c # cs) =
     (if c = CHR 0x0A then Rest (c # cs)
      else if c = CHR 0x0D \<and> (cs = [] \<or> hd cs \<noteq> CHR 0x0A) then Stop Unsupported
      else lineComment cs)"

fun nestedComment :: "(script_poll \<Rightarrow> bool) \<Rightarrow> nat \<Rightarrow> string \<Rightarrow> lex_step" where
  "nestedComment asked 0 s = Rest s"
| "nestedComment asked (Suc d) [] = (if asked (LexAt 0) then Stop TimedOut else Stop Unsupported)"
| "nestedComment asked (Suc d) [c] = (if asked (LexAt 1) then Stop TimedOut else nestedComment asked (Suc d) [])"
| "nestedComment asked (Suc d) (c # e # s) =
     (if asked (LexAt (length s + 2)) then Stop TimedOut
      else if c = CHR ''/'' \<and> e = CHR ''*'' then nestedComment asked (Suc (Suc d)) s
      else if c = CHR ''*'' \<and> e = CHR ''/'' then nestedComment asked d s
      else nestedComment asked (Suc d) (e # s))"

definition commonEscape :: "char \<Rightarrow> bool" where
  "commonEscape c \<longleftrightarrow> c \<in> set (CHR 0x5C # CHR 0x27 # CHR 0x22 # ''bfnrtxuU01234567'')"

fun quotedBody :: "(script_poll \<Rightarrow> bool) \<Rightarrow> bool \<Rightarrow> char \<Rightarrow> string \<Rightarrow> lex_step" where
  "quotedBody asked escapes quote [] = Stop Unsupported"
| "quotedBody asked escapes quote (c # s) =
     (if asked (LexAt (length s + 1)) then Stop TimedOut
      else if escapes \<and> c = CHR 0x5C then
        (case s of
           [] \<Rightarrow> Stop Unsupported
         | e # s' \<Rightarrow> if commonEscape e then quotedBody asked escapes quote s' else Stop Unsupported)
      else if c = quote then
        (case s of
           [] \<Rightarrow> Rest []
         | e # s' \<Rightarrow> if e = quote then quotedBody asked escapes quote s' else Rest s)
      else quotedBody asked escapes quote s)"

definition lexBlank :: "char \<Rightarrow> bool" where
  "lexBlank c \<longleftrightarrow> c \<in> {CHR '' '', CHR 0x09, CHR 0x0D, CHR 0x0A, CHR 0x0C, CHR 0x0B}"

text \<open>A quoted token from its quote on; another quote after blanks would continue it.\<close>

definition quotedToken :: "(script_poll \<Rightarrow> bool) \<Rightarrow> bool \<Rightarrow> string \<Rightarrow> lex_step" where
  "quotedToken asked escapes s =
     (case quotedBody asked escapes (hd s) (tl s) of
        Stop v \<Rightarrow> Stop v
      | Rest r \<Rightarrow>
          (case dropWhile lexBlank r of
             [] \<Rightarrow> Rest r
           | c # _ \<Rightarrow> if c = hd s then Stop Unsupported else Rest r))"

text \<open>A dollar quote, or a dollar that opens none.\<close>

definition dollarQuoted :: "sql_dependency \<Rightarrow> string \<Rightarrow> lex_step" where
  "dollarQuoted dep s =
     (let body = tl s;
          name = (if body \<noteq> [] \<and> IsIdentStart dep (hd body)
                  then takeWhile (\<lambda>c. c \<noteq> CHR ''$'' \<and> IsIdentMiddle dep c) body else []);
          after = drop (length name) body
      in if after \<noteq> [] \<and> hd after = CHR ''$'' then
           (let delimiter = CHR ''$'' # name @ ''$''
            in case indexOf (tl after) delimiter of
                 None \<Rightarrow> Stop Unsupported
               | Some k \<Rightarrow> Rest (drop (k + length delimiter) (tl after)))
         else Rest body)"

definition foldByte :: "char \<Rightarrow> char" where
  "foldByte c = (if 65 \<le> byte c \<and> byte c \<le> 90 then char_of (byte c + 32) else c)"

definition identifierWord :: "sql_dependency \<Rightarrow> string \<Rightarrow> lex_step" where
  "identifierWord dep s =
     (let word = takeWhile (IsIdentMiddle dep) s; rest = drop (length word) s; folded = map foldByte word
      in if NormalizeName dep word \<noteq> folded \<or> prefixOf ''experimental_'' folded \<or> prefixOf ''testing_'' folded
         then Stop Unsupported
         else if rest \<noteq> [] \<and> hd rest = CHR 0x27 \<or>
           (word = ''u'' \<or> word = ''U'') \<and> 2 < length rest \<and> hd rest = CHR ''&'' \<and> (rest ! 1 = CHR 0x27 \<or> rest ! 1 = CHR 0x22)
         then Stop Unsupported
         else Rest rest)"

text \<open>One turn of the outer loop, on a script that is not exhausted.\<close>

definition lexTurn :: "sql_dependency \<Rightarrow> (script_poll \<Rightarrow> bool) \<Rightarrow> string \<Rightarrow> lex_step" where
  "lexTurn dep asked s =
     (if asked (LexAt (length s)) then Stop TimedOut
      else if prefixOf ''--'' s then lineComment (drop 2 s)
      else if prefixOf ''/*'' s then nestedComment asked 1 (drop 2 s)
      else if hd s = CHR 0x27 \<or> hd s = CHR 0x22 then quotedToken asked False s
      else if (hd s = CHR ''e'' \<or> hd s = CHR ''E'') \<and> 1 < length s \<and> s ! 1 = CHR 0x27 then quotedToken asked True (tl s)
      else if hd s = CHR ''$'' then dollarQuoted dep s
      else if IsIdentStart dep (hd s) then identifierWord dep s
      else if hd s = CHR 0x0B then Stop Unsupported
      else Rest (tl s))"

text \<open>The loop; it need not end when the scanner's tables let an identifier start with a byte it cannot hold.\<close>

partial_function (option) checkTemporaryLexical :: "sql_dependency \<Rightarrow> (script_poll \<Rightarrow> bool) \<Rightarrow> string \<Rightarrow> verdict option" where
  "checkTemporaryLexical dep asked s =
     (if s = [] then Some (if asked LexEnd then TimedOut else Accepted)
      else case lexTurn dep asked s of
          Stop v \<Rightarrow> Some v
        | Rest r \<Rightarrow> checkTemporaryLexical dep asked r)"

lemma lineComment_shorter: "lineComment s = Rest r \<Longrightarrow> length r \<le> length s"
  by (induction s) (auto split: if_splits)

lemma nestedComment_shorter: "nestedComment asked d s = Rest r \<Longrightarrow> length r \<le> length s"
  by (induction asked d s rule: nestedComment.induct) (auto split: if_splits)

lemma quotedBody_shorter: "quotedBody asked escapes quote s = Rest r \<Longrightarrow> length r \<le> length s"
  by (induction asked escapes quote s rule: quotedBody.induct) (auto split: if_splits list.splits)

lemma quotedToken_shorter: "quotedToken asked e s = Rest r \<Longrightarrow> s \<noteq> [] \<Longrightarrow> length r < length s"
  using quotedBody_shorter [of asked e "hd s" "tl s"]
  by (cases s) (fastforce simp: quotedToken_def split: lex_step.splits list.splits if_splits)+

lemma dollarQuoted_shorter: "dollarQuoted dep s = Rest r \<Longrightarrow> s \<noteq> [] \<Longrightarrow> length r < length s"
  by (cases s) (auto simp: dollarQuoted_def Let_def split: if_splits option.splits)

lemma identifierWord_shorter:
  "identifierWord dep s = Rest r \<Longrightarrow> s \<noteq> [] \<Longrightarrow> IsIdentMiddle dep (hd s) \<Longrightarrow> length r < length s"
  by (cases s) (auto simp: identifierWord_def Let_def split: if_splits)

lemma lexTurn_shorter:
  assumes "\<And>c. IsIdentStart dep c \<Longrightarrow> IsIdentMiddle dep c" "lexTurn dep asked s = Rest r" "s \<noteq> []"
  shows "length r < length s"
proof -
  obtain c t where s: "s = c # t" using assms(3) by (cases s) auto
  consider "lineComment (drop 2 s) = Rest r" "prefixOf ''--'' s" | "nestedComment asked 1 (drop 2 s) = Rest r" "prefixOf ''/*'' s"
    | e where "quotedToken asked e s = Rest r" | "quotedToken asked True t = Rest r" "t \<noteq> []"
    | "dollarQuoted dep s = Rest r" | "identifierWord dep s = Rest r" "IsIdentStart dep c" | "r = t"
    using assms(2) s by (auto simp: lexTurn_def split: if_splits)
  then show ?thesis
  proof cases
    case 1 then show ?thesis using lineComment_shorter [OF 1(1)] s by simp
  next
    case 2 then show ?thesis using nestedComment_shorter [OF 2(1)] s by simp
  next
    case 3 then show ?thesis using quotedToken_shorter assms(3) by blast
  next
    case 4 then show ?thesis using quotedToken_shorter [OF 4] s by simp
  next
    case 5 then show ?thesis using dollarQuoted_shorter assms(3) by blast
  next
    case 6 then show ?thesis using identifierWord_shorter [OF 6(1)] assms(1) [OF 6(2)] s by simp
  next
    case 7 then show ?thesis using s by simp
  qed
qed

text \<open>
  C38. The lexical check answers on every script, whenever it is asked to give up, provided the
  scanner lets an identifier go on with every byte it may start with.
\<close>

theorem lexical_check_returns:
  assumes "\<And>c. IsIdentStart dep c \<Longrightarrow> IsIdentMiddle dep c"
  shows "\<exists>v. checkTemporaryLexical dep asked s = Some v"
proof (induction "length s" arbitrary: s rule: less_induct)
  case less
  show ?case
  proof (cases "s = []")
    case True then show ?thesis by (simp add: checkTemporaryLexical.simps)
  next
    case False
    show ?thesis
    proof (cases "lexTurn dep asked s")
      case (Rest r)
      then show ?thesis using less lexTurn_shorter [OF assms Rest False] False
        by (subst checkTemporaryLexical.simps) simp
    next
      case (Stop v)
      then show ?thesis using False by (subst checkTemporaryLexical.simps) simp
    qed
  qed
qed

definition letterByte :: "char \<Rightarrow> bool" where
  "letterByte c \<longleftrightarrow> 97 \<le> byte (foldByte c) \<and> byte (foldByte c) \<le> 122"

theorem lexical_check_returns_witness:
  "let dep = \<lparr>IsIdentStart = letterByte, IsIdentMiddle = (\<lambda>c. letterByte c \<or> c = CHR ''_''), NormalizeName = map foldByte,
     ParseOne = (\<lambda>_. None)\<rparr>
   in (\<forall>s. \<exists>v. checkTemporaryLexical dep (\<lambda>_. False) s = Some v) \<and>
     checkTemporaryLexical dep (\<lambda>_. False) ''a /* x '' = Some Unsupported"
  unfolding Let_def
  by (intro conjI allI lexical_check_returns)
    (simp_all add: checkTemporaryLexical.simps lexTurn_def identifierWord_def letterByte_def foldByte_def prefixOf_def byte_def)

section \<open>Validation\<close>

definition verdictError :: "verdict \<Rightarrow> MachineError option" where
  "verdictError v = (case v of
     Accepted \<Rightarrow> None | Unsupported \<Rightarrow> Some (mkErr ''UNSUPPORTED_SQL'') | TimedOut \<Rightarrow> Some (mkErr ''TIMEOUT''))"

definition ValidateMachineQuery :: "sql_dependency \<Rightarrow> (script_poll \<Rightarrow> bool) \<Rightarrow> string \<Rightarrow> MachineError option" where
  "ValidateMachineQuery dep asked sql =
     (if sql = [] \<or> 1048576 < length sql \<or> \<not> utf8_Valid sql \<or> TrimBytes sql = [] then Some (mkErr ''INVALID_INPUT'')
      else if asked AtEntry then Some (mkErr ''TIMEOUT'')
      else case ParseOne dep sql of
          Some (RRef (Select locking) e) \<Rightarrow> verdictError (checkMachineAST (\<lambda>k. asked (Walk 0 k)) (RRef (Select locking) e))
        | _ \<Rightarrow> Some (mkErr ''UNSUPPORTED_SQL''))"

text \<open>The loop over the statements; \<open>k\<close> numbers them.\<close>

fun validateParts :: "sql_dependency \<Rightarrow> (script_poll \<Rightarrow> bool) \<Rightarrow> nat \<Rightarrow> CLIStatement list \<Rightarrow> ValidatedTemporaryScript \<Rightarrow>
    MachineError + ValidatedTemporaryScript" where
  "validateParts dep asked k [] r = Inr r"
| "validateParts dep asked k (part # parts) r =
     (if asked (Before k) then Inl (mkErr ''TIMEOUT'')
      else let parsed = ParseOne dep (sliceOf (ts_sql r) (Start part) (End part))
      in if asked (Parsed k) then Inl (mkErr ''TIMEOUT'')
      else case parsed of
          None \<Rightarrow> Inl (mkErr ''UNSUPPORTED_SQL'')
        | Some v \<Rightarrow>
            (case checkTemporaryAST (\<lambda>i. asked (Walk k i)) v of (verd, w) \<Rightarrow>
               (case verdictError verd of
                  Some e \<Rightarrow> Inl e
                | None \<Rightarrow> validateParts dep asked (k + 1) parts
                    (r\<lparr>ts_statements := ts_statements r @ [\<lparr>tStart = Start part, tEnd = End part, tWrites = w\<rparr>],
                       writes := writes r \<or> w\<rparr>))))"

definition ValidateTemporaryScript :: "sql_dependency \<Rightarrow> ctx \<Rightarrow> (script_poll \<Rightarrow> bool) \<Rightarrow> string \<Rightarrow> int \<Rightarrow> bool \<Rightarrow>
    (MachineError + ValidatedTemporaryScript) option" where
  "ValidateTemporaryScript dep ctx asked sql parameters allow =
     (if asked AtEntry then Some (Inl (mkErr ''TIMEOUT''))
      else if parameters < 0 \<or> 256 < parameters then Some (Inl (mkErr ''INVALID_INPUT''))
      else case AnalyzeCLIStatements ctx sql parameters False False of
          Inl e \<Rightarrow>
            Some (Inl (mkErr (if asked AfterAnalysis then ''TIMEOUT''
                              else if e = ErrInvalidCLIInput then ''INVALID_INPUT'' else ''UNSUPPORTED_SQL'')))
        | Inr analysis \<Rightarrow>
            map_option (\<lambda>v. case verdictError v of
                Some e \<Rightarrow> Inl e
              | None \<Rightarrow>
                  (case validateParts dep asked 0 (Statements analysis)
                      \<lparr>ts_sql = sql, ts_statements = [], parameterCount = nat parameters, writes = False, allowWrite = allow, validated = False\<rparr> of
                     Inl e \<Rightarrow> Inl e
                   | Inr r \<Rightarrow>
                       if asked AtEnd then Inl (mkErr ''TIMEOUT'')
                       else if writes r \<and> \<not> allow then Inl (mkErr ''POLICY_DENIED'')
                       else Inr (r\<lparr>validated := True\<rparr>)))
              (checkTemporaryLexical dep asked sql))"

lemmas checkAST_at = checkAST.simps(1) [where v = RInvalid, simplified] checkAST.simps(1) [where v = RNil, simplified]
  checkAST.simps(1) [where v = "RRef n e" for n e, simplified] checkAST.simps(1) [where v = "RSeq n es" for n es, simplified]
  checkAST.simps(1) [where v = "RStruct n fs" for n fs, simplified] checkAST.simps(1) [where v = "RLeaf n" for n, simplified]

lemma check_uncancelled:
  "checkAST ok cancelled k v w visit = (Accepted, w', visit') \<Longrightarrow> checkAST ok (\<lambda>_. False) k v w visit = (Accepted, w', visit')"
  "checkSeq ok cancelled k vs w visit = (Accepted, w', visit') \<Longrightarrow> checkSeq ok (\<lambda>_. False) k vs w visit = (Accepted, w', visit')"
  "checkFields ok cancelled k fs w visit = (Accepted, w', visit') \<Longrightarrow> checkFields ok (\<lambda>_. False) k fs w visit = (Accepted, w', visit')"
proof (induction v and vs and fs arbitrary: k w visit w' visit' and k w visit w' visit' and k w visit w' visit'
    rule: nodesOf_nodesSeq_nodesFields.induct)
  case (8 v vs)
  then obtain w1 n1 where c: "checkAST ok cancelled k v w visit = (Accepted, w1, n1)"
    and r: "checkSeq ok cancelled k vs w1 n1 = (Accepted, w', visit')"
    by (auto split: prod.splits verdict.splits)
  show ?case using "8.IH"(1) [OF c] "8.IH"(2) [OF r] by simp
next
  case (10 ex v fs)
  show ?case
  proof (cases ex)
    case True
    then obtain w1 n1 where c: "checkAST ok cancelled k v w visit = (Accepted, w1, n1)"
      and r: "checkFields ok cancelled k fs w1 n1 = (Accepted, w', visit')"
      using "10.prems" by (auto split: prod.splits verdict.splits)
    show ?thesis using "10.IH"(1) [OF True c] "10.IH"(2) [OF r] True by simp
  next
    case False
    then show ?thesis using "10.IH"(2) "10.prems" by simp
  qed
qed (auto simp: checkAST_at split: if_splits)

lemma checkTemporaryAST_accepts:
  assumes "checkTemporaryAST cancelled v = (Accepted, w)"
  shows "deepest v \<le> 512 \<and> (\<forall>n \<in> nodesOf v. temporaryNode n) \<and> (w \<longleftrightarrow> (\<exists>n \<in> nodesOf v. writingNode n))"
proof -
  obtain n where "checkAST temporaryNode cancelled 0 v False 0 = (Accepted, w, n)"
    using assms by (auto simp: checkTemporaryAST_def split: prod.splits)
  then show ?thesis using check_complete(1) [OF check_uncancelled(1)] by fastforce
qed

text \<open>What the traversal guarantees of an executable statement.\<close>

definition checkedStatement :: "sql_dependency \<Rightarrow> string \<Rightarrow> TemporaryStatement \<Rightarrow> bool" where
  "checkedStatement dep sql s \<longleftrightarrow>
     (case ParseOne dep (sliceOf sql (tStart s) (tEnd s)) of
        None \<Rightarrow> False
      | Some v \<Rightarrow> deepest v \<le> 512 \<and> (\<forall>n \<in> nodesOf v. temporaryNode n) \<and> (tWrites s \<longleftrightarrow> (\<exists>n \<in> nodesOf v. writingNode n)))"

lemma validateParts_ok:
  "validateParts dep asked k parts r = Inr r' \<Longrightarrow>
     \<exists>new. r' = r\<lparr>ts_statements := ts_statements r @ new, writes := writes r \<or> list_ex tWrites new\<rparr> \<and>
       map (\<lambda>s. (tStart s, tEnd s)) new = map (\<lambda>a. (Start a, End a)) parts \<and> list_all (checkedStatement dep (ts_sql r)) new"
proof (induction parts arbitrary: k r)
  case Nil
  then show ?case by (intro exI [of _ "[]"]) simp
next
  case (Cons a parts)
  from Cons.prems obtain v w where v: "ParseOne dep (sliceOf (ts_sql r) (Start a) (End a)) = Some v"
    "checkTemporaryAST (\<lambda>i. asked (Walk k i)) v = (Accepted, w)" and
    rest: "validateParts dep asked (k + 1) parts
      (r\<lparr>ts_statements := ts_statements r @ [\<lparr>tStart = Start a, tEnd = End a, tWrites = w\<rparr>], writes := writes r \<or> w\<rparr>) = Inr r'"
    by (auto simp: Let_def verdictError_def split: if_splits option.splits prod.splits verdict.splits)
  from Cons.IH [OF rest] obtain new where new:
    "r' = r\<lparr>ts_statements := ts_statements r @ \<lparr>tStart = Start a, tEnd = End a, tWrites = w\<rparr> # new, writes := writes r \<or> w \<or> list_ex tWrites new\<rparr>"
    "map (\<lambda>s. (tStart s, tEnd s)) new = map (\<lambda>a. (Start a, End a)) parts" "list_all (checkedStatement dep (ts_sql r)) new"
    by auto
  have "checkedStatement dep (ts_sql r) \<lparr>tStart = Start a, tEnd = End a, tWrites = w\<rparr>"
    using v(1) checkTemporaryAST_accepts [OF v(2)] by (simp add: checkedStatement_def)
  then show ?case using new by (intro exI [of _ "\<lparr>tStart = Start a, tEnd = End a, tWrites = w\<rparr> # new"]) simp
qed

lemma verdictError_None: "verdictError v = None \<longleftrightarrow> v = Accepted"
  by (cases v) (simp_all add: verdictError_def)

lemma ValidateTemporaryScript_ok:
  assumes "ValidateTemporaryScript dep ctx asked sql n allow = Some (Inr r)"
  obtains a new where "AnalyzeCLIStatements ctx sql n False False = Inr a" "0 \<le> n" "n \<le> 256"
    "checkTemporaryLexical dep asked sql = Some Accepted" "list_ex tWrites new \<longrightarrow> allow"
    "map (\<lambda>s. (tStart s, tEnd s)) new = map (\<lambda>a. (Start a, End a)) (Statements a)" "list_all (checkedStatement dep sql) new"
    "r = \<lparr>ts_sql = sql, ts_statements = new, parameterCount = nat n, writes = list_ex tWrites new, allowWrite = allow, validated = True\<rparr>"
proof -
  let ?r = "\<lparr>ts_sql = sql, ts_statements = [], parameterCount = nat n, writes = False, allowWrite = allow, validated = False\<rparr>"
  from assms obtain a r1 where a: "AnalyzeCLIStatements ctx sql n False False = Inr a" "0 \<le> n" "n \<le> 256"
    "checkTemporaryLexical dep asked sql = Some Accepted" and v: "validateParts dep asked 0 (Statements a) ?r = Inr r1"
    and r: "writes r1 \<longrightarrow> allow" "r = r1\<lparr>validated := True\<rparr>"
    by (auto simp: ValidateTemporaryScript_def verdictError_None split: if_splits sum.splits option.splits)
  from validateParts_ok [OF v] obtain new where "r1 = ?r\<lparr>ts_statements := new, writes := list_ex tWrites new\<rparr>"
    "map (\<lambda>s. (tStart s, tEnd s)) new = map (\<lambda>a. (Start a, End a)) (Statements a)" "list_all (checkedStatement dep sql) new"
    by auto
  with a r show ?thesis by (intro that) auto
qed

lemma same_bounds:
  assumes "map (\<lambda>s. (tStart s, tEnd s)) new = map (\<lambda>a. (Start a, End a)) parts"
  shows "map tStart new = map Start parts" "map tEnd new = map End parts"
  using arg_cong [OF assms, of "map fst"] arg_cong [OF assms, of "map snd"] by (simp_all add: comp_def)

lemma sorted_same_bounds:
  assumes "map (\<lambda>s. (tStart s, tEnd s)) new = map (\<lambda>a. (Start a, End a)) parts"
  shows "sorted_wrt (\<lambda>a b. tEnd a < tStart b) new \<longleftrightarrow> sorted_wrt (\<lambda>a b. End a < Start b) parts"
proof -
  have "sorted_wrt (\<lambda>x y. snd x < fst y) (map (\<lambda>s. (tStart s, tEnd s)) new) \<longleftrightarrow>
    sorted_wrt (\<lambda>x y. snd x < fst y) (map (\<lambda>a. (Start a, End a)) parts)" unfolding assms ..
  then show ?thesis by (simp add: sorted_wrt_map)
qed

lemma covered_same_bounds:
  assumes "map (\<lambda>s. (tStart s, tEnd s)) new = map (\<lambda>a. (Start a, End a)) parts" "a \<in> set parts"
  shows "\<exists>s \<in> set new. tStart s = Start a \<and> tEnd s = End a"
proof -
  have "(Start a, End a) \<in> (\<lambda>s. (tStart s, tEnd s)) ` set new" using arg_cong [OF assms(1), of set] assms(2) by auto
  then show ?thesis by auto
qed

text \<open>
  C12. A validated temporary script is the text that was asked for, split without loss: its
  statements are disjoint and in order, every token other than a semicolon lies in one of them, and
  there is only one when there are parameters.  The bytes of each statement parse to a tree in which
  every node that the traversal reaches is on the list of allowed ones, no deeper than the bound;
  a statement is marked as writing exactly when some node of its tree is an INSERT, UPDATE or DELETE,
  nested ones included, and a script with such a statement is only accepted when writes are allowed.
\<close>

theorem temporary_script_is_checked:
  assumes "ValidateTemporaryScript dep ctx asked sql n allow = Some (Inr r)"
  shows "ts_sql r = sql \<and> validated r \<and> allowWrite r = allow \<and> int (parameterCount r) = n \<and> n \<le> 256 \<and>
    ts_statements r \<noteq> [] \<and> (0 < n \<longrightarrow> SupportsParameters r) \<and>
    checkTemporaryLexical dep asked sql = Some Accepted \<and>
    sorted_wrt (\<lambda>a b. tEnd a < tStart b) (ts_statements r) \<and>
    (\<forall>t \<in> set (lexTokens ctx sql). tok_word t \<noteq> '';'' \<longrightarrow>
       (\<exists>s \<in> set (ts_statements r). tStart s \<le> tok_start t \<and> tok_end t \<le> tEnd s)) \<and>
    (\<forall>s \<in> set (ts_statements r). \<exists>v. ParseOne dep (sliceOf sql (tStart s) (tEnd s)) = Some v \<and> deepest v \<le> 512 \<and>
       (\<forall>node \<in> nodesOf v. temporaryNode node) \<and> (tWrites s \<longleftrightarrow> (\<exists>node \<in> nodesOf v. writingNode node))) \<and>
    (writes r \<longleftrightarrow> (\<exists>s \<in> set (ts_statements r). tWrites s)) \<and> (writes r \<longrightarrow> allow)"
  using assms
proof (cases rule: ValidateTemporaryScript_ok)
  case (1 a new)
  note split = analysis_split [OF 1(1)]
  have len: "length new = length (Statements a)" using arg_cong [OF 1(6), of length] by simp
  have "\<exists>s \<in> set new. tStart s \<le> tok_start t \<and> tok_end t \<le> tEnd s" if "t \<in> set (lexTokens ctx sql)" "tok_word t \<noteq> '';''" for t
    using split that covered_same_bounds [OF 1(6)] by metis
  moreover have "\<exists>v. ParseOne dep (sliceOf sql (tStart s) (tEnd s)) = Some v \<and> deepest v \<le> 512 \<and>
       (\<forall>node \<in> nodesOf v. temporaryNode node) \<and> (tWrites s \<longleftrightarrow> (\<exists>node \<in> nodesOf v. writingNode node))" if "s \<in> set new" for s
    using 1(7) that by (auto simp: list_all_iff checkedStatement_def split: option.splits)
  ultimately show ?thesis
    using 1(2-5) split len sorted_same_bounds [OF 1(6)] unfolding 1(8) by (auto simp: SupportsParameters_def list_ex_iff)
qed

definition sample_dependency :: sql_dependency where
  "sample_dependency = \<lparr>IsIdentStart = letterByte, IsIdentMiddle = letterByte, NormalizeName = map foldByte,
     ParseOne = (\<lambda>sql. if sql = ''values'' then Some (RRef (Select 0) (RStruct OtherNode [(True, RRef ValuesClause (RStruct OtherNode []))]))
       else None)\<rparr>"

theorem temporary_script_is_checked_witness:
  "\<exists>r. ValidateTemporaryScript sample_dependency (\<lambda>_. False) (\<lambda>_. False) ''values'' 0 False = Some (Inr r) \<and>
     ts_sql r = ''values'' \<and> ts_statements r \<noteq> [] \<and> \<not> writes r"
proof -
  let ?s = "''values''"
  let ?c = "\<lparr>start = 0, parens = 0, bodies = 0, hasToken = True,
    statement = emptyContext\<lparr>prefix := [''VALUES'', [], [], []], count := 1\<rparr>,
    result = \<lparr>Statements = [], WritesApprovalRequired = False, DDLApprovalRequired = False\<rparr>\<rparr>"
  have l: "analyzeLoop (\<lambda>_. False) ?s False False \<lparr>pos = 0, operatorSuffixEnd = 0\<rparr>
      \<lparr>start = 0, parens = 0, bodies = 0, hasToken = False, statement = emptyContext,
       result = \<lparr>Statements = [], WritesApprovalRequired = False, DDLApprovalRequired = False\<rparr>\<rparr> = Inr ?c"
    by code_simp
  have f: "Statements (result (finish ?s False False (length ?s) ?c)) = [\<lparr>Start = 0, End = 6, Kind = EffectiveKind ?s\<rparr>]"
    by (simp add: finish_def Let_def sliceOf_def)
  have "utf8_Valid ?s" "char_of (0 :: nat) \<notin> set ?s" by code_simp+
  moreover have "length ?s \<le> 1048576" by simp
  ultimately obtain a where a: "AnalyzeCLIStatements (\<lambda>_. False) ?s 0 False False = Inr a"
      "Statements a = [\<lparr>Start = 0, End = 6, Kind = EffectiveKind ?s\<rparr>]"
    unfolding AnalyzeCLIStatements_def Let_def l sum.case using f by simp
  have lx: "checkTemporaryLexical sample_dependency (\<lambda>_. False) ?s = Some Accepted"
    by (simp add: checkTemporaryLexical.simps lexTurn_def identifierWord_def sample_dependency_def letterByte_def foldByte_def
        prefixOf_def byte_def)
  have p: "checkTemporaryAST (\<lambda>i. False) (RRef (Select 0) (RStruct OtherNode [(True, RRef ValuesClause (RStruct OtherNode []))])) = (Accepted, False)"
    by code_simp
  obtain r where r: "ValidateTemporaryScript sample_dependency (\<lambda>_. False) (\<lambda>_. False) ?s 0 False = Some (Inr r)"
    using a lx p by (simp add: ValidateTemporaryScript_def verdictError_def sample_dependency_def sliceOf_def)
  from temporary_script_is_checked [OF r] r show ?thesis by auto
qed

end
