(* ===== verification/SessionProfile.thy ===== *)
theory SessionProfile
  imports TemporaryScript
begin

text \<open>
  What a saved connection turns into before anything is dialled (\<open>pkg/session/profile.go\<close>,
  \<open>profile_machine.go\<close>): the connection string built from the discrete fields, the statement timeout
  that is put into a SET command and the limit that non-interactive commands derive from it.  The
  driver's parser of connection strings and the URL and IP parsers of the standard library are
  parameters.
\<close>

section \<open>Statement timeouts\<close>

definition timeoutUnits :: "(string \<times> nat) list" where
  "timeoutUnits = [(''ms'', 1), (''s'', 1000), (''min'', 60000), (''h'', 3600000), (''d'', 86400000)]"

text \<open>\<open>\s\<close> and \<open>\d\<close> of the regular expression.\<close>

definition reSpace :: "char \<Rightarrow> bool" where
  "reSpace c \<longleftrightarrow> c \<in> {CHR 0x09, CHR 0x0A, CHR 0x0C, CHR 0x0D, CHR '' ''}"

definition decimal :: "char \<Rightarrow> bool" where
  "decimal c \<longleftrightarrow> 48 \<le> byte c \<and> byte c \<le> 57"

text \<open>\<open>^(0|\d+\s*(ms|s|min|h|d))$\<close>\<close>

definition statementTimeoutRe :: "string \<Rightarrow> bool" where
  "statementTimeoutRe raw \<longleftrightarrow>
     raw = ''0'' \<or>
     takeWhile decimal raw \<noteq> [] \<and> dropWhile reSpace (dropWhile decimal raw) \<in> set (map fst timeoutUnits)"

definition forbiddenByte :: "char \<Rightarrow> bool" where
  "forbiddenByte c \<longleftrightarrow> byte c \<in> {0x27, 0x3B, 0x22, 0x5C, 0, 0x0D, 0x0A, 0x09}"

definition CanonicalizeStatementTimeout :: "string \<Rightarrow> string option" where
  "CanonicalizeStatementTimeout raw =
     (if list_ex forbiddenByte raw then None
      else if \<not> statementTimeoutRe raw then None
      else if raw = ''0'' then Some ''0''
      else let number = takeWhile decimal raw; unit = TrimBytes (dropWhile decimal raw)
           in if map_of timeoutUnits unit = None then None else Some (number @ unit))"

text \<open>
  The limit in milliseconds.  A unit outside the table would divide by zero: \<open>None\<close> is the panic.  The
  number is a 64-bit one, an overflowing text falls back to the ceiling.
\<close>

definition MachineStatementMilliseconds :: "string \<Rightarrow> int \<Rightarrow> int option" where
  "MachineStatementMilliseconds raw ceilingMS =
     (case CanonicalizeStatementTimeout raw of
        None \<Rightarrow> Some ceilingMS
      | Some canonical \<Rightarrow>
          if raw = '''' \<or> canonical = ''0'' then Some ceilingMS
          else let number = takeWhile decimal canonical; n = digitsValue number
          in if number = canonical then Some ceilingMS
             else if number = [] \<or> 2 ^ 64 \<le> n \<or> n = 0 then Some ceilingMS
             else case map_of timeoutUnits (dropWhile decimal canonical) of
                 None \<Rightarrow> None
               | Some multiplier \<Rightarrow>
                   if int n > (ceilingMS mod 2 ^ 64) div int multiplier then Some ceilingMS else Some (int n * int multiplier))"

lemma unit_ends: "u \<in> set (map fst timeoutUnits) \<Longrightarrow>
    u \<noteq> [] \<and> plainByte (hd u) \<and> plainByte (last u) \<and> \<not> decimal (hd u) \<and> \<not> reSpace (hd u)"
  by (auto simp: timeoutUnits_def plainByte_def byte_def unicode_IsSpace_def decimal_def reSpace_def)

lemma unit_known: "u \<in> set (map fst timeoutUnits) \<longleftrightarrow> map_of timeoutUnits u \<noteq> None"
  by (auto simp: timeoutUnits_def)

lemma utf8_seq_ascii: "byte c < 128 \<Longrightarrow> utf8_seq (c # s) = 1"
  by (simp add: utf8_seq_def)

lemma trimLeft_blank: "byte c < 128 \<Longrightarrow> unicode_IsSpace (byte c) \<Longrightarrow> trimLeft (c # s) = trimLeft s"
  using trimLeft.simps [of "c # s"] by (simp add: utf8_seq_ascii spaceAt_def runeOf_def)

lemma trimLeft_blanks:
  "list_all reSpace ws \<Longrightarrow> u = [] \<or> plainByte (hd u) \<Longrightarrow> trimLeft (ws @ u) = u"
proof (induction ws)
  case (Cons c ws)
  then have "byte c < 128" "unicode_IsSpace (byte c)" by (auto simp: reSpace_def byte_def unicode_IsSpace_def)
  then show ?case using Cons trimLeft_blank by simp
qed (auto simp: trimLeft_plain)

lemma TrimBytes_unit:
  assumes "dropWhile reSpace s = u" "u \<in> set (map fst timeoutUnits)"
  shows "TrimBytes s = u"
proof -
  have "s = takeWhile reSpace s @ u" using assms(1) by (metis takeWhile_dropWhile_id)
  moreover have "list_all reSpace (takeWhile reSpace s)" by (auto simp: list_all_iff dest: set_takeWhileD)
  ultimately have "trimLeft s = u" using trimLeft_blanks unit_ends assms(2) by metis
  then show ?thesis using unit_ends assms(2) by (simp add: TrimBytes_def trimRight_plain)
qed

lemma takeWhile_unit:
  assumes "u \<in> set (map fst timeoutUnits)"
  shows "takeWhile decimal (takeWhile decimal s @ u) = takeWhile decimal s" "dropWhile decimal (takeWhile decimal s @ u) = u"
proof -
  have h: "u \<noteq> []" "\<not> decimal (hd u)" using unit_ends [OF assms] by auto
  have d: "\<forall>x \<in> set (takeWhile decimal s). decimal x" by (auto dest: set_takeWhileD)
  have "takeWhile decimal u = []" "dropWhile decimal u = u" using h by (cases u; simp)+
  then show "takeWhile decimal (takeWhile decimal s @ u) = takeWhile decimal s" "dropWhile decimal (takeWhile decimal s @ u) = u"
    using d by (simp_all add: takeWhile_append2 dropWhile_append2)
qed

text \<open>What canonical literals look like.\<close>

lemma canonical_cases:
  assumes "CanonicalizeStatementTimeout raw = Some c"
  obtains "raw = ''0''" "c = ''0''"
  | u m where "map_of timeoutUnits u = Some m" "u = dropWhile reSpace (dropWhile decimal raw)" "takeWhile decimal raw \<noteq> []"
      "c = takeWhile decimal raw @ u" "takeWhile decimal c = takeWhile decimal raw" "dropWhile decimal c = u" "\<not> list_ex forbiddenByte raw"
proof (cases "raw = ''0''")
  case True
  then show ?thesis using that(1) assms by (auto simp: CanonicalizeStatementTimeout_def split: if_splits)
next
  case False
  let ?u = "dropWhile reSpace (dropWhile decimal raw)"
  from assms False have g: "takeWhile decimal raw \<noteq> []" "?u \<in> set (map fst timeoutUnits)" "\<not> list_ex forbiddenByte raw"
    by (auto simp: CanonicalizeStatementTimeout_def statementTimeoutRe_def split: if_splits)
  note t = TrimBytes_unit [OF refl g(2)]
  from assms False g have c: "c = takeWhile decimal raw @ ?u"
    by (auto simp: CanonicalizeStatementTimeout_def t Let_def split: if_splits)
  obtain m where m: "map_of timeoutUnits ?u = Some m" using g(2) unit_known by auto
  have "takeWhile decimal c = takeWhile decimal raw" "dropWhile decimal c = ?u"
    using takeWhile_unit [OF g(2), of raw] unfolding c by simp_all
  with g m c show ?thesis by (intro that(2)) auto
qed

text \<open>The timeout that a profile asks for, in milliseconds, when its text is acceptable.\<close>

definition timeoutMillis :: "string \<Rightarrow> nat option" where
  "timeoutMillis raw =
     (if list_ex forbiddenByte raw then None
      else if raw = ''0'' then Some 0
      else if takeWhile decimal raw = [] then None
      else map_option (\<lambda>m. digitsValue (takeWhile decimal raw) * m) (map_of timeoutUnits (dropWhile reSpace (dropWhile decimal raw))))"

lemma canonical_millis:
  assumes "CanonicalizeStatementTimeout raw = Some c"
  shows "timeoutMillis raw \<noteq> None" "timeoutMillis c = timeoutMillis raw" "CanonicalizeStatementTimeout c = Some c"
    "list_all (\<lambda>x. decimal x \<or> x \<in> {CHR ''m'', CHR ''s'', CHR ''i'', CHR ''n'', CHR ''h'', CHR ''d''}) c"
proof -
  have "timeoutMillis raw \<noteq> None \<and> timeoutMillis c = timeoutMillis raw \<and> CanonicalizeStatementTimeout c = Some c \<and>
    list_all (\<lambda>x. decimal x \<or> x \<in> {CHR ''m'', CHR ''s'', CHR ''i'', CHR ''n'', CHR ''h'', CHR ''d''}) c"
    using assms
  proof (cases rule: canonical_cases)
    case 1
    then show ?thesis
      by (simp add: timeoutMillis_def CanonicalizeStatementTimeout_def statementTimeoutRe_def forbiddenByte_def byte_def decimal_def)
  next
    case (2 u m)
    have u: "u \<in> set (map fst timeoutUnits)" using 2(1) unit_known by auto
    have fb: "\<not> list_ex forbiddenByte c"
    proof -
      have "\<not> forbiddenByte x" if "x \<in> set u" for x
        using u that by (auto simp: timeoutUnits_def forbiddenByte_def byte_def)
      moreover have "\<not> forbiddenByte x" if "x \<in> set (takeWhile decimal raw)" for x
        using set_takeWhileD [OF that] by (auto simp: decimal_def forbiddenByte_def)
      ultimately show ?thesis unfolding 2(4) by (auto simp: list_ex_iff)
    qed
    have ru: "dropWhile reSpace u = u" using unit_ends [OF u] by (cases u) auto
    have zero: "c \<noteq> ''0''" "raw \<noteq> ''0''"
    proof -
      show "c \<noteq> ''0''" using 2(6) unit_ends [OF u] by (auto simp: decimal_def byte_def)
      show "raw \<noteq> ''0''" using 2(2) unit_ends [OF u] by (auto simp: decimal_def byte_def)
    qed
    have tu: "TrimBytes u = u" using TrimBytes_unit [OF ru u] .
    have "timeoutMillis raw = Some (digitsValue (takeWhile decimal raw) * m)"
      using 2 zero by (simp add: timeoutMillis_def)
    moreover have "timeoutMillis c = Some (digitsValue (takeWhile decimal raw) * m)"
      using 2(1,3,5,6) fb zero ru by (simp add: timeoutMillis_def)
    moreover have "CanonicalizeStatementTimeout c = Some c"
      using 2(1,3) 2(4,5,6) [symmetric] fb zero ru tu u
      by (simp add: CanonicalizeStatementTimeout_def statementTimeoutRe_def Let_def)
    moreover have "list_all (\<lambda>x. decimal x \<or> x \<in> {CHR ''m'', CHR ''s'', CHR ''i'', CHR ''n'', CHR ''h'', CHR ''d''}) c"
      using u unfolding 2(4) by (auto simp: list_all_iff timeoutUnits_def dest: set_takeWhileD)
    ultimately show ?thesis by simp
  qed
  then show "timeoutMillis raw \<noteq> None" "timeoutMillis c = timeoutMillis raw" "CanonicalizeStatementTimeout c = Some c"
    "list_all (\<lambda>x. decimal x \<or> x \<in> {CHR ''m'', CHR ''s'', CHR ''i'', CHR ''n'', CHR ''h'', CHR ''d''}) c" by auto
qed

lemma not_canonical:
  "CanonicalizeStatementTimeout raw = None \<Longrightarrow> timeoutMillis raw = None"
  using TrimBytes_unit [OF refl] unit_known
  by (auto simp: CanonicalizeStatementTimeout_def statementTimeoutRe_def timeoutMillis_def Let_def split: if_splits)

lemma int_div_less:
  assumes "(0::int) < m"
  shows "a div m < n \<longleftrightarrow> a < n * m"
proof -
  have a: "a = a div m * m + a mod m" "0 \<le> a mod m" "a mod m < m" using assms by auto
  have "a < n * m" if "a div m < n"
  proof -
    have "(a div m + 1) * m \<le> n * m" using that assms by (intro mult_right_mono) auto
    then have "a div m * m + m \<le> n * m" by (simp add: distrib_right)
    then show ?thesis using a by linarith
  qed
  moreover have "\<not> a < n * m" if "n \<le> a div m"
  proof -
    have "n * m \<le> a div m * m" using that assms by (intro mult_right_mono) auto
    then show ?thesis using a by linarith
  qed
  ultimately show ?thesis by force
qed

text \<open>
  C36. The limit of a non-interactive command is always between one millisecond and the ceiling it was
  given: it is the profile's statement timeout when that is readable, positive and not above the
  ceiling, and the ceiling otherwise.  No profile makes the computation divide by zero or overflow,
  and no profile switches the limit off.
\<close>

theorem statement_limit_is_bounded:
  assumes "1 \<le> ceiling" "ceiling < 2 ^ 31"
  shows "MachineStatementMilliseconds raw ceiling =
      Some (case timeoutMillis raw of
          None \<Rightarrow> ceiling
        | Some v \<Rightarrow> if 0 < v \<and> int v \<le> ceiling then int v else ceiling)"
proof (cases "CanonicalizeStatementTimeout raw")
  case None
  then show ?thesis using not_canonical by (simp add: MachineStatementMilliseconds_def)
next
  case (Some c)
  then show ?thesis
  proof (cases rule: canonical_cases)
    case 1
    then show ?thesis using Some by (simp add: MachineStatementMilliseconds_def timeoutMillis_def forbiddenByte_def byte_def)
  next
    case (2 u m)
    have u: "u \<in> set (map fst timeoutUnits)" using 2(1) unit_known by auto
    have m: "0 < m" using 2(1) by (auto simp: timeoutUnits_def split: if_splits)
    have u0: "u \<noteq> []" "\<not> decimal (hd u)" using unit_ends [OF u] by auto
    have c: "c \<noteq> ''0''" "raw \<noteq> ''''" "takeWhile decimal raw \<noteq> c" "raw \<noteq> ''0''"
      using 2 u0 by (auto simp: decimal_def byte_def)
    have v: "timeoutMillis raw = Some (digitsValue (takeWhile decimal raw) * m)"
      using 2 c by (simp add: timeoutMillis_def)
    let ?n = "digitsValue (takeWhile decimal raw)"
    have div: "int ?n > ceiling div int m \<longleftrightarrow> ceiling < int ?n * int m"
      using m int_div_less [of "int m"] by simp
    have big: "2 ^ 64 \<le> ?n \<Longrightarrow> \<not> int ?n * int m \<le> ceiling"
    proof -
      assume "2 ^ 64 \<le> ?n"
      then have "(2::int) ^ 64 \<le> int ?n" by (metis of_nat_le_iff of_nat_numeral of_nat_power)
      moreover have "int ?n * 1 \<le> int ?n * int m" using m by (intro mult_left_mono) auto
      ultimately have "(2::int) ^ 64 \<le> int ?n * int m" by linarith
      moreover have "ceiling < 2 ^ 64" using assms(2) by simp
      ultimately show "\<not> int ?n * int m \<le> ceiling" by linarith
    qed
    have mod: "ceiling mod 2 ^ 64 = ceiling" using assms by simp
    show ?thesis
      using 2(1,3,5,6) c m div big
      unfolding MachineStatementMilliseconds_def Some v option.case mod Let_def
      by (auto simp: not_less)
  qed
qed

lemma unit_as_is: "u \<in> set (map fst timeoutUnits) \<Longrightarrow> TrimBytes (CHR '' '' # CHR '' '' # u) = u"
  using TrimBytes_unit [of "CHR '' '' # CHR '' '' # u" u] unit_ends [of u] by (cases u) (auto simp: reSpace_def)

lemmas timeout_eval = timeoutMillis_def CanonicalizeStatementTimeout_def statementTimeoutRe_def forbiddenByte_def decimal_def
  byte_def timeoutUnits_def digitsValue_def reSpace_def unit_as_is [unfolded timeoutUnits_def, simplified]

theorem statement_limit_is_bounded_witness:
  "MachineStatementMilliseconds ''90 s'' 10000 = Some 10000 \<and> MachineStatementMilliseconds ''2s'' 10000 = Some 2000 \<and>
   MachineStatementMilliseconds ''0'' 10000 = Some 10000"
proof -
  have t: "timeoutMillis ''90 s'' = Some 90000" "timeoutMillis ''2s'' = Some 2000" "timeoutMillis ''0'' = Some 0"
    by (simp_all add: timeout_eval)
  show ?thesis using statement_limit_is_bounded [of 10000] by (simp add: t)
qed

text \<open>
  The text that is put between the quotes of SET statement_timeout cannot leave them: an accepted
  timeout is rebuilt as digits and a unit, nothing else; it means the same time as what was
  configured, and canonicalising it again changes nothing.
\<close>

theorem canonical_timeout_is_safe:
  assumes "CanonicalizeStatementTimeout raw = Some c"
  shows "list_all (\<lambda>x. decimal x \<or> x \<in> {CHR ''m'', CHR ''s'', CHR ''i'', CHR ''n'', CHR ''h'', CHR ''d''}) c \<and>
    timeoutMillis raw \<noteq> None \<and> timeoutMillis c = timeoutMillis raw \<and> CanonicalizeStatementTimeout c = Some c"
  using canonical_millis [OF assms] by blast

theorem canonical_timeout_is_safe_witness:
  "\<exists>c. CanonicalizeStatementTimeout ''15  min'' = Some c \<and> timeoutMillis c = Some 900000"
proof -
  have "CanonicalizeStatementTimeout ''15  min'' = Some ''15min''" "timeoutMillis ''15  min'' = Some 900000"
    by (simp_all add: timeout_eval)
  then show ?thesis using canonical_timeout_is_safe [of "''15  min''" "''15min''"] by simp
qed

section \<open>Connection strings\<close>

definition quoteKVValue :: "string \<Rightarrow> string" where
  "quoteKVValue v =
     CHR 0x27 # replaceAll [CHR 0x27] [CHR 0x5C, CHR 0x27] (replaceAll [CHR 0x5C] [CHR 0x5C, CHR 0x5C] v) @ [CHR 0x27]"

definition unquoteKVValue :: "string \<Rightarrow> string" where
  "unquoteKVValue v =
     (if length v < 2 \<or> hd v \<noteq> CHR 0x27 \<or> last v \<noteq> CHR 0x27 then v
      else let inner = butlast (tl v)
      in replaceAll [CHR 0x5C, CHR 0x5C] [CHR 0x5C] (replaceAll [CHR 0x5C, CHR 0x27] [CHR 0x27] inner))"

definition buildKVDSN :: "Connection \<Rightarrow> string" where
  "buildKVDSN p =
     ''host='' @ quoteKVValue (Host p) @
     (if Port p \<noteq> 0 then '' port='' @ Itoa (Port p) else []) @
     (if User p \<noteq> [] then '' user='' @ quoteKVValue (User p) else []) @
     (if Database p \<noteq> [] then '' dbname='' @ quoteKVValue (Database p) else []) @
     (if SSLMode p \<noteq> [] then '' sslmode='' @ quoteKVValue (SSLMode p) else [])"

definition connectionStringFor :: "Connection \<Rightarrow> string option" where
  "connectionStringFor p =
     (if DSN p \<noteq> [] then Some (DSN p) else if Host p = [] then None else Some (buildKVDSN p))"

text \<open>The loop: inside quotes or not, and the token so far.\<close>

fun kvTokens :: "string \<Rightarrow> bool \<Rightarrow> string \<Rightarrow> string list" where
  "kvTokens [] inQuote cur = (if cur \<noteq> [] then [cur] else [])"
| "kvTokens [c] inQuote cur =
     (if c = CHR 0x27 then kvTokens [] (\<not> inQuote) (cur @ [c])
      else if c = CHR '' '' \<and> \<not> inQuote then (if cur \<noteq> [] then [cur] else []) @ kvTokens [] inQuote []
      else kvTokens [] inQuote (cur @ [c]))"
| "kvTokens (c # e # s) inQuote cur =
     (if c = CHR 0x5C then kvTokens s inQuote (cur @ [c, e])
      else if c = CHR 0x27 then kvTokens (e # s) (\<not> inQuote) (cur @ [c])
      else if c = CHR '' '' \<and> \<not> inQuote then (if cur \<noteq> [] then [cur] else []) @ kvTokens (e # s) inQuote []
      else kvTokens (e # s) inQuote (cur @ [c]))"

definition splitKVDSN :: "string \<Rightarrow> string list" where
  "splitKVDSN dsn = (if CHR ''='' \<notin> set dsn then [] else kvTokens dsn False [])"

fun kvLookup :: "string \<Rightarrow> string list \<Rightarrow> string option" where
  "kvLookup key [] = None"
| "kvLookup key (tok # toks) =
     (case cutAt (CHR ''='') tok of
        None \<Rightarrow> kvLookup key toks
      | Some (k, v) \<Rightarrow> if TrimBytes k \<noteq> key then kvLookup key toks else Some (unquoteKVValue (TrimBytes v)))"

definition kvDSNValue :: "string \<Rightarrow> string \<Rightarrow> string option" where
  "kvDSNValue dsn key = kvLookup key (splitKVDSN dsn)"

text \<open>\<open>sslmodeInURL\<close> is the query value of a parsed URL, \<open>None\<close> when it does not parse.\<close>

definition sslModeForLog :: "(string \<Rightarrow> string option) \<Rightarrow> string \<Rightarrow> string" where
  "sslModeForLog sslmodeInURL dsn =
     (case kvDSNValue dsn ''sslmode'' of
        Some v \<Rightarrow> v
      | None \<Rightarrow> (case sslmodeInURL dsn of None \<Rightarrow> ''unknown'' | Some v \<Rightarrow> if v \<noteq> [] then v else ''prefer''))"

definition isLoopbackHost :: "(string \<Rightarrow> bool) \<Rightarrow> string \<Rightarrow> bool" where
  "isLoopbackHost loopbackIP h \<longleftrightarrow> h = [] \<or> h = ''localhost'' \<or> loopbackIP h"

definition shouldWarnInsecureSSL :: "(string \<Rightarrow> bool) \<Rightarrow> (string \<Rightarrow> string option) \<Rightarrow> string \<Rightarrow> string option \<Rightarrow> bool" where
  "shouldWarnInsecureSSL loopbackIP sslmodeInURL dsn cfgHost =
     (case cfgHost of
        None \<Rightarrow> False
      | Some h \<Rightarrow> \<not> isLoopbackHost loopbackIP h \<and> sslModeForLog sslmodeInURL dsn = ''disable'')"

text \<open>The statements run on every new connection of the pool.\<close>

definition afterConnect :: "bool \<Rightarrow> string \<Rightarrow> string list" where
  "afterConnect readOnly canonical =
     (if readOnly then [''SET default_transaction_read_only = on''] else []) @
     [''SET statement_timeout = '' @ quoted_ident canonical]"

definition runAfterConnect :: "'w server \<Rightarrow> bool \<Rightarrow> string \<Rightarrow> 'w sess \<Rightarrow> gerr option \<times> 'w sess" where
  "runAfterConnect srv readOnly canonical = execAll srv (afterConnect readOnly canonical)"

text \<open>
  The configuration of the pool.  \<open>parse\<close> is the driver's parser: the host and the password it found.
  The result also says whether the warning about a plaintext connection is written.
\<close>

record pgx_config =
  cfgHost :: string
  cfgPassword :: string
  onConnect :: "string list"
  MinConns :: nat
  MaxConns :: nat
  applicationName :: string
  warned :: bool

definition buildPgxConfig :: "(string \<Rightarrow> (string \<times> string) option) \<Rightarrow> (string \<Rightarrow> bool) \<Rightarrow> (string \<Rightarrow> string option) \<Rightarrow>
    Connection \<Rightarrow> string \<Rightarrow> pgx_config option" where
  "buildPgxConfig parse loopbackIP sslmodeInURL p password = do {
     dsn \<leftarrow> connectionStringFor p;
     (h, inline) \<leftarrow> parse dsn;
     canonical \<leftarrow> CanonicalizeStatementTimeout (if StatementTimeout p = [] then ''0'' else StatementTimeout p);
     Some \<lparr>cfgHost = h, cfgPassword = (if password \<noteq> [] then password else inline),
       onConnect = afterConnect (ReadOnly p) canonical, MinConns = 2, MaxConns = 8, applicationName = ''pgsavvy'',
       warned = shouldWarnInsecureSSL loopbackIP sslmodeInURL dsn (Some h)\<rparr> }"

text \<open>What quoting makes of one byte, and what is left after the first pass of unquoting.\<close>

definition kvEscape :: "char \<Rightarrow> string" where
  "kvEscape c = (if c = CHR 0x5C then [CHR 0x5C, CHR 0x5C] else if c = CHR 0x27 then [CHR 0x5C, CHR 0x27] else [c])"

definition kvHalf :: "char \<Rightarrow> string" where
  "kvHalf c = (if c = CHR 0x5C then [CHR 0x5C, CHR 0x5C] else [c])"

abbreviation kvEscaped :: "string \<Rightarrow> string" where
  "kvEscaped v \<equiv> concat (map kvEscape v)"

lemma quoteKVValue_escape: "quoteKVValue v = CHR 0x27 # kvEscaped v @ [CHR 0x27]"
proof -
  have "replaceAll [CHR 0x27] [CHR 0x5C, CHR 0x27] (replaceAll [CHR 0x5C] [CHR 0x5C, CHR 0x5C] v) = kvEscaped v"
    by (induction v) (auto simp: replaceAll_byte kvEscape_def)
  then show ?thesis by (simp add: quoteKVValue_def)
qed

lemma replaceAll_here: "old \<noteq> [] \<Longrightarrow> replaceAll old new (old @ s) = new @ replaceAll old new s"
  by (subst replaceAll.simps) (simp add: prefixOf_def)

lemma replaceAll_skip:
  "take (length old) (c # s) \<noteq> old \<Longrightarrow> replaceAll old new (c # s) = c # replaceAll old new s"
  by (subst replaceAll.simps) (auto simp: prefixOf_def)

lemma kvEscaped_hd: "kvEscaped v = [] \<or> hd (kvEscaped v) \<noteq> CHR 0x27"
  by (cases v) (auto simp: kvEscape_def)

lemma lone_backslash:
  "s = [] \<or> hd s \<noteq> CHR 0x27 \<Longrightarrow> replaceAll [CHR 0x5C, CHR 0x27] new (CHR 0x5C # s) = CHR 0x5C # replaceAll [CHR 0x5C, CHR 0x27] new s"
  by (cases s) (simp_all add: replaceAll_skip)

lemma kv_bytes:
  "kvEscape (CHR 0x5C) = [CHR 0x5C, CHR 0x5C]" "kvEscape (CHR 0x27) = [CHR 0x5C, CHR 0x27]"
  "c \<noteq> CHR 0x5C \<Longrightarrow> c \<noteq> CHR 0x27 \<Longrightarrow> kvEscape c = [c]"
  "kvHalf (CHR 0x5C) = [CHR 0x5C, CHR 0x5C]" "c \<noteq> CHR 0x5C \<Longrightarrow> kvHalf c = [c]"
  by (simp_all add: kvEscape_def kvHalf_def)

lemma first_pass: "replaceAll [CHR 0x5C, CHR 0x27] [CHR 0x27] (kvEscaped v) = concat (map kvHalf v)"
proof (induction v)
  case (Cons c v)
  consider "c = CHR 0x5C" | "c = CHR 0x27" | "c \<noteq> CHR 0x5C" "c \<noteq> CHR 0x27" by blast
  then show ?case
  proof cases
    case 1
    have "replaceAll [CHR 0x5C, CHR 0x27] [CHR 0x27] (CHR 0x5C # CHR 0x5C # kvEscaped v) =
      CHR 0x5C # CHR 0x5C # replaceAll [CHR 0x5C, CHR 0x27] [CHR 0x27] (kvEscaped v)"
      using lone_backslash [OF kvEscaped_hd [of v]] by (simp add: replaceAll_skip)
    then show ?thesis using 1 Cons by (simp add: kv_bytes)
  next
    case 2
    then show ?thesis using Cons replaceAll_here [of "[CHR 0x5C, CHR 0x27]" _ "kvEscaped v"] by (simp add: kv_bytes)
  next
    case 3
    then show ?thesis using Cons by (simp add: kv_bytes replaceAll_skip)
  qed
qed simp

lemma second_pass: "replaceAll [CHR 0x5C, CHR 0x5C] [CHR 0x5C] (concat (map kvHalf v)) = v"
proof (induction v)
  case (Cons c v)
  show ?case
  proof (cases "c = CHR 0x5C")
    case True
    then have "kvHalf c = [CHR 0x5C, CHR 0x5C]" by (simp add: kvHalf_def)
    then show ?thesis using True Cons replaceAll_here [of "[CHR 0x5C, CHR 0x5C]" _ "concat (map kvHalf v)"] by simp
  next
    case False
    then have "kvHalf c = [c]" by (simp add: kvHalf_def)
    then show ?thesis using False Cons by (simp add: replaceAll_skip)
  qed
qed simp

lemma unquote_quote: "unquoteKVValue (quoteKVValue v) = v"
  by (simp add: unquoteKVValue_def quoteKVValue_escape first_pass second_pass)

text \<open>Texts that the splitter takes whole: it ends outside quotes, with the text added to the token.\<close>

definition unsplit :: "string \<Rightarrow> bool" where
  "unsplit t \<longleftrightarrow> (\<forall>rest cur. kvTokens (t @ rest) False cur = kvTokens rest False (cur @ t))"

lemma unsplit_append: "unsplit s \<Longrightarrow> unsplit t \<Longrightarrow> unsplit (s @ t)"
  by (simp add: unsplit_def)

lemma kvTokens_plain:
  "c \<noteq> CHR 0x5C \<Longrightarrow> c \<noteq> CHR 0x27 \<Longrightarrow> c \<noteq> CHR '' '' \<or> q \<Longrightarrow> kvTokens (c # s) q cur = kvTokens s q (cur @ [c])"
  by (cases s) auto

lemma kvTokens_quote: "kvTokens (CHR 0x27 # s) q cur = kvTokens s (\<not> q) (cur @ [CHR 0x27])"
  by (cases s) auto

lemma kvTokens_space: "kvTokens (CHR '' '' # s) False cur = (if cur \<noteq> [] then [cur] else []) @ kvTokens s False []"
  by (cases s) auto

lemma unsplit_word:
  assumes "\<forall>c \<in> set t. c \<noteq> CHR 0x5C \<and> c \<noteq> CHR 0x27 \<and> c \<noteq> CHR '' ''"
  shows "unsplit t"
proof -
  have "kvTokens (t @ rest) False cur = kvTokens rest False (cur @ t)" for rest cur
    using assms by (induction t arbitrary: cur) (simp_all add: kvTokens_plain)
  then show ?thesis by (simp add: unsplit_def)
qed

lemma kvTokens_escaped: "kvTokens (kvEscaped v @ rest) True cur = kvTokens rest True (cur @ kvEscaped v)"
proof (induction v arbitrary: cur)
  case (Cons c v)
  then show ?case by (auto simp: kvEscape_def kvTokens_plain)
qed simp

lemma unsplit_quoted: "unsplit (quoteKVValue v)"
  by (simp add: unsplit_def quoteKVValue_escape kvTokens_quote kvTokens_escaped)

lemma kvTokens_two: "unsplit t \<Longrightarrow> t \<noteq> [] \<Longrightarrow> kvTokens (t @ CHR '' '' # s) False [] = t # kvTokens s False []"
  by (simp add: unsplit_def kvTokens_space)

lemma kvTokens_one: "unsplit t \<Longrightarrow> t \<noteq> [] \<Longrightarrow> kvTokens t False [] = [t]"
  using spec [OF spec [of _ "[]"]] by (metis append.right_neutral append_Nil kvTokens.simps(1) unsplit_def)

text \<open>The fields that the built string holds, in order, and the string as their join.\<close>

definition dsnFields :: "Connection \<Rightarrow> (string \<times> string) list" where
  "dsnFields p =
     (''host'', quoteKVValue (Host p)) #
     (if Port p \<noteq> 0 then [(''port'', Itoa (Port p))] else []) @
     (if User p \<noteq> [] then [(''user'', quoteKVValue (User p))] else []) @
     (if Database p \<noteq> [] then [(''dbname'', quoteKVValue (Database p))] else []) @
     (if SSLMode p \<noteq> [] then [(''sslmode'', quoteKVValue (SSLMode p))] else [])"

fun joined :: "(string \<times> string) list \<Rightarrow> string" where
  "joined [] = []"
| "joined [(k, v)] = k @ CHR ''='' # v"
| "joined ((k, v) # f # fs) = k @ CHR ''='' # v @ CHR '' '' # joined (f # fs)"

lemma buildKVDSN_joined: "buildKVDSN p = joined (dsnFields p)"
  by (simp add: buildKVDSN_def dsnFields_def)

definition keyByte :: "char \<Rightarrow> bool" where
  "keyByte c \<longleftrightarrow> 97 \<le> byte c \<and> byte c \<le> 122"

definition plainKey :: "string \<Rightarrow> bool" where
  "plainKey k \<longleftrightarrow> k \<noteq> [] \<and> list_all keyByte k"

lemma keyByte_facts: "keyByte c \<Longrightarrow> c \<noteq> CHR 0x5C \<and> c \<noteq> CHR 0x27 \<and> c \<noteq> CHR '' '' \<and> c \<noteq> CHR ''='' \<and> plainByte c"
  by (auto simp: keyByte_def byte_def plainByte_def unicode_IsSpace_def)

lemma unsplit_field: "plainKey k \<Longrightarrow> unsplit v \<Longrightarrow> unsplit (k @ CHR ''='' # v)"
  using unsplit_append [OF unsplit_word [of "k @ ''=''"], of v]
  by (auto simp: plainKey_def list_all_iff dest: keyByte_facts)

lemma kvTokens_joined:
  assumes "\<forall>(k, v) \<in> set fs. plainKey k \<and> unsplit v"
  shows "kvTokens (joined fs) False [] = map (\<lambda>(k, v). k @ CHR ''='' # v) fs"
  using assms
proof (induction fs rule: joined.induct)
  case (2 k v)
  then show ?case using kvTokens_one unsplit_field by auto
next
  case (3 k v f fs)
  then show ?case using kvTokens_two [of "k @ CHR ''='' # v" "joined (f # fs)"] unsplit_field by auto
qed simp

lemma cut_field:
  assumes "plainKey k"
  shows "cutAt (CHR ''='') (k @ CHR ''='' # v) = Some (k, v)" "TrimBytes k = k"
proof -
  have k: "\<forall>c \<in> set k. c \<noteq> CHR ''='' \<and> plainByte c" using assms by (auto simp: plainKey_def list_all_iff dest: keyByte_facts)
  then have "takeWhile (\<lambda>x. x \<noteq> CHR ''='') (k @ CHR ''='' # v) = k" "dropWhile (\<lambda>x. x \<noteq> CHR ''='') (k @ CHR ''='' # v) = CHR ''='' # v"
    by (simp_all add: takeWhile_append2 dropWhile_append2)
  then show "cutAt (CHR ''='') (k @ CHR ''='' # v) = Some (k, v)" by (simp add: cutAt_def)
  show "TrimBytes k = k" using k assms by (intro TrimBytes_plain) (auto simp: plainKey_def)
qed

lemma kvLookup_fields:
  assumes "\<forall>(k, v) \<in> set fs. plainKey k \<and> TrimBytes v = v"
  shows "kvLookup key (map (\<lambda>(k, v). k @ CHR ''='' # v) fs) = map_option unquoteKVValue (map_of fs key)"
  using assms by (induction fs) (auto simp: cut_field split: prod.splits)

lemma trimmed_quoted: "TrimBytes (quoteKVValue v) = quoteKVValue v"
  by (intro TrimBytes_plain) (simp add: quoteKVValue_escape plainByte_def byte_def unicode_IsSpace_def)

lemma Itoa_facts: "unsplit (Itoa n)" "TrimBytes (Itoa n) = Itoa n" "unquoteKVValue (Itoa n) = Itoa n"
proof -
  have b: "c \<noteq> CHR 0x5C \<and> c \<noteq> CHR 0x27 \<and> c \<noteq> CHR '' '' \<and> plainByte c" if "c \<in> set (Itoa n)" for c
    using Itoa_bytes [OF that] by (auto simp: byte_def plainByte_def unicode_IsSpace_def)
  show "unsplit (Itoa n)" using b by (intro unsplit_word) auto
  show "TrimBytes (Itoa n) = Itoa n" using b Itoa_ne by (intro TrimBytes_plain) auto
  show "unquoteKVValue (Itoa n) = Itoa n" using b [of "hd (Itoa n)"] Itoa_ne by (simp add: unquoteKVValue_def)
qed

text \<open>
  C37. The connection string that is built from a profile's discrete fields reads back as those fields,
  whatever bytes they hold: blanks, quotes and backslashes in a value neither end it nor start another
  field.  A field that is left out of the profile is left out of the string.
\<close>

theorem built_dsn_reads_back:
  assumes "DSN p = []" "Host p \<noteq> []"
  shows "\<exists>dsn. connectionStringFor p = Some dsn \<and>
    kvDSNValue dsn ''host'' = Some (Host p) \<and>
    kvDSNValue dsn ''port'' = (if Port p = 0 then None else Some (Itoa (Port p))) \<and>
    kvDSNValue dsn ''user'' = (if User p = [] then None else Some (User p)) \<and>
    kvDSNValue dsn ''dbname'' = (if Database p = [] then None else Some (Database p)) \<and>
    kvDSNValue dsn ''sslmode'' = (if SSLMode p = [] then None else Some (SSLMode p))"
proof -
  have keys: "plainKey ''host''" "plainKey ''port''" "plainKey ''user''" "plainKey ''dbname''" "plainKey ''sslmode''"
    by (simp_all add: plainKey_def keyByte_def byte_def)
  have f: "\<forall>(k, v) \<in> set (dsnFields p). plainKey k \<and> unsplit v \<and> TrimBytes v = v"
    by (auto simp: dsnFields_def keys unsplit_quoted trimmed_quoted Itoa_facts)
  have eq: "CHR ''='' \<in> set (buildKVDSN p)" by (simp add: buildKVDSN_def)
  have "kvTokens (buildKVDSN p) False [] = map (\<lambda>(k, v). k @ CHR ''='' # v) (dsnFields p)"
    unfolding buildKVDSN_joined using f by (intro kvTokens_joined) auto
  then have "kvDSNValue (buildKVDSN p) key = map_option unquoteKVValue (map_of (dsnFields p) key)" for key
    using kvLookup_fields [of "dsnFields p" key] f eq by (auto simp: kvDSNValue_def splitKVDSN_def)
  then show ?thesis
    using assms by (simp add: connectionStringFor_def dsnFields_def unquote_quote Itoa_facts)
qed

theorem built_dsn_reads_back_witness:
  "let p = \<lparr>Name = ''n'', Driver = ''postgres'', DSN = [], Host = ''a b'', Port = 5432, User = ''ox'', Database = [], SSLMode = [],
     CLIAccess = [], ReadOnly = False, CLIHistory = False, ConfirmWrites = False, ConfirmDDL = False, StatementTimeout = [], Role = []\<rparr>
   in kvDSNValue (the (connectionStringFor p)) ''host'' = Some ''a b''"
  using built_dsn_reads_back [of "\<lparr>Name = ''n'', Driver = ''postgres'', DSN = [], Host = ''a b'', Port = 5432, User = ''ox'', Database = [], SSLMode = [],
     CLIAccess = [], ReadOnly = False, CLIHistory = False, ConfirmWrites = False, ConfirmDDL = False, StatementTimeout = [], Role = []\<rparr>"]
  by (auto simp: Let_def)

end
