(* ===== verification/CliApproval.thy ===== *)
theory CliApproval
  imports MachineAtomicSpec
begin

text \<open>
  The approval of one invocation at the controlling terminal (\<open>pkg/cli/approval.go\<close>): the prompt, the
  two lines that are read, and the provider around them.  A terminal is what its reads and writes
  return: each read gives at most one byte and an error, each write whether all of it was written.
  Unicode's control and print tables and the quoting of a rune are parameters.
\<close>

section \<open>The terminal\<close>

datatype read_error = NoError | EOF | ReadFailed

record terminal =
  reads :: "(char option \<times> read_error) list"
  writes_ok :: "bool list"
  shown :: "string list"

text \<open>A terminal with nothing more to say is at its end; a write that is not listed fails.\<close>

definition readByte :: "terminal \<Rightarrow> (char option \<times> read_error) \<times> terminal" where
  "readByte t = (case reads t of [] \<Rightarrow> ((None, EOF), t) | r # rs \<Rightarrow> (r, t\<lparr>reads := rs\<rparr>))"

definition writeText :: "string \<Rightarrow> terminal \<Rightarrow> bool \<times> terminal" where
  "writeText s t = (case writes_ok t of [] \<Rightarrow> (False, t) | b # bs \<Rightarrow> (b, t\<lparr>writes_ok := bs, shown := shown t @ [s]\<rparr>))"

abbreviation maxProfileBytes :: nat where "maxProfileBytes \<equiv> 256"

definition trimCR :: "string \<Rightarrow> string" where
  "trimCR s = (if s \<noteq> [] \<and> last s = CHR 0x0D then butlast s else s)"

text \<open>One line.  The loop ends with the reads or when the line is too long.\<close>

function approvalLine :: "terminal \<Rightarrow> string \<Rightarrow> (ErrorCode + string) \<times> terminal" where
  "approvalLine t line =
     (if \<not> length line \<le> maxProfileBytes + 1 then (Inl ''APPROVAL_MISMATCH'', t)
      else case readByte t of ((b, e), t') \<Rightarrow>
        (case b of
           Some c \<Rightarrow>
             (if c = CHR 0x0A then (Inr (trimCR line), t')
              else if e = EOF then (Inl ''APPROVAL_CANCELLED'', t')
              else if e \<noteq> NoError then (Inl ''APPROVAL_UNAVAILABLE'', t')
              else approvalLine t' (line @ [c]))
         | None \<Rightarrow> (Inl (if e = EOF then ''APPROVAL_CANCELLED'' else ''APPROVAL_UNAVAILABLE''), t')))"
  by auto
termination by (relation "measure (\<lambda>(t, line). 259 - length line)") auto

declare approvalLine.simps [simp del]

section \<open>The prompt\<close>

record ApprovalRequest =
  aConnection :: string
  aSQL :: string
  aSchema :: string
  aMaxRows :: int
  ParameterCount :: nat
  StatementCount :: nat
  WritesRequired :: bool
  DDLRequired :: bool

text \<open>What one character of a text is shown as; \<open>pieces\<close> cuts a text into its characters.\<close>

record text_tables =
  pieces :: "string \<Rightarrow> string list"
  control :: "string \<Rightarrow> bool"
  printable :: "string \<Rightarrow> bool"
  quoteASCII :: "string \<Rightarrow> string"

definition omitted :: string where
  "omitted = ''...[content omitted]''"

fun approvalPieces :: "text_tables \<Rightarrow> int \<Rightarrow> string list \<Rightarrow> string \<Rightarrow> string" where
  "approvalPieces u limit [] out = out"
| "approvalPieces u limit (r # rs) out =
     (let shownAs = (if control u r \<or> \<not> printable u r then quoteASCII u r else r)
      in if len out + len shownAs > limit - len omitted then out @ omitted
         else approvalPieces u limit rs (out @ shownAs))"

definition approvalText :: "text_tables \<Rightarrow> string \<Rightarrow> int \<Rightarrow> string" where
  "approvalText u v limit = approvalPieces u limit (pieces u v) []"

definition truth :: "bool \<Rightarrow> string" where
  "truth b = (if b then ''true'' else ''false'')"

definition approvalPreview :: "text_tables \<Rightarrow> ApprovalRequest \<Rightarrow> string" where
  "approvalPreview u r =
     (let header = ''Invocation approval'' @ [CHR 0x0A] @ ''Connection: '' @ approvalText u (aConnection r) 512 @ [CHR 0x0A] @
            ''Schema: '' @ approvalText u (aSchema r) 256 @ [CHR 0x0A] @
            ''statements='' @ Itoa (int (StatementCount r)) @ '' parameters='' @ Itoa (int (ParameterCount r)) @
            '' max_rows='' @ Itoa (aMaxRows r) @ '' writes='' @ truth (WritesRequired r) @ '' ddl='' @ truth (DDLRequired r) @ [CHR 0x0A] @
            ''SQL (parameter values omitted): ''
      in header @ approvalText u (aSQL r) (4096 - len header - 1) @ [CHR 0x0A])"

section \<open>The two questions\<close>

definition terminalApproval :: "text_tables \<Rightarrow> ApprovalRequest \<Rightarrow> terminal \<Rightarrow> ErrorCode option \<times> terminal" where
  "terminalApproval u r t =
     (case writeText (approvalPreview u r @ ''Type the exact connection name: '') t of (ok, t1) \<Rightarrow>
        if \<not> ok then (Some ''APPROVAL_UNAVAILABLE'', t1)
        else case approvalLine t1 [] of
            (Inl e, t2) \<Rightarrow> (Some e, t2)
          | (Inr name, t2) \<Rightarrow>
              (if name \<noteq> aConnection r then (Some ''APPROVAL_MISMATCH'', t2)
               else case writeText ''Type yes to approve this invocation: '' t2 of (ok2, t3) \<Rightarrow>
                 if \<not> ok2 then (Some ''APPROVAL_UNAVAILABLE'', t3)
                 else case approvalLine t3 [] of
                     (Inl e, t4) \<Rightarrow> (Some e, t4)
                   | (Inr reply, t4) \<Rightarrow> (if reply \<noteq> ''yes'' then Some ''APPROVAL_CANCELLED'' else None, t4)))"

text \<open>
  The provider.  \<open>open\<close> gives a terminal, or nothing when it fails; \<open>cancelled k\<close> is \<open>ctx.Err()\<close> when
  it is asked for the \<open>k\<close>th time.  Closing the terminal from the watcher is seen by its reads.
\<close>

definition NewTerminalApprovalProvider :: "text_tables \<Rightarrow> terminal option option \<Rightarrow> (nat \<Rightarrow> bool) \<Rightarrow> ApprovalRequest \<Rightarrow> ErrorCode option" where
  "NewTerminalApprovalProvider u openTerminal cancelled r =
     (if cancelled 0 then Some ''TIMEOUT''
      else if openTerminal = None \<or> aConnection r = [] \<or> maxProfileBytes < length (aConnection r) \<or> \<not> utf8_Valid (aConnection r) \<or>
        list_ex (control u) (pieces u (aConnection r)) then Some ''APPROVAL_UNAVAILABLE''
      else case the openTerminal of
          None \<Rightarrow> Some (if cancelled 1 then ''TIMEOUT'' else ''APPROVAL_UNAVAILABLE'')
        | Some t \<Rightarrow> (case terminalApproval u r t of (e, t') \<Rightarrow> if cancelled 1 then Some ''TIMEOUT'' else e))"

section \<open>What approval takes\<close>

definition typed :: "string \<Rightarrow> (char option \<times> read_error) list" where
  "typed s = map (\<lambda>c. (Some c, NoError)) s"

text \<open>The reads begin with this text, the last byte possibly together with an error.\<close>

definition linesUp :: "(char option \<times> read_error) list \<Rightarrow> string \<Rightarrow> (char option \<times> read_error) list \<Rightarrow> bool" where
  "linesUp rs s rest \<longleftrightarrow> (\<exists>e. rs = typed s @ (Some (CHR 0x0A), e) # rest)"

lemma approvalLine_Inr:
  assumes "approvalLine t line = (Inr s, t')"
  shows "\<exists>typed_line. linesUp (reads t) typed_line (reads t') \<and> CHR 0x0A \<notin> set typed_line \<and> s = trimCR (line @ typed_line) \<and>
    writes_ok t' = writes_ok t"
  using assms
proof (induction t line rule: approvalLine.induct)
  case (1 t line)
  obtain b e t1 where r: "readByte t = ((b, e), t1)" by (metis prod.exhaust)
  have len: "length line \<le> maxProfileBytes + 1" using "1.prems" by (subst (asm) approvalLine.simps) (auto split: if_splits)
  obtain c where c: "b = Some c" using "1.prems" r len by (subst (asm) approvalLine.simps) (auto split: option.splits)
  have t: "reads t = (Some c, e) # reads t1" "writes_ok t1 = writes_ok t"
    using r c by (auto simp: readByte_def split: list.splits)
  show ?case
  proof (cases "c = CHR 0x0A")
    case True
    then have "s = trimCR line" "t' = t1" using "1.prems" r c len by (subst (asm) approvalLine.simps, simp)+
    then show ?thesis using t True by (intro exI [of _ "[]"]) (simp add: linesUp_def typed_def)
  next
    case False
    have e: "e = NoError" and rec: "approvalLine t1 (line @ [c]) = (Inr s, t')"
      using "1.prems" r c len False by (subst (asm) approvalLine.simps, simp split: if_splits)+
    from "1.IH" [OF _ r [symmetric] refl c False _ _ rec] len e obtain tl' where
      "linesUp (reads t1) tl' (reads t')" "CHR 0x0A \<notin> set tl'" "s = trimCR ((line @ [c]) @ tl')" "writes_ok t' = writes_ok t1"
      by auto
    then show ?thesis using t e False by (intro exI [of _ "c # tl'"]) (auto simp: linesUp_def typed_def)
  qed
qed

lemma approvalLine_step:
  "length line \<le> maxProfileBytes + 1 \<Longrightarrow> reads t = (Some c, e) # rs \<Longrightarrow>
     approvalLine t line =
       (if c = CHR 0x0A then (Inr (trimCR line), t\<lparr>reads := rs\<rparr>)
        else if e = EOF then (Inl ''APPROVAL_CANCELLED'', t\<lparr>reads := rs\<rparr>)
        else if e \<noteq> NoError then (Inl ''APPROVAL_UNAVAILABLE'', t\<lparr>reads := rs\<rparr>)
        else approvalLine (t\<lparr>reads := rs\<rparr>) (line @ [c]))"
  by (subst approvalLine.simps) (simp add: readByte_def)

lemma approvalLine_reads:
  "linesUp (reads t) s rest \<Longrightarrow> CHR 0x0A \<notin> set s \<Longrightarrow> length line + length s \<le> maxProfileBytes + 1 \<Longrightarrow>
     approvalLine t line = (Inr (trimCR (line @ s)), t\<lparr>reads := rest\<rparr>)"
proof (induction s arbitrary: t line)
  case Nil
  then obtain e where "reads t = (Some (CHR 0x0A), e) # rest" by (auto simp: linesUp_def typed_def)
  then show ?case using approvalLine_step [of line t] Nil by simp
next
  case (Cons c s)
  then obtain e where e: "reads t = (Some c, NoError) # typed s @ (Some (CHR 0x0A), e) # rest" by (auto simp: linesUp_def typed_def)
  have "linesUp (reads (t\<lparr>reads := typed s @ (Some (CHR 0x0A), e) # rest\<rparr>)) s rest" by (auto simp: linesUp_def)
  have c: "c \<noteq> CHR 0x0A" using Cons.prems(2) by auto
  from Cons.IH [OF \<open>linesUp _ s rest\<close>, of "line @ [c]"] Cons.prems(2,3) show ?case
    using approvalLine_step [OF _ e, of line] c by simp
qed

lemma trimCR_length: "length s \<le> length (trimCR s) + 1"
  by (simp add: trimCR_def)

lemma terminalApproval_None:
  assumes "length (aConnection r) \<le> maxProfileBytes"
  shows "fst (terminalApproval u r t) = None \<longleftrightarrow>
    (\<exists>first second mid rest ws. writes_ok t = True # True # ws \<and> linesUp (reads t) first mid \<and> linesUp mid second rest \<and>
       CHR 0x0A \<notin> set first \<and> CHR 0x0A \<notin> set second \<and> trimCR first = aConnection r \<and> trimCR second = ''yes'')"
    (is "?l \<longleftrightarrow> ?r")
proof
  assume ?l
  then obtain t1 t2 t3 t4 where s:
    "writeText (approvalPreview u r @ ''Type the exact connection name: '') t = (True, t1)"
    "approvalLine t1 [] = (Inr (aConnection r), t2)" "writeText ''Type yes to approve this invocation: '' t2 = (True, t3)"
    "approvalLine t3 [] = (Inr ''yes'', t4)"
    by (auto simp: terminalApproval_def split: prod.splits sum.splits if_splits)
  from approvalLine_Inr [OF s(2)] approvalLine_Inr [OF s(4)] obtain a b where
    "linesUp (reads t1) a (reads t2)" "CHR 0x0A \<notin> set a" "trimCR a = aConnection r" "writes_ok t2 = writes_ok t1"
    "linesUp (reads t3) b (reads t4)" "CHR 0x0A \<notin> set b" "trimCR b = ''yes''" by fastforce
  moreover from s(1,3) have "reads t1 = reads t" "reads t3 = reads t2" "writes_ok t = True # writes_ok t1" "writes_ok t2 = True # writes_ok t3"
    by (auto simp: writeText_def split: list.splits)
  ultimately show ?r by metis
next
  assume ?r
  then obtain a b mid rest ws where r: "writes_ok t = True # True # ws" "linesUp (reads t) a mid" "linesUp mid b rest"
    "CHR 0x0A \<notin> set a" "CHR 0x0A \<notin> set b" "trimCR a = aConnection r" "trimCR b = ''yes''" by blast
  have "length a \<le> maxProfileBytes + 1" "length b \<le> maxProfileBytes + 1"
    using trimCR_length [of a] trimCR_length [of b] r(6,7) assms by auto
  then show ?l using r by (simp add: terminalApproval_def writeText_def approvalLine_reads)
qed

text \<open>
  C35. An invocation is approved at the terminal exactly when the command was not cancelled, the
  connection name is one that can be shown, a terminal was opened, both questions could be written in
  full, and the two lines that were typed are the exact name of the connection and \<open>yes\<close>, each up to
  one carriage return before its line feed.  Every other input, an end of the input in a line or a
  line that is too long included, is a refusal.
\<close>

theorem approval_takes_name_and_yes:
  "NewTerminalApprovalProvider u openTerminal cancelled r = None \<longleftrightarrow>
     \<not> cancelled 0 \<and> \<not> cancelled 1 \<and>
     aConnection r \<noteq> [] \<and> length (aConnection r) \<le> 256 \<and> utf8_Valid (aConnection r) \<and> \<not> list_ex (control u) (pieces u (aConnection r)) \<and>
     (\<exists>t first second mid rest ws. openTerminal = Some (Some t) \<and> writes_ok t = True # True # ws \<and>
        linesUp (reads t) first mid \<and> linesUp mid second rest \<and> CHR 0x0A \<notin> set first \<and> CHR 0x0A \<notin> set second \<and>
        trimCR first = aConnection r \<and> trimCR second = ''yes'')"
proof (cases "cancelled 0 \<or> openTerminal = None \<or> aConnection r = [] \<or> 256 < length (aConnection r) \<or> \<not> utf8_Valid (aConnection r) \<or>
    list_ex (control u) (pieces u (aConnection r))")
  case True
  then show ?thesis by (auto simp: NewTerminalApprovalProvider_def)
next
  case False
  then obtain o1 where o: "openTerminal = Some o1" by auto
  show ?thesis
  proof (cases o1)
    case None
    then show ?thesis using o False by (simp add: NewTerminalApprovalProvider_def)
  next
    case (Some t)
    have "NewTerminalApprovalProvider u openTerminal cancelled r = (if cancelled 1 then Some ''TIMEOUT'' else fst (terminalApproval u r t))"
      using False o Some by (simp add: NewTerminalApprovalProvider_def split: prod.split)
    then show ?thesis using False o Some terminalApproval_None [of r u t] by auto
  qed
qed

lemma approvalPieces_bound:
  "len omitted \<le> limit \<Longrightarrow> len out \<le> limit - len omitted \<Longrightarrow> len (approvalPieces u limit rs out) \<le> limit"
  by (induction rs arbitrary: out) (auto simp: Let_def)

end
