(* ===== verification/CliQuery.thy ===== *)
theory CliQuery
  imports SessionProfile CliApproval
begin

text \<open>
  The query command on a saved connection: its flags (\<open>ParseFlags\<close> in \<open>pkg/cli/dispatch.go\<close>), its inputs
  (\<open>input.go\<close>), the choice of the profile and the opening of a client (\<open>service.go\<close>, \<open>OpenMachine\<close> in
  \<open>pkg/drivers/pg/machine.go\<close>), its history record (\<open>query_history.go\<close>) and the command itself
  (\<open>query.go\<close>).  Files, profiles, the history store, the transport and the clock are the outside: functions
  of a record over its state.  The path for temporary targets is one such function.
\<close>

section \<open>Flags\<close>

text \<open>The flags that were set, by name.\<close>

type_synonym flagmap = "string \<Rightarrow> string option"

fun parseArgs :: "(string \<Rightarrow> bool option) \<Rightarrow> string list \<Rightarrow> flagmap \<Rightarrow> string list \<Rightarrow> (flagmap \<times> string list) option" where
  "parseArgs allowed [] flags positional = Some (flags, positional)"
| "parseArgs allowed (arg # rest) flags positional =
     (if arg = ''--'' then Some (flags, positional @ rest)
      else if \<not> prefixOf ''-'' arg then parseArgs allowed rest flags (positional @ [arg])
      else
        let parts = (case cutAt (CHR ''='') arg of None \<Rightarrow> (arg, None) | Some (k, v) \<Rightarrow> (k, Some v));
            name = (if prefixOf ''--'' (fst parts) then drop 2 (fst parts) else fst parts)
        in case allowed name of
            None \<Rightarrow> None
          | Some takesValue \<Rightarrow>
              if \<not> prefixOf ''--'' arg then None
              else if flags name \<noteq> None then None
              else if takesValue then
                (case snd parts of
                   Some v \<Rightarrow> if v = [] then None else parseArgs allowed rest (flags(name \<mapsto> v)) positional
                 | None \<Rightarrow>
                     (case rest of
                        [] \<Rightarrow> None
                      | v # rest' \<Rightarrow>
                          if prefixOf ''--'' v \<or> v = [] then None else parseArgs allowed rest' (flags(name \<mapsto> v)) positional))
              else if snd parts \<noteq> None then None
              else parseArgs allowed rest (flags(name \<mapsto> ''true'')) positional)"

definition allowedFlags :: "string list \<Rightarrow> string list \<Rightarrow> string \<Rightarrow> bool option" where
  "allowedFlags values switches = map_of (map (\<lambda>n. (n, False)) switches @ map (\<lambda>n. (n, True)) values)"

definition ParseFlags :: "string list \<Rightarrow> string list \<Rightarrow> string list \<Rightarrow> (flagmap \<times> string list) option" where
  "ParseFlags args values switches = parseArgs (allowedFlags values switches) args (\<lambda>_. None) []"

definition temporaryTargetFlags :: "string list" where
  "temporaryTargetFlags = [''host'', ''socket-dir'', ''port'', ''database'', ''username'', ''passfile'']"

text \<open>Without \<open>--temporary\<close>, none of the flags that go with it is allowed.\<close>

definition strayTemporaryFlag :: "flagmap \<Rightarrow> bool" where
  "strayTemporaryFlag flags \<longleftrightarrow> list_ex (\<lambda>k. flags k \<noteq> None) temporaryTargetFlags \<or> flags ''allow-write'' \<noteq> None"

text \<open>\<open>strconv.Atoi\<close>, within the range of a 64-bit integer.\<close>

definition Atoi :: "string \<Rightarrow> int option" where
  "Atoi s =
     (let body = (if s \<noteq> [] \<and> (hd s = CHR ''-'' \<or> hd s = CHR ''+'') then tl s else s);
          n = (if s \<noteq> [] \<and> hd s = CHR ''-'' then - int (digitsValue body) else int (digitsValue body))
      in if body = [] \<or> \<not> list_all decimal body \<or> n < - (2 ^ 63) \<or> 2 ^ 63 \<le> n then None else Some n)"

section \<open>The outside\<close>

datatype json_value = JNull | JString string | JBool bool | JNumber string | JOther

record history_event =
  hSQL :: string
  hConnection :: string
  hOutcome :: string

datatype history_failure = UpgradeRequired | HistoryFailed

record machine_options =
  ConnectTimeout :: int
  CleanupTimeout :: int
  QueryTimeout :: int

text \<open>
  What the command is given.  \<open>loadProfiles\<close> is \<open>None\<close> for a load error; \<open>historyLookup\<close> is absent when the
  loader was injected; \<open>connect\<close> covers the parsing of the configuration, the credentials and the dialling,
  with its clean-up and the code an error gets; \<open>openInput\<close> and \<open>readInput\<close> are the two halves of reading a file; \<open>deferred\<close>
  tells whether the history record is written by the dispatcher after the command.
\<close>

record 'w cli_service =
  conn :: "'w server"
  loadProfiles :: "'w \<Rightarrow> Connection list option \<times> 'w"
  historyLookup :: "(string \<Rightarrow> 'w \<Rightarrow> Connection option \<times> 'w) option"
  historyLate :: "'w \<Rightarrow> bool"
  appendHistory :: "history_event \<Rightarrow> 'w \<Rightarrow> history_failure option \<times> 'w"
  deferred :: bool
  openInput :: "string \<Rightarrow> 'w \<Rightarrow> gerr option \<times> 'w"
  readInput :: "string \<Rightarrow> 'w \<Rightarrow> string option \<times> 'w"
  decodeJSON :: "string \<Rightarrow> json_value list option"
  Approve :: "(ApprovalRequest \<Rightarrow> 'w \<Rightarrow> gerr option \<times> 'w) option"
  connect :: "Connection \<Rightarrow> int \<Rightarrow> 'w \<Rightarrow> (gerr \<times> ErrorCode) option \<times> 'w"
  closeClient :: "'w \<Rightarrow> gerr option \<times> 'w"
  scriptCtx :: "'w \<Rightarrow> script_poll \<Rightarrow> bool"
  sqlDep :: sql_dependency
  machineOptions :: machine_options
  cleanupBudget :: int
  statementTimeoutKey :: "int option"

definition outside :: "('w \<Rightarrow> 'a \<times> 'w) \<Rightarrow> 'w sess \<Rightarrow> 'a \<times> 'w sess" where
  "outside f s = (case f (fst s) of (x, w) \<Rightarrow> (x, (w, snd s)))"

abbreviation public :: "ErrorCode \<Rightarrow> gerr" where
  "public c \<equiv> PublicErr (mkErr c)"

section \<open>Inputs\<close>

definition readMachineInput :: "'w cli_service \<Rightarrow> string \<Rightarrow> 'w sess \<Rightarrow> (gerr + string) \<times> 'w sess" where
  "readMachineInput svc path s =
     (case poll (conn svc) Caller s of
        (True, s1) \<Rightarrow> (Inl CtxErr, s1)
      | (False, s1) \<Rightarrow>
          (case outside (openInput svc path) s1 of
             (Some e, s2) \<Rightarrow> (Inl e, s2)
           | (None, s2) \<Rightarrow>
               (case poll (conn svc) Caller s2 of
                  (True, s3) \<Rightarrow> (Inl CtxErr, s3)
                | (False, s3) \<Rightarrow>
                    (case outside (readInput svc path) s3 of (data, s4) \<Rightarrow>
                       (case poll (conn svc) Caller s4 of
                          (True, s5) \<Rightarrow> (Inl CtxErr, s5)
                        | (False, s5) \<Rightarrow>
                            (case data of
                               None \<Rightarrow> Inl (public ''RESOURCE_FAILURE'')
                             | Some d \<Rightarrow> if maxJson < length d \<or> \<not> utf8_Valid d then Inl (public ''INVALID_INPUT'') else Inr d, s5))))))"

definition ReadSQL :: "'w cli_service \<Rightarrow> string \<Rightarrow> 'w sess \<Rightarrow> (gerr + string) \<times> 'w sess" where
  "ReadSQL svc path s =
     (case readMachineInput svc path s of
        (Inl e, s1) \<Rightarrow> (Inl e, s1)
      | (Inr sql, s1) \<Rightarrow> (if TrimBytes sql = [] then Inl (public ''INVALID_INPUT'') else Inr sql, s1))"

definition parameterOf :: "json_value \<Rightarrow> string option option" where
  "parameterOf v = (case v of
     JNull \<Rightarrow> Some None | JString s \<Rightarrow> Some (Some s) | JBool b \<Rightarrow> Some (Some (truth b)) | JNumber n \<Rightarrow> Some (Some n) | JOther \<Rightarrow> None)"

definition ReadParameters :: "'w cli_service \<Rightarrow> string \<Rightarrow> 'w sess \<Rightarrow> (gerr + params) \<times> 'w sess" where
  "ReadParameters svc path s =
     (if path = ''-'' then (Inl (public ''INVALID_INPUT''), s)
      else case readMachineInput svc path s of
          (Inl e, s1) \<Rightarrow> (Inl e, s1)
        | (Inr data, s1) \<Rightarrow>
            (case decodeJSON svc data of
               None \<Rightarrow> Inl (public ''INVALID_INPUT'')
             | Some vs \<Rightarrow>
                 if 256 < length vs \<or> list_ex (\<lambda>v. parameterOf v = None) vs then Inl (public ''INVALID_INPUT'')
                 else Inr (map (\<lambda>v. the (parameterOf v)) vs), s1))"

section \<open>Profiles and clients\<close>

definition profileName :: "string \<Rightarrow> bool" where
  "profileName name \<longleftrightarrow> name \<noteq> [] \<and> length name \<le> maxProfileBytes \<and> utf8_Valid name"

definition ResolveExactProfile :: "Connection list \<Rightarrow> string \<Rightarrow> gerr + Connection" where
  "ResolveExactProfile profiles name =
     (if \<not> profileName name then Inl (public ''INVALID_INPUT'')
      else case filter (\<lambda>p. Name p = name) profiles of
          [p] \<Rightarrow> Inr p
        | _ \<Rightarrow> Inl (public ''CONNECTION_UNAVAILABLE''))"

text \<open>
  Opening: the checks, then the outside part, then the setup statements.  Times are in nanoseconds.  The
  statement limit is never \<open>None\<close> once the times are accepted.
\<close>

definition timeoutsOk :: "machine_options \<Rightarrow> bool" where
  "timeoutsOk opts \<longleftrightarrow>
     0 < ConnectTimeout opts \<and> ConnectTimeout opts \<le> 10000000000 \<and> 0 < CleanupTimeout opts \<and> CleanupTimeout opts \<le> 2000000000 \<and>
     0 < QueryTimeout opts \<and> QueryTimeout opts \<le> 2147483647 * 1000000"

definition withDefaults :: "machine_options \<Rightarrow> machine_options" where
  "withDefaults opts = \<lparr>ConnectTimeout = (if ConnectTimeout opts = 0 then 10000000000 else ConnectTimeout opts),
     CleanupTimeout = (if CleanupTimeout opts = 0 then 2000000000 else CleanupTimeout opts),
     QueryTimeout = (if QueryTimeout opts = 0 then 10000000000 else QueryTimeout opts)\<rparr>"

definition OpenMachine :: "'w cli_service \<Rightarrow> Connection \<Rightarrow> machine_options \<Rightarrow> string \<Rightarrow> 'w sess \<Rightarrow> (gerr + MachineClient) \<times> 'w sess" where
  "OpenMachine svc p opts0 required s =
     (let a = EffectiveCLIAccess p; opts = withDefaults opts0; refuse = (\<lambda>c. Inl (MachineErr (mkErr c))) in
      if \<not> AllowsCLIAccess a required then (refuse ''POLICY_DENIED'', s)
      else case poll (conn svc) Caller s of
          (True, s1) \<Rightarrow> (refuse ''TIMEOUT'', s1)
        | (False, s1) \<Rightarrow>
            if Driver p \<noteq> ''postgres'' then (refuse ''CONNECTION_UNAVAILABLE'', s1)
            else if \<not> timeoutsOk opts then (refuse ''INVALID_INPUT'', s1)
            else case MachineStatementMilliseconds (StatementTimeout p) ((QueryTimeout opts + 999999) div 1000000) of
                None \<Rightarrow> (refuse ''RESOURCE_FAILURE'', s1)
              | Some ms \<Rightarrow>
                  let client = \<lparr>access = a, c_readOnly = ReadOnly p, statementMS = ms, temporary = False\<rparr> in
                  (case outside (connect svc p ms) s1 of
                     (Some (e, code), s2) \<Rightarrow>
                       (case machineFailure (conn svc) Caller (Some e) code s2 of (m, s3) \<Rightarrow> (Inl (MachineErr m), s3))
                   | (None, s2) \<Rightarrow>
                       (case client_initialize (conn svc) client (Role p) s2 of
                          (None, s3) \<Rightarrow> (Inr client, s3)
                        | (Some e, s3) \<Rightarrow>
                            (case outside (closeClient svc) (Client_Abort (conn svc) s3) of (_, s4) \<Rightarrow>
                               (case machineFailure (conn svc) Caller (Some e) ''CONNECTION_UNAVAILABLE'' s4 of (m, s5) \<Rightarrow> (Inl (MachineErr m), s5))))))"

definition openProfile :: "'w cli_service \<Rightarrow> Connection \<Rightarrow> string \<Rightarrow> 'w sess \<Rightarrow> (gerr + MachineClient) \<times> 'w sess" where
  "openProfile svc p required s =
     (case poll (conn svc) Caller s of
        (True, s1) \<Rightarrow> (Inl (public ''TIMEOUT''), s1)
      | (False, s1) \<Rightarrow>
          if \<not> AllowsCLIAccess (EffectiveCLIAccess p) required then (Inl (public ''POLICY_DENIED''), s1)
          else let opts = (machineOptions svc)\<lparr>CleanupTimeout := min 2000000000 (cleanupBudget svc),
                 QueryTimeout := (case statementTimeoutKey svc of Some t \<Rightarrow> t | None \<Rightarrow> QueryTimeout (machineOptions svc))\<rparr>
          in case OpenMachine svc p opts required s1 of
              (Inl e, s2) \<Rightarrow> (Inl (PublicErr (PublicMachineError e)), s2)
            | (Inr c, s2) \<Rightarrow> (Inr c, s2))"

definition CloseMachine :: "'w cli_service \<Rightarrow> 'w sess \<Rightarrow> gerr option \<times> 'w sess" where
  "CloseMachine svc s =
     (case outside (closeClient svc) s of (e, s1) \<Rightarrow> (map_option (\<lambda>e. PublicErr (PublicMachineError e)) e, s1))"

section \<open>The history record\<close>

definition beginQueryHistory :: "'w cli_service \<Rightarrow> string \<Rightarrow> string \<Rightarrow> 'w sess \<Rightarrow> (history_event option \<times> Connection option) \<times> 'w sess" where
  "beginQueryHistory svc name sql s =
     (if \<not> profileName name then ((None, None), s)
      else case historyLookup svc of
          None \<Rightarrow> ((None, None), s)
        | Some find_profile \<Rightarrow>
            (case outside (find_profile name) s of
               (None, s1) \<Rightarrow> ((None, None), s1)
             | (Some p, s1) \<Rightarrow>
                 (case ResolveExactProfile [p] name of
                    Inl e \<Rightarrow> ((None, None), s1)
                  | Inr p \<Rightarrow>
                      ((if CLIHistory p then Some \<lparr>hSQL = sql, hConnection = Name p, hOutcome = ''''\<rparr> else None, Some p), s1))))"

definition blockedCodes :: "ErrorCode list" where
  "blockedCodes = [''UNSUPPORTED_SQL'', ''POLICY_DENIED'', ''APPROVAL_REQUIRED'', ''APPROVAL_MISMATCH'', ''APPROVAL_UNAVAILABLE'', ''APPROVAL_CANCELLED'']"

definition historyOutcome :: "bool \<Rightarrow> gerr option \<Rightarrow> string" where
  "historyOutcome cancelled err =
     (case (if cancelled then Some CtxErr else err) of
        None \<Rightarrow> ''succeeded''
      | Some e \<Rightarrow> if mCode (safeError e) \<in> set blockedCodes then ''blocked'' else ''failed'')"

text \<open>Writing the record: the warnings it leaves.\<close>

definition finalizeHistory :: "'w cli_service \<Rightarrow> history_event \<Rightarrow> 'w sess \<Rightarrow> ErrorCode list \<times> 'w sess" where
  "finalizeHistory svc ev s =
     (if historyLate svc (fst s) then ([''HISTORY_UNAVAILABLE''], s)
      else case outside (appendHistory svc ev) s of (e, s1) \<Rightarrow>
        (case e of None \<Rightarrow> [] | Some UpgradeRequired \<Rightarrow> [''HISTORY_UPGRADE_REQUIRED''] | Some HistoryFailed \<Rightarrow> [''HISTORY_UNAVAILABLE''], s1))"

section \<open>The command\<close>

datatype payload = NoData | QueryUsage | FullData MachineExecuteResult | ReadData MachineQueryResult

record envelope =
  eCommand :: string
  eConnection :: string
  eData :: payload
  ResultComplete :: bool
  eTruncated :: bool
  eReason :: string
  eExecution :: "MachineExecution option"
  Warnings :: "ErrorCode list"

definition noEnvelope :: envelope where
  "noEnvelope = \<lparr>eCommand = '''', eConnection = '''', eData = NoData, ResultComplete = False, eTruncated = False, eReason = '''',
     eExecution = None, Warnings = []\<rparr>"

definition notStarted :: MachineExecution where
  "notStarted = \<lparr>Status = MachineExecutionNotStarted, EffectsMayHaveOccurred = False, PreparedTransactionsMayRemain = False\<rparr>"

definition publicQueryTruncation :: "string \<Rightarrow> string" where
  "publicQueryTruncation reason =
     (if reason = ''max_rows'' then ''row_limit'' else if reason = ''max_results'' then ''result_limit'' else reason)"

type_synonym 'w reply = "(envelope \<times> gerr option) \<times> 'w sess"

text \<open>The profile: the one the history lookup found, else the one of the loader.\<close>

definition selectProfile :: "'w cli_service \<Rightarrow> string \<Rightarrow> MachineError option \<Rightarrow> Connection option \<Rightarrow> 'w sess \<Rightarrow> (gerr + Connection) \<times> 'w sess" where
  "selectProfile svc name validationErr selected s =
     (case selected of
        Some p \<Rightarrow> (Inr p, s)
      | None \<Rightarrow>
          (case outside (loadProfiles svc) s of (profiles, s1) \<Rightarrow>
             (case (profiles, ResolveExactProfile (case profiles of None \<Rightarrow> [] | Some ps \<Rightarrow> ps) name) of
                (Some _, Inr p) \<Rightarrow> Inr p
              | (loaded, resolved) \<Rightarrow>
                  Inl (case validationErr of
                         Some m \<Rightarrow> PublicErr (PublicMachineError (MachineErr m))
                       | None \<Rightarrow> if loaded = None then public ''CONNECTION_UNAVAILABLE''
                                 else (case resolved of Inl e \<Rightarrow> e | Inr p \<Rightarrow> public ''CONNECTION_UNAVAILABLE'')), s1)))"

definition approvalCodes :: "ErrorCode list" where
  "approvalCodes = [''APPROVAL_REQUIRED'', ''APPROVAL_MISMATCH'', ''APPROVAL_UNAVAILABLE'', ''APPROVAL_CANCELLED'', ''TIMEOUT'']"

text \<open>What full access asks before a connection is opened: \<open>None\<close> to go on.\<close>

definition askApproval :: "'w cli_service \<Rightarrow> ApprovalRequest \<Rightarrow> 'w sess \<Rightarrow> gerr option \<times> 'w sess" where
  "askApproval svc req s =
     (case Approve svc of
        None \<Rightarrow> (Some (public ''APPROVAL_REQUIRED''), s)
      | Some ask \<Rightarrow>
          (case outside (ask req) s of (e, s1) \<Rightarrow>
             (case poll (conn svc) Caller s1 of
                (True, s2) \<Rightarrow> (Some (public ''TIMEOUT''), s2)
              | (False, s2) \<Rightarrow>
                  (map_option (\<lambda>e. public (if mCode (safeError e) \<in> set approvalCodes then mCode (safeError e) else ''APPROVAL_UNAVAILABLE'')) e, s2))))"

definition fullGate :: "'w cli_service \<Rightarrow> Connection \<Rightarrow> MachineQuery \<Rightarrow> bool \<Rightarrow> 'w sess \<Rightarrow> gerr option \<times> 'w sess" where
  "fullGate svc p q approved s =
     (if list_ex (\<lambda>v. case v of None \<Rightarrow> False | Some t \<Rightarrow> \<not> noNul t) (Parameters q) then (Some (public ''INVALID_INPUT''), s)
      else case AnalyzeCLIStatements (analysisCtx (conn svc) (fst s)) (SQL q) (len (Parameters q)) (ConfirmWrites p) (ConfirmDDL p) of
          Inl e \<Rightarrow>
            (case poll (conn svc) Caller s of (b, s1) \<Rightarrow>
               (Some (public (if b then ''TIMEOUT'' else if e = ErrInvalidCLIInput then ''INVALID_INPUT'' else ''UNSUPPORTED_SQL'')), s1))
        | Inr analysis \<Rightarrow>
            if \<not> approved \<and> (WritesApprovalRequired analysis \<or> DDLApprovalRequired analysis) then
              askApproval svc \<lparr>aConnection = Name p, aSQL = SQL q, aSchema = Schema q, aMaxRows = qMaxRows q,
                ParameterCount = length (Parameters q), StatementCount = length (Statements analysis),
                WritesRequired = WritesApprovalRequired analysis, DDLRequired = DDLApprovalRequired analysis\<rparr> s
            else (None, s))"

definition runFull :: "'w cli_service \<Rightarrow> MachineClient \<Rightarrow> MachineQuery \<Rightarrow> envelope \<Rightarrow> 'w sess \<Rightarrow> 'w reply" where
  "runFull svc c q env s =
     (case Execute (conn svc) c q s of ((r, queryErr), s1) \<Rightarrow>
        let env1 = env\<lparr>eExecution := Some (Execution r)\<rparr> in
        (case CloseMachine svc s1 of (closeErr, s2) \<Rightarrow>
           (case queryErr of
              Some m \<Rightarrow> ((env1, Some (PublicErr (PublicMachineError (MachineErr m)))), s2)
            | None \<Rightarrow>
                if closeErr \<noteq> None then ((env1, closeErr), s2)
                else let r' = r\<lparr>Results := map (\<lambda>i. i\<lparr>sTruncationReason := publicQueryTruncation (sTruncationReason i)\<rparr>) (Results r)\<rparr>
                in ((env1\<lparr>eData := FullData r', ResultComplete := \<not> Truncated r, eTruncated := Truncated r,
                          eReason := publicQueryTruncation (TruncationReason r)\<rparr>, None), s2))))"

text \<open>\<open>QueryReadOnly\<close> validates the query again.\<close>

definition revalidate :: "'w cli_service \<Rightarrow> string \<Rightarrow> 'w \<Rightarrow> MachineError option \<times> 'w" where
  "revalidate svc sql w = (ValidateMachineQuery (sqlDep svc) (scriptCtx svc w) sql, w)"

definition runRead :: "'w cli_service \<Rightarrow> MachineClient \<Rightarrow> Connection \<Rightarrow> MachineQuery \<Rightarrow> 'w sess \<Rightarrow> 'w reply" where
  "runRead svc c p q s =
     (case QueryReadOnly (conn svc) (revalidate svc) c q s of (r, s1) \<Rightarrow>
        (case CloseMachine svc s1 of (closeErr, s2) \<Rightarrow>
           (case r of
              Inl m \<Rightarrow> ((noEnvelope, Some (PublicErr (PublicMachineError (MachineErr m)))), s2)
            | Inr x \<Rightarrow>
                if closeErr \<noteq> None then ((noEnvelope, closeErr), s2)
                else ((noEnvelope\<lparr>eCommand := ''query'', eConnection := Name p, eData := ReadData x, ResultComplete := \<not> qTruncated x,
                        eTruncated := qTruncated x, eReason := (if qTruncated x then ''row_limit'' else '''')\<rparr>, None), s2))))"

definition fullProfile :: "Connection \<Rightarrow> bool" where
  "fullProfile p \<longleftrightarrow> EffectiveCLIAccess p = CLIAccessFull \<and> \<not> ReadOnly p"

text \<open>From the profile on.  \<open>flags\<close> are those of the command line.\<close>

definition runSelected :: "'w cli_service \<Rightarrow> flagmap \<Rightarrow> int \<Rightarrow> string \<Rightarrow> MachineError option \<Rightarrow> Connection \<Rightarrow> 'w sess \<Rightarrow> 'w reply" where
  "runSelected svc flags rows sql validationErr p s =
     (let full = fullProfile p; approved = flags ''approve'' \<noteq> None;
          env = noEnvelope\<lparr>eExecution := (if full then Some notStarted else None)\<rparr>
      in if approved \<and> flags ''confirm-connection'' \<noteq> flags ''connection'' then ((env, Some (public ''APPROVAL_MISMATCH'')), s)
         else if \<not> full \<and> validationErr \<noteq> None
         then ((env, Some (PublicErr (PublicMachineError (MachineErr (the validationErr))))), s)
         else case (case flags ''params-file'' of None \<Rightarrow> (Inr [], s) | Some path \<Rightarrow> ReadParameters svc path s) of
             (Inl e, s1) \<Rightarrow> ((env, Some e), s1)
           | (Inr ps, s1) \<Rightarrow>
               let q = \<lparr>SQL = sql, Parameters = ps, qMaxRows = rows, Schema = (case flags ''schema'' of None \<Rightarrow> [] | Some x \<Rightarrow> x)\<rparr> in
               (case (if full then fullGate svc p q approved s1 else (None, s1)) of
                  (Some e, s2) \<Rightarrow> ((env, Some e), s2)
                | (None, s2) \<Rightarrow>
                    (case openProfile svc p (if full then CLIAccessFull else CLIAccessRowRead) s2 of
                       (Inl e, s3) \<Rightarrow> ((env, Some e), s3)
                     | (Inr c, s3) \<Rightarrow>
                         if full then runFull svc c q (env\<lparr>eCommand := ''query'', eConnection := Name p\<rparr>) s3
                         else runRead svc c p q s3)))"

text \<open>
  The command with the deferred completion of its history record, which is returned when the
  dispatcher is to write it.
\<close>

definition savedQuery :: "'w cli_service \<Rightarrow> flagmap \<Rightarrow> int \<Rightarrow> 'w sess \<Rightarrow> (envelope \<times> gerr option \<times> history_event option) \<times> 'w sess" where
  "savedQuery svc flags rows s =
     (case ReadSQL svc (the (flags ''file'')) s of
        (Inl e, s1) \<Rightarrow> ((noEnvelope, Some e, None), s1)
      | (Inr sql, s1) \<Rightarrow>
          let name = the (flags ''connection''); validationErr = ValidateMachineQuery (sqlDep svc) (scriptCtx svc (fst s1)) sql in
          (case beginQueryHistory svc name sql s1 of ((attempt, found), s2) \<Rightarrow>
             (case (case selectProfile svc name validationErr found s2 of
                      (Inl e, s3) \<Rightarrow> ((noEnvelope, Some e), s3)
                    | (Inr p, s3) \<Rightarrow> runSelected svc flags rows sql validationErr p s3) of
                ((env, err), s4) \<Rightarrow>
                  (case attempt of
                     None \<Rightarrow> ((env, err, None), s4)
                   | Some ev \<Rightarrow>
                       (case poll (conn svc) Caller s4 of (b, s5) \<Rightarrow>
                          let done_ev = ev\<lparr>hOutcome := historyOutcome b err\<rparr> in
                          if deferred svc then ((env, err, Some done_ev), s5)
                          else (case finalizeHistory svc done_ev s5 of (ws, s6) \<Rightarrow>
                            ((env\<lparr>Warnings := Warnings env @ ws\<rparr>, err, None), s6)))))))"

definition queryValueFlags :: "string list" where
  "queryValueFlags = [''connection'', ''file'', ''params-file'', ''max-rows'', ''schema'', ''confirm-connection''] @ temporaryTargetFlags"

text \<open>\<open>runTemporary\<close> is the command when \<open>--temporary\<close> is given.\<close>

definition QueryCommand :: "'w cli_service \<Rightarrow> (flagmap \<Rightarrow> 'w sess \<Rightarrow> (envelope \<times> gerr option \<times> history_event option) \<times> 'w sess) \<Rightarrow>
    string list \<Rightarrow> 'w sess \<Rightarrow> (envelope \<times> gerr option \<times> history_event option) \<times> 'w sess" where
  "QueryCommand svc runTemporary args s =
     (let refuse = (\<lambda>env. ((env, Some (public ''INVALID_INPUT''), None), s)) in
      case ParseFlags args queryValueFlags [''help'', ''approve'', ''temporary'', ''allow-write''] of
        None \<Rightarrow> refuse noEnvelope
      | Some (flags, positional) \<Rightarrow>
          if positional \<noteq> [] then refuse noEnvelope
          else if flags ''help'' \<noteq> None then
            (if list_ex (\<lambda>k. flags k \<noteq> None) (queryValueFlags @ [''approve'', ''temporary'', ''allow-write'']) then refuse noEnvelope
             else ((noEnvelope\<lparr>eCommand := ''query'', eData := QueryUsage, ResultComplete := True\<rparr>, None, None), s))
          else if flags ''temporary'' \<noteq> None then runTemporary flags s
          else if strayTemporaryFlag flags then refuse noEnvelope
          else if (flags ''approve'' \<noteq> None) \<noteq> (flags ''confirm-connection'' \<noteq> None) then refuse noEnvelope
          else if flags ''connection'' = None \<or> flags ''file'' = None then refuse noEnvelope
          else if (case flags ''schema'' of None \<Rightarrow> False | Some x \<Rightarrow> maxJson < length x \<or> \<not> utf8_Valid x \<or> \<not> noNul x) then refuse noEnvelope
          else case flags ''max-rows'' of
              None \<Rightarrow> savedQuery svc flags 100 s
            | Some raw \<Rightarrow>
                (case Atoi raw of
                   None \<Rightarrow> refuse noEnvelope
                 | Some rows \<Rightarrow> if rows < 1 \<or> 1000 < rows then refuse noEnvelope else savedQuery svc flags rows s))"

end
