(* ===== verification/CliQuerySpec.thy ===== *)
theory CliQuerySpec
  imports CliQuery
begin

text \<open>
  When the SQL of a query command reaches the server: the policy of the saved connection, the check of
  the query or its approval, and the transaction around it.
\<close>

section \<open>Steps that send nothing of the user's\<close>

lemma outside_res: "outside f s = (x, s') \<Longrightarrow> snd s' = snd s"
  by (auto simp: outside_def split: prod.splits)

lemma poll_fst: "snd (snd (poll srv c s)) = snd s"
  by simp

lemma CloseMachine_res: "CloseMachine svc s = (e, s') \<Longrightarrow> snd s' = snd s"
  by (auto simp: CloseMachine_def dest: outside_res split: prod.splits)

lemma readMachineInput_res: "readMachineInput svc path s = (r, s') \<Longrightarrow> snd s' = snd s"
  by (auto simp: readMachineInput_def dest!: outside_res poll_res split: prod.splits bool.splits option.splits)

lemma ReadSQL_res: "ReadSQL svc path s = (r, s') \<Longrightarrow> snd s' = snd s"
  by (auto simp: ReadSQL_def dest!: readMachineInput_res split: prod.splits sum.splits)

lemma ReadParameters_res: "ReadParameters svc path s = (r, s') \<Longrightarrow> snd s' = snd s"
  by (auto simp: ReadParameters_def dest!: readMachineInput_res split: prod.splits sum.splits if_splits)

lemma ResolveExactProfile_Name: "ResolveExactProfile ps name = Inr p \<Longrightarrow> Name p = name \<and> p \<in> set ps"
proof -
  assume a: "ResolveExactProfile ps name = Inr p"
  then have "filter (\<lambda>p. Name p = name) ps = [p]"
    by (auto simp: ResolveExactProfile_def split: if_splits list.splits)
  then have "p \<in> set (filter (\<lambda>p. Name p = name) ps)" by simp
  then show ?thesis by simp
qed

lemma beginQueryHistory_res:
  "beginQueryHistory svc name sql s = ((a, f), s') \<Longrightarrow> snd s' = snd s \<and> (\<forall>p. f = Some p \<longrightarrow> Name p = name)"
  by (auto simp: beginQueryHistory_def dest!: outside_res ResolveExactProfile_Name split: prod.splits sum.splits option.splits if_splits)

lemma selectProfile_res:
  "selectProfile svc name v f s = (r, s') \<Longrightarrow> (\<forall>p. f = Some p \<longrightarrow> Name p = name) \<Longrightarrow>
     snd s' = snd s \<and> (\<forall>p. r = Inr p \<longrightarrow> Name p = name)"
  by (auto simp: selectProfile_def dest!: outside_res ResolveExactProfile_Name split: prod.splits sum.splits option.splits)

lemma finalizeHistory_res: "finalizeHistory svc ev s = (ws, s') \<Longrightarrow> snd s' = snd s"
  by (auto simp: finalizeHistory_def dest!: outside_res split: prod.splits if_splits)

lemma askApproval_res:
  "askApproval svc req s = (e, s') \<Longrightarrow>
     snd s' = snd s \<and> (e = None \<longrightarrow> (\<exists>ask w1 w2. Approve svc = Some ask \<and> ask req w1 = (None, w2)))"
  by (auto simp: askApproval_def outside_def dest!: poll_res split: prod.splits option.splits bool.splits)

lemma fullGate_res:
  assumes "fullGate svc p q approved s = (e, s')"
  shows "snd s' = snd s"
    "e = None \<Longrightarrow> \<exists>ctx a. AnalyzeCLIStatements ctx (SQL q) (len (Parameters q)) (ConfirmWrites p) (ConfirmDDL p) = Inr a \<and>
       (WritesApprovalRequired a \<or> DDLApprovalRequired a \<longrightarrow>
          approved \<or> (\<exists>ask req w1 w2. Approve svc = Some ask \<and> ask req w1 = (None, w2) \<and> aConnection req = Name p \<and> aSQL req = SQL q))"
proof -
  show "snd s' = snd s"
    using assms by (auto simp: fullGate_def dest!: askApproval_res poll_res split: if_splits sum.splits prod.splits)
next
  assume n: "e = None"
  obtain a where a: "AnalyzeCLIStatements (analysisCtx (conn svc) (fst s)) (SQL q) (len (Parameters q)) (ConfirmWrites p) (ConfirmDDL p) = Inr a"
    using assms n by (auto simp: fullGate_def split: if_splits sum.splits prod.splits)
  show "\<exists>ctx a. AnalyzeCLIStatements ctx (SQL q) (len (Parameters q)) (ConfirmWrites p) (ConfirmDDL p) = Inr a \<and>
       (WritesApprovalRequired a \<or> DDLApprovalRequired a \<longrightarrow>
          approved \<or> (\<exists>ask req w1 w2. Approve svc = Some ask \<and> ask req w1 = (None, w2) \<and> aConnection req = Name p \<and> aSQL req = SQL q))"
  proof (intro exI conjI, rule a, intro impI)
    assume need: "WritesApprovalRequired a \<or> DDLApprovalRequired a"
    let ?req = "\<lparr>aConnection = Name p, aSQL = SQL q, aSchema = Schema q, aMaxRows = qMaxRows q,
                ParameterCount = length (Parameters q), StatementCount = length (Statements a),
                WritesRequired = WritesApprovalRequired a, DDLRequired = DDLApprovalRequired a\<rparr>"
    have "approved \<or> askApproval svc ?req s = (None, s')"
      using assms n need a by (auto simp: fullGate_def split: if_splits)
    then show "approved \<or> (\<exists>ask req w1 w2. Approve svc = Some ask \<and> ask req w1 = (None, w2) \<and> aConnection req = Name p \<and> aSQL req = SQL q)"
      using askApproval_res [of svc ?req s None s'] by force
  qed
qed

section \<open>Opening a client\<close>

lemma execAll_sent:
  "execAll srv qs s = (e, s') \<Longrightarrow>
     \<exists>ext. snd s' = snd s @ ext \<and> list_all own ext \<and> (e = None \<longrightarrow> (\<forall>q \<in> set qs. \<exists>tag cl tx. One q tag None cl tx \<in> set ext))"
proof (induction qs arbitrary: s)
  case (Cons q qs)
  obtain tag e1 s1 where r: "send srv q s = ((tag, e1), s1)" by (metis prod.exhaust)
  note l = send_res [OF r]
  show ?case
  proof (cases e1)
    case None
    then have "execAll srv qs s1 = (e, s')" using Cons.prems r by (simp add: exec_def)
    from Cons.IH [OF this] obtain ext where ext: "snd s' = snd s1 @ ext" "list_all own ext"
      "e = None \<longrightarrow> (\<forall>q \<in> set qs. \<exists>tag cl tx. One q tag None cl tx \<in> set ext)" by blast
    then show ?thesis using l None
      by (intro exI [of _ "One q tag e1 (isClosed srv (fst s1)) (txStatus srv (fst s1)) # ext"]) (auto, blast)
  next
    case (Some y)
    then have "s' = s1" "e \<noteq> None" using Cons.prems r by (auto simp: exec_def)
    then show ?thesis using l by auto
  qed
qed simp

definition sessionReadOnly :: "event list \<Rightarrow> bool" where
  "sessionReadOnly log \<longleftrightarrow> (\<exists>tag cl tx. One ''SET default_transaction_read_only=on'' tag None cl tx \<in> set log)"

lemma OpenMachine_res:
  assumes "OpenMachine svc p opts required s = (r, s')"
  shows "\<exists>ext. snd s' = snd s @ ext \<and> list_all own ext \<and>
    (\<forall>c. r = Inr c \<longrightarrow> access c = EffectiveCLIAccess p \<and> c_readOnly c = ReadOnly p \<and> AllowsCLIAccess (EffectiveCLIAccess p) required \<and>
       (\<not> fullProfile p \<longrightarrow> sessionReadOnly ext))"
proof (cases "snd s' = snd s \<and> (\<forall>c. r \<noteq> Inr c)")
  case True
  then show ?thesis by simp
next
  case False
  let ?opts = "withDefaults opts"
  from assms False obtain s1 ms s2 where g: "AllowsCLIAccess (EffectiveCLIAccess p) required" "poll (conn svc) Caller s = (False, s1)"
    "outside (connect svc p ms) s1 = (None, s2)" and
    r: "(case client_initialize (conn svc) \<lparr>access = EffectiveCLIAccess p, c_readOnly = ReadOnly p, statementMS = ms, temporary = False\<rparr> (Role p) s2 of
          (None, s3) \<Rightarrow> (Inr \<lparr>access = EffectiveCLIAccess p, c_readOnly = ReadOnly p, statementMS = ms, temporary = False\<rparr>, s3)
        | (Some e, s3) \<Rightarrow>
            (case outside (closeClient svc) (Client_Abort (conn svc) s3) of (_, s4) \<Rightarrow>
               (case machineFailure (conn svc) Caller (Some e) ''CONNECTION_UNAVAILABLE'' s4 of (m, s5) \<Rightarrow> (Inl (MachineErr m), s5)))) = (r, s')"
    unfolding OpenMachine_def Let_def
    by (auto dest!: poll_res outside_res machineFailure_log split: if_splits prod.splits bool.splits option.splits)
  let ?c = "\<lparr>access = EffectiveCLIAccess p, c_readOnly = ReadOnly p, statementMS = ms, temporary = False\<rparr>"
  have s2: "snd s2 = snd s" using g(2,3) poll_res outside_res by metis
  obtain e s3 where i: "client_initialize (conn svc) ?c (Role p) s2 = (e, s3)" by (metis prod.exhaust)
  obtain ext where ext: "snd s3 = snd s @ ext" "list_all own ext"
    "e = None \<longrightarrow> (\<forall>q \<in> set (setupStatements (conn svc) ?c (Role p)). \<exists>tag cl tx. One q tag None cl tx \<in> set ext)"
    using execAll_sent [OF i [unfolded client_initialize_def]] s2 by auto
  show ?thesis
  proof (cases e)
    case None
    have "\<not> fullProfile p \<Longrightarrow> ''SET default_transaction_read_only=on'' \<in> set (setupStatements (conn svc) ?c (Role p))"
      by (auto simp: setupStatements_def fullProfile_def)
    then have "\<not> fullProfile p \<longrightarrow> sessionReadOnly ext" using ext(3) None unfolding sessionReadOnly_def by blast
    then show ?thesis using r i None ext g(1) by auto
  next
    case (Some y)
    have "snd s' = snd s3 @ [Abort] \<and> (\<forall>c. r \<noteq> Inr c)"
      using r i Some by (auto dest!: outside_res machineFailure_log split: prod.splits)
    then show ?thesis using ext by (intro exI [of _ "ext @ [Abort]"]) simp
  qed
qed

lemma openProfile_res:
  assumes "openProfile svc p required s = (r, s')"
  shows "\<exists>ext. snd s' = snd s @ ext \<and> list_all own ext \<and>
    (\<forall>c. r = Inr c \<longrightarrow> access c = EffectiveCLIAccess p \<and> c_readOnly c = ReadOnly p \<and> AllowsCLIAccess (EffectiveCLIAccess p) required \<and>
       (\<not> fullProfile p \<longrightarrow> sessionReadOnly ext))"
proof -
  obtain b s1 where b: "poll (conn svc) Caller s = (b, s1)" by (metis prod.exhaust)
  show ?thesis
  proof (cases "snd s' = snd s \<and> (\<forall>c. r \<noteq> Inr c)")
    case True then show ?thesis by simp
  next
    case False
    then obtain opts r1 where o: "OpenMachine svc p opts required s1 = (r1, s')" and r1: "\<forall>c. r = Inr c \<longrightarrow> r1 = Inr c"
      using assms b by (auto simp: openProfile_def Let_def dest!: poll_res split: bool.splits if_splits prod.splits sum.splits)
    from OpenMachine_res [OF o] r1 poll_res [OF b] show ?thesis by metis
  qed
qed

section \<open>Running the SQL\<close>

lemma exec_log: "exec srv q s = (e, s') \<Longrightarrow> \<exists>tag cl tx. snd s' = snd s @ [One q tag e cl tx]"
  by (auto simp: exec_def dest!: send_res split: prod.splits)

lemma quiet_exec: "exec srv q s = (e, s') \<Longrightarrow> quiet (snd s) (snd s')"
  using exec_log by (fastforce simp: quiet_def)

lemma executeFail_log: "executeFail srv e code s = (r, s') \<Longrightarrow> snd s' = snd s"
  by (auto simp: executeFail_def dest!: machineFailure_log split: prod.splits)

lemma quiet_dropRows: "dropRows (r0, s) = (r, s') \<Longrightarrow> s' = s"
  by (auto simp: dropRows_def split: prod.splits)

text \<open>The shape of the verdict: only the rollback of an open transaction is sent.\<close>

lemma settle_shape:
  "\<exists>ee r1 f g h. settleExecution srv v s =
     (case (case ee of
              Some e \<Rightarrow> (case machineFailure srv Caller (Some e) ''DATABASE_FAILURE'' s of (m, s1) \<Rightarrow> (Some m, s1))
            | None \<Rightarrow> (f, s)) of
        (err, s1) \<Rightarrow>
          if g s1 then
            (case h err of (r2, err2) \<Rightarrow>
               (case exec srv ''ROLLBACK'' s1 of
                  (None, s2) \<Rightarrow> ((r2, err2), s2)
                | (Some e, s2) \<Rightarrow> ((r2, err2), Client_Abort srv s2)))
          else ((r1, err), s1))"
  unfolding settleExecution_def Let_def by (intro exI) (rule refl)

lemma quiet_settle:
  assumes "settleExecution srv v s = (r, s')"
  shows "quiet (snd s) (snd s')"
proof -
  obtain ee r1 f g h where sh: "settleExecution srv v s =
     (case (case ee of
              Some e \<Rightarrow> (case machineFailure srv Caller (Some e) ''DATABASE_FAILURE'' s of (m, s1) \<Rightarrow> (Some m, s1))
            | None \<Rightarrow> (f, s)) of
        (err, s1) \<Rightarrow>
          if g s1 then
            (case h err of (r2, err2) \<Rightarrow>
               (case exec srv ''ROLLBACK'' s1 of
                  (None, s2) \<Rightarrow> ((r2, err2), s2)
                | (Some e, s2) \<Rightarrow> ((r2, err2), Client_Abort srv s2)))
          else ((r1, err), s1))"
    using settle_shape [of srv v s] by blast
  obtain err s1 where x: "(case ee of
      Some e \<Rightarrow> (case machineFailure srv Caller (Some e) ''DATABASE_FAILURE'' s of (m, s1) \<Rightarrow> (Some m, s1)) | None \<Rightarrow> (f, s)) = (err, s1)"
    by (metis prod.exhaust)
  then have s1: "snd s1 = snd s" by (auto dest!: machineFailure_log split: option.splits prod.splits)
  obtain r2 err2 where h: "h err = (r2, err2)" by (metis prod.exhaust)
  obtain e s2 where ex: "exec srv ''ROLLBACK'' s1 = (e, s2)" by (metis prod.exhaust)
  have "s' = s1 \<or> s' = s2 \<or> s' = Client_Abort srv s2"
    using assms unfolding sh x prod.case h ex by (auto split: if_splits option.splits)
  then show ?thesis using quiet_exec [OF ex] s1 quiet_Abort quiet_trans quiet_refl by metis
qed

lemma Execute_res:
  assumes "Execute srv c q s = (r, s')"
  shows "quiet (snd s) (snd s') \<or> access c = CLIAccessFull \<and> \<not> c_readOnly c \<and>
    (\<exists>before after. snd s' = snd s @ before @ scriptEvent (SQL q) (Parameters q) # after \<and> list_all own before \<and> list_all own after)"
proof (cases "quiet (snd s) (snd s')")
  case False
  define q' where "q' = (if qMaxRows q = 0 then q\<lparr>qMaxRows := 100\<rparr> else q)"
  have same: "SQL q' = SQL q" "Parameters q' = Parameters q" by (simp_all add: q'_def)
  from assms False obtain a where g: "access c = CLIAccessFull" "\<not> c_readOnly c"
    "AnalyzeCLIStatements (analysisCtx srv (fst s)) (SQL q) (len (Parameters q)) False False = Inr a" "boundedRequest q'"
    unfolding Execute_def Let_def q'_def [symmetric]
    by (auto simp: quiet_refl dest!: executeFail_log split: if_splits sum.splits)
  obtain e s1 where x: "execAll srv (executeSetup srv q') s = (e, s1)" by (metis prod.exhaust)
  note q1 = quiet_execAll [OF x]
  obtain b s2 where b: "poll srv Caller s1 = (b, s2)" by (metis prod.exhaust)
  have e: "e = None"
  proof (rule ccontr)
    assume "e \<noteq> None"
    then have "snd s' = snd s1" using assms g x unfolding Execute_def Let_def q'_def [symmetric] by (auto dest!: executeFail_log)
    then show False using q1 False by simp
  qed
  have "\<not> b"
  proof
    assume b
    then have "snd s' = snd s1" using assms g x e b poll_res [OF b]
      unfolding Execute_def Let_def q'_def [symmetric] by auto
    then show False using q1 False by simp
  qed
  obtain sets te s3 where r3: "runScript srv (SQL q') (Parameters q') s2 = ((sets, te), s3)" by (metis prod.exhaust)
  obtain v where "dropRows (settleExecution srv v s3) = (r, s')"
    using assms g x e \<open>\<not> b\<close> b r3 unfolding Execute_def Let_def q'_def [symmetric] by auto
  then obtain r0 s4 where s4: "settleExecution srv v s3 = (r0, s4)" "s' = s4"
    using quiet_dropRows by (metis prod.exhaust)
  have "snd s3 = snd s2 @ [scriptEvent (SQL q) (Parameters q)]"
    using r3 same by (auto simp: runScript_def scriptEvent_def split: prod.splits if_splits)
  moreover obtain b1 where "snd s2 = snd s @ b1" "list_all own b1" using q1 poll_res [OF b] by (auto simp: quiet_def)
  moreover obtain b2 where "snd s' = snd s3 @ b2" "list_all own b2" using quiet_settle [OF s4(1)] s4(2) by (auto simp: quiet_def)
  ultimately show ?thesis using g(1,2) by (intro disjI2 conjI exI [of _ b1] exI [of _ b2]) simp_all
qed simp

lemma queryOperation_res:
  assumes "queryOperation srv q s = (r, s')"
  shows "\<exists>aborts. snd s' = snd s @ WithParams (SQL q) (Parameters q) # aborts \<and> list_all own aborts"
  using assms by (auto simp: queryOperation_def Let_def split: prod.splits option.splits)

lemma endReadOnly_res:
  assumes "endReadOnly srv (x, s) = (r, s')"
  shows "\<exists>after. snd s' = snd s @ after \<and> list_all own after \<and> (\<exists>tag e cl tx. One ''ROLLBACK'' tag e cl tx \<in> set after)"
proof -
  obtain e s1 where ex: "exec srv ''ROLLBACK'' s = (e, s1)" by (metis prod.exhaust)
  obtain tag cl tx where l: "snd s1 = snd s @ [One ''ROLLBACK'' tag e cl tx]" using exec_log [OF ex] by blast
  have "snd s' = snd s1 \<or> snd s' = snd s1 @ [Abort]"
    using assms ex by (auto simp: endReadOnly_def Let_def failWith_def dest!: machineFailure_log split: option.splits sum.splits prod.splits)
  then show ?thesis using l by (auto intro: exI)
qed

lemma withReadOnly_res:
  fixes r :: "MachineError + 'x"
  assumes "withReadOnly srv c False schema operation s = (r, s')"
    and op: "\<And>s1 x s2. operation s1 = (x, s2) \<Longrightarrow> \<exists>aborts. snd s2 = snd s1 @ ev # aborts \<and> list_all own aborts"
  shows "quiet (snd s) (snd s') \<or>
    (\<exists>before after. snd s' = snd s @ before @ ev # after \<and> list_all own before \<and> list_all own after \<and>
       (\<exists>tag cl tx. One ''BEGIN READ ONLY'' tag None cl tx \<in> set before) \<and> (\<exists>tag e cl tx. One ''ROLLBACK'' tag e cl tx \<in> set after))"
proof -
  obtain e s1 where b: "exec srv ''BEGIN READ ONLY'' s = (e, s1)" by (metis prod.exhaust)
  obtain tag cl tx where lb: "snd s1 = snd s @ [One ''BEGIN READ ONLY'' tag e cl tx]" using exec_log [OF b] by blast
  show ?thesis
  proof (cases e)
    case (Some y)
    then have "snd s' = snd s1" using assms(1) b by (auto simp: withReadOnly_def failWith_def dest!: machineFailure_log split: prod.splits)
    then show ?thesis using quiet_exec [OF b] by simp
  next
    case None
    let ?qs = "[''SET LOCAL statement_timeout='' @ Itoa (statementMS c), ''SET LOCAL lock_timeout=1000''] @
               (if schema \<noteq> '''' then [''SET LOCAL search_path TO '' @ Sanitize srv schema] else [])"
    obtain e2 s2 where x: "execAll srv ?qs s1 = (e2, s2)" by (metis prod.exhaust)
    obtain b2 where b2: "snd s2 = snd s1 @ b2" "list_all own b2" using quiet_execAll [OF x] by (auto simp: quiet_def)
    obtain y s3 where e3: "endReadOnly srv (y, s3) = (r, s')" and
      s3: "snd s3 = snd s2 \<or> (\<exists>aborts. snd s3 = snd s2 @ ev # aborts \<and> list_all own aborts)"
    proof (cases e2)
      case (Some z)
      obtain y :: "MachineError + 'x" and s3 where f: "failWith srv Caller (Some z) ''DATABASE_FAILURE'' s2 = (y, s3)" by (metis prod.exhaust)
      then have "snd s3 = snd s2" by (auto simp: failWith_def dest!: machineFailure_log split: prod.splits)
      moreover have "endReadOnly srv (y, s3) = (r, s')" using assms(1) b None x Some f by (simp add: withReadOnly_def)
      ultimately show ?thesis using that by blast
    next
      case e2: None
      obtain o1 s4 where o: "operation s2 = (o1, s4)" by (metis prod.exhaust)
      obtain y :: "MachineError + 'x" and s3 where y: "(case o1 of Inl e \<Rightarrow> failWith srv Caller (Some e) ''DATABASE_FAILURE'' s4 | Inr v \<Rightarrow> (Inr v, s4)) = (y, s3)"
        by (metis prod.exhaust)
      then have "snd s3 = snd s4" by (auto simp: failWith_def dest!: machineFailure_log split: prod.splits sum.splits)
      moreover have "endReadOnly srv (y, s3) = (r, s')"
        using assms(1) b None x e2 o y by (cases o1) (simp_all add: withReadOnly_def)
      ultimately show ?thesis using op [OF o] that by metis
    qed
    obtain after where a: "snd s' = snd s3 @ after" "list_all own after" "\<exists>tag e cl tx. One ''ROLLBACK'' tag e cl tx \<in> set after"
      using endReadOnly_res [OF e3] by blast
    from s3 show ?thesis
    proof
      assume "snd s3 = snd s2"
      then show ?thesis using a b2 lb by (simp add: quiet_def)
    next
      assume "\<exists>aborts. snd s3 = snd s2 @ ev # aborts \<and> list_all own aborts"
      then obtain ab where ab: "snd s3 = snd s2 @ ev # ab" "list_all own ab" by blast
      let ?before = "One ''BEGIN READ ONLY'' tag e cl tx # b2"
      have "snd s' = snd s @ ?before @ ev # (ab @ after)" using a ab b2 lb by simp
      moreover have "list_all own ?before" "list_all own (ab @ after)" using a b2 ab by auto
      moreover have "\<exists>tag cl tx. One ''BEGIN READ ONLY'' tag None cl tx \<in> set ?before" using None by auto
      moreover have "\<exists>tag e cl tx. One ''ROLLBACK'' tag e cl tx \<in> set (ab @ after)" using a(3) by auto
      ultimately show ?thesis by blast
    qed
  qed
qed

lemma QueryReadOnly_res:
  assumes "QueryReadOnly srv validate c q s = (r, s')"
  shows "quiet (snd s) (snd s') \<or> AllowsCLIAccess (access c) CLIAccessRowRead \<and> fst (validate (SQL q) (fst s)) = None \<and>
    (\<exists>before after. snd s' = snd s @ before @ WithParams (SQL q) (Parameters q) # after \<and> list_all own before \<and> list_all own after \<and>
       (\<exists>tag cl tx. One ''BEGIN READ ONLY'' tag None cl tx \<in> set before) \<and> (\<exists>tag e cl tx. One ''ROLLBACK'' tag e cl tx \<in> set after))"
proof (cases "snd s' = snd s")
  case False
  define q' where "q' = (if qMaxRows q = 0 then q\<lparr>qMaxRows := 100\<rparr> else q)"
  have same: "SQL q' = SQL q" "Parameters q' = Parameters q" by (simp_all add: q'_def)
  obtain e w where v: "validate (SQL q) (fst s) = (e, w)" by (metis prod.exhaust)
  have g: "AllowsCLIAccess (access c) CLIAccessRowRead" "e = None" "withReadOnly srv c False (Schema q') (queryOperation srv q') (w, snd s) = (r, s')"
    using assms False v unfolding QueryReadOnly_def Let_def q'_def [symmetric] by (auto split: if_splits option.splits)
  have "quiet (snd (w, snd s)) (snd s') \<or>
    (\<exists>before after. snd s' = snd (w, snd s) @ before @ WithParams (SQL q) (Parameters q) # after \<and> list_all own before \<and> list_all own after \<and>
       (\<exists>tag cl tx. One ''BEGIN READ ONLY'' tag None cl tx \<in> set before) \<and> (\<exists>tag e cl tx. One ''ROLLBACK'' tag e cl tx \<in> set after))"
    using queryOperation_res [of srv q'] same by (intro withReadOnly_res [OF g(3)]) simp
  then show ?thesis using g(1,2) v by simp
qed (simp add: quiet_refl)

section \<open>The leave that the command needs\<close>

text \<open>
  The user's text was sent once, between statements of the program's own: in full, or inside a
  read-only transaction of a read-only session that was rolled back.
\<close>

definition sentFull :: "event list \<Rightarrow> string \<Rightarrow> params \<Rightarrow> bool" where
  "sentFull log sql ps \<longleftrightarrow>
     (\<exists>before after. log = before @ scriptEvent sql ps # after \<and> list_all own before \<and> list_all own after)"

definition sentReadOnly :: "event list \<Rightarrow> string \<Rightarrow> params \<Rightarrow> bool" where
  "sentReadOnly log sql ps \<longleftrightarrow>
     (\<exists>before after. log = before @ WithParams sql ps # after \<and> list_all own before \<and> list_all own after \<and>
        sessionReadOnly before \<and> (\<exists>tag cl tx. One ''BEGIN READ ONLY'' tag None cl tx \<in> set before) \<and>
        (\<exists>tag e cl tx. One ''ROLLBACK'' tag e cl tx \<in> set after))"

text \<open>Approved for this invocation: by the flags with the exact name, or by the one who was asked about this SQL.\<close>

definition approvedHere :: "'w cli_service \<Rightarrow> flagmap \<Rightarrow> Connection \<Rightarrow> string \<Rightarrow> bool" where
  "approvedHere svc flags p sql \<longleftrightarrow>
     flags ''approve'' \<noteq> None \<and> flags ''confirm-connection'' = Some (Name p) \<or>
     (\<exists>ask req w1 w2. Approve svc = Some ask \<and> ask req w1 = (None, w2) \<and> aConnection req = Name p \<and> aSQL req = sql)"

definition mayRunFull :: "'w cli_service \<Rightarrow> flagmap \<Rightarrow> Connection \<Rightarrow> string \<Rightarrow> params \<Rightarrow> bool" where
  "mayRunFull svc flags p sql ps \<longleftrightarrow>
     EffectiveCLIAccess p = CLIAccessFull \<and> \<not> ReadOnly p \<and>
     (\<exists>ctx a. AnalyzeCLIStatements ctx sql (len ps) (ConfirmWrites p) (ConfirmDDL p) = Inr a \<and>
        (WritesApprovalRequired a \<or> DDLApprovalRequired a \<longrightarrow> approvedHere svc flags p sql))"

definition mayRead :: "'w cli_service \<Rightarrow> Connection \<Rightarrow> string \<Rightarrow> bool" where
  "mayRead svc p sql \<longleftrightarrow>
     AllowsCLIAccess (EffectiveCLIAccess p) CLIAccessRowRead \<and> (\<exists>asked. ValidateMachineQuery (sqlDep svc) asked sql = None)"

definition leave :: "'w cli_service \<Rightarrow> flagmap \<Rightarrow> Connection \<Rightarrow> string \<Rightarrow> event list \<Rightarrow> bool" where
  "leave svc flags p sql log \<longleftrightarrow>
     list_all own log \<or>
     (\<exists>ps. fullProfile p \<and> mayRunFull svc flags p sql ps \<and> sentFull log sql ps) \<or>
     (\<exists>ps. \<not> fullProfile p \<and> mayRead svc p sql \<and> sentReadOnly log sql ps)"

lemma runFull_res:
  assumes "runFull svc c q env s = (r, s')"
  shows "\<exists>ext. snd s' = snd s @ ext \<and> (list_all own ext \<or> sentFull ext (SQL q) (Parameters q))"
proof -
  obtain x e s1 where x: "Execute (conn svc) c q s = ((x, e), s1)" by (metis prod.exhaust)
  obtain ce s2 where ce: "CloseMachine svc s1 = (ce, s2)" by (metis prod.exhaust)
  have "s' = s2" using assms x ce by (auto simp: runFull_def Let_def split: option.splits if_splits)
  then have "snd s' = snd s1" using CloseMachine_res [OF ce] by simp
  then show ?thesis using Execute_res [OF x] by (auto simp: quiet_def sentFull_def)
qed

lemma sentReadOnly_before:
  assumes "list_all own ext" "sessionReadOnly ext" "log = before @ WithParams sql ps # after" "list_all own before" "list_all own after"
    "\<exists>tag cl tx. One ''BEGIN READ ONLY'' tag None cl tx \<in> set before" "\<exists>tag e cl tx. One ''ROLLBACK'' tag e cl tx \<in> set after"
  shows "sentReadOnly (ext @ log) sql ps"
proof -
  have "ext @ log = (ext @ before) @ WithParams sql ps # after" using assms(3) by simp
  moreover have "sessionReadOnly (ext @ before)" using assms(2) by (auto simp: sessionReadOnly_def)
  moreover have "\<exists>tag cl tx. One ''BEGIN READ ONLY'' tag None cl tx \<in> set (ext @ before)" using assms(6) by auto
  ultimately show ?thesis using assms(1,4,5,7) unfolding sentReadOnly_def by (metis list_all_append)
qed

lemma runRead_res:
  assumes "runRead svc c p q s = (r, s')"
  shows "\<exists>ext. snd s' = snd s @ ext \<and> (list_all own ext \<or>
    (\<exists>asked. ValidateMachineQuery (sqlDep svc) asked (SQL q) = None) \<and>
    (\<exists>before after. ext = before @ WithParams (SQL q) (Parameters q) # after \<and> list_all own before \<and> list_all own after \<and>
       (\<exists>tag cl tx. One ''BEGIN READ ONLY'' tag None cl tx \<in> set before) \<and> (\<exists>tag e cl tx. One ''ROLLBACK'' tag e cl tx \<in> set after)))"
proof -
  obtain x s1 where x: "QueryReadOnly (conn svc) (revalidate svc) c q s = (x, s1)" by (metis prod.exhaust)
  obtain ce s2 where ce: "CloseMachine svc s1 = (ce, s2)" by (metis prod.exhaust)
  have "s' = s2" using assms x ce by (auto simp: runRead_def split: sum.splits if_splits)
  then have l: "snd s' = snd s1" using CloseMachine_res [OF ce] by simp
  from QueryReadOnly_res [OF x] show ?thesis
  proof
    assume "quiet (snd s) (snd s1)"
    then show ?thesis using l by (auto simp: quiet_def)
  next
    assume a: "AllowsCLIAccess (access c) CLIAccessRowRead \<and> fst (revalidate svc (SQL q) (fst s)) = None \<and>
      (\<exists>before after. snd s1 = snd s @ before @ WithParams (SQL q) (Parameters q) # after \<and> list_all own before \<and> list_all own after \<and>
       (\<exists>tag cl tx. One ''BEGIN READ ONLY'' tag None cl tx \<in> set before) \<and> (\<exists>tag e cl tx. One ''ROLLBACK'' tag e cl tx \<in> set after))"
    then have "\<exists>asked. ValidateMachineQuery (sqlDep svc) asked (SQL q) = None" by (auto simp: revalidate_def)
    then show ?thesis using a l by metis
  qed
qed

lemma runSelected_res:
  assumes "runSelected svc flags rows sql v p s = (r, s')" and name: "flags ''connection'' = Some (Name p)"
  shows "\<exists>ext. snd s' = snd s @ ext \<and> leave svc flags p sql ext"
proof (cases "snd s' = snd s")
  case True
  then show ?thesis by (simp add: leave_def)
next
  case False
  define full where "full = fullProfile p"
  define approved where "approved = (flags ''approve'' \<noteq> None)"
  obtain pr s1 where ps: "(case flags ''params-file'' of None \<Rightarrow> (Inr [], s) | Some path \<Rightarrow> ReadParameters svc path s) = (pr, s1)"
    by (metis prod.exhaust)
  then have s1: "snd s1 = snd s" by (auto dest: ReadParameters_res split: option.splits)
  have conf: "approved \<longrightarrow> flags ''confirm-connection'' = flags ''connection''" and
    val: "full \<or> v = None" and ok: "\<exists>x. pr = Inr x"
    using assms(1) False ps s1 unfolding runSelected_def Let_def full_def [symmetric] approved_def [symmetric]
    by (auto split: if_splits sum.splits)
  obtain params where pr: "pr = Inr params" using ok by blast
  define q where "q = \<lparr>SQL = sql, Parameters = params, qMaxRows = rows, Schema = (case flags ''schema'' of None \<Rightarrow> [] | Some x \<Rightarrow> x)\<rparr>"
  have sq: "SQL q = sql" "Parameters q = params" by (simp_all add: q_def)
  obtain ge s2 where g: "(if full then fullGate svc p q approved s1 else (None, s1)) = (ge, s2)" by (metis prod.exhaust)
  then have s2: "snd s2 = snd s" using s1 by (auto split: if_splits dest: fullGate_res(1))
  have cond: "\<not> (approved \<and> flags ''confirm-connection'' \<noteq> flags ''connection'')" "\<not> (\<not> full \<and> v \<noteq> None)"
    using conf val by auto
  note body = assms(1) [unfolded runSelected_def Let_def, folded full_def approved_def, unfolded ps pr sum.case prod.case, folded q_def,
      unfolded g prod.case]
  have ge: "ge = None" using body cond s2 False by (auto split: option.splits)
  obtain oc s3 where o: "openProfile svc p (if full then CLIAccessFull else CLIAccessRowRead) s2 = (oc, s3)" by (metis prod.exhaust)
  obtain ext where ext: "snd s3 = snd s @ ext" "list_all own ext"
    "\<forall>c. oc = Inr c \<longrightarrow> AllowsCLIAccess (EffectiveCLIAccess p) (if full then CLIAccessFull else CLIAccessRowRead) \<and> (\<not> full \<longrightarrow> sessionReadOnly ext)"
    using openProfile_res [OF o] s2 full_def by auto
  show ?thesis
  proof (cases oc)
    case (Inl e)
    then have "s' = s3" using body cond ge o by auto
    then show ?thesis using ext by (auto simp: leave_def)
  next
    case (Inr c)
    show ?thesis
    proof (cases full)
      case True
      then have run: "runFull svc c q (noEnvelope\<lparr>eExecution := Some notStarted, eCommand := ''query'', eConnection := Name p\<rparr>) s3 = (r, s')"
        using body cond ge o Inr by auto
      obtain e2 where e2: "snd s' = snd s3 @ e2" "list_all own e2 \<or> sentFull e2 sql params" using runFull_res [OF run] sq by auto
      have "list_all own (ext @ e2) \<or> sentFull (ext @ e2) sql params"
        using e2(2) ext(2) unfolding sentFull_def by (metis append_assoc list_all_append)
      moreover have "mayRunFull svc flags p sql params"
      proof -
        have "fullGate svc p q approved s1 = (None, s2)" using g ge True by simp
        from fullGate_res(2) [OF this refl] sq conf name True show ?thesis
          unfolding mayRunFull_def approvedHere_def full_def fullProfile_def approved_def by metis
      qed
      ultimately show ?thesis using e2(1) ext(1) True unfolding leave_def full_def by auto
    next
      case nofull: False
      then have run: "runRead svc c p q s3 = (r, s')" using body cond ge o Inr by auto
      obtain e2 where e2: "snd s' = snd s3 @ e2" and c: "list_all own e2 \<or>
        (\<exists>asked. ValidateMachineQuery (sqlDep svc) asked sql = None) \<and>
        (\<exists>before after. e2 = before @ WithParams sql params # after \<and> list_all own before \<and> list_all own after \<and>
           (\<exists>tag cl tx. One ''BEGIN READ ONLY'' tag None cl tx \<in> set before) \<and> (\<exists>tag e cl tx. One ''ROLLBACK'' tag e cl tx \<in> set after))"
        using runRead_res [OF run, unfolded sq] by (elim exE conjE) (rule that)
      have ro: "sessionReadOnly ext" "AllowsCLIAccess (EffectiveCLIAccess p) CLIAccessRowRead" using ext(3) Inr nofull by auto
      from c have "leave svc flags p sql (ext @ e2)"
      proof
        assume "list_all own e2"
        then show ?thesis using ext(2) by (simp add: leave_def)
      next
        assume a: "(\<exists>asked. ValidateMachineQuery (sqlDep svc) asked sql = None) \<and>
          (\<exists>before after. e2 = before @ WithParams sql params # after \<and> list_all own before \<and> list_all own after \<and>
           (\<exists>tag cl tx. One ''BEGIN READ ONLY'' tag None cl tx \<in> set before) \<and> (\<exists>tag e cl tx. One ''ROLLBACK'' tag e cl tx \<in> set after))"
        then have "sentReadOnly (ext @ e2) sql params" using sentReadOnly_before [OF ext(2) ro(1)] by blast
        then show ?thesis using a ro(2) nofull unfolding leave_def mayRead_def full_def by blast
      qed
      then show ?thesis using e2 ext(1) by auto
    qed
  qed
qed

lemma savedQuery_res:
  assumes "savedQuery svc flags rows s = (r, s')" "flags ''connection'' \<noteq> None"
  shows "\<exists>ext. snd s' = snd s @ ext \<and> (list_all own ext \<or> (\<exists>p sql. flags ''connection'' = Some (Name p) \<and> leave svc flags p sql ext))"
proof -
  obtain rd s1 where rd: "ReadSQL svc (the (flags ''file'')) s = (rd, s1)" by (metis prod.exhaust)
  note s1 = ReadSQL_res [OF rd]
  show ?thesis
  proof (cases rd)
    case (Inl e)
    then have "s' = s1" using assms(1) rd by (simp add: savedQuery_def)
    then show ?thesis using s1 by simp
  next
    case (Inr sql)
    define name where "name = the (flags ''connection'')"
    define v where "v = ValidateMachineQuery (sqlDep svc) (scriptCtx svc (fst s1)) sql"
    obtain att fnd s2 where h: "beginQueryHistory svc name sql s1 = ((att, fnd), s2)" by (metis prod.exhaust)
    note s2 = beginQueryHistory_res [OF h]
    obtain sel s3 where sel: "selectProfile svc name v fnd s2 = (sel, s3)" by (metis prod.exhaust)
    from selectProfile_res [OF sel] s2 have s3: "snd s3 = snd s2" "\<forall>p. sel = Inr p \<longrightarrow> Name p = name" by auto
    obtain env err s4 where run: "(case sel of Inl e \<Rightarrow> ((noEnvelope, Some e), s3) | Inr p \<Rightarrow> runSelected svc flags rows sql v p s3) = ((env, err), s4)"
      by (metis prod.exhaust)
    note body = assms(1) [unfolded savedQuery_def rd prod.case Inr sum.case Let_def, folded name_def, folded v_def,
        unfolded h prod.case sel run]
    have "snd s' = snd s4"
      using body by (auto simp: Let_def dest!: poll_res finalizeHistory_res split: option.splits prod.splits if_splits)
    moreover have "\<exists>ext. snd s4 = snd s @ ext \<and> (list_all own ext \<or> (\<exists>p sql. flags ''connection'' = Some (Name p) \<and> leave svc flags p sql ext))"
    proof (cases sel)
      case (Inl e)
      then show ?thesis using run s1 s2 s3 by auto
    next
      case (Inr p)
      have "flags ''connection'' = Some (Name p)" using s3(2) Inr assms(2) by (auto simp: name_def)
      moreover have "runSelected svc flags rows sql v p s3 = ((env, err), s4)" using run Inr by simp
      ultimately show ?thesis using runSelected_res s1 s2 s3(1) by metis
    qed
    ultimately show ?thesis by simp
  qed
qed


definition sample_profile :: Connection where
  "sample_profile = \<lparr>Name = ''db'', Driver = ''postgres'', DSN = [], Host = ''h'', Port = 0, User = [], Database = [], SSLMode = [],
     CLIAccess = CLIAccessRowRead, ReadOnly = False, CLIHistory = False, ConfirmWrites = True, ConfirmDDL = True, StatementTimeout = [], Role = []\<rparr>"

definition sample_service :: "char cli_service" where
  "sample_service = \<lparr>conn = sample_server, loadProfiles = (\<lambda>w. (Some [sample_profile], w)), historyLookup = None, historyLate = (\<lambda>w. False),
     appendHistory = (\<lambda>ev w. (None, w)), deferred = False, openInput = (\<lambda>path w. (None, w)), readInput = (\<lambda>path w. (Some ''values'', w)),
     decodeJSON = (\<lambda>s. None), Approve = None, connect = (\<lambda>p ms w. (None, w)), closeClient = (\<lambda>w. (None, w)), scriptCtx = (\<lambda>w k. False),
     sqlDep = sample_dependency, machineOptions = \<lparr>ConnectTimeout = 0, CleanupTimeout = 0, QueryTimeout = 0\<rparr>,
     cleanupBudget = 1000000000, statementTimeoutKey = None\<rparr>"

definition sample_args :: "string list" where
  "sample_args = [''--connection=db'', ''--file'', ''q.sql'']"

lemma sample_flags:
  "\<exists>flags. ParseFlags sample_args queryValueFlags [''help'', ''approve'', ''temporary'', ''allow-write''] = Some (flags, []) \<and>
     flags = (\<lambda>_. None)(''connection'' \<mapsto> ''db'', ''file'' \<mapsto> ''q.sql'')"
  by (simp add: ParseFlags_def sample_args_def allowedFlags_def queryValueFlags_def temporaryTargetFlags_def prefixOf_def cutAt_def)

lemma sample_query_ok: "ValidateMachineQuery sample_dependency (\<lambda>_. False) ''values'' = None"
proof -
  have "utf8_Valid ''values''" by code_simp
  moreover have "TrimBytes ''values'' = ''values''" by (intro TrimBytes_plain) (simp add: plainByte_def byte_def unicode_IsSpace_def)
  moreover have "checkMachineAST (\<lambda>k. False) (RRef (Select 0) (RStruct OtherNode [(True, RRef ValuesClause (RStruct OtherNode []))])) = Accepted"
    by code_simp
  ultimately show ?thesis by (simp add: ValidateMachineQuery_def sample_dependency_def verdictError_def)
qed

lemma sample_open:
  "\<exists>c l. openProfile sample_service sample_profile CLIAccessRowRead (CHR ''I'', []) = (Inr c, (CHR ''I'', l)) \<and> access c = CLIAccessRowRead"
proof -
  have t: "timeoutMillis [] = None" by (simp add: timeoutMillis_def)
  have ms: "MachineStatementMilliseconds [] 10000 = Some 10000"
    by (simp add: MachineStatementMilliseconds_def CanonicalizeStatementTimeout_def statementTimeoutRe_def)
  show ?thesis
    by (simp add: openProfile_def OpenMachine_def sample_service_def sample_profile_def sample_server_def EffectiveCLIAccess_def AllowsCLIAccess_def
        poll_def Let_def withDefaults_def timeoutsOk_def ms outside_def client_initialize_def setupStatements_def execAll.simps exec_def send_def
        quoted_ident_def)
qed

lemma sample_read:
  assumes "access c = CLIAccessRowRead"
  shows "\<exists>r l'. runRead sample_service c sample_profile \<lparr>SQL = ''values'', Parameters = [], qMaxRows = 100, Schema = []\<rparr> (CHR ''I'', l) =
    (r, (CHR ''I'', l')) \<and> WithParams ''values'' [] \<in> set l'"
  using assms sample_query_ok
  by (simp add: runRead_def QueryReadOnly_def revalidate_def sample_service_def sample_server_def AllowsCLIAccess_def Let_def utf8_Valid.simps
      withReadOnly_def exec_def send_def execAll.simps queryOperation_def noRows_def endReadOnly_def CloseMachine_def outside_def)


end
