(* ===== verification/RowUpdate.thy ===== *)
theory RowUpdate
  imports PendingEdits ByteText
begin

text \<open>
  The SQL of staged edits (\<open>pkg/gui/controllers/helpers/commit_sql_builder.go\<close>) with the quoting of
  identifiers and literals it uses (\<open>pkg/drivers/pg/identifier.go\<close>, \<open>encoder.go\<close>): one UPDATE per
  original row, in parameterised form for execution and with inlined literals for the preview.

  SQL is built as the code builds it, a text that grows together with its list of arguments.  The
  formatting of floats, times and other values by \<open>strconv\<close>, \<open>time\<close> and \<open>fmt\<close> is a parameter.
\<close>

section \<open>Quoting\<close>

definition doubled :: "char set \<Rightarrow> string \<Rightarrow> string" where
  "doubled cs s = concat (map (\<lambda>c. if c \<in> cs then [c, c] else [c]) s)"

definition QuoteIdent :: "string \<Rightarrow> string" where
  "QuoteIdent s = CHR 0x22 # doubled {CHR 0x22} s @ [CHR 0x22]"

definition QuoteQualified :: "string \<Rightarrow> string \<Rightarrow> string" where
  "QuoteQualified schema name =
     (if schema = '''' then QuoteIdent name else QuoteIdent schema @ ''.'' @ QuoteIdent name)"

definition encodeEString :: "string \<Rightarrow> string" where
  "encodeEString s = ''E'' @ CHR 0x27 # doubled {CHR 0x27, CHR 0x5C} s @ [CHR 0x27]"

record encoders =
  formatFloat :: "64 word \<Rightarrow> string"
  formatTime :: "gval \<Rightarrow> string"
  sprintValue :: "gval \<Rightarrow> string"

definition isInf :: "64 word \<Rightarrow> bool" where
  "isInf w \<longleftrightarrow> unat (drop_bit 52 w) mod 2048 = 2047 \<and> take_bit 52 w = 0"

definition sqlQuoted :: "string \<Rightarrow> string \<Rightarrow> string" where
  "sqlQuoted s cast = CHR 0x27 # s @ [CHR 0x27] @ cast"

definition encodeFloat :: "encoders \<Rightarrow> 64 word \<Rightarrow> string" where
  "encodeFloat enc f =
     (if isNaN f then sqlQuoted ''NaN'' ''::float8''
      else if isInf f \<and> \<not> bit f 63 then sqlQuoted ''Infinity'' ''::float8''
      else if isInf f then sqlQuoted ''-Infinity'' ''::float8''
      else formatFloat enc f)"

definition hexDigit :: "nat \<Rightarrow> char" where
  "hexDigit n = char_of (if n < 10 then 48 + n else 87 + n)"

definition hexOf :: "string \<Rightarrow> string" where
  "hexOf s = concat (map (\<lambda>c. [hexDigit (byte c div 16), hexDigit (byte c mod 16)]) s)"

definition byteOf :: "gval \<Rightarrow> char" where
  "byteOf v = (case v of ScalarV _ (IntS n) \<Rightarrow> char_of (nat n) | _ \<Rightarrow> char_of (0 :: nat))"

definition bytesOf :: "gval list option \<Rightarrow> string" where
  "bytesOf vs = (case vs of None \<Rightarrow> '''' | Some vs \<Rightarrow> map byteOf vs)"

definition intTypes :: "gotype list" where
  "intTypes = [''int'', ''int8'', ''int16'', ''int32'', ''int64'', ''uint'', ''uint8'', ''uint16'', ''uint32'', ''uint64'']"

text \<open>The slice types the encoder unpacks: \<open>[]any\<close> and the ones of the second switch.\<close>

definition arrayTypes :: "gotype list" where
  "arrayTypes = [''[]interface {}'', ''[]bool'', ''[]int'', ''[]int32'', ''[]int64'', ''[]float64'', ''[]string'']"

definition jsonCast :: "nat \<Rightarrow> string" where
  "jsonCast oid = (if oid = 3802 then ''::jsonb'' else if oid = 114 then ''::json'' else '''')"

fun commaJoin :: "string list \<Rightarrow> string" where
  "commaJoin [] = ''''"
| "commaJoin [x] = x"
| "commaJoin (x # y # xs) = x @ '', '' @ commaJoin (y # xs)"

text \<open>
  An element of \<open>[]any\<close> is an interface to reflection and its content to the encoder.  A type that
  is only named like a basic one is not that type and is printed.
\<close>

fun EncodeLiteral :: "encoders \<Rightarrow> nat \<Rightarrow> gval \<Rightarrow> string" where
  "EncodeLiteral enc oid NilV = ''NULL''"
| "EncodeLiteral enc oid (InterfaceV t None) = ''NULL''"
| "EncodeLiteral enc oid (InterfaceV t (Some v)) = EncodeLiteral enc oid v"
| "EncodeLiteral enc oid (ScalarV t s) =
     (case s of
        StrS x \<Rightarrow> if t = ''string'' then encodeEString x @ jsonCast oid else encodeEString (sprintValue enc (ScalarV t s))
      | BoolS b \<Rightarrow> if t = ''bool'' then (if b then ''TRUE'' else ''FALSE'') else encodeEString (sprintValue enc (ScalarV t s))
      | IntS n \<Rightarrow> if t \<in> set intTypes then Itoa n else encodeEString (sprintValue enc (ScalarV t s)))"
| "EncodeLiteral enc oid (FloatV t w) =
     (if t = ''float32'' \<or> t = ''float64'' then encodeFloat enc w else encodeEString (sprintValue enc (FloatV t w)))"
| "EncodeLiteral enc oid (SliceV t vs) =
     (if t = ''json.RawMessage'' then encodeEString (bytesOf vs) @ jsonCast oid
      else if t = ''[]uint8'' \<and> jsonCast oid \<noteq> '''' then encodeEString (bytesOf vs) @ jsonCast oid
      else if t = ''[]uint8'' then ''E'' @ CHR 0x27 # [CHR 0x5C, CHR 0x5C] @ ''x'' @ hexOf (bytesOf vs) @ CHR 0x27 # ''::bytea''
      else if t \<in> set arrayTypes then
        ''ARRAY['' @ commaJoin (case vs of None \<Rightarrow> [] | Some vs \<Rightarrow> map (EncodeLiteral enc oid) vs) @ '']''
      else encodeEString (sprintValue enc (SliceV t vs)))"
| "EncodeLiteral enc oid (StructV t fs) =
     (if t = ''time.Time'' then sqlQuoted (formatTime enc (StructV t fs)) ''::timestamptz''
      else encodeEString (sprintValue enc (StructV t fs)))"
| "EncodeLiteral enc oid v = encodeEString (sprintValue enc v)"

section \<open>Text with arguments\<close>

datatype SQLMode = SQLModeParameterized | SQLModeLiteral

type_synonym sql_text = "string \<times> gval list"

definition WriteString :: "string \<Rightarrow> sql_text \<Rightarrow> sql_text" where
  "WriteString s st = (fst st @ s, snd st)"

text \<open>The closure \<open>value\<close> of the builder.\<close>

definition sqlValue :: "encoders \<Rightarrow> SQLMode \<Rightarrow> gval \<Rightarrow> nat \<Rightarrow> sql_text \<Rightarrow> sql_text" where
  "sqlValue enc mode v oid st =
     (case mode of
        SQLModeLiteral \<Rightarrow> (fst st @ EncodeLiteral enc oid v, snd st)
      | SQLModeParameterized \<Rightarrow> (fst st @ ''$'' @ Itoa (len (snd st) + 1), snd st @ [v]))"

text \<open>A loop that writes a separator before every element but the first.\<close>

fun separated :: "string \<Rightarrow> ('a \<Rightarrow> sql_text \<Rightarrow> sql_text) \<Rightarrow> 'a list \<Rightarrow> sql_text \<Rightarrow> sql_text" where
  "separated sep f [] st = st"
| "separated sep f [x] st = f x st"
| "separated sep f (x # y # xs) st = separated sep f (y # xs) (WriteString sep (f x st))"

definition assignment :: "encoders \<Rightarrow> SQLMode \<Rightarrow> PendingEdit \<Rightarrow> sql_text \<Rightarrow> sql_text" where
  "assignment enc mode e st =
     (let st1 = WriteString (QuoteIdent (Column e) @ '' = '') st in
      if Kind e = Expression then WriteString (NewExpr e) st1 else sqlValue enc mode (NewValue e) (TypeOID e) st1)"

definition keyMatch :: "encoders \<Rightarrow> SQLMode \<Rightarrow> string \<times> gval \<Rightarrow> sql_text \<Rightarrow> sql_text" where
  "keyMatch enc mode c st = sqlValue enc mode (snd c) 0 (WriteString (QuoteIdent (fst c) @ '' = '') st)"

definition oldMatch :: "encoders \<Rightarrow> SQLMode \<Rightarrow> PendingEdit \<Rightarrow> sql_text \<Rightarrow> sql_text" where
  "oldMatch enc mode e st =
     sqlValue enc mode (OldValue e) (TypeOID e) (WriteString ('' AND '' @ QuoteIdent (Column e) @ '' IS NOT DISTINCT FROM '') st)"

section \<open>One edit\<close>

text \<open>Indexing the key beyond its length panics.\<close>

definition buildUpdateSQL :: "encoders \<Rightarrow> string \<times> string \<Rightarrow> string list \<Rightarrow> PendingEdit \<Rightarrow> SQLMode \<Rightarrow> bool \<Rightarrow> sql_text go" where
  "buildUpdateSQL enc table pkCols e mode guardOldValue =
     (if length (PrimaryKey e) < length pkCols then None
      else
        let st1 = WriteString ('' WHERE '') (assignment enc mode e (WriteString (''UPDATE '' @ QuoteQualified (fst table) (snd table) @ '' SET '') ('''', [])));
            st2 = separated '' AND '' (keyMatch enc mode) (zip pkCols (PrimaryKey e)) st1
        in Some (if \<not> guardOldValue then st2 else oldMatch enc mode e st2))"

definition BuildUpdateSQL :: "encoders \<Rightarrow> string \<times> string \<Rightarrow> string list \<Rightarrow> PendingEdit \<Rightarrow> SQLMode \<Rightarrow> sql_text go" where
  "BuildUpdateSQL enc table pkCols e mode = buildUpdateSQL enc table pkCols e mode True"

section \<open>All edits, by row\<close>

record RowUpdateStatement =
  rSQL :: string
  rArgs :: "gval list"
  EditIndexes :: "nat list"
  OriginalPK :: "gval list"

datatype batch_error = ErrMissingPKColumns | ErrPKLengthMismatch | DuplicateColumn string

text \<open>The group of an edit: the first one of the same original row, or a new one.\<close>

fun joinGroup :: "PendingEdit list \<Rightarrow> nat \<Rightarrow> PendingEdit \<Rightarrow> RowUpdateStatement list \<Rightarrow> batch_error + RowUpdateStatement list" where
  "joinGroup es i e [] = Inr [\<lparr>rSQL = '''', rArgs = [], EditIndexes = [i], OriginalPK = PrimaryKey e\<rparr>]"
| "joinGroup es i e (g # gs) =
     (if RowIdentityEqual (OriginalPK g) (PrimaryKey e) then
        (if list_ex (\<lambda>j. Column (es ! j) = Column e) (EditIndexes g) then Inl (DuplicateColumn (Column e))
         else Inr (g\<lparr>EditIndexes := EditIndexes g @ [i]\<rparr> # gs))
      else map_sum id (\<lambda>gs'. g # gs') (joinGroup es i e gs))"

fun groupEdits :: "string list \<Rightarrow> PendingEdit list \<Rightarrow> nat \<Rightarrow> PendingEdit list \<Rightarrow> RowUpdateStatement list \<Rightarrow>
    batch_error + RowUpdateStatement list" where
  "groupEdits pkCols es i [] gs = Inr gs"
| "groupEdits pkCols es i (e # rest) gs =
     (if length (PrimaryKey e) \<noteq> length pkCols then Inl ErrPKLengthMismatch
      else case joinGroup es i e gs of
          Inl err \<Rightarrow> Inl err
        | Inr gs' \<Rightarrow> groupEdits pkCols es (i + 1) rest gs')"

text \<open>The text of a group's statement; the guards repeat the loop over its edits.\<close>

definition statementText :: "encoders \<Rightarrow> string \<times> string \<Rightarrow> string list \<Rightarrow> SQLMode \<Rightarrow> bool \<Rightarrow> PendingEdit list \<Rightarrow> gval list \<Rightarrow> sql_text" where
  "statementText enc table pkCols mode guardOldValue mine pk =
     (let st1 = separated '', '' (assignment enc mode) mine
            (WriteString (''UPDATE '' @ QuoteQualified (fst table) (snd table) @ '' SET '') ('''', []));
          st2 = separated '' AND '' (keyMatch enc mode) (zip pkCols pk) (WriteString '' WHERE '' st1);
          st3 = (if guardOldValue then foldl (\<lambda>st e. oldMatch enc mode e st) st2 mine else st2)
      in separated '', '' (\<lambda>c. WriteString (QuoteIdent c)) pkCols (WriteString '' RETURNING '' st3))"

definition rowStatement :: "encoders \<Rightarrow> string \<times> string \<Rightarrow> string list \<Rightarrow> PendingEdit list \<Rightarrow> SQLMode \<Rightarrow> bool \<Rightarrow>
    RowUpdateStatement \<Rightarrow> RowUpdateStatement" where
  "rowStatement enc table pkCols es mode guardOldValue g =
     (let st = statementText enc table pkCols mode guardOldValue (map (\<lambda>i. es ! i) (EditIndexes g)) (OriginalPK g)
      in g\<lparr>rSQL := fst st, rArgs := snd st\<rparr>)"

definition BuildUpdateBatch :: "encoders \<Rightarrow> string \<times> string \<Rightarrow> string list \<Rightarrow> PendingEdit list \<Rightarrow> SQLMode \<Rightarrow> bool \<Rightarrow>
    batch_error + RowUpdateStatement list" where
  "BuildUpdateBatch enc table pkCols es mode guardOldValue =
     (if pkCols = [] then Inl ErrMissingPKColumns
      else map_sum id (map (rowStatement enc table pkCols es mode guardOldValue)) (groupEdits pkCols es 0 es []))"

end
