(* ===== verification/CellApply.thy ===== *)
theory CellApply
  imports RowUpdate
begin

text \<open>
  Committing staged edits to the server (\<open>pkg/gui/controllers/helpers/cell_apply_helper.go\<close>): a
  session of its own, one transaction, one UPDATE per original row with its checks, the values of the
  server where a guard failed, and the rows read back after the commit.

  The session belongs to a driver, so the database is a record of functions over a state \<open>'w\<close> of
  everything outside, and a link pairs that state with the statements sent and their answers, in order.
  A call that panics in the driver gives \<open>None\<close>; deferred calls still run.  Deadlines only bound the
  driver's calls and are not modelled.
\<close>

section \<open>The session\<close>

type_synonym db_error = string

text \<open>Columns and rows are pointers in the driver's result; \<open>None\<close> is nil.\<close>

record Result =
  resColumns :: "(string \<times> string) option list"
  resRows :: "gval list option list"
  RowsAffected :: int

type_synonym answer = "(db_error + Result) go"

record 'w database =
  AcquireSession :: "'w \<Rightarrow> db_error option go \<times> 'w"
  Execute :: "string \<Rightarrow> gval list \<Rightarrow> 'w \<Rightarrow> answer \<times> 'w"
  CloseSession :: "'w \<Rightarrow> 'w"
  timeNow :: "'w \<Rightarrow> int"

record 'w link =
  world :: 'w
  sent :: "(string \<times> gval list \<times> answer) list"

definition sqlExec :: "'w database \<Rightarrow> string \<Rightarrow> gval list \<Rightarrow> 'w link \<Rightarrow> answer \<times> 'w link" where
  "sqlExec db sql args l =
     (let (a, w) = Execute db sql args (world l) in (a, l\<lparr>world := w, sent := sent l @ [(sql, args, a)]\<rparr>))"

datatype apply_error = ErrNoAcquirer | ErrPoolExhausted db_error | PendingError edit_error | BatchError batch_error
  | BeginFailed db_error | UpdateFailed string db_error | UnsafeIdentity int | InconsistentIdentities
  | IncompleteIdentity | RowNotFound string | ServerValueFailed string db_error | ErrCommitUnknown db_error
  | RefetchFailed db_error | RefetchMissing

text \<open>A call that may panic, fail or return.\<close>

type_synonym ('w, 'a) call = "'w link \<Rightarrow> (apply_error + 'a) go \<times> 'w link"

definition andThen :: "('w, 'a) call \<Rightarrow> ('a \<Rightarrow> ('w, 'b) call) \<Rightarrow> ('w, 'b) call" where
  "andThen m f l =
     (case m l of
        (None, l') \<Rightarrow> (None, l')
      | (Some (Inl e), l') \<Rightarrow> (Some (Inl e), l')
      | (Some (Inr a), l') \<Rightarrow> f a l')"

definition returning :: "'a \<Rightarrow> ('w, 'a) call" where
  "returning a l = (Some (Inr a), l)"

text \<open>\<open>rollback\<close> and its error, which is dropped; then the error of the caller.\<close>

definition rollback :: "'w database \<Rightarrow> 'w link \<Rightarrow> unit go \<times> 'w link" where
  "rollback db l = (let (a, l') = sqlExec db ''ROLLBACK'' [] l in (map_option (\<lambda>_. ()) a, l'))"

definition rollbackWith :: "'w database \<Rightarrow> apply_error \<Rightarrow> ('w, 'a) call" where
  "rollbackWith db e l = (let (a, l') = rollback db l in (map_option (\<lambda>_. Inl e) a, l'))"

section \<open>The result\<close>

record ApplyResult =
  Identity :: EditIdentity
  Committed :: bool
  CommitUnknown :: bool
  aEdits :: "PendingEdit list"
  OriginalPKs :: "gval list list"
  ResultPKs :: "gval list list"
  RefetchedOriginalPKs :: "gval list list"
  aRowsAffected :: "int list"
  RefetchedRows :: "gval list list"
  RefetchedColumns :: "(string \<times> string) list"
  SQL :: "string list"

definition nothingApplied :: ApplyResult where
  "nothingApplied = \<lparr>Identity = noIdentity, Committed = False, CommitUnknown = False, aEdits = [], OriginalPKs = [], ResultPKs = [],
     RefetchedOriginalPKs = [], aRowsAffected = [], RefetchedRows = [], RefetchedColumns = [], SQL = []\<rparr>"

section \<open>Values of the server\<close>

text \<open>The key columns bound to placeholders.\<close>

definition boundKey :: "string \<times> gval \<Rightarrow> sql_text \<Rightarrow> sql_text" where
  "boundKey c st = (fst st @ QuoteIdent (fst c) @ '' = $'' @ Itoa (len (snd st) + 1), snd st @ [snd c])"

text \<open>Outer \<open>None\<close>: the key is shorter than the columns, or the row is a nil pointer.\<close>

definition fetchServerValue :: "'w database \<Rightarrow> string \<Rightarrow> string list \<Rightarrow> PendingEdit \<Rightarrow> 'w link \<Rightarrow> (db_error + gval) go \<times> 'w link" where
  "fetchServerValue db qualified pkCols e l =
     (if length (PrimaryKey e) < length pkCols then (None, l)
      else
        let st = separated '' AND '' boundKey (zip pkCols (PrimaryKey e))
              (''SELECT '' @ QuoteIdent (Column e) @ '' FROM '' @ qualified @ '' WHERE '', [])
        in case sqlExec db (fst st) (snd st) l of
            (None, l') \<Rightarrow> (None, l')
          | (Some (Inl err), l') \<Rightarrow> (Some (Inl err), l')
          | (Some (Inr res), l') \<Rightarrow>
              (case resRows res of
                 [] \<Rightarrow> (Some (Inr NilV), l')
               | None # _ \<Rightarrow> (None, l')
               | Some vs # _ \<Rightarrow> (Some (Inr (case vs of [] \<Rightarrow> NilV | v # _ \<Rightarrow> v)), l')))"

text \<open>The loop over the edits of a statement whose row was not updated.\<close>

fun fetchConflicts :: "'w database \<Rightarrow> string \<Rightarrow> string list \<Rightarrow> PendingEdit list \<Rightarrow> ConflictedEdit list \<Rightarrow> ('w, ConflictedEdit list) call" where
  "fetchConflicts db qualified pkCols [] conflicts l = returning conflicts l"
| "fetchConflicts db qualified pkCols (e # es) conflicts l =
     (case fetchServerValue db qualified pkCols e l of
        (None, l') \<Rightarrow> (None, l')
      | (Some (Inl err), l') \<Rightarrow> rollbackWith db (ServerValueFailed (Column e) err) l'
      | (Some (Inr v), l') \<Rightarrow>
          fetchConflicts db qualified pkCols es
            (conflicts @ [\<lparr>Edit = e, ServerValue = v, ServerLoadedAt = timeNow db (world l')\<rparr>]) l')"

section \<open>One statement\<close>

definition setAffected :: "nat list \<Rightarrow> int \<Rightarrow> int list \<Rightarrow> int list" where
  "setAffected is n xs = foldl (\<lambda>xs i. xs[i := n]) xs is"

text \<open>The identity a single updated row came back with.\<close>

definition returnedKey :: "string list \<Rightarrow> Result \<Rightarrow> gval list option" where
  "returnedKey pkCols res =
     (case resRows res of [Some vs] \<Rightarrow> if length vs = length pkCols then Some vs else None | _ \<Rightarrow> None)"

definition applyStatement :: "'w database \<Rightarrow> bool \<Rightarrow> bool \<Rightarrow> string \<Rightarrow> string list \<Rightarrow> PendingEdit list \<Rightarrow> RowUpdateStatement \<Rightarrow>
    ApplyResult \<times> ConflictedEdit list \<Rightarrow> ('w, ApplyResult \<times> ConflictedEdit list) call" where
  "applyStatement db overwrite dryRun qualified pkCols es stmt vars l =
     (let (out0, conflicts) = vars;
          mine = map (\<lambda>i. es ! i) (EditIndexes stmt);
          col = Column (hd mine);
          out = out0\<lparr>SQL := SQL out0 @ [rSQL stmt]\<rparr>
      in case sqlExec db (rSQL stmt) (rArgs stmt) l of
          (None, l1) \<Rightarrow> (None, l1)
        | (Some (Inl err), l1) \<Rightarrow> rollbackWith db (UpdateFailed col err) l1
        | (Some (Inr res), l1) \<Rightarrow>
            (let n = RowsAffected res;
                 out1 = out\<lparr>aRowsAffected := setAffected (EditIndexes stmt) n (aRowsAffected out)\<rparr>
             in if n > 1 \<or> n < 0 then rollbackWith db (UnsafeIdentity n) l1
                else if len (resRows res) \<noteq> n then rollbackWith db InconsistentIdentities l1
                else if n = 1 then
                  (case returnedKey pkCols res of
                     None \<Rightarrow> rollbackWith db IncompleteIdentity l1
                   | Some vs \<Rightarrow>
                       returning (out1\<lparr>OriginalPKs := OriginalPKs out1 @ [OriginalPK stmt], ResultPKs := ResultPKs out1 @ [vs]\<rparr>, conflicts) l1)
                else if overwrite then rollbackWith db (RowNotFound col) l1
                else if \<not> dryRun then
                  andThen (fetchConflicts db qualified pkCols mine conflicts) (\<lambda>cs. returning (out1, cs)) l1
                else returning (out1, conflicts) l1))"

fun applyStatements :: "'w database \<Rightarrow> bool \<Rightarrow> bool \<Rightarrow> string \<Rightarrow> string list \<Rightarrow> PendingEdit list \<Rightarrow> RowUpdateStatement list \<Rightarrow>
    ApplyResult \<times> ConflictedEdit list \<Rightarrow> ('w, ApplyResult \<times> ConflictedEdit list) call" where
  "applyStatements db overwrite dryRun qualified pkCols es [] vars l = returning vars l"
| "applyStatements db overwrite dryRun qualified pkCols es (stmt # batch) vars l =
     andThen (applyStatement db overwrite dryRun qualified pkCols es stmt vars)
       (applyStatements db overwrite dryRun qualified pkCols es batch) l"

section \<open>Reading back\<close>

text \<open>The placeholders of one key, and of all of them.\<close>

definition placeholder :: "gval \<Rightarrow> sql_text \<Rightarrow> sql_text" where
  "placeholder v st = (fst st @ ''$'' @ Itoa (len (snd st) + 1), snd st @ [v])"

text \<open>A single column takes the first value of each key; an empty key would panic.\<close>

definition refetchSQL :: "string \<Rightarrow> string list \<Rightarrow> gval list list \<Rightarrow> sql_text go" where
  "refetchSQL qualified pkCols pks =
     (let st = (''SELECT * FROM '' @ qualified @ '' WHERE '', []) in
      if length pkCols = 1 then
        (if [] \<in> set pks then None
         else Some (WriteString '')'' (separated '', '' placeholder (map hd pks)
           (WriteString (QuoteIdent (hd pkCols) @ '' IN ('') st))))
      else
        let st1 = WriteString '') IN ('' (separated '', '' (\<lambda>c. WriteString (QuoteIdent c)) pkCols (WriteString ''('' st))
        in Some (WriteString '')'' (separated '', ''
             (\<lambda>pk st. WriteString '')'' (separated '', '' placeholder pk (WriteString ''('' st))) pks st1)))"

definition refetchByPK :: "'w database \<Rightarrow> string \<Rightarrow> string list \<Rightarrow> gval list list \<Rightarrow> 'w link \<Rightarrow>
    (db_error + (string \<times> string) list \<times> gval list list) go \<times> 'w link" where
  "refetchByPK db qualified pkCols pks l =
     (if pks = [] then (Some (Inr ([], [])), l)
      else case refetchSQL qualified pkCols pks of
          None \<Rightarrow> (None, l)
        | Some st \<Rightarrow>
            (case sqlExec db (fst st) (snd st) l of
               (None, l') \<Rightarrow> (None, l')
             | (Some (Inl err), l') \<Rightarrow> (Some (Inl err), l')
             | (Some (Inr res), l') \<Rightarrow> (Some (Inr (List.map_filter id (resColumns res), List.map_filter id (resRows res))), l')))"

text \<open>The first column of each key name.\<close>

fun keyColumns :: "(string \<times> string) list \<Rightarrow> string list \<Rightarrow> nat list option" where
  "keyColumns cols [] = Some []"
| "keyColumns cols (name # names) =
     (case find (\<lambda>j. fst (cols ! j) = name) [0..<length cols] of
        None \<Rightarrow> None
      | Some j \<Rightarrow> map_option (\<lambda>js. j # js) (keyColumns cols names))"

text \<open>A row that is too short for a key column does not match.\<close>

definition refetchedRow :: "(string \<times> string) list \<times> gval list list \<Rightarrow> string list \<Rightarrow> gval list \<Rightarrow> gval list option" where
  "refetchedRow ref pkCols pk =
     (case keyColumns (fst ref) pkCols of
        None \<Rightarrow> None
      | Some js \<Rightarrow>
          (case filter (\<lambda>row. list_all (\<lambda>j. j < length row) js \<and> RowIdentityEqual (map (\<lambda>j. row ! j) js) pk) (snd ref) of
             [row] \<Rightarrow> Some row
           | _ \<Rightarrow> None))"

fun refetchedRows :: "(string \<times> string) list \<times> gval list list \<Rightarrow> string list \<Rightarrow> gval list list \<Rightarrow> gval list list \<Rightarrow> bool \<times> gval list list" where
  "refetchedRows ref pkCols [] rows = (True, rows)"
| "refetchedRows ref pkCols (pk # pks) rows =
     (case refetchedRow ref pkCols pk of
        None \<Rightarrow> (False, rows)
      | Some row \<Rightarrow> refetchedRows ref pkCols pks (rows @ [row]))"

section \<open>Apply\<close>

type_synonym applied = "ApplyResult \<times> ConflictedEdit list \<times> apply_error option"

text \<open>After the COMMIT: what goes wrong here no longer changes the outcome.\<close>

definition readBack :: "'w database \<Rightarrow> string \<Rightarrow> string list \<Rightarrow> ApplyResult \<Rightarrow> 'w link \<Rightarrow> applied go \<times> 'w link" where
  "readBack db qualified pkCols out l =
     (case refetchByPK db qualified pkCols (ResultPKs out) l of
        (None, l') \<Rightarrow> (None, l')
      | (Some (Inl err), l') \<Rightarrow> (Some (out, [], Some (RefetchFailed err)), l')
      | (Some (Inr ref), l') \<Rightarrow>
          (case refetchedRows ref pkCols (ResultPKs out) [] of
             (False, rows) \<Rightarrow> (Some (out\<lparr>RefetchedRows := rows\<rparr>, [], Some RefetchMissing), l')
           | (True, rows) \<Rightarrow>
               (Some (out\<lparr>RefetchedRows := rows, RefetchedColumns := fst ref, RefetchedOriginalPKs := OriginalPKs out\<rparr>, [], None), l')))"

text \<open>The transaction on an acquired session; the set is marked when the answer to COMMIT is an error.\<close>

definition applyTransaction :: "'w database \<Rightarrow> PendingEditSet \<Rightarrow> string list \<Rightarrow> bool \<Rightarrow> bool \<Rightarrow> RowUpdateStatement list \<Rightarrow>
    'w link \<Rightarrow> applied go \<times> PendingEditSet \<times> 'w link" where
  "applyTransaction db s pkCols dryRun overwrite batch l =
     (let es = Edits s;
          qualified = QuoteQualified (fst (Table s)) (snd (Table s));
          out0 = nothingApplied\<lparr>Identity := s_identity s, aEdits := es, aRowsAffected := replicate (length es) 0\<rparr>
      in case sqlExec db ''BEGIN'' [] l of
          (None, l1) \<Rightarrow> (None, s, l1)
        | (Some (Inl err), l1) \<Rightarrow> (Some (nothingApplied, [], Some (BeginFailed err)), s, l1)
        | (Some (Inr _), l1) \<Rightarrow>
            (case applyStatements db overwrite dryRun qualified pkCols es batch (out0, []) l1 of
               (None, l2) \<Rightarrow> (None, s, l2)
             | (Some (Inl err), l2) \<Rightarrow> (Some (nothingApplied, [], Some err), s, l2)
             | (Some (Inr (out, conflicts)), l2) \<Rightarrow>
                 if conflicts \<noteq> [] then
                   (let (r, l3) = rollback db l2 in (map_option (\<lambda>_. (nothingApplied, conflicts, None)) r, s, l3))
                 else if dryRun then
                   (let (r, l3) = rollback db l2 in (map_option (\<lambda>_. (out, [], None)) r, s, l3))
                 else
                   (case sqlExec db ''COMMIT'' [] l2 of
                      (None, l3) \<Rightarrow> (None, s, l3)
                    | (Some (Inl err), l3) \<Rightarrow>
                        (Some (out\<lparr>CommitUnknown := True\<rparr>, [], Some (ErrCommitUnknown err)),
                         MarkCommitUnknown s es (OriginalPKs out) (ResultPKs out), l3)
                    | (Some (Inr _), l3) \<Rightarrow>
                        (let (r, l4) = readBack db qualified pkCols (out\<lparr>Committed := True\<rparr>) l3 in (r, s, l4)))))"

text \<open>
  \<open>apply\<close>: \<open>None\<close> for the helper is a missing helper or acquirer, \<open>None\<close> for the set a nil set.  The
  session is closed when the transaction returns or panics.
\<close>

definition cellApply :: "encoders \<Rightarrow> 'w database option \<Rightarrow> PendingEditSet option \<Rightarrow> string list \<Rightarrow> bool \<Rightarrow> bool \<Rightarrow> 'w link \<Rightarrow>
    applied go \<times> PendingEditSet option \<times> 'w link" where
  "cellApply enc helper target pkCols dryRun overwrite l =
     (let refuse = (\<lambda>e. (Some (nothingApplied, [], Some e), target, l)) in
      case helper of
        None \<Rightarrow> refuse ErrNoAcquirer
      | Some db \<Rightarrow>
          (case target of
             None \<Rightarrow> (Some (nothingApplied, [], None), target, l)
           | Some s \<Rightarrow>
               if CommitOutcomeUnknown s then refuse (PendingError ErrCommitOutcomeUnknown)
               else if IsEmpty s then (Some (nothingApplied, [], None), target, l)
               else if pkCols = [] then refuse (BatchError ErrMissingPKColumns)
               else if EditIdentity_Validate (s_identity s) \<noteq> None then
                 refuse (PendingError (the (EditIdentity_Validate (s_identity s))))
               else if pkCols \<noteq> EditIdentity_Names (s_identity s) then refuse (PendingError ErrEditIdentityMismatch)
               else case BuildUpdateBatch enc (Table s) pkCols (Edits s) SQLModeParameterized (\<not> overwrite) of
                   Inl err \<Rightarrow> refuse (BatchError err)
                 | Inr batch \<Rightarrow>
                     (case AcquireSession db (world l) of
                        (None, w) \<Rightarrow> (None, target, l\<lparr>world := w\<rparr>)
                      | (Some (Some err), w) \<Rightarrow> (Some (nothingApplied, [], Some (ErrPoolExhausted err)), target, l\<lparr>world := w\<rparr>)
                      | (Some None, w) \<Rightarrow>
                          (case applyTransaction db s pkCols dryRun overwrite batch (l\<lparr>world := w\<rparr>) of
                             (r, s', l') \<Rightarrow> (r, Some s', l'\<lparr>world := CloseSession db (world l')\<rparr>)))))"

definition CellApplyHelper_Apply :: "encoders \<Rightarrow> 'w database option \<Rightarrow> PendingEditSet option \<Rightarrow> string list \<Rightarrow> bool \<Rightarrow> 'w link \<Rightarrow>
    applied go \<times> PendingEditSet option \<times> 'w link" where
  "CellApplyHelper_Apply enc helper target pkCols dryRun l = cellApply enc helper target pkCols dryRun False l"

definition CellApplyHelper_Overwrite :: "encoders \<Rightarrow> 'w database option \<Rightarrow> PendingEditSet option \<Rightarrow> string list \<Rightarrow> 'w link \<Rightarrow>
    (ApplyResult \<times> apply_error option) go \<times> PendingEditSet option \<times> 'w link" where
  "CellApplyHelper_Overwrite enc helper target pkCols l =
     (case cellApply enc helper target pkCols False True l of
        (r, target', l') \<Rightarrow> (map_option (\<lambda>(out, _, err). (out, err)) r, target', l'))"

end
