(* ===== verification/CommitOperation.thy ===== *)
theory CommitOperation
  imports CellApply CliAccess
begin

text \<open>
  A commit of staged edits as the interface runs it: the registry of pending sets
  (\<open>pkg/gui/orchestrator/pending_edit_registry.go\<close>), discarding them
  (\<open>pkg/gui/controllers/helpers/pending_discard.go\<close>), the gate of the commit dialog
  (\<open>pkg/gui/context/commit_dialog_context.go\<close>, \<open>conflict_dialog_context.go\<close>) and the operation itself
  (\<open>commit_operation_lifecycle.go\<close>): capturing a snapshot, running it on the connection in the
  background, and settling the live set whatever happened to the interface meanwhile.

  Pointers of sets, tabs, grids and owners are addresses.  The report of a dry run and the notices to
  the user are display only and left out.
\<close>

type_synonym ref = "string \<times> string"

section \<open>The registry\<close>

text \<open>Maps are association lists; a set is known by its address.\<close>

type_synonym pending_registry = "((string \<times> ref) \<times> PendingEditSet) list"

definition registry_For :: "pending_registry \<Rightarrow> addr \<Rightarrow> string \<Rightarrow> ref \<Rightarrow> PendingEditSet option \<times> pending_registry" where
  "registry_For r fresh connID ref =
     (if connID = '''' \<or> fst ref = '''' \<or> snd ref = '''' then (None, r)
      else case map_of r (connID, ref) of
          Some s \<Rightarrow> (Some s, r)
        | None \<Rightarrow> (Some (newSet fresh ref), ((connID, ref), newSet fresh ref) # r))"

definition registry_Lookup :: "pending_registry \<Rightarrow> string \<Rightarrow> ref \<Rightarrow> PendingEditSet option" where
  "registry_Lookup r connID ref =
     (if connID = '''' \<or> fst ref = '''' \<or> snd ref = '''' then None else map_of r (connID, ref))"

definition registry_All :: "pending_registry \<Rightarrow> PendingEditSet list" where
  "registry_All r = map snd r"

definition pendingEditCount :: "pending_registry option \<Rightarrow> int" where
  "pendingEditCount r = (case r of None \<Rightarrow> 0 | Some r \<Rightarrow> sum_list (map Count (registry_All r)))"

section \<open>Discarding\<close>

text \<open>\<open>DiscardAtCursor\<close> on a set that is there.\<close>

definition DiscardAtCursor :: "PendingEditSet \<Rightarrow> gval list \<Rightarrow> string \<Rightarrow> PendingEditSet" where
  "DiscardAtCursor s pk col = (if pk = [] \<or> col = '''' then s else Remove s pk col)"

datatype discard = NothingStaged | Cleared "PendingEditSet option list" | AskFirst "PendingEditSet option list"

text \<open>The sets after clearing; \<open>AskFirst\<close> holds what they become when the user says yes.\<close>

definition DiscardAllSets :: "bool \<Rightarrow> PendingEditSet option list \<Rightarrow> discard" where
  "DiscardAllSets canConfirm sets =
     (let count = sum_list (map (\<lambda>s. case s of None \<Rightarrow> 0 | Some s \<Rightarrow> Count s) sets);
          cleared = map (map_option Clear) sets
      in if count = 0 then NothingStaged
         else if count \<le> 5 \<or> \<not> canConfirm then Cleared cleared else AskFirst cleared)"

text \<open>The number of edits that keeps the program from quitting.\<close>

definition BlockQuitIfPending :: "PendingEditSet option list \<Rightarrow> int option" where
  "BlockQuitIfPending sets =
     (let count = sum_list (map (\<lambda>s. case s of None \<Rightarrow> 0 | Some s \<Rightarrow> Count s) sets)
      in if count = 0 then None else Some count)"

section \<open>The gates of the dialogs\<close>

record CommitDialog =
  dActive :: bool
  dSet :: "PendingEditSet option"
  dConn :: "Connection option"
  TypedName :: string

definition closedDialog :: CommitDialog where
  "closedDialog = \<lparr>dActive = False, dSet = None, dConn = None, TypedName = ''''\<rparr>"

definition dialog_Open :: "PendingEditSet option \<Rightarrow> Connection option \<Rightarrow> CommitDialog" where
  "dialog_Open s conn =
     \<lparr>dActive = True, dSet = s, dConn = conn,
      TypedName = (case conn of
          Some c \<Rightarrow> if ConfirmWrites c \<and> Name c = '''' then char_of (0 :: nat) # ''empty-name-sentinel'' else ''''
        | None \<Rightarrow> '''')\<rparr>"

definition ApplyEnabled :: "CommitDialog \<Rightarrow> bool" where
  "ApplyEnabled d =
     (case (dConn d, dSet d) of
        (Some c, Some s) \<Rightarrow>
          dActive d \<and> \<not> IsEmpty s \<and> \<not> ReadOnly c \<and> \<not> (ConfirmWrites c \<and> Name c = '''') \<and>
          \<not> (ConfirmWrites c \<and> TypedName d \<noteq> Name c)
      | _ \<Rightarrow> False)"

text \<open>The same question with a reason.\<close>

definition applyDisabled :: "CommitDialog \<Rightarrow> bool \<Rightarrow> string option" where
  "applyDisabled d asyncInFlight =
     (if \<not> dActive d then Some ''no commit dialog active''
      else case dConn d of
          None \<Rightarrow> Some ''no active connection''
        | Some c \<Rightarrow>
            (case dSet d of
               None \<Rightarrow> Some ''no staged edits''
             | Some s \<Rightarrow>
                 if IsEmpty s then Some ''no staged edits''
                 else if asyncInFlight \<or> CommitInFlight s then Some ''commit operation already in progress''
                 else if CommitOutcomeUnknown s then Some ''COMMIT outcome unknown; reconcile server state before retrying''
                 else if ReadOnly c then Some ''read-only connection''
                 else if ConfirmWrites c \<and> Name c = '''' then Some ''connection name is empty''
                 else if ConfirmWrites c \<and> TypedName d \<noteq> Name c then Some ''press [t] and type the connection name to enable apply''
                 else None))"

definition OverwriteAllowed :: "bool \<Rightarrow> Connection option \<Rightarrow> bool" where
  "OverwriteAllowed active conn = (active \<and> (case conn of None \<Rightarrow> False | Some c \<Rightarrow> \<not> ConfirmWrites c))"

section \<open>Capturing a commit\<close>

record grid_view =
  gridId :: addr
  Editable :: bool
  IdentityRef :: ref
  gridIdentity :: EditIdentity
  CommitGeneration :: nat

record result_tab =
  tabId :: addr
  tabConn :: string
  EditabilityGeneration :: nat
  tabGrid :: "grid_view option"

record 'w connection_owner =
  ownerId :: addr
  published :: bool
  connection :: "'w database option"
  profile :: string
  retired :: bool

record 'w gui =
  tabsWired :: bool
  activeConnProfile :: "Connection option"
  activeConnID :: string
  pendingEditReg :: "pending_registry option"
  activeTab :: "result_tab option"
  allTabs :: "result_tab list"
  closed :: bool
  owner_of :: "'w connection_owner option"
  canHoldBusy :: bool
  connectGen :: nat

record 'w commitOperation =
  live :: addr
  snapshot :: PendingEditSet
  opPkCols :: "string list"
  opTab :: addr
  opTabGeneration :: nat
  opGrid :: addr
  opGridGeneration :: nat
  siblingGrids :: "(addr \<times> nat) list"
  opOwner :: addr
  opGeneration :: nat
  opHelper :: "'w database option"

datatype commit_error = NotWired | NotAuthorized | PolicyChanged | TargetChanged | ResultChanged | CommitRefused edit_error
  | ConnectionChanged | Canceled

definition samePolicy :: "Connection \<Rightarrow> Connection \<Rightarrow> bool" where
  "samePolicy a b \<longleftrightarrow> Name a = Name b \<and> ReadOnly a = ReadOnly b \<and> ConfirmWrites a = ConfirmWrites b"

definition siblingsOf :: "'w gui \<Rightarrow> string \<Rightarrow> ref \<Rightarrow> addr \<Rightarrow> (addr \<times> nat) list" where
  "siblingsOf g conn ref own =
     concat (map (\<lambda>t. case tabGrid t of
        None \<Rightarrow> []
      | Some v \<Rightarrow> if gridId v \<noteq> own \<and> tabConn t = conn \<and> IdentityRef v = ref then [(gridId v, CommitGeneration v)] else [])
      (allTabs g))"

text \<open>
  \<open>a\<close> is the address of the snapshot.  The live set is returned: a refusal after the snapshot was
  taken settles it as not committed.
\<close>

definition capture_commit :: "'w gui \<Rightarrow> addr \<Rightarrow> PendingEditSet \<Rightarrow> Connection \<Rightarrow> PendingEdit list option \<Rightarrow> bool \<Rightarrow>
    (commit_error + 'w commitOperation) \<times> PendingEditSet" where
  "capture_commit g a s conn selected overwrite =
     (if \<not> tabsWired g then (Inl NotWired, s)
      else if ReadOnly conn \<or> overwrite \<and> ConfirmWrites conn then (Inl NotAuthorized, s)
      else if (case activeConnProfile g of None \<Rightarrow> True | Some p \<Rightarrow> \<not> samePolicy p conn) then (Inl PolicyChanged, s)
      else if (case pendingEditReg g of None \<Rightarrow> True | Some r \<Rightarrow> map_option self (registry_Lookup r (activeConnID g) (Table s)) \<noteq> Some (self s))
        then (Inl TargetChanged, s)
      else case activeTab g of
          None \<Rightarrow> (Inl ResultChanged, s)
        | Some tab \<Rightarrow>
        (case tabGrid tab of
           None \<Rightarrow> (Inl ResultChanged, s)
         | Some v \<Rightarrow>
             if \<not> Editable v \<or> IdentityRef v \<noteq> Table s then (Inl ResultChanged, s)
             else if \<not> Compatible (s_identity s) (gridIdentity v) then (Inl (CommitRefused ErrEditIdentityMismatch), s)
             else case BeginCommit s a selected of
                 (s1, Inl e) \<Rightarrow> (Inl (CommitRefused e), s1)
               | (s1, Inr snap) \<Rightarrow>
                   let release = SettleCommit s1 (Some (self snap)) False False [] [] in
                   (case owner_of g of
                      None \<Rightarrow> (Inl ConnectionChanged, release)
                    | Some ow \<Rightarrow>
                        if closed g \<or> \<not> published ow \<or> connection ow = None \<or> profile ow \<noteq> Name conn \<or> activeConnID g \<noteq> Name conn
                        then (Inl ConnectionChanged, release)
                        else if retired ow \<or> \<not> canHoldBusy g then (Inl Canceled, release)
                        else
                          (Inr \<lparr>live = self s, snapshot = snap, opPkCols = EditIdentity_Names (s_identity snap), opTab = tabId tab,
                             opTabGeneration = EditabilityGeneration tab, opGrid = gridId v, opGridGeneration = CommitGeneration v,
                             siblingGrids = siblingsOf g (Name conn) (Table snap) (gridId v),
                             opOwner = ownerId ow, opGeneration = connectGen g, opHelper = connection ow\<rparr>, s1))))"

section \<open>Running and settling\<close>

record commitReceipt =
  result :: ApplyResult
  rConflicts :: "ConflictedEdit list"
  rErr :: "apply_error option"
  panicked :: bool

definition execute_commit :: "encoders \<Rightarrow> 'w commitOperation \<Rightarrow> bool \<Rightarrow> bool \<Rightarrow> 'w link \<Rightarrow> commitReceipt go \<times> 'w link" where
  "execute_commit enc op dryRun overwrite l =
     (if overwrite then
        (case CellApplyHelper_Overwrite enc (opHelper op) (Some (snapshot op)) (opPkCols op) l of
           (r, _, l') \<Rightarrow> (map_option (\<lambda>(out, err). \<lparr>result = out, rConflicts = [], rErr = err, panicked = False\<rparr>) r, l'))
      else
        (case CellApplyHelper_Apply enc (opHelper op) (Some (snapshot op)) (opPkCols op) dryRun l of
           (r, _, l') \<Rightarrow> (map_option (\<lambda>(out, conflicts, err). \<lparr>result = out, rConflicts = conflicts, rErr = err, panicked = False\<rparr>) r, l')))"

text \<open>The goroutine: a panic in the driver becomes a receipt with an unknown outcome.\<close>

definition run_commit :: "encoders \<Rightarrow> 'w commitOperation \<Rightarrow> bool \<Rightarrow> bool \<Rightarrow> 'w link \<Rightarrow> commitReceipt \<times> 'w link" where
  "run_commit enc op dryRun overwrite l =
     (case execute_commit enc op dryRun overwrite l of
        (Some receipt, l') \<Rightarrow> (receipt, l')
      | (None, l') \<Rightarrow> (\<lparr>result = nothingApplied\<lparr>CommitUnknown := \<not> dryRun\<rparr>, rConflicts = [], rErr = None, panicked = True\<rparr>, l'))"

text \<open>What the grids are told before the rows are released: the grid, its generation and whether all rows came back.\<close>

definition settled_grids :: "'w commitOperation \<Rightarrow> commitReceipt \<Rightarrow> (addr \<times> nat \<times> bool) list" where
  "settled_grids op receipt =
     (if Committed (result receipt) then
        (opGrid op, opGridGeneration op,
           rErr receipt = None \<and> \<not> panicked receipt \<and> length (RefetchedRows (result receipt)) = length (ResultPKs (result receipt))) #
        map (\<lambda>(g, n). (g, n, False)) (siblingGrids op)
      else [])"

text \<open>\<open>s\<close> is the live set at this moment.\<close>

definition settle_commit :: "'w commitOperation \<Rightarrow> commitReceipt \<Rightarrow> PendingEditSet \<Rightarrow> PendingEditSet" where
  "settle_commit op receipt s =
     SettleCommit s (Some (self (snapshot op))) (Committed (result receipt)) (CommitUnknown (result receipt))
       (OriginalPKs (result receipt)) (ResultPKs (result receipt))"

text \<open>Whether the outcome is still published to the interface.\<close>

definition current_operation :: "'w gui \<Rightarrow> 'w commitOperation \<Rightarrow> bool" where
  "current_operation g op \<longleftrightarrow>
     \<not> closed g \<and> map_option ownerId (owner_of g) = Some (opOwner op) \<and> connectGen g = opGeneration op \<and>
     (case activeTab g of
        None \<Rightarrow> False
      | Some tab \<Rightarrow> tabId tab = opTab op \<and> map_option gridId (tabGrid tab) = Some (opGrid op) \<and>
          EditabilityGeneration tab = opTabGeneration op \<and> map_option IdentityRef (tabGrid tab) = Some (Table (snapshot op))) \<and>
     list_ex (\<lambda>t. tabId t = opTab op) (allTabs g)"

section \<open>The conflict dialog\<close>

definition conflict_refresh :: "PendingEditSet \<Rightarrow> ConflictedEdit list \<Rightarrow> staged" where
  "conflict_refresh s conflicts = DiscardOwned s (map Edit conflicts)"

definition overwrite_commit :: "'w gui \<Rightarrow> addr \<Rightarrow> PendingEditSet \<Rightarrow> Connection \<Rightarrow> ConflictedEdit list \<Rightarrow>
    (commit_error + 'w commitOperation) \<times> PendingEditSet" where
  "overwrite_commit g a s conn conflicts = capture_commit g a s conn (Some (map Edit conflicts)) True"

definition start_commit :: "'w gui \<Rightarrow> addr \<Rightarrow> PendingEditSet \<Rightarrow> Connection \<Rightarrow> (commit_error + 'w commitOperation) \<times> PendingEditSet" where
  "start_commit g a s conn = capture_commit g a s conn None False"

end
