(* ===== verification/RowUpdateSpec.thy ===== *)
theory RowUpdateSpec
  imports RowUpdate
begin

text \<open>
  What the builder of updates promises: a batch has one statement per original row, every edit is in
  exactly one of them, values travel as arguments only, and quoted text reads back as itself.
\<close>

section \<open>Quoted text reads back\<close>

text \<open>
  PostgreSQL's reading of the rest of a quoted text after its opening quote: the text up to the
  closing quote, and what follows.  A doubled quote stands for itself; the characters of \<open>esc\<close> must
  be doubled too.
\<close>

fun readQuoted :: "char \<Rightarrow> char set \<Rightarrow> string \<Rightarrow> (string \<times> string) option" where
  "readQuoted q esc [] = None"
| "readQuoted q esc [c] = (if c = q then Some ([], []) else None)"
| "readQuoted q esc (c # d # s) =
     (if c = q \<and> d \<noteq> q then Some ([], d # s)
      else if c = q \<or> c \<in> esc then (if d = c then map_option (\<lambda>(x, r). (c # x, r)) (readQuoted q esc s) else None)
      else map_option (\<lambda>(x, r). (c # x, r)) (readQuoted q esc (d # s)))"

definition readIdent :: "string \<Rightarrow> (string \<times> string) option" where
  "readIdent s = (if prefixOf [CHR 0x22] s then readQuoted (CHR 0x22) {} (tl s) else None)"

definition readEString :: "string \<Rightarrow> (string \<times> string) option" where
  "readEString s = (if prefixOf [CHR ''E'', CHR 0x27] s then readQuoted (CHR 0x27) {CHR 0x5C} (tl (tl s)) else None)"

lemma readQuoted_step:
  "readQuoted q esc (c # s) =
     (if c = q \<and> (s = [] \<or> hd s \<noteq> q) then Some ([], s)
      else if s = [] then None
      else if c = q \<or> c \<in> esc then (if hd s = c then map_option (\<lambda>(x, r). (c # x, r)) (readQuoted q esc (tl s)) else None)
      else map_option (\<lambda>(x, r). (c # x, r)) (readQuoted q esc s))"
  by (cases s) auto

lemma readQuoted_doubled:
  "rest = [] \<or> hd rest \<noteq> q \<Longrightarrow> q \<notin> esc \<Longrightarrow> readQuoted q esc (doubled (insert q esc) s @ q # rest) = Some (s, rest)"
  by (induction s) (auto simp: doubled_def readQuoted_step simp del: readQuoted.simps)

lemma readIdent_quoted: "rest = [] \<or> hd rest \<noteq> CHR 0x22 \<Longrightarrow> readIdent (QuoteIdent s @ rest) = Some (s, rest)"
  using readQuoted_doubled [of rest "CHR 0x22" "{}" s] by (simp add: readIdent_def QuoteIdent_def prefixOf_def)

lemma readEString_encoded: "rest = [] \<or> hd rest \<noteq> CHR 0x27 \<Longrightarrow> readEString (encodeEString s @ rest) = Some (s, rest)"
  using readQuoted_doubled [of rest "CHR 0x27" "{CHR 0x5C}" s] by (simp add: readEString_def encodeEString_def prefixOf_def)

section \<open>Values are arguments\<close>

text \<open>The text of a writer depends on how many arguments there are, and it appends fixed ones.\<close>

definition appends :: "(sql_text \<Rightarrow> sql_text) \<Rightarrow> (nat \<Rightarrow> string) \<Rightarrow> gval list \<Rightarrow> bool" where
  "appends f txt vs \<longleftrightarrow> (\<forall>st. f st = (fst st @ txt (length (snd st)), snd st @ vs))"

definition assignText :: "PendingEdit \<Rightarrow> nat \<Rightarrow> string" where
  "assignText e n = QuoteIdent (Column e) @ '' = '' @ (if Kind e = Expression then NewExpr e else ''$'' @ Itoa (int n + 1))"

definition assignArgs :: "PendingEdit \<Rightarrow> gval list" where
  "assignArgs e = (if Kind e = Expression then [] else [NewValue e])"

lemma assignment_appends: "appends (assignment enc SQLModeParameterized e) (assignText e) (assignArgs e)"
  by (simp add: appends_def assignment_def WriteString_def sqlValue_def assignText_def assignArgs_def Let_def)

lemma keyMatch_appends:
  "appends (keyMatch enc SQLModeParameterized c) (\<lambda>n. QuoteIdent (fst c) @ '' = $'' @ Itoa (int n + 1)) [snd c]"
  by (simp add: appends_def keyMatch_def WriteString_def sqlValue_def)

lemma oldMatch_appends:
  "appends (oldMatch enc SQLModeParameterized e)
     (\<lambda>n. '' AND '' @ QuoteIdent (Column e) @ '' IS NOT DISTINCT FROM $'' @ Itoa (int n + 1)) [OldValue e]"
  by (simp add: appends_def oldMatch_def WriteString_def sqlValue_def)

lemma separated_args:
  "(\<And>x. appends (f x) (txt x) (args x)) \<Longrightarrow> snd (separated sep f xs st) = snd st @ concat (map args xs)"
  by (induction sep f xs st rule: separated.induct) (auto simp: appends_def WriteString_def)

lemma foldl_args:
  "(\<And>x. appends (f x) (txt x) (args x)) \<Longrightarrow> snd (foldl (\<lambda>st x. f x st) st xs) = snd st @ concat (map args xs)"
  by (induction xs arbitrary: st) (auto simp: appends_def)

text \<open>Two runs of a writer over lists whose elements write the same text.\<close>

definition alike :: "sql_text \<Rightarrow> sql_text \<Rightarrow> bool" where
  "alike st st' \<longleftrightarrow> fst st = fst st' \<and> length (snd st) = length (snd st')"

lemma alike_Write [simp]: "alike st st' \<Longrightarrow> alike (WriteString s st) (WriteString s st')"
  by (simp add: alike_def WriteString_def)

definition alikeF :: "(sql_text \<Rightarrow> sql_text) \<Rightarrow> (sql_text \<Rightarrow> sql_text) \<Rightarrow> bool" where
  "alikeF f g \<longleftrightarrow> (\<forall>st st'. alike st st' \<longrightarrow> alike (f st) (g st'))"

lemma alikeFD: "alikeF f g \<Longrightarrow> alike st st' \<Longrightarrow> alike (f st) (g st')"
  by (simp only: alikeF_def)

lemma separated_alike:
  assumes "list_all2 (\<lambda>x y. alikeF (f x) (f y)) xs ys" "alike st st'"
  shows "alike (separated sep f xs st) (separated sep f ys st')"
  using assms
proof (induction sep f xs st arbitrary: ys st' rule: separated.induct)
  case (3 sep f x y xs st)
  then obtain a b ys' where ys: "ys = a # b # ys'" and f: "alikeF (f x) (f a)" by (auto simp: list_all2_Cons1)
  have "alike (WriteString sep (f x st)) (WriteString sep (f a st'))" using alikeFD [OF f "3.prems"(2)] by simp
  then show ?case using "3.IH" [of "b # ys'"] "3.prems" ys by simp
qed (auto simp: list_all2_Cons1 dest: alikeFD)

lemma foldl_alike:
  "list_all2 (\<lambda>x y. alikeF (f x) (f y)) xs ys \<Longrightarrow> alike st st' \<Longrightarrow>
     alike (foldl (\<lambda>st x. f x st) st xs) (foldl (\<lambda>st x. f x st) st' ys)"
proof (induction xs ys arbitrary: st st' rule: list_all2_induct)
  case (Cons x xs y ys)
  then show ?case using alikeFD [OF Cons.hyps(1) Cons.prems] by simp
qed simp

definition withoutValues :: "PendingEdit \<Rightarrow> PendingEdit" where
  "withoutValues e = e\<lparr>OldValue := NilV, NewValue := NilV\<rparr>"

lemma edit_writers_alike:
  "alikeF (assignment enc SQLModeParameterized e) (assignment enc SQLModeParameterized (withoutValues e))"
  "alikeF (oldMatch enc SQLModeParameterized e) (oldMatch enc SQLModeParameterized (withoutValues e))"
  "alikeF (keyMatch enc SQLModeParameterized (c, v)) (keyMatch enc SQLModeParameterized (c, w))"
  "alikeF (WriteString t) (WriteString t)"
  by (simp_all add: alikeF_def alike_def assignment_def oldMatch_def keyMatch_def WriteString_def sqlValue_def withoutValues_def Let_def)

text \<open>The text of a statement without its values.\<close>

definition blankText :: "string \<times> string \<Rightarrow> string list \<Rightarrow> bool \<Rightarrow> PendingEdit list \<Rightarrow> string" where
  "blankText table pkCols guard mine =
     fst (statementText \<lparr>formatFloat = \<lambda>_. [], formatTime = \<lambda>_. [], sprintValue = \<lambda>_. []\<rparr> table pkCols SQLModeParameterized guard
       (map withoutValues mine) (replicate (length pkCols) NilV))"

lemma statementText_text:
  assumes "length pk = length pkCols"
  shows "fst (statementText enc table pkCols SQLModeParameterized guard mine pk) = blankText table pkCols guard mine"
proof -
  let ?A = "\<lambda>f g. list_all2 (\<lambda>x y. alikeF (f x) (g y))" and ?bare = "map withoutValues mine"
  let ?none = "\<lparr>formatFloat = \<lambda>_. [], formatTime = \<lambda>_. [], sprintValue = \<lambda>_. []\<rparr>"
  have f: "assignment enc SQLModeParameterized = assignment ?none SQLModeParameterized"
    "oldMatch enc SQLModeParameterized = oldMatch ?none SQLModeParameterized"
    "keyMatch enc SQLModeParameterized = keyMatch ?none SQLModeParameterized"
    by (simp_all add: assignment_def oldMatch_def keyMatch_def sqlValue_def fun_eq_iff Let_def)
  have a: "list_all2 (\<lambda>x y. alikeF (assignment ?none SQLModeParameterized x) (assignment ?none SQLModeParameterized y)) mine ?bare"
    "list_all2 (\<lambda>x y. alikeF (oldMatch ?none SQLModeParameterized x) (oldMatch ?none SQLModeParameterized y)) mine ?bare"
    by (simp_all add: list_all2_conv_all_nth edit_writers_alike)
  have k: "list_all2 (\<lambda>x y. alikeF (keyMatch ?none SQLModeParameterized x) (keyMatch ?none SQLModeParameterized y))
     (zip pkCols pk) (zip pkCols (replicate (length pkCols) NilV))"
    using assms by (auto simp: list_all2_conv_all_nth intro: edit_writers_alike)
  have c: "list_all2 (\<lambda>x y. alikeF (WriteString (QuoteIdent x)) (WriteString (QuoteIdent y))) pkCols pkCols"
    by (simp add: list_all2_conv_all_nth edit_writers_alike)
  have s: "alike st st" for st by (simp add: alike_def)
  have "alike (statementText enc table pkCols SQLModeParameterized guard mine pk)
    (statementText ?none table pkCols SQLModeParameterized guard ?bare (replicate (length pkCols) NilV))"
    unfolding statementText_def Let_def f
    by (cases guard; simp only: if_True if_False; intro separated_alike [OF c] alike_Write foldl_alike [OF a(2)] separated_alike [OF k]
      separated_alike [OF a(1)] s)
  then show ?thesis by (simp add: alike_def blankText_def)
qed

lemma statementText_args:
  assumes "length pk = length pkCols"
  shows "snd (statementText enc table pkCols SQLModeParameterized guard mine pk) =
    concat (map assignArgs mine) @ pk @ (if guard then map OldValue mine else [])"
proof -
  have w: "appends (WriteString (QuoteIdent c)) (\<lambda>_. QuoteIdent c) []" for c by (simp add: appends_def WriteString_def)
  have [simp]: "snd (WriteString s st) = snd st" for s st by (simp add: WriteString_def)
  have "concat (map (\<lambda>c. [snd c]) (zip pkCols pk)) = pk"
    using assms by (simp add: concat_map_singleton)
  then show ?thesis
    by (simp add: statementText_def Let_def separated_args [OF assignment_appends] separated_args [OF keyMatch_appends]
      foldl_args [OF oldMatch_appends] separated_args [OF w] comp_def concat_map_singleton)
qed

lemma rowStatement_fields [simp]:
  "EditIndexes (rowStatement enc table pkCols es mode guard g) = EditIndexes g"
  "OriginalPK (rowStatement enc table pkCols es mode guard g) = OriginalPK g"
  by (simp_all add: rowStatement_def Let_def)

section \<open>Groups\<close>

text \<open>
  A group has the key of its first edit; its other edits were compared with it.  \<open>es\<close> are all edits,
  and the groups of the first \<open>n\<close> of them partition their indexes.
\<close>

definition group_ok :: "PendingEdit list \<Rightarrow> nat list \<Rightarrow> gval list \<Rightarrow> bool" where
  "group_ok es js pk \<longleftrightarrow>
     js \<noteq> [] \<and> sorted_wrt (<) js \<and> (\<forall>j \<in> set js. j < length es) \<and> pk = PrimaryKey (es ! hd js) \<and>
     (\<forall>j \<in> set (tl js). RowIdentityEqual pk (PrimaryKey (es ! j))) \<and> distinct (map (\<lambda>j. Column (es ! j)) js)"

definition groups_ok :: "PendingEdit list \<Rightarrow> nat \<Rightarrow> RowUpdateStatement list \<Rightarrow> bool" where
  "groups_ok es n gs \<longleftrightarrow>
     list_all (\<lambda>g. group_ok es (EditIndexes g) (OriginalPK g)) gs \<and>
     distinct (concat (map EditIndexes gs)) \<and> set (concat (map EditIndexes gs)) = {..<n} \<and>
     sorted_wrt (\<lambda>g h. \<not> RowIdentityEqual (OriginalPK g) (OriginalPK h)) gs"

text \<open>What joining a group does to the list of groups.\<close>

lemma joinGroup_cases:
  "joinGroup es i e gs = Inr gs' \<Longrightarrow>
     (\<exists>g. gs' = gs @ [g] \<and> EditIndexes g = [i] \<and> OriginalPK g = PrimaryKey e \<and>
        (\<forall>h \<in> set gs. \<not> RowIdentityEqual (OriginalPK h) (PrimaryKey e))) \<or>
     (\<exists>pre g post. gs = pre @ g # post \<and> gs' = pre @ g\<lparr>EditIndexes := EditIndexes g @ [i]\<rparr> # post \<and>
        RowIdentityEqual (OriginalPK g) (PrimaryKey e) \<and> (\<forall>j \<in> set (EditIndexes g). Column (es ! j) \<noteq> Column e))"
proof (induction gs arbitrary: gs')
  case (Cons g gs)
  show ?case
  proof (cases "RowIdentityEqual (OriginalPK g) (PrimaryKey e)")
    case True
    then show ?thesis using Cons.prems by (intro disjI2 exI [of _ "[]"] exI [of _ g] exI [of _ gs]) (auto simp: list_ex_iff split: if_splits)
  next
    case False
    then obtain gs1 where j: "joinGroup es i e gs = Inr gs1" and gs': "gs' = g # gs1"
      using Cons.prems by (cases "joinGroup es i e gs") auto
    from Cons.IH [OF j] show ?thesis
    proof (elim disjE exE conjE, goal_cases)
      case (1 h)
      then show ?case using gs' False by (intro disjI1 exI [of _ h]) simp
    next
      case (2 pre h post)
      then show ?case using gs' by (intro disjI2 exI [of _ "g # pre"] exI [of _ h] exI [of _ post]) simp
    qed
  qed
qed simp

lemma group_extend:
  assumes "group_ok es js pk" "\<forall>j \<in> set js. j < i" "i < length es" "RowIdentityEqual pk (PrimaryKey (es ! i))"
    "\<forall>j \<in> set js. Column (es ! j) \<noteq> Column (es ! i)"
  shows "group_ok es (js @ [i]) pk"
  using assms by (cases js) (auto simp: group_ok_def sorted_wrt_append)

lemma joinGroup_ok:
  assumes ok: "groups_ok es i gs" and i: "i < length es" and j: "joinGroup es i (es ! i) gs = Inr gs'"
  shows "groups_ok es (i + 1) gs'"
proof -
  have set: "{..<i + 1} = insert i {..<i}" by auto
  from joinGroup_cases [OF j] show ?thesis
  proof (elim disjE exE conjE, goal_cases)
    case (1 g)
    then have "i \<notin> set (concat (map EditIndexes gs))" using ok by (simp add: groups_ok_def)
    then show ?case using ok 1 i by (auto simp: groups_ok_def group_ok_def sorted_wrt_append set)
  next
    case (2 pre g post)
    have all: "set (concat (map EditIndexes gs)) = {..<i}" using ok by (simp add: groups_ok_def)
    then have less: "\<forall>j \<in> set (EditIndexes g). j < i" using 2(1) by auto
    have "group_ok es (EditIndexes g @ [i]) (OriginalPK g)"
      using group_extend [OF _ less i 2(3,4)] ok 2(1) by (simp add: groups_ok_def)
    moreover have "i \<notin> set (concat (map EditIndexes gs))" using all by simp
    ultimately show ?case using ok 2(1,2) all
      by (auto simp: groups_ok_def sorted_wrt_append set)
  qed
qed

lemma groupEdits_ok:
  "groupEdits pkCols es i rest gs = Inr gs' \<Longrightarrow> groups_ok es i gs \<Longrightarrow> rest = drop i es \<Longrightarrow> i \<le> length es \<Longrightarrow>
     groups_ok es (length es) gs' \<and> list_all (\<lambda>e. length (PrimaryKey e) = length pkCols) rest"
proof (induction pkCols es i rest gs rule: groupEdits.induct)
  case (2 pkCols es i e rest gs)
  then have i: "i < length es" "es ! i = e" "rest = drop (i + 1) es"
    by (cases "i < length es"; simp add: Cons_nth_drop_Suc [symmetric])+
  with "2.prems"(1) obtain gs1 where "length (PrimaryKey e) = length pkCols" "joinGroup es i (es ! i) gs = Inr gs1"
    "groupEdits pkCols es (i + 1) rest gs1 = Inr gs'" by (auto split: if_splits sum.splits)
  moreover have "groups_ok es (length es) gs' \<and> list_all (\<lambda>e. length (PrimaryKey e) = length pkCols) rest"
    using "2.IH" [of gs1] "2.prems"(2,4) i calculation joinGroup_ok [of es i gs gs1] by simp
  ultimately show ?case using i(2) by (simp only: list_all_iff list.set) blast
qed auto

text \<open>A statement of a batch, in parameterised form.\<close>

definition statement_ok :: "string \<times> string \<Rightarrow> string list \<Rightarrow> bool \<Rightarrow> PendingEdit list \<Rightarrow> RowUpdateStatement \<Rightarrow> bool" where
  "statement_ok table pkCols guard es g \<longleftrightarrow>
     (let mine = map (\<lambda>j. es ! j) (EditIndexes g) in
      group_ok es (EditIndexes g) (OriginalPK g) \<and> length (OriginalPK g) = length pkCols \<and>
      rSQL g = blankText table pkCols guard mine \<and>
      rArgs g = concat (map assignArgs mine) @ OriginalPK g @ (if guard then map OldValue mine else []))"

lemma rowStatement_ok:
  assumes "group_ok es (EditIndexes g) (OriginalPK g)" "length (OriginalPK g) = length pkCols"
  shows "statement_ok table pkCols guard es (rowStatement enc table pkCols es SQLModeParameterized guard g)"
  using assms statementText_text [OF assms(2)] statementText_args [OF assms(2)]
  by (simp add: statement_ok_def rowStatement_def Let_def)

lemma batch_ok:
  assumes "BuildUpdateBatch enc table pkCols es SQLModeParameterized guard = Inr batch"
  shows "list_all (statement_ok table pkCols guard es) batch \<and> distinct (concat (map EditIndexes batch)) \<and>
    set (concat (map EditIndexes batch)) = {..<length es} \<and>
    sorted_wrt (\<lambda>g h. \<not> RowIdentityEqual (OriginalPK g) (OriginalPK h)) batch"
proof -
  obtain gs where g: "groupEdits pkCols es 0 es [] = Inr gs"
    and b: "batch = map (rowStatement enc table pkCols es SQLModeParameterized guard) gs"
    using assms by (cases "groupEdits pkCols es 0 es []") (auto simp: BuildUpdateBatch_def split: if_splits)
  have ok: "groups_ok es (length es) gs" "list_all (\<lambda>e. length (PrimaryKey e) = length pkCols) es"
    using groupEdits_ok [OF g] by (simp_all add: groups_ok_def)
  have "length (OriginalPK g) = length pkCols" if "g \<in> set gs" for g
    using ok that by (auto simp: groups_ok_def group_ok_def list_all_iff)
  then have "list_all (statement_ok table pkCols guard es) batch"
    using ok(1) by (auto simp: b list_all_iff groups_ok_def intro!: rowStatement_ok)
  then show ?thesis using ok(1) by (simp add: b groups_ok_def comp_def sorted_wrt_map)
qed

lemma statement_ok_facts:
  assumes "statement_ok table pkCols guard es g"
  shows "let mine = map (\<lambda>j. es ! j) (EditIndexes g) in
       mine \<noteq> [] \<and> OriginalPK g = PrimaryKey (hd mine) \<and> length (OriginalPK g) = length pkCols \<and>
       (\<forall>e \<in> set (tl mine). RowIdentityEqual (OriginalPK g) (PrimaryKey e)) \<and> distinct (map Column mine) \<and>
       rSQL g = blankText table pkCols guard mine \<and>
       rArgs g = concat (map assignArgs mine) @ OriginalPK g @ (if guard then map OldValue mine else [])"
proof -
  have g: "group_ok es (EditIndexes g) (OriginalPK g)" using assms by (simp add: statement_ok_def Let_def)
  have "EditIndexes g \<noteq> []" "\<forall>j \<in> set (tl (EditIndexes g)). RowIdentityEqual (OriginalPK g) (PrimaryKey (es ! j))"
    "OriginalPK g = PrimaryKey (es ! hd (EditIndexes g))" "distinct (map Column (map (\<lambda>j. es ! j) (EditIndexes g)))"
    using g unfolding group_ok_def by (blast, metis, blast, simp add: comp_def)
  then show ?thesis using assms unfolding statement_ok_def Let_def
    by (simp add: hd_map map_tl [symmetric] del: map_map)
qed

text \<open>
  C14. A batch of updates covers the staged edits: every edit is in exactly one statement, a statement
  holds the edits of one original row with no column twice, and different statements are for different
  rows.  In parameterised form the text of a statement is the same whatever the values are, and its
  arguments are the new values of its literal edits, then the key, then (unless the user overwrites) the
  old values.
\<close>

theorem update_batch_covers_edits:
  assumes "BuildUpdateBatch enc table pkCols es SQLModeParameterized guard = Inr batch"
  shows "distinct (concat (map EditIndexes batch)) \<and> set (concat (map EditIndexes batch)) = {..<length es} \<and>
    sorted_wrt (\<lambda>g h. \<not> RowIdentityEqual (OriginalPK g) (OriginalPK h)) batch \<and>
    (\<forall>g \<in> set batch. let mine = map (\<lambda>j. es ! j) (EditIndexes g) in
       mine \<noteq> [] \<and> OriginalPK g = PrimaryKey (hd mine) \<and> length (OriginalPK g) = length pkCols \<and>
       (\<forall>e \<in> set (tl mine). RowIdentityEqual (OriginalPK g) (PrimaryKey e)) \<and> distinct (map Column mine) \<and>
       rSQL g = blankText table pkCols guard mine \<and>
       rArgs g = concat (map assignArgs mine) @ OriginalPK g @ (if guard then map OldValue mine else []))"
  using batch_ok [OF assms] statement_ok_facts unfolding list_all_iff by blast


definition sample_update :: "string \<Rightarrow> int \<Rightarrow> PendingEdit" where
  "sample_update col n = \<lparr>revision = 1, owner = None, e_identity = noIdentity, PrimaryKey = [ScalarV ''int64'' (IntS n)], Column = col,
     ColumnType = ''text'', TypeOID = 25, OldValue = NilV, NewValue = ScalarV ''string'' (StrS ''b''), NewExpr = '''', Kind = Literal, LoadedAt = 0\<rparr>"

theorem update_batch_covers_edits_witness:
  "\<exists>batch. BuildUpdateBatch \<lparr>formatFloat = \<lambda>_. [], formatTime = \<lambda>_. [], sprintValue = \<lambda>_. []\<rparr> (''public'', ''t'') [''id'']
      [sample_update ''a'' 1, sample_update ''a'' 2, sample_update ''b'' 1] SQLModeParameterized True = Inr batch \<and>
    map EditIndexes batch = [[0, 2], [1]] \<and> set (concat (map EditIndexes batch)) = {..<3}"
proof -
  let ?b = "BuildUpdateBatch \<lparr>formatFloat = \<lambda>_. [], formatTime = \<lambda>_. [], sprintValue = \<lambda>_. []\<rparr> (''public'', ''t'') [''id'']
      [sample_update ''a'' 1, sample_update ''a'' 2, sample_update ''b'' 1] SQLModeParameterized True"
  have "case ?b of Inr batch \<Rightarrow> map EditIndexes batch = [[0, 2], [1]] | Inl _ \<Rightarrow> False" by code_simp
  then obtain batch where b: "?b = Inr batch" "map EditIndexes batch = [[0, 2], [1]]" by (auto split: sum.splits)
  have "set (concat (map EditIndexes batch)) = {..<length [sample_update ''a'' 1, sample_update ''a'' 2, sample_update ''b'' 1]}"
    using update_batch_covers_edits [OF b(1)] by blast
  then show ?thesis using b by (simp add: numeral_3_eq_3 del: set_concat)
qed


end
