(* ===== verification/CellApplySpec.thy ===== *)
theory CellApplySpec
  imports CellApply RowUpdateSpec
begin

text \<open>
  What applying staged edits promises: the COMMIT is sent only when every UPDATE changed exactly the
  one row it names, whatever else happens nothing is committed, and the result says which it was.
\<close>

section \<open>Statements that are not a COMMIT\<close>

text \<open>Writers only append, so the first letter of a statement stays.\<close>

definition starts :: "char \<Rightarrow> sql_text \<Rightarrow> bool" where
  "starts c st \<longleftrightarrow> fst st \<noteq> [] \<and> hd (fst st) = c"

lemma starts_more: "starts c st \<Longrightarrow> starts c (fst st @ t, vs)"
  by (simp add: starts_def)

lemma starts_Write: "starts c st \<Longrightarrow> starts c (WriteString s st)"
  by (simp add: WriteString_def starts_more)

lemma starts_separated:
  "(\<And>x st. starts c st \<Longrightarrow> starts c (f x st)) \<Longrightarrow> starts c st \<Longrightarrow> starts c (separated sep f xs st)"
  by (induction sep f xs st rule: separated.induct) (auto intro: starts_Write)

lemma starts_foldl:
  "(\<And>x st. starts c st \<Longrightarrow> starts c (f x st)) \<Longrightarrow> starts c st \<Longrightarrow> starts c (foldl (\<lambda>st x. f x st) st xs)"
  by (induction xs arbitrary: st) auto

lemma starts_value: "starts c st \<Longrightarrow> starts c (sqlValue enc mode v oid st)"
  by (cases mode) (simp_all add: sqlValue_def starts_more)

lemma starts_writers:
  "starts c st \<Longrightarrow> starts c (assignment enc mode e st)"
  "starts c st \<Longrightarrow> starts c (oldMatch enc mode e st)"
  "starts c st \<Longrightarrow> starts c (keyMatch enc mode k st)"
  "starts c st \<Longrightarrow> starts c (boundKey k st)"
  "starts c st \<Longrightarrow> starts c (placeholder v st)"
  by (simp_all add: assignment_def oldMatch_def keyMatch_def Let_def starts_Write starts_value boundKey_def placeholder_def starts_more)

lemmas starts_rules = starts_writers starts_Write starts_separated starts_foldl

lemma statementText_starts: "starts (CHR ''U'') (statementText enc table pkCols mode guard mine pk)"
proof -
  have "starts (CHR ''U'') (WriteString (''UPDATE '' @ s) ('''', []))" for s by (simp add: starts_def WriteString_def)
  then show ?thesis unfolding statementText_def Let_def
    by (cases guard) (simp_all add: starts_separated starts_foldl starts_writers starts_Write)
qed

lemma update_starts: "statement_ok table pkCols guard es g \<Longrightarrow> rSQL g \<noteq> [] \<and> hd (rSQL g) = CHR ''U''"
  using statementText_starts by (simp add: statement_ok_def Let_def blankText_def starts_def)

section \<open>The log\<close>

abbreviation commits :: "string \<times> gval list \<times> answer \<Rightarrow> bool" where
  "commits x \<equiv> fst x = ''COMMIT''"

abbreviation rollsBack :: "string \<times> gval list \<times> answer \<Rightarrow> bool" where
  "rollsBack x \<equiv> fst x = ''ROLLBACK''"

text \<open>A call that only adds entries to the log, none of which is a COMMIT; \<open>P\<close> says of the result what they are.\<close>

definition adds :: "'w link \<Rightarrow> 'w link \<Rightarrow> (string \<times> gval list \<times> answer) list \<Rightarrow> bool" where
  "adds l l' xs \<longleftrightarrow> sent l' = sent l @ xs"

lemma adds_refl: "adds l l []"
  by (simp add: adds_def)

lemma adds_trans: "adds l l1 xs \<Longrightarrow> adds l1 l2 ys \<Longrightarrow> adds l l2 (xs @ ys)"
  by (simp add: adds_def)

lemma sqlExec_adds: "sqlExec db q args l = (a, l') \<Longrightarrow> adds l l' [(q, args, a)]"
  by (auto simp: sqlExec_def adds_def split: prod.splits)

lemma rollbackWith_adds:
  assumes "rollbackWith db e l = (r, l')"
  obtains a where "adds l l' [(''ROLLBACK'', [], a)]" "r = None \<or> r = Some (Inl e)"
proof -
  obtain a l1 where s: "sqlExec db ''ROLLBACK'' [] l = (a, l1)" by force
  show thesis using that [of a] sqlExec_adds [OF s] s assms by (cases a) (auto simp: rollbackWith_def rollback_def)
qed

text \<open>
  The outcomes of a step inside the transaction: it panics, or it fails after a ROLLBACK, or it
  goes on; only reads and updates are sent before that.
\<close>

definition working :: "(string \<times> gval list \<times> answer) list \<Rightarrow> bool" where
  "working xs \<longleftrightarrow> list_all (\<lambda>x. \<not> commits x \<and> \<not> rollsBack x) xs"

definition step_log :: "(apply_error + 'a) go \<Rightarrow> (string \<times> gval list \<times> answer) list \<Rightarrow> bool" where
  "step_log r xs \<longleftrightarrow>
     (case r of
        None \<Rightarrow> list_all (\<lambda>x. \<not> commits x) xs
      | Some (Inl e) \<Rightarrow> \<exists>ys a. xs = ys @ [(''ROLLBACK'', [], a)] \<and> working ys
      | Some (Inr v) \<Rightarrow> working xs)"

lemma working_simps [simp]:
  "working []" "working (x # xs) \<longleftrightarrow> \<not> commits x \<and> \<not> rollsBack x \<and> working xs" "working (xs @ ys) \<longleftrightarrow> working xs \<and> working ys"
  by (auto simp: working_def)

lemma step_log_append: "working xs \<Longrightarrow> step_log r ys \<Longrightarrow> step_log r (xs @ ys)"
  by (fastforce simp: step_log_def working_def list_all_iff split: option.splits sum.splits)

lemma fetchServerValue_adds:
  assumes "fetchServerValue db qn pkCols e l = (r, l')"
  shows "\<exists>xs. adds l l' xs \<and> working xs"
proof (cases "length (PrimaryKey e) < length pkCols")
  case True
  then show ?thesis using assms adds_refl by (auto simp: fetchServerValue_def intro!: exI [of _ "[]"])
next
  case False
  let ?st = "separated '' AND '' boundKey (zip pkCols (PrimaryKey e)) (''SELECT '' @ QuoteIdent (Column e) @ '' FROM '' @ qn @ '' WHERE '', [])"
  have st: "starts (CHR ''S'') ?st" by (intro starts_rules) (simp_all add: starts_def)
  obtain a l1 where s: "sqlExec db (fst ?st) (snd ?st) l = (a, l1)" by force
  then have "l' = l1" using assms False by (auto simp: fetchServerValue_def Let_def split: option.splits sum.splits list.splits)
  then show ?thesis using sqlExec_adds [OF s] st by (intro exI [of _ "[(fst ?st, snd ?st, a)]"]) (auto simp: starts_def)
qed

lemma fetchConflicts_adds:
  "fetchConflicts db qn pkCols es cs l = (r, l') \<Longrightarrow>
     \<exists>xs. adds l l' xs \<and> step_log r xs \<and> (\<forall>cs'. r = Some (Inr cs') \<longrightarrow> map Edit cs' = map Edit cs @ es)"
proof (induction db qn pkCols es cs l rule: fetchConflicts.induct)
  case (1 db qn pkCols cs l)
  then show ?case using adds_refl by (auto simp: returning_def step_log_def intro!: exI [of _ "[]"])
next
  case (2 db qn pkCols e es cs l)
  obtain a l1 where f: "fetchServerValue db qn pkCols e l = (a, l1)" by force
  obtain xs where xs: "adds l l1 xs" "working xs" using fetchServerValue_adds [OF f] by blast
  show ?case
  proof (cases a)
    case None
    then show ?thesis using "2.prems" f xs by (auto simp: step_log_def working_def list_all_iff)
  next
    case (Some v)
    show ?thesis
    proof (cases v)
      case (Inl err)
      then have "rollbackWith db (ServerValueFailed (Column e) err) l1 = (r, l')" using "2.prems" f Some by simp
      then obtain b where "adds l1 l' [(''ROLLBACK'', [], b)]" "r = None \<or> r = Some (Inl (ServerValueFailed (Column e) err))"
        by (rule rollbackWith_adds)
      then show ?thesis using adds_trans [OF xs(1)] xs(2)
        by (intro exI [of _ "xs @ [(''ROLLBACK'', [], b)]"]) (auto simp: step_log_def working_def list_all_iff)
    next
      case (Inr w)
      then show ?thesis using "2.IH" [OF f [symmetric] Some Inr] "2.prems" f Some adds_trans [OF xs(1)] step_log_append [OF xs(2)]
        by fastforce
    qed
  qed
qed

section \<open>Statements\<close>

text \<open>An UPDATE that changed exactly the row it names and gave back its key, and one that found no row.\<close>

definition one_row :: "string list \<Rightarrow> RowUpdateStatement \<Rightarrow> string \<times> gval list \<times> answer \<Rightarrow> gval list \<Rightarrow> bool" where
  "one_row pkCols st x vs \<longleftrightarrow>
     (\<exists>res. x = (rSQL st, rArgs st, Some (Inr res)) \<and> RowsAffected res = 1 \<and> resRows res = [Some vs] \<and> length vs = length pkCols)"

definition no_row :: "RowUpdateStatement \<Rightarrow> string \<times> gval list \<times> answer \<Rightarrow> bool" where
  "no_row st x \<longleftrightarrow> (\<exists>res. x = (rSQL st, rArgs st, Some (Inr res)) \<and> RowsAffected res = 0)"

text \<open>
  The log of a batch that ran to its end: the edits of the rows that were not found, and the old and
  new key of each row that was.
\<close>

inductive batch_log :: "string list \<Rightarrow> PendingEdit list \<Rightarrow> RowUpdateStatement list \<Rightarrow> (string \<times> gval list \<times> answer) list \<Rightarrow>
    PendingEdit list \<Rightarrow> (gval list \<times> gval list) list \<Rightarrow> bool" for pkCols es where
  no_more: "batch_log pkCols es [] [] [] []"
| hit: "one_row pkCols st x vs \<Longrightarrow> batch_log pkCols es batch xs ms ks \<Longrightarrow>
    batch_log pkCols es (st # batch) (x # xs) ms ((OriginalPK st, vs) # ks)"
| miss: "no_row st x \<Longrightarrow> working ys \<Longrightarrow> batch_log pkCols es batch xs ms ks \<Longrightarrow>
    batch_log pkCols es (st # batch) (x # ys @ xs) (map (\<lambda>i. es ! i) (EditIndexes st) @ ms) ks"

definition same_start :: "ApplyResult \<Rightarrow> ApplyResult \<Rightarrow> bool" where
  "same_start out out' \<longleftrightarrow> Committed out' = Committed out \<and> CommitUnknown out' = CommitUnknown out \<and>
     aEdits out' = aEdits out \<and> Identity out' = Identity out"

definition statement_log :: "string list \<Rightarrow> PendingEdit list \<Rightarrow> bool \<Rightarrow> RowUpdateStatement \<Rightarrow> ApplyResult \<times> ConflictedEdit list \<Rightarrow>
    (string \<times> gval list \<times> answer) list \<Rightarrow> ApplyResult \<times> ConflictedEdit list \<Rightarrow> bool" where
  "statement_log pkCols es dryRun st v xs v' \<longleftrightarrow>
     (let (out, cs) = v; (out', cs') = v' in
      same_start out out' \<and>
      ((\<exists>x vs. xs = [x] \<and> one_row pkCols st x vs \<and> cs' = cs \<and> OriginalPKs out' = OriginalPKs out @ [OriginalPK st] \<and>
          ResultPKs out' = ResultPKs out @ [vs]) \<or>
       (\<exists>x ys. xs = x # ys \<and> working ys \<and> no_row st x \<and> OriginalPKs out' = OriginalPKs out \<and> ResultPKs out' = ResultPKs out \<and>
          (if dryRun then cs' = cs else map Edit cs' = map Edit cs @ map (\<lambda>i. es ! i) (EditIndexes st)))))"

text \<open>After the UPDATE was answered: failing with a rollback, panicking, or going on.\<close>

lemma one_statement_answered:
  assumes x: "adds l l1 [x]" "\<not> commits x" "\<not> rollsBack x"
    and r: "rollbackWith db e l1 = (r, l') \<or> r = None \<and> l' = l1 \<or>
      (\<exists>ys. adds l1 l' ys \<and> step_log r ys \<and> (\<forall>v'. r = Some (Inr v') \<longrightarrow> statement_log pkCols es dryRun st v (x # ys) v'))"
  shows "\<exists>xs. adds l l' xs \<and> step_log r xs \<and> (\<forall>v'. r = Some (Inr v') \<longrightarrow> statement_log pkCols es dryRun st v xs v')"
  using r
proof (elim disjE exE conjE)
  assume "rollbackWith db e l1 = (r, l')"
  then obtain b where "adds l1 l' [(''ROLLBACK'', [], b)]" "r = None \<or> r = Some (Inl e)" by (rule rollbackWith_adds)
  then show ?thesis using adds_trans [OF x(1)] x(2,3)
    by (intro exI [of _ "[x] @ [(''ROLLBACK'', [], b)]"]) (auto simp: step_log_def)
next
  assume "r = None" "l' = l1"
  then show ?thesis using x by (intro exI [of _ "[x]"]) (simp add: step_log_def)
next
  fix ys assume ys: "adds l1 l' ys" "step_log r ys" "\<forall>v'. r = Some (Inr v') \<longrightarrow> statement_log pkCols es dryRun st v (x # ys) v'"
  have "step_log r ([x] @ ys)" using ys(2) x(2,3) by (intro step_log_append) simp_all
  then show ?thesis using adds_trans [OF x(1) ys(1)] ys(3) by (intro exI [of _ "x # ys"]) simp
qed

lemma one_statement:
  assumes run: "applyStatement db overwrite dryRun qn pkCols es st v l = (r, l')" and u: "rSQL st \<noteq> [] \<and> hd (rSQL st) = CHR ''U''"
  shows "\<exists>xs. adds l l' xs \<and> step_log r xs \<and> (\<forall>v'. r = Some (Inr v') \<longrightarrow> statement_log pkCols es dryRun st v xs v')"
proof -
  obtain out cs where v: "v = (out, cs)" by force
  obtain a l1 where s: "sqlExec db (rSQL st) (rArgs st) l = (a, l1)" by force
  let ?x = "(rSQL st, rArgs st, a)"
  have x: "adds l l1 [?x]" "\<not> commits ?x" "\<not> rollsBack ?x" using sqlExec_adds [OF s] u by auto
  note answered = one_statement_answered [OF x]
  have fail: ?thesis if "rollbackWith db e l1 = (r, l')" for e
    by (rule answered) (use that in blast)
  show ?thesis
  proof (cases a)
    case None
    then show ?thesis using run s v by (intro answered) (simp add: applyStatement_def Let_def)
  next
    case (Some b)
    show ?thesis
    proof (cases b)
      case (Inl err)
      then show ?thesis using run s v Some fail by (simp add: applyStatement_def Let_def)
    next
      case (Inr res)
      have a: "a = Some (Inr res)" using Some Inr by simp
      note run' = run [unfolded v applyStatement_def Let_def, simplified s a, simplified]
      have "RowsAffected res > 1 \<or> RowsAffected res < 0 \<or> RowsAffected res = 1 \<or> RowsAffected res = 0" by linarith
      then consider "RowsAffected res > 1 \<or> RowsAffected res < 0 \<or> len (resRows res) \<noteq> RowsAffected res"
        | "RowsAffected res = 1" "len (resRows res) = 1" | "RowsAffected res = 0" "resRows res = []"
        by (cases "len (resRows res) = RowsAffected res") auto
      then show ?thesis
      proof cases
        case 1
        then show ?thesis using run' fail by (auto split: if_splits)
      next
        case 2
        show ?thesis
        proof (cases "returnedKey pkCols res")
          case None
          then show ?thesis using run' 2 fail by simp
        next
          case (Some vs)
          then have "resRows res = [Some vs]" "length vs = length pkCols"
            by (auto simp: returnedKey_def split: list.splits option.splits if_splits)
          then have one: "one_row pkCols st ?x vs" using 2 a by (simp add: one_row_def)
          show ?thesis
          proof (intro answered disjI2 exI conjI allI impI)
            show "adds l1 l' []" "step_log r []" using run' 2 Some by (auto simp: returning_def adds_def step_log_def)
            fix v' assume "r = Some (Inr v')"
            then show "statement_log pkCols es dryRun st v [?x] v'"
              using run' 2 Some one v by (auto simp: returning_def statement_log_def same_start_def)
          qed
        qed
      next
        case 3
        have no: "no_row st ?x" using 3 a by (simp add: no_row_def)
        consider "overwrite" | "\<not> overwrite" "dryRun" | "\<not> overwrite" "\<not> dryRun" by blast
        then show ?thesis
        proof cases
          case 1
          then show ?thesis using run' 3 fail by simp
        next
          case 2
          show ?thesis
          proof (intro answered disjI2 exI conjI allI impI)
            show "adds l1 l' []" "step_log r []" using run' 2 3 by (auto simp: returning_def adds_def step_log_def)
            fix v' assume "r = Some (Inr v')"
            then show "statement_log pkCols es dryRun st v [?x] v'"
              using run' 2 3 no v by (auto simp: returning_def statement_log_def same_start_def)
          qed
        next
          case miss: 3
          obtain c l2 where f: "fetchConflicts db qn pkCols (map (\<lambda>i. es ! i) (EditIndexes st)) cs l1 = (c, l2)" by force
          obtain ys where ys: "adds l1 l2 ys" "step_log c ys"
            "\<forall>cs'. c = Some (Inr cs') \<longrightarrow> map Edit cs' = map Edit cs @ map (\<lambda>i. es ! i) (EditIndexes st)"
            using fetchConflicts_adds [OF f] by blast
          show ?thesis
          proof (intro answered disjI2 exI conjI allI impI)
            show "adds l1 l' ys" using run' 3 miss f ys(1) by (auto simp: andThen_def returning_def split: option.splits sum.splits)
            show "step_log r ys" using run' 3 miss f ys(2)
              by (auto simp: andThen_def returning_def step_log_def split: option.splits sum.splits)
            fix v' assume r: "r = Some (Inr v')"
            then obtain cs' where c: "c = Some (Inr cs')" using run' 3 miss f by (auto simp: andThen_def split: option.splits sum.splits)
            then show "statement_log pkCols es dryRun st v (?x # ys) v'"
              using run' 3 miss f ys(2,3) no v r by (auto simp: andThen_def returning_def statement_log_def same_start_def step_log_def)
          qed
        qed
      qed
    qed
  qed
qed

section \<open>The whole batch\<close>

definition batch_done :: "string list \<Rightarrow> PendingEdit list \<Rightarrow> bool \<Rightarrow> RowUpdateStatement list \<Rightarrow> ApplyResult \<times> ConflictedEdit list \<Rightarrow>
    (string \<times> gval list \<times> answer) list \<Rightarrow> ApplyResult \<times> ConflictedEdit list \<Rightarrow> bool" where
  "batch_done pkCols es dryRun batch v xs v' \<longleftrightarrow>
     (let (out, cs) = v; (out', cs') = v' in
      same_start out out' \<and> (dryRun \<longrightarrow> cs' = cs) \<and>
      (\<not> dryRun \<longrightarrow> (\<exists>ms ks. batch_log pkCols es batch xs ms ks \<and> map Edit cs' = map Edit cs @ ms \<and>
          OriginalPKs out' = OriginalPKs out @ map fst ks \<and> ResultPKs out' = ResultPKs out @ map snd ks)))"

lemma batch_done_step:
  assumes "statement_log pkCols es dryRun st v xs v1" "batch_done pkCols es dryRun batch v1 ys v'"
  shows "batch_done pkCols es dryRun (st # batch) v (xs @ ys) v'"
proof -
  obtain out cs out1 cs1 out' cs' where v: "v = (out, cs)" "v1 = (out1, cs1)" "v' = (out', cs')" by (metis prod.collapse)
  show ?thesis
  proof (cases dryRun)
    case True
    then show ?thesis using assms by (auto simp: v statement_log_def batch_done_def same_start_def)
  next
    case False
    obtain ms ks where b: "batch_log pkCols es batch ys ms ks" "map Edit cs' = map Edit cs1 @ ms"
        "OriginalPKs out' = OriginalPKs out1 @ map fst ks" "ResultPKs out' = ResultPKs out1 @ map snd ks"
      using assms(2) False by (auto simp: v batch_done_def)
    have same: "same_start out out'" using assms by (auto simp: v statement_log_def batch_done_def same_start_def)
    from assms(1) have "(\<exists>x vs. xs = [x] \<and> one_row pkCols st x vs \<and> cs1 = cs \<and> OriginalPKs out1 = OriginalPKs out @ [OriginalPK st] \<and>
          ResultPKs out1 = ResultPKs out @ [vs]) \<or>
       (\<exists>x zs. xs = x # zs \<and> working zs \<and> no_row st x \<and> OriginalPKs out1 = OriginalPKs out \<and> ResultPKs out1 = ResultPKs out \<and>
          map Edit cs1 = map Edit cs @ map (\<lambda>i. es ! i) (EditIndexes st))"
      using False by (simp add: v statement_log_def)
    then show ?thesis
    proof (elim disjE exE conjE, goal_cases)
      case (1 x vs)
      show ?case using batch_log.hit [OF 1(2) b(1)] b(2-) 1 same False by (fastforce simp: v batch_done_def)
    next
      case (2 x zs)
      show ?case using batch_log.miss [OF 2(3,2) b(1)] b(2-) 2 same False by (fastforce simp: v batch_done_def)
    qed
  qed
qed

lemma whole_batch:
  "applyStatements db overwrite dryRun qn pkCols es batch v l = (r, l') \<Longrightarrow>
     list_all (\<lambda>st. rSQL st \<noteq> [] \<and> hd (rSQL st) = CHR ''U'') batch \<Longrightarrow>
     \<exists>xs. adds l l' xs \<and> step_log r xs \<and> (\<forall>v'. r = Some (Inr v') \<longrightarrow> batch_done pkCols es dryRun batch v xs v')"
proof (induction batch arbitrary: v l)
  case Nil
  have "batch_done pkCols es dryRun [] v [] v" using batch_log.no_more by (fastforce simp: batch_done_def same_start_def split: prod.split)
  then show ?case using Nil by (auto simp: returning_def adds_def step_log_def intro!: exI [of _ "[]"])
next
  case (Cons st batch)
  obtain a l1 where s: "applyStatement db overwrite dryRun qn pkCols es st v l = (a, l1)" by force
  obtain xs where xs: "adds l l1 xs" "step_log a xs" "\<forall>v'. a = Some (Inr v') \<longrightarrow> statement_log pkCols es dryRun st v xs v'"
    using one_statement [OF s] Cons.prems(2) by auto
  show ?case
  proof (cases "\<exists>v1. a = Some (Inr v1)")
    case True
    then obtain v1 where v1: "a = Some (Inr v1)" by blast
    then have "applyStatements db overwrite dryRun qn pkCols es batch v1 l1 = (r, l')" using Cons.prems(1) s by (simp add: andThen_def)
    from Cons.IH [OF this] Cons.prems(2) obtain ys where ys: "adds l1 l' ys" "step_log r ys"
      "\<forall>v'. r = Some (Inr v') \<longrightarrow> batch_done pkCols es dryRun batch v1 ys v'" by auto
    have "working xs" "statement_log pkCols es dryRun st v xs v1" using xs(2,3) v1 by (simp_all add: step_log_def)
    then show ?thesis using adds_trans [OF xs(1) ys(1)] step_log_append [OF _ ys(2)] ys(3) batch_done_step
      by (intro exI [of _ "xs @ ys"]) blast
  next
    case False
    then have "l' = l1" "step_log r xs" "\<nexists>v'. r = Some (Inr v')" using Cons.prems(1) s xs(2)
      by (auto simp: andThen_def step_log_def split: option.splits sum.splits)
    then show ?thesis using xs(1) by blast
  qed
qed

section \<open>Reading back\<close>

lemma refetch_starts: "refetchSQL qn pkCols pks = Some st \<Longrightarrow> starts (CHR ''S'') st"
proof -
  have s: "starts (CHR ''S'') (''SELECT * FROM '' @ qn @ '' WHERE '', [])" by (simp add: starts_def)
  assume "refetchSQL qn pkCols pks = Some st"
  then show ?thesis using s by (auto simp: refetchSQL_def Let_def split: if_splits intro!: starts_rules)
qed

lemma readBack_adds:
  assumes "readBack db qn pkCols out l = (r, l')"
  shows "\<exists>xs. adds l l' xs \<and> working xs \<and> (\<forall>out' cs err. r = Some (out', cs, err) \<longrightarrow>
    cs = [] \<and> same_start out out' \<and> OriginalPKs out' = OriginalPKs out \<and> ResultPKs out' = ResultPKs out)"
proof -
  obtain a l1 where f: "refetchByPK db qn pkCols (ResultPKs out) l = (a, l1)" by force
  have "l' = l1" "\<forall>out' cs err. r = Some (out', cs, err) \<longrightarrow>
      cs = [] \<and> same_start out out' \<and> OriginalPKs out' = OriginalPKs out \<and> ResultPKs out' = ResultPKs out"
    using assms f by (auto simp: readBack_def same_start_def split: option.splits sum.splits prod.splits bool.splits)
  moreover have "\<exists>xs. adds l l1 xs \<and> working xs"
  proof (cases "ResultPKs out = [] \<or> refetchSQL qn pkCols (ResultPKs out) = None")
    case True
    then show ?thesis using f adds_refl by (auto simp: refetchByPK_def split: if_splits intro!: exI [of _ "[]"])
  next
    case False
    then obtain st where st: "refetchSQL qn pkCols (ResultPKs out) = Some st" by auto
    obtain b l2 where s: "sqlExec db (fst st) (snd st) l = (b, l2)" by force
    have "l1 = l2" using f False st s by (auto simp: refetchByPK_def split: option.splits sum.splits)
    then show ?thesis using sqlExec_adds [OF s] refetch_starts [OF st]
      by (intro exI [of _ "[(fst st, snd st, b)]"]) (auto simp: starts_def)
  qed
  ultimately show ?thesis by blast
qed

section \<open>The transaction\<close>

text \<open>
  A log whose COMMIT was sent: before it every statement of the batch, each of which changed exactly
  its row, and nothing but reads after it.
\<close>

definition committing :: "string list \<Rightarrow> RowUpdateStatement list \<Rightarrow> ApplyResult \<Rightarrow> answer \<Rightarrow> (string \<times> gval list \<times> answer) list \<Rightarrow> bool" where
  "committing pkCols batch out a log \<longleftrightarrow>
     (\<exists>b updates rest. log = (''BEGIN'', [], Some (Inr b)) # updates @ (''COMMIT'', [], a) # rest \<and> working updates \<and> working rest \<and>
        OriginalPKs out = map OriginalPK batch \<and> length (ResultPKs out) = length batch \<and>
        list_all2 (\<lambda>(st, vs) x. one_row pkCols st x vs) (zip batch (ResultPKs out)) updates)"

text \<open>A log that left nothing behind: no statement, a failed BEGIN, or a ROLLBACK at the end.\<close>

definition undone :: "(string \<times> gval list \<times> answer) list \<Rightarrow> bool" where
  "undone log \<longleftrightarrow> log = [] \<or> (\<exists>e. log = [(''BEGIN'', [], Some (Inl e))]) \<or>
     (\<exists>b ys a. log = (''BEGIN'', [], Some (Inr b)) # ys @ [(''ROLLBACK'', [], a)] \<and> working ys)"

definition transaction_ok :: "PendingEditSet \<Rightarrow> string list \<Rightarrow> bool \<Rightarrow> RowUpdateStatement list \<Rightarrow> applied go \<Rightarrow> PendingEditSet \<Rightarrow>
    (string \<times> gval list \<times> answer) list \<Rightarrow> bool" where
  "transaction_ok s pkCols dryRun batch r s' log \<longleftrightarrow>
     (case r of
        None \<Rightarrow> dryRun \<longrightarrow> list_all (\<lambda>x. \<not> commits x) log
      | Some (out, conflicts, err) \<Rightarrow>
          (Committed out \<longrightarrow> \<not> dryRun \<and> conflicts = [] \<and> \<not> CommitUnknown out \<and> s' = s \<and>
             (\<exists>res. committing pkCols batch out (Some (Inr res)) log)) \<and>
          (CommitUnknown out \<longrightarrow> \<not> dryRun \<and> conflicts = [] \<and> err \<noteq> None \<and>
             (\<exists>e. committing pkCols batch out (Some (Inl e)) log)) \<and>
          (\<not> Committed out \<and> \<not> CommitUnknown out \<longrightarrow> s' = s \<and> undone log) \<and>
          (conflicts \<noteq> [] \<longrightarrow> err = None \<and> set (map Edit conflicts) \<subseteq> set (Edits s)))"

lemma batch_log_edits:
  "batch_log pkCols es batch xs ms ks \<Longrightarrow> list_all (\<lambda>st. \<forall>i \<in> set (EditIndexes st). i < length es) batch \<Longrightarrow> set ms \<subseteq> set es"
  by (induction rule: batch_log.induct) auto

lemma batch_log_committing:
  "batch_log pkCols es batch xs ms ks \<Longrightarrow> ms = [] \<Longrightarrow> list_all (\<lambda>st. EditIndexes st \<noteq> []) batch \<Longrightarrow>
     map fst ks = map OriginalPK batch \<and> length ks = length batch \<and> list_all2 (\<lambda>(st, vs) x. one_row pkCols st x vs) (zip batch (map snd ks)) xs"
  by (induction rule: batch_log.induct) auto

lemma applyTransaction_ok:
  assumes run: "applyTransaction db s pkCols dryRun overwrite batch l = (r, s', l')"
    and st: "list_all (\<lambda>st. rSQL st \<noteq> [] \<and> hd (rSQL st) = CHR ''U'' \<and> EditIndexes st \<noteq> [] \<and> (\<forall>i \<in> set (EditIndexes st). i < length (Edits s))) batch"
  shows "\<exists>log. adds l l' log \<and> transaction_ok s pkCols dryRun batch r s' log"
proof -
  define qn where "qn = QuoteQualified (fst (Table s)) (snd (Table s))"
  define out0 where "out0 = nothingApplied\<lparr>Identity := s_identity s, aEdits := Edits s, aRowsAffected := replicate (length (Edits s)) 0\<rparr>"
  have out0: "\<not> Committed out0" "\<not> CommitUnknown out0" "OriginalPKs out0 = []" "ResultPKs out0 = []" by (simp_all add: out0_def nothingApplied_def)
  note run' = run [unfolded applyTransaction_def Let_def, folded qn_def out0_def]
  obtain a l1 where b: "sqlExec db ''BEGIN'' [] l = (a, l1)" by force
  note xb = sqlExec_adds [OF b]
  show ?thesis
  proof (cases "\<exists>res. a = Some (Inr res)")
    case False
    then show ?thesis using run' b xb
      by (intro exI [of _ "[(''BEGIN'', [], a)]"])
        (auto simp: transaction_ok_def undone_def nothingApplied_def split: option.splits sum.splits)
  next
    case True
    then obtain res where a: "a = Some (Inr res)" by blast
    obtain c l2 where w: "applyStatements db overwrite dryRun qn pkCols (Edits s) batch (out0, []) l1 = (c, l2)" by force
    obtain xs where xs: "adds l1 l2 xs" "step_log c xs" "\<forall>v'. c = Some (Inr v') \<longrightarrow> batch_done pkCols (Edits s) dryRun batch (out0, []) xs v'"
      using whole_batch [OF w] st by (auto simp: list_all_iff)
    have x2: "adds l l2 ((''BEGIN'', [], a) # xs)" using adds_trans [OF xb xs(1)] by simp
    consider "c = None" | err where "c = Some (Inl err)" | out cs where "c = Some (Inr (out, cs))" by (metis not_None_eq obj_sumE prod.collapse)
    then show ?thesis
    proof cases
      case 1
      then have "r = None" "l' = l2" using run' b a w by simp_all
      then show ?thesis using x2 xs(2) 1 by (intro exI [of _ "(''BEGIN'', [], a) # xs"]) (auto simp: transaction_ok_def step_log_def)
    next
      case 2
      then have "r = Some (nothingApplied, [], Some err)" "s' = s" "l' = l2" using run' b a w by simp_all
      then show ?thesis using x2 xs(2) a 2
        by (intro exI [of _ "(''BEGIN'', [], a) # xs"]) (auto simp: transaction_ok_def step_log_def undone_def nothingApplied_def)
    next
      case (3 out cs)
      have wx: "working xs" and d: "batch_done pkCols (Edits s) dryRun batch (out0, []) xs (out, cs)" using 3 xs(2,3) by (simp_all add: step_log_def)
      have flags: "\<not> Committed out" "\<not> CommitUnknown out" using d out0 by (auto simp: batch_done_def same_start_def)
      show ?thesis
      proof (cases "cs \<noteq> [] \<or> dryRun")
        case True
        obtain e l3 where rb: "sqlExec db ''ROLLBACK'' [] l2 = (e, l3)" by force
        have "set (map Edit cs) \<subseteq> set (Edits s)"
        proof (cases dryRun)
          case True
          then show ?thesis using d by (simp add: batch_done_def)
        next
          case False
          then obtain ms ks where "batch_log pkCols (Edits s) batch xs ms ks" "map Edit cs = ms" using d by (auto simp: batch_done_def)
          then show ?thesis using batch_log_edits [of pkCols "Edits s" batch xs ms ks] st by (auto simp: list_all_iff)
        qed
        moreover have "l' = l3" "s' = s" "r = None \<or> r = Some (if cs \<noteq> [] then nothingApplied else out, cs, None)"
          using run' b a w 3 True rb by (cases e; auto simp: rollback_def split: if_splits)+
        moreover have "undone (((''BEGIN'', [], a) # xs) @ [(''ROLLBACK'', [], e)])" using wx a by (auto simp: undone_def)
        moreover have "list_all (\<lambda>x. \<not> commits x) (((''BEGIN'', [], a) # xs) @ [(''ROLLBACK'', [], e)])"
          using wx by (auto simp: working_def list_all_iff)
        ultimately show ?thesis using adds_trans [OF x2 sqlExec_adds [OF rb]] flags
          by (intro exI [of _ "((''BEGIN'', [], a) # xs) @ [(''ROLLBACK'', [], e)]"]) (auto simp: transaction_ok_def nothingApplied_def)
      next
        case False
        obtain e l3 where cm: "sqlExec db ''COMMIT'' [] l2 = (e, l3)" by force
        note x3 = adds_trans [OF x2 sqlExec_adds [OF cm]]
        obtain ks where ks: "batch_log pkCols (Edits s) batch xs [] ks" "OriginalPKs out = map fst ks" "ResultPKs out = map snd ks"
          using d False out0 by (auto simp: batch_done_def)
        note keys = batch_log_committing [OF ks(1) refl]
        have com: "committing pkCols batch out' e ((''BEGIN'', [], a) # xs @ (''COMMIT'', [], e) # rest)"
          if "working rest" "OriginalPKs out' = OriginalPKs out" "ResultPKs out' = ResultPKs out" for rest out'
          using that keys st ks(2,3) wx a by (auto simp: committing_def list_all_iff)
        consider "e = None" | er where "e = Some (Inl er)" | ok where "e = Some (Inr ok)" by (metis not_None_eq obj_sumE)
        then show ?thesis
        proof cases
          case 1
          then have "r = None" "l' = l3" using run' b a w 3 False cm by simp_all
          then show ?thesis using False x3 by (intro exI conjI) (assumption | simp add: transaction_ok_def)+
        next
          case (2 er)
          then have "r = Some (out\<lparr>CommitUnknown := True\<rparr>, [], Some (ErrCommitUnknown er))" "l' = l3"
            using run' b a w 3 False cm by simp_all
          then show ?thesis using 2 False x3 com [of "[]" "out\<lparr>CommitUnknown := True\<rparr>"] flags
            by (intro exI [of _ "((''BEGIN'', [], a) # xs) @ [(''COMMIT'', [], e)]"]) (auto simp: transaction_ok_def)
        next
          case (3 ok)
          obtain r' l4 where rb: "readBack db qn pkCols (out\<lparr>Committed := True\<rparr>) l3 = (r', l4)" by force
          obtain ys where ys: "adds l3 l4 ys" "working ys" "\<forall>out' cs err. r' = Some (out', cs, err) \<longrightarrow>
              cs = [] \<and> same_start (out\<lparr>Committed := True\<rparr>) out' \<and> OriginalPKs out' = OriginalPKs out \<and> ResultPKs out' = ResultPKs out"
            using readBack_adds [OF rb] by auto
          have "r = r'" "s' = s" "l' = l4" using run' b a w \<open>c = Some (Inr (out, cs))\<close> 3 False cm rb by simp_all
          then show ?thesis using 3 False ys(3) adds_trans [OF x3 ys(1)] com [OF ys(2)] flags
            by (intro exI [of _ "((''BEGIN'', [], a) # xs) @ [(''COMMIT'', [], e)] @ ys"])
              (cases r'; auto simp: transaction_ok_def same_start_def intro!: exI [of _ ok])
        qed
      qed
    qed
  qed
qed

lemma batch_statements:
  assumes "BuildUpdateBatch enc (Table s) pkCols (Edits s) SQLModeParameterized guard = Inr batch"
  shows "list_all (\<lambda>st. rSQL st \<noteq> [] \<and> hd (rSQL st) = CHR ''U'' \<and> EditIndexes st \<noteq> [] \<and> (\<forall>i \<in> set (EditIndexes st). i < length (Edits s))) batch"
proof -
  have "statement_ok (Table s) pkCols guard (Edits s) st" if "st \<in> set batch" for st
    using batch_ok [OF assms] that by (simp add: list_all_iff)
  moreover from this have "rSQL st \<noteq> [] \<and> hd (rSQL st) = CHR ''U''" if "st \<in> set batch" for st using that update_starts by blast
  ultimately show ?thesis by (auto simp: list_all_iff statement_ok_def Let_def group_ok_def)
qed

lemma refused_apply_ok: "\<exists>err. r = Some (nothingApplied, [], err) \<Longrightarrow> transaction_ok s pkCols dryRun batch r s []"
  by (auto simp: transaction_ok_def nothingApplied_def undone_def)

lemma cellApply_cases:
  assumes "cellApply enc (Some db) (Some s) pkCols dryRun overwrite l = (r, s', l')"
  obtains (refused) "s' = Some s" "adds l l' []" "r = None \<or> (\<exists>err. r = Some (nothingApplied, [], err))"
  | (ran) batch w t l1 where "BuildUpdateBatch enc (Table s) pkCols (Edits s) SQLModeParameterized (\<not> overwrite) = Inr batch"
      "applyTransaction db s pkCols dryRun overwrite batch (l\<lparr>world := w\<rparr>) = (r, t, l1)" "s' = Some t" "sent l' = sent l1"
proof (cases "CommitOutcomeUnknown s \<or> IsEmpty s \<or> pkCols = [] \<or> EditIdentity_Validate (s_identity s) \<noteq> None \<or>
    pkCols \<noteq> EditIdentity_Names (s_identity s) \<or> (\<exists>e. BuildUpdateBatch enc (Table s) pkCols (Edits s) SQLModeParameterized (\<not> overwrite) = Inl e)")
  case True
  have "\<exists>err. cellApply enc (Some db) (Some s) pkCols dryRun overwrite l = (Some (nothingApplied, [], err), Some s, l)"
    using True unfolding cellApply_def Let_def option.case by (elim disjE exE; cases "pkCols = EditIdentity_Names (s_identity s)"; simp)
  then show thesis using refused adds_refl assms by force
next
  case False
  then obtain batch where b: "BuildUpdateBatch enc (Table s) pkCols (Edits s) SQLModeParameterized (\<not> overwrite) = Inr batch" by (meson obj_sumE)
  obtain a w where q: "AcquireSession db (world l) = (a, w)" by force
  have eq: "cellApply enc (Some db) (Some s) pkCols dryRun overwrite l =
      (case (a, w) of
         (None, w) \<Rightarrow> (None, Some s, l\<lparr>world := w\<rparr>)
       | (Some (Some err), w) \<Rightarrow> (Some (nothingApplied, [], Some (ErrPoolExhausted err)), Some s, l\<lparr>world := w\<rparr>)
       | (Some None, w) \<Rightarrow>
           (case applyTransaction db s pkCols dryRun overwrite batch (l\<lparr>world := w\<rparr>) of
              (r, t, l') \<Rightarrow> (r, Some t, l'\<lparr>world := CloseSession db (world l')\<rparr>)))"
  proof -
    have "\<not> CommitOutcomeUnknown s" "\<not> IsEmpty s" "(pkCols = []) = False" "(EditIdentity_Validate (s_identity s) \<noteq> None) = False"
      "(pkCols \<noteq> EditIdentity_Names (s_identity s)) = False" using False by simp_all
    then show ?thesis unfolding cellApply_def Let_def option.case by (simp only: b q if_False sum.case)
  qed
  show thesis
  proof (cases "a = Some None")
    case True
    obtain r1 t l1 where t: "applyTransaction db s pkCols dryRun overwrite batch (l\<lparr>world := w\<rparr>) = (r1, t, l1)" by (metis prod.collapse)
    have "r1 = r" "s' = Some t" "sent l' = sent l1" using assms eq True t by auto
    then show thesis using ran [OF b, of w t l1] t by simp
  next
    case no: False
    have "s' = Some s \<and> sent l' = sent l \<and> (r = None \<or> (\<exists>err. r = Some (nothingApplied, [], err)))"
      using assms eq no by (auto split: option.splits)
    then show thesis using refused by (simp add: adds_def)
  qed
qed

lemma cell_apply_log:
  assumes "cellApply enc (Some db) (Some s) pkCols dryRun overwrite l = (r, s', l')"
  shows "\<exists>log batch t. sent l' = sent l @ log \<and> s' = Some t \<and> transaction_ok s pkCols dryRun batch r t log \<and>
    (log \<noteq> [] \<longrightarrow>
       list_all (statement_ok (Table s) pkCols (\<not> overwrite) (Edits s)) batch \<and>
       distinct (concat (map EditIndexes batch)) \<and> set (concat (map EditIndexes batch)) = {..<length (Edits s)} \<and>
       sorted_wrt (\<lambda>g h. \<not> RowIdentityEqual (OriginalPK g) (OriginalPK h)) batch)"
  using assms
proof (cases rule: cellApply_cases)
  case refused
  have "transaction_ok s pkCols dryRun [] r s []"
    using refused(3) refused_apply_ok by (elim disjE) (simp_all add: transaction_ok_def)
  then show ?thesis using refused by (auto simp: adds_def)
next
  case (ran batch w t l1)
  obtain log where log: "adds (l\<lparr>world := w\<rparr>) l1 log" "transaction_ok s pkCols dryRun batch r t log"
    using applyTransaction_ok [OF ran(2) batch_statements [OF ran(1)]] by blast
  then show ?thesis using ran(3,4) batch_ok [OF ran(1)] by (intro exI [of _ log] exI [of _ batch] exI [of _ t]) (simp add: adds_def)
qed


section \<open>A concrete transaction\<close>

definition sample_id :: EditIdentity where
  "sample_id = \<lparr>RelationOID = 7, Columns = [\<lparr>Attnum = 1, ColName = ''id''\<rparr>]\<rparr>"

definition sample_bound :: PendingEditSet where
  "sample_bound = fst (Add (fst (BindIdentity (newSet 1 (''public'', ''users'')) sample_id)) (sample_update ''name'' 5))"

definition sample_enc :: encoders where
  "sample_enc = \<lparr>formatFloat = \<lambda>_. ''0'', formatTime = \<lambda>_. '''', sprintValue = \<lambda>_. ''''\<rparr>"

text \<open>A server with one row, which answers COMMIT as it is told.\<close>

definition sample_answer :: "(db_error + Result) \<Rightarrow> string \<Rightarrow> db_error + Result" where
  "sample_answer c q =
     (if q = ''COMMIT'' then c
      else if hd q = CHR ''U'' then Inr \<lparr>resColumns = [], resRows = [Some [ScalarV ''int64'' (IntS 5)]], RowsAffected = 1\<rparr>
      else if hd q = CHR ''S'' then
        Inr \<lparr>resColumns = [Some (''id'', ''int8'')], resRows = [Some [ScalarV ''int64'' (IntS 5)]], RowsAffected = 1\<rparr>
      else Inr \<lparr>resColumns = [], resRows = [], RowsAffected = 0\<rparr>)"

definition sample_database :: "(db_error + Result) \<Rightarrow> unit database" where
  "sample_database c =
     \<lparr>AcquireSession = \<lambda>w. (Some None, w), Execute = \<lambda>q args w. (Some (sample_answer c q), w), CloseSession = \<lambda>w. w, timeNow = \<lambda>_. 0\<rparr>"

definition sample_done :: Result where
  "sample_done = \<lparr>resColumns = [], resRows = [], RowsAffected = 0\<rparr>"

definition sample_link :: "unit link" where
  "sample_link = \<lparr>world = (), sent = []\<rparr>"


end
