(* ===== verification/CommitOperationSpec.thy ===== *)
theory CommitOperationSpec
  imports CommitOperation CellApplySpec PendingEditsSpec
begin

text \<open>
  A commit of staged edits from the dialog to the settlement of the live set: who may start one, and
  that an edit leaves the set only when the server acknowledged it.
\<close>

section \<open>Capturing\<close>

lemma capture_accepts:
  assumes "capture_commit g a s conn selected overwrite = (Inr op, s1)"
  shows "\<not> ReadOnly conn" "overwrite \<Longrightarrow> \<not> ConfirmWrites conn"
    "\<exists>p. activeConnProfile g = Some p \<and> samePolicy p conn"
    "\<exists>r. pendingEditReg g = Some r \<and> map_option self (registry_Lookup r (activeConnID g) (Table s)) = Some (self s)"
    "BeginCommit s a selected = (s1, Inr (snapshot op))" "activeConnID g = Name conn"
    "\<exists>db. opHelper op = Some db" "opPkCols op = EditIdentity_Names (s_identity (snapshot op))" "live op = self s"
proof -
  note c = assms [unfolded capture_commit_def Let_def]
  have n: "\<not> (ReadOnly conn \<or> overwrite \<and> ConfirmWrites conn)" using c by (auto split: if_splits)
  then show "\<not> ReadOnly conn" "overwrite \<Longrightarrow> \<not> ConfirmWrites conn" by simp_all
  show p: "\<exists>p. activeConnProfile g = Some p \<and> samePolicy p conn" using c by (auto split: if_splits option.split_asm)
  show r: "\<exists>r. pendingEditReg g = Some r \<and> map_option self (registry_Lookup r (activeConnID g) (Table s)) = Some (self s)"
    using c by (auto split: if_splits option.split_asm)
  show "BeginCommit s a selected = (s1, Inr (snapshot op))" "activeConnID g = Name conn" "\<exists>db. opHelper op = Some db"
    "opPkCols op = EditIdentity_Names (s_identity (snapshot op))" "live op = self s"
    using c by (auto split: if_splits option.split_asm prod.split_asm sum.split_asm)
qed

lemma BeginCommit_snapshot:
  assumes "BeginCommit s a sel = (s1, Inr snap)"
  shows "self snap = a" "Table snap = Table s" "s_identity snap = s_identity s" "unknown snap = []"
  using assms by (auto simp: BeginCommit_def Let_def newSet_def split: if_splits option.split_asm)

section \<open>Running\<close>

text \<open>What a receipt says about the log.\<close>

definition receipt_ok :: "'w commitOperation \<Rightarrow> bool \<Rightarrow> commitReceipt \<Rightarrow> (string \<times> gval list \<times> answer) list \<Rightarrow> bool" where
  "receipt_ok op dryRun receipt log \<longleftrightarrow>
     (if Committed (result receipt) then
        \<not> dryRun \<and> \<not> CommitUnknown (result receipt) \<and> \<not> panicked receipt \<and>
        (\<exists>batch res. distinct (concat (map EditIndexes batch)) \<and> set (concat (map EditIndexes batch)) = {..<length (Edits (snapshot op))} \<and>
           committing (opPkCols op) batch (result receipt) (Some (Inr res)) log)
      else if CommitUnknown (result receipt) then
        \<not> dryRun \<and> (panicked receipt \<or> (\<exists>batch e. committing (opPkCols op) batch (result receipt) (Some (Inl e)) log))
      else list_all (\<lambda>x. \<not> commits x) log)"

lemma undone_no_commit: "undone log \<Longrightarrow> list_all (\<lambda>x. \<not> commits x) log"
  by (auto simp: undone_def working_def list_all_iff)

lemma run_commit_ok:
  assumes run: "run_commit enc op dryRun overwrite l = (receipt, l')" and db: "opHelper op = Some db" and ow: "overwrite \<Longrightarrow> \<not> dryRun"
  shows "\<exists>log. sent l' = sent l @ log \<and> receipt_ok op dryRun receipt log"
proof -
  obtain r s' l1 where c: "cellApply enc (Some db) (Some (snapshot op)) (opPkCols op) dryRun overwrite l = (r, s', l1)" by (metis prod.collapse)
  obtain log batch t where t: "sent l1 = sent l @ log" "transaction_ok (snapshot op) (opPkCols op) dryRun batch r t log"
     "log \<noteq> [] \<longrightarrow> distinct (concat (map EditIndexes batch)) \<and> set (concat (map EditIndexes batch)) = {..<length (Edits (snapshot op))}"
    using cell_apply_log [OF c] by blast
  have l': "l' = l1" and rec: "receipt = (case r of
        Some (out, cs, err) \<Rightarrow> \<lparr>result = out, rConflicts = (if overwrite then [] else cs), rErr = err, panicked = False\<rparr>
      | None \<Rightarrow> \<lparr>result = nothingApplied\<lparr>CommitUnknown := \<not> dryRun\<rparr>, rConflicts = [], rErr = None, panicked = True\<rparr>)"
    using run c db ow by (auto simp: run_commit_def execute_commit_def CellApplyHelper_Overwrite_def CellApplyHelper_Apply_def split: option.split_asm if_splits)
  show ?thesis
  proof (cases r)
    case None
    then show ?thesis using t l' rec by (auto simp: receipt_ok_def transaction_ok_def nothingApplied_def)
  next
    case (Some x)
    then obtain out cs err where r: "r = Some (out, cs, err)" by (metis prod.collapse)
    have "log \<noteq> []" if "committing (opPkCols op) batch out a log" for a using that by (auto simp: committing_def)
    then show ?thesis using t l' rec r by (auto simp: receipt_ok_def transaction_ok_def intro!: undone_no_commit)
  qed
qed

section \<open>Settling\<close>


section \<open>A concrete commit\<close>

definition sample_conn :: Connection where
  "sample_conn = \<lparr>Name = ''db'', Driver = ''postgres'', DSN = '''', Host = ''localhost'', Port = 5432, User = ''u'', Database = ''d'',
     SSLMode = '''', CLIAccess = '''', ReadOnly = False, CLIHistory = False, ConfirmWrites = True, ConfirmDDL = False,
     StatementTimeout = '''', Role = ''''\<rparr>"

definition sample_gui :: "unit gui" where
  "sample_gui =
     (let v = \<lparr>gridId = 4, Editable = True, IdentityRef = (''public'', ''users''), gridIdentity = sample_id, CommitGeneration = 0\<rparr>;
          tab = \<lparr>tabId = 3, tabConn = ''db'', EditabilityGeneration = 0, tabGrid = Some v\<rparr>
      in \<lparr>tabsWired = True, activeConnProfile = Some sample_conn, activeConnID = ''db'',
         pendingEditReg = Some [((''db'', (''public'', ''users'')), sample_bound)], activeTab = Some tab, allTabs = [tab], closed = False,
         owner_of = Some \<lparr>ownerId = 9, published = True, connection = Some (sample_database (Inr sample_done)), profile = ''db'', retired = False\<rparr>,
         canHoldBusy = True, connectGen = 1\<rparr>)"

lemma sample_bound_run: "pes_run (newSet 1 (''public'', ''users'')) sample_bound"
proof -
  let ?b = "fst (BindIdentity (newSet 1 (''public'', ''users'')) sample_id)"
  have "pes_run (newSet 1 (''public'', ''users'')) ?b" "pes_run ?b sample_bound"
    unfolding sample_bound_def using pes_step.bind pes_step.add by blast+
  then show ?thesis by (rule rtranclp_trans)
qed


end
