(* ===== verification/Editability.thy ===== *)
theory Editability
  imports PendingEdits
begin

text \<open>
  Which results can be edited (\<open>pkg/drivers/pg/editability.go\<close>): every column from one ordinary base
  table, and a smallest key of it among the selected columns, by position.  The catalogue query is a
  parameter; its row per relation is \<open>relRow\<close>.
\<close>

section \<open>Columns and the catalogue\<close>

record ColumnMeta =
  cName :: string
  PhysicalName :: string
  TableOID :: nat
  TableAttributeNumber :: nat

record relRow =
  OID :: nat
  RelKind :: string
  relSchema :: string
  relName :: string
  IsTempSchema :: bool
  PKAttnums :: "int list"
  UniqueAttnums :: "int list list"
  ColumnNames :: "(int \<times> string) list"

text \<open>The distinct elements in the order of their first occurrence.\<close>

fun firstSeen :: "'a list \<Rightarrow> 'a list \<Rightarrow> 'a list" where
  "firstSeen seen [] = []"
| "firstSeen seen (x # xs) = (if x \<in> set seen then firstSeen seen xs else x # firstSeen (x # seen) xs)"

section \<open>The smallest key\<close>

text \<open>\<open>uint16(a)\<close>, and the lowest position of an attribute among the selected columns.\<close>

definition uint16 :: "int \<Rightarrow> nat" where
  "uint16 a = nat (a mod 65536)"

definition firstIndex :: "ColumnMeta list \<Rightarrow> nat \<Rightarrow> nat option" where
  "firstIndex cols a =
     (if a = 0 then None else find (\<lambda>i. TableAttributeNumber (cols ! i) = a) [0..<length cols])"

text \<open>The positions of a key, \<open>None\<close> when an attribute is not a column or not selected.\<close>

fun keyPositions :: "ColumnMeta list \<Rightarrow> int list \<Rightarrow> nat list option" where
  "keyPositions cols [] = Some []"
| "keyPositions cols (a # as) =
     (if a \<le> 0 then None
      else case firstIndex cols (uint16 a) of
          None \<Rightarrow> None
        | Some i \<Rightarrow> map_option (\<lambda>is. i # is) (keyPositions cols as))"

definition keyCandidates :: "int list \<Rightarrow> int list list \<Rightarrow> int list list" where
  "keyCandidates pk uniques = (if pk \<noteq> [] then [pk] else []) @ filter (\<lambda>u. u \<noteq> []) uniques"

text \<open>\<open>sort.SliceStable\<close> by length, then the first candidate that is selected.\<close>

fun firstSelected :: "ColumnMeta list \<Rightarrow> int list list \<Rightarrow> nat list option" where
  "firstSelected cols [] = None"
| "firstSelected cols (k # ks) = (case keyPositions cols k of Some is \<Rightarrow> Some is | None \<Rightarrow> firstSelected cols ks)"

definition computeRowIdentity :: "ColumnMeta list \<Rightarrow> int list \<Rightarrow> int list list \<Rightarrow> nat list option" where
  "computeRowIdentity cols pk uniques =
     (let candidates = keyCandidates pk uniques
      in if candidates = [] then None else firstSelected cols (sort_key length candidates))"

section \<open>The decision\<close>

definition disabledReasonMultiTable :: string where "disabledReasonMultiTable = ''result spans multiple tables''"
definition disabledReasonComputed :: string where "disabledReasonComputed = ''result contains computed columns''"
definition disabledReasonView :: string where "disabledReasonView = ''base relation is a view''"
definition disabledReasonMatView :: string where "disabledReasonMatView = ''materialized view''"
definition disabledReasonForeign :: string where "disabledReasonForeign = ''foreign table''"
definition disabledReasonPartitioned :: string where "disabledReasonPartitioned = ''partitioned table''"
definition disabledReasonTemp :: string where "disabledReasonTemp = ''temporary table''"
definition disabledReasonNoRowIdentity :: string where "disabledReasonNoRowIdentity = ''no row identity''"
definition disabledReasonReadOnly :: string where "disabledReasonReadOnly = ''read-only connection''"
definition disabledReasonNoInlineEdit :: string where "disabledReasonNoInlineEdit = ''driver does not support inline edit''"

lemmas reasons = disabledReasonMultiTable_def disabledReasonComputed_def disabledReasonView_def disabledReasonMatView_def
  disabledReasonForeign_def disabledReasonPartitioned_def disabledReasonTemp_def disabledReasonNoRowIdentity_def
  disabledReasonReadOnly_def disabledReasonNoInlineEdit_def

type_synonym table_ref = "string \<times> string"

text \<open>The relation, the positions, the reason why not, and the error.\<close>

type_synonym decision = "table_ref \<times> nat list \<times> string \<times> string option"

definition introspectFailed :: "string \<Rightarrow> decision" where
  "introspectFailed e = (let w = ''introspection failed: '' @ e in (('''', ''''), [], w, Some w))"

definition kindReason :: "string \<Rightarrow> string option" where
  "kindReason kind =
     (if kind = ''v'' then Some disabledReasonView
      else if kind = ''m'' then Some disabledReasonMatView
      else if kind = ''f'' then Some disabledReasonForeign
      else if kind = ''p'' then Some disabledReasonPartitioned
      else if kind = ''r'' then None
      else Some disabledReasonNoRowIdentity)"

definition decideEditability :: "ColumnMeta list \<Rightarrow> (nat list \<Rightarrow> string + relRow list) \<Rightarrow> decision" where
  "decideEditability cols introspect =
     (if cols = [] then (('''', ''''), [], disabledReasonComputed, None)
      else if list_ex (\<lambda>c. TableOID c = 0) cols then (('''', ''''), [], disabledReasonComputed, None)
      else
        let oids = firstSeen [] (map TableOID cols) in
        if length oids > 1 then (('''', ''''), [], disabledReasonMultiTable, None)
        else case introspect oids of
            Inl e \<Rightarrow> introspectFailed e
          | Inr [] \<Rightarrow> introspectFailed ''relation not found''
          | Inr (r # _) \<Rightarrow>
              (let ref = (relSchema r, relName r) in
               if IsTempSchema r then (ref, [], disabledReasonTemp, None)
               else case kindReason (RelKind r) of
                   Some reason \<Rightarrow> (ref, [], reason, None)
                 | None \<Rightarrow>
                     (case computeRowIdentity cols (PKAttnums r) (UniqueAttnums r) of
                        None \<Rightarrow> (ref, [], disabledReasonNoRowIdentity, None)
                      | Some rowID \<Rightarrow> (ref, rowID, '''', None))))"

text \<open>
  The rows the introspection returned, none when it was not asked or failed; \<open>int32\<close> of an attribute
  number is the number.
\<close>

definition introspected :: "ColumnMeta list \<Rightarrow> (nat list \<Rightarrow> string + relRow list) \<Rightarrow> relRow list" where
  "introspected cols introspect =
     (if cols = [] \<or> list_ex (\<lambda>c. TableOID c = 0) cols \<or> length (firstSeen [] (map TableOID cols)) > 1 then []
      else case introspect (firstSeen [] (map TableOID cols)) of Inl _ \<Rightarrow> [] | Inr rows \<Rightarrow> rows)"

definition physicalName :: "relRow \<Rightarrow> ColumnMeta \<Rightarrow> string" where
  "physicalName r c =
     (case map_of (ColumnNames r) (int (TableAttributeNumber c)) of None \<Rightarrow> '''' | Some n \<Rightarrow> n)"

text \<open>The loop that fills in the physical names and withdraws editability when one is missing.\<close>

fun resolveColumns :: "relRow \<Rightarrow> ColumnMeta list \<Rightarrow> nat list \<times> string \<Rightarrow> ColumnMeta list \<times> nat list \<times> string" where
  "resolveColumns r [] (identity, reason) = ([], identity, reason)"
| "resolveColumns r (c # cs) (identity, reason) =
     (let c' = (if TableOID c = OID r then c\<lparr>PhysicalName := physicalName r c\<rparr> else c);
          missing = (reason = '''' \<and> PhysicalName c' = '''');
          (cs', v) = resolveColumns r cs (if missing then ([], ''physical column names unavailable'') else (identity, reason))
      in (c' # cs', v))"

definition ResolveEditability :: "ColumnMeta list \<Rightarrow> (nat list \<Rightarrow> string + relRow list) \<Rightarrow>
    table_ref \<times> nat list \<times> string \<times> ColumnMeta list \<times> string option" where
  "ResolveEditability cols introspect =
     (let resolved = map (\<lambda>c. c\<lparr>PhysicalName := ''''\<rparr>) cols;
          (ref, identity, reason, err) = decideEditability resolved introspect
      in case (err, introspected resolved introspect) of
           (None, [r]) \<Rightarrow>
             (case resolveColumns r resolved (identity, reason) of
                (cs, identity', reason') \<Rightarrow> (ref, identity', reason', cs, err))
         | _ \<Rightarrow> (ref, identity, reason, resolved, err))"

definition EditabilityIntrospect :: "ColumnMeta list \<Rightarrow> (nat list \<Rightarrow> string + relRow list) \<Rightarrow> decision" where
  "EditabilityIntrospect cols introspect =
     (case ResolveEditability cols introspect of (ref, identity, reason, _, err) \<Rightarrow> (ref, identity, reason, err))"

definition ApplyConnectionGate :: "bool \<Rightarrow> string \<Rightarrow> bool \<Rightarrow> bool \<Rightarrow> bool \<times> string" where
  "ApplyConnectionGate editable currentReason connReadOnly supportsInlineEdit =
     (if connReadOnly then (False, disabledReasonReadOnly)
      else if \<not> supportsInlineEdit then (False, disabledReasonNoInlineEdit)
      else (editable, currentReason))"

section \<open>What an identity is\<close>

text \<open>A key whose attributes are all selected, and the positions of their first occurrences.\<close>

definition selected_key :: "ColumnMeta list \<Rightarrow> int list \<Rightarrow> nat list \<Rightarrow> bool" where
  "selected_key cols key is \<longleftrightarrow>
     length is = length key \<and>
     (\<forall>j < length key. 0 < key ! j \<and> is ! j < length cols \<and> TableAttributeNumber (cols ! (is ! j)) = uint16 (key ! j) \<and>
        uint16 (key ! j) \<noteq> 0 \<and> (\<forall>i < is ! j. TableAttributeNumber (cols ! i) \<noteq> uint16 (key ! j)))"

lemma firstIndex_Some:
  "firstIndex cols a = Some i \<longleftrightarrow> a \<noteq> 0 \<and> i < length cols \<and> TableAttributeNumber (cols ! i) = a \<and> (\<forall>i' < i. TableAttributeNumber (cols ! i') \<noteq> a)"
  by (auto simp: firstIndex_def find_Some_iff)

lemma keyPositions_Some: "keyPositions cols key = Some is \<longleftrightarrow> selected_key cols key is"
proof (induction key arbitrary: "is")
  case (Cons a key)
  have s: "selected_key cols (a # key) is \<longleftrightarrow>
      (\<exists>i js. is = i # js \<and> 0 < a \<and> firstIndex cols (uint16 a) = Some i \<and> selected_key cols key js)"
    unfolding selected_key_def firstIndex_Some by (cases "is") (auto simp: All_less_Suc2)
  show ?case unfolding s by (auto simp flip: Cons.IH split: option.splits)
qed (auto simp: selected_key_def)

lemma firstSelected_Some:
  assumes "firstSelected cols ks = Some is" "sorted (map length ks)"
  shows "\<exists>key \<in> set ks. selected_key cols key is \<and> (\<forall>k' \<in> set ks. \<forall>is'. selected_key cols k' is' \<longrightarrow> length key \<le> length k')"
  using assms
proof (induction ks)
  case (Cons k ks)
  show ?case
  proof (cases "keyPositions cols k")
    case None
    then have "\<nexists>is'. selected_key cols k is'" using keyPositions_Some by (metis option.distinct(1))
    then show ?thesis using Cons None by auto
  next
    case (Some js)
    then have "selected_key cols k is" using Cons.prems(1) by (simp flip: keyPositions_Some)
    then show ?thesis using Cons.prems(2) by auto
  qed
qed simp

lemma computeRowIdentity_key:
  assumes "computeRowIdentity cols pk uniques = Some is"
  shows "\<exists>key \<in> set (keyCandidates pk uniques). selected_key cols key is \<and>
    (\<forall>k' \<in> set (keyCandidates pk uniques). \<forall>is'. selected_key cols k' is' \<longrightarrow> length key \<le> length k')"
  using assms firstSelected_Some [of cols "sort_key length (keyCandidates pk uniques)" "is"]
  by (auto simp: computeRowIdentity_def Let_def split: if_splits)

lemma firstSeen_all: "x \<in> set xs \<Longrightarrow> x \<in> set seen \<or> x \<in> set (firstSeen seen xs)"
  by (induction seen xs rule: firstSeen.induct) auto

lemma firstSelected_None: "firstSelected cols ks = None \<longleftrightarrow> (\<forall>k \<in> set ks. \<forall>is. \<not> selected_key cols k is)"
  by (induction ks) (auto simp: keyPositions_Some [symmetric] split: option.splits)

lemma computeRowIdentity_None:
  "computeRowIdentity cols pk uniques = None \<longleftrightarrow> (\<forall>k \<in> set (keyCandidates pk uniques). \<forall>is. \<not> selected_key cols k is)"
  by (auto simp: computeRowIdentity_def Let_def firstSelected_None)

lemma keyCandidates_ne: "k \<in> set (keyCandidates pk uniques) \<Longrightarrow> k \<noteq> []"
  by (auto simp: keyCandidates_def split: if_splits)

lemma firstSeen_subset: "set (firstSeen seen xs) \<subseteq> set xs - set seen"
  by (induction seen xs rule: firstSeen.induct) auto

lemma firstSeen_one:
  assumes "length (firstSeen [] xs) \<le> 1" "xs \<noteq> []"
  shows "\<exists>x. firstSeen [] xs = [x] \<and> set xs = {x}"
proof -
  obtain x where x: "x \<in> set xs" using assms(2) by fastforce
  then have "x \<in> set (firstSeen [] xs)" using firstSeen_all [of x xs "[]"] by simp
  then have f: "firstSeen [] xs = [x]" using assms(1) by (cases "firstSeen [] xs") auto
  have "set xs \<subseteq> {x}" using firstSeen_all [of _ xs "[]"] f by auto
  then show ?thesis using f x by auto
qed

lemma firstSeen_same: "set xs = {x} \<Longrightarrow> firstSeen [] xs = [x]"
proof (cases xs)
  case (Cons y ys)
  assume s: "set xs = {x}"
  then have "y = x" "set ys \<subseteq> {x}" using Cons by auto
  then have "firstSeen [x] ys = []" using firstSeen_subset [of "[x]" ys] by (cases "firstSeen [x] ys") auto
  then show ?thesis using Cons \<open>y = x\<close> by simp
qed simp

text \<open>The conditions under which a result can be edited.\<close>

definition editable_result :: "ColumnMeta list \<Rightarrow> nat \<Rightarrow> relRow \<Rightarrow> bool" where
  "editable_result cols oid r \<longleftrightarrow>
     oid \<noteq> 0 \<and> set (map TableOID cols) = {oid} \<and> \<not> IsTempSchema r \<and> RelKind r = ''r'' \<and>
     (\<exists>key \<in> set (keyCandidates (PKAttnums r) (UniqueAttnums r)). \<exists>is. selected_key cols key is)"

lemma kindReason_None: "kindReason k = None \<longleftrightarrow> k = ''r''" and kindReason_ne: "kindReason k = Some x \<Longrightarrow> x \<noteq> ''''"
  by (auto simp: kindReason_def reasons split: if_splits)

lemma decided:
  assumes "decideEditability cols introspect = (ref, ids, reason, err)"
  shows "(reason = '''' \<longleftrightarrow> (\<exists>oid r rs. introspect [oid] = Inr (r # rs) \<and> editable_result cols oid r)) \<and>
    (reason = '''' \<longrightarrow> err = None \<and> (\<exists>oid r rs. introspect [oid] = Inr (r # rs) \<and> editable_result cols oid r \<and>
       computeRowIdentity cols (PKAttnums r) (UniqueAttnums r) = Some ids \<and> ref = (relSchema r, relName r))) \<and>
    (reason \<noteq> '''' \<longrightarrow> ids = [])"
proof (cases "cols = [] \<or> list_ex (\<lambda>c. TableOID c = 0) cols \<or> length (firstSeen [] (map TableOID cols)) > 1")
  case True
  have "\<not> editable_result cols oid r" for oid r
  proof
    assume e: "editable_result cols oid r"
    then have "\<forall>c \<in> set cols. TableOID c = oid" "oid \<noteq> 0" "cols \<noteq> []" by (auto simp: editable_result_def)
    then show False using True firstSeen_same [of "map TableOID cols" oid] e by (auto simp: editable_result_def list_ex_iff)
  qed
  then show ?thesis using assms True by (auto simp: decideEditability_def Let_def reasons split: if_splits)
next
  case False
  then obtain oid where oid: "firstSeen [] (map TableOID cols) = [oid]" "set (map TableOID cols) = {oid}"
    using firstSeen_one [of "map TableOID cols"] by auto
  have "oid \<in> TableOID ` set cols" using oid(2) by simp
  then have nz: "oid \<noteq> 0" using False by (auto simp: list_ex_iff)
  have d: "decideEditability cols introspect =
     (case introspect [oid] of
            Inl e \<Rightarrow> introspectFailed e
          | Inr [] \<Rightarrow> introspectFailed ''relation not found''
          | Inr (r # _) \<Rightarrow>
              (let ref = (relSchema r, relName r) in
               if IsTempSchema r then (ref, [], disabledReasonTemp, None)
               else case kindReason (RelKind r) of
                   Some reason \<Rightarrow> (ref, [], reason, None)
                 | None \<Rightarrow>
                     (case computeRowIdentity cols (PKAttnums r) (UniqueAttnums r) of
                        None \<Rightarrow> (ref, [], disabledReasonNoRowIdentity, None)
                      | Some rowID \<Rightarrow> (ref, rowID, '''', None))))"
    using False oid(1) by (simp add: decideEditability_def Let_def)
  have same: "editable_result cols o' r \<Longrightarrow> o' = oid" for o' r using oid(2) by (auto simp: editable_result_def)
  show ?thesis
  proof (cases "\<exists>r rs. introspect [oid] = Inr (r # rs)")
    case False
    then show ?thesis using assms d same by (auto simp: introspectFailed_def Let_def split: sum.splits list.splits)
  next
    case True
    then obtain r rs where r: "introspect [oid] = Inr (r # rs)" by blast
    have e: "editable_result cols oid r \<longleftrightarrow> \<not> IsTempSchema r \<and> kindReason (RelKind r) = None \<and>
        computeRowIdentity cols (PKAttnums r) (UniqueAttnums r) \<noteq> None"
      unfolding editable_result_def kindReason_None computeRowIdentity_None using nz oid(2) by blast
    have ex: "(\<exists>o' r' rs'. introspect [o'] = Inr (r' # rs') \<and> editable_result cols o' r') \<longleftrightarrow> editable_result cols oid r"
    proof
      assume "\<exists>o' r' rs'. introspect [o'] = Inr (r' # rs') \<and> editable_result cols o' r'"
      then obtain o' r' rs' where x: "introspect [o'] = Inr (r' # rs')" "editable_result cols o' r'" by blast
      then have "o' = oid" using same by blast
      then show "editable_result cols oid r" using x r by simp
    qed (use r in blast)
    show ?thesis
    proof (cases "editable_result cols oid r")
      case True
      then obtain js where k: "\<not> IsTempSchema r" "kindReason (RelKind r) = None" "computeRowIdentity cols (PKAttnums r) (UniqueAttnums r) = Some js"
        using e by blast
      then have v: "ref = (relSchema r, relName r)" "ids = js" "reason = ''''" "err = None" using assms d r by (simp_all add: Let_def)
      show ?thesis using ex True r k(3) v by blast
    next
      case False
      then have "reason \<noteq> '''' \<and> ids = []"
        using assms d r e by (auto simp: Let_def reasons dest: kindReason_ne split: if_splits option.splits)
      then show ?thesis using ex False by blast
    qed
  qed
qed

text \<open>
  C9. A result can be edited exactly when it should be, and then its identity is a smallest key.  The
  decision gives no reason against editing exactly when all columns come from one relation that the
  catalogue knows as an ordinary, not temporary table with a key all of whose attributes are selected.
  The identity then consists of the positions of the attributes of such a key in the order of the key,
  each the first column of its attribute, and no selected key is smaller.  Otherwise there is no identity.
\<close>

theorem editable_identity_is_a_smallest_key:
  assumes "decideEditability cols introspect = (ref, ids, reason, err)"
  shows "(reason = '''' \<longleftrightarrow> (\<exists>oid r rs. introspect [oid] = Inr (r # rs) \<and> editable_result cols oid r)) \<and>
    (reason = '''' \<longrightarrow> (\<exists>oid r rs. introspect [oid] = Inr (r # rs) \<and> editable_result cols oid r \<and> ref = (relSchema r, relName r) \<and>
       (\<exists>key \<in> set (keyCandidates (PKAttnums r) (UniqueAttnums r)). key \<noteq> [] \<and> selected_key cols key ids \<and>
          (\<forall>k' \<in> set (keyCandidates (PKAttnums r) (UniqueAttnums r)). \<forall>is. selected_key cols k' is \<longrightarrow> length key \<le> length k')))) \<and>
    (reason \<noteq> '''' \<longrightarrow> ids = [])"
proof (cases "reason = ''''")
  case True
  then obtain oid r rs where r: "introspect [oid] = Inr (r # rs)" "editable_result cols oid r"
      "computeRowIdentity cols (PKAttnums r) (UniqueAttnums r) = Some ids" "ref = (relSchema r, relName r)"
    using decided [OF assms] by blast
  obtain key where key: "key \<in> set (keyCandidates (PKAttnums r) (UniqueAttnums r))" "selected_key cols key ids"
      "\<forall>k' \<in> set (keyCandidates (PKAttnums r) (UniqueAttnums r)). \<forall>is. selected_key cols k' is \<longrightarrow> length key \<le> length k'"
    using computeRowIdentity_key [OF r(3)] by blast
  show ?thesis using True r(1,2,4) key keyCandidates_ne [OF key(1)] by blast
next
  case False
  then show ?thesis using decided [OF assms] by blast
qed

definition sample_cols :: "ColumnMeta list" where
  "sample_cols = [\<lparr>cName = ''n'', PhysicalName = '''', TableOID = 7, TableAttributeNumber = 2\<rparr>,
     \<lparr>cName = ''id'', PhysicalName = '''', TableOID = 7, TableAttributeNumber = 1\<rparr>]"

definition sample_relation :: relRow where
  "sample_relation = \<lparr>OID = 7, RelKind = ''r'', relSchema = ''public'', relName = ''users'', IsTempSchema = False, PKAttnums = [1],
     UniqueAttnums = [[2, 3]], ColumnNames = [(1, ''id''), (2, ''name''), (3, ''mail'')]\<rparr>"

text \<open>This decision alone takes a self join, which has each attribute twice, for rows of the first occurrences;
  the gate on the query text (\<open>pkg/query/result_identity.go\<close>) keeps joins from being edited.\<close>

lemma repeated_columns_are_editable:
  "decideEditability (sample_cols @ sample_cols) (\<lambda>_. Inr [sample_relation]) = ((''public'', ''users''), [1], '''', None)"
  by code_simp

theorem editable_identity_is_a_smallest_key_witness:
  "\<exists>key. selected_key sample_cols key [1] \<and> key \<in> set (keyCandidates (PKAttnums sample_relation) (UniqueAttnums sample_relation))"
proof -
  have d: "decideEditability sample_cols (\<lambda>_. Inr [sample_relation]) = ((''public'', ''users''), [1], '''', None)" by code_simp
  show ?thesis using editable_identity_is_a_smallest_key [OF d] by auto
qed

end
