(* ===== verification/EditableGrid.thy ===== *)
theory EditableGrid
  imports Editability
begin

text \<open>
  What the result grid keeps for editing (\<open>pkg/gui/grid/view.go\<close>, \<open>update_rows.go\<close>,
  \<open>dirty_cell_render.go\<close>): its columns and loaded rows, the identity of a row, the generation a commit
  captured, and the baseline an edit was sampled at.  Widths, selection, scrolling, search and sorting of
  the same record are display state and left out; the cursor may move anywhere.  The counters are 64-bit
  and would need \<open>2 ^ 64\<close> changes to wrap.
\<close>

record grid_state =
  gCols :: "ColumnMeta list"
  gRows :: "gval list list"
  commitGeneration :: nat
  editBaseline :: nat
  baselineInvalid :: bool
  cursorRow :: int
  cursorCol :: int
  editable :: bool
  rowIdentity :: "int list"
  disabledReason :: string
  identityRef :: table_ref

definition NewGrid :: grid_state where
  "NewGrid = \<lparr>gCols = [], gRows = [], commitGeneration = 0, editBaseline = 0, baselineInvalid = False, cursorRow = 0, cursorCol = 0,
     editable = False, rowIdentity = [], disabledReason = '''', identityRef = ('''', '''')\<rparr>"

section \<open>Schema, rows, editability\<close>

definition SetColumns :: "grid_state \<Rightarrow> ColumnMeta list \<Rightarrow> grid_state" where
  "SetColumns v cols =
     v\<lparr>commitGeneration := commitGeneration v + 1, editBaseline := editBaseline v + 1, baselineInvalid := False, gCols := cols, gRows := [],
       cursorRow := 0, cursorCol := 0, editable := False, rowIdentity := [], disabledReason := '''', identityRef := ('''', '''')\<rparr>"

definition AppendRows :: "grid_state \<Rightarrow> gval list list \<Rightarrow> grid_state" where
  "AppendRows v rows = v\<lparr>gRows := gRows v @ rows\<rparr>"

definition setEditability :: "grid_state \<Rightarrow> bool \<Rightarrow> int list \<Rightarrow> string \<Rightarrow> table_ref \<Rightarrow> grid_state" where
  "setEditability v ed identity reason ref =
     (let v1 = v\<lparr>commitGeneration := commitGeneration v + 1, editBaseline := editBaseline v + 1\<rparr>
      in if baselineInvalid v then v1
         else v1\<lparr>editable := ed, rowIdentity := identity, disabledReason := reason, identityRef := ref\<rparr>)"

text \<open>A column that is not the one on display drops the whole decision.\<close>

definition sameColumn :: "ColumnMeta \<Rightarrow> ColumnMeta \<Rightarrow> bool" where
  "sameColumn a b \<longleftrightarrow> cName a = cName b \<and> TableOID a = TableOID b \<and> TableAttributeNumber a = TableAttributeNumber b"

definition SetResolvedEditability :: "grid_state \<Rightarrow> ColumnMeta list \<Rightarrow> bool \<Rightarrow> int list \<Rightarrow> string \<Rightarrow> table_ref \<Rightarrow> grid_state" where
  "SetResolvedEditability v cols ed identity reason ref =
     (if length cols \<noteq> length (gCols v) \<or> \<not> list_all2 sameColumn (gCols v) cols then v
      else
        let unnamed = ed \<and> list_ex (\<lambda>c. PhysicalName c = '''') cols
        in setEditability (v\<lparr>gCols := cols\<rparr>) (ed \<and> \<not> unnamed) identity
             (if unnamed then ''physical column names unavailable'' else reason) ref)"

section \<open>Identities\<close>

text \<open>Identity columns of more than one relation, or outside the columns, give the zero identity.\<close>

fun editIdentityFrom :: "ColumnMeta list \<Rightarrow> int list \<Rightarrow> EditIdentity \<Rightarrow> EditIdentity" where
  "editIdentityFrom cols [] i = i"
| "editIdentityFrom cols (idx # ids) i =
     (if idx < 0 \<or> idx \<ge> len cols then noIdentity
      else
        let col = cols ! nat idx in
        if RelationOID i \<noteq> 0 \<and> RelationOID i \<noteq> TableOID col then noIdentity
        else editIdentityFrom cols ids
          \<lparr>RelationOID = TableOID col, Columns = Columns i @ [\<lparr>Attnum = TableAttributeNumber col, ColName = PhysicalName col\<rparr>]\<rparr>)"

definition grid_EditIdentity :: "grid_state \<Rightarrow> EditIdentity" where
  "grid_EditIdentity v = editIdentityFrom (gCols v) (rowIdentity v) noIdentity"

text \<open>Nil, here the empty list, when the row is too short.\<close>

definition rowPKValues :: "gval list \<Rightarrow> int list \<Rightarrow> gval list" where
  "rowPKValues row identity =
     (if list_all (\<lambda>i. 0 \<le> i \<and> i < len row) identity then map (\<lambda>i. row ! nat i) identity else [])"

definition pkSliceEqual :: "gval list \<Rightarrow> gval list \<Rightarrow> bool" where
  "pkSliceEqual a b \<longleftrightarrow> list_all2 deepEqual a b"

section \<open>Refreshing rows\<close>

text \<open>The position of a column name in the refreshed rows: the last one of that name.\<close>

definition refIdx :: "string list \<Rightarrow> string \<Rightarrow> nat option" where
  "refIdx names n = map_of (rev (zip names [0..<length names])) n"

definition refreshed :: "ColumnMeta list \<Rightarrow> string list \<Rightarrow> gval list \<Rightarrow> gval list \<Rightarrow> gval list" where
  "refreshed cols names ref row =
     map (\<lambda>ci. if ci < length cols then
              (case refIdx names (PhysicalName (cols ! ci)) of
                 Some ri \<Rightarrow> if ri < length ref then ref ! ri else row ! ci
               | None \<Rightarrow> row ! ci)
            else row ! ci) [0..<length row]"

text \<open>
  The key a refreshed row is looked up by and the comparison: its original key, or the values of the
  identity columns in the row itself; \<open>None\<close> when the row is skipped.
\<close>

definition lookupKey :: "grid_state \<Rightarrow> string list \<Rightarrow> gval list \<Rightarrow> gval list option \<Rightarrow> gval list option" where
  "lookupKey v names ref original =
     (case original of
        Some pk \<Rightarrow> if length pk \<noteq> length (rowIdentity v) then None else Some pk
      | None \<Rightarrow>
          (let ris = map (\<lambda>i. case refIdx names (PhysicalName (gCols v ! nat i)) of Some ri \<Rightarrow> ri | None \<Rightarrow> 0) (rowIdentity v)
           in if list_all (\<lambda>ri. ri < length ref) ris then Some (map (\<lambda>ri. ref ! ri) ris) else None))"

definition rowMatches :: "grid_state \<Rightarrow> string list \<Rightarrow> gval list \<Rightarrow> gval list \<times> gval list option \<Rightarrow> bool" where
  "rowMatches v names row p =
     (case p of (ref, original) \<Rightarrow>
        (case lookupKey v names ref original of
           None \<Rightarrow> False
         | Some pk \<Rightarrow>
             if original = None then pkSliceEqual (rowPKValues row (rowIdentity v)) pk
             else RowIdentityEqual (rowPKValues row (rowIdentity v)) pk))"

text \<open>The last refreshed row that matches wins; \<open>None\<close> leaves the row.\<close>

definition newRow :: "grid_state \<Rightarrow> string list \<Rightarrow> (gval list \<times> gval list option) list \<Rightarrow> gval list \<Rightarrow> gval list option" where
  "newRow v names ps row =
     map_option (\<lambda>p. refreshed (gCols v) names (fst p) row) (find (rowMatches v names row) (rev ps))"

text \<open>\<open>originals\<close> is nil or has a key for every refreshed row.\<close>

definition updateRowsByPKLocked :: "grid_state \<Rightarrow> string list \<Rightarrow> gval list list \<Rightarrow> gval list list option \<Rightarrow> nat \<times> grid_state" where
  "updateRowsByPKLocked v names rows originals =
     (if names = [] \<or> rows = [] \<or> rowIdentity v = [] \<or> gRows v = [] then (0, v)
      else if list_ex (\<lambda>i. i < 0 \<or> i \<ge> len (gCols v)) (rowIdentity v) then (0, v)
      else if originals = None \<and> list_ex (\<lambda>i. refIdx names (PhysicalName (gCols v ! nat i)) = None) (rowIdentity v) then (0, v)
      else
        let ps = (case originals of None \<Rightarrow> map (\<lambda>r. (r, None)) rows | Some ks \<Rightarrow> zip rows (map Some ks));
            news = map (newRow v names ps) (gRows v);
            n = length (filter (\<lambda>x. x \<noteq> None) news)
        in if n = 0 then (0, v)
           else (n, v\<lparr>gRows := map2 (\<lambda>row x. case x of None \<Rightarrow> row | Some y \<Rightarrow> y) (gRows v) news, editBaseline := editBaseline v + 1\<rparr>))"

definition UpdateRowsByPK :: "grid_state \<Rightarrow> string list \<Rightarrow> gval list list \<Rightarrow> nat \<times> grid_state" where
  "UpdateRowsByPK v names rows = (if names = [] \<or> rows = [] then (0, v) else updateRowsByPKLocked v names rows None)"

text \<open>Outer \<open>None\<close>: \<open>Normalize\<close> panics; \<open>None\<close>: a key could not be normalised.\<close>

fun normalizeKeys :: "EditIdentity \<Rightarrow> EditIdentity \<Rightarrow> gval list list \<Rightarrow> gval list list option go" where
  "normalizeKeys target i [] = Some (Some [])"
| "normalizeKeys target i (pk # pks) = do {
     r \<leftarrow> Normalize target i pk;
     case r of
       Inl _ \<Rightarrow> Some None
     | Inr k \<Rightarrow> do { ks \<leftarrow> normalizeKeys target i pks; Some (map_option (\<lambda>ks. k # ks) ks) } }"

definition normalizeOriginalKeysLocked :: "grid_state \<Rightarrow> EditIdentity \<Rightarrow> gval list list \<Rightarrow> (gval list list \<times> bool) go" where
  "normalizeOriginalKeysLocked v i pks = do {
     ks \<leftarrow> normalizeKeys (grid_EditIdentity v) i pks;
     Some (case ks of None \<Rightarrow> ([], False) | Some ks \<Rightarrow> (ks, Compatible (grid_EditIdentity v) i)) }"

definition UpdateRowsFromOriginalPK :: "grid_state \<Rightarrow> EditIdentity \<Rightarrow> string list \<Rightarrow> gval list list \<Rightarrow> gval list list \<Rightarrow> (nat \<times> grid_state) go" where
  "UpdateRowsFromOriginalPK v i names rows pks =
     (if length pks \<noteq> length rows then Some (0, v)
      else do {
        (ks, ok) \<leftarrow> normalizeOriginalKeysLocked v i pks;
        Some (if \<not> ok then (0, v) else updateRowsByPKLocked (v\<lparr>editBaseline := editBaseline v + 1\<rparr>) names rows (Some ks)) })"

section \<open>Settling a commit\<close>

text \<open>Whether the refreshed rows replace everything the grid shows of them.\<close>

definition completeProjection :: "grid_state \<Rightarrow> string list \<Rightarrow> gval list list \<Rightarrow> bool" where
  "completeProjection v names rows \<longleftrightarrow>
     list_all (\<lambda>c. PhysicalName c \<noteq> '''' \<and> PhysicalName c \<in> set names) (gCols v) \<and>
     list_all (\<lambda>r. length r = length names) rows"

definition SettleCommittedRows :: "grid_state \<Rightarrow> nat \<Rightarrow> EditIdentity \<Rightarrow> string list \<Rightarrow> gval list list \<Rightarrow> gval list list \<Rightarrow> bool \<Rightarrow> grid_state go" where
  "SettleCommittedRows v generation i names rows originalPKs complete =
     (if generation \<noteq> commitGeneration v then Some v
      else do {
        let v1 = v\<lparr>editBaseline := editBaseline v + 1\<rparr>;
        (ks, compatible) \<leftarrow> normalizeOriginalKeysLocked v1 i originalPKs;
        let c1 = (complete \<and> compatible \<and> completeProjection v1 names rows);
        let (c2, v2) = (if rows = [] \<or> length rows \<noteq> length originalPKs \<or> \<not> compatible then (False, v1)
           else let (n, v2) = updateRowsByPKLocked v1 names rows (Some ks) in (c1 \<and> n = length rows, v2));
        Some (if c2 then v2
              else v2\<lparr>baselineInvalid := True, editable := False,
                disabledReason := ''committed rows require a query refresh before editing''\<rparr>) })"

section \<open>Sampling a cell and editing under its token\<close>

text \<open>The value, the column and the key of the cell under the cursor, and the baseline.\<close>

definition CellEditSnapshot :: "grid_state \<Rightarrow> (gval \<times> ColumnMeta \<times> gval list) option \<times> nat" where
  "CellEditSnapshot v =
     (let r = cursorRow v; c = cursorCol v in
      if r < 0 \<or> r \<ge> len (gRows v) \<or> c < 0 \<or> c \<ge> len (gCols v) then (None, editBaseline v)
      else
        let values = gRows v ! nat r in
        if c \<ge> len values then (None, editBaseline v)
        else if list_ex (\<lambda>i. i < 0 \<or> i \<ge> len values) (rowIdentity v) then (None, editBaseline v)
        else (Some (values ! nat c, gCols v ! nat c, map (\<lambda>i. values ! nat i) (rowIdentity v)), editBaseline v))"

text \<open>The error, or none when the callback runs.\<close>

definition WithEditBaseline :: "grid_state \<Rightarrow> nat \<Rightarrow> edit_error option" where
  "WithEditBaseline v baseline =
     (if baseline \<noteq> editBaseline v \<or> \<not> editable v then Some ErrCommitSnapshotStale else None)"

end
