(* ===== verification/EditableGridSpec.thy ===== *)
theory EditableGridSpec
  imports EditableGrid PendingEditsSpec
begin

text \<open>
  What the editing state of the grid guarantees: a token that is still accepted means the sampled cell is
  the one on display, and a settled commit either shows every committed row or ends editing until the next
  result.
\<close>

section \<open>Steps of the grid\<close>

inductive grid_op :: "grid_state \<Rightarrow> grid_state \<Rightarrow> bool" where
  append: "grid_op v (AppendRows v rows)"
| cursor: "grid_op v (v\<lparr>cursorRow := r, cursorCol := c\<rparr>)"
| decided: "grid_op v (setEditability v ed identity reason ref)"
| resolved: "grid_op v (SetResolvedEditability v cols ed identity reason ref)"
| by_key: "grid_op v (snd (UpdateRowsByPK v names rows))"
| by_original: "UpdateRowsFromOriginalPK v i names rows pks = Some (n, v') \<Longrightarrow> grid_op v v'"
| settle: "SettleCommittedRows v generation i names rows pks complete = Some v' \<Longrightarrow> grid_op v v'"

inductive grid_step :: "grid_state \<Rightarrow> grid_state \<Rightarrow> bool" where
  op: "grid_op v v' \<Longrightarrow> grid_step v v'"
| columns: "grid_step v (SetColumns v cols)"

section \<open>The baseline\<close>

text \<open>What one step may do: the same baseline leaves everything but appended rows, the cursor and \<open>editable\<close>.\<close>

definition same_cells :: "grid_state \<Rightarrow> grid_state \<Rightarrow> bool" where
  "same_cells v v' \<longleftrightarrow> gCols v' = gCols v \<and> rowIdentity v' = rowIdentity v \<and> identityRef v' = identityRef v \<and>
     commitGeneration v' = commitGeneration v \<and> editable v' = editable v \<and> (\<exists>rows. gRows v' = gRows v @ rows)"

definition advances_baseline :: "grid_state \<Rightarrow> grid_state \<Rightarrow> bool" where
  "advances_baseline v v' \<longleftrightarrow> editBaseline v \<le> editBaseline v' \<and> (editBaseline v' = editBaseline v \<longrightarrow> same_cells v v')"

lemma same_cells_refl: "same_cells v v"
  by (simp add: same_cells_def)

lemma advances_baseline_refl: "advances_baseline v v"
  by (simp add: advances_baseline_def same_cells_refl)

lemma advances_baseline_trans:
  "advances_baseline v v' \<Longrightarrow> advances_baseline v' v'' \<Longrightarrow> advances_baseline v v''"
  unfolding advances_baseline_def same_cells_def by (metis append_assoc dual_order.trans eq_iff)

lemma later_baseline: "editBaseline v < editBaseline v' \<Longrightarrow> advances_baseline v v'"
  by (simp add: advances_baseline_def)

lemma setEditability_baseline: "editBaseline (setEditability v ed identity reason ref) = editBaseline v + 1"
  by (simp add: setEditability_def Let_def)

lemma updateRows_cases:
  "updateRowsByPKLocked v names rows ks = (0, v) \<or> (\<exists>n news. updateRowsByPKLocked v names rows ks =
     (n, v\<lparr>gRows := map2 (\<lambda>row x. case x of None \<Rightarrow> row | Some y \<Rightarrow> y) (gRows v) news, editBaseline := editBaseline v + 1\<rparr>))"
  unfolding updateRowsByPKLocked_def Let_def by (simp only: split: if_split) blast

lemma updateRows_kept:
  "rowIdentity (snd (updateRowsByPKLocked v names rows ks)) = rowIdentity v"
  "gCols (snd (updateRowsByPKLocked v names rows ks)) = gCols v"
  "editable (snd (updateRowsByPKLocked v names rows ks)) = editable v"
  "baselineInvalid (snd (updateRowsByPKLocked v names rows ks)) = baselineInvalid v"
  "editBaseline v \<le> editBaseline (snd (updateRowsByPKLocked v names rows ks))"
  using updateRows_cases [of v names rows ks] by auto

lemma updateRows_advances: "advances_baseline v (snd (updateRowsByPKLocked v names rows ks))"
  using updateRows_cases [of v names rows ks] by (auto intro: advances_baseline_refl later_baseline)

lemma append_advances: "advances_baseline v (AppendRows v rows)"
  by (auto simp: advances_baseline_def same_cells_def AppendRows_def)

lemma cursor_advances: "advances_baseline v (v\<lparr>cursorRow := r, cursorCol := c\<rparr>)"
  by (simp add: advances_baseline_def same_cells_def)

lemma resolved_advances: "advances_baseline v (SetResolvedEditability v cols ed identity reason ref)"
  by (auto simp: SetResolvedEditability_def Let_def advances_baseline_refl setEditability_baseline intro!: later_baseline)

lemma by_key_advances: "advances_baseline v (snd (UpdateRowsByPK v names rows))"
  by (simp add: UpdateRowsByPK_def advances_baseline_refl updateRows_advances)

lemma updateRows_later:
  "editBaseline v < editBaseline (snd (updateRowsByPKLocked (v\<lparr>editBaseline := Suc (editBaseline v)\<rparr>) names rows ks))"
  using updateRows_kept(5) [of "v\<lparr>editBaseline := Suc (editBaseline v)\<rparr>" names rows ks] by simp

lemma by_original_advances:
  assumes "UpdateRowsFromOriginalPK v i names rows pks = Some (n, v')"
  shows "advances_baseline v v'"
proof -
  have "v' = v \<or> (\<exists>ks. v' = snd (updateRowsByPKLocked (v\<lparr>editBaseline := Suc (editBaseline v)\<rparr>) names rows (Some ks)))"
    using assms by (auto simp: UpdateRowsFromOriginalPK_def split: if_splits bind_splits prod.splits) (metis snd_conv)
  then show ?thesis using updateRows_later by (auto intro: advances_baseline_refl later_baseline)
qed

text \<open>The outcomes of settling: another generation, rows shown, or the baseline invalid.\<close>

lemma settle_cases:
  assumes "SettleCommittedRows v generation i names rows pks complete = Some v'"
  obtains "generation \<noteq> commitGeneration v" "v' = v"
  | ks where "generation = commitGeneration v" "rows \<noteq> []" "length pks = length rows" "complete"
      "normalizeOriginalKeysLocked (v\<lparr>editBaseline := Suc (editBaseline v)\<rparr>) i pks = Some (ks, True)"
      "completeProjection (v\<lparr>editBaseline := Suc (editBaseline v)\<rparr>) names rows"
      "updateRowsByPKLocked (v\<lparr>editBaseline := Suc (editBaseline v)\<rparr>) names rows (Some ks) = (length rows, v')"
  | "generation = commitGeneration v" "baselineInvalid v'" "\<not> editable v'" "editBaseline v < editBaseline v'"
proof -
  let ?v1 = "v\<lparr>editBaseline := Suc (editBaseline v)\<rparr>"
  show ?thesis
  proof (cases "generation = commitGeneration v")
    case True
    then obtain ks b where k: "normalizeOriginalKeysLocked ?v1 i pks = Some (ks, b)"
      using assms by (auto simp: SettleCommittedRows_def Let_def split: bind_splits)
    show ?thesis
    proof (cases "complete \<and> b \<and> completeProjection ?v1 names rows \<and> rows \<noteq> [] \<and> length pks = length rows \<and>
        fst (updateRowsByPKLocked ?v1 names rows (Some ks)) = length rows")
      case True
      then have "v' = snd (updateRowsByPKLocked ?v1 names rows (Some ks))"
        using assms k \<open>generation = _\<close> by (simp add: SettleCommittedRows_def Let_def split: prod.splits)
      then show ?thesis using True k \<open>generation = _\<close> that(2) [of ks] by (metis prod.collapse)
    next
      case False
      then have "baselineInvalid v' \<and> \<not> editable v' \<and>
          (editBaseline v' = Suc (editBaseline v) \<or> editBaseline v' = editBaseline (snd (updateRowsByPKLocked ?v1 names rows (Some ks))))"
        using assms k \<open>generation = _\<close> by (auto simp: SettleCommittedRows_def Let_def split: prod.splits if_splits)
      then show ?thesis using that(3) \<open>generation = _\<close> updateRows_later [of v names rows "Some ks"] by auto
    qed
  next
    case False
    then have "v' = v" using assms by (simp add: SettleCommittedRows_def)
    then show ?thesis using that(1) False by blast
  qed
qed

lemma settle_advances:
  assumes "SettleCommittedRows v generation i names rows pks complete = Some v'"
  shows "advances_baseline v v'"
  using assms
proof (cases rule: settle_cases)
  case (2 ks)
  then show ?thesis using updateRows_later [of v names rows "Some ks"] by (auto intro: later_baseline)
qed (auto intro: advances_baseline_refl later_baseline)

lemma op_advances: "grid_op v v' \<Longrightarrow> advances_baseline v v'"
  by (induction rule: grid_op.induct)
    (auto intro: append_advances cursor_advances resolved_advances by_key_advances by_original_advances settle_advances
      simp: setEditability_baseline intro!: later_baseline [of _ "setEditability _ _ _ _ _"])

lemma steps_advance: "grid_step\<^sup>*\<^sup>* v v' \<Longrightarrow> advances_baseline v v'"
proof (induction rule: rtranclp_induct)
  case (step y z)
  have "advances_baseline y z" using step(2)
    by cases (auto intro: op_advances later_baseline simp: SetColumns_def)
  then show ?case using step(3) by (rule advances_baseline_trans [rotated])
qed (rule advances_baseline_refl)

section \<open>Tokens\<close>

text \<open>
  C8. An edit token that is accepted stands for the cell on display.  When a cell was sampled and, after
  any number of steps of the grid, an edit under its token is accepted, then no result was installed, no
  identity decided and no row refreshed in between: the columns, the identity and the editability are those
  of the sample, rows were only appended, and the cell the cursor was on still gives the sampled value,
  column and key.
\<close>

theorem accepted_token_is_current:
  assumes "CellEditSnapshot v = (Some (value, col, pk), token)" "grid_step\<^sup>*\<^sup>* v v'" "WithEditBaseline v' token = None"
  shows "editable v \<and> gCols v' = gCols v \<and> rowIdentity v' = rowIdentity v \<and> grid_EditIdentity v' = grid_EditIdentity v \<and>
    identityRef v' = identityRef v \<and> (\<exists>rows. gRows v' = gRows v @ rows) \<and>
    CellEditSnapshot (v'\<lparr>cursorRow := cursorRow v, cursorCol := cursorCol v\<rparr>) = (Some (value, col, pk), token)"
proof -
  have t: "token = editBaseline v" using assms(1) by (auto simp: CellEditSnapshot_def Let_def split: if_splits)
  have b: "editBaseline v' = editBaseline v" "editable v'" using assms(3) t by (auto simp: WithEditBaseline_def split: if_splits)
  then have s: "same_cells v v'" using steps_advance [OF assms(2)] by (simp add: advances_baseline_def)
  then obtain rows where r: "gRows v' = gRows v @ rows" by (auto simp: same_cells_def)
  have "CellEditSnapshot (v'\<lparr>cursorRow := cursorRow v, cursorCol := cursorCol v\<rparr>) = (Some (value, col, pk), token)"
    using assms(1) s b(1) r by (auto simp: CellEditSnapshot_def same_cells_def Let_def nth_append split: if_splits)
  then show ?thesis using s b(2) r by (auto simp: same_cells_def grid_EditIdentity_def)
qed

section \<open>Settled commits\<close>

text \<open>Each of \<open>n\<close> keys is at most one of \<open>m\<close> rows: all \<open>n\<close> rows are hit exactly when each key has its own.\<close>

lemma one_row_each:
  assumes "\<And>g g' j. g < m \<Longrightarrow> g' < m \<Longrightarrow> j < n \<Longrightarrow> M g j \<Longrightarrow> M g' j \<Longrightarrow> g = g'"
  shows "card {g. g < m \<and> (\<exists>j < n. M g j)} = n \<longleftrightarrow>
    (\<forall>j < n. \<exists>g < m. M g j) \<and> (\<forall>g < m. \<forall>j < n. \<forall>j' < n. M g j \<longrightarrow> M g j' \<longrightarrow> j = j')"
proof -
  let ?D = "{j. j < n \<and> (\<exists>g < m. M g j)}"
  let ?G = "{g. g < m \<and> (\<exists>j < n. M g j)}"
  define h where "h j = (SOME g. g < m \<and> M g j)" for j
  have h: "h j < m \<and> M (h j) j" if "j \<in> ?D" for j unfolding h_def using that by (auto intro: someI2_ex)
  have u: "h j = g" if "j < n" "g < m" "M g j" for j g using h [of j] assms that by blast
  have im: "h ` ?D = ?G" using h u by (auto simp: image_iff)
  have fin: "finite ?D" "card ?D \<le> n" using card_mono [of "{..<n}" ?D] by auto
  show ?thesis
  proof (intro iffI conjI allI impI)
    assume c: "card ?G = n"
    then have d: "card ?D = n" using card_image_le [of ?D h] fin im by simp
    then have all: "?D = {..<n}" using card_subset_eq [of "{..<n}" ?D] by auto
    have inj: "inj_on h ?D" using eq_card_imp_inj_on [of ?D h] fin im c d by simp
    show "\<exists>g < m. M g j" if "j < n" for j using all that by auto
    show "j = j'" if "g < m" "j < n" "j' < n" "M g j" "M g j'" for g j j'
      using inj_onD [OF inj, of j j'] u that by auto
  next
    assume r: "(\<forall>j < n. \<exists>g < m. M g j) \<and> (\<forall>g < m. \<forall>j < n. \<forall>j' < n. M g j \<longrightarrow> M g j' \<longrightarrow> j = j')"
    then have all: "?D = {..<n}" by auto
    have "inj_on h ?D" using h r by (auto simp: inj_on_def) metis
    then show "card ?G = n" using card_image [of h ?D] im all by simp
  qed
qed

abbreviation keyOf :: "grid_state \<Rightarrow> nat \<Rightarrow> gval list" where
  "keyOf v g \<equiv> rowPKValues (gRows v ! g) (rowIdentity v)"

abbreviation keyIn :: "grid_state \<Rightarrow> EditIdentity \<Rightarrow> gval list \<Rightarrow> gval list" where
  "keyIn v i pk \<equiv> normalized (grid_EditIdentity v) i pk"

text \<open>The loaded rows have comparable keys, no two the same.\<close>

definition distinct_keys :: "grid_state \<Rightarrow> bool" where
  "distinct_keys v \<longleftrightarrow>
     (\<forall>g < length (gRows v). row_key (keyOf v g) \<and> (\<forall>h < length (gRows v). RowIdentityEqual (keyOf v g) (keyOf v h) \<longrightarrow> g = h))"

text \<open>When a settled commit can be shown whole.\<close>

definition commit_on_display :: "grid_state \<Rightarrow> EditIdentity \<Rightarrow> string list \<Rightarrow> gval list list \<Rightarrow> gval list list \<Rightarrow> bool \<Rightarrow> bool" where
  "commit_on_display v i names rows pks complete \<longleftrightarrow>
     complete \<and> Compatible (grid_EditIdentity v) i \<and> completeProjection v names rows \<and> rows \<noteq> [] \<and> length pks = length rows \<and>
     (\<forall>pk \<in> set pks. length pk = length (Columns i)) \<and>
     (\<forall>j < length rows. \<exists>g < length (gRows v). RowIdentityEqual (keyOf v g) (keyIn v i (pks ! j))) \<and>
     (\<forall>g < length (gRows v). \<forall>j < length rows. \<forall>j' < length rows. RowIdentityEqual (keyOf v g) (keyIn v i (pks ! j)) \<longrightarrow>
        RowIdentityEqual (keyOf v g) (keyIn v i (pks ! j')) \<longrightarrow> j = j')"

text \<open>A row of the grid shows a refreshed row when each column has the value of a column of its physical name.\<close>

definition shows_row :: "ColumnMeta list \<Rightarrow> string list \<Rightarrow> gval list \<Rightarrow> gval list \<Rightarrow> bool" where
  "shows_row cols names ref row \<longleftrightarrow>
     (\<forall>c < length row. c < length cols \<longrightarrow> (\<exists>r < length names. names ! r = PhysicalName (cols ! c) \<and> row ! c = ref ! r))"

lemma refIdx_Some: "refIdx names n = Some r \<Longrightarrow> r < length names \<and> names ! r = n"
  unfolding refIdx_def by (drule map_of_SomeD) (auto simp: set_zip)

lemma refIdx_in: "n \<in> set names \<Longrightarrow> \<exists>r. refIdx names n = Some r"
proof -
  assume "n \<in> set names"
  then have "n \<in> fst ` set (rev (zip names [0..<length names]))" by (force simp: set_zip in_set_conv_nth image_iff)
  then show ?thesis by (cases "refIdx names n") (auto simp: refIdx_def map_of_eq_None_iff)
qed

lemma refreshed_shows:
  assumes "completeProjection v names rows" "ref \<in> set rows"
  shows "shows_row (gCols v) names ref (refreshed (gCols v) names ref row)"
  unfolding shows_row_def
proof (intro allI impI)
  fix c
  assume c: "c < length (refreshed (gCols v) names ref row)" "c < length (gCols v)"
  then have "PhysicalName (gCols v ! c) \<in> set names" using assms(1) by (simp add: completeProjection_def list_all_length)
  then obtain r where r: "refIdx names (PhysicalName (gCols v ! c)) = Some r" using refIdx_in by blast
  have "length ref = length names" using assms by (simp add: completeProjection_def list_all_iff)
  then show "\<exists>r < length names. names ! r = PhysicalName (gCols v ! c) \<and> refreshed (gCols v) names ref row ! c = ref ! r"
    using r refIdx_Some [OF r] c by (intro exI [of _ r]) (simp add: refreshed_def)
qed

lemma editIdentityFrom_zero: "editIdentityFrom cols ids i \<noteq> noIdentity \<Longrightarrow> list_all (\<lambda>k. 0 \<le> k \<and> k < len cols) ids"
  by (induction cols ids i rule: editIdentityFrom.induct) (auto simp: Let_def split: if_splits)

lemma valid_not_zero: "EditIdentity_Validate (grid_EditIdentity v) = None \<Longrightarrow> grid_EditIdentity v \<noteq> noIdentity"
  by (auto simp: EditIdentity_Validate_def noIdentity_def split: if_splits)

lemma valid_identity:
  assumes "EditIdentity_Validate (grid_EditIdentity v) = None"
  shows "rowIdentity v \<noteq> []" "list_all (\<lambda>k. 0 \<le> k \<and> k < len (gCols v)) (rowIdentity v)"
proof -
  have n: "grid_EditIdentity v \<noteq> noIdentity" using assms by (rule valid_not_zero)
  then show "rowIdentity v \<noteq> []" by (auto simp: grid_EditIdentity_def)
  show "list_all (\<lambda>k. 0 \<le> k \<and> k < len (gCols v)) (rowIdentity v)"
    using editIdentityFrom_zero n unfolding grid_EditIdentity_def by blast
qed

lemma normalizeKeys_eq:
  "normalizeKeys target i pks =
     Some (if Compatible target i \<and> (\<forall>pk \<in> set pks. length pk = length (Columns i)) \<or> pks = []
           then Some (map (normalized target i) pks) else None)"
  by (induction pks) (auto simp: Normalize_total)

lemma normalizeOriginalKeys_True:
  "normalizeOriginalKeysLocked v i pks = Some (ks, True) \<longleftrightarrow>
     Compatible (grid_EditIdentity v) i \<and> (\<forall>pk \<in> set pks. length pk = length (Columns i)) \<and> ks = map (keyIn v i) pks"
  by (auto simp: normalizeOriginalKeysLocked_def normalizeKeys_eq)

text \<open>With the normalised keys, the rows that change are those whose key is one of them.\<close>

lemma updateRows_keys:
  assumes "rowIdentity v \<noteq> []" "list_all (\<lambda>k. 0 \<le> k \<and> k < len (gCols v)) (rowIdentity v)" "names \<noteq> []" "rows \<noteq> []"
    "length ks = length rows" "\<forall>k \<in> set ks. length k = length (rowIdentity v)"
    "updateRowsByPKLocked v names rows (Some ks) = (n, v')"
  shows "n = card {g. g < length (gRows v) \<and> (\<exists>j < length rows. RowIdentityEqual (keyOf v g) (ks ! j))}" (is ?count)
    and "length (gRows v') = length (gRows v)" (is ?len)
    and "\<And>g. g < length (gRows v) \<Longrightarrow> (\<exists>j < length rows. RowIdentityEqual (keyOf v g) (ks ! j) \<and>
            gRows v' ! g = refreshed (gCols v) names (rows ! j) (gRows v ! g)) \<or>
          (\<forall>j < length rows. \<not> RowIdentityEqual (keyOf v g) (ks ! j)) \<and> gRows v' ! g = gRows v ! g"
proof -
  let ?ps = "zip rows (map Some ks)"
  let ?news = "map (newRow v names ?ps) (gRows v)"
  have m: "rowMatches v names (gRows v ! g) (rows ! j, Some (ks ! j)) \<longleftrightarrow> RowIdentityEqual (keyOf v g) (ks ! j)" if "j < length rows" for g j
    using that assms(5,6) by (auto simp: rowMatches_def lookupKey_def)
  have new: "(case newRow v names ?ps (gRows v ! g) of
        Some y \<Rightarrow> \<exists>j < length rows. RowIdentityEqual (keyOf v g) (ks ! j) \<and> y = refreshed (gCols v) names (rows ! j) (gRows v ! g)
      | None \<Rightarrow> \<forall>j < length rows. \<not> RowIdentityEqual (keyOf v g) (ks ! j))" for g
  proof (cases "find (rowMatches v names (gRows v ! g)) (rev ?ps)")
    case None
    then have "\<forall>p \<in> set ?ps. \<not> rowMatches v names (gRows v ! g) p" by (metis find_None_iff set_rev)
    then have "\<not> RowIdentityEqual (keyOf v g) (ks ! j)" if "j < length rows" for j
      using m [OF that] that assms(5) by (metis (no_types, lifting) length_map length_zip min.idem nth_map nth_mem nth_zip)
    then show ?thesis using None by (simp add: newRow_def)
  next
    case (Some p)
    then have p: "p \<in> set ?ps" "rowMatches v names (gRows v ! g) p"
      by (metis find_Some_iff nth_mem set_rev) (metis Some find_Some_iff)
    then obtain j where j: "j < length rows" "p = (rows ! j, Some (ks ! j))" using assms(5) by (auto simp: set_zip)
    then show ?thesis using Some p m by (auto simp: newRow_def)
  qed
  have skip: "updateRowsByPKLocked v names rows (Some ks) =
      (let n = length (filter (\<lambda>x. x \<noteq> None) ?news)
       in if n = 0 then (0, v)
          else (n, v\<lparr>gRows := map2 (\<lambda>row x. case x of None \<Rightarrow> row | Some y \<Rightarrow> y) (gRows v) ?news, editBaseline := editBaseline v + 1\<rparr>))"
    using assms(1-4)
    by (cases "gRows v") (auto simp: updateRowsByPKLocked_def Let_def list_ex_iff list_all_iff not_less filter_map)
  have n: "n = length (filter (\<lambda>x. x \<noteq> None) ?news)" using assms(7) skip by (auto simp: Let_def split: if_splits)
  have rows': "gRows v' = map2 (\<lambda>row x. case x of None \<Rightarrow> row | Some y \<Rightarrow> y) (gRows v) ?news"
  proof (cases "n = 0")
    case True
    then have z: "\<forall>x \<in> set ?news. x = None" using n by (simp add: filter_empty_conv)
    have "map2 (\<lambda>row x. case x of None \<Rightarrow> row | Some y \<Rightarrow> y) (gRows v) ?news = gRows v"
      using z by (intro nth_equalityI) (auto simp del: map_map)
    then show ?thesis using True assms(7) skip n by (auto simp: Let_def split: if_splits)
  qed (use assms(7) skip n in \<open>auto simp: Let_def split: if_splits\<close>)
  have "{g. g < length ?news \<and> ?news ! g \<noteq> None} = {g. g < length (gRows v) \<and> (\<exists>j < length rows. RowIdentityEqual (keyOf v g) (ks ! j))}"
  proof -
    have "newRow v names ?ps (gRows v ! g) \<noteq> None \<longleftrightarrow> (\<exists>j < length rows. RowIdentityEqual (keyOf v g) (ks ! j))" for g
      using new [of g] by (auto split: option.splits)
    then show ?thesis by (intro Collect_cong) (simp cong: conj_cong)
  qed
  then show ?count unfolding n length_filter_conv_card by simp
  show ?len by (simp add: rows')
  show "(\<exists>j < length rows. RowIdentityEqual (keyOf v g) (ks ! j) \<and> gRows v' ! g = refreshed (gCols v) names (rows ! j) (gRows v ! g)) \<or>
      (\<forall>j < length rows. \<not> RowIdentityEqual (keyOf v g) (ks ! j)) \<and> gRows v' ! g = gRows v ! g" if "g < length (gRows v)" for g
    using new [of g] that by (auto simp: rows' split: option.splits)
qed

lemma updateRows_after:
  assumes "rowIdentity v \<noteq> []" "list_all (\<lambda>k. 0 \<le> k \<and> k < len (gCols v)) (rowIdentity v)" "names \<noteq> []" "rows \<noteq> []"
    "length ks = length rows" "\<forall>k \<in> set ks. length k = length (rowIdentity v)"
    "updateRowsByPKLocked (v\<lparr>editBaseline := b\<rparr>) names rows (Some ks) = (n, v')"
  shows "n = card {g. g < length (gRows v) \<and> (\<exists>j < length rows. RowIdentityEqual (keyOf v g) (ks ! j))}"
    and "length (gRows v') = length (gRows v)"
    and "\<And>g. g < length (gRows v) \<Longrightarrow> (\<exists>j < length rows. RowIdentityEqual (keyOf v g) (ks ! j) \<and>
            gRows v' ! g = refreshed (gCols v) names (rows ! j) (gRows v ! g)) \<or>
          (\<forall>j < length rows. \<not> RowIdentityEqual (keyOf v g) (ks ! j)) \<and> gRows v' ! g = gRows v ! g"
  using updateRows_keys [of "v\<lparr>editBaseline := b\<rparr>" names rows ks n v'] assms by simp_all

text \<open>An invalid baseline ends editing until a result is installed.\<close>

definition fenced :: "grid_state \<Rightarrow> bool" where
  "fenced v \<longleftrightarrow> baselineInvalid v \<and> \<not> editable v"

lemma updateRows_fenced: "fenced (snd (updateRowsByPKLocked v names rows ks)) = fenced v"
  by (simp add: fenced_def updateRows_kept)

lemma fenced_baseline: "fenced (v\<lparr>editBaseline := n\<rparr>) = fenced v"
  by (simp add: fenced_def)

lemma settle_fenced:
  assumes "SettleCommittedRows v generation i names rows pks complete = Some v'" "fenced v"
  shows "fenced v'"
  using assms(1)
proof (cases rule: settle_cases)
  case (2 ks)
  then show ?thesis using updateRows_fenced [of "v\<lparr>editBaseline := Suc (editBaseline v)\<rparr>" names rows "Some ks"] fenced_baseline assms(2) by simp
qed (use assms(2) in \<open>auto simp: fenced_def\<close>)

lemma op_fenced: "grid_op v v' \<Longrightarrow> fenced v \<Longrightarrow> fenced v'"
proof (induction rule: grid_op.induct)
  case (by_key v names rows)
  then show ?case by (simp add: UpdateRowsByPK_def updateRows_fenced)
next
  case (by_original v i names rows pks n v')
  then have "v' = v \<or> (\<exists>ks. v' = snd (updateRowsByPKLocked (v\<lparr>editBaseline := editBaseline v + 1\<rparr>) names rows (Some ks)))"
    by (auto simp: UpdateRowsFromOriginalPK_def split: if_splits bind_splits prod.splits) (metis snd_conv)
  then show ?case using by_original(2) updateRows_fenced fenced_baseline by metis
next
  case (settle v generation i names rows pks complete v')
  then show ?case using settle_fenced by blast
qed (auto simp: fenced_def AppendRows_def setEditability_def SetResolvedEditability_def Let_def)

lemma fenced_stays:
  assumes "grid_op\<^sup>*\<^sup>* v w" "fenced v"
  shows "WithEditBaseline w token = Some ErrCommitSnapshotStale"
proof -
  have "fenced w" using assms by (induction rule: rtranclp_induct) (auto dest: op_fenced)
  then show ?thesis by (simp add: WithEditBaseline_def fenced_def)
qed

lemma keyIn_row_key:
  assumes "Compatible (grid_EditIdentity v) i" "length pk = length (Columns i)" "row_key pk"
  shows "row_key (keyIn v i pk)"
proof -
  have "pk ! nat (slicesIndex (Columns i) c) \<in> set pk" if "c \<in> set (Columns (grid_EditIdentity v))" for c
    using slicesIndex_in [of c "Columns i"] that assms(2) Compatible_sets [OF assms(1)] by (auto intro!: nth_mem)
  then show ?thesis using assms(3) by (auto simp: normalized_def list_all_iff)
qed

lemma length_rowPK: "length (rowPKValues row ids) = length ids \<or> rowPKValues row ids = []"
  by (simp add: rowPKValues_def)

lemma editIdentityFrom_length:
  "editIdentityFrom cols ids i \<noteq> noIdentity \<Longrightarrow> length (Columns (editIdentityFrom cols ids i)) = length (Columns i) + length ids"
  by (induction cols ids i rule: editIdentityFrom.induct) (auto simp: Let_def split: if_splits)

lemma identity_length: "EditIdentity_Validate (grid_EditIdentity v) = None \<Longrightarrow> length (Columns (grid_EditIdentity v)) = length (rowIdentity v)"
  using editIdentityFrom_length [of "gCols v" "rowIdentity v" noIdentity] valid_not_zero [of v]
  by (simp add: grid_EditIdentity_def) (simp add: noIdentity_def)

text \<open>What can be shown at all, and what then happens.\<close>

definition showable :: "grid_state \<Rightarrow> EditIdentity \<Rightarrow> string list \<Rightarrow> gval list list \<Rightarrow> gval list list \<Rightarrow> bool \<Rightarrow> bool" where
  "showable v i names rows pks complete \<longleftrightarrow>
     complete \<and> Compatible (grid_EditIdentity v) i \<and> completeProjection v names rows \<and> rows \<noteq> [] \<and> length pks = length rows \<and>
     (\<forall>pk \<in> set pks. length pk = length (Columns i))"

lemma baseline_same:
  "completeProjection (v\<lparr>editBaseline := b\<rparr>) names rows = completeProjection v names rows"
  "grid_EditIdentity (v\<lparr>editBaseline := b\<rparr>) = grid_EditIdentity v"
  by (simp_all add: completeProjection_def grid_EditIdentity_def)

lemma settle_showable:
  assumes "SettleCommittedRows v (commitGeneration v) i names rows pks complete = Some v'" "\<not> showable v i names rows pks complete"
  shows "fenced v'"
  using assms(1)
proof (cases rule: settle_cases)
  case (2 ks)
  then show ?thesis using assms(2) by (auto simp: showable_def normalizeOriginalKeys_True baseline_same)
qed (auto simp: fenced_def)

lemma settle_run:
  assumes "SettleCommittedRows v (commitGeneration v) i names rows pks complete = Some v'" "showable v i names rows pks complete"
    "updateRowsByPKLocked (v\<lparr>editBaseline := Suc (editBaseline v)\<rparr>) names rows (Some (map (keyIn v i) pks)) = (n, v2)"
  shows "if n = length rows then v' = v2 else fenced v'"
proof -
  have "normalizeOriginalKeysLocked (v\<lparr>editBaseline := Suc (editBaseline v)\<rparr>) i pks = Some (map (keyIn v i) pks, True)"
    unfolding normalizeOriginalKeys_True using assms(2) by (simp add: showable_def baseline_same)
  then show ?thesis using assms by (auto simp: SettleCommittedRows_def showable_def Let_def baseline_same fenced_def)
qed

lemma same_row:
  assumes "distinct_keys v" "g < length (gRows v)" "h < length (gRows v)" "row_key k" "RowIdentityEqual (keyOf v g) k" "RowIdentityEqual (keyOf v h) k"
  shows "g = h"
  using assms row_identity_sym [of "keyOf v h" k] row_identity_trans [of "keyOf v g" k "keyOf v h"] unfolding distinct_keys_def by blast


section \<open>Samples\<close>

abbreviation textV :: "string \<Rightarrow> gval" where
  "textV s \<equiv> ScalarV ''string'' (StrS s)"

definition sample_grid :: grid_state where
  "sample_grid =
     AppendRows (SetResolvedEditability
       (SetColumns NewGrid [\<lparr>cName = ''n'', PhysicalName = '''', TableOID = 7, TableAttributeNumber = 2\<rparr>,
          \<lparr>cName = ''id'', PhysicalName = '''', TableOID = 7, TableAttributeNumber = 1\<rparr>])
       [\<lparr>cName = ''n'', PhysicalName = ''name'', TableOID = 7, TableAttributeNumber = 2\<rparr>,
        \<lparr>cName = ''id'', PhysicalName = ''id'', TableOID = 7, TableAttributeNumber = 1\<rparr>] True [1] '''' (''public'', ''users''))
     [[textV ''Ann'', textV ''1''], [textV ''Bob'', textV ''2'']]"

definition sample_identity :: EditIdentity where
  "sample_identity = \<lparr>RelationOID = 7, Columns = [\<lparr>Attnum = 1, ColName = ''id''\<rparr>]\<rparr>"

theorem accepted_token_is_current_witness:
  "\<exists>rows. gRows (AppendRows (sample_grid\<lparr>cursorRow := 5, cursorCol := 0\<rparr>) [[textV ''Eve'', textV ''3'']]) = gRows sample_grid @ rows"
proof -
  have s: "CellEditSnapshot sample_grid = (Some (textV ''Ann'', \<lparr>cName = ''n'', PhysicalName = ''name'', TableOID = 7, TableAttributeNumber = 2\<rparr>,
      [textV ''1'']), 2)"
    by code_simp
  have "grid_step\<^sup>*\<^sup>* sample_grid (AppendRows (sample_grid\<lparr>cursorRow := 5, cursorCol := 0\<rparr>) [[textV ''Eve'', textV ''3'']])"
    by (rule rtranclp.rtrancl_into_rtrancl [OF r_into_rtranclp [of grid_step, OF grid_step.op [OF grid_op.cursor]] grid_step.op [OF grid_op.append]])
  moreover have "WithEditBaseline (AppendRows (sample_grid\<lparr>cursorRow := 5, cursorCol := 0\<rparr>) [[textV ''Eve'', textV ''3'']]) 2 = None"
    by code_simp
  ultimately show ?thesis using accepted_token_is_current [OF s] by blast
qed


end
