(* ===== verification/ResultIdentity.thy ===== *)
theory ResultIdentity
  imports ByteText
begin

text \<open>
  Which query texts have rows of one table (\<open>pkg/query/result_identity.go\<close>): comments are blanked,
  the text is cut at semicolons outside quotes, and each statement must be a plain SELECT from one table.
\<close>

section \<open>Comments and statements\<close>

text \<open>The rest of a quoted part with its closing quote, and what follows it.\<close>

fun quotedPart :: "char \<Rightarrow> string \<Rightarrow> string \<times> string" where
  "quotedPart q [] = ([], [])"
| "quotedPart q [c] = ([c], [])"
| "quotedPart q (c # d # s) =
     (if c \<noteq> q then (case quotedPart q (d # s) of (p, r) \<Rightarrow> (c # p, r))
      else if d = q then (case quotedPart q s of (p, r) \<Rightarrow> (c # d # p, r))
      else ([c], d # s))"

fun afterBlock :: "string \<Rightarrow> string" where
  "afterBlock (c # d # s) = (if c = CHR ''*'' \<and> d = CHR ''/'' then s else afterBlock (d # s))"
| "afterBlock s = []"

definition isQuote :: "char \<Rightarrow> bool" where
  "isQuote c \<longleftrightarrow> c = CHR 0x27 \<or> c = CHR 0x22"

text \<open>Whether a byte and what follows it open a line comment, or a block comment.\<close>

definition opensLine :: "char \<Rightarrow> string \<Rightarrow> bool" where
  "opensLine c s \<longleftrightarrow> c = CHR ''-'' \<and> s \<noteq> [] \<and> hd s = CHR ''-''"

definition opensBlock :: "char \<Rightarrow> string \<Rightarrow> bool" where
  "opensBlock c s \<longleftrightarrow> c = CHR ''/'' \<and> s \<noteq> [] \<and> hd s = CHR ''*''"

lemma quotedPart_length: "length (snd (quotedPart q s)) \<le> length s"
  by (induction q s rule: quotedPart.induct) (auto split: prod.splits)

lemma afterBlock_length: "length (afterBlock s) \<le> length s"
  by (induction s rule: afterBlock.induct) auto

function stripComments :: "string \<Rightarrow> string" where
  "stripComments [] = []"
| "stripComments (c # s) =
     (if isQuote c then c # fst (quotedPart c s) @ stripComments (snd (quotedPart c s))
      else if opensLine c s then
        (case dropWhile (\<lambda>d. d \<noteq> CHR 0x0A) (tl s) of [] \<Rightarrow> [] | n # r \<Rightarrow> n # stripComments r)
      else if opensBlock c s then CHR '' '' # stripComments (afterBlock (tl s))
      else c # stripComments s)"
  by pat_completeness auto
termination
proof (relation "measure length", goal_cases)
  case (2 c s)
  then show ?case using quotedPart_length [of c s] by simp
next
  case (3 c s n r)
  then have "length (n # r) \<le> length (tl s)" by (metis length_dropWhile_le)
  then show ?case by simp
next
  case (4 c s)
  have "length (afterBlock (tl s)) \<le> length s" by (rule order_trans [OF afterBlock_length]) simp
  then show ?case by simp
qed simp_all

text \<open>The segments between semicolons; \<open>seg\<close> is what the current one has so far.\<close>

function splitSegments_q :: "string \<Rightarrow> string \<Rightarrow> string list" where
  "splitSegments_q seg [] = [seg]"
| "splitSegments_q seg (c # s) =
     (if isQuote c then splitSegments_q (seg @ c # fst (quotedPart c s)) (snd (quotedPart c s))
      else if c = CHR '';'' then seg # splitSegments_q [] s
      else splitSegments_q (seg @ [c]) s)"
  by pat_completeness auto
termination
proof (relation "measure (length \<circ> snd)", goal_cases)
  case (2 seg c s)
  then show ?case using quotedPart_length [of c s] by simp
qed simp_all

definition splitStatementsRespectingStrings :: "string \<Rightarrow> string list" where
  "splitStatementsRespectingStrings s = filter (\<lambda>seg. TrimBytes seg \<noteq> []) (splitSegments_q [] s)"

section \<open>Tokens\<close>

datatype tokenKind = tEOF | tIdent | tNumber | tString | tPunct | tStar | tComma | tDot | tLParen | tRParen

record id_token =
  tok_kind :: tokenKind
  raw :: string
  quoted :: bool
  literal :: bool

abbreviation tok :: "tokenKind \<Rightarrow> string \<Rightarrow> id_token" where
  "tok k s \<equiv> \<lparr>tok_kind = k, raw = s, quoted = False, literal = False\<rparr>"

definition isIdentStart :: "char \<Rightarrow> bool" where
  "isIdentStart c \<longleftrightarrow> (97 \<le> byte c \<and> byte c \<le> 122) \<or> (65 \<le> byte c \<and> byte c \<le> 90) \<or> byte c = 95"

definition isIdentPart :: "char \<Rightarrow> bool" where
  "isIdentPart c \<longleftrightarrow> isIdentStart c \<or> (48 \<le> byte c \<and> byte c \<le> 57) \<or> byte c = 36"

text \<open>The text of a quoted part, a doubled quote once, and what follows the closing quote.\<close>

fun quotedText :: "char \<Rightarrow> string \<Rightarrow> string \<times> string" where
  "quotedText q [] = ([], [])"
| "quotedText q [c] = (if c = q then [] else [c], [])"
| "quotedText q (c # d # s) =
     (if c \<noteq> q then (case quotedText q (d # s) of (p, r) \<Rightarrow> (c # p, r))
      else if d = q then (case quotedText q s of (p, r) \<Rightarrow> (q # p, r))
      else ([], d # s))"

lemma quotedText_length: "length (snd (quotedText q s)) \<le> length s"
  by (induction q s rule: quotedText.induct) (auto split: prod.splits)

text \<open>\<open>strings.ToLower\<close> of a word, which has ASCII bytes only, and \<open>string(c)\<close> of a byte.\<close>

definition lowerWord :: "string \<Rightarrow> string" where
  "lowerWord s = map (\<lambda>c. if 65 \<le> byte c \<and> byte c \<le> 90 then char_of (byte c + 32) else c) s"

definition byteString :: "char \<Rightarrow> string" where
  "byteString c = (if byte c < 128 then [c] else [char_of (192 + byte c div 64), char_of (128 + byte c mod 64)])"

definition isDigitByte :: "char \<Rightarrow> bool" where
  "isDigitByte c \<longleftrightarrow> 48 \<le> byte c \<and> byte c \<le> 57"

text \<open>One turn of the loop: the token, none for a space, and what is left.\<close>

definition tokenAt :: "char \<Rightarrow> string \<Rightarrow> id_token option \<times> string" where
  "tokenAt c s =
     (if unicode_IsSpace (byte c) then (None, s)
      else if c = CHR 0x27 then (Some \<lparr>tok_kind = tString, raw = fst (quotedText c s), quoted = False, literal = True\<rparr>, snd (quotedText c s))
      else if c = CHR 0x22 then (Some \<lparr>tok_kind = tIdent, raw = fst (quotedText c s), quoted = True, literal = False\<rparr>, snd (quotedText c s))
      else if c = CHR ''*'' then (Some (tok tStar [c]), s)
      else if c = CHR '','' then (Some (tok tComma [c]), s)
      else if c = CHR ''.'' then (Some (tok tDot [c]), s)
      else if c = CHR ''('' then (Some (tok tLParen [c]), s)
      else if c = CHR '')'' then (Some (tok tRParen [c]), s)
      else if isIdentStart c then (Some (tok tIdent (lowerWord (takeWhile isIdentPart (c # s)))), dropWhile isIdentPart s)
      else if isDigitByte c then
        (Some (tok tNumber (takeWhile (\<lambda>d. d = CHR ''.'' \<or> isDigitByte d) (c # s))), dropWhile (\<lambda>d. d = CHR ''.'' \<or> isDigitByte d) s)
      else (Some (tok tPunct (byteString c)), s))"

lemma tokenAt_length: "length (snd (tokenAt c s)) \<le> length s"
  by (simp add: tokenAt_def quotedText_length length_dropWhile_le)

function tokenize_q :: "string \<Rightarrow> id_token list" where
  "tokenize_q [] = []"
| "tokenize_q (c # s) =
     (case fst (tokenAt c s) of None \<Rightarrow> tokenize_q (snd (tokenAt c s)) | Some t \<Rightarrow> t # tokenize_q (snd (tokenAt c s)))"
  by pat_completeness auto
termination
  by (relation "measure length") (simp_all add: less_Suc_eq_le tokenAt_length)

section \<open>The shape of a statement\<close>

definition isKeyword :: "id_token \<Rightarrow> string \<Rightarrow> bool" where
  "isKeyword t kw \<longleftrightarrow> tok_kind t = tIdent \<and> \<not> quoted t \<and> raw t = kw"

definition rejectKeywords :: "string list" where
  "rejectKeywords = [''join'', ''union'', ''intersect'', ''except'', ''with'', ''group'', ''having'', ''distinct'', ''window'', ''over'']"

definition aggregateFuncs :: "string list" where
  "aggregateFuncs = [''count'', ''sum'', ''avg'', ''min'', ''max'', ''array_agg'', ''string_agg'', ''json_agg'', ''jsonb_agg'',
     ''bool_and'', ''bool_or'', ''every'']"

definition isReservedTableName :: "string \<Rightarrow> bool" where
  "isReservedTableName w \<longleftrightarrow> w \<in> set [''select'', ''from'', ''where'', ''order'', ''group'', ''having'', ''limit'', ''offset'', ''fetch'', ''for'',
     ''join'', ''on'', ''union'', ''intersect'', ''except'', ''with'', ''as'']"

text \<open>The loop that rejects keywords and calls of aggregates.\<close>

fun rejected :: "id_token list \<Rightarrow> bool" where
  "rejected [] \<longleftrightarrow> False"
| "rejected (t # ts) \<longleftrightarrow>
     tok_kind t = tIdent \<and> \<not> quoted t \<and>
       (raw t \<in> set rejectKeywords \<or> raw t \<in> set aggregateFuncs \<and> ts \<noteq> [] \<and> tok_kind (hd ts) = tLParen) \<or>
     rejected ts"

text \<open>The index of the first \<open>from\<close> outside parentheses, and the depth reached.\<close>

fun findFrom :: "id_token list \<Rightarrow> nat \<Rightarrow> int \<Rightarrow> nat option \<times> int" where
  "findFrom [] i depth = (None, depth)"
| "findFrom (t # ts) i depth =
     (case tok_kind t of
        tLParen \<Rightarrow> findFrom ts (i + 1) (depth + 1)
      | tRParen \<Rightarrow> findFrom ts (i + 1) (depth - 1)
      | tIdent \<Rightarrow> if depth = 0 \<and> \<not> quoted t \<and> raw t = ''from'' then (Some i, depth) else findFrom ts (i + 1) depth
      | _ \<Rightarrow> findFrom ts (i + 1) depth)"

text \<open>The tokens of the schema, if any, and of the table, and how many were consumed.\<close>

definition parseQualifiedTable :: "id_token list \<Rightarrow> (id_token option \<times> id_token \<times> nat) option" where
  "parseQualifiedTable rest =
     (if rest = [] then None
      else if tok_kind (rest ! 0) \<noteq> tIdent then None
      else if \<not> quoted (rest ! 0) \<and> isReservedTableName (raw (rest ! 0)) then None
      else if length rest \<ge> 3 \<and> tok_kind (rest ! 1) = tDot \<and> tok_kind (rest ! 2) = tIdent then
        (if \<not> quoted (rest ! 2) \<and> isReservedTableName (raw (rest ! 2)) then None
         else Some (Some (rest ! 0), rest ! 2, 3))
      else Some (None, rest ! 0, 1))"

definition skipAlias :: "id_token list \<Rightarrow> id_token list" where
  "skipAlias tail =
     (if tail = [] \<or> tok_kind (tail ! 0) \<noteq> tIdent then tail
      else if \<not> quoted (tail ! 0) \<and> raw (tail ! 0) = ''as'' then
        (if length tail \<ge> 2 \<and> tok_kind (tail ! 1) = tIdent then drop 2 tail else tail)
      else if quoted (tail ! 0) \<or> \<not> isReservedTableName (raw (tail ! 0)) then drop 1 tail
      else tail)"

definition validTail :: "id_token list \<Rightarrow> bool" where
  "validTail tail \<longleftrightarrow>
     tail = [] \<or>
     tok_kind (tail ! 0) = tIdent \<and> \<not> quoted (tail ! 0) \<and>
       raw (tail ! 0) \<in> set [''where'', ''order'', ''limit'', ''offset'', ''fetch'', ''for'']"

text \<open>No schema is the zero token.\<close>

definition formatBaseTable :: "id_token option \<Rightarrow> id_token \<Rightarrow> string" where
  "formatBaseTable sch table =
     (if raw table = '''' then ''''
      else case sch of
          None \<Rightarrow> raw table
        | Some s \<Rightarrow> if raw s = '''' then raw table else raw s @ ''.'' @ raw table)"

text \<open>\<open>None\<close> is the zero identity; otherwise the base table of a result with row identity.\<close>

definition detectSingleStatement :: "string \<Rightarrow> string option" where
  "detectSingleStatement stmt =
     (let toks = tokenize_q stmt in
      if toks = [] then None
      else if \<not> isKeyword (hd toks) ''select'' then None
      else if rejected toks then None
      else case findFrom (tl toks) 1 0 of
          (None, _) \<Rightarrow> None
        | (Some fromIdx, depth) \<Rightarrow>
            if depth \<noteq> 0 then None
            else if list_ex (\<lambda>t. tok_kind t = tLParen) (drop 1 (take fromIdx toks)) then None
            else
              let rest = drop (fromIdx + 1) toks in
              if rest = [] then None
              else case parseQualifiedTable rest of
                  None \<Rightarrow> None
                | Some (sch, table, consumed) \<Rightarrow>
                    if \<not> validTail (skipAlias (drop consumed rest)) then None
                    else let base = formatBaseTable sch table in if base = '''' then None else Some base)"

text \<open>The loop stops at the first statement that is rejected; the first one gives the result.\<close>

fun detectLoop :: "string list \<Rightarrow> nat \<Rightarrow> string option \<Rightarrow> string option" where
  "detectLoop [] i first = first"
| "detectLoop (stmt # stmts) i first =
     (if TrimBytes stmt = [] then detectLoop stmts (i + 1) first
      else case detectSingleStatement stmt of
          None \<Rightarrow> None
        | Some base \<Rightarrow> detectLoop stmts (i + 1) (if i = 0 then Some base else first))"

definition DetectFromQuery :: "string \<Rightarrow> string option" where
  "DetectFromQuery sql =
     (let stmts = splitStatementsRespectingStrings (stripComments sql)
      in if stmts = [] then None else detectLoop stmts 0 None)"

section \<open>Plain SELECTs\<close>

text \<open>What the statements are accepted by, as a shape.\<close>

definition select_list :: "id_token list \<Rightarrow> bool" where
  "select_list ts \<longleftrightarrow> (\<forall>t \<in> set ts. tok_kind t \<notin> {tLParen, tRParen} \<and> \<not> isKeyword t ''from'')"

definition table_name :: "id_token \<Rightarrow> bool" where
  "table_name t \<longleftrightarrow> tok_kind t = tIdent \<and> (quoted t \<or> \<not> isReservedTableName (raw t))"

text \<open>The base table that a reference to it stands for.\<close>

inductive table_reference :: "id_token list \<Rightarrow> string \<Rightarrow> bool" where
  bare: "table_name t \<Longrightarrow> raw t \<noteq> '''' \<Longrightarrow> table_reference [t] (raw t)"
| in_schema: "table_name s \<Longrightarrow> tok_kind d = tDot \<Longrightarrow> table_name t \<Longrightarrow> raw t \<noteq> '''' \<Longrightarrow>
    table_reference [s, d, t] (if raw s = '''' then raw t else raw s @ ''.'' @ raw t)"

inductive table_alias :: "id_token list \<Rightarrow> bool" where
  none: "table_alias []"
| name: "table_name t \<Longrightarrow> table_alias [t]"
| as_name: "isKeyword a ''as'' \<Longrightarrow> tok_kind t = tIdent \<Longrightarrow> table_alias [a, t]"

text \<open>No banned keyword, and no aggregate before an opening parenthesis, anywhere.\<close>

definition allowed_tokens :: "id_token list \<Rightarrow> bool" where
  "allowed_tokens ts \<longleftrightarrow>
     (\<forall>i < length ts. tok_kind (ts ! i) = tIdent \<and> \<not> quoted (ts ! i) \<longrightarrow>
        raw (ts ! i) \<notin> set rejectKeywords \<and>
        (raw (ts ! i) \<in> set aggregateFuncs \<longrightarrow> i + 1 < length ts \<longrightarrow> tok_kind (ts ! (i + 1)) \<noteq> tLParen))"

definition clause_start :: "id_token list \<Rightarrow> bool" where
  "clause_start ts \<longleftrightarrow> ts = [] \<or> (\<exists>kw \<in> {''where'', ''order'', ''limit'', ''offset'', ''fetch'', ''for''}. isKeyword (hd ts) kw)"

definition plain_select :: "id_token list \<Rightarrow> string \<Rightarrow> bool" where
  "plain_select ts base \<longleftrightarrow>
     allowed_tokens ts \<and>
     (\<exists>sel items frm table label clauses. ts = sel # items @ frm # table @ label @ clauses \<and>
        isKeyword sel ''select'' \<and> select_list items \<and> isKeyword frm ''from'' \<and> table_reference table base \<and> table_alias label \<and>
        clause_start clauses)"

lemma rejected_iff: "rejected ts \<longleftrightarrow> \<not> allowed_tokens ts"
proof (induction ts)
  case (Cons t ts)
  have "allowed_tokens (t # ts) \<longleftrightarrow>
      (tok_kind t = tIdent \<and> \<not> quoted t \<longrightarrow> raw t \<notin> set rejectKeywords \<and>
        (raw t \<in> set aggregateFuncs \<longrightarrow> ts \<noteq> [] \<longrightarrow> tok_kind (hd ts) \<noteq> tLParen)) \<and> allowed_tokens ts"
    unfolding allowed_tokens_def by (auto simp: All_less_Suc2 hd_conv_nth)
  then show ?case using Cons by auto
qed (simp add: allowed_tokens_def)

lemma findFrom_le: "findFrom ts i d = (Some k, e) \<Longrightarrow> i \<le> k"
  by (induction ts i d rule: findFrom.induct) (auto split: tokenKind.splits if_splits)

lemma findFrom_below:
  "findFrom ts i d = (Some k, e) \<Longrightarrow> d < 0 \<Longrightarrow> \<exists>t \<in> set (take (k - i) ts). tok_kind t = tLParen"
proof (induction ts i d rule: findFrom.induct)
  case (2 t ts i d)
  have k: "findFrom ts (i + 1) d' = (Some k, e) \<Longrightarrow> k - i = Suc (k - (i + 1))" for d' using findFrom_le by fastforce
  show ?case using 2 k by (auto split: tokenKind.splits if_splits)
qed simp

lemma findFrom_list:
  assumes "findFrom ts i 0 = (Some k, e)" "\<forall>t \<in> set (take (k - i) ts). tok_kind t \<noteq> tLParen"
  shows "e = 0 \<and> (\<exists>frm rest. ts = take (k - i) ts @ frm # rest \<and> i \<le> k \<and> k - i < length ts \<and> isKeyword frm ''from'' \<and> select_list (take (k - i) ts))"
  using assms
proof (induction ts arbitrary: i)
  case (Cons t ts)
  show ?case
  proof (cases "isKeyword t ''from''")
    case True
    then show ?thesis using Cons.prems by (auto simp: isKeyword_def select_list_def)
  next
    case False
    obtain d where d: "findFrom ts (i + 1) d = (Some k, e)" "d = (if tok_kind t = tLParen then 1 else if tok_kind t = tRParen then -1 else 0)"
      using Cons.prems(1) False by (cases "tok_kind t") (auto simp: isKeyword_def)
    then have le: "i + 1 \<le> k" using findFrom_le by blast
    then have tk: "take (k - i) (t # ts) = t # take (k - (i + 1)) ts" by (simp add: take_Cons' )
    then have "tok_kind t \<noteq> tLParen" using Cons.prems(2) by auto
    moreover have "tok_kind t \<noteq> tRParen" using Cons.prems(2) findFrom_below [OF d(1)] tk d(2) by auto
    ultimately have f: "findFrom ts (i + 1) 0 = (Some k, e)" using d by simp
    have k: "k - i = Suc (k - (i + 1))" using le by simp
    have "\<forall>x \<in> set (take (k - (i + 1)) ts). tok_kind x \<noteq> tLParen" using Cons.prems(2) k by simp
    then show ?thesis using Cons.IH [OF f] k le \<open>tok_kind t \<noteq> tLParen\<close> \<open>tok_kind t \<noteq> tRParen\<close> False tk
      by (auto simp: select_list_def)
  qed
qed simp

lemma findFrom_skip: "select_list items \<Longrightarrow> isKeyword frm ''from'' \<Longrightarrow> findFrom (items @ frm # rest) i 0 = (Some (i + length items), 0)"
  by (induction items arbitrary: i) (auto simp: select_list_def isKeyword_def split: tokenKind.splits)

lemma validTail_iff: "validTail ts \<longleftrightarrow> clause_start ts"
  by (cases ts) (auto simp: validTail_def clause_start_def isKeyword_def)

lemma skipAlias_iff:
  "validTail (skipAlias tail) \<longleftrightarrow> (\<exists>label clauses. tail = label @ clauses \<and> table_alias label \<and> clause_start clauses)"
proof
  assume v: "validTail (skipAlias tail)"
  have "skipAlias tail = tail \<or> (\<exists>t. tail = t # skipAlias tail \<and> table_name t) \<or>
      (\<exists>a t. tail = a # t # skipAlias tail \<and> isKeyword a ''as'' \<and> tok_kind t = tIdent)"
  proof (cases tail)
    case (Cons a ts)
    then show ?thesis by (cases ts) (auto simp: skipAlias_def table_name_def isKeyword_def)
  qed (simp add: skipAlias_def)
  then consider "skipAlias tail = tail" | t where "tail = t # skipAlias tail" "table_name t"
    | a t where "tail = a # t # skipAlias tail" "isKeyword a ''as''" "tok_kind t = tIdent"
    by blast
  then show "\<exists>label clauses. tail = label @ clauses \<and> table_alias label \<and> clause_start clauses"
  proof cases
    case 1
    then show ?thesis using v table_alias.none by (metis append_Nil validTail_iff)
  next
    case (2 t)
    then show ?thesis using v table_alias.name by (metis append_Cons append_Nil validTail_iff)
  next
    case (3 a t)
    then show ?thesis using v table_alias.as_name by (metis append_Cons append_Nil validTail_iff)
  qed
next
  assume "\<exists>label clauses. tail = label @ clauses \<and> table_alias label \<and> clause_start clauses"
  then obtain label clauses where t: "tail = label @ clauses" "table_alias label" "clause_start clauses" by blast
  from t(2) show "validTail (skipAlias tail)"
  proof cases
    case none
    then have "skipAlias tail = tail"
      using t by (cases clauses) (auto simp: skipAlias_def clause_start_def isKeyword_def isReservedTableName_def)
    then show ?thesis using none t validTail_iff by simp
  next
    case (name u)
    then show ?thesis using t by (auto simp: skipAlias_def table_name_def isReservedTableName_def validTail_iff)
  next
    case (as_name a u)
    then show ?thesis using t by (auto simp: skipAlias_def isKeyword_def validTail_iff)
  qed
qed

lemma skipAlias_dot: "validTail (skipAlias (d # ts)) \<Longrightarrow> tok_kind d \<noteq> tDot"
  by (auto simp: skipAlias_def validTail_def split: if_splits)

lemma parse_iff:
  "(\<exists>sch table n. parseQualifiedTable rest = Some (sch, table, n) \<and> validTail (skipAlias (drop n rest)) \<and>
      formatBaseTable sch table = base \<and> base \<noteq> '''') \<longleftrightarrow>
   (\<exists>table label clauses. rest = table @ label @ clauses \<and> table_reference table base \<and> table_alias label \<and> clause_start clauses)"
  (is "?L \<longleftrightarrow> ?R")
proof
  assume ?L
  then obtain sch table n where p: "parseQualifiedTable rest = Some (sch, table, n)" "validTail (skipAlias (drop n rest))"
    "formatBaseTable sch table = base" "base \<noteq> ''''" by blast
  have "table_reference (take n rest) base"
  proof (cases sch)
    case None
    then have "take n rest = [table]" "table_name table" "raw table \<noteq> ''''" "base = raw table"
      using p by (auto simp: parseQualifiedTable_def formatBaseTable_def table_name_def take_Suc hd_conv_nth split: if_splits)
    then show ?thesis using table_reference.bare by simp
  next
    case (Some s)
    then have n: "n = 3" "3 \<le> length rest" using p(1) by (auto simp: parseQualifiedTable_def split: if_splits)
    then obtain a d t ts where r: "rest = a # d # t # ts" by (metis Suc_le_length_iff numeral_3_eq_3)
    then have "s = a" "table = t" "table_name a" "tok_kind d = tDot" "table_name t"
      using p(1) Some n(1) by (auto simp: parseQualifiedTable_def table_name_def split: if_splits)
    then show ?thesis using p(3,4) Some n(1) r table_reference.in_schema [of a d t] by (auto simp: formatBaseTable_def split: if_splits)
  qed
  moreover obtain label clauses where "drop n rest = label @ clauses" "table_alias label" "clause_start clauses"
    using p(2) skipAlias_iff by blast
  ultimately show ?R by (metis append_take_drop_id)
next
  assume ?R
  then obtain tbl label clauses where r: "rest = tbl @ label @ clauses" "table_reference tbl base" "validTail (skipAlias (label @ clauses))"
    using skipAlias_iff by blast
  from r(2) show ?L
  proof cases
    case (bare t)
    obtain ts where ts: "ts = label @ clauses" by blast
    then have "ts = [] \<or> tok_kind (hd ts) \<noteq> tDot" using r(3) skipAlias_dot [of "hd ts" "tl ts"] by (metis list.collapse)
    then have "parseQualifiedTable (t # ts) = Some (None, t, 1)"
      using bare by (cases ts) (auto simp: parseQualifiedTable_def table_name_def)
    then show ?thesis using bare r ts by (auto simp: formatBaseTable_def)
  next
    case (in_schema s d t)
    then have "parseQualifiedTable rest = Some (Some s, t, 3)" using r(1) by (auto simp: parseQualifiedTable_def table_name_def)
    then show ?thesis using in_schema r by (auto simp: formatBaseTable_def)
  qed
qed

lemma detectSingleStatement_iff: "detectSingleStatement stmt = Some base \<longleftrightarrow> plain_select (tokenize_q stmt) base"
proof -
  define toks where "toks = tokenize_q stmt"
  have d: "detectSingleStatement stmt = Some base \<longleftrightarrow>
     toks \<noteq> [] \<and> isKeyword (hd toks) ''select'' \<and> allowed_tokens toks \<and>
     (\<exists>k. findFrom (tl toks) 1 0 = (Some k, 0) \<and> (\<forall>t \<in> set (drop 1 (take k toks)). tok_kind t \<noteq> tLParen) \<and>
        (\<exists>sch table n. parseQualifiedTable (drop (k + 1) toks) = Some (sch, table, n) \<and>
           validTail (skipAlias (drop n (drop (k + 1) toks))) \<and> formatBaseTable sch table = base \<and> base \<noteq> ''''))"
    by (auto simp: detectSingleStatement_def toks_def [symmetric] Let_def rejected_iff list_ex_iff parseQualifiedTable_def [of "[]"]
        split: if_splits option.splits prod.splits)
  show ?thesis unfolding toks_def [symmetric] d parse_iff
  proof
    assume "toks \<noteq> [] \<and> isKeyword (hd toks) ''select'' \<and> allowed_tokens toks \<and>
     (\<exists>k. findFrom (tl toks) 1 0 = (Some k, 0) \<and> (\<forall>t \<in> set (drop 1 (take k toks)). tok_kind t \<noteq> tLParen) \<and>
        (\<exists>table label clauses. drop (k + 1) toks = table @ label @ clauses \<and> table_reference table base \<and> table_alias label \<and> clause_start clauses))"
    then obtain k table label clauses where k: "toks \<noteq> []" "isKeyword (hd toks) ''select''" "allowed_tokens toks"
        "findFrom (tl toks) 1 0 = (Some k, 0)" "\<forall>t \<in> set (drop 1 (take k toks)). tok_kind t \<noteq> tLParen"
        "drop (k + 1) toks = table @ label @ clauses" "table_reference table base" "table_alias label" "clause_start clauses"
      by blast
    have tk: "drop 1 (take k toks) = take (k - 1) (tl toks)" by (simp add: drop_take drop_Suc)
    obtain frm rest where f: "tl toks = take (k - 1) (tl toks) @ frm # rest" "1 \<le> k" "k - 1 < length (tl toks)" "isKeyword frm ''from''"
        "select_list (take (k - 1) (tl toks))"
      using findFrom_list [OF k(4)] k(5) tk by auto
    have "rest = drop (k + 1) toks"
    proof -
      have "rest = drop (Suc (k - 1)) (tl toks)" by (subst f(1)) (use f(3) in \<open>simp add: min_def\<close>)
      then show ?thesis using f(2) by (simp add: drop_Suc)
    qed
    then have "toks = hd toks # take (k - 1) (tl toks) @ frm # table @ label @ clauses" using k(1,6) f(1) by (metis list.collapse)
    then show "plain_select toks base" unfolding plain_select_def using k f by blast
  next
    assume "plain_select toks base"
    then obtain sel items frm table label clauses where t: "toks = sel # items @ frm # table @ label @ clauses"
        "isKeyword sel ''select''" "select_list items" "isKeyword frm ''from''" "table_reference table base" "table_alias label"
        "clause_start clauses" "allowed_tokens toks"
      unfolding plain_select_def by blast
    have "findFrom (tl toks) 1 0 = (Some (1 + length items), 0)" using findFrom_skip t(1,3,4) by simp
    moreover have "\<forall>x \<in> set (drop 1 (take (1 + length items) toks)). tok_kind x \<noteq> tLParen" using t(1,3) by (auto simp: select_list_def)
    moreover have "drop (1 + length items + 1) toks = table @ label @ clauses" using t(1) by simp
    ultimately show "toks \<noteq> [] \<and> isKeyword (hd toks) ''select'' \<and> allowed_tokens toks \<and>
     (\<exists>k. findFrom (tl toks) 1 0 = (Some k, 0) \<and> (\<forall>t \<in> set (drop 1 (take k toks)). tok_kind t \<noteq> tLParen) \<and>
        (\<exists>table label clauses. drop (k + 1) toks = table @ label @ clauses \<and> table_reference table base \<and> table_alias label \<and> clause_start clauses))"
      using t by (intro conjI exI [of _ "1 + length items"]) auto
  qed
qed

section \<open>Cleaned texts\<close>

lemma quotedPart_step:
  "c \<noteq> q \<Longrightarrow> quotedPart q (c # s) = (c # fst (quotedPart q s), snd (quotedPart q s))"
  "quotedPart q (q # q # s) = (q # q # fst (quotedPart q s), snd (quotedPart q s))"
  "s = [] \<or> hd s \<noteq> q \<Longrightarrow> quotedPart q (q # s) = ([q], s)"
  by (cases s; simp add: case_prod_beta)+

lemma quotedPart_again:
  assumes "quotedPart q s = (p, r)"
  shows "r = [] \<and> p = s \<or> r \<noteq> [] \<and> hd r \<noteq> q \<and> (\<forall>t. t = [] \<or> hd t \<noteq> q \<longrightarrow> quotedPart q (p @ t) = (p, t))"
  using assms
proof (induction "length s" arbitrary: s p r rule: less_induct)
  case less
  consider "s = []" | c s' where "s = c # s'" "c \<noteq> q" | s' where "s = q # q # s'" | s' where "s = q # s'" "s' = [] \<or> hd s' \<noteq> q"
    by (metis list.collapse)
  then show ?case
  proof cases
    case (2 c s')
    obtain p' where p': "quotedPart q s' = (p', r)" "p = c # p'" using less.prems 2 by (cases "quotedPart q s'") (simp add: quotedPart_step(1))
    have "quotedPart q (p @ t) = (p, t)" if "quotedPart q (p' @ t) = (p', t)" for t using that p'(2) 2(2) by (simp add: quotedPart_step(1))
    then show ?thesis using less.hyps [OF _ p'(1)] 2(1) p'(2) by (metis length_Cons lessI)
  next
    case (3 s')
    obtain p' where p': "quotedPart q s' = (p', r)" "p = q # q # p'" using less.prems 3 by (cases "quotedPart q s'") simp
    have "quotedPart q (p @ t) = (p, t)" if "quotedPart q (p' @ t) = (p', t)" for t using that p'(2) by (simp add: quotedPart_step(2))
    then show ?thesis using less.hyps [OF _ p'(1)] 3 p'(2) by (metis length_Cons less_SucI lessI)
  next
    case (4 s')
    then show ?thesis using less.prems by (auto simp: quotedPart_step(3))
  qed (use less.prems in simp)
qed

lemma not_quotes: "opensLine c s \<Longrightarrow> \<not> isQuote c" "opensBlock c s \<Longrightarrow> \<not> isQuote c" "opensBlock c s \<Longrightarrow> \<not> opensLine c s"
  unfolding opensLine_def opensBlock_def isQuote_def by simp_all

lemma strip_cases:
  "isQuote c \<Longrightarrow> stripComments (c # s) = c # fst (quotedPart c s) @ stripComments (snd (quotedPart c s))"
  "opensLine c s \<Longrightarrow> stripComments (c # s) = (case dropWhile (\<lambda>d. d \<noteq> CHR 0x0A) (tl s) of [] \<Rightarrow> [] | n # r \<Rightarrow> n # stripComments r)"
  "opensBlock c s \<Longrightarrow> stripComments (c # s) = CHR '' '' # stripComments (afterBlock (tl s))"
  "\<not> isQuote c \<Longrightarrow> \<not> opensLine c s \<Longrightarrow> \<not> opensBlock c s \<Longrightarrow> stripComments (c # s) = c # stripComments s"
  by (simp_all only: stripComments.simps not_quotes if_True if_False)

declare stripComments.simps(2) [simp del]

lemma newline_first: "dropWhile (\<lambda>d. d \<noteq> x) s = n # r \<Longrightarrow> n = x"
  using hd_dropWhile [of "\<lambda>d. d \<noteq> x" s] by auto

lemma blank_plain:
  "\<not> isQuote (CHR 0x0A)" "\<not> opensLine (CHR 0x0A) s" "\<not> opensBlock (CHR 0x0A) s"
  "\<not> isQuote (CHR '' '')" "\<not> opensLine (CHR '' '') s" "\<not> opensBlock (CHR '' '') s"
  by (simp_all add: isQuote_def opensLine_def opensBlock_def)

lemma stripComments_hd: "stripComments (d # s) = [] \<or> hd (stripComments (d # s)) \<in> {d, CHR 0x0A, CHR '' ''}"
proof (cases "opensLine d s")
  case True
  show ?thesis
  proof (cases "dropWhile (\<lambda>d. d \<noteq> CHR 0x0A) (tl s)")
    case (Cons n r)
    then show ?thesis using True newline_first [OF Cons] by (simp add: strip_cases(2))
  next
    case Nil
    then show ?thesis using True by (simp add: strip_cases(2) del: dropWhile_eq_Nil_conv)
  qed
next
  case False
  consider "isQuote d" | "opensBlock d s" | "\<not> isQuote d" "\<not> opensBlock d s" by blast
  then show ?thesis
  proof cases
    case 1
    then show ?thesis using strip_cases(1) by simp
  next
    case 2
    then show ?thesis using strip_cases(3) by simp
  next
    case 3
    then show ?thesis using strip_cases(4) False by simp
  qed
qed

lemma stripComments_again: "stripComments (stripComments s) = stripComments s"
proof (induction "length s" arbitrary: s rule: less_induct)
  case less
  show ?case
  proof (cases s)
    case (Cons c t)
    consider (quoted) "isQuote c" | (line) "opensLine c t" | (block) "opensBlock c t"
      | (plain) "\<not> isQuote c" "\<not> opensLine c t" "\<not> opensBlock c t"
      by blast
    then show ?thesis
    proof cases
      case quoted
      obtain p r where q: "quotedPart c t = (p, r)" by fastforce
      have IH: "stripComments (stripComments r) = stripComments r" using less [of r] quotedPart_length [of c t] q Cons by simp
      have "c \<noteq> CHR 0x0A" "c \<noteq> CHR '' ''" using quoted by (auto simp: isQuote_def)
      then have hd: "stripComments r = [] \<or> hd (stripComments r) \<noteq> c" if "r \<noteq> []" "hd r \<noteq> c"
        using that stripComments_hd [of "hd r" "tl r"] by (metis empty_iff insert_iff list.collapse)
      have "quotedPart c (p @ stripComments r) = (p, stripComments r)"
      proof (cases "r = []")
        case True
        then show ?thesis using quotedPart_again [OF q] q by simp
      next
        case False
        then show ?thesis using quotedPart_again [OF q] hd by blast
      qed
      then show ?thesis using IH quoted q Cons by (simp add: strip_cases(1))
    next
      case line
      show ?thesis
      proof (cases "dropWhile (\<lambda>d. d \<noteq> CHR 0x0A) (tl t)")
        case Nil
        then show ?thesis using line Cons by (simp add: strip_cases(2) del: dropWhile_eq_Nil_conv)
      next
        case c2: (Cons n r)
        then have n: "n = CHR 0x0A" by (rule newline_first)
        have "length (n # r) \<le> length t" unfolding c2 [symmetric] by (rule order_trans [OF length_dropWhile_le]) simp
        then have "stripComments (stripComments r) = stripComments r" using less [of r] Cons by simp
        then show ?thesis using line Cons c2 n blank_plain by (simp add: strip_cases(2) strip_cases(4))
      qed
    next
      case block
      have "length (afterBlock (tl t)) \<le> length t" by (rule order_trans [OF afterBlock_length]) simp
      then have "stripComments (stripComments (afterBlock (tl t))) = stripComments (afterBlock (tl t))" using less Cons by simp
      then show ?thesis using block Cons blank_plain by (simp add: strip_cases(3) strip_cases(4))
    next
      case plain
      have "stripComments t = [] \<or> t \<noteq> [] \<and> hd (stripComments t) \<in> {hd t, CHR 0x0A, CHR '' ''}"
        using stripComments_hd [of "hd t" "tl t"] by (cases t) auto
      then have "\<not> opensLine c (stripComments t)" "\<not> opensBlock c (stripComments t)"
        using plain(2,3) unfolding opensLine_def opensBlock_def by auto
      then show ?thesis using less [of t] plain Cons by (simp add: strip_cases(4))
    qed
  qed simp
qed

lemma detectLoop_rest:
  "\<forall>s \<in> set stmts. TrimBytes s \<noteq> [] \<Longrightarrow>
   detectLoop stmts (Suc i) first = (if \<forall>s \<in> set stmts. detectSingleStatement s \<noteq> None then first else None)"
  by (induction stmts arbitrary: i) (auto split: option.splits)

abbreviation statementsOf :: "string \<Rightarrow> string list" where
  "statementsOf sql \<equiv> splitStatementsRespectingStrings (stripComments sql)"

lemma DetectFromQuery_iff:
  "DetectFromQuery sql = Some base \<longleftrightarrow> statementsOf sql \<noteq> [] \<and> detectSingleStatement (hd (statementsOf sql)) = Some base \<and>
     (\<forall>s \<in> set (statementsOf sql). detectSingleStatement s \<noteq> None)"
proof (cases "statementsOf sql")
  case (Cons s ss)
  have "\<forall>x \<in> set (s # ss). TrimBytes x \<noteq> []" unfolding Cons [symmetric] splitStatementsRespectingStrings_def by auto
  then show ?thesis unfolding DetectFromQuery_def Let_def Cons using detectLoop_rest [of ss 0] by (auto split: option.splits)
qed (simp add: DetectFromQuery_def)



end
