(* ===== verification/ResultEditability.thy ===== *)
theory ResultEditability
  imports EditableGridSpec ResultIdentity
begin

text \<open>
  How a result becomes editable: a tab records the identity of its query, asks the catalogue in the
  background and installs the answer on its grid
  (\<open>pkg/gui/controllers/helpers/ui/result_tabs_helper.go\<close>, \<open>pkg/gui/orchestrator/wire_result_tabs.go\<close>).
  The background work may answer at any time and in any order.
\<close>

section \<open>A tab and its introspections\<close>

text \<open>The part of \<open>Tab\<close> that decides on editing; no base table is no row identity.\<close>

record edit_tab =
  connID :: string
  resultIdentity :: "string option"
  editabilityGen :: nat
  disposed :: bool
  tabGrid :: grid_state

text \<open>The connection the program is on: none, its generation, and whether its profile is read-only.\<close>

record connection_now =
  present :: bool
  connGen :: nat
  connReadOnly :: bool

text \<open>What a scheduled introspection captured.\<close>

record introspection =
  iCols :: "ColumnMeta list"
  iGen :: nat
  iAllow :: bool
  iConnGen :: nat
  iReadOnly :: bool

definition SetIdentity :: "edit_tab \<Rightarrow> string \<Rightarrow> string option \<Rightarrow> edit_tab" where
  "SetIdentity t conn ri =
     t\<lparr>editabilityGen := editabilityGen t + 1, connID := conn, resultIdentity := ri,
       tabGrid := setEditability (tabGrid t) False [] '''' ('''', '''')\<rparr>"

text \<open>What \<open>startStreaming\<close> does to the tab, and then to the grid; no columns when no rows come.\<close>

definition startStreaming :: "edit_tab \<Rightarrow> edit_tab" where
  "startStreaming t = t\<lparr>editabilityGen := editabilityGen t + 1\<rparr>"

definition installColumns :: "edit_tab \<Rightarrow> ColumnMeta list option \<Rightarrow> edit_tab" where
  "installColumns t cols =
     t\<lparr>tabGrid := (case cols of None \<Rightarrow> SetColumns (tabGrid t) [] | Some cs \<Rightarrow> SetColumns (SetColumns (tabGrid t) []) cs)\<rparr>"

definition scheduleEditabilityIntrospect :: "edit_tab \<Rightarrow> connection_now \<Rightarrow> ColumnMeta list \<Rightarrow> introspection option" where
  "scheduleEditabilityIntrospect t c cols =
     (if cols = [] then None
      else if connID t = '''' \<or> disposed t then None
      else if \<not> present c then None
      else Some \<lparr>iCols = cols, iGen = editabilityGen t, iAllow = resultIdentity t \<noteq> None, iConnGen = connGen c, iReadOnly = connReadOnly c\<rparr>)"

text \<open>
  The work in the background: whether the connection is still the captured one, whether a session was
  acquired, and the catalogue.  A result of no columns stands for nil.
\<close>

definition introspectHook :: "introspection \<Rightarrow> bool \<Rightarrow> bool \<Rightarrow> (nat list \<Rightarrow> string + relRow list) \<Rightarrow>
    bool \<times> int list \<times> string \<times> table_ref \<times> ColumnMeta list" where
  "introspectHook i alive acquired catalogue =
     (if \<not> alive \<or> \<not> acquired then (False, [], '''', ('''', ''''), [])
      else case ResolveEditability (iCols i) catalogue of
        (ref, rowID, reason, resolved, err) \<Rightarrow>
          if err \<noteq> None then (False, [], reason, ('''', ''''), [])
          else case ApplyConnectionGate (reason = '''') reason (iReadOnly i) True of
            (ed, reason') \<Rightarrow> (ed, map int rowID, reason', ref, resolved))"

definition publish :: "edit_tab \<Rightarrow> connection_now \<Rightarrow> introspection \<Rightarrow> bool \<times> int list \<times> string \<times> table_ref \<times> ColumnMeta list \<Rightarrow> edit_tab" where
  "publish t c i answer =
     (case answer of (ed, rowID, reason, ref, resolved) \<Rightarrow>
        let ed' = (ed \<and> iAllow i);
            reason' = (if \<not> iAllow i \<and> reason = '''' then ''query projection is read-only'' else reason)
        in if disposed t \<or> editabilityGen t \<noteq> iGen i \<or> \<not> present c \<or> connGen c \<noteq> iConnGen i then t
           else t\<lparr>tabGrid := SetResolvedEditability (tabGrid t) resolved ed' rowID reason' ref\<rparr>)"

section \<open>Steps\<close>

text \<open>What happens to the rows of a grid between results.\<close>

inductive grid_use :: "grid_state \<Rightarrow> grid_state \<Rightarrow> bool" where
  append: "grid_use v (AppendRows v rows)"
| cursor: "grid_use v (v\<lparr>cursorRow := r, cursorCol := c\<rparr>)"
| by_key: "grid_use v (snd (UpdateRowsByPK v names rows))"
| by_original: "UpdateRowsFromOriginalPK v i names rows pks = Some (n, v') \<Longrightarrow> grid_use v v'"
| settle: "SettleCommittedRows v generation i names rows pks complete = Some v' \<Longrightarrow> grid_use v v'"

text \<open>
  What the catalogue is relied on for: the attributes of a key are distinct, attribute numbers are 16-bit,
  and the names of the columns of a relation are distinct.
\<close>

definition wf_relation :: "relRow \<Rightarrow> bool" where
  "wf_relation r \<longleftrightarrow>
     (\<forall>key \<in> set (keyCandidates (PKAttnums r) (UniqueAttnums r)). distinct key \<and> (\<forall>a \<in> set key. a < 65536)) \<and>
     inj_on (map_of (ColumnNames r)) (fst ` set (ColumnNames r))"

definition wf_catalogue :: "(nat list \<Rightarrow> string + relRow list) \<Rightarrow> bool" where
  "wf_catalogue catalogue \<longleftrightarrow> (\<forall>oids rows. catalogue oids = Inr rows \<longrightarrow> (\<forall>r \<in> set rows. wf_relation r))"

inductive tab_step :: "edit_tab \<times> connection_now \<times> introspection list \<Rightarrow> edit_tab \<times> connection_now \<times> introspection list \<Rightarrow> bool" where
  identity: "tab_step (t, c, is) (SetIdentity t conn ri, c, is)"
| stream: "tab_step (t, c, is) (startStreaming t, c, is)"
| columns: "tab_step (t, c, is) (installColumns t cols, c, is)"
| schedule: "scheduleEditabilityIntrospect t c cols = Some i \<Longrightarrow> tab_step (t, c, is) (t, c, i # is)"
| answer: "i \<in> set is \<Longrightarrow> wf_catalogue catalogue \<Longrightarrow>
    tab_step (t, c, is) (publish t c i (introspectHook i alive acquired catalogue), c, is)"
| rows: "grid_use (tabGrid t) v \<Longrightarrow> tab_step (t, c, is) (t\<lparr>tabGrid := v\<rparr>, c, is)"
| connect: "connGen c < connGen c' \<Longrightarrow> tab_step (t, c, is) (t, c', is)"
| dispose: "tab_step (t, c, is) (t\<lparr>disposed := True\<rparr>, c, is)"

definition new_tab :: edit_tab where
  "new_tab = \<lparr>connID = '''', resultIdentity = None, editabilityGen = 0, disposed = False, tabGrid = NewGrid\<rparr>"

section \<open>Resolved columns\<close>

definition named :: "relRow \<Rightarrow> ColumnMeta \<Rightarrow> ColumnMeta" where
  "named r c = (if TableOID c = OID r then c\<lparr>PhysicalName := physicalName r c\<rparr> else c)"

lemma resolveColumns_step:
  "resolveColumns r (c # cs) (ids, reason) =
     (let v = resolveColumns r cs
        (if reason = '''' \<and> PhysicalName (named r c) = '''' then ([], ''physical column names unavailable'') else (ids, reason))
      in (named r c # fst v, snd v))"
  by (simp add: named_def Let_def case_prod_beta)

declare resolveColumns.simps(2) [simp del]

lemma resolveColumns_named: "fst (resolveColumns r cs (ids, reason)) = map (named r) cs"
  by (induction cs arbitrary: ids reason) (simp_all add: resolveColumns_step Let_def)

lemma resolveColumns_kept:
  "snd (resolveColumns r cs (ids, reason)) = (ids', '''') \<Longrightarrow>
   reason = '''' \<and> ids' = ids \<and> (\<forall>c \<in> set cs. PhysicalName (named r c) \<noteq> '''')"
proof (induction cs arbitrary: ids reason)
  case (Cons c cs)
  show ?case
  proof (cases "reason = '''' \<and> PhysicalName (named r c) = ''''")
    case True
    then have "snd (resolveColumns r cs ([], ''physical column names unavailable'')) = (ids', '''')"
      using Cons.prems by (simp add: resolveColumns_step Let_def)
    then show ?thesis using Cons.IH by blast
  next
    case False
    then have "snd (resolveColumns r cs (ids, reason)) = (ids', '''')"
      using Cons.prems by (simp only: resolveColumns_step Let_def snd_conv if_False)
    then show ?thesis using Cons.IH False by auto
  qed
qed simp

text \<open>The columns, the key and the relation an identity was decided from.\<close>

definition key_of_relation :: "ColumnMeta list \<Rightarrow> nat list \<Rightarrow> bool" where
  "key_of_relation cols ids \<longleftrightarrow>
     (\<exists>r key oid. wf_relation r \<and> RelKind r = ''r'' \<and> \<not> IsTempSchema r \<and> oid \<noteq> 0 \<and>
        key \<in> set (keyCandidates (PKAttnums r) (UniqueAttnums r)) \<and> selected_key cols key ids \<and>
        (\<forall>c \<in> set cols. TableOID c = oid \<and> PhysicalName c = physicalName r c \<and> PhysicalName c \<noteq> ''''))"

lemma selected_key_attnums:
  assumes "map TableAttributeNumber cols' = map TableAttributeNumber cols" "selected_key cols key is"
  shows "selected_key cols' key is"
proof -
  have l: "length cols' = length cols" using assms(1) by (metis length_map)
  have n: "TableAttributeNumber (cols' ! i) = TableAttributeNumber (cols ! i)" if "i < length cols" for i
    using assms(1) that l by (metis nth_map)
  show ?thesis
    unfolding selected_key_def
  proof (intro conjI allI impI)
    fix j
    assume j: "j < length key"
    note s = assms(2) [unfolded selected_key_def, THEN conjunct2, rule_format, OF j]
    show "0 < key ! j" "uint16 (key ! j) \<noteq> 0" using s by blast+
    show "is ! j < length cols'" using s l by simp
    show "TableAttributeNumber (cols' ! (is ! j)) = uint16 (key ! j)" using s n by simp
    show "TableAttributeNumber (cols' ! i) \<noteq> uint16 (key ! j)" if "i < is ! j" for i using s n [of i] that by force
  qed (use assms(2) in \<open>simp add: selected_key_def\<close>)
qed

lemma resolved_key:
  assumes "ResolveEditability cols catalogue = (ref, ids, '''', cs, None)" "wf_catalogue catalogue" "\<forall>c \<in> set cs. PhysicalName c \<noteq> ''''"
  shows "key_of_relation cs ids"
proof -
  define cols0 where "cols0 = map (\<lambda>c. c\<lparr>PhysicalName := ''''\<rparr>) cols"
  obtain ref0 ids0 reason0 err0 where d: "decideEditability cols0 catalogue = (ref0, ids0, reason0, err0)" by (rule prod_cases4)
  have run: "(case (err0, introspected cols0 catalogue) of
        (None, [r]) \<Rightarrow> (case resolveColumns r cols0 (ids0, reason0) of (cs, identity', reason') \<Rightarrow> (ref0, identity', reason', cs, err0))
      | _ \<Rightarrow> (ref0, ids0, reason0, cols0, err0)) = (ref, ids, '''', cs, None)"
    using assms(1) d unfolding ResolveEditability_def cols0_def by (simp add: Let_def)
  have one: "\<exists>r. introspected cols0 catalogue = [r] \<and> resolveColumns r cols0 (ids0, reason0) = (cs, ids, '''')"
  proof (cases "\<exists>r. introspected cols0 catalogue = [r] \<and> err0 = None")
    case True
    then show ?thesis using run by (auto split: prod.splits)
  next
    case False
    then have "reason0 = ''''" "cs = cols0" using run by (auto split: option.splits list.splits)
    moreover have "cols0 \<noteq> []" using Editability.decided [OF d] \<open>reason0 = ''''\<close> by (auto simp: editable_result_def)
    ultimately show ?thesis using assms(3) by (auto simp: cols0_def neq_Nil_conv)
  qed
  then obtain r where r: "introspected cols0 catalogue = [r]" "resolveColumns r cols0 (ids0, reason0) = (cs, ids, '''')" by blast
  have k: "reason0 = ''''" "ids = ids0" "cs = map (named r) cols0" "\<forall>c \<in> set cols0. PhysicalName (named r c) \<noteq> ''''"
    using resolveColumns_kept [of r cols0 ids0 reason0 ids] resolveColumns_named [of r cols0 ids0 reason0] r(2) by auto
  obtain oid r' rs where o: "catalogue [oid] = Inr (r' # rs)" "editable_result cols0 oid r'"
      "computeRowIdentity cols0 (PKAttnums r') (UniqueAttnums r') = Some ids0"
    using Editability.decided [OF d] k(1) by blast
  have fs: "firstSeen [] (map TableOID cols0) = [oid]" by (rule firstSeen_same) (use o(2) in \<open>simp add: editable_result_def\<close>)
  have "r' = r" using r(1) o fs unfolding introspected_def by (auto split: if_splits)
  obtain key where key: "key \<in> set (keyCandidates (PKAttnums r) (UniqueAttnums r))" "selected_key cols0 key ids0"
    using computeRowIdentity_key [OF o(3)] \<open>r' = r\<close> by blast
  have sel: "selected_key cs key ids"
    unfolding k(2) by (rule selected_key_attnums [OF _ key(2)]) (simp add: k(3) named_def comp_def)
  have "wf_relation r" using assms(2) o(1) \<open>r' = r\<close> by (auto simp: wf_catalogue_def)
  moreover have "\<forall>c \<in> set cs. TableOID c = oid \<and> PhysicalName c = physicalName r c \<and> PhysicalName c \<noteq> ''''"
  proof
    fix c
    assume "c \<in> set cs"
    then obtain c0 where c0: "c0 \<in> set cols0" "c = named r c0" using k(3) by auto
    then have "TableOID c0 = oid" using o(2) by (auto simp: editable_result_def)
    moreover have "PhysicalName c0 = ''''" using c0(1) by (auto simp: cols0_def)
    moreover have "PhysicalName c \<noteq> ''''" using c0 k(4) by simp
    ultimately show "TableOID c = oid \<and> PhysicalName c = physicalName r c \<and> PhysicalName c \<noteq> ''''"
      using c0(2) by (auto simp: named_def physicalName_def split: if_splits)
  qed
  ultimately show ?thesis unfolding key_of_relation_def using key(1) sel o(2) \<open>r' = r\<close> unfolding editable_result_def by blast
qed

section \<open>The identity of an editable grid\<close>

definition grid_columns :: "ColumnMeta list \<Rightarrow> nat list \<Rightarrow> IdentityColumn list" where
  "grid_columns cols ids = map (\<lambda>i. \<lparr>Attnum = TableAttributeNumber (cols ! i), ColName = PhysicalName (cols ! i)\<rparr>) ids"

lemma editIdentityFrom_columns:
  assumes "\<forall>i \<in> set ids. i < length cols" "\<forall>c \<in> set cols. TableOID c = oid" "RelationOID e = 0 \<or> RelationOID e = oid"
  shows "editIdentityFrom cols (map int ids) e =
    (if ids = [] then e else \<lparr>RelationOID = oid, Columns = Columns e @ grid_columns cols ids\<rparr>)"
  using assms
proof (induction ids arbitrary: e)
  case (Cons i ids)
  have t: "TableOID (cols ! i) = oid" using Cons.prems by simp
  show ?case using Cons t by (auto simp: Let_def grid_columns_def)
qed simp

lemma columnsValid_iff:
  "columnsValid prior cs \<longleftrightarrow>
     (\<forall>c \<in> set cs. Attnum c \<noteq> 0 \<and> ColName c \<noteq> '''' \<and> (\<forall>p \<in> set prior. Attnum p \<noteq> Attnum c \<and> ColName p \<noteq> ColName c)) \<and>
     distinct (map Attnum cs) \<and> distinct (map ColName cs)"
proof (induction cs arbitrary: prior)
  case (Cons c cs)
  show ?case unfolding columnsValid.simps Cons.IH list_all_iff by auto
qed simp

lemma key_names:
  assumes "wf_relation r" "key \<in> set (keyCandidates (PKAttnums r) (UniqueAttnums r))" "selected_key cols key ids"
    "\<forall>c \<in> set cols. PhysicalName c = physicalName r c \<and> PhysicalName c \<noteq> ''''"
  shows "columnsValid [] (grid_columns cols ids)"
proof -
  have len: "length ids = length key" and
      key: "0 < key ! j \<and> ids ! j < length cols \<and> TableAttributeNumber (cols ! (ids ! j)) = uint16 (key ! j)" if "j < length key" for j
    using assms(3) that by (auto simp: selected_key_def)
  have d: "distinct key" "\<forall>a \<in> set key. a < 65536" "inj_on (map_of (ColumnNames r)) (fst ` set (ColumnNames r))"
    using assms(1,2) by (auto simp: wf_relation_def)
  have num: "int (TableAttributeNumber (cols ! (ids ! j))) = key ! j" if "j < length key" for j
    using key [OF that] d(2) nth_mem [OF that] by (simp add: uint16_def)
  have name: "map_of (ColumnNames r) (key ! j) = Some (PhysicalName (cols ! (ids ! j)))" if "j < length key" for j
  proof -
    have "PhysicalName (cols ! (ids ! j)) = physicalName r (cols ! (ids ! j))" "physicalName r (cols ! (ids ! j)) \<noteq> ''''"
      using key [OF that] assms(4) by (metis nth_mem)+
    then show ?thesis using num [OF that] by (simp add: physicalName_def split: option.splits)
  qed
  have inj: "j = j'" if "j < length key" "j' < length key" "map_of (ColumnNames r) (key ! j) = map_of (ColumnNames r) (key ! j')" for j j'
  proof -
    have "key ! j \<in> fst ` set (ColumnNames r)" "key ! j' \<in> fst ` set (ColumnNames r)"
      using name [OF that(1)] name [OF that(2)] by (metis map_of_eq_None_iff option.distinct(1))+
    then have "key ! j = key ! j'" using inj_onD [OF d(3) that(3)] by blast
    then show ?thesis using d(1) that(1,2) by (simp add: nth_eq_iff_index_eq)
  qed
  have l: "length (grid_columns cols ids) = length key" using assms(3) by (simp add: grid_columns_def selected_key_def)
  have nth: "grid_columns cols ids ! j = \<lparr>Attnum = TableAttributeNumber (cols ! (ids ! j)), ColName = PhysicalName (cols ! (ids ! j))\<rparr>"
    if "j < length key" for j using that len by (simp add: grid_columns_def)
  have "map (\<lambda>c. int (Attnum c)) (grid_columns cols ids) = key" using l nth num by (intro nth_equalityI) simp_all
  then have "distinct (map int (map Attnum (grid_columns cols ids)))" using d(1) by (simp add: comp_def)
  then have "distinct (map Attnum (grid_columns cols ids))" by (simp only: distinct_map)
  moreover have "distinct (map ColName (grid_columns cols ids))"
    unfolding distinct_conv_nth using l nth name inj by auto
  moreover have "Attnum c \<noteq> 0 \<and> ColName c \<noteq> ''''" if cm: "c \<in> set (grid_columns cols ids)" for c
  proof -
    obtain j where j: "j < length key" "c = grid_columns cols ids ! j" using iffD1 [OF in_set_conv_nth cm] l by auto
    have "TableAttributeNumber (cols ! (ids ! j)) \<noteq> 0" using num [OF j(1)] key [OF j(1)] by linarith
    moreover have "PhysicalName (cols ! (ids ! j)) \<noteq> ''''" using key [OF j(1)] assms(4) nth_mem by blast
    ultimately show ?thesis using nth [OF j(1)] j(2) by simp
  qed
  ultimately show ?thesis by (simp add: columnsValid_iff)
qed

definition grid_ready :: "grid_state \<Rightarrow> bool" where
  "grid_ready v \<longleftrightarrow> (\<exists>ids. rowIdentity v = map int ids \<and> key_of_relation (gCols v) ids)"

lemma ready_identity:
  assumes "grid_ready v"
  shows "EditIdentity_Validate (grid_EditIdentity v) = None"
proof -
  obtain ids r key oid where k: "rowIdentity v = map int ids" "wf_relation r" "oid \<noteq> 0"
      "key \<in> set (keyCandidates (PKAttnums r) (UniqueAttnums r))" "selected_key (gCols v) key ids"
      "\<forall>c \<in> set (gCols v). TableOID c = oid \<and> PhysicalName c = physicalName r c \<and> PhysicalName c \<noteq> ''''"
    using assms unfolding grid_ready_def key_of_relation_def by blast
  have "\<forall>i \<in> set ids. i < length (gCols v)" using k(5) by (auto simp: selected_key_def in_set_conv_nth)
  moreover have "ids \<noteq> []" using k(5) keyCandidates_ne [OF k(4)] by (auto simp: selected_key_def)
  ultimately have "grid_EditIdentity v = \<lparr>RelationOID = oid, Columns = grid_columns (gCols v) ids\<rparr>"
    using editIdentityFrom_columns [of ids "gCols v" oid noIdentity] k(1,6) by (auto simp: grid_EditIdentity_def noIdentity_def)
  moreover have "columnsValid [] (grid_columns (gCols v) ids)" using key_names k by blast
  ultimately show ?thesis using k(3) \<open>ids \<noteq> []\<close> by (simp add: EditIdentity_Validate_def grid_columns_def)
qed

section \<open>Reachable tabs\<close>

lemma settle_keeps:
  assumes "SettleCommittedRows v generation i names rows pks complete = Some v'"
  shows "gCols v' = gCols v \<and> rowIdentity v' = rowIdentity v \<and> (editable v' \<longrightarrow> editable v)"
  using assms
  by (auto simp: SettleCommittedRows_def Let_def updateRows_kept split: if_splits bind_splits prod.splits dest!: arg_cong [where f = snd])

lemma by_original_keeps:
  assumes "UpdateRowsFromOriginalPK v i names rows pks = Some (n, v')"
  shows "gCols v' = gCols v \<and> rowIdentity v' = rowIdentity v \<and> (editable v' \<longrightarrow> editable v)"
proof -
  have "v' = v \<or> (\<exists>ks. v' = snd (updateRowsByPKLocked (v\<lparr>editBaseline := editBaseline v + 1\<rparr>) names rows (Some ks)))"
    using assms by (auto simp: UpdateRowsFromOriginalPK_def split: if_splits bind_splits prod.splits) (metis snd_conv)
  then show ?thesis by (auto simp: updateRows_kept)
qed

lemma use_keeps: "grid_use v v' \<Longrightarrow> gCols v' = gCols v \<and> rowIdentity v' = rowIdentity v \<and> (editable v' \<longrightarrow> editable v)"
proof (induction rule: grid_use.induct)
  case (by_original v i names rows pks n v')
  then show ?case by (rule by_original_keeps)
next
  case (settle v generation i names rows pks complete v')
  then show ?case by (rule settle_keeps)
qed (simp_all add: AppendRows_def UpdateRowsByPK_def updateRows_kept)

text \<open>What each scheduled introspection knows of the tab and of the connection it was scheduled on.\<close>

definition captured :: "edit_tab \<Rightarrow> connection_now \<Rightarrow> introspection \<Rightarrow> bool" where
  "captured t c i \<longleftrightarrow>
     iGen i \<le> editabilityGen t \<and> (iGen i = editabilityGen t \<longrightarrow> (iAllow i \<longleftrightarrow> resultIdentity t \<noteq> None) \<and> connID t \<noteq> '''') \<and>
     iConnGen i \<le> connGen c \<and> (iConnGen i = connGen c \<longrightarrow> iReadOnly i = connReadOnly c)"

definition tab_ok :: "edit_tab \<times> connection_now \<times> introspection list \<Rightarrow> bool" where
  "tab_ok w = (case w of (t, c, is) \<Rightarrow>
     (\<forall>i \<in> set is. captured t c i) \<and> (editable (tabGrid t) \<longrightarrow> resultIdentity t \<noteq> None \<and> connID t \<noteq> '''' \<and> grid_ready (tabGrid t)))"

lemma publish_keeps: "publish t c i answer = t\<lparr>tabGrid := tabGrid (publish t c i answer)\<rparr>"
  by (cases t) (simp add: publish_def Let_def split: prod.splits)

lemma publish_ignored:
  "disposed t \<or> editabilityGen t \<noteq> iGen i \<or> \<not> present c \<or> connGen c \<noteq> iConnGen i \<Longrightarrow> publish t c i answer = t"
  by (auto simp: publish_def Let_def split: prod.splits)

lemma publish_taken:
  assumes "\<not> disposed t" "editabilityGen t = iGen i" "present c" "connGen c = iConnGen i" "answer = (ed, rowID, reason, ref, resolved)"
  shows "\<exists>reason'. publish t c i answer = t\<lparr>tabGrid := SetResolvedEditability (tabGrid t) resolved (ed \<and> iAllow i) rowID reason' ref\<rparr>"
  using assms by (auto simp: publish_def Let_def)

text \<open>What an installed decision leaves, when the grid is editable afterwards.\<close>

lemma resolved_editable:
  assumes "editable (SetResolvedEditability v cols ed ids reason ref)"
  shows "SetResolvedEditability v cols ed ids reason ref = v \<or> ed \<and> \<not> baselineInvalid v \<and> (\<forall>c \<in> set cols. PhysicalName c \<noteq> '''') \<and>
     gCols (SetResolvedEditability v cols ed ids reason ref) = cols \<and> rowIdentity (SetResolvedEditability v cols ed ids reason ref) = ids \<or>
     baselineInvalid v \<and> editable v"
  using assms by (auto simp: SetResolvedEditability_def setEditability_def Let_def list_ex_iff split: if_splits)

definition invalid_off :: "grid_state \<Rightarrow> bool" where
  "invalid_off v \<longleftrightarrow> (baselineInvalid v \<longrightarrow> \<not> editable v)"

lemma use_invalid_off: "grid_use v v' \<Longrightarrow> invalid_off v \<Longrightarrow> invalid_off v'"
proof (induction rule: grid_use.induct)
  case (by_original v i names rows pks n v')
  then have "v' = v \<or> (\<exists>ks. v' = snd (updateRowsByPKLocked (v\<lparr>editBaseline := editBaseline v + 1\<rparr>) names rows (Some ks)))"
    by (auto simp: UpdateRowsFromOriginalPK_def split: if_splits bind_splits prod.splits) (metis snd_conv)
  then show ?case using by_original(2) by (auto simp: invalid_off_def updateRows_kept)
next
  case (settle v generation i names rows pks complete v')
  from settle(1) show ?case
  proof (cases rule: settle_cases)
    case (2 ks)
    then show ?thesis
      using settle(2) updateRows_kept(3,4) [of "v\<lparr>editBaseline := Suc (editBaseline v)\<rparr>" names rows "Some ks"] by (simp add: invalid_off_def)
  qed (use settle(2) in \<open>simp_all add: invalid_off_def\<close>)
qed (simp_all add: invalid_off_def AppendRows_def UpdateRowsByPK_def updateRows_kept)

lemma resolved_invalid_off: "invalid_off v \<Longrightarrow> invalid_off (SetResolvedEditability v cols ed ids reason ref)"
  by (auto simp: invalid_off_def SetResolvedEditability_def setEditability_def Let_def)

lemma publish_invalid_off: "invalid_off (tabGrid t) \<Longrightarrow> invalid_off (tabGrid (publish t c i answer))"
  by (auto simp: publish_def Let_def resolved_invalid_off split: prod.splits)

text \<open>An answer after which the grid is editable changed nothing, or was current and allowed.\<close>

lemma publish_editable:
  assumes "editable (tabGrid (publish t c i (introspectHook i alive acquired catalogue)))" "invalid_off (tabGrid t)" "wf_catalogue catalogue"
  shows "publish t c i (introspectHook i alive acquired catalogue) = t \<or>
    \<not> disposed t \<and> iGen i = editabilityGen t \<and> iAllow i \<and> present c \<and> iConnGen i = connGen c \<and> \<not> iReadOnly i \<and>
    grid_ready (tabGrid (publish t c i (introspectHook i alive acquired catalogue)))"
proof (cases "disposed t \<or> editabilityGen t \<noteq> iGen i \<or> \<not> present c \<or> connGen c \<noteq> iConnGen i")
  case True
  then show ?thesis using publish_ignored by blast
next
  case False
  obtain ed ids reason ref resolved where a: "introspectHook i alive acquired catalogue = (ed, ids, reason, ref, resolved)" by (rule prod_cases5)
  have now: "\<not> disposed t" "editabilityGen t = iGen i" "present c" "connGen c = iConnGen i" using False by auto
  obtain reason' where p: "publish t c i (introspectHook i alive acquired catalogue) =
      t\<lparr>tabGrid := SetResolvedEditability (tabGrid t) resolved (ed \<and> iAllow i) ids reason' ref\<rparr>"
    using publish_taken [OF now a] by blast
  let ?v = "SetResolvedEditability (tabGrid t) resolved (ed \<and> iAllow i) ids reason' ref"
  have "editable ?v" using assms(1) p by simp
  then consider (same) "?v = tabGrid t"
    | (new) "ed" "iAllow i" "\<forall>c \<in> set resolved. PhysicalName c \<noteq> ''''" "gCols ?v = resolved" "rowIdentity ?v = ids"
    using resolved_editable [of "tabGrid t" resolved "ed \<and> iAllow i" ids reason' ref] assms(2) unfolding invalid_off_def by blast
  then show ?thesis
  proof cases
    case same
    then show ?thesis using p by simp
  next
    case new
    obtain ref0 ids0 reason0 cs err where r: "ResolveEditability (iCols i) catalogue = (ref0, ids0, reason0, cs, err)" by (rule prod_cases5)
    have "err = None" "reason0 = ''''" "\<not> iReadOnly i" "ids = map int ids0" "resolved = cs"
      using a new(1) r by (auto simp: introspectHook_def ApplyConnectionGate_def split: if_splits)
    then have "key_of_relation resolved ids0" using resolved_key [of "iCols i" catalogue ref0 ids0 cs] r assms(3) new(3) by simp
    then have "grid_ready ?v" using new \<open>ids = map int ids0\<close> by (auto simp: grid_ready_def)
    then show ?thesis using now new(2) p \<open>\<not> iReadOnly i\<close> by simp
  qed
qed

section \<open>Every reachable tab\<close>

definition tab_valid :: "edit_tab \<times> connection_now \<times> introspection list \<Rightarrow> bool" where
  "tab_valid w \<longleftrightarrow> tab_ok w \<and> invalid_off (tabGrid (fst w))"

lemma tab_valid_step:
  assumes "tab_step w w'" "tab_valid w"
  shows "tab_valid w'"
  using assms
proof (induction rule: tab_step.induct)
  case (identity t c "is" conn ri)
  then show ?case
    by (auto simp: tab_valid_def tab_ok_def captured_def SetIdentity_def setEditability_def Let_def invalid_off_def)
next
  case (answer i "is" catalogue t c alive acquired)
  let ?t = "publish t c i (introspectHook i alive acquired catalogue)"
  have i: "captured t c i" and off: "invalid_off (tabGrid t)" using answer by (auto simp: tab_valid_def tab_ok_def)
  have same: "captured ?t = captured t" by (subst publish_keeps) (simp add: captured_def fun_eq_iff)
  have "resultIdentity ?t \<noteq> None \<and> connID ?t \<noteq> '''' \<and> grid_ready (tabGrid ?t)" if "editable (tabGrid ?t)"
    using publish_editable [OF that off answer(2)]
  proof
    assume "?t = t"
    then show ?thesis using that answer(3) by (simp add: tab_valid_def tab_ok_def)
  next
    assume p: "\<not> disposed t \<and> iGen i = editabilityGen t \<and> iAllow i \<and> present c \<and> iConnGen i = connGen c \<and> \<not> iReadOnly i \<and> grid_ready (tabGrid ?t)"
    have "resultIdentity ?t = resultIdentity t" "connID ?t = connID t" by (subst publish_keeps, simp)+
    then show ?thesis using p i by (simp add: captured_def)
  qed
  then show ?case using answer(3) publish_invalid_off [OF off] by (simp add: tab_valid_def tab_ok_def same)
next
  case (rows t v c "is")
  then show ?case using use_keeps [OF rows(1)] use_invalid_off [OF rows(1)]
    by (auto simp: tab_valid_def tab_ok_def captured_def grid_ready_def)
qed (auto simp: tab_valid_def tab_ok_def captured_def startStreaming_def installColumns_def SetColumns_def invalid_off_def
    scheduleEditabilityIntrospect_def split: if_splits option.splits)

lemma tab_valid_new: "tab_valid (new_tab, c, [])"
  by (simp add: tab_valid_def tab_ok_def new_tab_def NewGrid_def invalid_off_def)

lemma tab_valid_reach: "tab_step\<^sup>*\<^sup>* (new_tab, c, []) w \<Longrightarrow> tab_valid w"
  by (induction rule: rtranclp_induct) (rule tab_valid_new, rule tab_valid_step)

lemma step_enables:
  assumes "tab_step (t, c, is) (t', c', is')" "tab_valid (t, c, is)" "\<not> editable (tabGrid t)" "editable (tabGrid t')"
  shows "present c \<and> \<not> connReadOnly c \<and> \<not> disposed t \<and> resultIdentity t \<noteq> None"
  using assms(1)
proof cases
  case (answer i catalogue alive acquired)
  have c: "captured t c i" and off: "invalid_off (tabGrid t)" using assms(2) answer by (auto simp: tab_valid_def tab_ok_def)
  have "\<not> disposed t \<and> iGen i = editabilityGen t \<and> iAllow i \<and> present c \<and> iConnGen i = connGen c \<and> \<not> iReadOnly i"
    using publish_editable [OF _ off] answer assms(3,4) by metis
  then show ?thesis using c by (auto simp: captured_def)
next
  case (rows v)
  then show ?thesis using use_keeps assms(3,4) by auto
qed (use assms(3,4) in \<open>auto simp: SetIdentity_def setEditability_def Let_def startStreaming_def installColumns_def SetColumns_def split: if_splits option.splits\<close>)


definition sample_live :: connection_now where
  "sample_live = \<lparr>present = True, connGen = 1, connReadOnly = False\<rparr>"

definition sample_attached :: edit_tab where
  "sample_attached = SetIdentity (installColumns (startStreaming new_tab) (Some sample_cols)) ''local'' (Some ''users'')"

definition sample_asked :: introspection where
  "sample_asked = \<lparr>iCols = sample_cols, iGen = 2, iAllow = True, iConnGen = 1, iReadOnly = False\<rparr>"


end
